(* ===== verification/Hashline_Format.thy ===== *)
theory Hashline_Format
  imports Prelude
begin

text \<open>
  \<open>packages/hashline/src/format.ts\<close> and \<open>packages/hashline/src/hash.ts\<close>: text
  normalisation, snapshot tags, the numbered-line rendering that \<open>read\<close> shows and
  \<open>write\<close> strips again, and the anchor search helpers. The SHA-256 digest of Node's
  \<open>crypto\<close> module is the parameter \<open>sha256hex\<close> (text to hexadecimal digest).
\<close>

section \<open>format.ts\<close>

definition HL_FILE_PREFIX :: string where "HL_FILE_PREFIX = [CHR 0xB6]"
definition HL_FILE_HASH_SEP :: string where "HL_FILE_HASH_SEP = ''#''"
definition HL_LINE_BODY_SEP :: string where "HL_LINE_BODY_SEP = '':''"
definition HL_FILE_HASH_LENGTH :: nat where "HL_FILE_HASH_LENGTH = 4"

lemmas hl_consts = HL_FILE_PREFIX_def HL_FILE_HASH_SEP_def HL_LINE_BODY_SEP_def
  HL_FILE_HASH_LENGTH_def

text \<open>The class \<open>[ \t\r]\<close>, and the left-to-right scan of
  \<open>text.replace(/[ \t\r]+(?=\n|$)/g, "")\<close>: a maximal run is dropped exactly when a
  newline or the end of the input follows it.\<close>

definition hash_blank :: "char \<Rightarrow> bool" where
  "hash_blank c \<longleftrightarrow> c = CHR '' '' \<or> c = CHR 0x09 \<or> c = cr"

function normalizeFileHashText :: "string \<Rightarrow> string" where
  "normalizeFileHashText [] = []"
| "normalizeFileHashText (c # cs) =
     (if hash_blank c then
        (let rest = dropWhile hash_blank cs in
         (if rest = [] \<or> hd rest = nl then [] else takeWhile hash_blank (c # cs))
         @ normalizeFileHashText rest)
      else c # normalizeFileHashText cs)"
  by pat_completeness auto
termination
  by (relation "measure length") (auto simp: le_imp_less_Suc length_dropWhile_le)

text \<open>\<open>text.replace(/\r\n/g, "\n").replace(/\r/g, "\n")\<close>.\<close>

fun replace_crlf :: "string \<Rightarrow> string" where
  "replace_crlf (x # y # s) =
     (if x = cr \<and> y = nl then nl # replace_crlf s else x # replace_crlf (y # s))"
| "replace_crlf s = s"

definition normalizeSnapshotText :: "string \<Rightarrow> string" where
  "normalizeSnapshotText text = map (\<lambda>c. if c = cr then nl else c) (replace_crlf text)"

definition computeFileHash :: "(string \<Rightarrow> string) \<Rightarrow> string \<Rightarrow> string" where
  "computeFileHash sha256hex text =
     to_upper (take HL_FILE_HASH_LENGTH
       (sha256hex (normalizeFileHashText (normalizeSnapshotText text))))"

definition formatHashlineHeader :: "string \<Rightarrow> string \<Rightarrow> string" where
  "formatHashlineHeader filePath fileHash = HL_FILE_PREFIX @ filePath @ HL_FILE_HASH_SEP @ fileHash"

definition formatNumberedLine :: "nat \<Rightarrow> string \<Rightarrow> string" where
  "formatNumberedLine lineNumber line = show_nat lineNumber @ HL_LINE_BODY_SEP @ line"

definition formatNumberedLines :: "string \<Rightarrow> nat \<Rightarrow> string" where
  "formatNumberedLines text startLine =
     unlines (map (\<lambda>(index, line). formatNumberedLine (startLine + index) line)
       (enumerate 0 (lines_of text)))"

text \<open>\<open>/^\d+:/.test(line)\<close> and \<open>line.replace(/^\d+:/, "")\<close>.\<close>

definition has_number_prefix :: "string \<Rightarrow> bool" where
  "has_number_prefix line \<longleftrightarrow>
     takeWhile is_digit line \<noteq> [] \<and> starts_with '':'' (dropWhile is_digit line)"

definition drop_number_prefix :: "string \<Rightarrow> string" where
  "drop_number_prefix line =
     (if has_number_prefix line then drop 1 (dropWhile is_digit line) else line)"

definition stripHashlinePrefixes :: "string \<Rightarrow> string \<times> bool" where
  "stripHashlinePrefixes text =
     (let withoutHeaders = filter (\<lambda>line. \<not> starts_with HL_FILE_PREFIX line) (lines_of text);
          contentLines = filter (\<lambda>line. length line > 0) withoutHeaders
      in if length contentLines = 0 \<or> \<not> list_all has_number_prefix contentLines
         then (text, False)
         else (unlines (map drop_number_prefix withoutHeaders), True))"

subsection \<open>Normalisation\<close>

lemma replace_crlf_id: "cr \<notin> set s \<Longrightarrow> replace_crlf s = s"
  by (induction s rule: replace_crlf.induct) auto

lemma normalizeSnapshotText_no_cr [simp]: "cr \<notin> set (normalizeSnapshotText s)"
  by (auto simp: normalizeSnapshotText_def)

lemma normalizeSnapshotText_id: "cr \<notin> set s \<Longrightarrow> normalizeSnapshotText s = s"
  by (auto simp: normalizeSnapshotText_def replace_crlf_id intro: map_idI)

lemma normalizeSnapshotText_idem [simp]:
  "normalizeSnapshotText (normalizeSnapshotText s) = normalizeSnapshotText s"
  by (rule normalizeSnapshotText_id) simp

lemma computeFileHash_normalized [simp]:
  "computeFileHash h (normalizeSnapshotText s) = computeFileHash h s"
  by (simp add: computeFileHash_def)

text \<open>What the regular expression computes, line by line: trailing blanks are cut.\<close>

definition strip_trailing_blanks :: "string \<Rightarrow> string" where
  "strip_trailing_blanks line = rev (dropWhile hash_blank (rev line))"

lemma hash_blank_nl [simp]: "\<not> hash_blank nl"
  by (simp add: hash_blank_def)

lemma strip_trailing_blanks_all: "\<forall>c \<in> set xs. hash_blank c \<Longrightarrow> strip_trailing_blanks xs = []"
  by (simp add: strip_trailing_blanks_def)

lemma strip_trailing_blanks_append:
  "x \<in> set ys \<Longrightarrow> \<not> hash_blank x \<Longrightarrow> strip_trailing_blanks (xs @ ys) = xs @ strip_trailing_blanks ys"
  by (simp add: strip_trailing_blanks_def dropWhile_append1)

lemma strip_trailing_blanks_Cons:
  "\<not> hash_blank x \<Longrightarrow> strip_trailing_blanks (x # xs) = x # strip_trailing_blanks xs"
  by (auto simp: strip_trailing_blanks_def dropWhile_append)

lemma split_on_Cons_neq:
  "x \<noteq> c \<Longrightarrow> split_on c (x # xs) = (x # hd (split_on c xs)) # tl (split_on c xs)"
  by (cases "split_on c xs") auto

lemma split_on_append_free:
  "c \<notin> set xs \<Longrightarrow> split_on c (xs @ ys) = (xs @ hd (split_on c ys)) # tl (split_on c ys)"
  by (induction xs) (auto simp: split_on_Cons_neq simp del: split_on.simps(2))

lemma normalizeFileHashText_lines:
  "lines_of (normalizeFileHashText s) = map strip_trailing_blanks (lines_of s)"
proof (induction s rule: normalizeFileHashText.induct)
  case 1
  then show ?case by (simp add: strip_trailing_blanks_def)
next
  case (2 c cs)
  define run where "run = takeWhile hash_blank (c # cs)"
  define rest where "rest = dropWhile hash_blank (c # cs)"
  have split: "c # cs = run @ rest" by (simp add: run_def rest_def)
  have run: "\<forall>x \<in> set run. hash_blank x" by (auto simp: run_def dest: set_takeWhileD)
  then have nl_run: "nl \<notin> set run" using hash_blank_nl by blast
  show ?case
  proof (cases "hash_blank c")
    case False
    have IH: "lines_of (normalizeFileHashText cs) = map strip_trailing_blanks (lines_of cs)"
      using 2(2) False by simp
    show ?thesis
    proof (cases "c = nl")
      case True
      with IH False show ?thesis by (simp add: strip_trailing_blanks_all)
    next
      case other: False
      with IH False show ?thesis
        by (simp add: split_on_Cons_neq strip_trailing_blanks_Cons hd_map map_tl
              del: split_on.simps(2))
    qed
  next
    case True
    then have rest': "rest = dropWhile hash_blank cs" by (simp add: rest_def)
    with 2(1) True
    have IH: "lines_of (normalizeFileHashText rest) = map strip_trailing_blanks (lines_of rest)"
      by simp
    show ?thesis
    proof (cases "rest = [] \<or> hd rest = nl")
      case stop: True
      then have "hd (lines_of rest) = []" by (cases rest) auto
      then have "lines_of rest = [] # tl (lines_of rest)"
        by (metis hd_Cons_tl split_on_not_Nil)
      then have "map strip_trailing_blanks (lines_of rest)
          = [] # map strip_trailing_blanks (tl (lines_of rest))"
        by (metis list.simps(9) strip_trailing_blanks_all empty_iff list.set(1))
      moreover have "lines_of (c # cs) = run # tl (lines_of rest)"
        unfolding split using \<open>hd (lines_of rest) = []\<close>
        by (simp add: split_on_append_free [OF nl_run])
      moreover have "normalizeFileHashText (c # cs) = normalizeFileHashText rest"
        using True stop rest' by auto
      ultimately show ?thesis
        using IH strip_trailing_blanks_all [OF run] by (simp del: split_on.simps)
    next
      case go: False
      then have "\<not> hash_blank (hd rest)" using hd_dropWhile [of hash_blank cs] by (auto simp: rest')
      moreover have "hd rest \<in> set (hd (lines_of rest))"
        using go by (cases rest) (auto simp: split_on_Cons_neq simp del: split_on.simps(2))
      ultimately have "strip_trailing_blanks (run @ hd (lines_of rest))
          = run @ strip_trailing_blanks (hd (lines_of rest))"
        by (rule strip_trailing_blanks_append [rotated])
      moreover have "normalizeFileHashText (c # cs) = run @ normalizeFileHashText rest"
        using True go rest' by (simp add: run_def)
      ultimately show ?thesis
        unfolding split by (simp add: split_on_append_free [OF nl_run] IH hd_map map_tl)
    qed
  qed
qed

text \<open>The snapshot tag's normalisation, a single scan with a regular expression,
  cuts the trailing blanks, tabs and carriage returns of every line and changes nothing else.\<close>

theorem normalizeFileHashText_per_line:
  "normalizeFileHashText s = unlines (map strip_trailing_blanks (lines_of s))"
  by (metis join_split_on normalizeFileHashText_lines)

lemma normalizeFileHashText_eqI:
  "map strip_trailing_blanks (lines_of a) = map strip_trailing_blanks (lines_of b) \<Longrightarrow>
   normalizeFileHashText a = normalizeFileHashText b"
  by (metis join_split_on normalizeFileHashText_lines)

text \<open>The tag of a file does not depend on its line-ending style nor on blanks at the
  ends of its lines: two texts whose normalised lines agree up to trailing blanks have the
  same tag, whatever the digest function.\<close>

theorem computeFileHash_line_endings:
  assumes "map strip_trailing_blanks (lines_of (normalizeSnapshotText a)) =
           map strip_trailing_blanks (lines_of (normalizeSnapshotText b))"
  shows "computeFileHash sha256hex a = computeFileHash sha256hex b"
  using normalizeFileHashText_eqI [OF assms] by (simp add: computeFileHash_def)

theorem computeFileHash_line_endings_witness:
  "computeFileHash (\<lambda>s. s) (''ab '' @ [cr, nl] @ ''cd'') = computeFileHash (\<lambda>s. s) (''ab'' @ [nl] @ ''cd'' @ '' '')"
  by (rule computeFileHash_line_endings)
     (simp add: normalizeSnapshotText_def strip_trailing_blanks_def hash_blank_def)

subsection \<open>Numbered lines\<close>

lemma not_digit_colon [simp]: "\<not> is_digit (CHR '':'')"
  by (simp add: is_digit_def)

lemma not_digit_pilcrow [simp]: "\<not> is_digit (CHR 0xB6)"
  by (simp add: is_digit_def)

lemma has_number_prefix_formatNumberedLine [simp]: "has_number_prefix (formatNumberedLine n l)"
  by (simp add: has_number_prefix_def formatNumberedLine_def hl_consts)

lemma drop_number_prefix_formatNumberedLine [simp]: "drop_number_prefix (formatNumberedLine n l) = l"
  by (simp add: drop_number_prefix_def) (simp add: formatNumberedLine_def hl_consts)

lemma formatNumberedLine_not_Nil [simp]: "formatNumberedLine n l \<noteq> []"
  by (simp add: formatNumberedLine_def)

lemma formatNumberedLine_not_header [simp]:
  "\<not> starts_with HL_FILE_PREFIX (formatNumberedLine n l)"
proof
  assume "starts_with HL_FILE_PREFIX (formatNumberedLine n l)"
  then have "CHR 0xB6 = hd (show_nat n)"
    by (cases "show_nat n") (auto simp: formatNumberedLine_def hl_consts)
  then have "CHR 0xB6 \<in> set (show_nat n)"
    by (metis hd_in_set show_nat_not_Nil)
  then show False using show_nat_digits [of "CHR 0xB6" n] by simp
qed

lemma nl_not_in_show_nat [simp]: "nl \<notin> set (show_nat n)"
  using show_nat_digits [of nl n] by (auto simp: is_digit_def)

lemma nl_formatNumberedLine [simp]: "nl \<in> set (formatNumberedLine n l) \<longleftrightarrow> nl \<in> set l"
  by (simp add: formatNumberedLine_def hl_consts)

lemma lines_of_formatNumberedLines:
  "lines_of (formatNumberedLines text k) =
     map (\<lambda>(i, l). formatNumberedLine (k + i) l) (enumerate 0 (lines_of text))"
  unfolding formatNumberedLines_def
proof (rule split_on_join)
  show "map (\<lambda>(i, l). formatNumberedLine (k + i) l) (enumerate 0 (lines_of text)) \<noteq> []"
    using split_on_not_Nil [of nl "text"] by (metis enumerate_simps(1) length_enumerate length_0_conv map_is_Nil_conv)
  show "\<forall>p \<in> set (map (\<lambda>(i, l). formatNumberedLine (k + i) l) (enumerate 0 (lines_of text))). nl \<notin> set p"
    using split_on_sep_free [OF nth_mem] by (fastforce simp: in_set_enumerate_eq)
qed

lemma strip_numbered_lines:
  assumes "lines_of text' = hdr @ lines_of (formatNumberedLines text k)"
    and "\<forall>h \<in> set hdr. starts_with HL_FILE_PREFIX h"
  shows "stripHashlinePrefixes text' = (text, True)"
proof -
  let ?nums = "map (\<lambda>(i, l). formatNumberedLine (k + i) l) (enumerate 0 (lines_of text))"
  have kept: "filter (\<lambda>line. \<not> starts_with HL_FILE_PREFIX line) (lines_of text') = ?nums"
    using assms
    by (auto simp: lines_of_formatNumberedLines filter_empty_conv split_def intro!: filter_True)
  have content: "filter (\<lambda>line. length line > 0) ?nums = ?nums"
    by (auto simp: split_def intro!: filter_True)
  have nonempty: "?nums \<noteq> []"
    using split_on_not_Nil [of nl "text"] by (metis length_enumerate length_0_conv map_is_Nil_conv)
  have all: "list_all has_number_prefix ?nums"
    by (auto simp: list_all_iff)
  have dropped: "map drop_number_prefix ?nums = lines_of text"
    by (simp add: split_def comp_def)
  show ?thesis
    unfolding stripHashlinePrefixes_def Let_def kept content using nonempty all dropped by simp
qed

text \<open>What \<open>read\<close> shows of a file under its hashline header, numbered from any
  start line, is turned back into exactly the file's text by \<open>stripHashlinePrefixes\<close>,
  even when lines of the file themselves look like headers or numbered lines.\<close>

theorem strip_format_roundtrip:
  assumes "nl \<notin> set path" and "nl \<notin> set tag"
  shows "stripHashlinePrefixes (formatHashlineHeader path tag @ [nl] @ formatNumberedLines text startLine)
         = (text, True)"
proof (rule strip_numbered_lines)
  show "lines_of (formatHashlineHeader path tag @ [nl] @ formatNumberedLines text startLine)
        = [formatHashlineHeader path tag] @ lines_of (formatNumberedLines text startLine)"
    using assms split_on_append_sep [of nl "formatHashlineHeader path tag"]
    by (simp add: formatHashlineHeader_def hl_consts del: split_on.simps)
  show "\<forall>h \<in> set [formatHashlineHeader path tag]. starts_with HL_FILE_PREFIX h"
    by (simp add: formatHashlineHeader_def hl_consts)
qed

theorem strip_format_roundtrip_witness:
  "stripHashlinePrefixes (formatHashlineHeader ''a.ts'' ''0AF3'' @ [nl] @
     formatNumberedLines (''x'' @ [nl] @ ''7:y'') 9) = (''x'' @ [nl] @ ''7:y'', True)"
  by (rule strip_format_roundtrip) simp_all

section \<open>hash.ts\<close>

text \<open>A JavaScript read \<open>xs[i]\<close>: \<open>None\<close> is \<open>undefined\<close>.\<close>

definition js_nth :: "'a list \<Rightarrow> int \<Rightarrow> 'a option" where
  "js_nth xs i = (if 0 \<le> i \<and> i < int (length xs) then Some (xs ! nat i) else None)"

text \<open>An optional string is truthy when it is present and not empty.\<close>

definition truthy :: "string option \<Rightarrow> bool" where
  "truthy s \<longleftrightarrow> (case s of None \<Rightarrow> False | Some t \<Rightarrow> t \<noteq> [])"

definition computeLineHash :: "(string \<Rightarrow> string) \<Rightarrow> string \<Rightarrow> string" where
  "computeLineHash sha256hex line = take 16 (sha256hex line)"

record hash_context =
  hc_hash :: string
  hc_before :: "string list"
  hc_after :: "string list"

text \<open>\<open>computeHashContext\<close>; an index out of range makes \<open>update(undefined)\<close> throw,
  here \<open>None\<close>.\<close>

definition computeHashContext ::
  "(string \<Rightarrow> string) \<Rightarrow> string list \<Rightarrow> nat \<Rightarrow> nat \<Rightarrow> hash_context option" where
  "computeHashContext sha256hex ls lineIndex contextLines =
     (let beforeStart = lineIndex - contextLines;
          afterEnd = min (length ls) (lineIndex + contextLines + 1)
      in if lineIndex < length ls
         then Some \<lparr>hc_hash = computeLineHash sha256hex (ls ! lineIndex),
                    hc_before = slice beforeStart lineIndex ls,
                    hc_after = slice (lineIndex + 1) afterEnd ls\<rparr>
         else None)"

definition isLikelyMatch :: "string \<Rightarrow> string \<Rightarrow> string option \<Rightarrow> string option \<Rightarrow> bool" where
  "isLikelyMatch currentLine targetAnchor currentHash targetHash \<longleftrightarrow>
     (if currentLine = targetAnchor then True
      else if truthy currentHash \<and> truthy targetHash \<and> currentHash = targetHash then True
      else if take 50 currentLine = take 50 targetAnchor then True
      else False)"

text \<open>The proximity loop: \<open>offset\<close> runs upwards while fuel, the remaining radius, lasts.\<close>

fun proximity :: "string list \<Rightarrow> string \<Rightarrow> int \<Rightarrow> nat \<Rightarrow> nat \<Rightarrow> nat option" where
  "proximity ls anchor nearLine offset 0 = None"
| "proximity ls anchor nearLine offset (Suc n) =
     (let up = nearLine - int offset; down = nearLine + int offset in
      if up \<ge> 0 \<and> js_nth ls up = Some anchor then Some (nat up)
      else if down < int (length ls) \<and> js_nth ls down = Some anchor then Some (nat down)
      else proximity ls anchor nearLine (Suc offset) n)"

definition findAnchorLine ::
  "(string \<Rightarrow> string) \<Rightarrow> string list \<Rightarrow> string \<Rightarrow> string option \<Rightarrow> int option \<Rightarrow> nat option" where
  "findAnchorLine sha256hex ls anchor targetHash nearLine =
     (case find_index (\<lambda>l. l = anchor) ls of Some idx \<Rightarrow> Some idx
      | None \<Rightarrow>
     (case (if truthy targetHash
            then find_index (\<lambda>l. computeLineHash sha256hex l = take 16 (the targetHash)) ls
            else None) of Some i \<Rightarrow> Some i
      | None \<Rightarrow>
     (let anchorPrefix = take (min 50 (length anchor)) anchor in
      case find_index (\<lambda>l. take (length anchorPrefix) l = anchorPrefix) ls of Some i \<Rightarrow> Some i
      | None \<Rightarrow>
     (case nearLine of None \<Rightarrow> None
      | Some near \<Rightarrow> proximity ls anchor near 1 (min 10 (length ls))))))"

lemma js_nth_in_set: "js_nth xs i = Some x \<Longrightarrow> x \<in> set xs"
  by (auto simp: js_nth_def nat_less_iff split: if_splits)

lemma proximity_dead: "anchor \<notin> set ls \<Longrightarrow> proximity ls anchor near off n = None"
  by (induction n arbitrary: off) (auto simp: Let_def dest: js_nth_in_set)

lemma find_index_bound: "find_index P xs = Some i \<Longrightarrow> i < length xs"
  by (simp add: find_index_Some)

lemma findAnchorLine_hint:
  "findAnchorLine sha256hex ls anchor targetHash nearLine =
   findAnchorLine sha256hex ls anchor targetHash None"
proof (cases "anchor \<in> set ls")
  case True
  then have "find_index (\<lambda>l. l = anchor) ls \<noteq> None" by (auto simp: find_index_None)
  then show ?thesis by (auto simp: findAnchorLine_def)
next
  case False
  then show ?thesis
    by (auto simp: findAnchorLine_def Let_def proximity_dead split: option.splits)
qed

text \<open>The line hint of \<open>findAnchorLine\<close> never changes its answer, since the proximity
  search repeats the exact comparison that the first step already made on every line; and
  an answer is always the index of a line.\<close>

theorem findAnchorLine_ignores_hint:
  "findAnchorLine sha256hex ls anchor targetHash nearLine =
     findAnchorLine sha256hex ls anchor targetHash None
   \<and> findAnchorLine sha256hex ls anchor targetHash nearLine \<in> insert None (Some ` {..<length ls})"
proof -
  have "i < length ls" if "findAnchorLine sha256hex ls anchor targetHash None = Some i" for i
    using that
    by (auto simp: findAnchorLine_def Let_def split: option.splits if_splits dest: find_index_bound)
  then show ?thesis
    by (cases "findAnchorLine sha256hex ls anchor targetHash None")
       (auto simp: findAnchorLine_hint [of _ _ _ _ nearLine])
qed

end
