(* ===== verification/Line_Edits.thy ===== *)
theory Line_Edits
  imports Prelude
begin

text \<open>
  The contract shared by the two editing engines of \<open>packages/hashline\<close>
  (\<open>apply.ts\<close> and \<open>patch.ts\<close>): both sort their line edits with a comparator that
  puts higher positions first and then \<open>splice\<close> one after the other. The locale
  \<open>edit_order\<close> states what the comparator promises; inside it, the in-place loop is
  shown to compute the simultaneous edit \<open>build_from\<close>, which reads every position in
  the original text.
\<close>

section \<open>Loops of splices and simultaneous edits\<close>

definition run_splices ::
  "('m \<Rightarrow> nat) \<Rightarrow> ('m \<Rightarrow> nat) \<Rightarrow> ('m \<Rightarrow> 'l list) \<Rightarrow> 'm list \<Rightarrow> 'l list \<Rightarrow> 'l list" where
  "run_splices idx cnt pay ms ls = foldl (\<lambda>r m. splice (idx m) (cnt m) (pay m) r) ls ms"

text \<open>The text produced by edits given in increasing order, all read against \<open>ls\<close>.\<close>

fun build_from ::
  "('m \<Rightarrow> nat) \<Rightarrow> ('m \<Rightarrow> nat) \<Rightarrow> ('m \<Rightarrow> 'l list) \<Rightarrow> nat \<Rightarrow> 'm list \<Rightarrow> 'l list \<Rightarrow> 'l list" where
  "build_from idx cnt pay pos [] ls = drop pos ls"
| "build_from idx cnt pay pos (m # ms) ls =
     slice pos (idx m) ls @ pay m @ build_from idx cnt pay (idx m + cnt m) ms ls"

text \<open>Increasing edits that neither overlap nor leave the text.\<close>

fun fits :: "('m \<Rightarrow> nat) \<Rightarrow> ('m \<Rightarrow> nat) \<Rightarrow> nat \<Rightarrow> 'm list \<Rightarrow> nat \<Rightarrow> bool" where
  "fits idx cnt pos [] n \<longleftrightarrow> pos \<le> n"
| "fits idx cnt pos (m # ms) n \<longleftrightarrow> pos \<le> idx m \<and> fits idx cnt (idx m + cnt m) ms n"

lemma fits_le: "fits idx cnt pos ms n \<Longrightarrow> pos \<le> n"
proof (induction ms arbitrary: pos)
  case (Cons m ms)
  then have "idx m + cnt m \<le> n" by simp
  with Cons.prems show ?case by simp
qed simp

lemma run_splices_append:
  "run_splices idx cnt pay (ms @ ns) ls = run_splices idx cnt pay ns (run_splices idx cnt pay ms ls)"
  by (simp add: run_splices_def)

lemma run_splices_Nil [simp]: "run_splices idx cnt pay [] ls = ls"
  by (simp add: run_splices_def)

lemma run_splices_Cons [simp]:
  "run_splices idx cnt pay (m # ms) ls =
     run_splices idx cnt pay ms (splice (idx m) (cnt m) (pay m) ls)"
  by (simp add: run_splices_def)

text \<open>Splicing from the highest edit down gives the simultaneous edit.\<close>

lemma run_splices_rev:
  "fits idx cnt pos ms (length ls) \<Longrightarrow>
   run_splices idx cnt pay (rev ms) ls = take pos ls @ build_from idx cnt pay pos ms ls"
proof (induction ms arbitrary: pos)
  case (Cons m ms)
  let ?i = "idx m" and ?e = "idx m + cnt m"
  from Cons.prems have rest: "fits idx cnt ?e ms (length ls)" and pos: "pos \<le> ?i" by simp_all
  have len: "?e \<le> length ls" using fits_le [OF rest] .
  have "run_splices idx cnt pay (rev (m # ms)) ls =
        splice ?i (cnt m) (pay m) (take ?e ls @ build_from idx cnt pay ?e ms ls)"
    using Cons.IH [OF rest] by (simp add: run_splices_append)
  also have "\<dots> = take ?i ls @ pay m @ build_from idx cnt pay ?e ms ls"
    using len by (simp add: splice_def min_absorb1)
  also have "take ?i ls = take pos ls @ slice pos ?i ls"
    using pos by (simp add: take_append_slice)
  finally show ?case by simp
qed simp

lemma fits_sorted_wrt:
  assumes "sorted_wrt (\<lambda>a b. idx a + cnt a \<le> idx b) ms"
    and "\<forall>m \<in> set ms. pos \<le> idx m \<and> idx m + cnt m \<le> n" and "pos \<le> n"
  shows "fits idx cnt pos ms n"
  using assms
proof (induction ms arbitrary: pos)
  case (Cons m ms)
  then show ?case by auto
qed simp

lemma fits_bounds:
  "fits idx cnt pos ms n \<Longrightarrow> m \<in> set ms \<Longrightarrow> pos \<le> idx m \<and> idx m + cnt m \<le> n"
proof (induction ms arbitrary: pos)
  case (Cons k ms)
  from Cons.prems(1) have rest: "fits idx cnt (idx k + cnt k) ms n" and pos: "pos \<le> idx k"
    by simp_all
  show ?case
  proof (cases "m = k")
    case True
    with fits_le [OF rest] pos show ?thesis by simp
  next
    case False
    with Cons.prems have "m \<in> set ms" by simp
    with Cons.IH [OF rest] pos show ?thesis by auto
  qed
qed simp

section \<open>The position-wise specification\<close>

text \<open>
  What a set of edits means, position by position in the original text: at position
  \<open>i\<close> stand the new lines of the edits placed there, in the order the edits are given,
  followed by the old line unless an edit deletes it.
\<close>

definition cell ::
  "('m \<Rightarrow> nat) \<Rightarrow> ('m \<Rightarrow> nat) \<Rightarrow> ('m \<Rightarrow> 'l list) \<Rightarrow> 'm list \<Rightarrow> 'l list \<Rightarrow> nat \<Rightarrow> 'l list" where
  "cell idx cnt pay ms ls i =
     concat (map pay (filter (\<lambda>m. idx m = i) ms)) @
     (if i < length ls \<and> \<not> list_ex (\<lambda>m. idx m \<le> i \<and> i < idx m + cnt m) ms then [ls ! i] else [])"

definition simultaneous ::
  "('m \<Rightarrow> nat) \<Rightarrow> ('m \<Rightarrow> nat) \<Rightarrow> ('m \<Rightarrow> 'l list) \<Rightarrow> 'm list \<Rightarrow> 'l list \<Rightarrow> 'l list" where
  "simultaneous idx cnt pay ms ls = concat (map (cell idx cnt pay ms ls) [0..<Suc (length ls)])"

lemma concat_map_singletons: "\<forall>i \<in> set xs. f i = [g i] \<Longrightarrow> concat (map f xs) = map g xs"
  by (induction xs) auto

lemma map_nth_upt: "b \<le> length ls \<Longrightarrow> map ((!) ls) [a..<b] = slice a b ls"
  by (auto simp: list_eq_iff_nth_eq)

lemma upt_split: "a \<le> b \<Longrightarrow> b \<le> c \<Longrightarrow> [a..<c] = [a..<b] @ [b..<c]"
  by (metis le_add_diff_inverse upt_add_eq_append)

lemma concat_map_cong: "(\<And>i. i \<in> set xs \<Longrightarrow> f i = g i) \<Longrightarrow> concat (map f xs) = concat (map g xs)"
  by (metis map_eq_conv)

lemma filter_none: "(\<And>x. x \<in> set xs \<Longrightarrow> \<not> P x) \<Longrightarrow> filter P xs = []"
  by (simp add: filter_empty_conv)

lemma cell_before:
  assumes "\<And>m. m \<in> set ms \<Longrightarrow> i < idx m" and "i < length ls"
  shows "cell idx cnt pay ms ls i = [ls ! i]"
  using assms by (force simp: cell_def list_ex_iff filter_none)

lemma cell_Cons_after:
  assumes "idx m + cnt m \<le> i" and "idx m \<noteq> i"
  shows "cell idx cnt pay (m # ms) ls i = cell idx cnt pay ms ls i"
  using assms by (auto simp: cell_def)

lemma cell_Cons_insert:
  assumes "cnt m = 0"
  shows "cell idx cnt pay (m # ms) ls (idx m) = pay m @ cell idx cnt pay ms ls (idx m)"
  using assms by (simp add: cell_def)

lemma cell_Cons_deleted:
  assumes "idx m \<le> i" and "i < idx m + cnt m" and "\<And>k. k \<in> set ms \<Longrightarrow> i < idx k"
  shows "cell idx cnt pay (m # ms) ls i = (if i = idx m then pay m else [])"
  using assms by (force simp: cell_def filter_none)

lemma build_from_cells:
  "fits idx cnt pos ms (length ls) \<Longrightarrow>
   build_from idx cnt pay pos ms ls = concat (map (cell idx cnt pay ms ls) [pos..<Suc (length ls)])"
proof (induction ms arbitrary: pos)
  case Nil
  then have "concat (map (cell idx cnt pay [] ls) [pos..<length ls]) = map ((!) ls) [pos..<length ls]"
    by (intro concat_map_singletons) (simp add: cell_def)
  moreover have "cell idx cnt pay [] ls (length ls) = []" by (simp add: cell_def)
  ultimately show ?case using Nil by (simp add: map_nth_upt slice_def)
next
  case (Cons m ms)
  let ?i = "idx m" and ?e = "idx m + cnt m" and ?n = "length ls"
  let ?c = "cell idx cnt pay (m # ms) ls" and ?c' = "cell idx cnt pay ms ls"
  from Cons.prems have rest: "fits idx cnt ?e ms ?n" and pos: "pos \<le> ?i" by simp_all
  have e: "?e \<le> ?n" using fits_le [OF rest] .
  have later: "?e \<le> idx k" if "k \<in> set ms" for k using fits_bounds [OF rest that] by simp
  have before: "concat (map ?c [pos..<?i]) = slice pos ?i ls"
  proof -
    have "concat (map ?c [pos..<?i]) = map ((!) ls) [pos..<?i]"
      using e later by (intro concat_map_singletons) (fastforce intro!: cell_before)
    then show ?thesis using e by (simp add: map_nth_upt)
  qed
  have after: "concat (map ?c [?i..<Suc ?n]) = pay m @ concat (map ?c' [?e..<Suc ?n])"
  proof (cases "cnt m = 0")
    case True
    have "concat (map ?c [Suc ?i..<Suc ?n]) = concat (map ?c' [Suc ?i..<Suc ?n])"
      using True by (intro concat_map_cong) (auto intro!: cell_Cons_after)
    then show ?thesis
      using True e by (simp add: upt_conv_Cons [of ?i "Suc ?n"] cell_Cons_insert del: upt_Suc)
  next
    case False
    have split: "[?i..<Suc ?n] = ?i # [Suc ?i..<?e] @ [?e..<Suc ?n]"
      using False e upt_split [of ?i ?e "Suc ?n"] upt_conv_Cons [of ?i ?e] by simp
    have hd: "?c ?i = pay m" using False later by (subst cell_Cons_deleted) force+
    have mid: "concat (map ?c [Suc ?i..<?e]) = []"
    proof -
      have "?c k = []" if "Suc ?i \<le> k" "k < ?e" for k
        using that later order_less_le_trans by (subst cell_Cons_deleted) auto
      then show ?thesis by simp
    qed
    have tl: "concat (map ?c [?e..<Suc ?n]) = concat (map ?c' [?e..<Suc ?n])"
      using False by (intro concat_map_cong) (auto intro!: cell_Cons_after)
    show ?thesis unfolding split map_append concat_append list.map concat.simps hd mid tl by simp
  qed
  have "[pos..<Suc ?n] = [pos..<?i] @ [?i..<Suc ?n]"
    using pos e by (intro upt_split) simp_all
  then show ?case using Cons.IH [OF rest] before after by simp
qed

lemma build_from_simultaneous:
  "fits idx cnt 0 ms (length ls) \<Longrightarrow> build_from idx cnt pay 0 ms ls = simultaneous idx cnt pay ms ls"
  unfolding simultaneous_def by (rule build_from_cells)

lemma simultaneous_cong:
  assumes "set ms = set ms'" and "\<And>i. filter (\<lambda>m. idx m = i) ms = filter (\<lambda>m. idx m = i) ms'"
  shows "simultaneous idx cnt pay ms ls = simultaneous idx cnt pay ms' ls"
  using assms unfolding simultaneous_def by (intro concat_map_cong) (simp add: cell_def list_ex_iff)

section \<open>The comparator contract\<close>

locale edit_order = comparator cmp
  for cmp :: "'m \<Rightarrow> 'm \<Rightarrow> int" +
  fixes idx :: "'m \<Rightarrow> nat" and cnt :: "'m \<Rightarrow> nat" and pay :: "'m \<Rightarrow> 'l list"
  assumes descending: "cmp a b \<le> 0 \<Longrightarrow> idx b \<le> idx a"
begin

text \<open>The loop of the code, and its meaning.\<close>

lemma loop_is_simultaneous:
  assumes "fits idx cnt 0 (rev (js_sort cmp ms)) (length ls)"
  shows "run_splices idx cnt pay (js_sort cmp ms) ls = simultaneous idx cnt pay (rev (js_sort cmp ms)) ls"
  using run_splices_rev [OF assms, of pay] build_from_simultaneous [OF assms, of pay] by simp

lemma sorted_ascending: "sorted_wrt (\<lambda>a b. idx a \<le> idx b) (rev (js_sort cmp ms))"
  unfolding sorted_wrt_rev using sorted_js_sort [of ms]
  by (rule sorted_wrt_mono_rel [rotated]) (auto intro: descending)

lemma fits_of_separated:
  assumes "distinct ms"
    and sep: "\<And>a b. a \<in> set ms \<Longrightarrow> b \<in> set ms \<Longrightarrow> a \<noteq> b \<Longrightarrow> cmp b a \<le> 0 \<Longrightarrow> idx a + cnt a \<le> idx b"
    and len: "\<And>m. m \<in> set ms \<Longrightarrow> idx m + cnt m \<le> n"
  shows "fits idx cnt 0 (rev (js_sort cmp ms)) n"
proof (rule fits_sorted_wrt)
  have "sorted_wrt (\<lambda>x y. cmp x y \<le> 0 \<and> x \<noteq> y) (js_sort cmp ms)"
    using sorted_js_sort [of ms] assms(1)
    by (auto simp: sorted_wrt_iff_nth_less nth_eq_iff_index_eq)
  then show "sorted_wrt (\<lambda>a b. idx a + cnt a \<le> idx b) (rev (js_sort cmp ms))"
    unfolding sorted_wrt_rev
    by (rule sorted_wrt_mono_rel [rotated]) (auto intro: sep)
qed (use len in auto)

end

end
