(* ===== verification/Hashline_Apply.thy ===== *)
theory Hashline_Apply
  imports Hashline_Format Line_Edits
begin

text \<open>
  \<open>packages/hashline/src/apply.ts\<close> and \<open>types.ts\<close>: edits anchored at a line's text,
  with an optional hash and context lines. An edit resolves to one line or to an error; a
  batch applies only when every edit resolves, to pairwise different lines.
\<close>

section \<open>Data\<close>

record hashline_edit =
  anchor :: string
  hash :: "string option"
  before :: "string list option"
  after :: "string list option"
  newText :: string

text \<open>The messages of \<open>resolveHashlineEdit\<close> and \<open>applyHashlineEdits\<close>, each with the
  values it interpolates.\<close>

datatype apply_error =
    AnchorHasNewline string
  | AnchorAmbiguous nat string
  | AnchorHashDiffers string
  | AnchorNotFound string
  | HashFallbackMissing string
  | HashFallbackAmbiguous nat string
  | MultipleEditsTarget nat

record resolved_edit =
  lineIndex :: nat
  edit_of :: hashline_edit
  hashMatched :: "bool option"
  warnings_of :: "string list"

record apply_result =
  res_text :: string
  res_hashMatched :: "bool option"
  res_error :: "apply_error option"
  res_warnings :: "string list option"

section \<open>Resolution\<close>

definition formatAnchor :: "string \<Rightarrow> string" where
  "formatAnchor a =
     [CHR 0x22] @ take 50 a @ (if length a > 50 then ''...'' else []) @ [CHR 0x22]"

definition normalizeHash :: "string \<Rightarrow> string" where
  "normalizeHash h = take 16 h"

definition findExactLineCandidates :: "string list \<Rightarrow> string \<Rightarrow> nat list" where
  "findExactLineCandidates ls a = indices_where (\<lambda>l. l = a) ls"

definition findHashLineCandidates :: "(string \<Rightarrow> string) \<Rightarrow> string list \<Rightarrow> string \<Rightarrow> nat list" where
  "findHashLineCandidates sha256hex ls h =
     indices_where (\<lambda>l. computeLineHash sha256hex l = normalizeHash h) ls"

definition hasContext :: "hashline_edit \<Rightarrow> bool" where
  "hasContext e \<longleftrightarrow>
     (case before e of None \<Rightarrow> False | Some b \<Rightarrow> length b \<noteq> 0) \<or>
     (case after e of None \<Rightarrow> False | Some a \<Rightarrow> length a \<noteq> 0)"

definition contextMatches :: "string list \<Rightarrow> nat \<Rightarrow> hashline_edit \<Rightarrow> bool" where
  "contextMatches ls i e \<longleftrightarrow>
     (case before e of None \<Rightarrow> True
      | Some b \<Rightarrow> \<not> i < length b \<and>
          list_all (\<lambda>k. js_nth ls (int i - int (length b) + int k) = Some (b ! k)) [0..<length b]) \<and>
     (case after e of None \<Rightarrow> True
      | Some a \<Rightarrow> \<not> i + length a \<ge> length ls \<and>
          list_all (\<lambda>k. js_nth ls (int i + 1 + int k) = Some (a ! k)) [0..<length a])"

definition filterByContext :: "string list \<Rightarrow> nat list \<Rightarrow> hashline_edit \<Rightarrow> nat list" where
  "filterByContext ls candidates e =
     (if \<not> hasContext e then candidates else filter (\<lambda>i. contextMatches ls i e) candidates)"

definition resolveHashlineEdit ::
  "(string \<Rightarrow> string) \<Rightarrow> string list \<Rightarrow> hashline_edit \<Rightarrow> apply_error + resolved_edit" where
  "resolveHashlineEdit sha256hex ls e =
     (if nl \<in> set (anchor e) then Inl (AnchorHasNewline (formatAnchor (anchor e)))
      else
        let exactCandidates = filterByContext ls (findExactLineCandidates ls (anchor e)) e in
        if length exactCandidates > 0 then
          (if length exactCandidates > 1
           then Inl (AnchorAmbiguous (length exactCandidates) (formatAnchor (anchor e)))
           else
             let i = exactCandidates ! 0 in
             if truthy (hash e) \<and> computeLineHash sha256hex (ls ! i) \<noteq> normalizeHash (the (hash e))
             then Inl (AnchorHashDiffers (formatAnchor (anchor e)))
             else Inr \<lparr>lineIndex = i, edit_of = e,
                       hashMatched = (if truthy (hash e) then Some True else None),
                       warnings_of = []\<rparr>)
        else if \<not> truthy (hash e) then Inl (AnchorNotFound (formatAnchor (anchor e)))
        else
          let hashCandidates =
                filterByContext ls (findHashLineCandidates sha256hex ls (the (hash e))) e in
          if length hashCandidates = 0 then Inl (HashFallbackMissing (formatAnchor (anchor e)))
          else if length hashCandidates > 1
          then Inl (HashFallbackAmbiguous (length hashCandidates) (formatAnchor (anchor e)))
          else
            let i = hashCandidates ! 0 in
            Inr \<lparr>lineIndex = i, edit_of = e, hashMatched = Some True,
                 warnings_of = [''recovered by hash at line '' @ show_nat (i + 1)]\<rparr>)"

section \<open>Application\<close>

definition by_line_desc :: "resolved_edit \<Rightarrow> resolved_edit \<Rightarrow> int" where
  "by_line_desc a b = int (lineIndex b) - int (lineIndex a)"

definition applyResolvedEdits :: "string list \<Rightarrow> resolved_edit list \<Rightarrow> string list" where
  "applyResolvedEdits ls resolvedEdits =
     foldl (\<lambda>newLines r. splice (lineIndex r) 1 (lines_of (newText (edit_of r))) newLines)
       ls (js_sort by_line_desc resolvedEdits)"

definition some_if_nonempty :: "'a list \<Rightarrow> 'a list option" where
  "some_if_nonempty ws = (if length ws > 0 then Some ws else None)"

definition applyHashlineEdit ::
  "(string \<Rightarrow> string) \<Rightarrow> string \<Rightarrow> hashline_edit \<Rightarrow> apply_result" where
  "applyHashlineEdit sha256hex content e =
     (let ls = lines_of content in
      case resolveHashlineEdit sha256hex ls e of
        Inl err \<Rightarrow> \<lparr>res_text = content, res_hashMatched = None, res_error = Some err,
                     res_warnings = None\<rparr>
      | Inr r \<Rightarrow> \<lparr>res_text = unlines (applyResolvedEdits ls [r]),
                   res_hashMatched = hashMatched r, res_error = None,
                   res_warnings = some_if_nonempty (warnings_of r)\<rparr>)"

text \<open>The loop of \<open>applyHashlineEdits\<close> over the edits, with its accumulators
  \<open>usedLines\<close>, \<open>warnings\<close> and \<open>resolvedEdits\<close>; a failure carries the warnings
  collected so far.\<close>

fun resolve_loop ::
  "(string \<Rightarrow> string) \<Rightarrow> string list \<Rightarrow> nat list \<Rightarrow> string list \<Rightarrow> resolved_edit list \<Rightarrow>
   hashline_edit list \<Rightarrow> (apply_error \<times> string list) + (resolved_edit list \<times> string list)" where
  "resolve_loop sha256hex ls used warns acc [] = Inr (acc, warns)"
| "resolve_loop sha256hex ls used warns acc (e # es) =
     (case resolveHashlineEdit sha256hex ls e of
        Inl err \<Rightarrow> Inl (err, warns)
      | Inr r \<Rightarrow>
          if lineIndex r \<in> set used then Inl (MultipleEditsTarget (lineIndex r + 1), warns)
          else resolve_loop sha256hex ls (lineIndex r # used) (warns @ warnings_of r) (acc @ [r]) es)"

definition applyHashlineEdits ::
  "(string \<Rightarrow> string) \<Rightarrow> string \<Rightarrow> hashline_edit list \<Rightarrow> apply_result" where
  "applyHashlineEdits sha256hex content edits =
     (let ls = lines_of content in
      case resolve_loop sha256hex ls [] [] [] edits of
        Inl (err, warns) \<Rightarrow> \<lparr>res_text = content, res_hashMatched = None, res_error = Some err,
                              res_warnings = some_if_nonempty warns\<rparr>
      | Inr (rs, warns) \<Rightarrow>
          \<lparr>res_text = unlines (applyResolvedEdits ls rs),
           res_hashMatched = (if list_all (\<lambda>r. hashMatched r = Some True) rs then Some True else None),
           res_error = None,
           res_warnings = some_if_nonempty warns\<rparr>)"

definition computeEditContext ::
  "(string \<Rightarrow> string) \<Rightarrow> string \<Rightarrow> string \<Rightarrow> nat \<Rightarrow> hash_context option" where
  "computeEditContext sha256hex content a contextLines =
     (let ls = lines_of content; candidates = findExactLineCandidates ls a in
      if length candidates \<noteq> 1 then None
      else let lineIdx = candidates ! 0 in
        Some \<lparr>hc_hash = computeLineHash sha256hex (ls ! lineIdx),
              hc_before = slice (lineIdx - contextLines) lineIdx ls,
              hc_after = slice (lineIdx + 1) (min (length ls) (lineIdx + 1 + contextLines)) ls\<rparr>)"

section \<open>Resolution finds the one matching line\<close>

text \<open>The lines an edit admits: exact text, or hash, each filtered by the context.\<close>

definition exact_at :: "string list \<Rightarrow> hashline_edit \<Rightarrow> nat \<Rightarrow> bool" where
  "exact_at ls e i \<longleftrightarrow> i < length ls \<and> ls ! i = anchor e \<and> (hasContext e \<longrightarrow> contextMatches ls i e)"

definition hash_at :: "(string \<Rightarrow> string) \<Rightarrow> string list \<Rightarrow> hashline_edit \<Rightarrow> nat \<Rightarrow> bool" where
  "hash_at sha256hex ls e i \<longleftrightarrow> i < length ls \<and> truthy (hash e) \<and>
     computeLineHash sha256hex (ls ! i) = normalizeHash (the (hash e)) \<and>
     (hasContext e \<longrightarrow> contextMatches ls i e)"

lemma set_filterByContext:
  "set (filterByContext ls c e) = {i \<in> set c. hasContext e \<longrightarrow> contextMatches ls i e}"
  by (auto simp: filterByContext_def)

lemma distinct_filterByContext [simp]: "distinct c \<Longrightarrow> distinct (filterByContext ls c e)"
  by (simp add: filterByContext_def)

lemma set_exact_candidates:
  "set (filterByContext ls (findExactLineCandidates ls (anchor e)) e) = {i. exact_at ls e i}"
  by (auto simp: set_filterByContext findExactLineCandidates_def exact_at_def)

lemma set_hash_candidates:
  "truthy (hash e) \<Longrightarrow>
   set (filterByContext ls (findHashLineCandidates h ls (the (hash e))) e) = {i. hash_at h ls e i}"
  by (auto simp: set_filterByContext findHashLineCandidates_def hash_at_def)

lemma singleton_candidates:
  assumes "distinct c" and "set c = {i. P i}"
  shows "c = [i] \<longleftrightarrow> P i \<and> (\<forall>j. P j \<longrightarrow> j = i)"
proof
  assume "P i \<and> (\<forall>j. P j \<longrightarrow> j = i)"
  then have "set c = {i}" using assms(2) by auto
  with assms(1) show "c = [i]" by (rule singleton_listD)
qed (use assms in auto)


definition resolves_to :: "(string \<Rightarrow> string) \<Rightarrow> string list \<Rightarrow> hashline_edit \<Rightarrow> nat \<Rightarrow> bool" where
  "resolves_to sha256hex ls e i \<longleftrightarrow> nl \<notin> set (anchor e) \<and>
     (exact_at ls e i \<and> (\<forall>j. exact_at ls e j \<longrightarrow> j = i) \<and> (truthy (hash e) \<longrightarrow> hash_at sha256hex ls e i) \<or>
      (\<forall>j. \<not> exact_at ls e j) \<and> hash_at sha256hex ls e i \<and> (\<forall>j. hash_at sha256hex ls e j \<longrightarrow> j = i))"

lemma length_one_conv: "length xs = Suc 0 \<longleftrightarrow> (\<exists>x. xs = [x])"
  by (cases xs) auto

lemma resolveHashlineEdit_cases:
  fixes h ls e
  defines "c \<equiv> filterByContext ls (findExactLineCandidates ls (anchor e)) e"
    and "d \<equiv> filterByContext ls (findHashLineCandidates h ls (the (hash e))) e"
  shows "resolveHashlineEdit h ls e = Inr r \<longleftrightarrow> nl \<notin> set (anchor e) \<and>
     ((\<exists>i. c = [i] \<and> \<not> (truthy (hash e) \<and> computeLineHash h (ls ! i) \<noteq> normalizeHash (the (hash e))) \<and>
         r = \<lparr>lineIndex = i, edit_of = e, hashMatched = (if truthy (hash e) then Some True else None),
              warnings_of = []\<rparr>) \<or>
      (\<exists>i. c = [] \<and> truthy (hash e) \<and> d = [i] \<and>
         r = \<lparr>lineIndex = i, edit_of = e, hashMatched = Some True,
              warnings_of = [''recovered by hash at line '' @ show_nat (i + 1)]\<rparr>))"
proof -
  have pick: "(length xs = 0 \<longrightarrow> xs = []) \<and> (0 < length xs \<and> \<not> length xs > 1 \<longleftrightarrow> (\<exists>i. xs = [i]))"
    for xs :: "nat list" by (cases xs) auto
  show ?thesis
    unfolding resolveHashlineEdit_def Let_def c_def [symmetric] d_def [symmetric]
    by (cases c; cases d; cases "tl c"; cases "tl d") auto
qed

lemma resolveHashlineEdit_index:
  "(\<exists>r. resolveHashlineEdit h ls e = Inr r \<and> lineIndex r = i) \<longleftrightarrow> resolves_to h ls e i"
proof -
  let ?c = "filterByContext ls (findExactLineCandidates ls (anchor e)) e"
  let ?d = "filterByContext ls (findHashLineCandidates h ls (the (hash e))) e"
  have dist: "distinct ?c" "distinct ?d"
    by (simp_all add: findExactLineCandidates_def findHashLineCandidates_def)
  have c1: "?c = [i] \<longleftrightarrow> exact_at ls e i \<and> (\<forall>j. exact_at ls e j \<longrightarrow> j = i)" for i
    by (rule singleton_candidates [OF dist(1) set_exact_candidates])
  have c0: "?c = [] \<longleftrightarrow> (\<forall>j. \<not> exact_at ls e j)"
    using set_exact_candidates [of ls e] by (metis empty_Collect_eq set_empty)
  have d1: "truthy (hash e) \<Longrightarrow> ?d = [i] \<longleftrightarrow> hash_at h ls e i \<and> (\<forall>j. hash_at h ls e j \<longrightarrow> j = i)" for i
    by (rule singleton_candidates [OF dist(2) set_hash_candidates])
  have h: "truthy (hash e)" if "hash_at h ls e i" for i using that by (simp add: hash_at_def)
  have eq: "hash_at h ls e i \<longleftrightarrow> computeLineHash h (ls ! i) = normalizeHash (the (hash e))"
    if "exact_at ls e i" "truthy (hash e)" for i
    using that by (auto simp: hash_at_def exact_at_def)
  have "(\<exists>r. resolveHashlineEdit h ls e = Inr r \<and> lineIndex r = i) \<longleftrightarrow> nl \<notin> set (anchor e) \<and>
     (?c = [i] \<and> \<not> (truthy (hash e) \<and> computeLineHash h (ls ! i) \<noteq> normalizeHash (the (hash e))) \<or>
      ?c = [] \<and> truthy (hash e) \<and> ?d = [i])"
    unfolding resolveHashlineEdit_cases
    by (intro iffI; elim exE conjE disjE) (simp_all split: if_splits)
  also have "\<dots> \<longleftrightarrow> resolves_to h ls e i"
  proof (cases "truthy (hash e)")
    case True
    show ?thesis unfolding resolves_to_def c1 c0 d1 [OF True] using eq [OF _ True, of i] True by blast
  next
    case False
    then show ?thesis unfolding resolves_to_def c1 c0 using h [of i] by blast
  qed
  finally show ?thesis .
qed

text \<open>An edit resolves to a line exactly when that line is the only one with the anchor's
  text and context (and its hash agrees, when the edit has one), or, when no line has the
  anchor's text, it is the only line with the edit's hash and context. Every other
  situation is an error.\<close>

theorem resolveHashlineEdit_unique:
  "(\<exists>r. resolveHashlineEdit sha256hex ls e = Inr r \<and> lineIndex r = i) \<longleftrightarrow> resolves_to sha256hex ls e i"
  by (rule resolveHashlineEdit_index)

lemma resolves_to_bound: "resolves_to h ls e i \<Longrightarrow> i < length ls"
  by (auto simp: resolves_to_def exact_at_def hash_at_def)

lemma resolveHashlineEdit_bound: "resolveHashlineEdit h ls e = Inr r \<Longrightarrow> lineIndex r < length ls"
  using resolveHashlineEdit_index resolves_to_bound by blast

lemma resolveHashlineEdit_edit: "resolveHashlineEdit h ls e = Inr r \<Longrightarrow> edit_of r = e"
  by (auto simp: resolveHashlineEdit_cases)

section \<open>Batches\<close>

interpretation line_desc: edit_order by_line_desc lineIndex "\<lambda>_. 1" "\<lambda>r. lines_of (newText (edit_of r))"
  by unfold_locales (auto simp: by_line_desc_def)

lemma applyResolvedEdits_run:
  "applyResolvedEdits ls rs =
     run_splices lineIndex (\<lambda>_. 1) (\<lambda>r. lines_of (newText (edit_of r))) (js_sort by_line_desc rs) ls"
  by (simp add: applyResolvedEdits_def run_splices_def)

text \<open>The simultaneous edit a batch of resolved edits stands for.\<close>

abbreviation edited_lines :: "resolved_edit list \<Rightarrow> string list \<Rightarrow> string list" where
  "edited_lines rs ls \<equiv> simultaneous lineIndex (\<lambda>_. 1) (\<lambda>r. lines_of (newText (edit_of r))) rs ls"

lemma distinct_map_filter_eq:
  assumes "distinct (map f xs)" "mset xs = mset ys"
  shows "filter (\<lambda>x. f x = i) xs = filter (\<lambda>x. f x = i) ys"
proof (cases "\<exists>x \<in> set xs. f x = i")
  case True
  then obtain x where x: "x \<in> set xs" "f x = i" by blast
  have sets: "set xs = set ys" using assms(2) by (metis set_mset_mset)
  have dist: "distinct xs" "distinct ys"
    using assms by (auto simp: distinct_map dest: mset_eq_imp_distinct_iff)
  have "set (filter (\<lambda>x. f x = i) xs) = {x}"
    using x assms(1) by (auto simp: distinct_map inj_on_def)
  moreover from this sets have "set (filter (\<lambda>x. f x = i) ys) = {x}" by auto
  ultimately show ?thesis using dist by (metis distinct_filter singleton_listD)
next
  case False
  moreover have "set xs = set ys" using assms(2) by (metis set_mset_mset)
  ultimately show ?thesis by (simp add: filter_none)
qed

lemma edited_lines_mset:
  assumes "distinct (map lineIndex rs)" "mset rs = mset rs'"
  shows "edited_lines rs ls = edited_lines rs' ls"
  using assms by (intro simultaneous_cong distinct_map_filter_eq) (auto dest: mset_eq_setD)

lemma applyResolvedEdits_simultaneous:
  assumes "distinct (map lineIndex rs)" "\<And>r. r \<in> set rs \<Longrightarrow> lineIndex r < length ls"
  shows "applyResolvedEdits ls rs = edited_lines rs ls"
proof -
  have "fits lineIndex (\<lambda>_. 1) 0 (rev (js_sort by_line_desc rs)) (length ls)"
  proof (rule line_desc.fits_of_separated)
    show "distinct rs" using assms(1) by (simp add: distinct_map)
    fix a b assume "a \<in> set rs" "b \<in> set rs" "a \<noteq> b" "by_line_desc b a \<le> 0"
    moreover from this have "lineIndex a \<noteq> lineIndex b"
      using assms(1) by (auto simp: distinct_map inj_on_def)
    ultimately show "lineIndex a + 1 \<le> lineIndex b" by (simp add: by_line_desc_def)
  qed (use assms(2) in fastforce)
  from line_desc.loop_is_simultaneous [OF this]
  have "applyResolvedEdits ls rs = edited_lines (rev (js_sort by_line_desc rs)) ls"
    by (simp add: applyResolvedEdits_run)
  also have "\<dots> = edited_lines rs ls"
    using assms(1) by (intro edited_lines_mset [symmetric]) simp_all
  finally show ?thesis .
qed

text \<open>What a successful pass of the resolution loop delivers.\<close>

lemma resolve_loop_Inr:
  assumes "resolve_loop h ls used ws acc es = Inr (rs, ws')"
  shows "\<exists>new. rs = acc @ new \<and> list_all2 (\<lambda>e r. resolveHashlineEdit h ls e = Inr r) es new
           \<and> distinct (map lineIndex new) \<and> set used \<inter> lineIndex ` set new = {}"
  using assms
proof (induction es arbitrary: used ws acc)
  case (Cons e es)
  then obtain r where r: "resolveHashlineEdit h ls e = Inr r" "lineIndex r \<notin> set used"
    and rec: "resolve_loop h ls (lineIndex r # used) (ws @ warnings_of r) (acc @ [r]) es = Inr (rs, ws')"
    by (auto split: sum.splits if_splits)
  from Cons.IH [OF rec] obtain new where "rs = acc @ r # new"
      "list_all2 (\<lambda>e r. resolveHashlineEdit h ls e = Inr r) es new"
      "distinct (map lineIndex new)" "set (lineIndex r # used) \<inter> lineIndex ` set new = {}"
    by auto
  with r show ?case by (intro exI [of _ "r # new"]) auto
qed simp

lemma resolve_loop_complete:
  assumes "list_all2 (\<lambda>e r. resolveHashlineEdit h ls e = Inr r) es rs"
    and "distinct (map lineIndex rs)" "set used \<inter> lineIndex ` set rs = {}"
  shows "\<exists>ws'. resolve_loop h ls used ws acc es = Inr (acc @ rs, ws')"
  using assms
proof (induction es rs arbitrary: used ws acc rule: list_all2_induct)
  case (Cons e es r rs)
  have "\<exists>ws'. resolve_loop h ls (lineIndex r # used) (ws @ warnings_of r) (acc @ [r]) es
          = Inr ((acc @ [r]) @ rs, ws')"
    using Cons.prems by (intro Cons.IH) auto
  with Cons show ?case by auto
qed simp

lemma applyHashlineEdits_ok:
  assumes "res_error (applyHashlineEdits h content es) = None"
  obtains rs where "list_all2 (\<lambda>e r. resolveHashlineEdit h (lines_of content) e = Inr r) es rs"
    "distinct (map lineIndex rs)" "\<And>r. r \<in> set rs \<Longrightarrow> lineIndex r < length (lines_of content)"
    "res_text (applyHashlineEdits h content es) = unlines (edited_lines rs (lines_of content))"
proof -
  from assms obtain rs ws where run: "resolve_loop h (lines_of content) [] [] [] es = Inr (rs, ws)"
    by (auto simp: applyHashlineEdits_def Let_def split: sum.splits prod.splits)
  from resolve_loop_Inr [OF this]
  have rs: "list_all2 (\<lambda>e r. resolveHashlineEdit h (lines_of content) e = Inr r) es rs"
    and dist: "distinct (map lineIndex rs)" by auto
  have bound: "lineIndex r < length (lines_of content)" if "r \<in> set rs" for r
    using list_all2_mem2 [OF rs that] by (auto dest: resolveHashlineEdit_bound)
  from run have "res_text (applyHashlineEdits h content es) = unlines (edited_lines rs (lines_of content))"
    using applyResolvedEdits_simultaneous [OF dist bound]
    by (simp add: applyHashlineEdits_def Let_def)
  with rs dist bound show ?thesis by (rule that)
qed

lemma applyHashlineEdits_error_None_iff:
  "res_error (applyHashlineEdits h content es) = None \<longleftrightarrow>
     (\<exists>rs. list_all2 (\<lambda>e r. resolveHashlineEdit h (lines_of content) e = Inr r) es rs
        \<and> distinct (map lineIndex rs))"
  (is "?L \<longleftrightarrow> ?R")
proof
  assume ?L
  then show ?R by (rule applyHashlineEdits_ok) blast
next
  assume ?R
  then obtain rs where "list_all2 (\<lambda>e r. resolveHashlineEdit h (lines_of content) e = Inr r) es rs"
    "distinct (map lineIndex rs)" by blast
  from resolve_loop_complete [OF this, of "[]" "[]" "[]"] show ?L
    by (auto simp: applyHashlineEdits_def)
qed

lemma list_all2_resolves:
  "(\<exists>rs. list_all2 (\<lambda>e r. resolveHashlineEdit h ls e = Inr r) es rs \<and> map lineIndex rs = is)
   \<longleftrightarrow> list_all2 (resolves_to h ls) es is"
proof
  assume "list_all2 (resolves_to h ls) es is"
  then show "\<exists>rs. list_all2 (\<lambda>e r. resolveHashlineEdit h ls e = Inr r) es rs \<and> map lineIndex rs = is"
  proof (induction rule: list_all2_induct)
    case (Cons e es i "is")
    from Cons.hyps(1) obtain r where "resolveHashlineEdit h ls e = Inr r" "lineIndex r = i"
      using resolveHashlineEdit_index by blast
    moreover from Cons.IH obtain rs where
      "list_all2 (\<lambda>e r. resolveHashlineEdit h ls e = Inr r) es rs" "map lineIndex rs = is" by blast
    ultimately show ?case by (intro exI [of _ "r # rs"]) simp
  qed simp
next
  assume "\<exists>rs. list_all2 (\<lambda>e r. resolveHashlineEdit h ls e = Inr r) es rs \<and> map lineIndex rs = is"
  then obtain rs where "list_all2 (\<lambda>e r. resolveHashlineEdit h ls e = Inr r) es rs" "is = map lineIndex rs"
    by blast
  then show "list_all2 (resolves_to h ls) es is"
    by (auto simp: list_all2_map2 resolveHashlineEdit_index [symmetric] elim!: list_all2_mono)
qed

text \<open>When a batch succeeds, splicing the edits in from the bottom up has the effect of
  editing all lines at once: every targeted line, counted in the original text, is replaced
  by the lines of its edit's new text, and all other lines stand.\<close>

theorem applyHashlineEdits_simultaneous:
  assumes "res_error (applyHashlineEdits sha256hex content edits) = None"
  shows "\<exists>rs :: resolved_edit list. list_all2 (\<lambda>e r. edit_of r = e \<and> resolves_to sha256hex (lines_of content) e (lineIndex r)) edits rs
      \<and> distinct (map lineIndex rs)
      \<and> res_text (applyHashlineEdits sha256hex content edits) =
         unlines (simultaneous lineIndex (\<lambda>_. 1) (\<lambda>r. lines_of (newText (edit_of r))) rs (lines_of content))"
proof -
  from assms obtain rs where rs: "list_all2 (\<lambda>e r. resolveHashlineEdit sha256hex (lines_of content) e = Inr r) edits rs"
    "distinct (map lineIndex rs)"
    "res_text (applyHashlineEdits sha256hex content edits) = unlines (edited_lines rs (lines_of content))"
    by (rule applyHashlineEdits_ok)
  moreover from rs(1) have "list_all2 (\<lambda>e r. edit_of r = e \<and>
      resolves_to sha256hex (lines_of content) e (lineIndex r)) edits rs"
    by (rule list_all2_mono) (auto simp: resolveHashlineEdit_edit resolveHashlineEdit_index [symmetric])
  ultimately show ?thesis by (intro exI [of _ rs]) simp
qed

lemmas hashline_eval = applyHashlineEdits_def applyHashlineEdit_def resolveHashlineEdit_def
  filterByContext_def hasContext_def contextMatches_def findExactLineCandidates_def
  findHashLineCandidates_def indices_where_def applyResolvedEdits_def by_line_desc_def
  splice_def truthy_def js_nth_def

abbreviation plain_edit :: "string \<Rightarrow> string \<Rightarrow> hashline_edit" where
  "plain_edit a t \<equiv> \<lparr>anchor = a, hash = None, before = None, after = None, newText = t\<rparr>"

theorem applyHashlineEdits_simultaneous_witness:
  "\<exists>rs :: resolved_edit list. list_all2 (\<lambda>e r. edit_of r = e \<and> resolves_to (\<lambda>s. s) (lines_of (''a'' @ [nl] @ ''b'')) e (lineIndex r))
        [plain_edit ''a'' ''x'', plain_edit ''b'' ''y''] rs
      \<and> distinct (map lineIndex rs)
      \<and> res_text (applyHashlineEdits (\<lambda>s. s) (''a'' @ [nl] @ ''b'') [plain_edit ''a'' ''x'', plain_edit ''b'' ''y'']) =
         unlines (simultaneous lineIndex (\<lambda>_. 1) (\<lambda>r. lines_of (newText (edit_of r))) rs (lines_of (''a'' @ [nl] @ ''b'')))"
  by (rule applyHashlineEdits_simultaneous) (simp add: hashline_eval)

lemma list_all2_resolve_map:
  "list_all2 (\<lambda>e r. resolveHashlineEdit h ls e = Inr r) es rs \<longleftrightarrow>
     rs = map (\<lambda>e. projr (resolveHashlineEdit h ls e)) es \<and> (\<forall>e \<in> set es. isl (resolveHashlineEdit h ls e) = False)"
proof (induction es arbitrary: rs)
  case (Cons e es)
  show ?case
    by (cases "resolveHashlineEdit h ls e") (auto simp: list_all2_Cons1 Cons.IH)
qed simp

text \<open>C35: A batch of edits is all or nothing. It succeeds exactly when every edit resolves and no two resolve to
  the same line. Then every edit is applied: the result is the original text in which each targeted line,
  counted in the original, is replaced by the lines of its edit's new text, and all other lines
  stand. Otherwise the returned text is the input, unchanged.\<close>

theorem applyHashlineEdits_atomic:
  "(res_error (applyHashlineEdits sha256hex content edits) = None \<longleftrightarrow>
      (\<exists>targets. list_all2 (resolves_to sha256hex (lines_of content)) edits targets \<and> distinct targets))
   \<and> (if res_error (applyHashlineEdits sha256hex content edits) = None
      then \<exists>rs :: resolved_edit list. list_all2 (\<lambda>e r. edit_of r = e \<and> resolves_to sha256hex (lines_of content) e (lineIndex r)) edits rs
        \<and> distinct (map lineIndex rs)
        \<and> res_text (applyHashlineEdits sha256hex content edits) =
           unlines (simultaneous lineIndex (\<lambda>_. 1) (\<lambda>r. lines_of (newText (edit_of r))) rs (lines_of content))
      else res_text (applyHashlineEdits sha256hex content edits) = content)"
proof
  show "res_error (applyHashlineEdits sha256hex content edits) = None \<longleftrightarrow>
      (\<exists>targets. list_all2 (resolves_to sha256hex (lines_of content)) edits targets \<and> distinct targets)"
    unfolding applyHashlineEdits_error_None_iff list_all2_resolves [symmetric] by auto
  have "res_error (applyHashlineEdits sha256hex content edits) = None
      \<or> res_text (applyHashlineEdits sha256hex content edits) = content"
    by (auto simp: applyHashlineEdits_def Let_def split: sum.splits)
  then show "if res_error (applyHashlineEdits sha256hex content edits) = None
      then \<exists>rs :: resolved_edit list. list_all2 (\<lambda>e r. edit_of r = e \<and> resolves_to sha256hex (lines_of content) e (lineIndex r)) edits rs
        \<and> distinct (map lineIndex rs)
        \<and> res_text (applyHashlineEdits sha256hex content edits) =
           unlines (simultaneous lineIndex (\<lambda>_. 1) (\<lambda>r. lines_of (newText (edit_of r))) rs (lines_of content))
      else res_text (applyHashlineEdits sha256hex content edits) = content"
    using applyHashlineEdits_simultaneous [of sha256hex content edits]
    by (cases "res_error (applyHashlineEdits sha256hex content edits) = None") (simp_all only: if_True if_False simp_thms)
qed

text \<open>The result of a successful batch does not depend on the order the edits are
  listed in.\<close>

theorem applyHashlineEdits_permute:
  assumes "res_error (applyHashlineEdits sha256hex content edits) = None"
    and "mset edits' = mset edits"
  shows "res_error (applyHashlineEdits sha256hex content edits') = None \<and>
         res_text (applyHashlineEdits sha256hex content edits') =
         res_text (applyHashlineEdits sha256hex content edits)"
proof -
  let ?res = "resolveHashlineEdit sha256hex (lines_of content)"
  obtain rs where rs: "list_all2 (\<lambda>e r. ?res e = Inr r) edits rs" "distinct (map lineIndex rs)"
      "res_text (applyHashlineEdits sha256hex content edits) = unlines (edited_lines rs (lines_of content))"
    using assms(1) by (rule applyHashlineEdits_ok)
  define rs' where "rs' = map (\<lambda>e. projr (?res e)) edits'"
  have mset: "mset rs' = mset rs"
    using rs(1) assms(2) by (auto simp: rs'_def list_all2_resolve_map)
  have rs': "list_all2 (\<lambda>e r. ?res e = Inr r) edits' rs'"
    using rs(1) mset_eq_setD [OF assms(2)] by (auto simp: rs'_def list_all2_resolve_map)
  have dist: "distinct (map lineIndex rs')"
    using rs(2) mset by (metis mset_eq_imp_distinct_iff mset_map)
  have ok: "res_error (applyHashlineEdits sha256hex content edits') = None"
    unfolding applyHashlineEdits_error_None_iff using rs' dist by blast
  then obtain rs'' where rs'': "list_all2 (\<lambda>e r. ?res e = Inr r) edits' rs''"
      "res_text (applyHashlineEdits sha256hex content edits') = unlines (edited_lines rs'' (lines_of content))"
    by (rule applyHashlineEdits_ok)
  with rs' have "rs'' = rs'" by (simp add: list_all2_resolve_map)
  with ok rs(3) rs''(2) edited_lines_mset [OF dist mset] show ?thesis by simp
qed

theorem applyHashlineEdits_permute_witness:
  "res_error (applyHashlineEdits (\<lambda>s. s) (''a'' @ [nl] @ ''b'') [plain_edit ''b'' ''y'', plain_edit ''a'' ''x'']) = None \<and>
   res_text (applyHashlineEdits (\<lambda>s. s) (''a'' @ [nl] @ ''b'') [plain_edit ''b'' ''y'', plain_edit ''a'' ''x'']) =
   res_text (applyHashlineEdits (\<lambda>s. s) (''a'' @ [nl] @ ''b'') [plain_edit ''a'' ''x'', plain_edit ''b'' ''y''])"
  by (rule applyHashlineEdits_permute) (simp_all add: hashline_eval)

section \<open>Computed contexts\<close>

text \<open>The edit a model sends back with the context \<open>computeEditContext\<close> gave it.\<close>

definition edit_with_context :: "string \<Rightarrow> hash_context \<Rightarrow> string \<Rightarrow> hashline_edit" where
  "edit_with_context a ctx t = \<lparr>anchor = a, hash = Some (hc_hash ctx),
     before = Some (hc_before ctx), after = Some (hc_after ctx), newText = t\<rparr>"

lemma computeEditContext_Some:
  assumes "computeEditContext h content a k = Some ctx"
  obtains i where "i < length (lines_of content)" "lines_of content ! i = a"
    "\<And>j. j < length (lines_of content) \<Longrightarrow> lines_of content ! j = a \<Longrightarrow> j = i"
    "ctx = \<lparr>hc_hash = computeLineHash h a, hc_before = slice (i - k) i (lines_of content),
            hc_after = slice (i + 1) (min (length (lines_of content)) (i + 1 + k)) (lines_of content)\<rparr>"
proof -
  let ?c = "findExactLineCandidates (lines_of content) a"
  from assms have "length ?c = Suc 0" by (auto simp: computeEditContext_def Let_def split: if_splits)
  then obtain i where c: "?c = [i]" by (auto simp: length_one_conv)
  then have cand: "{j. j < length (lines_of content) \<and> lines_of content ! j = a} = {i}"
    using set_indices_where [of "\<lambda>l. l = a" "lines_of content"]
    by (simp add: findExactLineCandidates_def)
  then have i: "i < length (lines_of content)" "lines_of content ! i = a" by auto
  show ?thesis
  proof (rule that [OF i])
    show "j = i" if "j < length (lines_of content)" "lines_of content ! j = a" for j
      using cand that by auto
  qed (use assms c i in \<open>simp add: computeEditContext_def Let_def\<close>)
qed

lemma computed_context_matches:
  assumes "i < length ls"
  shows "contextMatches ls i (edit_with_context (ls ! i)
     \<lparr>hc_hash = h, hc_before = slice (i - k) i ls,
      hc_after = slice (i + 1) (min (length ls) (i + 1 + k)) ls\<rparr> t)"
proof -
  let ?b = "slice (i - k) i ls" and ?a = "slice (i + 1) (min (length ls) (i + 1 + k)) ls"
  have lb: "length ?b = i - (i - k)" using assms by (simp add: min_def)
  have b: "js_nth ls (int i - int (length ?b) + int m) = Some (?b ! m)" if "m < length ?b" for m
  proof -
    have "int i - int (length ?b) + int m = int (i - k + m)" using lb that by linarith
    moreover have "i - k + m < length ls" "m < i - (i - k)" using that lb assms by linarith+
    ultimately show ?thesis unfolding js_nth_def by (simp only: nth_slice nat_int) simp
  qed
  have a: "js_nth ls (int i + 1 + int m) = Some (?a ! m)" if "m < length ?a" for m
  proof -
    have "m < min (length ls) (i + 1 + k) - (i + 1)" "i + 1 + m < length ls" using that by auto
    moreover have "int i + 1 + int m = int (i + 1 + m)" by simp
    ultimately show ?thesis unfolding js_nth_def by (simp only: nth_slice nat_int) simp
  qed
  have "\<not> i < length ?b" "\<not> i + length ?a \<ge> length ls" using assms by auto
  with a b show ?thesis
    by (simp add: contextMatches_def edit_with_context_def list_all_iff del: length_slice)
qed

text \<open>Sending back the hash and context lines that \<open>computeEditContext\<close> computed for a
  line resolves to that very line, on the same content, and the edit applies without error.\<close>

theorem computeEditContext_roundtrip:
  assumes "computeEditContext sha256hex content a contextLines = Some ctx"
  shows "res_error (applyHashlineEdit sha256hex content (edit_with_context a ctx t)) = None
    \<and> (\<exists>i < length (lines_of content). lines_of content ! i = a \<and>
         res_text (applyHashlineEdit sha256hex content (edit_with_context a ctx t)) =
         unlines (take i (lines_of content) @ lines_of t @ drop (i + 1) (lines_of content)))"
proof -
  let ?ls = "lines_of content" and ?e = "edit_with_context a ctx t"
  from assms obtain i where i: "i < length ?ls" "?ls ! i = a"
    and uniq: "\<And>j. j < length ?ls \<Longrightarrow> ?ls ! j = a \<Longrightarrow> j = i"
    and ctx: "ctx = \<lparr>hc_hash = computeLineHash sha256hex a, hc_before = slice (i - contextLines) i ?ls,
            hc_after = slice (i + 1) (min (length ?ls) (i + 1 + contextLines)) ?ls\<rparr>"
    by (rule computeEditContext_Some) blast
  have nl: "nl \<notin> set a" using i split_on_sep_free [OF nth_mem] by metis
  have matches: "contextMatches ?ls i ?e"
    unfolding ctx i(2) [symmetric] by (rule computed_context_matches [OF i(1)])
  have fields: "anchor ?e = a" "the (hash ?e) = computeLineHash sha256hex a"
    by (simp_all add: edit_with_context_def ctx)
  have exact: "exact_at ?ls ?e j \<longleftrightarrow> j = i" for j
    unfolding exact_at_def fields using i uniq matches by blast
  have hash: "truthy (hash ?e) \<longrightarrow> hash_at sha256hex ?ls ?e i"
    unfolding hash_at_def fields using i matches by (simp add: computeLineHash_def normalizeHash_def)
  have "resolves_to sha256hex ?ls ?e i"
    using nl exact hash by (simp add: resolves_to_def) (simp add: edit_with_context_def)
  then obtain r where r: "resolveHashlineEdit sha256hex ?ls ?e = Inr r" "lineIndex r = i"
    using resolveHashlineEdit_index by blast
  from resolveHashlineEdit_edit [OF r(1)] r show ?thesis
    using i by (auto simp: applyHashlineEdit_def Let_def applyResolvedEdits_def splice_def edit_with_context_def)
qed

theorem computeEditContext_roundtrip_witness:
  "res_error (applyHashlineEdit (\<lambda>s. s) (''a'' @ [nl] @ ''b'') (edit_with_context ''b''
      \<lparr>hc_hash = ''b'', hc_before = [''a''], hc_after = []\<rparr> ''c'')) = None
   \<and> (\<exists>i < length (lines_of (''a'' @ [nl] @ ''b'')). lines_of (''a'' @ [nl] @ ''b'') ! i = ''b'' \<and>
         res_text (applyHashlineEdit (\<lambda>s. s) (''a'' @ [nl] @ ''b'') (edit_with_context ''b''
            \<lparr>hc_hash = ''b'', hc_before = [''a''], hc_after = []\<rparr> ''c'')) =
         unlines (take i (lines_of (''a'' @ [nl] @ ''b'')) @ lines_of ''c''
            @ drop (i + 1) (lines_of (''a'' @ [nl] @ ''b''))))"
  by (rule computeEditContext_roundtrip [where contextLines = 2])
     (simp add: computeEditContext_def findExactLineCandidates_def indices_where_def
        computeLineHash_def slice_def)

end
