(* ===== verification/Hashline_Patch.thy ===== *)
theory Hashline_Patch
  imports Hashline_Format Line_Edits
begin

text \<open>
  \<open>packages/hashline/src/patch.ts\<close>: the patch language the edit tool accepts
  (\<open>PATH#TAG\<close> sections of replace, delete and insert operations), its parser, the
  checks against overlapping ranges, the application of a section to a text, and the
  recovery of a section written against an older snapshot. Every \<open>throw\<close> is a
  constructor of \<open>patch_error\<close> with the values its message shows. Line numbers of operations are
  natural numbers (the source's are exact up to \<open>2 ^ 53\<close>), and 0 and an end before the start are among
  them: the indices and counts computed from them are integers, as in the source.
\<close>

section \<open>Data\<close>

datatype anchor_pos = Before | After
datatype boundary_pos = Head | Tail

datatype operation =
    Replace nat nat "string list"
  | Delete nat nat
  | InsertAnchored anchor_pos nat "string list"
  | InsertBoundary boundary_pos "string list"

record patch_section =
  path :: string
  tag :: string
  operations :: "operation list"

datatype patch_error =
    InvalidInteger string string
  | InvalidRange string
  | BodyRowWithoutPlus string
  | InvalidSectionHeader string
  | InvalidSnapshotTag string string
  | MissingSectionHeader
  | InvalidOperation string
  | NoSections
  | NoOperations string
  | ReplaceExceeds nat nat nat
  | DeleteExceeds nat nat nat
  | InsertExceeds anchor_pos nat nat
  | OverlappingRanges
  | InsertInsideRange
  | RecoveryFailed string string bool
  | StaleSnapshot string string string

datatype parsed_header =
    HReplace nat nat
  | HDelete nat nat
  | HInsertAnchored anchor_pos nat
  | HInsertBoundary boundary_pos

record mutation =
  index :: int
  deleteCount :: int
  insertLines :: "string list"
  sourceOrder :: nat
  op_of :: operation

record editable =
  ed_lines :: "string list"
  trailingNewline :: bool

definition MAX_RECOVERY_CONTEXT_LINES :: nat where "MAX_RECOVERY_CONTEXT_LINES = 3"

section \<open>Text and lines\<close>

definition splitEditableLines :: "string \<Rightarrow> editable" where
  "splitEditableLines t =
     (let normalized = normalizeSnapshotText t;
          trailing = (normalized \<noteq> [] \<and> last normalized = nl);
          body = (if trailing then butlast normalized else normalized)
      in \<lparr>ed_lines = (if body = [] then [] else lines_of body), trailingNewline = trailing\<rparr>)"

definition joinEditableLines :: "string list \<Rightarrow> bool \<Rightarrow> string" where
  "joinEditableLines ls trailing =
     (let body = unlines ls in if trailing \<and> body \<noteq> [] then body @ [nl] else body)"

section \<open>The parser\<close>

definition parsePositiveInt :: "string \<Rightarrow> string \<Rightarrow> patch_error + nat" where
  "parsePositiveInt value label =
     (let parsed = nat_of_digits value in
      if parsed < 1 then Inl (InvalidInteger label value) else Inr parsed)"

text \<open>\<open>/^(\d+)(?:\.\.(\d+))?$/\<close> with its two groups.\<close>

definition match_range :: "string \<Rightarrow> (string \<times> string option) option" where
  "match_range value =
     (let ds = takeWhile is_digit value; rest = dropWhile is_digit value in
      if ds = [] then None
      else if rest = [] then Some (ds, None)
      else case strip_prefix ''..'' rest of
             None \<Rightarrow> None
           | Some ds' \<Rightarrow> if ds' \<noteq> [] \<and> list_all is_digit ds' then Some (ds, Some ds') else None)"

definition parseRange :: "string \<Rightarrow> patch_error + (nat \<times> nat)" where
  "parseRange value =
     (case match_range value of
        None \<Rightarrow> Inl (InvalidRange value)
      | Some (m1, m2) \<Rightarrow>
          (case parsePositiveInt m1 ''start line'' of
             Inl e \<Rightarrow> Inl e
           | Inr startLine \<Rightarrow>
               (case (case m2 of Some d \<Rightarrow> parsePositiveInt d ''end line'' | None \<Rightarrow> Inr startLine) of
                  Inl e \<Rightarrow> Inl e
                | Inr endLine \<Rightarrow>
                    if endLine < startLine then Inl (InvalidRange value)
                    else Inr (startLine, endLine))))"

text \<open>The pieces of the header expressions: \<open>\s+\<close>, then a range \<open>\d+(?:\.\.\d+)?\<close>
  followed by a given ending. None of them can match in two ways.\<close>

definition skip_spaces :: "string \<Rightarrow> string option" where
  "skip_spaces s = (if s \<noteq> [] \<and> is_space (hd s) then Some (dropWhile is_space s) else None)"

definition range_then :: "string \<Rightarrow> string \<Rightarrow> string option" where
  "range_then ending s =
     (let ds = takeWhile is_digit s; rest = dropWhile is_digit s in
      if ds = [] then None
      else if rest = ending then Some ds
      else case strip_prefix ''..'' rest of
             None \<Rightarrow> None
           | Some r \<Rightarrow> (let ds' = takeWhile is_digit r in
               if ds' \<noteq> [] \<and> dropWhile is_digit r = ending then Some (ds @ ''..'' @ ds') else None))"

definition match_replace :: "string \<Rightarrow> string option" where
  "match_replace line =
     Option.bind (Option.bind (strip_prefix ''replace'' line) skip_spaces) (range_then '':'')"

definition match_delete :: "string \<Rightarrow> string option" where
  "match_delete line =
     Option.bind (Option.bind (strip_prefix ''delete'' line) skip_spaces) (range_then [])"

definition digits_then :: "string \<Rightarrow> string \<Rightarrow> string option" where
  "digits_then ending s =
     (if takeWhile is_digit s \<noteq> [] \<and> dropWhile is_digit s = ending
      then Some (takeWhile is_digit s) else None)"

definition match_insert_word :: "string \<Rightarrow> string \<Rightarrow> string option" where
  "match_insert_word word line =
     Option.bind (Option.bind (strip_prefix ''insert'' line) skip_spaces) (strip_prefix word)"

definition match_insert_anchor :: "string \<Rightarrow> (anchor_pos \<times> string) option" where
  "match_insert_anchor line =
     (case match_insert_word ''before'' line of
        Some r \<Rightarrow> map_option (Pair Before) (Option.bind (skip_spaces r) (digits_then '':''))
      | None \<Rightarrow>
          (case match_insert_word ''after'' line of
             Some r \<Rightarrow> map_option (Pair After) (Option.bind (skip_spaces r) (digits_then '':''))
           | None \<Rightarrow> None))"

definition match_insert_boundary :: "string \<Rightarrow> boundary_pos option" where
  "match_insert_boundary line =
     (if match_insert_word ''head'' line = Some '':'' then Some Head
      else if match_insert_word ''tail'' line = Some '':'' then Some Tail
      else None)"

definition parseOperationHeader :: "string \<Rightarrow> patch_error + parsed_header option" where
  "parseOperationHeader line =
     (case match_replace line of
        Some v \<Rightarrow> (case parseRange v of Inl e \<Rightarrow> Inl e | Inr (s, e) \<Rightarrow> Inr (Some (HReplace s e)))
      | None \<Rightarrow>
     (case match_delete line of
        Some v \<Rightarrow> (case parseRange v of Inl e \<Rightarrow> Inl e | Inr (s, e) \<Rightarrow> Inr (Some (HDelete s e)))
      | None \<Rightarrow>
     (case match_insert_anchor line of
        Some (pos, v) \<Rightarrow>
          (case parsePositiveInt v ''insert anchor line'' of
             Inl e \<Rightarrow> Inl e | Inr n \<Rightarrow> Inr (Some (HInsertAnchored pos n)))
      | None \<Rightarrow>
     (case match_insert_boundary line of
        Some pos \<Rightarrow> Inr (Some (HInsertBoundary pos))
      | None \<Rightarrow> Inr None))))"

text \<open>\<open>parseBody\<close>: the rows collected and the lines from \<open>nextIndex\<close> on.\<close>

fun parseBody :: "string list \<Rightarrow> patch_error + (string list \<times> string list)" where
  "parseBody [] = Inr ([], [])"
| "parseBody (line # rest) =
     (if starts_with HL_FILE_PREFIX line then Inr ([], line # rest)
      else case parseOperationHeader line of
        Inl e \<Rightarrow> Inl e
      | Inr (Some _) \<Rightarrow> Inr ([], line # rest)
      | Inr None \<Rightarrow>
          if \<not> starts_with ''+'' line then Inl (BodyRowWithoutPlus line)
          else (case parseBody rest of
                  Inl e \<Rightarrow> Inl e
                | Inr (body, next) \<Rightarrow> Inr (drop 1 line # body, next)))"

definition last_index_of :: "char \<Rightarrow> string \<Rightarrow> nat option" where
  "last_index_of c s = map_option (\<lambda>k. length s - 1 - k) (find_index (\<lambda>x. x = c) (rev s))"

definition is_hex_upper :: "char \<Rightarrow> bool" where
  "is_hex_upper c \<longleftrightarrow> is_digit c \<or> (65 :: nat) \<le> of_char c \<and> of_char c \<le> (70 :: nat)"

definition valid_tag :: "string \<Rightarrow> bool" where
  "valid_tag t \<longleftrightarrow> length t = 4 \<and> list_all is_hex_upper t"

definition parseSectionHeader :: "string \<Rightarrow> patch_error + (string \<times> string) option" where
  "parseSectionHeader line =
     (if \<not> starts_with HL_FILE_PREFIX line then Inr None
      else
        let withoutPrefix = drop (length HL_FILE_PREFIX) line in
        case last_index_of (CHR ''#'') withoutPrefix of
          None \<Rightarrow> Inl (InvalidSectionHeader line)
        | Some hashSep \<Rightarrow>
            if hashSep = 0 \<or> hashSep = length withoutPrefix - 1
            then Inl (InvalidSectionHeader line)
            else
              let p = take hashSep withoutPrefix;
                  h = to_upper (drop (hashSep + 1) withoutPrefix)
              in if \<not> valid_tag h then Inl (InvalidSnapshotTag p h) else Inr (Some (p, h)))"

text \<open>Pushing an operation on the section last opened.\<close>

definition push_operation :: "operation \<Rightarrow> patch_section list \<Rightarrow> patch_section list" where
  "push_operation op secs =
     butlast secs @ [(last secs)\<lparr>operations := operations (last secs) @ [op]\<rparr>]"

lemma parseBody_shorter: "parseBody ls = Inr (body, rest) \<Longrightarrow> length rest \<le> length ls"
proof (induction ls arbitrary: body rest)
  case (Cons line ls)
  then show ?case
    by (auto split: if_splits sum.splits option.splits intro: le_SucI)
qed simp

text \<open>One iteration of the main loop, at \<open>line\<close> with \<open>rest\<close> after it: the sections
  and the remaining lines it leaves. \<open>current\<close> is the last of \<open>secs\<close>.\<close>

definition body_operation :: "parsed_header \<Rightarrow> string list \<Rightarrow> operation" where
  "body_operation header body =
     (case header of
        HReplace s e \<Rightarrow> Replace s e body
      | HDelete s e \<Rightarrow> Delete s e
      | HInsertAnchored pos n \<Rightarrow> InsertAnchored pos n body
      | HInsertBoundary pos \<Rightarrow> InsertBoundary pos body)"

definition is_delete_header :: "parsed_header \<Rightarrow> bool" where
  "is_delete_header h \<longleftrightarrow> (case h of HDelete _ _ \<Rightarrow> True | _ \<Rightarrow> False)"

definition parse_line ::
  "patch_section list \<Rightarrow> string \<Rightarrow> string list \<Rightarrow> patch_error + (patch_section list \<times> string list)" where
  "parse_line secs line rest =
     (if js_trim line = [] then Inr (secs, rest)
      else case parseSectionHeader line of
        Inl e \<Rightarrow> Inl e
      | Inr (Some (p, h)) \<Rightarrow> Inr (secs @ [\<lparr>path = p, tag = h, operations = []\<rparr>], rest)
      | Inr None \<Rightarrow>
          if secs = [] then Inl MissingSectionHeader
          else (case parseOperationHeader line of
            Inl e \<Rightarrow> Inl e
          | Inr None \<Rightarrow> Inl (InvalidOperation line)
          | Inr (Some header) \<Rightarrow>
              if is_delete_header header
              then Inr (push_operation (body_operation header []) secs, rest)
              else (case parseBody rest of
                      Inl e \<Rightarrow> Inl e
                    | Inr (body, next) \<Rightarrow> Inr (push_operation (body_operation header body) secs, next))))"

lemma parse_line_shorter: "parse_line secs line rest = Inr (secs', rest') \<Longrightarrow> length rest' \<le> length rest"
  by (auto simp: parse_line_def dest: parseBody_shorter split: if_splits sum.splits option.splits)

function parse_sections :: "patch_section list \<Rightarrow> string list \<Rightarrow> patch_error + patch_section list" where
  "parse_sections secs [] = Inr secs"
| "parse_sections secs (line # rest) =
     (case parse_line secs line rest of
        Inl e \<Rightarrow> Inl e
      | Inr (secs', rest') \<Rightarrow> parse_sections secs' rest')"
  by pat_completeness auto
termination
  by (relation "measure (\<lambda>(secs, ls). length ls)")
     (auto dest: parse_line_shorter simp: le_imp_less_Suc)

definition parseHashlinePatch :: "string \<Rightarrow> patch_error + patch_section list" where
  "parseHashlinePatch input =
     (case parse_sections [] (lines_of (normalizeSnapshotText input)) of
        Inl e \<Rightarrow> Inl e
      | Inr secs \<Rightarrow>
          if length secs = 0 then Inl NoSections
          else (case find (\<lambda>sec. length (operations sec) = 0) secs of
                  Some sec \<Rightarrow> Inl (NoOperations (path sec))
                | None \<Rightarrow> Inr secs))"

section \<open>Mutations\<close>

definition operationToMutation :: "operation \<Rightarrow> nat \<Rightarrow> nat \<Rightarrow> patch_error + mutation" where
  "operationToMutation op lineCount order =
     (case op of
        Replace s e ls \<Rightarrow>
          if e > lineCount then Inl (ReplaceExceeds s e lineCount)
          else Inr \<lparr>index = int s - 1, deleteCount = int e - int s + 1, insertLines = ls,
                    sourceOrder = order, op_of = op\<rparr>
      | Delete s e \<Rightarrow>
          if e > lineCount then Inl (DeleteExceeds s e lineCount)
          else Inr \<lparr>index = int s - 1, deleteCount = int e - int s + 1, insertLines = [],
                    sourceOrder = order, op_of = op\<rparr>
      | InsertBoundary pos ls \<Rightarrow>
          Inr \<lparr>index = (case pos of Head \<Rightarrow> 0 | Tail \<Rightarrow> int lineCount), deleteCount = 0,
               insertLines = ls, sourceOrder = order, op_of = op\<rparr>
      | InsertAnchored pos n ls \<Rightarrow>
          if n > lineCount then Inl (InsertExceeds pos n lineCount)
          else Inr \<lparr>index = (case pos of Before \<Rightarrow> int n - 1 | After \<Rightarrow> int n), deleteCount = 0,
                    insertLines = ls, sourceOrder = order, op_of = op\<rparr>)"

definition mutation_ranges :: "mutation list \<Rightarrow> (int \<times> int) list" where
  "mutation_ranges ms =
     js_sort (\<lambda>a b. fst a - fst b)
       (map (\<lambda>m. (index m, index m + deleteCount m - 1)) (filter (\<lambda>m. deleteCount m > 0) ms))"

text \<open>The adjacent comparison of the sorted ranges.\<close>

fun ranges_apart :: "(int \<times> int) list \<Rightarrow> bool" where
  "ranges_apart (a # b # rs) \<longleftrightarrow> \<not> fst b \<le> snd a \<and> ranges_apart (b # rs)"
| "ranges_apart _ \<longleftrightarrow> True"

definition validateNonOverlapping :: "mutation list \<Rightarrow> patch_error + unit" where
  "validateNonOverlapping ms =
     (let ranges = mutation_ranges ms in
      if \<not> ranges_apart ranges then Inl OverlappingRanges
      else if list_ex (\<lambda>m. \<not> deleteCount m > 0 \<and>
                list_ex (\<lambda>r. index m > fst r \<and> index m \<le> snd r) ranges) ms
      then Inl InsertInsideRange
      else Inr ())"

definition describeOperation :: "operation \<Rightarrow> string" where
  "describeOperation op =
     (case op of
        Replace s e _ \<Rightarrow> ''replace '' @ show_nat s @ ''..'' @ show_nat e
      | Delete s e \<Rightarrow> ''delete '' @ show_nat s @ ''..'' @ show_nat e
      | InsertAnchored pos n _ \<Rightarrow>
          ''insert '' @ (case pos of Before \<Rightarrow> ''before'' | After \<Rightarrow> ''after'') @ '' '' @ show_nat n
      | InsertBoundary pos _ \<Rightarrow> ''insert '' @ (case pos of Head \<Rightarrow> ''head'' | Tail \<Rightarrow> ''tail''))"

definition findSequenceMatches :: "string list \<Rightarrow> string list \<Rightarrow> nat list" where
  "findSequenceMatches ls pattern =
     (if length pattern = 0 \<or> length pattern > length ls then []
      else filter (\<lambda>i. list_all (\<lambda>k. ls ! (i + k) = pattern ! k) [0..<length pattern])
             [0..<length ls - length pattern + 1])"

text \<open>The loop over the context radius, from \<open>radius\<close> for \<open>fuel\<close> rounds.\<close>

fun resolve_radius ::
  "string list \<Rightarrow> string list \<Rightarrow> int \<Rightarrow> int \<Rightarrow> nat \<Rightarrow> nat \<Rightarrow> bool \<Rightarrow> bool + int" where
  "resolve_radius baseLines currentLines baseIndex targetLength radius 0 sawAmbiguous = Inl sawAmbiguous"
| "resolve_radius baseLines currentLines baseIndex targetLength radius (Suc fuel) sawAmbiguous =
     (let beforeCount = min (int radius) baseIndex;
          afterCount = min (int radius) (int (length baseLines) - (baseIndex + targetLength));
          contextStart = baseIndex - beforeCount;
          contextEnd = baseIndex + targetLength + afterCount;
          matches = findSequenceMatches currentLines (js_slice contextStart contextEnd baseLines)
      in if length matches = 1 then Inr (int (matches ! 0) + beforeCount)
         else resolve_radius baseLines currentLines baseIndex targetLength (radius + 1) fuel
                (sawAmbiguous \<or> length matches > 1))"

definition resolveCurrentIndexWithContext ::
  "string list \<Rightarrow> string list \<Rightarrow> int \<Rightarrow> int \<Rightarrow> string \<Rightarrow> operation \<Rightarrow> patch_error + int" where
  "resolveCurrentIndexWithContext baseLines currentLines baseIndex targetLength p op =
     (case resolve_radius baseLines currentLines baseIndex targetLength 0
             (MAX_RECOVERY_CONTEXT_LINES + 1) False of
        Inr i \<Rightarrow> Inr i
      | Inl ambiguous \<Rightarrow> Inl (RecoveryFailed p (describeOperation op) ambiguous))"

definition recoverMutationAgainstCurrent ::
  "mutation \<Rightarrow> string list \<Rightarrow> string list \<Rightarrow> string \<Rightarrow> patch_error + mutation" where
  "recoverMutationAgainstCurrent m baseLines currentLines p =
     (case op_of m of
        InsertBoundary pos _ \<Rightarrow>
          Inr (m\<lparr>index := (case pos of Head \<Rightarrow> 0 | Tail \<Rightarrow> int (length currentLines))\<rparr>)
      | InsertAnchored pos n _ \<Rightarrow>
          (case resolveCurrentIndexWithContext baseLines currentLines (int n - 1) 1 p (op_of m) of
             Inl e \<Rightarrow> Inl e
           | Inr anchorIndex \<Rightarrow>
               Inr (m\<lparr>index := (case pos of Before \<Rightarrow> anchorIndex | After \<Rightarrow> anchorIndex + 1)\<rparr>))
      | _ \<Rightarrow>
          (case resolveCurrentIndexWithContext baseLines currentLines (index m) (deleteCount m) p (op_of m) of
             Inl e \<Rightarrow> Inl e
           | Inr i \<Rightarrow> Inr (m\<lparr>index := i\<rparr>)))"

definition by_index_desc :: "mutation \<Rightarrow> mutation \<Rightarrow> int" where
  "by_index_desc a b =
     (if index b - index a \<noteq> 0 then index b - index a
      else int (sourceOrder b) - int (sourceOrder a))"

definition applyMutations :: "string list \<Rightarrow> bool \<Rightarrow> mutation list \<Rightarrow> string" where
  "applyMutations ls trailing ms =
     joinEditableLines
       (foldl (\<lambda>result m. js_splice (index m) (deleteCount m) (insertLines m) result) ls
          (js_sort by_index_desc ms)) trailing"

definition section_mutations :: "patch_section \<Rightarrow> nat \<Rightarrow> patch_error + mutation list" where
  "section_mutations sec lineCount =
     mapM (\<lambda>(i, op). operationToMutation op lineCount i) (enumerate 0 (operations sec))"

definition applyHashlineSectionToText :: "string \<Rightarrow> patch_section \<Rightarrow> patch_error + string" where
  "applyHashlineSectionToText t sec =
     (let ed = splitEditableLines t in
      case section_mutations sec (length (ed_lines ed)) of
        Inl e \<Rightarrow> Inl e
      | Inr mutations \<Rightarrow>
          (case validateNonOverlapping mutations of
             Inl e \<Rightarrow> Inl e
           | Inr _ \<Rightarrow> Inr (applyMutations (ed_lines ed) (trailingNewline ed) mutations)))"

definition validateHashlineSnapshot ::
  "(string \<Rightarrow> string) \<Rightarrow> string \<Rightarrow> string \<Rightarrow> string \<Rightarrow> patch_error + unit" where
  "validateHashlineSnapshot sha256hex t expectedHash p =
     (let actualHash = computeFileHash sha256hex t in
      if actualHash \<noteq> to_upper expectedHash then Inl (StaleSnapshot p expectedHash actualHash)
      else Inr ())"

definition applyHashlineSectionWithRecovery ::
  "(string \<Rightarrow> string) \<Rightarrow> string \<Rightarrow> string \<Rightarrow> patch_section \<Rightarrow> patch_error + (string \<times> bool)" where
  "applyHashlineSectionWithRecovery sha256hex baseText currentText sec =
     (let normalizedBaseText = normalizeSnapshotText baseText;
          normalizedCurrentText = normalizeSnapshotText currentText in
      case validateHashlineSnapshot sha256hex normalizedBaseText (tag sec) (path sec) of
        Inl e \<Rightarrow> Inl e
      | Inr _ \<Rightarrow>
      if computeFileHash sha256hex normalizedCurrentText = to_upper (tag sec) then
        (case applyHashlineSectionToText normalizedCurrentText sec of
           Inl e \<Rightarrow> Inl e | Inr t \<Rightarrow> Inr (t, False))
      else
        let baseLines = ed_lines (splitEditableLines normalizedBaseText);
            current = splitEditableLines normalizedCurrentText in
        case section_mutations sec (length baseLines) of
          Inl e \<Rightarrow> Inl e
        | Inr baseMutations \<Rightarrow>
        (case validateNonOverlapping baseMutations of
          Inl e \<Rightarrow> Inl e
        | Inr _ \<Rightarrow>
        (case mapM (\<lambda>m. recoverMutationAgainstCurrent m baseLines (ed_lines current) (path sec)) baseMutations of
          Inl e \<Rightarrow> Inl e
        | Inr recovered \<Rightarrow>
        (case validateNonOverlapping recovered of
          Inl e \<Rightarrow> Inl e
        | Inr _ \<Rightarrow>
          Inr (applyMutations (ed_lines current) (trailingNewline current) recovered, True)))))"

section \<open>What the parser guarantees\<close>

definition operation_lines :: "operation \<Rightarrow> string list" where
  "operation_lines op = (case op of Replace _ _ ls \<Rightarrow> ls | Delete _ _ \<Rightarrow> []
     | InsertAnchored _ _ ls \<Rightarrow> ls | InsertBoundary _ ls \<Rightarrow> ls)"

definition wf_operation :: "operation \<Rightarrow> bool" where
  "wf_operation op = (case op of Replace s e _ \<Rightarrow> 1 \<le> s \<and> s \<le> e | Delete s e \<Rightarrow> 1 \<le> s \<and> s \<le> e
     | InsertAnchored _ n _ \<Rightarrow> 1 \<le> n | InsertBoundary _ _ \<Rightarrow> True)"

definition wf_section :: "patch_section \<Rightarrow> bool" where
  "wf_section sec \<longleftrightarrow> path sec \<noteq> [] \<and> valid_tag (tag sec) \<and> list_all wf_operation (operations sec)"

lemma parseRange_Inr: "parseRange v = Inr (s, e) \<Longrightarrow> 1 \<le> s \<and> s \<le> e"
  by (auto simp: parseRange_def parsePositiveInt_def Let_def split: option.splits sum.splits if_splits)

definition wf_header :: "parsed_header \<Rightarrow> bool" where
  "wf_header h = (case h of HReplace s e \<Rightarrow> 1 \<le> s \<and> s \<le> e | HDelete s e \<Rightarrow> 1 \<le> s \<and> s \<le> e
     | HInsertAnchored _ n \<Rightarrow> 1 \<le> n | HInsertBoundary _ \<Rightarrow> True)"

lemma parseOperationHeader_wf: "parseOperationHeader line = Inr (Some h) \<Longrightarrow> wf_header h"
  by (auto simp: parseOperationHeader_def wf_header_def parsePositiveInt_def Let_def
      dest: parseRange_Inr split: option.splits sum.splits if_splits)

lemma last_index_of_bound: "last_index_of c s = Some k \<Longrightarrow> k < length s"
  by (auto simp: last_index_of_def dest!: find_index_Some)

lemma parseSectionHeader_Some:
  "parseSectionHeader line = Inr (Some (p, h)) \<Longrightarrow> p \<noteq> [] \<and> valid_tag h"
  by (auto simp: parseSectionHeader_def Let_def split: if_splits option.splits dest: last_index_of_bound)

lemma push_operation_wf:
  assumes "list_all wf_section secs" "secs \<noteq> []" "wf_operation op"
  shows "list_all wf_section (push_operation op secs)"
proof -
  from assms(2) obtain ys y where "secs = ys @ [y]" by (cases secs rule: rev_cases) auto
  with assms(1,3) show ?thesis by (simp add: push_operation_def wf_section_def)
qed

lemma body_operation_wf: "wf_header h \<Longrightarrow> wf_operation (body_operation h body)"
  by (cases h) (simp_all add: wf_header_def wf_operation_def body_operation_def)

lemma parse_line_wf:
  assumes "parse_line secs line rest = Inr (secs', rest')" "list_all wf_section secs"
  shows "list_all wf_section secs'"
  using assms
  by (auto simp: parse_line_def dest: parseOperationHeader_wf parseSectionHeader_Some
      intro: push_operation_wf body_operation_wf split: if_splits sum.splits option.splits)
     (auto simp: wf_section_def dest: parseSectionHeader_Some)

lemma parse_sections_wf:
  "parse_sections secs ls = Inr out \<Longrightarrow> list_all wf_section secs \<Longrightarrow> list_all wf_section out"
  by (induction secs ls rule: parse_sections.induct)
     (auto split: sum.splits dest: parse_line_wf)

text \<open>Whatever text is parsed, an accepted patch has at least one section; every section
  has a non-empty path, a tag of four upper-case hexadecimal digits and at least one
  operation; and every operation has line numbers from 1 with \<open>start \<le> end\<close>.\<close>

theorem parseHashlinePatch_wf:
  assumes "parseHashlinePatch input = Inr secs"
  shows "secs \<noteq> [] \<and> list_all (\<lambda>sec. wf_section sec \<and> operations sec \<noteq> []) secs"
proof -
  from assms have parsed: "parse_sections [] (lines_of (normalizeSnapshotText input)) = Inr secs"
    and "secs \<noteq> []" and "find (\<lambda>sec. operations sec = []) secs = None"
    by (auto simp: parseHashlinePatch_def split: sum.splits if_splits option.splits)
  moreover have "list_all wf_section secs"
    using parse_sections_wf [OF parsed] by simp
  ultimately show ?thesis by (auto simp: list_all_iff find_None_iff)
qed


section \<open>Printing and parsing\<close>

text \<open>The concrete syntax of a patch, with the headers the code itself prints.\<close>

definition header_line :: "operation \<Rightarrow> string" where
  "header_line op = describeOperation op @ (case op of Delete _ _ \<Rightarrow> [] | _ \<Rightarrow> '':'')"

definition render_operation :: "operation \<Rightarrow> string list" where
  "render_operation op = header_line op # map (\<lambda>l. CHR ''+'' # l) (operation_lines op)"

definition render_section :: "patch_section \<Rightarrow> string list" where
  "render_section sec =
     formatHashlineHeader (path sec) (tag sec) # concat (map render_operation (operations sec))"

definition render_patch :: "patch_section list \<Rightarrow> string" where
  "render_patch secs = unlines (concat (map render_section secs))"

definition printable :: "patch_section \<Rightarrow> bool" where
  "printable sec \<longleftrightarrow> wf_section sec \<and> operations sec \<noteq> [] \<and>
     set (path sec) \<inter> {nl, cr} = {} \<and>
     (\<forall>op \<in> set (operations sec). \<forall>l \<in> set (operation_lines op). set l \<inter> {nl, cr} = {})"

definition header_of :: "operation \<Rightarrow> parsed_header" where
  "header_of op = (case op of Replace s e _ \<Rightarrow> HReplace s e | Delete s e \<Rightarrow> HDelete s e
     | InsertAnchored pos n _ \<Rightarrow> HInsertAnchored pos n | InsertBoundary pos _ \<Rightarrow> HInsertBoundary pos)"

lemma hd_show_nat_digit: "is_digit (hd (show_nat n))"
  by (rule show_nat_digits [of _ n]) simp

lemma not_space_digit: "is_digit c \<Longrightarrow> \<not> is_space c"
  by (auto simp: is_digit_def is_space_def)

lemma skip_one_space [simp]:
  "s \<noteq> [] \<Longrightarrow> \<not> is_space (hd s) \<Longrightarrow> skip_spaces (CHR '' '' # s) = Some s"
  by (cases s) (auto simp: skip_spaces_def is_space_def)

lemma skip_space_show_nat [simp]: "skip_spaces (CHR '' '' # show_nat n @ t) = Some (show_nat n @ t)"
  by (rule skip_one_space) (auto simp: hd_append not_space_digit hd_show_nat_digit)

lemma not_digit_dot [simp]: "\<not> is_digit (CHR ''.'')"
  by (simp add: is_digit_def)

lemma range_then_show [simp]:
  "range_then '':'' (show_nat s @ CHR ''.'' # CHR ''.'' # show_nat e @ '':'')
     = Some (show_nat s @ ''..'' @ show_nat e)"
  "range_then [] (show_nat s @ CHR ''.'' # CHR ''.'' # show_nat e)
     = Some (show_nat s @ ''..'' @ show_nat e)"
  by (simp_all add: range_then_def Let_def)

lemma digits_then_show [simp]: "digits_then '':'' (show_nat n @ '':'') = Some (show_nat n)"
  by (simp add: digits_then_def)

lemma parsePositiveInt_show [simp]: "1 \<le> n \<Longrightarrow> parsePositiveInt (show_nat n) l = Inr n"
  by (simp add: parsePositiveInt_def)

lemma parseRange_show [simp]:
  "1 \<le> s \<Longrightarrow> s \<le> e \<Longrightarrow>
   parseRange (show_nat s @ CHR ''.'' # CHR ''.'' # show_nat e) = Inr (s, e)"
  by (simp add: parseRange_def match_range_def Let_def list_all_iff show_nat_digits)

lemma space_letter_hd: "\<not> is_space (CHR ''h'')" "\<not> is_space (CHR ''t'')" "\<not> is_space (CHR ''b'')" "\<not> is_space (CHR ''a'')"
  by (simp_all add: is_space_def)

lemma parseOperationHeader_header_line:
  "wf_operation op \<Longrightarrow> parseOperationHeader (header_line op) = Inr (Some (header_of op))"
proof (cases op)
  case (InsertAnchored pos n ls)
  assume "wf_operation op"
  with InsertAnchored show ?thesis
    by (cases pos) (simp_all add: wf_operation_def header_line_def describeOperation_def header_of_def
          parseOperationHeader_def match_replace_def match_delete_def match_insert_anchor_def
          match_insert_word_def space_letter_hd)
next
  case (InsertBoundary pos ls)
  then show ?thesis
    by (cases pos) (simp_all add: header_line_def describeOperation_def header_of_def
          parseOperationHeader_def match_replace_def match_delete_def match_insert_anchor_def
          match_insert_word_def match_insert_boundary_def space_letter_hd)
qed (simp_all add: wf_operation_def header_line_def describeOperation_def header_of_def
       parseOperationHeader_def match_replace_def match_delete_def)

lemma parseOperationHeader_plus [simp]: "parseOperationHeader (CHR ''+'' # l) = Inr None"
  by (simp add: parseOperationHeader_def match_replace_def match_delete_def match_insert_anchor_def
        match_insert_word_def match_insert_boundary_def)

text \<open>A body ends at the end of the patch, at a section header or at an operation header.\<close>

definition body_stops :: "string list \<Rightarrow> bool" where
  "body_stops rest \<longleftrightarrow> rest = [] \<or> starts_with HL_FILE_PREFIX (hd rest) \<or>
     (\<exists>h. parseOperationHeader (hd rest) = Inr (Some h))"

lemma parseBody_rows:
  "body_stops rest \<Longrightarrow> parseBody (map (\<lambda>l. CHR ''+'' # l) ls @ rest) = Inr (ls, rest)"
proof (induction ls)
  case Nil
  then show ?case by (cases rest) (auto simp: body_stops_def)
next
  case (Cons l ls)
  then show ?case by (simp add: HL_FILE_PREFIX_def)
qed

lemma js_trim_not_Nil: "\<not> is_space c \<Longrightarrow> js_trim (c # s) \<noteq> []"
  by (auto simp: js_trim_def dropWhile_append)

lemma header_line_start:
  "\<exists>c s. header_line op = c # s \<and> \<not> is_space c \<and> c \<noteq> CHR 0xB6"
  by (cases op) (auto simp: header_line_def describeOperation_def is_space_def)

lemma body_operation_header_of: "body_operation (header_of op) (operation_lines op) = op"
  by (cases op) (simp_all add: body_operation_def header_of_def operation_lines_def)

lemma body_operation_delete:
  "is_delete_header (header_of op) \<Longrightarrow> body_operation (header_of op) [] = op \<and> operation_lines op = []"
  by (cases op) (simp_all add: body_operation_def header_of_def operation_lines_def is_delete_header_def)

lemma parse_line_operation:
  assumes "wf_operation op" "secs \<noteq> []" "body_stops rest"
  shows "parse_line secs (header_line op) (map (\<lambda>l. CHR ''+'' # l) (operation_lines op) @ rest) =
         Inr (push_operation op secs, rest)"
proof -
  obtain c s where line: "header_line op = c # s" "\<not> is_space c" "c \<noteq> CHR 0xB6"
    using header_line_start by blast
  then have "js_trim (header_line op) \<noteq> []" by (simp add: js_trim_not_Nil)
  moreover have "parseSectionHeader (header_line op) = Inr None"
    using line by (simp add: parseSectionHeader_def HL_FILE_PREFIX_def)
  ultimately show ?thesis
    using assms(2) body_operation_delete [of op] parseBody_rows [OF assms(3)]
    by (simp add: parse_line_def parseOperationHeader_header_line [OF assms(1)]
          body_operation_header_of)
qed

lemma body_stops_operation: "wf_operation op \<Longrightarrow> body_stops (render_operation op @ rest)"
  by (simp add: body_stops_def render_operation_def parseOperationHeader_header_line)

lemma push_operation_last:
  "push_operation op (secs @ [sec]) = secs @ [sec\<lparr>operations := operations sec @ [op]\<rparr>]"
  by (simp add: push_operation_def)

lemma parse_operations:
  assumes "list_all wf_operation ops" "body_stops rest"
  shows "parse_sections (secs @ [sec]) (concat (map render_operation ops) @ rest) =
         parse_sections (secs @ [sec\<lparr>operations := operations sec @ ops\<rparr>]) rest"
  using assms
proof (induction ops arbitrary: sec)
  case (Cons op ops)
  let ?rest = "concat (map render_operation ops) @ rest"
  have "body_stops ?rest"
    using Cons.prems by (cases ops) (auto simp: body_stops_operation)
  with Cons.prems have "parse_sections (secs @ [sec]) (render_operation op @ ?rest) =
      parse_sections (push_operation op (secs @ [sec])) ?rest"
    using parse_line_operation [of op "secs @ [sec]" ?rest]
    by (simp add: render_operation_def [of op])
  with Cons show ?case
    using Cons.IH [of "sec\<lparr>operations := operations sec @ [op]\<rparr>"] by (simp add: push_operation_last)
qed simp

lemma hash_free_tag: "valid_tag t \<Longrightarrow> CHR ''#'' \<notin> set t"
  by (auto simp: valid_tag_def list_all_iff is_hex_upper_def is_digit_def)

lemma upper_tag: "valid_tag t \<Longrightarrow> to_upper t = t"
  by (auto simp: valid_tag_def list_all_iff is_hex_upper_def is_digit_def to_upper_def
      upper_char_def Let_def intro!: map_idI)

lemma last_index_of_unique:
  "c \<notin> set t \<Longrightarrow> last_index_of c (p @ c # t) = Some (length p)"
  using find_index_append_first [of "rev t" "\<lambda>x. x = c" c "rev p"]
  by (simp add: last_index_of_def) (metis add_diff_cancel_right')

lemma parseSectionHeader_format:
  assumes "p \<noteq> []" "valid_tag t"
  shows "parseSectionHeader (formatHashlineHeader p t) = Inr (Some (p, t))"
  using assms last_index_of_unique [OF hash_free_tag [OF assms(2)], of p]
  by (auto simp: parseSectionHeader_def formatHashlineHeader_def hl_consts upper_tag Let_def)
     (auto simp: valid_tag_def)

lemma parse_line_section:
  assumes "p \<noteq> []" "valid_tag t"
  shows "parse_line secs (formatHashlineHeader p t) rest =
         Inr (secs @ [\<lparr>path = p, tag = t, operations = []\<rparr>], rest)"
proof -
  have "js_trim (formatHashlineHeader p t) \<noteq> []"
    by (simp add: formatHashlineHeader_def HL_FILE_PREFIX_def js_trim_not_Nil is_space_def)
  then show ?thesis by (simp add: parse_line_def parseSectionHeader_format [OF assms])
qed

lemma body_stops_section: "body_stops (render_section sec @ rest)"
  by (simp add: body_stops_def render_section_def formatHashlineHeader_def HL_FILE_PREFIX_def)

lemma parse_rendered_sections:
  "list_all printable secs \<Longrightarrow> body_stops rest \<Longrightarrow>
   parse_sections acc (concat (map render_section secs) @ rest) = parse_sections (acc @ secs) rest"
proof (induction secs arbitrary: acc)
  case (Cons sec secs)
  let ?rest = "concat (map render_section secs) @ rest"
  have stop: "body_stops ?rest"
    using body_stops_section Cons.prems(2) by (cases secs) simp_all
  from Cons.prems have sec: "path sec \<noteq> []" "valid_tag (tag sec)" "list_all wf_operation (operations sec)"
    by (simp_all add: printable_def wf_section_def)
  have eta: "\<lparr>path = path sec, tag = tag sec, operations = operations sec\<rparr> = sec" by simp
  have "parse_sections acc (concat (map render_section (sec # secs)) @ rest) =
        parse_sections (acc @ [\<lparr>path = path sec, tag = tag sec, operations = operations sec\<rparr>]) ?rest"
    using parse_operations [OF sec(3) stop, of acc "\<lparr>path = path sec, tag = tag sec, operations = []\<rparr>"]
    by (simp add: render_section_def parse_line_section [OF sec(1,2)])
  with Cons show ?case unfolding eta by simp
qed simp

lemma nlcr_describe: "set (describeOperation op) \<inter> {nl, cr} = {}"
proof -
  have "nl \<notin> set (show_nat n)" "cr \<notin> set (show_nat n)" for n
    using show_nat_digits [of nl n] show_nat_digits [of cr n] by (auto simp: is_digit_def)
  then show ?thesis by (cases op) (auto simp: describeOperation_def split: anchor_pos.splits boundary_pos.splits)
qed

lemma nlcr_tag: "valid_tag t \<Longrightarrow> set t \<inter> {nl, cr} = {}"
  by (auto simp: valid_tag_def list_all_iff is_hex_upper_def is_digit_def)

lemma nlcr_header_line: "set (header_line op) \<inter> {nl, cr} = {}"
  using nlcr_describe [of op] by (cases op) (simp_all add: header_line_def)

lemma nlcr_render_section:
  assumes "printable sec" "l \<in> set (render_section sec)"
  shows "set l \<inter> {nl, cr} = {}"
  using assms nlcr_tag [of "tag sec"] nlcr_header_line
  by (auto simp: printable_def wf_section_def render_section_def render_operation_def
      formatHashlineHeader_def hl_consts)

text \<open>C15: Printing sections in the patch syntax (the section header and operation
  descriptions are the strings the code itself formats) and parsing the text gives the same
  sections back, for any paths, tags and body rows that fit on a line.\<close>

theorem parse_render_roundtrip:
  assumes "list_all printable secs" and "secs \<noteq> []"
  shows "parseHashlinePatch (render_patch secs) = Inr secs"
proof -
  let ?ls = "concat (map render_section secs)"
  have nlcr: "set l \<inter> {nl, cr} = {}" if "l \<in> set ?ls" for l
    using that assms(1) nlcr_render_section by (force simp: list_all_iff)
  have "?ls \<noteq> []" using assms(2) by (cases secs) (simp_all add: render_section_def)
  then have lines: "lines_of (render_patch secs) = ?ls"
    unfolding render_patch_def using nlcr by (intro split_on_join) auto
  have "cr \<notin> set (render_patch secs)"
    unfolding render_patch_def using set_join_with [of "[nl]" ?ls] nlcr by fastforce
  then have "normalizeSnapshotText (render_patch secs) = render_patch secs"
    by (rule normalizeSnapshotText_id)
  moreover have "find (\<lambda>sec. operations sec = []) secs = None"
    using assms(1) by (auto simp: find_None_iff list_all_iff printable_def)
  ultimately show ?thesis
    using parse_rendered_sections [OF assms(1), of "[]" "[]"] assms(2)
    by (simp add: parseHashlinePatch_def lines body_stops_def)
qed

lemmas patch_eval = wf_section_def wf_operation_def valid_tag_def is_hex_upper_def is_digit_def
  printable_def operation_lines_def

abbreviation sample_section :: patch_section where
  "sample_section \<equiv> \<lparr>path = ''a#b'', tag = ''0AF3'',
     operations = [Replace 2 3 [''x'', []], Delete 5 5, InsertAnchored After 7 [''y''], InsertBoundary Tail []]\<rparr>"

theorem parse_render_roundtrip_witness:
  "parseHashlinePatch (render_patch [sample_section]) = Inr [sample_section]"
  by (rule parse_render_roundtrip) (simp_all add: patch_eval)

theorem parseHashlinePatch_wf_witness:
  "[sample_section] \<noteq> [] \<and> list_all (\<lambda>sec. wf_section sec \<and> operations sec \<noteq> []) [sample_section]"
proof (rule parseHashlinePatch_wf)
  show "parseHashlinePatch (formatHashlineHeader ''a#b'' ''0af3'' @ [nl] @ ''replace 2..3:'' @ [nl]
      @ ''+x'' @ [nl] @ ''+'' @ [nl] @ ''delete 5'' @ [nl] @ ''insert  after 7:'' @ [nl] @ ''+y'' @ [nl]
      @ ''insert tail:'') = Inr [sample_section]"
    by code_simp
qed

section \<open>Blank lines after a body\<close>

lemma parseOperationHeader_Nil [simp]: "parseOperationHeader [] = Inr None"
  by (simp add: parseOperationHeader_def match_replace_def match_delete_def match_insert_anchor_def
        match_insert_word_def match_insert_boundary_def)

lemma parseBody_blank:
  "parseBody (map (\<lambda>l. CHR ''+'' # l) ls @ [[]]) = Inl (BodyRowWithoutPlus [])"
  by (induction ls) (simp_all add: HL_FILE_PREFIX_def)

lemma parse_line_blank:
  assumes "wf_operation op" "\<not> is_delete_header (header_of op)" "secs \<noteq> []"
  shows "parse_line secs (header_line op) (map (\<lambda>l. CHR ''+'' # l) (operation_lines op) @ [[]]) =
         Inl (BodyRowWithoutPlus [])"
proof -
  obtain c s where line: "header_line op = c # s" "\<not> is_space c" "c \<noteq> CHR 0xB6"
    using header_line_start by blast
  then have "js_trim (header_line op) \<noteq> []" by (simp add: js_trim_not_Nil)
  moreover have "parseSectionHeader (header_line op) = Inr None"
    using line by (simp add: parseSectionHeader_def HL_FILE_PREFIX_def)
  ultimately show ?thesis
    using assms(2,3)
    by (simp add: parse_line_def parseOperationHeader_header_line [OF assms(1)] parseBody_blank)
qed

text \<open>A patch text that ends with a newline is refused whenever its last operation is a
  replace or an insert: the blank last line is taken as a body row, although the parser
  skips blank lines between operations and after a delete.\<close>

theorem parse_trailing_newline_refused:
  assumes "list_all printable secs" and "printable sec"
    and "operations sec = ops @ [op]" and "\<not> is_delete_header (header_of op)"
  shows "parseHashlinePatch (render_patch (secs @ [sec]) @ [nl]) = Inl (BodyRowWithoutPlus [])"
proof -
  let ?all = "concat (map render_section (secs @ [sec]))"
  have nlcr: "set l \<inter> {nl, cr} = {}" if "l \<in> set ?all" for l
    using that assms(1,2) nlcr_render_section by (force simp: list_all_iff)
  have "?all \<noteq> []" by (simp add: render_section_def)
  then have text': "render_patch (secs @ [sec]) @ [nl] = unlines (?all @ [[]])"
    unfolding render_patch_def using join_with_append [of ?all "[[]]" "[nl]"] by simp
  have lines: "lines_of (render_patch (secs @ [sec]) @ [nl]) = ?all @ [[]]"
    unfolding text' using nlcr by (intro split_on_join) auto
  have "cr \<notin> set (render_patch (secs @ [sec]) @ [nl])"
    unfolding text' using set_join_with [of "[nl]" "?all @ [[]]"] nlcr by fastforce
  then have norm: "normalizeSnapshotText (render_patch (secs @ [sec]) @ [nl]) = render_patch (secs @ [sec]) @ [nl]"
    by (rule normalizeSnapshotText_id)
  from assms(2,3) have wf: "path sec \<noteq> []" "valid_tag (tag sec)" "list_all wf_operation ops" "wf_operation op"
    by (simp_all add: printable_def wf_section_def)
  let ?rest = "render_operation op @ [[]]"
  have "parse_sections [] (?all @ [[]]) = parse_sections secs (render_section sec @ [[]])"
    using parse_rendered_sections [OF assms(1) body_stops_section, of "[]" sec "[[]]"] by simp
  also have "\<dots> = parse_sections (secs @ [\<lparr>path = path sec, tag = tag sec, operations = ops\<rparr>]) ?rest"
    using parse_operations [OF wf(3) body_stops_operation [OF wf(4)],
        of secs "\<lparr>path = path sec, tag = tag sec, operations = []\<rparr>" "[[]]"]
    by (simp add: render_section_def assms(3) parse_line_section [OF wf(1,2)])
  also have "\<dots> = Inl (BodyRowWithoutPlus [])"
    by (simp add: render_operation_def parse_line_blank [OF wf(4) assms(4), simplified])
  finally show ?thesis by (simp add: parseHashlinePatch_def norm lines)
qed

theorem parse_trailing_newline_refused_witness:
  "parseHashlinePatch (render_patch ([] @ [\<lparr>path = ''f'', tag = ''0AF3'',
     operations = [Replace 2 3 [''x'']]\<rparr>]) @ [nl]) = Inl (BodyRowWithoutPlus [])"
  by (rule parse_trailing_newline_refused [where ops = "[]" and op = "Replace 2 3 [''x'']"])
     (simp_all add: patch_eval is_delete_header_def header_of_def)

end
