(* ===== verification/Hashline_Patch_Apply.thy ===== *)
theory Hashline_Patch_Apply
  imports Hashline_Patch
begin

text \<open>
  What applying a patch section does: the overlap check accepts exactly the mutations that
  do not interfere, the in-place loop of splices is the simultaneous edit of all original
  positions (with one exception, an insert listed after the range it precedes, shown to
  lose text), and recovery against a changed file only ever touches lines equal to those
  the patch was written for.
\<close>

section \<open>Permutation facts for pairwise conditions\<close>

lemma sorted_wrt_insort_symp:
  "symp R \<Longrightarrow> sorted_wrt R (insort_cmp cmp x xs) \<longleftrightarrow> (\<forall>y \<in> set xs. R x y) \<and> sorted_wrt R xs"
  by (induction xs) (auto dest: sympD)

lemma sorted_wrt_js_sort_symp: "symp R \<Longrightarrow> sorted_wrt R (js_sort cmp xs) \<longleftrightarrow> sorted_wrt R xs"
  by (induction xs) (auto simp: sorted_wrt_insort_symp)

lemma sorted_wrt_map_filter:
  "sorted_wrt R (map f (filter P xs)) \<longleftrightarrow> sorted_wrt (\<lambda>a b. P a \<longrightarrow> P b \<longrightarrow> R (f a) (f b)) xs"
  by (induction xs) auto

section \<open>The overlap check\<close>

text \<open>Two mutations do not delete a common line.\<close>

definition ranges_disjoint :: "mutation \<Rightarrow> mutation \<Rightarrow> bool" where
  "ranges_disjoint a b \<longleftrightarrow> deleteCount a \<le> 0 \<or> deleteCount b \<le> 0 \<or>
     index a + deleteCount a \<le> index b \<or> index b + deleteCount b \<le> index a"

text \<open>No insert lands strictly inside a deleted range.\<close>

definition insert_inside :: "mutation \<Rightarrow> mutation \<Rightarrow> bool" where
  "insert_inside m r \<longleftrightarrow> deleteCount m \<le> 0 \<and> index r < index m \<and> index m < index r + deleteCount r"

definition non_overlapping :: "mutation list \<Rightarrow> bool" where
  "non_overlapping ms \<longleftrightarrow> sorted_wrt ranges_disjoint ms \<and>
     \<not> list_ex (\<lambda>m. list_ex (insert_inside m) ms) ms"

interpretation by_start: comparator "\<lambda>a b :: int \<times> int. fst a - fst b"
  by unfold_locales auto

lemma ranges_apart_iff:
  assumes "sorted_wrt (\<lambda>a b. fst a \<le> fst b) rs" "\<forall>r \<in> set rs. fst r \<le> snd r"
  shows "ranges_apart rs \<longleftrightarrow> sorted_wrt (\<lambda>a b. snd a < fst b \<or> snd b < fst a) rs"
  using assms
proof (induction rs rule: ranges_apart.induct)
  case (1 a b rs)
  then have IH: "ranges_apart (b # rs) \<longleftrightarrow> sorted_wrt (\<lambda>a b. snd a < fst b \<or> snd b < fst a) (b # rs)"
    by simp
  have far: "snd a < fst c" if "snd a < fst b" "c \<in> set rs" for c
    using that 1(2) by fastforce
  have behind: "\<not> snd b < fst a" using 1(2,3) by fastforce
  show ?case
    unfolding ranges_apart.simps IH using far behind by auto
qed auto

lemma ranges_apart_mutation_ranges:
  "ranges_apart (mutation_ranges ms) \<longleftrightarrow> sorted_wrt ranges_disjoint ms"
proof -
  let ?f = "\<lambda>m. (index m, index m + deleteCount m - 1)" and ?P = "\<lambda>m. deleteCount m > 0"
  let ?R = "\<lambda>a b :: int \<times> int. snd a < fst b \<or> snd b < fst a"
  have sorted: "sorted_wrt (\<lambda>a b. fst a \<le> fst b) (mutation_ranges ms)"
    using by_start.sorted_js_sort unfolding mutation_ranges_def by auto
  have wf: "\<forall>r \<in> set (mutation_ranges ms). fst r \<le> snd r"
    by (auto simp: mutation_ranges_def)
  have "symp ?R" by (auto intro: sympI)
  then have "ranges_apart (mutation_ranges ms) \<longleftrightarrow> sorted_wrt ?R (map ?f (filter ?P ms))"
    unfolding ranges_apart_iff [OF sorted wf]
    by (simp add: mutation_ranges_def sorted_wrt_js_sort_symp)
  also have "\<dots> \<longleftrightarrow> sorted_wrt (\<lambda>a b. ?P a \<longrightarrow> ?P b \<longrightarrow> ?R (?f a) (?f b)) ms"
    by (rule sorted_wrt_map_filter)
  also have "(\<lambda>a b. ?P a \<longrightarrow> ?P b \<longrightarrow> ?R (?f a) (?f b)) = ranges_disjoint"
    by (auto simp: fun_eq_iff ranges_disjoint_def)
  finally show ?thesis .
qed

lemma validateNonOverlapping_Inr: "validateNonOverlapping ms = Inr u \<longleftrightarrow> non_overlapping ms"
proof -
  have "list_ex (\<lambda>m. \<not> deleteCount m > 0 \<and>
          list_ex (\<lambda>r. index m > fst r \<and> index m \<le> snd r) (mutation_ranges ms)) ms
        \<longleftrightarrow> list_ex (\<lambda>m. list_ex (insert_inside m) ms) ms"
    by (force simp: list_ex_iff mutation_ranges_def insert_inside_def)
  then show ?thesis
    by (auto simp: validateNonOverlapping_def Let_def non_overlapping_def ranges_apart_mutation_ranges)
qed

text \<open>The overlap check, which sorts the deleted ranges and compares neighbours only,
  accepts exactly the mutation lists in which no two ranges share a line and no insert
  lands strictly inside a range.\<close>

theorem validateNonOverlapping_correct:
  "validateNonOverlapping ms = Inr () \<longleftrightarrow> non_overlapping ms"
  by (rule validateNonOverlapping_Inr)

section \<open>Applying a section\<close>

text \<open>The position and number of deleted lines of a mutation that lies in the text.\<close>

definition at_line :: "mutation \<Rightarrow> nat" where
  "at_line m = nat (index m)"

definition removes :: "mutation \<Rightarrow> nat" where
  "removes m = nat (deleteCount m)"

definition inside :: "nat \<Rightarrow> mutation \<Rightarrow> bool" where
  "inside n m \<longleftrightarrow> 0 \<le> index m \<and> 0 \<le> deleteCount m \<and> index m + deleteCount m \<le> int n"

interpretation patch_order: edit_order by_index_desc at_line removes insertLines
  by unfold_locales (auto simp: by_index_desc_def at_line_def split: if_splits)

text \<open>The order of the source in which the loop is right: an insert at the first line of a
  range is listed before the range.\<close>

definition no_late_insert :: "mutation list \<Rightarrow> bool" where
  "no_late_insert ms \<longleftrightarrow> (\<forall>a \<in> set ms. \<forall>b \<in> set ms.
     deleteCount a > 0 \<longrightarrow> deleteCount b \<le> 0 \<longrightarrow> index b = index a \<longrightarrow> sourceOrder b < sourceOrder a)"

lemma insort_cmp_end: "\<forall>y \<in> set ys. \<not> cmp x y \<le> 0 \<Longrightarrow> insort_cmp cmp x ys = ys @ [x]"
  by (induction ys) auto

lemma js_sort_rev: "sorted_wrt (\<lambda>a b. \<not> cmp a b \<le> 0) xs \<Longrightarrow> js_sort cmp xs = rev xs"
  by (induction xs) (auto simp: insort_cmp_end)

lemma filter_index_sorted:
  assumes "sorted_wrt (\<lambda>a b. sourceOrder a < sourceOrder b) ms" "\<And>m. m \<in> set ms \<Longrightarrow> 0 \<le> index m"
  shows "filter (\<lambda>m. at_line m = i) (rev (js_sort by_index_desc ms)) = filter (\<lambda>m. at_line m = i) ms"
proof -
  let ?f = "filter (\<lambda>m. at_line m = i) ms"
  have "sorted_wrt (\<lambda>a b. sourceOrder a < sourceOrder b) ?f"
    using sorted_wrt_filter [OF assms(1)] .
  then have "sorted_wrt (\<lambda>a b. \<not> by_index_desc a b \<le> 0) ?f"
  proof (rule sorted_wrt_mono_rel [rotated])
    fix a b assume "a \<in> set ?f" "b \<in> set ?f" "sourceOrder a < sourceOrder b"
    then show "\<not> by_index_desc a b \<le> 0"
      using assms(2) [of a] assms(2) [of b] by (auto simp: by_index_desc_def at_line_def)
  qed
  then have "js_sort by_index_desc ?f = rev ?f" by (rule js_sort_rev)
  then show ?thesis by (metis patch_order.js_sort_filter rev_filter rev_rev_ident)
qed

lemma loop_simultaneous:
  assumes ok: "non_overlapping ms" and late: "no_late_insert ms"
    and order: "sorted_wrt (\<lambda>a b. sourceOrder a < sourceOrder b) ms"
    and len: "\<And>m. m \<in> set ms \<Longrightarrow> inside (length ls) m"
  shows "run_splices at_line removes insertLines (js_sort by_index_desc ms) ls =
         simultaneous at_line removes insertLines ms ls"
proof -
  have inj: "inj_on sourceOrder (set ms)" "distinct ms"
    using order by (metis distinct_map sorted_wrt_map strict_sorted_iff)+
  have symp: "symp ranges_disjoint" by (auto intro!: sympI simp: ranges_disjoint_def)
  have disj: "ranges_disjoint a b" if "a \<in> set ms" "b \<in> set ms" "a \<noteq> b" for a b
  proof -
    have sw: "sorted_wrt ranges_disjoint ms" using ok by (simp add: non_overlapping_def)
    from that obtain i j where "i < length ms" "j < length ms" "a = ms ! i" "b = ms ! j" "i \<noteq> j"
      by (metis in_set_conv_nth)
    then show ?thesis using sw symp
      by (cases "i < j") (auto simp: sorted_wrt_iff_nth_less intro: sympD [OF symp])
  qed
  have "fits at_line removes 0 (rev (js_sort by_index_desc ms)) (length ls)"
  proof (rule patch_order.fits_of_separated [OF inj(2)])
    show "at_line m + removes m \<le> length ls" if "m \<in> set ms" for m
      using len [OF that] by (auto simp: inside_def at_line_def removes_def)
  next
    fix a b assume ab: "a \<in> set ms" "b \<in> set ms" "a \<noteq> b" "by_index_desc b a \<le> 0"
    have le: "index a \<le> index b" and tie: "index a = index b \<Longrightarrow> sourceOrder a \<le> sourceOrder b"
      using ab(4) by (auto simp: by_index_desc_def split: if_splits)
    have "\<not> insert_inside b a" using ok ab by (auto simp: non_overlapping_def list_ex_iff)
    moreover have "deleteCount a > 0 \<Longrightarrow> deleteCount b \<le> 0 \<Longrightarrow> index b = index a \<Longrightarrow>
        sourceOrder b < sourceOrder a"
      using late ab by (auto simp: no_late_insert_def)
    ultimately have "index a + deleteCount a \<le> index b"
      using disj [OF ab(1-3)] le tie len [OF ab(1)] len [OF ab(2)]
      by (cases "deleteCount a \<le> 0") (auto simp: ranges_disjoint_def insert_inside_def inside_def)
    then show "at_line a + removes a \<le> at_line b"
      using len [OF ab(1)] len [OF ab(2)] by (auto simp: inside_def at_line_def removes_def)
  qed
  from patch_order.loop_is_simultaneous [OF this] show ?thesis
    using simultaneous_cong [OF _ filter_index_sorted [OF order]] len by (simp add: inside_def)
qed

text \<open>The mutations of a well-formed section stay inside the text and keep the source order.\<close>

lemma operationToMutation_Inr:
  assumes "operationToMutation op n k = Inr m" "wf_operation op"
  shows "inside n m \<and> sourceOrder m = k \<and> op_of m = op"
  using assms
  by (cases op)
     (auto simp: operationToMutation_def wf_operation_def inside_def split: if_splits anchor_pos.splits boundary_pos.splits)

lemma section_mutations_nth:
  assumes "section_mutations sec n = Inr ms"
  shows "length ms = length (operations sec)"
    and "i < length ms \<Longrightarrow> operationToMutation (operations sec ! i) n i = Inr (ms ! i)"
proof -
  from assms have *: "list_all2 (\<lambda>(i, op) m. operationToMutation op n i = Inr m) (enumerate 0 (operations sec)) ms"
    by (simp add: section_mutations_def mapM_Inr split_def)
  then show len: "length ms = length (operations sec)"
    by (auto dest: list_all2_lengthD)
  show "operationToMutation (operations sec ! i) n i = Inr (ms ! i)" if "i < length ms"
    using * that len by (auto simp: list_all2_conv_all_nth nth_enumerate_eq)
qed

lemma section_mutations_Inr:
  assumes "section_mutations sec n = Inr ms" "list_all wf_operation (operations sec)"
  shows "sorted_wrt (\<lambda>a b. sourceOrder a < sourceOrder b) ms"
    and "m \<in> set ms \<Longrightarrow> inside n m"
proof -
  note nth = section_mutations_nth [OF assms(1)]
  have wf: "wf_operation (operations sec ! i)" if "i < length ms" for i
    using that nth(1) assms(2) by (simp add: list_all_length)
  have "sourceOrder (ms ! i) = i" if "i < length ms" for i
    using operationToMutation_Inr [OF nth(2) [OF that] wf [OF that]] by simp
  then show "sorted_wrt (\<lambda>a b. sourceOrder a < sourceOrder b) ms"
    by (simp add: sorted_wrt_iff_nth_less)
  show "m \<in> set ms \<Longrightarrow> inside n m"
    using operationToMutation_Inr [OF nth(2) wf] by (auto simp: in_set_conv_nth)
qed

lemma applyMutations_run:
  assumes "\<And>m. m \<in> set ms \<Longrightarrow> 0 \<le> index m"
  shows "applyMutations ls trailing ms =
     joinEditableLines (run_splices at_line removes insertLines (js_sort by_index_desc ms) ls) trailing"
proof -
  have "foldl (\<lambda>result m. js_splice (index m) (deleteCount m) (insertLines m) result) ls ns =
      run_splices at_line removes insertLines ns ls" if "\<forall>m \<in> set ns. 0 \<le> index m" for ns
    using that by (induction ns arbitrary: ls) (simp_all add: js_splice_nat at_line_def removes_def)
  then show ?thesis using assms by (simp add: applyMutations_def)
qed

section \<open>When a section applies\<close>

text \<open>The last line an operation names, the lines it deletes, and the gap an insert goes to: the number of
  lines before it.\<close>

definition last_line :: "operation \<Rightarrow> nat" where
  "last_line op = (case op of Replace _ e _ \<Rightarrow> e | Delete _ e \<Rightarrow> e
     | InsertAnchored _ n _ \<Rightarrow> n | InsertBoundary _ _ \<Rightarrow> 0)"

definition deleted_lines :: "operation \<Rightarrow> nat set" where
  "deleted_lines op = (case op of Replace s e _ \<Rightarrow> {s..e} | Delete s e \<Rightarrow> {s..e} | _ \<Rightarrow> {})"

definition insert_gap :: "nat \<Rightarrow> operation \<Rightarrow> nat option" where
  "insert_gap n op = (case op of
      InsertAnchored Before k _ \<Rightarrow> Some (k - 1)
    | InsertAnchored After k _ \<Rightarrow> Some k
    | InsertBoundary Head _ \<Rightarrow> Some 0
    | InsertBoundary Tail _ \<Rightarrow> Some n
    | _ \<Rightarrow> None)"

lemma operationToMutation_ok: "(\<exists>m. operationToMutation op n k = Inr m) \<longleftrightarrow> last_line op \<le> n"
  by (cases op) (auto simp: operationToMutation_def last_line_def)

lemma mapM_ok: "(\<exists>ys. mapM f xs = Inr ys) \<longleftrightarrow> (\<forall>x \<in> set xs. \<exists>y. f x = Inr y)"
  by (induction xs) (auto split: sum.splits)

lemma section_mutations_ok:
  "(\<exists>ms. section_mutations sec n = Inr ms) \<longleftrightarrow> list_all (\<lambda>op. last_line op \<le> n) (operations sec)"
proof -
  have "(\<exists>ms. section_mutations sec n = Inr ms) \<longleftrightarrow>
        (\<forall>(i, op) \<in> set (enumerate 0 (operations sec)). last_line op \<le> n)"
    by (simp add: section_mutations_def mapM_ok split_def operationToMutation_ok)
  also have "\<dots> \<longleftrightarrow> (\<forall>op \<in> snd ` set (enumerate 0 (operations sec)). last_line op \<le> n)"
    by auto
  also have "snd ` set (enumerate 0 (operations sec)) = set (operations sec)"
    by (metis list.set_map map_snd_enumerate)
  finally show ?thesis by (simp add: list_all_iff)
qed

text \<open>The range of a mutation and the place of an insert, in terms of the operation it comes from.\<close>

lemma mutation_of:
  assumes "operationToMutation op n k = Inr m" "wf_operation op"
  shows "0 < deleteCount m \<Longrightarrow> deleted_lines op = {nat (index m + 1)..nat (index m + deleteCount m)}"
    and "deleteCount m \<le> 0 \<Longrightarrow> deleted_lines op = {} \<and> insert_gap n op = Some (nat (index m))"
    and "insert_gap n op = None \<longleftrightarrow> 0 < deleteCount m"
  using assms
  by (cases op; auto simp: operationToMutation_def wf_operation_def deleted_lines_def insert_gap_def nat_diff_distrib
      split: if_splits anchor_pos.splits boundary_pos.splits)+

lemma intervals_disjoint: "a \<le> b \<Longrightarrow> c \<le> d \<Longrightarrow> {a..b} \<inter> {c..d} = {} \<longleftrightarrow> b < c \<or> d < a" for a b c d :: nat
  by (auto simp: disjoint_iff not_less)

lemma ranges_disjoint_lines:
  assumes "operationToMutation op n k = Inr m" "wf_operation op" "operationToMutation op' n k' = Inr m'" "wf_operation op'"
  shows "ranges_disjoint m m' \<longleftrightarrow> deleted_lines op \<inter> deleted_lines op' = {}"
proof -
  have "0 \<le> index m" "0 \<le> index m'"
    using operationToMutation_Inr [OF assms(1,2)] operationToMutation_Inr [OF assms(3,4)] by (auto simp: inside_def)
  then show ?thesis
    using mutation_of [OF assms(1,2)] mutation_of [OF assms(3,4)]
    by (cases "0 < deleteCount m"; cases "0 < deleteCount m'") (auto simp: ranges_disjoint_def intervals_disjoint)
qed

lemma insert_inside_lines:
  assumes "operationToMutation op n k = Inr m" "wf_operation op" "operationToMutation op' n k' = Inr m'" "wf_operation op'"
  shows "insert_inside m m' \<longleftrightarrow> (\<exists>g. insert_gap n op = Some g \<and> g \<in> deleted_lines op' \<and> Suc g \<in> deleted_lines op')"
proof -
  have "0 \<le> index m" "0 \<le> index m'"
    using operationToMutation_Inr [OF assms(1,2)] operationToMutation_Inr [OF assms(3,4)] by (auto simp: inside_def)
  then show ?thesis
    using mutation_of [OF assms(1,2)] mutation_of [OF assms(3,4)]
    by (cases "0 < deleteCount m"; cases "0 < deleteCount m'") (auto simp: insert_inside_def)
qed

text \<open>No two operations delete a common line, and no insert goes between two lines one operation deletes.\<close>

definition compatible :: "nat \<Rightarrow> operation list \<Rightarrow> bool" where
  "compatible n ops \<longleftrightarrow> sorted_wrt (\<lambda>a b. deleted_lines a \<inter> deleted_lines b = {}) ops
     \<and> list_all (\<lambda>a. list_all (\<lambda>b. case insert_gap n a of None \<Rightarrow> True
          | Some g \<Rightarrow> \<not> (g \<in> deleted_lines b \<and> Suc g \<in> deleted_lines b)) ops) ops"

lemma non_overlapping_compatible:
  assumes "section_mutations sec n = Inr ms" "list_all wf_operation (operations sec)"
  shows "non_overlapping ms \<longleftrightarrow> compatible n (operations sec)"
proof -
  note nth = section_mutations_nth [OF assms(1)]
  let ?o = "\<lambda>i. operations sec ! i" and ?N = "length (operations sec)"
  have wf: "wf_operation (?o i)" if "i < ?N" for i
    using that assms(2) by (simp add: list_all_length)
  have d: "ranges_disjoint (ms ! i) (ms ! j) \<longleftrightarrow> deleted_lines (?o i) \<inter> deleted_lines (?o j) = {}"
    if "i < ?N" "j < ?N" for i j
    using ranges_disjoint_lines [OF nth(2) wf nth(2) wf] that nth(1) by simp
  have "insert_inside (ms ! i) (ms ! j) \<longleftrightarrow>
      (\<exists>g. insert_gap n (?o i) = Some g \<and> g \<in> deleted_lines (?o j) \<and> Suc g \<in> deleted_lines (?o j))"
    if "i < ?N" "j < ?N" for i j
    using insert_inside_lines [OF nth(2) wf nth(2) wf] that nth(1) by simp
  then have i: "(\<forall>i < ?N. \<forall>j < ?N. \<not> insert_inside (ms ! i) (ms ! j)) \<longleftrightarrow>
      (\<forall>i < ?N. \<forall>j < ?N. case insert_gap n (?o i) of None \<Rightarrow> True
        | Some g \<Rightarrow> \<not> (g \<in> deleted_lines (?o j) \<and> Suc g \<in> deleted_lines (?o j)))"
    by (auto split: option.splits)
  have "(\<not> list_ex (\<lambda>m. list_ex (insert_inside m) ms) ms) \<longleftrightarrow> (\<forall>i < ?N. \<forall>j < ?N. \<not> insert_inside (ms ! i) (ms ! j))"
    by (simp add: list_ex_length nth(1))
  then show ?thesis
    unfolding non_overlapping_def compatible_def sorted_wrt_iff_nth_less list_all_length nth(1) i [symmetric]
    using d by auto
qed

text \<open>C36: A section as the parser gives it, with line numbers from one and no range that ends before it starts, applies
  to a text exactly when every line number it names exists in the text, no two operations delete a common line, and
  no insert goes between two lines that one operation deletes; otherwise an error is thrown and nothing changes.\<close>

theorem applyHashlineSectionToText_succeeds_iff:
  assumes "wf_section sec" and "n = length (ed_lines (splitEditableLines t))"
  shows "(\<exists>out. applyHashlineSectionToText t sec = Inr out) \<longleftrightarrow>
     list_all (\<lambda>op. last_line op \<le> n) (operations sec) \<and> compatible n (operations sec)"
proof -
  from assms(1) have wf: "list_all wf_operation (operations sec)" by (simp add: wf_section_def)
  have "(\<exists>out. applyHashlineSectionToText t sec = Inr out) \<longleftrightarrow>
     (\<exists>ms. section_mutations sec n = Inr ms \<and> non_overlapping ms)"
    by (auto simp: applyHashlineSectionToText_def Let_def assms(2)
        dest: validateNonOverlapping_Inr [THEN iffD1] validateNonOverlapping_Inr [THEN iffD2, of _ "()"]
        split: sum.splits)
  then show ?thesis using section_mutations_ok [of sec n] non_overlapping_compatible [OF _ wf] by blast
qed

theorem applyHashlineSectionToText_succeeds_iff_witness:
  "\<not> (\<exists>out. applyHashlineSectionToText (''a'' @ [nl] @ ''b'' @ [nl] @ ''c'')
       \<lparr>path = ''f'', tag = ''0AF3'', operations = [Delete 1 2, InsertAnchored After 1 [''X'']]\<rparr> = Inr out)"
  by (subst applyHashlineSectionToText_succeeds_iff [OF _ refl])
     (simp_all add: patch_eval compatible_def deleted_lines_def insert_gap_def)

text \<open>C2: When a section parsed from a patch applies, and no insert is listed after a range
  that starts at its position, the result is the simultaneous edit: all line numbers refer
  to the original text, ranges are replaced, inserted lines stand at their position in the
  order of the patch, and the final newline is kept.\<close>

theorem applyHashlineSectionToText_simultaneous:
  assumes "applyHashlineSectionToText t sec = Inr out"
    and "wf_section sec"
    and "section_mutations sec (length (ed_lines (splitEditableLines t))) = Inr ms"
    and "no_late_insert ms"
  shows "out = joinEditableLines
    (simultaneous at_line removes insertLines ms (ed_lines (splitEditableLines t)))
    (trailingNewline (splitEditableLines t))"
proof -
  from assms(2) have wf: "list_all wf_operation (operations sec)" by (simp add: wf_section_def)
  from assms(1,3) have ok: "non_overlapping ms"
    by (auto simp: applyHashlineSectionToText_def Let_def
        dest: validateNonOverlapping_Inr [THEN iffD1] validateNonOverlapping_Inr [THEN iffD2, of _ "()"]
        split: sum.splits)
  note ms = section_mutations_Inr [OF assms(3) wf]
  from assms(1,3) ok have "out = applyMutations (ed_lines (splitEditableLines t))
      (trailingNewline (splitEditableLines t)) ms"
    by (auto simp: applyHashlineSectionToText_def Let_def split: sum.splits)
  moreover have "0 \<le> index m" if "m \<in> set ms" for m using ms(2) [OF that] by (simp add: inside_def)
  ultimately show ?thesis
    using loop_simultaneous [OF ok assms(4) ms] by (simp add: applyMutations_run)
qed

abbreviation two_op_section :: patch_section where
  "two_op_section \<equiv> \<lparr>path = ''f'', tag = ''0AF3'',
     operations = [InsertAnchored Before 2 [''X''], Replace 2 2 [''B'']]\<rparr>"

theorem applyHashlineSectionToText_simultaneous_witness:
  "''a'' @ [nl] @ ''X'' @ [nl] @ ''B'' @ [nl] = joinEditableLines
    (simultaneous at_line removes insertLines
       [\<lparr>index = 1, deleteCount = 0, insertLines = [''X''], sourceOrder = 0, op_of = InsertAnchored Before 2 [''X'']\<rparr>,
        \<lparr>index = 1, deleteCount = 1, insertLines = [''B''], sourceOrder = 1, op_of = Replace 2 2 [''B'']\<rparr>]
       (ed_lines (splitEditableLines (''a'' @ [nl] @ ''b'' @ [nl]))))
    (trailingNewline (splitEditableLines (''a'' @ [nl] @ ''b'' @ [nl])))"
  by (rule applyHashlineSectionToText_simultaneous [where sec = two_op_section])
     (code_simp, simp add: patch_eval, code_simp, simp add: no_late_insert_def)

text \<open>An insert listed after a range that starts at the same position is lost: the
  splice of the range deletes the line just inserted instead of the one it names. The same
  two operations in the other order give the intended text.\<close>

theorem late_insert_loses_text:
  "applyHashlineSectionToText (''a'' @ [nl] @ ''b'' @ [nl] @ ''c'')
     \<lparr>path = ''f'', tag = ''0AF3'', operations = [Replace 2 2 [''B''], InsertAnchored Before 2 [''X'']]\<rparr>
     = Inr (''a'' @ [nl] @ ''B'' @ [nl] @ ''b'' @ [nl] @ ''c'')
   \<and> applyHashlineSectionToText (''a'' @ [nl] @ ''b'' @ [nl] @ ''c'')
     \<lparr>path = ''f'', tag = ''0AF3'', operations = [InsertAnchored Before 2 [''X''], Replace 2 2 [''B'']]\<rparr>
     = Inr (''a'' @ [nl] @ ''X'' @ [nl] @ ''B'' @ [nl] @ ''c'')"
  by code_simp

section \<open>Splitting and joining a text\<close>

lemma splitEditableLines_join:
  "joinEditableLines (ed_lines (splitEditableLines t)) (trailingNewline (splitEditableLines t)) =
   (if normalizeSnapshotText t = [nl] then [] else normalizeSnapshotText t)"
proof -
  define n where "n = normalizeSnapshotText t"
  consider (none) "n = []" | (trail) b where "n = b @ [nl]" | (plain) "n \<noteq> []" "last n \<noteq> nl"
    by (cases n rule: rev_cases) auto
  then show ?thesis
  proof cases
    case none
    then show ?thesis
      by (simp add: n_def [symmetric] splitEditableLines_def joinEditableLines_def Let_def)
  next
    case trail
    then show ?thesis
      by (auto simp: n_def [symmetric] splitEditableLines_def joinEditableLines_def Let_def)
  next
    case plain
    then show ?thesis
      by (auto simp: n_def [symmetric] splitEditableLines_def joinEditableLines_def Let_def)
  qed
qed

text \<open>Splitting a text into editable lines and joining them again gives the text back up
  to its line endings, with one exception: a file that holds a single empty line loses its
  newline.\<close>

theorem editable_lines_roundtrip:
  "joinEditableLines (ed_lines (splitEditableLines t)) (trailingNewline (splitEditableLines t)) =
   (if normalizeSnapshotText t = [nl] then [] else normalizeSnapshotText t)"
  by (rule splitEditableLines_join)

section \<open>Recovery\<close>

lemma findSequenceMatches_mem:
  "i \<in> set (findSequenceMatches ls pat) \<longleftrightarrow>
     pat \<noteq> [] \<and> i + length pat \<le> length ls \<and> slice i (i + length pat) ls = pat"
proof (cases "pat = [] \<or> length pat > length ls")
  case True
  then show ?thesis by (auto simp: findSequenceMatches_def)
next
  case False
  have "i \<in> set (findSequenceMatches ls pat) \<longleftrightarrow>
      i < length ls - length pat + 1 \<and> (\<forall>k < length pat. ls ! (i + k) = pat ! k)"
    using False by (auto simp add: findSequenceMatches_def list_all_iff simp del: upt_Suc)
  also have "\<dots> \<longleftrightarrow> i + length pat \<le> length ls \<and> (\<forall>k < length pat. ls ! (i + k) = pat ! k)"
    using False by auto
  also have "\<dots> \<longleftrightarrow> i + length pat \<le> length ls \<and> slice i (i + length pat) ls = pat"
    by (auto simp: list_eq_iff_nth_eq)
  finally show ?thesis using False by simp
qed

lemma slice_slice:
  "a + b \<le> c \<Longrightarrow> slice a (a + b) (slice m (m + c) ls) = slice (m + a) (m + a + b) ls"
  by (simp add: slice_def drop_take min_def add.commute)

text \<open>Where the search succeeds, the lines at the answer are the lines of the snapshot, and
  the surrounding context of some radius occurs there only.\<close>

lemma resolve_radius_Inr:
  assumes "resolve_radius base cur (int bi) (int n) radius fuel amb = Inr i" "bi + n \<le> length base"
  shows "0 \<le> i \<and> nat i + n \<le> length cur \<and> slice (nat i) (nat i + n) cur = slice bi (bi + n) base"
  using assms
proof (induction fuel arbitrary: radius amb)
  case (Suc fuel)
  define bc where "bc = min radius bi"
  define ac where "ac = min radius (length base - (bi + n))"
  define pat where "pat = slice (bi - bc) (bi + n + ac) base"
  define ms where "ms = findSequenceMatches cur pat"
  have ints: "min (int radius) (int bi) = int bc" "min (int radius) (int (length base) - (int bi + int n)) = int ac"
    using Suc.prems(2) by (auto simp: bc_def ac_def)
  have pat: "js_slice (int bi - int bc) (int bi + int n + int ac) base = pat"
  proof -
    have *: "int bi - int bc = int (bi - bc)" "int bi + int n + int ac = int (bi + n + ac)" by (simp_all add: bc_def)
    have "bi + n + ac \<le> length base" using Suc.prems(2) by (simp add: ac_def)
    then have "js_slice (int (bi - bc)) (int (bi + n + ac)) base = pat"
      using js_slice_within [of "int (bi - bc)" "int (bi + n + ac)" base] by (simp only: of_nat_0_le_iff of_nat_le_iff nat_int pat_def)
    then show ?thesis unfolding * .
  qed
  show ?case
  proof (cases "length ms = 1")
    case False
    with Suc show ?thesis by (auto simp: Let_def ints pat ms_def)
  next
    case True
    with Suc.prems(1) have i: "nat i = ms ! 0 + bc" "0 \<le> i"
      by (auto simp: Let_def ints pat ms_def)
    have len: "length pat = bc + n + ac"
      using Suc.prems(2) unfolding pat_def bc_def ac_def length_slice by linarith
    have "ms ! 0 \<in> set ms" using True by (simp add: nth_mem)
    then have m: "ms ! 0 + (bc + n + ac) \<le> length cur" "slice (ms ! 0) (ms ! 0 + (bc + n + ac)) cur = pat"
      by (simp_all add: ms_def findSequenceMatches_mem len)
    have "slice (nat i) (nat i + n) cur = slice bc (bc + n) pat"
      using slice_slice [of bc n "bc + n + ac" "ms ! 0" cur] m(2) by (simp add: i)
    also have "\<dots> = slice (bi - bc + bc) (bi - bc + bc + n) base"
      using slice_slice [of bc n "bc + n + ac" "bi - bc" base] by (simp add: pat_def bc_def add.assoc)
    also have "bi - bc + bc = bi" by (simp add: bc_def)
    finally show ?thesis using m(1) i by simp
  qed
qed simp

text \<open>The lines of the snapshot a mutation refers to: its range, or its anchor line.\<close>

definition target_range :: "mutation \<Rightarrow> int \<times> int" where
  "target_range m = (case op_of m of
      InsertAnchored _ n _ \<Rightarrow> (int n - 1, 1)
    | InsertBoundary _ _ \<Rightarrow> (0, 0)
    | _ \<Rightarrow> (index m, deleteCount m))"

text \<open>The same lines in the current text, at the recovered index.\<close>

definition recovered_range :: "mutation \<Rightarrow> int \<times> int" where
  "recovered_range m = (case op_of m of
      InsertAnchored Before _ _ \<Rightarrow> (index m, 1)
    | InsertAnchored After _ _ \<Rightarrow> (index m - 1, 1)
    | InsertBoundary _ _ \<Rightarrow> (0, 0)
    | _ \<Rightarrow> (index m, deleteCount m))"

definition lines_at :: "int \<times> int \<Rightarrow> string list \<Rightarrow> string list" where
  "lines_at r ls = slice (nat (fst r)) (nat (fst r + snd r)) ls"

text \<open>A range of lines of the text.\<close>

definition range_in :: "int \<times> int \<Rightarrow> string list \<Rightarrow> bool" where
  "range_in r ls \<longleftrightarrow> 0 \<le> fst r \<and> 0 \<le> snd r \<and> fst r + snd r \<le> int (length ls)"

definition faithful_recovery :: "string list \<Rightarrow> string list \<Rightarrow> mutation \<Rightarrow> mutation \<Rightarrow> bool" where
  "faithful_recovery base cur m m' \<longleftrightarrow>
     op_of m' = op_of m \<and> insertLines m' = insertLines m \<and> deleteCount m' = deleteCount m \<and>
     range_in (target_range m) base \<and> range_in (recovered_range m') cur \<and>
     lines_at (recovered_range m') cur = lines_at (target_range m) base"

lemma resolveCurrent_Inr:
  assumes "resolveCurrentIndexWithContext base cur bi n p op = Inr i" "range_in (bi, n) base"
  shows "range_in (i, n) cur \<and> lines_at (i, n) cur = lines_at (bi, n) base"
proof -
  have "resolve_radius base cur (int (nat bi)) (int (nat n)) 0 (MAX_RECOVERY_CONTEXT_LINES + 1) False = Inr i"
    using assms by (auto simp: resolveCurrentIndexWithContext_def range_in_def simp del: resolve_radius.simps split: sum.splits)
  moreover have "nat bi + nat n \<le> length base" using assms(2) by (simp add: range_in_def nat_le_iff) linarith
  ultimately have "0 \<le> i \<and> nat i + nat n \<le> length cur \<and> slice (nat i) (nat i + nat n) cur = slice (nat bi) (nat bi + nat n) base"
    by (rule resolve_radius_Inr)
  moreover from this have "i + n \<le> int (length cur)" by linarith
  ultimately show ?thesis
    using assms(2) by (simp add: range_in_def lines_at_def nat_add_distrib)
qed

lemma recoverMutation_faithful:
  assumes "recoverMutationAgainstCurrent m base cur p = Inr m'" and "range_in (target_range m) base"
  shows "faithful_recovery base cur m m'"
  using assms
  by (cases "op_of m")
     (auto simp: recoverMutationAgainstCurrent_def faithful_recovery_def target_range_def recovered_range_def
          range_in_def [of "(0, 0)"] lines_at_def [of "(0, 0)"] slice_def
        split: sum.splits anchor_pos.splits boundary_pos.splits dest!: resolveCurrent_Inr)

lemma section_mutations_target:
  assumes "section_mutations sec n = Inr ms" "list_all wf_operation (operations sec)" "m \<in> set ms" "n = length base"
  shows "range_in (target_range m) base"
proof -
  note nth = section_mutations_nth [OF assms(1)]
  from assms(3) obtain i where i: "i < length ms" "m = ms ! i" by (auto simp: in_set_conv_nth)
  then have "wf_operation (operations sec ! i)" using assms(2) nth(1) by (simp add: list_all_length)
  moreover have "operationToMutation (operations sec ! i) n i = Inr m" using nth(2) [OF i(1)] i(2) by simp
  ultimately show ?thesis
    by (cases "operations sec ! i")
       (auto simp: operationToMutation_def wf_operation_def target_range_def range_in_def assms(4) split: if_splits)
qed

text \<open>C37: Recovery against a changed file never edits text the patch was not written for.
  When a stale section is recovered, every range it deletes or replaces, and every line an
  insert is anchored to, is line by line equal to what the snapshot had there.\<close>

theorem recovery_edits_known_lines:
  assumes "applyHashlineSectionWithRecovery sha256hex baseText currentText sec = Inr (out, True)"
    and "wf_section sec"
  shows "\<exists>ms recovered.
     section_mutations sec (length (ed_lines (splitEditableLines (normalizeSnapshotText baseText)))) = Inr ms \<and>
     list_all2 (faithful_recovery (ed_lines (splitEditableLines (normalizeSnapshotText baseText)))
                                  (ed_lines (splitEditableLines (normalizeSnapshotText currentText)))) ms recovered \<and>
     non_overlapping recovered \<and>
     out = applyMutations (ed_lines (splitEditableLines (normalizeSnapshotText currentText)))
             (trailingNewline (splitEditableLines (normalizeSnapshotText currentText))) recovered"
proof -
  let ?b = "ed_lines (splitEditableLines (normalizeSnapshotText baseText))"
  let ?c = "ed_lines (splitEditableLines (normalizeSnapshotText currentText))"
  from assms(1) obtain ms rec where ms: "section_mutations sec (length ?b) = Inr ms"
    and rec: "mapM (\<lambda>m. recoverMutationAgainstCurrent m ?b ?c (path sec)) ms = Inr rec"
    and ok: "validateNonOverlapping rec = Inr ()"
    and out: "out = applyMutations ?c (trailingNewline (splitEditableLines (normalizeSnapshotText currentText))) rec"
    by (auto simp: applyHashlineSectionWithRecovery_def Let_def split: sum.splits if_splits)
  from assms(2) have wf: "list_all wf_operation (operations sec)" by (simp add: wf_section_def)
  have bound: "range_in (target_range m) ?b" if "m \<in> set ms" for m
    using section_mutations_target [OF ms wf that refl] .
  from rec have "list_all2 (\<lambda>m m'. recoverMutationAgainstCurrent m ?b ?c (path sec) = Inr m') ms rec"
    by (simp add: mapM_Inr)
  then have "list_all2 (faithful_recovery ?b ?c) ms rec"
    by (rule list.rel_mono_strong) (auto intro: recoverMutation_faithful bound)
  with ms ok out show ?thesis using validateNonOverlapping_Inr by blast
qed

text \<open>A digest that separates the two texts of the witness: the length of the text.\<close>

definition length_digest :: "string \<Rightarrow> string" where
  "length_digest s = show_nat (1000 + length s)"

theorem recovery_edits_known_lines_witness:
  "\<exists>ms recovered.
     section_mutations \<lparr>path = ''f'', tag = ''1003'', operations = [Replace 2 2 [''B'']]\<rparr>
       (length (ed_lines (splitEditableLines (normalizeSnapshotText (''a'' @ [nl] @ ''b''))))) = Inr ms \<and>
     list_all2 (faithful_recovery (ed_lines (splitEditableLines (normalizeSnapshotText (''a'' @ [nl] @ ''b''))))
        (ed_lines (splitEditableLines (normalizeSnapshotText (''z'' @ [nl] @ ''a'' @ [nl] @ ''b''))))) ms recovered \<and>
     non_overlapping recovered \<and>
     ''z'' @ [nl] @ ''a'' @ [nl] @ ''B'' =
       applyMutations (ed_lines (splitEditableLines (normalizeSnapshotText (''z'' @ [nl] @ ''a'' @ [nl] @ ''b''))))
         (trailingNewline (splitEditableLines (normalizeSnapshotText (''z'' @ [nl] @ ''a'' @ [nl] @ ''b'')))) recovered"
proof (rule recovery_edits_known_lines)
  show "applyHashlineSectionWithRecovery length_digest (''a'' @ [nl] @ ''b'') (''z'' @ [nl] @ ''a'' @ [nl] @ ''b'')
      \<lparr>path = ''f'', tag = ''1003'', operations = [Replace 2 2 [''B'']]\<rparr>
    = Inr (''z'' @ [nl] @ ''a'' @ [nl] @ ''B'', True)"
    by code_simp
qed (simp add: patch_eval)

end
