(* ===== verification/Js_Map.thy ===== *)
theory Js_Map
  imports Prelude "HOL-Library.AList"
begin

text \<open>
  JavaScript's \<open>Map\<close>: an association list in insertion order. Setting a key that is
  present keeps its place, setting a new one appends it, deleting removes it; iteration
  goes from the oldest key to the newest. The laws clients rely on are the locale
  \<open>js_map\<close>, and the association lists are an instance of it.
\<close>

type_synonym ('k, 'v) jsmap = "('k \<times> 'v) list"

definition js_get :: "('k, 'v) jsmap \<Rightarrow> 'k \<Rightarrow> 'v option" where
  "js_get m k = map_of m k"

definition js_set :: "'k \<Rightarrow> 'v \<Rightarrow> ('k, 'v) jsmap \<Rightarrow> ('k, 'v) jsmap" where
  "js_set k v m = AList.update k v m"

definition js_delete :: "'k \<Rightarrow> ('k, 'v) jsmap \<Rightarrow> ('k, 'v) jsmap" where
  "js_delete k m = AList.delete k m"

definition js_keys :: "('k, 'v) jsmap \<Rightarrow> 'k list" where
  "js_keys m = map fst m"

definition js_values :: "('k, 'v) jsmap \<Rightarrow> 'v list" where
  "js_values m = map snd m"

definition js_map_ok :: "('k, 'v) jsmap \<Rightarrow> bool" where
  "js_map_ok m \<longleftrightarrow> distinct (js_keys m)"

lemma js_keys_Nil [simp]: "js_keys [] = []"
  by (simp add: js_keys_def)

lemma js_keys_Cons [simp]: "js_keys (e # m) = fst e # js_keys m"
  by (simp add: js_keys_def)

lemma length_js_keys [simp]: "length (js_keys m) = length m"
  by (simp add: js_keys_def)

lemma js_get_Nil [simp]: "js_get [] k = None"
  by (simp add: js_get_def)

lemma js_get_set [simp]: "js_get (js_set k v m) k' = (if k' = k then Some v else js_get m k')"
  by (simp add: js_get_def js_set_def update_conv')

lemma js_get_delete [simp]: "js_get (js_delete k m) k' = (if k' = k then None else js_get m k')"
  by (simp add: js_get_def js_delete_def delete_conv')

lemma js_keys_set: "js_keys (js_set k v m) = (if k \<in> set (js_keys m) then js_keys m else js_keys m @ [k])"
  by (simp add: js_keys_def js_set_def AList.update_keys)

lemma js_keys_delete [simp]: "js_keys (js_delete k m) = removeAll k (js_keys m)"
  by (simp add: js_keys_def js_delete_def AList.delete_keys)

lemma js_get_None: "js_get m k = None \<longleftrightarrow> k \<notin> set (js_keys m)"
  by (simp add: js_get_def js_keys_def map_of_eq_None_iff)

lemma js_get_mem: "js_get m k = Some v \<Longrightarrow> (k, v) \<in> set m"
  by (simp add: js_get_def map_of_SomeD)

lemma js_get_iff: "js_map_ok m \<Longrightarrow> js_get m k = Some v \<longleftrightarrow> (k, v) \<in> set m"
  by (simp add: js_map_ok_def js_get_def js_keys_def)

lemma js_map_ok_Nil [simp]: "js_map_ok []"
  by (simp add: js_map_ok_def)

lemma js_map_ok_set [simp]: "js_map_ok m \<Longrightarrow> js_map_ok (js_set k v m)"
  by (simp add: js_map_ok_def js_keys_set)

lemma js_map_ok_delete [simp]: "js_map_ok m \<Longrightarrow> js_map_ok (js_delete k m)"
  by (simp add: js_map_ok_def distinct_removeAll)

lemma js_set_fresh: "k \<notin> set (js_keys m) \<Longrightarrow> js_set k v m = m @ [(k, v)]"
  by (simp add: js_set_def js_keys_def update_nonempty [symmetric])
     (induction m; auto)

lemma set_js_delete: "set (js_delete k m) = {e \<in> set m. fst e \<noteq> k}"
  by (auto simp: js_delete_def AList.delete_eq)

lemma js_delete_length_less: "k \<in> set (js_keys m) \<Longrightarrow> length (js_delete k m) < length m"
  unfolding js_delete_def js_keys_def AList.delete_eq
  by (auto intro: length_filter_less)

lemma set_js_set: "js_map_ok m \<Longrightarrow> set (js_set k v m) = insert (k, v) {e \<in> set m. fst e \<noteq> k}"
  unfolding js_set_def js_map_ok_def js_keys_def
  by (induction m) force+

text \<open>Removing the first entry of a well-formed map deletes just that entry.\<close>

lemma js_delete_first: "js_map_ok (e # m) \<Longrightarrow> js_delete (fst e) (e # m) = m"
  unfolding js_map_ok_def js_delete_def AList.delete_eq js_keys_def
  by (cases e) (force intro!: filter_True)

section \<open>The laws of a map\<close>

locale js_map =
  fixes "get" :: "'m \<Rightarrow> 'k \<Rightarrow> 'v option"
    and put :: "'k \<Rightarrow> 'v \<Rightarrow> 'm \<Rightarrow> 'm"
    and del :: "'k \<Rightarrow> 'm \<Rightarrow> 'm"
    and ok :: "'m \<Rightarrow> bool"
  assumes get_put: "get (put k v m) k' = (if k' = k then Some v else get m k')"
    and get_del: "get (del k m) k' = (if k' = k then None else get m k')"
    and ok_put: "ok m \<Longrightarrow> ok (put k v m)"
    and ok_del: "ok m \<Longrightarrow> ok (del k m)"
begin

text \<open>Deleting a list of keys one by one, as a loop over the entries does.\<close>

lemma ok_fold_del: "ok m \<Longrightarrow> ok (fold del ks m)"
  by (induction ks arbitrary: m) (auto intro: ok_del)

lemma get_fold_del: "get (fold del ks m) k = (if k \<in> set ks then None else get m k)"
  by (induction ks arbitrary: m) (auto simp: get_del)

text \<open>Inserting a list of entries one by one; the last entry of a key wins.\<close>

lemma get_fold_put: "get (fold (\<lambda>(k, v). put k v) es m) k =
    (case map_of (rev es) k of Some v \<Rightarrow> Some v | None \<Rightarrow> get m k)"
  by (induction es arbitrary: m) (auto simp: get_put map_add_def split: option.splits)

lemma ok_fold_put: "ok m \<Longrightarrow> ok (fold (\<lambda>(k, v). put k v) es m)"
  by (induction es arbitrary: m) (auto intro: ok_put)

end

interpretation jsm: js_map js_get js_set js_delete js_map_ok
  by unfold_locales auto

end
