(* ===== verification/Hashline_Snapshots.thy ===== *)
theory Hashline_Snapshots
  imports Hashline_Format Js_Map
begin

text \<open>
  The store of file snapshots behind the tags of \<open>read\<close> output
  (\<open>packages/hashline/src/snapshots.ts\<close>): per path the most recent versions, newest
  first, in a map whose insertion order is the order of the last recording. The abstract
  class \<open>SnapshotStore\<close> is the locale \<open>snapshot_store_contract\<close>, and
  \<open>InMemorySnapshotStore\<close> its instance. The clock is an argument of \<open>record\<close>.
\<close>

record snapshot =
  spath :: string
  stext :: string
  shash :: string
  recordedAt :: nat

record store =
  versions :: "(string, snapshot list) jsmap"
  maxPaths :: nat
  maxVersionsPerPath :: nat

definition DEFAULT_MAX_PATHS :: nat where "DEFAULT_MAX_PATHS = 30"
definition DEFAULT_MAX_VERSIONS_PER_PATH :: nat where "DEFAULT_MAX_VERSIONS_PER_PATH = 4"

definition new_store :: "nat option \<Rightarrow> nat option \<Rightarrow> store" where
  "new_store optMaxPaths optMaxVersions =
     \<lparr>versions = [],
      maxPaths = (case optMaxPaths of Some n \<Rightarrow> n | None \<Rightarrow> DEFAULT_MAX_PATHS),
      maxVersionsPerPath = (case optMaxVersions of Some n \<Rightarrow> n | None \<Rightarrow> DEFAULT_MAX_VERSIONS_PER_PATH)\<rparr>"

definition head :: "store \<Rightarrow> string \<Rightarrow> snapshot option" where
  "head st path =
     (case js_get (versions st) path of
        None \<Rightarrow> None
      | Some history \<Rightarrow> (case history of [] \<Rightarrow> None | s # _ \<Rightarrow> Some s))"

definition byHash :: "store \<Rightarrow> string \<Rightarrow> string \<Rightarrow> snapshot option" where
  "byHash st path hash =
     (let normalizedHash = to_upper hash in
      case js_get (versions st) path of
        None \<Rightarrow> None
      | Some history \<Rightarrow> List.find (\<lambda>s. shash s = normalizedHash) history)"

text \<open>The eviction loop deletes the first key while the map is over its limit.\<close>

function evict :: "nat \<Rightarrow> (string, snapshot list) jsmap \<Rightarrow> (string, snapshot list) jsmap" where
  "evict n m =
     (if n < length m
      then (case js_keys m of [] \<Rightarrow> m | oldest # _ \<Rightarrow> evict n (js_delete oldest m))
      else m)"
  by pat_completeness auto
termination
  by (relation "measure (\<lambda>(n, m). length m)") (auto intro!: js_delete_length_less)

declare evict.simps [simp del]

definition evictOldestPathIfNeeded :: "store \<Rightarrow> store" where
  "evictOldestPathIfNeeded st = st\<lparr>versions := evict (maxPaths st) (versions st)\<rparr>"

text \<open>\<open>record\<close>: the entry found is removed by identity, that is at its own index.\<close>

definition record_snapshot ::
  "(string \<Rightarrow> string) \<Rightarrow> nat \<Rightarrow> string \<Rightarrow> string \<Rightarrow> store \<Rightarrow> store \<times> string" where
  "record_snapshot sha256hex now path fullText st =
     (let text' = normalizeSnapshotText fullText;
          hash = computeFileHash sha256hex text';
          history = (case js_get (versions st) path of None \<Rightarrow> [] | Some h \<Rightarrow> h)
      in case find_index (\<lambda>s. shash s = hash) history of
           Some i \<Rightarrow>
             (let existing = (history ! i)\<lparr>recordedAt := now\<rparr>
              in (st\<lparr>versions := js_set path (existing # take i history @ drop (Suc i) history)
                                  (js_delete path (versions st))\<rparr>, hash))
         | None \<Rightarrow>
             (let snapshot = \<lparr>spath = path, stext = text', shash = hash, recordedAt = now\<rparr>
              in (evictOldestPathIfNeeded
                    (st\<lparr>versions := js_set path (take (maxVersionsPerPath st) (snapshot # history))
                                     (js_delete path (versions st))\<rparr>), hash)))"

definition invalidate :: "string \<Rightarrow> store \<Rightarrow> store" where
  "invalidate path st = st\<lparr>versions := js_delete path (versions st)\<rparr>"

definition clear :: "store \<Rightarrow> store" where
  "clear st = st\<lparr>versions := []\<rparr>"

section \<open>The eviction loop keeps the newest paths\<close>

definition last_n :: "nat \<Rightarrow> 'a list \<Rightarrow> 'a list" where
  "last_n n xs = drop (length xs - n) xs"

lemma length_last_n [simp]: "length (last_n n xs) = min n (length xs)"
  by (simp add: last_n_def)

lemma last_n_all: "length xs \<le> n \<Longrightarrow> last_n n xs = xs"
  by (simp add: last_n_def)

lemma set_last_n: "set (last_n n xs) \<subseteq> set xs"
  by (simp add: last_n_def set_drop_subset)

lemma last_n_snoc: "last_n (Suc n) (xs @ [x]) = last_n n xs @ [x]"
  by (simp add: last_n_def)

lemma last_n_0 [simp]: "last_n 0 xs = []"
  by (simp add: last_n_def)

lemma last_n_Cons: "last_n n (x # xs) = (if length xs < n then x # xs else last_n n xs)"
  by (auto simp: last_n_def Suc_diff_le)

text \<open>Only the newest \<open>n\<close> elements matter for the newest \<open>n\<close> after another arrives.\<close>

lemma last_n_removeAll:
  assumes "distinct xs"
  shows "last_n n (removeAll p (last_n (Suc n) xs)) = last_n n (removeAll p xs)"
proof -
  obtain us vs where xs: "xs = us @ vs" and v: "last_n (Suc n) xs = vs"
    by (metis append_take_drop_id last_n_def)
  show ?thesis
  proof (cases "us = []")
    case False
    then have len: "length vs = Suc n"
      using xs v by (metis (no_types, lifting) append_self_conv2 last_n_all length_last_n min_def nat_le_linear)
    have "length (removeAll p vs) \<ge> n"
      using assms xs len by (cases "p \<in> set vs") (auto simp: length_removeAll_less_eq distinct_remove1_removeAll [symmetric] length_remove1)
    then show ?thesis using v xs by (simp add: last_n_def)
  qed (use xs v in simp)
qed

lemma last_n_lru:
  assumes "distinct xs"
  shows "last_n n (removeAll p (last_n n xs) @ [p]) = last_n n (removeAll p xs @ [p])"
proof (cases n)
  case (Suc k)
  then show ?thesis using last_n_removeAll [OF assms, of k p] by (simp add: last_n_snoc)
qed simp

lemma evict_last_n: "js_map_ok m \<Longrightarrow> evict n m = last_n n m"
proof (induction m)
  case (Cons e m)
  have ok: "js_map_ok m" using Cons.prems by (simp add: js_map_ok_def)
  show ?case
    using Cons.IH [OF ok] js_delete_first [OF Cons.prems]
    by (subst evict.simps) (auto simp: last_n_Cons)
qed (simp add: evict.simps last_n_def)

lemma js_keys_last_n: "js_keys (last_n n m) = last_n n (js_keys m)"
  by (simp add: js_keys_def last_n_def drop_map)

lemma js_map_ok_last_n: "js_map_ok m \<Longrightarrow> js_map_ok (last_n n m)"
  by (simp add: js_map_ok_def js_keys_last_n) (simp add: last_n_def)

section \<open>The invariant of the store\<close>

definition history_ok :: "(string \<Rightarrow> string) \<Rightarrow> nat \<Rightarrow> string \<Rightarrow> snapshot list \<Rightarrow> bool" where
  "history_ok sha256hex n path history \<longleftrightarrow>
     length history \<le> n \<and> distinct (map shash history) \<and>
     (\<forall>s \<in> set history. spath s = path \<and> shash s = computeFileHash sha256hex (stext s) \<and>
                          cr \<notin> set (stext s))"

definition store_ok :: "(string \<Rightarrow> string) \<Rightarrow> store \<Rightarrow> bool" where
  "store_ok sha256hex st \<longleftrightarrow>
     js_map_ok (versions st) \<and> length (versions st) \<le> maxPaths st \<and>
     (\<forall>(path, history) \<in> set (versions st). history_ok sha256hex (maxVersionsPerPath st) path history)"

lemma store_okD:
  assumes "store_ok h st"
  shows "js_map_ok (versions st)" "length (versions st) \<le> maxPaths st"
    and "js_get (versions st) p = Some hs \<Longrightarrow> history_ok h (maxVersionsPerPath st) p hs"
  using assms js_get_mem [of "versions st" p hs] by (auto simp: store_ok_def)

text \<open>The two results of \<open>record\<close>: the history an existing tag is moved to the front of,
  and the one a new version is added to.\<close>

definition history_of :: "store \<Rightarrow> string \<Rightarrow> snapshot list" where
  "history_of st path = (case js_get (versions st) path of None \<Rightarrow> [] | Some h \<Rightarrow> h)"

definition recorded_history :: "(string \<Rightarrow> string) \<Rightarrow> nat \<Rightarrow> string \<Rightarrow> string \<Rightarrow> store \<Rightarrow> snapshot list" where
  "recorded_history h now path t st =
     (let hash = computeFileHash h t; history = history_of st path
      in case find_index (\<lambda>s. shash s = hash) history of
           Some i \<Rightarrow> (history ! i)\<lparr>recordedAt := now\<rparr> # take i history @ drop (Suc i) history
         | None \<Rightarrow> take (maxVersionsPerPath st)
                     (\<lparr>spath = path, stext = normalizeSnapshotText t, shash = hash, recordedAt = now\<rparr> # history))"

lemma history_of_ok: "store_ok h st \<Longrightarrow> history_ok h (maxVersionsPerPath st) p (history_of st p)"
  by (auto simp: history_of_def history_ok_def dest: store_okD(3) split: option.splits)

lemma js_set_delete: "js_set k v (js_delete k m) = js_delete k m @ [(k, v)]"
  by (rule js_set_fresh) simp

lemma length_js_delete: "js_map_ok m \<Longrightarrow> length (js_delete k m) = length m - (if k \<in> set (js_keys m) then 1 else 0)"
proof -
  assume "js_map_ok m"
  moreover have "length (js_delete k m) = length (removeAll k (js_keys m))"
    by (simp only: js_keys_delete [symmetric] length_js_keys)
  ultimately show ?thesis
    by (simp add: js_map_ok_def distinct_remove1_removeAll [symmetric] length_remove1)
qed

text \<open>In both branches the path becomes the newest one, with the recorded history, and the
  paths are cut to the newest \<open>maxPaths\<close>.\<close>

lemma record_snapshot_versions:
  assumes ok: "store_ok h st"
  shows "record_snapshot h now path t st =
    (st\<lparr>versions := last_n (maxPaths st) (js_delete path (versions st) @ [(path, recorded_history h now path t st)])\<rparr>,
     computeFileHash h t)"
proof -
  let ?m = "js_delete path (versions st)"
  have okm: "js_map_ok (?m @ [(path, hs)])" for hs
    using js_map_ok_set [OF js_map_ok_delete [OF store_okD(1) [OF ok]], of path hs path]
    by (simp add: js_set_delete)
  show ?thesis
  proof (cases "find_index (\<lambda>s. shash s = computeFileHash h t) (history_of st path)")
    case None
    then show ?thesis
      by (simp add: record_snapshot_def recorded_history_def history_of_def [symmetric] Let_def
          evictOldestPathIfNeeded_def js_set_delete evict_last_n [OF okm])
  next
    case (Some i)
    then have "path \<in> set (js_keys (versions st))"
      using js_get_None [of "versions st" path] by (auto simp: history_of_def split: option.splits)
    then have "length (?m @ [(path, hs)]) \<le> maxPaths st" for hs
      using store_okD(2) [OF ok] length_js_delete [OF store_okD(1) [OF ok], of path]
      by (cases "versions st") auto
    with Some show ?thesis
      by (simp add: record_snapshot_def recorded_history_def history_of_def [symmetric] Let_def
          js_set_delete last_n_all)
  qed
qed

lemma find_index_front_distinct:
  assumes "distinct (map f xs)" and "i < length xs" and "f y = f (xs ! i)"
  shows "distinct (map f (y # take i xs @ drop (Suc i) xs))"
proof -
  have "mset (xs ! i # take i xs @ drop (Suc i) xs) = mset xs"
    using id_take_nth_drop [OF assms(2)] by (metis mset.simps(2) mset_append union_mset_add_mset_right)
  then have "mset (map f (xs ! i # take i xs @ drop (Suc i) xs)) = mset (map f xs)"
    by (simp only: mset_map)
  then have "distinct (map f (xs ! i # take i xs @ drop (Suc i) xs))"
    using assms(1) mset_eq_imp_distinct_iff by blast
  with assms(3) show ?thesis by simp
qed

lemma recorded_history_ok:
  assumes "store_ok h st"
  shows "history_ok h (maxVersionsPerPath st) path (recorded_history h now path t st)"
proof (cases "find_index (\<lambda>s. shash s = computeFileHash h t) (history_of st path)")
  case None
  let ?s = "\<lparr>spath = path, stext = normalizeSnapshotText t, shash = computeFileHash h t, recordedAt = now\<rparr>"
  let ?H = "?s # history_of st path"
  have "distinct (map shash ?H)"
    using None history_of_ok [OF assms, of path] by (auto simp: history_ok_def find_index_None)
  then have "distinct (map shash (take n ?H))" for n by (metis distinct_take take_map)
  moreover have "\<forall>s \<in> set ?H. spath s = path \<and> shash s = computeFileHash h (stext s) \<and> cr \<notin> set (stext s)"
    using history_of_ok [OF assms, of path] by (auto simp: history_ok_def)
  ultimately have "history_ok h n path (take n ?H)" for n
    using set_take_subset [of n ?H] unfolding history_ok_def by (meson in_set_takeD length_take min.cobounded2 min.cobounded1 order.trans dual_order.refl length_take [THEN eq_imp_le])
  with None show ?thesis by (simp add: recorded_history_def Let_def)
next
  case (Some i)
  let ?hs = "history_of st path"
  have i: "i < length ?hs" "shash (?hs ! i) = computeFileHash h t"
    using find_index_Some [OF Some] by auto
  have hok: "history_ok h (maxVersionsPerPath st) path ?hs" by (rule history_of_ok [OF assms])
  have "?hs ! i \<in> set ?hs" using i by simp
  then show ?thesis
    using Some i hok find_index_front_distinct [of shash ?hs i "(?hs ! i)\<lparr>recordedAt := now\<rparr>"]
    by (auto simp: recorded_history_def history_ok_def Let_def dest: in_set_takeD in_set_dropD)
qed

lemma record_snapshot_ok:
  assumes "store_ok h st"
  shows "store_ok h (fst (record_snapshot h now path t st))"
proof -
  let ?m = "js_delete path (versions st) @ [(path, recorded_history h now path t st)]"
  have "js_map_ok ?m"
    using js_map_ok_set [OF js_map_ok_delete [OF store_okD(1) [OF assms]]] by (metis js_set_delete)
  moreover have "\<forall>(p, hs) \<in> set ?m. history_ok h (maxVersionsPerPath st) p hs"
    using assms recorded_history_ok [OF assms] by (auto simp: store_ok_def set_js_delete)
  ultimately show ?thesis
    using set_last_n [of "maxPaths st" ?m]
    by (auto simp: record_snapshot_versions [OF assms] store_ok_def js_map_ok_last_n)
qed

lemma invalidate_ok: "store_ok h st \<Longrightarrow> store_ok h (invalidate path st)"
  by (auto simp: store_ok_def invalidate_def length_js_delete set_js_delete)

lemma clear_ok: "store_ok h st \<Longrightarrow> store_ok h (clear st)"
  by (simp add: store_ok_def clear_def)

lemma new_store_ok: "store_ok h (new_store a b)"
  by (simp add: store_ok_def new_store_def)

section \<open>What a recording makes visible\<close>

lemma js_get_last_n_snoc:
  assumes "n \<noteq> 0" and "js_map_ok (m @ [(k, v)])"
  shows "js_get (last_n n (m @ [(k, v)])) k = Some v"
proof -
  obtain j where "n = Suc j" using assms(1) by (cases n) auto
  then have "(k, v) \<in> set (last_n n (m @ [(k, v)]))" by (simp add: last_n_snoc)
  then show ?thesis using js_get_iff [OF js_map_ok_last_n [OF assms(2)]] by blast
qed

text \<open>After a recording the path's history is the recorded one, and the other paths keep
  theirs or are evicted.\<close>

lemma js_get_record_same:
  assumes "store_ok h st" and "maxPaths st \<noteq> 0"
  shows "js_get (versions (fst (record_snapshot h now path t st))) path = Some (recorded_history h now path t st)"
proof -
  have "js_map_ok (js_delete path (versions st) @ [(path, recorded_history h now path t st)])"
    using js_map_ok_set [OF js_map_ok_delete [OF store_okD(1) [OF assms(1)]]] by (metis js_set_delete)
  then show ?thesis
    using assms by (simp add: record_snapshot_versions js_get_last_n_snoc)
qed

lemma recorded_history_Cons:
  assumes "maxVersionsPerPath st \<noteq> 0"
  shows "\<exists>s rest. recorded_history h now path t st = s # rest \<and> shash s = computeFileHash h t \<and>
           recordedAt s = now \<and>
           (stext s = normalizeSnapshotText t \<or>
            (\<exists>s' \<in> set (history_of st path). stext s = stext s' \<and> shash s' = computeFileHash h t))"
proof (cases "find_index (\<lambda>s. shash s = computeFileHash h t) (history_of st path)")
  case None
  with assms show ?thesis
    by (cases "maxVersionsPerPath st") (auto simp: recorded_history_def Let_def)
next
  case (Some i)
  from find_index_Some [OF Some] have i: "i < length (history_of st path)"
    "shash (history_of st path ! i) = computeFileHash h t" by auto
  then have "history_of st path ! i \<in> set (history_of st path)" by simp
  with Some i show ?thesis by (auto simp: recorded_history_def Let_def)
qed

lemma upper_lower_upper: "to_upper (to_lower (to_upper s)) = to_upper s"
  by (auto simp: to_upper_def to_lower_def upper_char_def lower_char_def Let_def)

lemma to_upper_computeFileHash [simp]: "to_upper (computeFileHash h t) = computeFileHash h t"
  by (simp add: computeFileHash_def)

section \<open>The contract of a snapshot store\<close>

locale snapshot_store_contract =
  fixes ok :: "'s \<Rightarrow> bool"
    and tag :: "string \<Rightarrow> string"
    and lookup_head :: "'s \<Rightarrow> string \<Rightarrow> snapshot option"
    and lookup_hash :: "'s \<Rightarrow> string \<Rightarrow> string \<Rightarrow> snapshot option"
    and rec :: "nat \<Rightarrow> string \<Rightarrow> string \<Rightarrow> 's \<Rightarrow> 's \<times> string"
    and forget :: "string \<Rightarrow> 's \<Rightarrow> 's"
  assumes ok_rec: "ok st \<Longrightarrow> ok (fst (rec now p t st))"
    and ok_forget: "ok st \<Longrightarrow> ok (forget p st)"
    and rec_tag: "ok st \<Longrightarrow> snd (rec now p t st) = tag t"
    and head_rec: "ok st \<Longrightarrow> \<exists>s. lookup_head (fst (rec now p t st)) p = Some s \<and> shash s = tag t"
    and head_by_hash: "ok st \<Longrightarrow> lookup_head st p = Some s \<Longrightarrow> lookup_hash st p (shash s) = Some s"
    and by_hash_sound: "ok st \<Longrightarrow> lookup_hash st p x = Some s \<Longrightarrow>
          spath s = p \<and> shash s = to_upper x \<and> tag (stext s) = shash s"
    and by_hash_case: "lookup_hash st p (to_upper x) = lookup_hash st p x"
    and forget_head: "lookup_head (forget p st) p = None"
begin

text \<open>The tag a recording returns finds a snapshot of that path whose own tag it is.\<close>

lemma recorded_tag_found:
  assumes "ok st"
  shows "\<exists>s. lookup_hash (fst (rec now p t st)) p (snd (rec now p t st)) = Some s \<and>
             lookup_head (fst (rec now p t st)) p = Some s \<and> spath s = p \<and> tag (stext s) = tag t"
proof -
  obtain s where s: "lookup_head (fst (rec now p t st)) p = Some s" "shash s = tag t"
    using head_rec [OF assms] by blast
  then have "lookup_hash (fst (rec now p t st)) p (shash s) = Some s"
    using head_by_hash ok_rec [OF assms] by blast
  with s show ?thesis
    using by_hash_sound [OF ok_rec [OF assms]] rec_tag [OF assms] by metis
qed

end

definition usable :: "(string \<Rightarrow> string) \<Rightarrow> store \<Rightarrow> bool" where
  "usable sha256hex st \<longleftrightarrow> store_ok sha256hex st \<and> maxPaths st \<noteq> 0 \<and> maxVersionsPerPath st \<noteq> 0"

lemma record_snapshot_limits [simp]:
  "maxPaths (fst (record_snapshot h now p t st)) = maxPaths st"
  "maxVersionsPerPath (fst (record_snapshot h now p t st)) = maxVersionsPerPath st"
  by (simp_all add: record_snapshot_def Let_def evictOldestPathIfNeeded_def split: option.splits)

lemma find_first_distinct:
  "distinct (map f xs) \<Longrightarrow> x \<in> set xs \<Longrightarrow> List.find (\<lambda>y. f y = f x) xs = Some x"
  by (induction xs) auto

lemma head_byHash:
  assumes ok: "store_ok h st" and "head st p = Some s"
  shows "byHash st p (shash s) = Some s"
proof -
  from assms(2) obtain rest where g: "js_get (versions st) p = Some (s # rest)"
    by (auto simp: head_def split: option.splits list.splits)
  have "history_ok h (maxVersionsPerPath st) p (s # rest)" using store_okD(3) [OF ok g] .
  then have "to_upper (shash s) = shash s"
    by (auto simp: history_ok_def)
  with g show ?thesis by (simp add: byHash_def)
qed

lemma byHash_sound:
  assumes ok: "store_ok h st" and "byHash st p x = Some s"
  shows "spath s = p \<and> shash s = to_upper x \<and> computeFileHash h (stext s) = shash s"
proof -
  from assms(2) obtain hs where g: "js_get (versions st) p = Some hs"
    and f: "List.find (\<lambda>s. shash s = to_upper x) hs = Some s"
    by (auto simp: byHash_def Let_def split: option.splits)
  from f have "s \<in> set hs" "shash s = to_upper x"
    by (auto simp: find_Some_iff)
  then show ?thesis using store_okD(3) [OF ok g] by (auto simp: history_ok_def)
qed

lemma head_record:
  assumes "usable h st"
  shows "\<exists>s. head (fst (record_snapshot h now p t st)) p = Some s \<and> shash s = computeFileHash h t \<and>
     (stext s = normalizeSnapshotText t \<or>
      (\<exists>s' \<in> set (history_of st p). stext s = stext s' \<and> shash s' = computeFileHash h t))"
proof -
  have u: "store_ok h st" "maxPaths st \<noteq> 0" "maxVersionsPerPath st \<noteq> 0"
    using assms by (auto simp: usable_def)
  show ?thesis
    using recorded_history_Cons [OF u(3), of h now p t] js_get_record_same [OF u(1,2), of now p t]
    by (auto simp: head_def)
qed

interpretation mem_store: snapshot_store_contract
  "usable sha256hex" "computeFileHash sha256hex" head byHash "record_snapshot sha256hex" invalidate
  for sha256hex
proof unfold_locales
  show "usable sha256hex (fst (record_snapshot sha256hex now p t st))" if "usable sha256hex st" for st now p t
    using that by (simp add: usable_def record_snapshot_ok)
  show "usable sha256hex (invalidate p st)" if "usable sha256hex st" for st p
    using that by (simp add: usable_def invalidate_ok) (simp add: invalidate_def)
  show "snd (record_snapshot sha256hex now p t st) = computeFileHash sha256hex t" if "usable sha256hex st" for now p t st
    using that by (simp add: usable_def record_snapshot_versions)
  show "\<exists>s. head (fst (record_snapshot sha256hex now p t st)) p = Some s \<and> shash s = computeFileHash sha256hex t"
    if "usable sha256hex st" for now p t st
    using head_record [OF that] by blast
  show "byHash st p (shash s) = Some s" if "usable sha256hex st" "head st p = Some s" for st p s
    using that by (auto simp: usable_def intro: head_byHash)
  show "spath s = p \<and> shash s = to_upper x \<and> computeFileHash sha256hex (stext s) = shash s"
    if "usable sha256hex st" "byHash st p x = Some s" for st p x s
    using that by (intro byHash_sound [of sha256hex st]) (auto simp: usable_def)
qed (simp_all add: byHash_def head_def invalidate_def)

section \<open>Runs of the store\<close>

datatype store_op =
  Record nat string string
| Invalidate string
| Clear

fun store_step :: "(string \<Rightarrow> string) \<Rightarrow> store_op \<Rightarrow> store \<Rightarrow> store" where
  "store_step h (Record now p t) st = fst (record_snapshot h now p t st)"
| "store_step h (Invalidate p) st = invalidate p st"
| "store_step h Clear st = clear st"

definition store_run :: "(string \<Rightarrow> string) \<Rightarrow> store_op list \<Rightarrow> store \<Rightarrow> store" where
  "store_run h ops st = fold (store_step h) ops st"

lemma store_step_ok: "store_ok h st \<Longrightarrow> store_ok h (store_step h op st)"
  by (cases op) (auto intro: record_snapshot_ok invalidate_ok clear_ok)

lemma store_step_limits [simp]:
  "maxPaths (store_step h op st) = maxPaths st"
  "maxVersionsPerPath (store_step h op st) = maxVersionsPerPath st"
  by (cases op; simp add: invalidate_def clear_def)+

lemma store_run_snoc [simp]: "store_run h (ops @ [op]) st = store_step h op (store_run h ops st)"
  by (simp add: store_run_def)

lemma store_run_limits [simp]:
  "maxPaths (store_run h ops st) = maxPaths st"
  "maxVersionsPerPath (store_run h ops st) = maxVersionsPerPath st"
  by (induction ops rule: rev_induct) (simp_all add: store_run_def)

lemma store_run_ok: "store_ok h st \<Longrightarrow> store_ok h (store_run h ops st)"
  by (induction ops rule: rev_induct) (auto simp: store_run_def intro: store_step_ok)

text \<open>Whatever sequence of recordings, invalidations and clears a new snapshot store goes
  through, it holds at most its limit of paths and per path at most its limit of versions, no
  path twice, no tag twice within a path, and every stored version belongs to the path it is
  filed under, carries the tag of its own text, and has LF line endings.\<close>

theorem snapshot_store_invariant:
  "store_ok sha256hex (store_run sha256hex ops (new_store optMaxPaths optMaxVersions))"
  by (intro store_run_ok new_store_ok)

lemma js_keys_record:
  assumes "store_ok h st"
  shows "js_keys (versions (fst (record_snapshot h now p t st))) =
         last_n (maxPaths st) (removeAll p (js_keys (versions st)) @ [p])"
proof -
  have "js_keys (js_delete p (versions st) @ [(p, hs)]) = removeAll p (js_keys (versions st)) @ [p]" for hs
    using js_keys_delete [of p "versions st"] by (simp add: js_keys_def)
  then show ?thesis
    by (simp add: record_snapshot_versions [OF assms] js_keys_last_n)
qed

lemma remdups_snoc: "remdups (xs @ [x]) = removeAll x (remdups xs) @ [x]"
  by (induction xs) auto

fun op_path :: "nat \<times> string \<times> string \<Rightarrow> string" where
  "op_path (now, p, t) = p"

text \<open>C38: The store evicts the least recently recorded path: after any sequence of recordings
  of a new store the paths it holds, oldest first, are exactly the last \<open>maxPaths\<close> of the
  distinct paths in order of their latest recording. Looking a snapshot up does not count.\<close>

theorem snapshot_store_lru:
  "js_keys (versions (store_run sha256hex (map (\<lambda>(now, p, t). Record now p t) recs)
                        (new_store (Some n) optMaxVersions))) =
   last_n n (remdups (map op_path recs))"
proof (induction recs rule: rev_induct)
  case Nil
  show ?case by (simp add: store_run_def new_store_def last_n_def)
next
  case (snoc r recs)
  obtain now p t where r: "r = (now, p, t)" by (cases r)
  let ?st = "store_run sha256hex (map (\<lambda>(now, p, t). Record now p t) recs) (new_store (Some n) optMaxVersions)"
  have "store_ok sha256hex ?st" by (intro store_run_ok new_store_ok)
  from js_keys_record [OF this] show ?case
    using snoc.IH last_n_lru [of "remdups (map op_path recs)" n p]
    by (simp add: r remdups_snoc) (simp add: new_store_def)
qed

text \<open>Right after a file was recorded, in whatever state the store was, the tag that
  \<open>record\<close> returned finds a snapshot of that path, in upper or lower case, which is also its
  head; the snapshot's text has the same tag as the file, and is the file's text with LF line
  endings unless the history already had a text with that tag.\<close>

theorem recorded_tag_resolves:
  "let st = store_run sha256hex ops (new_store (Some (Suc n)) (Some (Suc k)));
       (st', tag) = record_snapshot sha256hex now path t st
   in tag = computeFileHash sha256hex t \<and>
      (\<exists>s. head st' path = Some s \<and> byHash st' path tag = Some s \<and> byHash st' path (to_lower tag) = Some s \<and>
           spath s = path \<and> computeFileHash sha256hex (stext s) = tag \<and>
           (stext s = normalizeSnapshotText t \<or> (\<exists>s' \<in> set (history_of st path). stext s = stext s')))"
proof -
  define st where "st = store_run sha256hex ops (new_store (Some (Suc n)) (Some (Suc k)))"
  have u: "usable sha256hex st"
    by (simp add: usable_def st_def store_run_ok new_store_ok) (simp add: new_store_def)
  obtain s where s: "head (fst (record_snapshot sha256hex now path t st)) path = Some s"
    "stext s = normalizeSnapshotText t \<or> (\<exists>s' \<in> set (history_of st path). stext s = stext s')"
    using head_record [OF u] by blast
  have "byHash st' path (to_lower (computeFileHash sha256hex t)) = byHash st' path (computeFileHash sha256hex t)" for st'
    by (metis mem_store.by_hash_case to_upper_computeFileHash upper_lower_upper)
  with s show ?thesis
    using mem_store.recorded_tag_found [OF u, of now path t] mem_store.rec_tag [OF u, of now path t]
    by (auto simp: st_def [symmetric] Let_def split: prod.splits)
qed

end
