(* ===== verification/Hashline_Conflict.thy ===== *)
theory Hashline_Conflict
  imports Prelude
begin

text \<open>
  Merge conflicts (\<open>packages/hashline/src/conflict.ts\<close>): finding git conflict markers,
  resolving them to one side, the three-way merge that writes them, and the check for nearby
  edits. The reference the index arithmetic is compared with cuts the lines into chunks, plain
  lines and complete conflicts, in one pass.
\<close>

record conflict_marker =
  lineStart :: nat
  lineEnd :: nat
  ours :: "string list"
  theirs :: "string list"
  base :: "string list"

record detection_result =
  hasConflicts :: bool
  conflicts :: "conflict_marker list"
  lines :: "string list"

definition is_start :: "string \<Rightarrow> bool" where "is_start l \<longleftrightarrow> starts_with ''<<<<<<<'' l"
definition is_middle :: "string \<Rightarrow> bool" where "is_middle l \<longleftrightarrow> starts_with ''======='' l"
definition is_end :: "string \<Rightarrow> bool" where "is_end l \<longleftrightarrow> starts_with ''>>>>>>>'' l"

text \<open>The loop of \<open>detectMergeConflicts\<close> from line \<open>i\<close>; its two inner loops
  collect the lines up to the next separator.\<close>

function detect_from :: "string list \<Rightarrow> nat \<Rightarrow> conflict_marker list" where
  "detect_from ls i =
     (if length ls \<le> i then []
      else if is_start (ls ! i) then
        (let o' = takeWhile (\<lambda>l. \<not> is_middle l) (drop (i + 1) ls); j = i + 1 + length o'
         in if length ls \<le> j then detect_from ls (j + 1)
            else (let t' = takeWhile (\<lambda>l. \<not> is_end l) (drop (j + 1) ls); k = j + 1 + length t'
                  in if length ls \<le> k then detect_from ls (k + 1)
                     else \<lparr>lineStart = i, lineEnd = k, ours = o', theirs = t', base = []\<rparr>
                          # detect_from ls (k + 1)))
      else detect_from ls (i + 1))"
  by pat_completeness auto
termination
  by (relation "measure (\<lambda>(ls, i). length ls - i)") (auto simp: Let_def)

declare detect_from.simps [simp del]

definition detectMergeConflicts :: "string \<Rightarrow> detection_result" where
  "detectMergeConflicts content =
     (let ls = lines_of content; cs = detect_from ls 0
      in \<lparr>hasConflicts = 0 < length cs, conflicts = cs, lines = ls\<rparr>)"

datatype strategy = Ours | Theirs

definition by_start_desc :: "conflict_marker \<Rightarrow> conflict_marker \<Rightarrow> int" where
  "by_start_desc a b = int (lineStart b) - int (lineStart a)"

definition resolve_one :: "strategy \<Rightarrow> string list \<Rightarrow> conflict_marker \<Rightarrow> string list" where
  "resolve_one strategy result c =
     (let resolution = (if strategy = Ours then ours c else theirs c)
      in take (lineStart c) result @ resolution @ drop (lineEnd c + 1) result)"

definition resolveConflicts :: "string \<Rightarrow> strategy \<Rightarrow> string" where
  "resolveConflicts content strategy =
     (let d = detectMergeConflicts content
      in if conflicts d = [] then content
         else unlines (foldl (resolve_one strategy) (lines d) (js_sort by_start_desc (conflicts d))))"

text \<open>\<open>detectSemanticConflicts\<close> compares edits by identity; edits are therefore
  represented by their positions in the argument.\<close>

record line_edit =
  startLine :: int
  endLine :: int
  newContent :: "string list"

definition gap :: "line_edit \<Rightarrow> line_edit \<Rightarrow> int" where
  "gap edit1 edit2 = startLine edit2 - endLine edit1 - 1"

definition semantic_pair :: "line_edit list \<Rightarrow> int \<Rightarrow> (nat \<times> nat) list \<Rightarrow> nat \<times> nat \<Rightarrow> (nat \<times> nat) list" where
  "semantic_pair edits contextLines found ij =
     (let (i, j) = ij
      in if gap (edits ! i) (edits ! j) \<le> contextLines \<and>
            \<not> (\<exists>p \<in> set found. fst p = i \<or> snd p = i \<or> fst p = j \<or> snd p = j)
         then found @ [(i, j)] else found)"

definition index_pairs :: "nat \<Rightarrow> (nat \<times> nat) list" where
  "index_pairs n = concat (map (\<lambda>i. map (\<lambda>j. (i, j)) [i + 1..<n]) [0..<n])"

definition detectSemanticConflicts :: "line_edit list \<Rightarrow> int \<Rightarrow> (nat \<times> nat) list" where
  "detectSemanticConflicts edits contextLines =
     foldl (semantic_pair edits contextLines) [] (index_pairs (length edits))"

definition wouldConflict :: "int \<Rightarrow> int \<Rightarrow> int \<Rightarrow> int \<Rightarrow> int \<Rightarrow> int \<Rightarrow> bool" where
  "wouldConflict baseStart baseEnd change1Start change1End change2Start change2End \<longleftrightarrow>
     \<not> (change1End < change2Start \<or> change2End < change1Start)"

record merge_result =
  merged :: string
  mconflicts :: "conflict_marker list"
  mhasConflicts :: bool

definition line_or_empty :: "string list \<Rightarrow> nat \<Rightarrow> string" where
  "line_or_empty ls i = (if i < length ls then ls ! i else [])"

definition merge_line ::
  "string list \<Rightarrow> string list \<Rightarrow> string list \<Rightarrow> string list \<times> conflict_marker list \<Rightarrow> nat
     \<Rightarrow> string list \<times> conflict_marker list" where
  "merge_line baseLines ourLines theirLines acc i =
     (let (result, cs) = acc;
          baseLine = line_or_empty baseLines i;
          ourLine = line_or_empty ourLines i;
          theirLine = line_or_empty theirLines i
      in if ourLine = theirLine then (result @ [ourLine], cs)
         else if ourLine = baseLine then (result @ [theirLine], cs)
         else if theirLine = baseLine then (result @ [ourLine], cs)
         else (let result' = result @ [''<<<<<<< HEAD'', ourLine, ''======='', theirLine, ''>>>>>>>'']
               in (result', cs @ [\<lparr>lineStart = length result' - 5, lineEnd = length result' - 1,
                                  ours = [ourLine], theirs = [theirLine], base = [baseLine]\<rparr>])))"

definition threeWayMerge :: "string \<Rightarrow> string \<Rightarrow> string \<Rightarrow> merge_result" where
  "threeWayMerge b o' t =
     (let baseLines = lines_of b; ourLines = lines_of o'; theirLines = lines_of t
      in if o' = t then \<lparr>merged = o', mconflicts = [], mhasConflicts = False\<rparr>
         else if o' = b then \<lparr>merged = t, mconflicts = [], mhasConflicts = False\<rparr>
         else if t = b then \<lparr>merged = o', mconflicts = [], mhasConflicts = False\<rparr>
         else (let maxLines = max (max (length baseLines) (length ourLines)) (length theirLines);
                   (result, cs) = foldl (merge_line baseLines ourLines theirLines) ([], []) [0..<maxLines]
               in \<lparr>merged = unlines result, mconflicts = cs, mhasConflicts = 0 < length cs\<rparr>))"

section \<open>Chunks\<close>

datatype chunk =
  Plain string
| Conflict string "string list" string "string list" string

fun chunk_lines :: "chunk \<Rightarrow> string list" where
  "chunk_lines (Plain l) = [l]"
| "chunk_lines (Conflict a os b ts c) = a # os @ b # ts @ [c]"

fun chunk_side :: "strategy \<Rightarrow> chunk \<Rightarrow> string list" where
  "chunk_side s (Plain l) = [l]"
| "chunk_side s (Conflict a os b ts c) = (if s = Ours then os else ts)"

fun chunk_ok :: "chunk \<Rightarrow> bool" where
  "chunk_ok (Plain l) \<longleftrightarrow> \<not> is_start l"
| "chunk_ok (Conflict a os b ts c) \<longleftrightarrow> is_start a \<and> (\<forall>l \<in> set os. \<not> is_middle l) \<and> is_middle b \<and>
     (\<forall>l \<in> set ts. \<not> is_end l) \<and> is_end c"

function parse_chunks :: "string list \<Rightarrow> chunk list" where
  "parse_chunks [] = []"
| "parse_chunks (l # ls) =
     (if is_start l then
        (case dropWhile (\<lambda>l. \<not> is_middle l) ls of
           [] \<Rightarrow> map Plain (l # ls)
         | m # rest \<Rightarrow>
             (case dropWhile (\<lambda>l. \<not> is_end l) rest of
                [] \<Rightarrow> map Plain (l # ls)
              | e # rest' \<Rightarrow>
                  Conflict l (takeWhile (\<lambda>l. \<not> is_middle l) ls) m (takeWhile (\<lambda>l. \<not> is_end l) rest) e
                  # parse_chunks rest'))
      else Plain l # parse_chunks ls)"
  by pat_completeness auto
termination
proof (relation "measure length", goal_cases)
  case (2 l ls m rest e rest')
  then show ?case
    using length_dropWhile_le [of "\<lambda>l. \<not> is_middle l" ls] length_dropWhile_le [of "\<lambda>l. \<not> is_end l" rest]
    by simp
qed auto

fun markers_from :: "nat \<Rightarrow> chunk list \<Rightarrow> conflict_marker list" where
  "markers_from i [] = []"
| "markers_from i (Plain l # cs) = markers_from (i + 1) cs"
| "markers_from i (Conflict a os b ts c # cs) =
     \<lparr>lineStart = i, lineEnd = i + 2 + length os + length ts, ours = os, theirs = ts, base = []\<rparr>
     # markers_from (i + 3 + length os + length ts) cs"

lemma parse_unclosed:
  assumes "is_start l" and "dropWhile (\<lambda>l. \<not> is_middle l) ls = [] \<or>
    dropWhile (\<lambda>l. \<not> is_middle l) ls = m # rest \<and> dropWhile (\<lambda>l. \<not> is_end l) rest = []"
  shows "parse_chunks (l # ls) = map Plain (l # ls)"
  using assms by (auto simp del: dropWhile_eq_Nil_conv split: list.splits)

lemma concat_parse_chunks [simp]: "concat (map chunk_lines (parse_chunks ls)) = ls"
proof (induction ls rule: parse_chunks.induct)
  case (2 l ls)
  have plain: "concat (map chunk_lines (map Plain xs)) = xs" for xs by (induction xs) auto
  show ?case
  proof (cases "is_start l")
    case True
    show ?thesis
    proof (cases "dropWhile (\<lambda>l. \<not> is_middle l) ls")
      case (Cons m rest)
      have ls: "takeWhile (\<lambda>l. \<not> is_middle l) ls @ m # rest = ls"
        using takeWhile_dropWhile_id [of "\<lambda>l. \<not> is_middle l" ls] Cons by simp
      show ?thesis
      proof (cases "dropWhile (\<lambda>l. \<not> is_end l) rest")
        case c2: (Cons e rest')
        have "takeWhile (\<lambda>l. \<not> is_end l) rest @ e # rest' = rest"
          using takeWhile_dropWhile_id [of "\<lambda>l. \<not> is_end l" rest] c2 by simp
        with ls 2(1) [OF True Cons c2] True Cons c2 show ?thesis by simp
      qed (use True Cons parse_unclosed [of l ls m rest] plain [of "l # ls"] in metis)
    qed (use True parse_unclosed [of l ls] plain [of "l # ls"] in metis)
  qed (use 2(2) in simp)
qed simp

lemma parse_concat_chunks:
  "\<forall>c \<in> set cs. chunk_ok c \<Longrightarrow> parse_chunks (concat (map chunk_lines cs)) = cs"
proof (induction cs)
  case (Cons c cs)
  then show ?case by (cases c) (auto simp: takeWhile_append dropWhile_append)
qed simp

lemma markers_from_plain [simp]: "markers_from i (map Plain ls) = []"
  by (induction ls arbitrary: i) auto

lemma dropWhile_as_drop: "dropWhile P xs = drop (length (takeWhile P xs)) xs"
  by (metis append_eq_conv_conj takeWhile_dropWhile_id)

lemma detect_from_end: "length ls \<le> i \<Longrightarrow> detect_from ls i = []"
  by (simp add: detect_from.simps)

text \<open>The index loop finds exactly the conflict chunks, at their offsets.\<close>

lemma detect_from_chunks: "detect_from ls i = markers_from i (parse_chunks (drop i ls))"
proof (induction ls i rule: detect_from.induct)
  case (1 ls i)
  show ?case
  proof (cases "i < length ls")
    case False
    then show ?thesis by (simp add: detect_from_end)
  next
    case True
    then have d: "drop i ls = ls ! i # drop (i + 1) ls" by (simp add: Cons_nth_drop_Suc)
    let ?o = "takeWhile (\<lambda>l. \<not> is_middle l) (drop (i + 1) ls)"
    let ?j = "i + 1 + length ?o"
    let ?t = "takeWhile (\<lambda>l. \<not> is_end l) (drop (?j + 1) ls)"
    let ?k = "?j + 1 + length ?t"
    have dj: "dropWhile (\<lambda>l. \<not> is_middle l) (drop (i + 1) ls) = drop ?j ls"
      by (simp add: dropWhile_as_drop [of _ "drop (Suc i) ls"] add.commute)
    have dk: "dropWhile (\<lambda>l. \<not> is_end l) (drop (?j + 1) ls) = drop ?k ls"
      by (simp add: dropWhile_as_drop [of _ "drop (Suc _) ls"] add.commute add.left_commute)
    show ?thesis
    proof (cases "is_start (ls ! i)")
      case st: True
      consider (a) "length ls \<le> ?j" | (b) "?j < length ls" "length ls \<le> ?k" | (c) "?k < length ls"
        by linarith
      then show ?thesis
      proof cases
        case a
        then have "detect_from ls i = []"
          using True st by (subst detect_from.simps) (simp add: Let_def detect_from_end)
        moreover have "parse_chunks (drop i ls) = map Plain (drop i ls)"
          unfolding d by (rule parse_unclosed [OF st]) (use a dj in simp)
        ultimately show ?thesis by (simp only: markers_from_plain)
      next
        case b
        then have "detect_from ls i = []"
          using True st by (subst detect_from.simps) (simp add: Let_def detect_from_end)
        moreover have "drop ?j ls = ls ! ?j # drop (?j + 1) ls"
          using b by (simp add: Cons_nth_drop_Suc)
        then have "parse_chunks (drop i ls) = map Plain (drop i ls)"
          unfolding d by (intro parse_unclosed [OF st, where m = "ls ! ?j" and rest = "drop (?j + 1) ls"] disjI2 conjI)
            (use dj in simp, use b dk in simp)
        ultimately show ?thesis by (simp only: markers_from_plain)
      next
        case c
        then have j: "?j < length ls" by linarith
        have "drop ?j ls = ls ! ?j # drop (?j + 1) ls" "drop ?k ls = ls ! ?k # drop (?k + 1) ls"
          using c j by (simp_all add: Cons_nth_drop_Suc)
        then have p: "parse_chunks (drop i ls) = Conflict (ls ! i) ?o (ls ! ?j) ?t (ls ! ?k) # parse_chunks (drop (?k + 1) ls)"
          using st dj dk unfolding d by simp
        have "detect_from ls i = \<lparr>lineStart = i, lineEnd = ?k, ours = ?o, theirs = ?t, base = []\<rparr> # detect_from ls (?k + 1)"
          using True st c j by (subst detect_from.simps) (simp add: Let_def)
        moreover have "detect_from ls (?k + 1) = markers_from (?k + 1) (parse_chunks (drop (?k + 1) ls))"
          using 1(3) [OF _ st refl refl _ refl refl] True c j by simp
        ultimately show ?thesis unfolding p by (simp add: eval_nat_numeral add.commute add.left_commute)
      qed
    next
      case False
      have "detect_from ls i = detect_from ls (i + 1)"
        using True False by (subst detect_from.simps) simp
      moreover have "detect_from ls (i + 1) = markers_from (i + 1) (parse_chunks (drop (i + 1) ls))"
        using 1(4) True False by simp
      ultimately show ?thesis using False unfolding d by simp
    qed
  qed
qed

section \<open>Resolving conflicts\<close>

lemma markers_from_bounds: "m \<in> set (markers_from i cs) \<Longrightarrow> i \<le> lineStart m"
  by (induction i cs rule: markers_from.induct) auto

lemma insort_cmp_last: "\<forall>y \<in> set ys. 0 < cmp x y \<Longrightarrow> insort_cmp cmp x ys = ys @ [x]"
  by (induction ys) auto

lemma sort_markers: "js_sort by_start_desc (markers_from i cs) = rev (markers_from i cs)"
proof (induction i cs rule: markers_from.induct)
  case (3 i a os b ts c cs)
  then show ?case
    by (auto simp: by_start_desc_def intro!: insort_cmp_last dest!: markers_from_bounds)
qed auto

text \<open>Replacing the conflicts from the last to the first leaves the offsets of the earlier
  ones valid.\<close>

lemma resolve_markers:
  "length pre = i \<Longrightarrow>
   foldr (\<lambda>c r. resolve_one s r c) (markers_from i cs) (pre @ concat (map chunk_lines cs)) =
   pre @ concat (map (chunk_side s) cs)"
proof (induction i cs arbitrary: pre rule: markers_from.induct)
  case (2 i l cs)
  then show ?case using "2.IH" [of "pre @ [l]"] by simp
next
  case (3 i a os b ts c cs)
  then show ?case
    using "3.IH" [of "pre @ a # os @ b # ts @ [c]"] by (auto simp: resolve_one_def Let_def eval_nat_numeral)
qed simp

definition lines_side :: "strategy \<Rightarrow> string list \<Rightarrow> string list" where
  "lines_side s ls = concat (map (chunk_side s) (parse_chunks ls))"

lemma markers_Nil: "markers_from i cs = [] \<Longrightarrow> concat (map (chunk_side s) cs) = concat (map chunk_lines cs)"
  by (induction i cs rule: markers_from.induct) auto

lemma resolveConflicts_lines_side:
  "resolveConflicts content strategy = unlines (lines_side strategy (lines_of content))"
proof -
  let ?ls = "lines_of content"
  have d: "detect_from ?ls 0 = markers_from 0 (parse_chunks ?ls)" using detect_from_chunks [of ?ls 0] by simp
  show ?thesis
  proof (cases "markers_from 0 (parse_chunks ?ls) = []")
    case True
    then show ?thesis
      using markers_Nil [OF True, of strategy]
      by (simp add: resolveConflicts_def detectMergeConflicts_def Let_def d lines_side_def)
  next
    case False
    have "foldl (resolve_one strategy) ?ls (rev (markers_from 0 (parse_chunks ?ls))) = lines_side strategy ?ls"
      using resolve_markers [of "[]" 0 strategy "parse_chunks ?ls"]
      by (simp add: foldl_conv_foldr lines_side_def)
    with False show ?thesis
      by (simp add: resolveConflicts_def detectMergeConflicts_def Let_def d sort_markers)
  qed
qed

text \<open>Resolving the conflicts of a text, which replaces line ranges by index from the last
  conflict to the first, equals the one-pass reference: cut the lines into plain lines and
  complete conflicts (start marker, lines, separator, lines, end marker), keep the plain lines
  and of each conflict the lines of the chosen side. A conflict that is not closed stays as
  text.\<close>

theorem resolveConflicts_chunks:
  "resolveConflicts content strategy = unlines (lines_side strategy (lines_of content)) \<and>
   concat (map chunk_lines (parse_chunks (lines_of content))) = lines_of content"
  by (simp add: resolveConflicts_lines_side)

section \<open>The three-way merge\<close>

definition marker_free :: "string \<Rightarrow> bool" where
  "marker_free content \<longleftrightarrow> (\<forall>l \<in> set (lines_of content). \<not> is_start l \<and> \<not> is_middle l \<and> \<not> is_end l)"

text \<open>The reference merge of one line: the side that changed it wins, and where both did the
  strategy decides.\<close>

definition pick_line :: "strategy \<Rightarrow> string \<Rightarrow> string \<Rightarrow> string \<Rightarrow> string" where
  "pick_line s b o' t =
     (if o' = t then o' else if o' = b then t else if t = b then o' else (if s = Ours then o' else t))"

definition merge_chunk :: "string \<Rightarrow> string \<Rightarrow> string \<Rightarrow> chunk" where
  "merge_chunk b o' t =
     (if o' = t then Plain o' else if o' = b then Plain t else if t = b then Plain o'
      else Conflict ''<<<<<<< HEAD'' [o'] ''======='' [t] ''>>>>>>>'')"

definition merge_chunks :: "string list \<Rightarrow> string list \<Rightarrow> string list \<Rightarrow> nat list \<Rightarrow> chunk list" where
  "merge_chunks bs os ts is' = map (\<lambda>i. merge_chunk (line_or_empty bs i) (line_or_empty os i) (line_or_empty ts i)) is'"

lemma markers_from_append:
  "markers_from i (cs @ ds) = markers_from i cs @ markers_from (i + length (concat (map chunk_lines cs))) ds"
  by (induction i cs rule: markers_from.induct) (auto simp: algebra_simps eval_nat_numeral)

lemma foldl_merge_line:
  assumes "r = concat (map chunk_lines cs)" and "map (\<lambda>m. m\<lparr>base := []\<rparr>) ms = markers_from 0 cs"
  shows "\<exists>r' ms'. foldl (merge_line bs os ts) (r, ms) is' = (r', ms') \<and>
    r' = concat (map chunk_lines (cs @ merge_chunks bs os ts is')) \<and>
    map (\<lambda>m. m\<lparr>base := []\<rparr>) ms' = markers_from 0 (cs @ merge_chunks bs os ts is')"
  using assms
proof (induction is' arbitrary: r ms cs)
  case Nil
  then show ?case by (simp add: merge_chunks_def)
next
  case (Cons i is')
  let ?c = "merge_chunk (line_or_empty bs i) (line_or_empty os i) (line_or_empty ts i)"
  obtain r1 ms1 where m1: "merge_line bs os ts (r, ms) i = (r1, ms1)" by (cases "merge_line bs os ts (r, ms) i")
  have "r1 = concat (map chunk_lines (cs @ [?c]))" "map (\<lambda>m. m\<lparr>base := []\<rparr>) ms1 = markers_from 0 (cs @ [?c])"
    using m1 Cons.prems
    by (auto simp: merge_line_def merge_chunk_def Let_def markers_from_append split: if_splits)
  from Cons.IH [OF this] show ?case by (simp add: m1 merge_chunks_def)
qed

lemma nl_free_line_or_empty: "nl \<notin> set (line_or_empty (lines_of s) i)"
  using split_on_sep_free [of "lines_of s ! i" nl s] by (auto simp: line_or_empty_def)

lemma markers_Nil_line [simp]: "\<not> is_start []" "\<not> is_middle []" "\<not> is_end []"
  by (simp_all add: is_start_def is_middle_def is_end_def)

lemma marker_free_line: "marker_free s \<Longrightarrow>
   \<not> is_start (line_or_empty (lines_of s) i) \<and> \<not> is_middle (line_or_empty (lines_of s) i) \<and>
   \<not> is_end (line_or_empty (lines_of s) i)"
  by (auto simp: line_or_empty_def marker_free_def)

lemma merge_chunk_ok:
  assumes "\<not> is_start o'" "\<not> is_middle o'" "\<not> is_start t" "\<not> is_end t"
  shows "chunk_ok (merge_chunk b o' t)"
proof -
  have "is_start ''<<<<<<< HEAD''" "is_middle ''=======''" "is_end ''>>>>>>>''"
    by (simp_all add: is_start_def is_middle_def is_end_def)
  with assms show ?thesis by (simp add: merge_chunk_def)
qed

lemma merge_chunk_side: "chunk_side s (merge_chunk b o' t) = [pick_line s b o' t]"
  by (auto simp: merge_chunk_def pick_line_def)

lemma merge_chunk_nl_free:
  assumes "nl \<notin> set o'" "nl \<notin> set t" "l \<in> set (chunk_lines (merge_chunk b o' t))"
  shows "nl \<notin> set l"
  using assms by (auto simp: merge_chunk_def split: if_splits)

text \<open>The lines of a merged text where the three versions differ.\<close>

lemma threeWayMerge_chunks:
  assumes "o' \<noteq> t" "o' \<noteq> b" "t \<noteq> b"
  defines "n \<equiv> max (max (length (lines_of b)) (length (lines_of o'))) (length (lines_of t))"
  defines "cs \<equiv> merge_chunks (lines_of b) (lines_of o') (lines_of t) [0..<n]"
  shows "lines_of (merged (threeWayMerge b o' t)) = concat (map chunk_lines cs)"
    and "map (\<lambda>m. m\<lparr>base := []\<rparr>) (mconflicts (threeWayMerge b o' t)) = markers_from 0 cs"
proof -
  obtain r ms where f: "foldl (merge_line (lines_of b) (lines_of o') (lines_of t)) ([], []) [0..<n] = (r, ms)"
    and r: "r = concat (map chunk_lines cs)" and ms: "map (\<lambda>m. m\<lparr>base := []\<rparr>) ms = markers_from 0 cs"
    using foldl_merge_line [of "[]" "[]" "[]" "lines_of b" "lines_of o'" "lines_of t" "[0..<n]"]
    by (auto simp: cs_def)
  have m: "threeWayMerge b o' t = \<lparr>merged = unlines r, mconflicts = ms, mhasConflicts = 0 < length ms\<rparr>"
    using assms(1-3) f by (simp add: threeWayMerge_def Let_def n_def)
  have "n \<noteq> 0" by (simp add: n_def)
  then have "cs \<noteq> []" by (simp add: cs_def merge_chunks_def)
  moreover have "chunk_lines c \<noteq> []" for c by (cases c) auto
  ultimately have ne: "r \<noteq> []" using r by (cases cs) auto
  have "\<forall>l \<in> set r. nl \<notin> set l"
    using merge_chunk_nl_free nl_free_line_or_empty unfolding r cs_def merge_chunks_def by (fastforce simp del: in_set_conv_nth)
  then have "lines_of (unlines r) = r" using ne by (simp add: split_on_join)
  then show "lines_of (merged (threeWayMerge b o' t)) = concat (map chunk_lines cs)" by (simp add: m r)
  show "map (\<lambda>m. m\<lparr>base := []\<rparr>) (mconflicts (threeWayMerge b o' t)) = markers_from 0 cs" by (simp add: m ms)
qed

text \<open>The conflicts a three-way merge reports are the ones its marked-up text contains, and
  resolving that text to a side gives the line-by-line merge in which a line only one side
  changed is taken from it, and a line both changed differently is taken from the chosen side
  (for three different versions whose lines are not markers themselves).\<close>

theorem threeWayMerge_resolve:
  assumes "o' \<noteq> t" "o' \<noteq> b" "t \<noteq> b" and "marker_free o'" "marker_free t"
  shows "conflicts (detectMergeConflicts (merged (threeWayMerge b o' t))) =
           map (\<lambda>m. m\<lparr>base := []\<rparr>) (mconflicts (threeWayMerge b o' t)) \<and>
         resolveConflicts (merged (threeWayMerge b o' t)) strategy =
           unlines (map (\<lambda>i. pick_line strategy (line_or_empty (lines_of b) i)
                              (line_or_empty (lines_of o') i) (line_or_empty (lines_of t) i))
              [0..<max (max (length (lines_of b)) (length (lines_of o'))) (length (lines_of t))])"
proof -
  let ?n = "max (max (length (lines_of b)) (length (lines_of o'))) (length (lines_of t))"
  let ?cs = "merge_chunks (lines_of b) (lines_of o') (lines_of t) [0..<?n]"
  note c = threeWayMerge_chunks [OF assms(1-3)]
  have "\<forall>c \<in> set ?cs. chunk_ok c"
    using marker_free_line [OF assms(4)] marker_free_line [OF assms(5)]
    by (auto simp: merge_chunks_def intro!: merge_chunk_ok)
  then have p: "parse_chunks (lines_of (merged (threeWayMerge b o' t))) = ?cs"
    using c(1) parse_concat_chunks by simp
  have "lines_side strategy (lines_of (merged (threeWayMerge b o' t))) =
     map (\<lambda>i. pick_line strategy (line_or_empty (lines_of b) i)
                              (line_or_empty (lines_of o') i) (line_or_empty (lines_of t) i)) [0..<?n]"
    unfolding lines_side_def p merge_chunks_def by (simp add: merge_chunk_side comp_def)
  moreover have "detect_from (lines_of (merged (threeWayMerge b o' t))) 0 = markers_from 0 ?cs"
    using detect_from_chunks [of "lines_of (merged (threeWayMerge b o' t))" 0] p by simp
  ultimately show ?thesis
    using c(2) resolveConflicts_lines_side
    by (simp add: detectMergeConflicts_def Let_def)
qed

theorem threeWayMerge_resolve_witness:
  "resolveConflicts (merged (threeWayMerge (''a'' @ nl # ''b'') (''x'' @ nl # ''b'') (''y'' @ nl # ''c''))) Theirs =
     ''y'' @ nl # ''c''"
proof -
  have m: "marker_free (''x'' @ nl # ''b'')" "marker_free (''y'' @ nl # ''c'')"
    by (simp_all add: marker_free_def is_start_def is_middle_def is_end_def)
  show ?thesis
    using threeWayMerge_resolve [of "''x'' @ nl # ''b''" "''y'' @ nl # ''c''" "''a'' @ nl # ''b''" Theirs] m
    by (simp add: pick_line_def line_or_empty_def upt_rec)
qed

text \<open>A line deleted at the end of one version is merged as an empty line: with the base
  \<open>a, b\<close>, our version \<open>x\<close> (first line changed, second deleted) and their version
  \<open>a, b, c\<close> (a line appended) the merge has no conflict and is \<open>x\<close>, an empty
  line, \<open>c\<close>.\<close>

theorem threeWayMerge_deletion_blank:
  "threeWayMerge (''a'' @ nl # ''b'') ''x'' (''a'' @ nl # ''b'' @ nl # ''c'') =
     \<lparr>merged = ''x'' @ nl # nl # ''c'', mconflicts = [], mhasConflicts = False\<rparr>"
  by (simp add: threeWayMerge_def Let_def merge_line_def line_or_empty_def upt_rec)

section \<open>Nearby edits\<close>

definition touches :: "nat \<times> nat \<Rightarrow> nat \<times> nat \<Rightarrow> bool" where
  "touches p q \<longleftrightarrow> fst p = fst q \<or> snd p = fst q \<or> fst p = snd q \<or> snd p = snd q"

lemma semantic_pair_touches:
  "semantic_pair edits k found q =
     (if gap (edits ! fst q) (edits ! snd q) \<le> k \<and> \<not> (\<exists>p \<in> set found. touches p q)
      then found @ [q] else found)"
  by (auto simp: semantic_pair_def touches_def split: prod.splits)

text \<open>The reported pairs are a maximal matching of the close pairs.\<close>

lemma semantic_fold:
  assumes "\<forall>p \<in> set found. gap (edits ! fst p) (edits ! snd p) \<le> k" and "sorted_wrt (\<lambda>p q. \<not> touches p q) found"
  shows "let r = foldl (semantic_pair edits k) found qs in
     set found \<subseteq> set r \<and> set r \<subseteq> set found \<union> set qs \<and>
     (\<forall>p \<in> set r. gap (edits ! fst p) (edits ! snd p) \<le> k) \<and>
     sorted_wrt (\<lambda>p q. \<not> touches p q) r \<and>
     (\<forall>q \<in> set qs. gap (edits ! fst q) (edits ! snd q) \<le> k \<longrightarrow> (\<exists>p \<in> set r. touches p q))"
  using assms
proof (induction qs arbitrary: found)
  case (Cons q qs)
  let ?f = "semantic_pair edits k found q"
  have f: "\<forall>p \<in> set ?f. gap (edits ! fst p) (edits ! snd p) \<le> k" "sorted_wrt (\<lambda>p q. \<not> touches p q) ?f"
    "set found \<subseteq> set ?f" "set ?f \<subseteq> insert q (set found)"
    using Cons.prems by (auto simp: semantic_pair_touches sorted_wrt_append)
  have t: "\<exists>p \<in> set ?f. touches p q" if "gap (edits ! fst q) (edits ! snd q) \<le> k"
    using that by (auto simp: semantic_pair_touches touches_def)
  have "\<forall>q' \<in> set qs. gap (edits ! fst q') (edits ! snd q') \<le> k \<longrightarrow>
      (\<exists>p \<in> set (foldl (semantic_pair edits k) ?f qs). touches p q')"
    and sub: "set ?f \<subseteq> set (foldl (semantic_pair edits k) ?f qs)"
      "set (foldl (semantic_pair edits k) ?f qs) \<subseteq> set ?f \<union> set qs"
    and "\<forall>p \<in> set (foldl (semantic_pair edits k) ?f qs). gap (edits ! fst p) (edits ! snd p) \<le> k"
    and "sorted_wrt (\<lambda>p q. \<not> touches p q) (foldl (semantic_pair edits k) ?f qs)"
    using Cons.IH [OF f(1,2)] by (auto simp: Let_def)
  moreover have "\<exists>p \<in> set (foldl (semantic_pair edits k) ?f qs). touches p q"
    if "gap (edits ! fst q) (edits ! snd q) \<le> k"
    using t [OF that] sub(1) by blast
  ultimately show ?case using f(3,4) by (auto simp: Let_def)
qed simp

lemma set_index_pairs: "set (index_pairs n) = {(i, j). i < j \<and> j < n}"
  by (fastforce simp: index_pairs_def)

text \<open>\<open>detectSemanticConflicts\<close> reports a maximal matching of the close edits: every
  reported pair is two edits in order whose gap is within the context, no edit is reported
  twice, and of every two close edits at least one is reported.\<close>

theorem detectSemanticConflicts_matching:
  "let r = detectSemanticConflicts edits k in
     (\<forall>(i, j) \<in> set r. i < j \<and> j < length edits \<and> gap (edits ! i) (edits ! j) \<le> k) \<and>
     sorted_wrt (\<lambda>p q. \<not> touches p q) r \<and>
     (\<forall>i j. i < j \<and> j < length edits \<and> gap (edits ! i) (edits ! j) \<le> k \<longrightarrow> (\<exists>p \<in> set r. touches p (i, j)))"
proof -
  let ?r = "detectSemanticConflicts edits k"
  have "set ?r \<subseteq> set (index_pairs (length edits))" "\<forall>p \<in> set ?r. gap (edits ! fst p) (edits ! snd p) \<le> k"
    "sorted_wrt (\<lambda>p q. \<not> touches p q) ?r"
    "\<forall>q \<in> set (index_pairs (length edits)). gap (edits ! fst q) (edits ! snd q) \<le> k \<longrightarrow> (\<exists>p \<in> set ?r. touches p q)"
    using semantic_fold [of "[]" edits k "index_pairs (length edits)"]
    by (simp_all add: detectSemanticConflicts_def Let_def)
  then show ?thesis by (fastforce simp: set_index_pairs Let_def)
qed

theorem detectSemanticConflicts_matching_witness:
  "\<exists>p \<in> set (detectSemanticConflicts [\<lparr>startLine = 1, endLine = 2, newContent = []\<rparr>,
      \<lparr>startLine = 5, endLine = 5, newContent = []\<rparr>] 3). touches p (0, 1)"
  using detectSemanticConflicts_matching [of "[\<lparr>startLine = 1, endLine = 2, newContent = []\<rparr>,
      \<lparr>startLine = 5, endLine = 5, newContent = []\<rparr>]" 3]
  by (simp add: Let_def gap_def nth_Cons split: nat.splits)

end
