(* ===== verification/Conflict_History.thy ===== *)
theory Conflict_History
  imports Hashline_Conflict Hashline_Format Js_Map
begin

text \<open>
  The registry of merge conflicts the agent works through
  (\<open>packages/coding-agent/src/core/tools/conflict-history.ts\<close>): conflicts found in a
  file get an identifier, and one is resolved by replacing its lines in the file, provided the
  file still has them. The file system is a partial map from paths to contents with a
  predicate for the paths that can be written.
\<close>

record conflict_entry =
  eid :: string
  epath :: string
  elineStart :: nat
  elineEnd :: nat
  eours :: "string list"
  etheirs :: "string list"
  ebase :: "string list"
  markerText :: string

record conflict_history =
  nextId :: nat
  entries :: "(string, conflict_entry) jsmap"

definition new_history :: conflict_history where
  "new_history = \<lparr>nextId = 1, entries = []\<rparr>"

definition entry_matches :: "string \<Rightarrow> conflict_marker \<Rightarrow> conflict_entry \<Rightarrow> bool" where
  "entry_matches path c e \<longleftrightarrow>
     epath e = path \<and> elineStart e = lineStart c \<and> elineEnd e = lineEnd c \<and>
     unlines (eours e) = unlines (ours c) \<and> unlines (etheirs e) = unlines (theirs c)"

definition findExisting :: "conflict_history \<Rightarrow> string \<Rightarrow> conflict_marker \<Rightarrow> conflict_entry option" where
  "findExisting h path c = List.find (entry_matches path c) (js_values (entries h))"

definition new_entry :: "string \<Rightarrow> string list \<Rightarrow> nat \<Rightarrow> conflict_marker \<Rightarrow> conflict_entry" where
  "new_entry path ls n c =
     \<lparr>eid = show_nat n, epath = path, elineStart = lineStart c, elineEnd = lineEnd c,
      eours = ours c, etheirs = theirs c, ebase = base c,
      markerText = unlines (slice (lineStart c) (lineEnd c + 1) ls)\<rparr>"

definition register_one :: "string \<Rightarrow> string list \<Rightarrow> conflict_history \<times> conflict_entry list
    \<Rightarrow> conflict_marker \<Rightarrow> conflict_history \<times> conflict_entry list" where
  "register_one path ls acc c =
     (let (h, es) = acc in
      case findExisting h path c of
        Some e \<Rightarrow> (h, es @ [e])
      | None \<Rightarrow>
          (let e = new_entry path ls (nextId h) c
           in (h\<lparr>nextId := nextId h + 1, entries := js_set (eid e) e (entries h)\<rparr>, es @ [e])))"

definition register :: "string \<Rightarrow> string \<Rightarrow> conflict_history \<Rightarrow> conflict_history \<times> conflict_entry list" where
  "register path content h =
     (let result = detectMergeConflicts content
      in if \<not> hasConflicts result then (h, [])
         else foldl (register_one path (lines result)) (h, []) (conflicts result))"

definition get_entry :: "conflict_history \<Rightarrow> string \<Rightarrow> conflict_entry option" where
  "get_entry h i = js_get (entries h) i"

definition invalidate_entry :: "string \<Rightarrow> conflict_history \<Rightarrow> conflict_history" where
  "invalidate_entry i h = h\<lparr>entries := js_delete i (entries h)\<rparr>"

definition clearPath :: "string \<Rightarrow> conflict_history \<Rightarrow> conflict_history" where
  "clearPath path h =
     h\<lparr>entries := fold js_delete (map fst (filter (\<lambda>(i, e). epath e = path) (entries h))) (entries h)\<rparr>"

definition render :: "conflict_history \<Rightarrow> string \<Rightarrow> string option" where
  "render h i =
     (case get_entry h i of
        None \<Rightarrow> None
      | Some e \<Rightarrow> Some (unlines
          [''[Conflict: '' @ eid e @ '']'',
           ''Path: '' @ epath e,
           ''Lines: '' @ show_nat (elineStart e + 1) @ ''-'' @ show_nat (elineEnd e + 1),
           [],
           markerText e]))"

datatype resolve_error =
  Unknown_conflict string
| Read_failed string
| No_longer_matches string string
| Write_failed string


definition resolve ::
  "(string \<Rightarrow> bool) \<Rightarrow> string \<Rightarrow> string \<Rightarrow> conflict_history \<times> (string \<rightharpoonup> string)
     \<Rightarrow> resolve_error + (conflict_history \<times> (string \<rightharpoonup> string)) \<times> string" where
  "resolve writable i content s =
     (let (h, files) = s in
      case get_entry h i of
        None \<Rightarrow> Inl (Unknown_conflict i)
      | Some e \<Rightarrow>
          (case files (epath e) of
             None \<Rightarrow> Inl (Read_failed (epath e))
           | Some current \<Rightarrow>
               (let ls = lines_of current;
                    currentMarker = unlines (slice (elineStart e) (elineEnd e + 1) ls)
                in if currentMarker \<noteq> markerText e then Inl (No_longer_matches i (epath e))
                   else (let replacement = lines_of (map (\<lambda>c. if c = cr then nl else c) (replace_crlf content));
                             resolved = unlines (splice (elineStart e) (elineEnd e - elineStart e + 1) replacement ls)
                         in if \<not> writable (epath e) then Inl (Write_failed (epath e))
                            else Inr ((clearPath (epath e) h, files(epath e \<mapsto> resolved)), epath e)))))"

section \<open>The invariant\<close>

definition entry_ok :: "nat \<Rightarrow> string \<times> conflict_entry \<Rightarrow> bool" where
  "entry_ok next' ie \<longleftrightarrow>
     (let (i, e) = ie in eid e = i \<and> (\<exists>n. 1 \<le> n \<and> n < next' \<and> i = show_nat n))"

definition history_inv :: "conflict_history \<Rightarrow> bool" where
  "history_inv h \<longleftrightarrow> 1 \<le> nextId h \<and> js_map_ok (entries h) \<and> (\<forall>ie \<in> set (entries h). entry_ok (nextId h) ie)"

lemma show_nat_inject [simp]: "show_nat a = show_nat b \<longleftrightarrow> a = b"
  by (metis nat_of_show_nat)

lemma fresh_id: "history_inv h \<Longrightarrow> show_nat (nextId h) \<notin> set (js_keys (entries h))"
  by (fastforce simp: history_inv_def entry_ok_def js_keys_def)

lemma entry_ok_mono: "entry_ok n ie \<Longrightarrow> n \<le> m \<Longrightarrow> entry_ok m ie"
  by (auto simp: entry_ok_def Let_def split: prod.splits)

lemma set_fold_js_delete: "set (fold js_delete ks m) = {e \<in> set m. fst e \<notin> set ks}"
  by (induction ks arbitrary: m) (auto simp: set_js_delete)

lemma clearPath_entries:
  assumes "history_inv h"
  shows "set (entries (clearPath path h)) = {ie \<in> set (entries h). epath (snd ie) \<noteq> path}"
proof -
  let ?P = "\<lambda>ie. epath (snd ie) = path"
  have inj: "inj_on fst (set (entries h))"
    using assms by (simp add: history_inv_def js_map_ok_def js_keys_def distinct_map)
  have "fst ie \<in> fst ` {x \<in> set (entries h). ?P x} \<longleftrightarrow> ?P ie" if "ie \<in> set (entries h)" for ie
    using inj_on_image_mem_iff [OF inj that, of "{x \<in> set (entries h). ?P x}"] that by auto
  then show ?thesis
    by (auto simp: clearPath_def set_fold_js_delete case_prod_beta)
qed

lemma clearPath_inv: "history_inv h \<Longrightarrow> history_inv (clearPath path h)"
  using clearPath_entries [of h path]
  by (auto simp: history_inv_def clearPath_def intro: jsm.ok_fold_del)

lemma invalidate_entry_inv: "history_inv h \<Longrightarrow> history_inv (invalidate_entry i h)"
  by (auto simp: history_inv_def invalidate_entry_def set_js_delete)

lemma register_one_inv:
  assumes "history_inv h"
  shows "history_inv (fst (register_one path ls (h, es) c))"
proof (cases "findExisting h path c")
  case None
  let ?e = "new_entry path ls (nextId h) c"
  have "set (js_set (eid ?e) ?e (entries h)) \<subseteq> insert (eid ?e, ?e) (set (entries h))"
    using assms by (auto simp: history_inv_def set_js_set)
  moreover have "entry_ok (nextId h + 1) (eid ?e, ?e)"
    using assms by (auto simp: entry_ok_def new_entry_def history_inv_def)
  ultimately show ?thesis
    using assms None entry_ok_mono [of "nextId h" _ "nextId h + 1"]
    by (fastforce simp: register_one_def Let_def history_inv_def)
qed (simp add: register_one_def assms)

lemma foldl_register_inv:
  "history_inv (fst acc) \<Longrightarrow> history_inv (fst (foldl (register_one path ls) acc cs))"
proof (induction cs arbitrary: acc)
  case (Cons c cs)
  then show ?case using register_one_inv [of "fst acc" path ls "snd acc" c] by simp
qed simp

lemma register_inv: "history_inv h \<Longrightarrow> history_inv (fst (register path content h))"
  by (simp add: register_def Let_def foldl_register_inv)

lemma resolve_inv: "history_inv h \<Longrightarrow> resolve w i c (h, fs) = Inr ((h', fs'), p) \<Longrightarrow> history_inv h'"
  by (auto simp: resolve_def Let_def clearPath_inv split: option.splits if_splits)

lemma new_history_inv: "history_inv new_history"
  by (simp add: history_inv_def new_history_def)

section \<open>Registering\<close>

lemma findExisting_Some:
  assumes "findExisting h path c = Some e"
  shows "e \<in> set (js_values (entries h))" "entry_matches path c e"
  using assms by (auto simp: findExisting_def find_Some_iff)

lemma find_append: "List.find P (xs @ ys) = (case List.find P xs of Some x \<Rightarrow> Some x | None \<Rightarrow> List.find P ys)"
  by (induction xs) auto

lemma new_entry_matches [simp]: "entry_matches path c (new_entry path ls n c)"
  by (simp add: entry_matches_def new_entry_def)

lemma js_values_append_fresh:
  "k \<notin> set (js_keys m) \<Longrightarrow> js_values (js_set k v m) = js_values m @ [v]"
  by (simp add: js_set_fresh js_values_def)

text \<open>One registration finds the conflict from then on, and keeps finding what it found.\<close>

lemma register_one_finds:
  assumes "history_inv h"
  shows "\<exists>h' e. register_one path ls (h, es) c = (h', es @ [e]) \<and> findExisting h' path c = Some e \<and>
     (\<forall>c' e'. findExisting h path c' = Some e' \<longrightarrow> findExisting h' path c' = Some e')"
proof (cases "findExisting h path c")
  case None
  let ?e = "new_entry path ls (nextId h) c"
  have "js_values (js_set (eid ?e) ?e (entries h)) = js_values (entries h) @ [?e]"
    using fresh_id [OF assms] by (intro js_values_append_fresh) (simp add: new_entry_def)
  with None show ?thesis
    by (auto simp: register_one_def findExisting_def find_append Let_def)
qed (simp add: register_one_def)

lemma foldl_register_finds:
  "history_inv h \<Longrightarrow>
   \<exists>h' es'. foldl (register_one path ls) (h, es) cs = (h', es @ es') \<and>
     list_all2 (\<lambda>c e. findExisting h' path c = Some e) cs es' \<and>
     (\<forall>c' e'. findExisting h path c' = Some e' \<longrightarrow> findExisting h' path c' = Some e')"
proof (induction cs arbitrary: h es)
  case (Cons c cs)
  obtain h1 e where 1: "register_one path ls (h, es) c = (h1, es @ [e])" "findExisting h1 path c = Some e"
    "\<forall>c' e'. findExisting h path c' = Some e' \<longrightarrow> findExisting h1 path c' = Some e'"
    using register_one_finds [OF Cons.prems] by blast
  have "history_inv h1" using register_one_inv [OF Cons.prems, of path ls es c] 1 by simp
  from Cons.IH [OF this, of "es @ [e]"] 1 show ?case
    by (auto simp: list_all2_Cons1)
qed auto

lemma foldl_register_known:
  "list_all2 (\<lambda>c e. findExisting h path c = Some e) cs es' \<Longrightarrow>
   foldl (register_one path ls) (h, es) cs = (h, es @ es')"
proof (induction cs arbitrary: es es')
  case (Cons c cs)
  then show ?case by (auto simp: register_one_def list_all2_Cons1)
qed simp

lemma register_twice:
  assumes "history_inv h"
  shows "register path content (fst (register path content h)) = register path content h"
proof -
  obtain h' es' where "foldl (register_one path (lines (detectMergeConflicts content))) (h, []) (conflicts (detectMergeConflicts content)) = (h', es')"
    "list_all2 (\<lambda>c e. findExisting h' path c = Some e) (conflicts (detectMergeConflicts content)) es'"
    using foldl_register_finds [OF assms, of path "lines (detectMergeConflicts content)" "[]"
        "conflicts (detectMergeConflicts content)"] by auto
  then show ?thesis by (simp add: register_def Let_def foldl_register_known)
qed

section \<open>Runs\<close>

datatype history_op =
  Register string string
| Invalidate_entry string
| Clear_path string
| Resolve string string
| Write_file string string

fun history_step :: "(string \<Rightarrow> bool) \<Rightarrow> history_op \<Rightarrow> conflict_history \<times> (string \<rightharpoonup> string)
    \<Rightarrow> conflict_history \<times> (string \<rightharpoonup> string)" where
  "history_step w (Register p c) (h, fs) = (fst (register p c h), fs)"
| "history_step w (Invalidate_entry i) (h, fs) = (invalidate_entry i h, fs)"
| "history_step w (Clear_path p) (h, fs) = (clearPath p h, fs)"
| "history_step w (Resolve i c) (h, fs) =
     (case resolve w i c (h, fs) of Inl err \<Rightarrow> (h, fs) | Inr (s, p) \<Rightarrow> s)"
| "history_step w (Write_file p c) (h, fs) = (h, fs(p \<mapsto> c))"

definition history_run where
  "history_run w ops s = fold (history_step w) ops s"

lemma history_step_inv: "history_inv (fst s) \<Longrightarrow> history_inv (fst (history_step w op s))"
proof (cases s)
  case (Pair h fs)
  assume "history_inv (fst s)"
  with Pair show ?thesis
    by (cases op) (auto intro: register_inv invalidate_entry_inv clearPath_inv resolve_inv split: sum.splits)
qed

lemma history_run_inv: "history_inv (fst s) \<Longrightarrow> history_inv (fst (history_run w ops s))"
  by (induction ops arbitrary: s) (auto simp: history_run_def history_step_inv)

text \<open>Registering the conflicts of a file again, with its content unchanged, gives the same
  entries under the same identifiers and does not change the registry, whatever happened to
  the registry and the files before.\<close>

theorem register_idempotent:
  "let h = fst (history_run writable ops (new_history, files)) in
   register path content (fst (register path content h)) = register path content h"
  by (simp add: Let_def register_twice history_run_inv new_history_inv)

section \<open>Resolving\<close>

text \<open>The entries of a path, all made from the same lines.\<close>

definition entries_from :: "string \<Rightarrow> string list \<Rightarrow> conflict_marker set \<Rightarrow> conflict_history \<Rightarrow> bool" where
  "entries_from path ls C h \<longleftrightarrow>
     (\<forall>e \<in> set (js_values (entries h)). epath e = path \<longrightarrow> (\<exists>n. \<exists>c \<in> C. e = new_entry path ls n c))"

lemma register_one_from:
  assumes "history_inv h" "entries_from path ls C h" "c \<in> C"
    and "\<forall>e \<in> set es. e \<in> set (js_values (entries h)) \<and> epath e = path"
    and "register_one path ls (h, es) c = (h', es')"
  shows "entries_from path ls C h' \<and> (\<forall>e \<in> set es'. e \<in> set (js_values (entries h')) \<and> epath e = path)"
proof (cases "findExisting h path c")
  case None
  let ?e = "new_entry path ls (nextId h) c"
  have "js_values (js_set (eid ?e) ?e (entries h)) = js_values (entries h) @ [?e]"
    using fresh_id [OF assms(1)] by (intro js_values_append_fresh) (simp add: new_entry_def)
  moreover have "epath ?e = path" by (simp add: new_entry_def)
  moreover have "\<exists>n. \<exists>c' \<in> C. ?e = new_entry path ls n c'" using assms(3) by blast
  moreover have "h' = h\<lparr>nextId := nextId h + 1, entries := js_set (eid ?e) ?e (entries h)\<rparr>" "es' = es @ [?e]"
    using assms(5) None by (simp_all add: register_one_def Let_def)
  ultimately show ?thesis
    using assms(2,4) unfolding entries_from_def by simp
next
  case (Some e)
  then show ?thesis
    using assms findExisting_Some [OF Some] by (auto simp: register_one_def entry_matches_def)
qed

lemma foldl_register_from:
  "history_inv h \<Longrightarrow> entries_from path ls C h \<Longrightarrow> set cs \<subseteq> C \<Longrightarrow>
   \<forall>e \<in> set es. e \<in> set (js_values (entries h)) \<and> epath e = path \<Longrightarrow>
   foldl (register_one path ls) (h, es) cs = (h', es') \<Longrightarrow>
   entries_from path ls C h' \<and> (\<forall>e \<in> set es'. e \<in> set (js_values (entries h')) \<and> epath e = path)"
proof (induction cs arbitrary: h es)
  case (Cons c cs)
  obtain h1 es1 where 1: "register_one path ls (h, es) c = (h1, es1)" by fastforce
  have "history_inv h1" using register_one_inv [OF Cons.prems(1), of path ls es c] 1 by simp
  moreover have "c \<in> C" "set cs \<subseteq> C" using Cons.prems(3) by auto
  moreover note register_one_from [OF Cons.prems(1,2) \<open>c \<in> C\<close> Cons.prems(4) 1]
  moreover have "foldl (register_one path ls) (h1, es1) cs = (h', es')" using Cons.prems(5) 1 by simp
  ultimately show ?case by (intro Cons.IH) auto
qed simp

lemma entry_by_id:
  assumes "history_inv h" "e \<in> set (js_values (entries h))"
  shows "get_entry h (eid e) = Some e"
proof -
  obtain i where i: "(i, e) \<in> set (entries h)" using assms(2) by (auto simp: js_values_def)
  then have "entry_ok (nextId h) (i, e)" using assms(1) by (simp add: history_inv_def)
  then have "eid e = i" by (simp add: entry_ok_def)
  with i show ?thesis
    using assms(1) js_get_iff [of "entries h" i e] by (simp add: get_entry_def history_inv_def)
qed

text \<open>A detected conflict is a chunk of the lines.\<close>

fun conflict_chunk :: "chunk \<Rightarrow> bool" where
  "conflict_chunk (Plain l) \<longleftrightarrow> False"
| "conflict_chunk (Conflict a os b ts z) \<longleftrightarrow> True"

lemma markers_chunk:
  "m \<in> set (markers_from i cs) \<Longrightarrow>
   \<exists>cs1 k cs2. cs = cs1 @ k # cs2 \<and> conflict_chunk k \<and> lineStart m = i + length (concat (map chunk_lines cs1)) \<and>
     lineEnd m + 1 = lineStart m + length (chunk_lines k) \<and> lineStart m \<le> lineEnd m"
proof (induction i cs rule: markers_from.induct)
  case (2 i l cs)
  then obtain cs1 k cs2 where "cs = cs1 @ k # cs2" "conflict_chunk k"
    "lineStart m = i + 1 + length (concat (map chunk_lines cs1))"
    "lineEnd m + 1 = lineStart m + length (chunk_lines k)" "lineStart m \<le> lineEnd m" by auto
  then show ?case
    by (intro exI [where x = "Plain l # cs1"] exI [where x = k] exI [where x = cs2]) simp
next
  case (3 i a os b ts z cs)
  show ?case
  proof (cases "m \<in> set (markers_from (i + 3 + length os + length ts) cs)")
    case True
    from "3.IH" [OF True] obtain cs1 k cs2 where "cs = cs1 @ k # cs2" "conflict_chunk k"
      "lineStart m = i + 3 + length os + length ts + length (concat (map chunk_lines cs1))"
      "lineEnd m + 1 = lineStart m + length (chunk_lines k)" "lineStart m \<le> lineEnd m" by blast
    then show ?thesis
      by (intro exI [where x = "Conflict a os b ts z # cs1"] exI [where x = k] exI [where x = cs2]) simp
  next
    case False
    with "3.prems" show ?thesis by (intro exI [where x = "[]"] exI [where x = "Conflict a os b ts z"] exI [where x = cs]) simp
  qed
qed simp

lemma detected_chunk:
  assumes "c \<in> set (conflicts (detectMergeConflicts content))"
  shows "\<exists>cs1 k cs2. parse_chunks (lines_of content) = cs1 @ k # cs2 \<and> conflict_chunk k \<and>
     take (lineStart c) (lines_of content) = concat (map chunk_lines cs1) \<and>
     drop (lineEnd c + 1) (lines_of content) = concat (map chunk_lines cs2) \<and> lineStart c \<le> lineEnd c"
proof -
  have "c \<in> set (markers_from 0 (parse_chunks (lines_of content)))"
    using assms detect_from_chunks [of "lines_of content" 0] by (simp add: detectMergeConflicts_def Let_def)
  from markers_chunk [OF this] obtain cs1 k cs2
    where p: "parse_chunks (lines_of content) = cs1 @ k # cs2" "conflict_chunk k" "lineStart c \<le> lineEnd c"
      and s: "lineStart c = length (concat (map chunk_lines cs1))"
      and e: "lineEnd c + 1 = lineStart c + length (chunk_lines k)"
    by auto
  have ls: "lines_of content = concat (map chunk_lines cs1) @ chunk_lines k @ concat (map chunk_lines cs2)"
    using concat_parse_chunks [of "lines_of content"] p by simp
  have "drop (lineEnd c + 1) (lines_of content) = concat (map chunk_lines cs2)"
    by (simp only: e s ls drop_append) simp
  moreover have "take (lineStart c) (lines_of content) = concat (map chunk_lines cs1)"
    by (simp only: s ls take_append) simp
  ultimately show ?thesis using p by blast
qed

definition normalized_lines :: "string \<Rightarrow> string list" where
  "normalized_lines content = lines_of (normalizeSnapshotText content)"

lemma registered_resolves:
  assumes inv: "history_inv h" and new: "\<forall>e \<in> set (js_values (entries h)). epath e \<noteq> path"
    and fl: "files path = Some content" and w: "writable path"
    and e: "e \<in> set (snd (register path content h))"
  shows "\<exists>cs1 k cs2. parse_chunks (lines_of content) = cs1 @ k # cs2 \<and> conflict_chunk k \<and>
    resolve writable (eid e) replacement (fst (register path content h), files) =
      Inr ((clearPath path (fst (register path content h)),
            files(path \<mapsto> unlines (concat (map chunk_lines cs1) @ normalized_lines replacement @
                                   concat (map chunk_lines cs2)))), path)"
proof -
  let ?d = "detectMergeConflicts content" and ?h = "fst (register path content h)"
  have "hasConflicts ?d" using e by (auto simp: register_def Let_def split: if_splits)
  then have f: "foldl (register_one path (lines ?d)) (h, []) (conflicts ?d) = (?h, snd (register path content h))"
    by (simp add: register_def Let_def)
  have l: "lines ?d = lines_of content" by (simp add: detectMergeConflicts_def Let_def)
  have "entries_from path (lines ?d) (set (conflicts ?d)) h" using new by (simp add: entries_from_def)
  from foldl_register_from [OF inv this _ _ f] e
  have "entries_from path (lines ?d) (set (conflicts ?d)) ?h" and m: "e \<in> set (js_values (entries ?h))" "epath e = path"
    by auto
  then obtain n c where c: "c \<in> set (conflicts ?d)" "e = new_entry path (lines_of content) n c"
    using l by (auto simp: entries_from_def)
  have g: "get_entry ?h (eid e) = Some e" by (rule entry_by_id [OF register_inv [OF inv] m(1)])
  obtain cs1 k cs2 where k: "parse_chunks (lines_of content) = cs1 @ k # cs2" "conflict_chunk k"
    "take (lineStart c) (lines_of content) = concat (map chunk_lines cs1)"
    "drop (lineEnd c + 1) (lines_of content) = concat (map chunk_lines cs2)" "lineStart c \<le> lineEnd c"
    using detected_chunk [OF c(1)] by blast
  have "splice (elineStart e) (elineEnd e - elineStart e + 1) (normalized_lines replacement) (lines_of content) =
    concat (map chunk_lines cs1) @ normalized_lines replacement @ concat (map chunk_lines cs2)"
    using k(3-5) by (simp add: splice_def c(2) new_entry_def)
  moreover have "unlines (slice (elineStart e) (elineEnd e + 1) (lines_of content)) = markerText e"
    by (simp add: c(2) new_entry_def)
  ultimately show ?thesis
    using g m(2) fl w k(1,2)
    by (intro exI [where x = cs1] exI [where x = k] exI [where x = cs2])
       (simp add: resolve_def Let_def normalized_lines_def normalizeSnapshotText_def)
qed

text \<open>In whatever state the registry is, if it holds no conflict of a file, every conflict
  then registered from the file's current content can be resolved: the file becomes its old
  lines with exactly that conflict, its markers included, replaced by the given lines (line
  endings made LF), no other file changes, and afterwards the registry holds no conflict of
  that path while those of other paths stay.\<close>

theorem resolve_registered_conflict:
  assumes "h = fst (history_run writable ops (new_history, files0))"
    and "\<forall>e \<in> set (js_values (entries h)). epath e \<noteq> path"
    and "files path = Some content" and "writable path"
    and "e \<in> set (snd (register path content h))"
  shows "\<exists>cs1 k cs2 h'. parse_chunks (lines_of content) = cs1 @ k # cs2 \<and> conflict_chunk k \<and>
    resolve writable (eid e) replacement (fst (register path content h), files) =
      Inr ((h', files(path \<mapsto> unlines (concat (map chunk_lines cs1) @ normalized_lines replacement @
                                        concat (map chunk_lines cs2)))), path) \<and>
    set (entries h') = {ie \<in> set (entries (fst (register path content h))). epath (snd ie) \<noteq> path}"
proof -
  have inv: "history_inv h" using assms(1) by (simp add: history_run_inv new_history_inv)
  show ?thesis
    using registered_resolves [where writable = writable and files = files, OF inv assms(2-5)]
      clearPath_entries [OF register_inv [OF inv], of path path content] by blast
qed

definition demo_conflict :: "string \<Rightarrow> string" where
  "demo_conflict label = unlines [''<<<<<<< '' @ label, ''x'', ''======='', ''y'', ''>>>>>>> b'']"

lemma lines_demo_conflict: "nl \<notin> set label \<Longrightarrow>
  lines_of (demo_conflict label) = [''<<<<<<< '' @ label, ''x'', ''======='', ''y'', ''>>>>>>> b'']"
  unfolding demo_conflict_def by (rule split_on_join) auto

lemma detect_demo_conflict:
  assumes "nl \<notin> set label"
  shows "detectMergeConflicts (demo_conflict label) =
    \<lparr>hasConflicts = True, conflicts = [\<lparr>lineStart = 0, lineEnd = 4, ours = [''x''], theirs = [''y''], base = []\<rparr>],
     lines = [''<<<<<<< '' @ label, ''x'', ''======='', ''y'', ''>>>>>>> b'']\<rparr>"
proof -
  have "detect_from [''<<<<<<< '' @ label, ''x'', ''======='', ''y'', ''>>>>>>> b''] 0 =
      [\<lparr>lineStart = 0, lineEnd = 4, ours = [''x''], theirs = [''y''], base = []\<rparr>]"
    by (subst detect_from_chunks) (simp add: is_start_def is_middle_def is_end_def)
  with lines_demo_conflict [OF assms] show ?thesis
    by (simp add: detectMergeConflicts_def Let_def)
qed

theorem resolve_registered_conflict_witness:
  "\<exists>e h'. snd (register ''f'' (demo_conflict ''a'') new_history) = [e] \<and>
     resolve (\<lambda>_. True) (eid e) ''z'' (fst (register ''f'' (demo_conflict ''a'') new_history), [''f'' \<mapsto> demo_conflict ''a'']) =
       Inr ((h', [''f'' \<mapsto> ''z'']), ''f'')"
proof -
  let ?r = "register ''f'' (demo_conflict ''a'') new_history"
  let ?e = "new_entry ''f'' (lines_of (demo_conflict ''a'')) 1 \<lparr>lineStart = 0, lineEnd = 4, ours = [''x''], theirs = [''y''], base = []\<rparr>"
  have e: "snd ?r = [?e]"
    by (simp add: register_def detect_demo_conflict lines_demo_conflict Let_def register_one_def findExisting_def
        new_history_def js_values_def)
  have p: "parse_chunks (lines_of (demo_conflict ''a'')) =
      [Conflict ''<<<<<<< a'' [''x''] ''======='' [''y''] ''>>>>>>> b'']"
    by (simp add: lines_demo_conflict is_start_def is_middle_def is_end_def)
  have n: "normalized_lines ''z'' = [''z'']" by (simp add: normalized_lines_def normalizeSnapshotText_def)
  obtain cs1 k cs2 h' where r: "parse_chunks (lines_of (demo_conflict ''a'')) = cs1 @ k # cs2" "conflict_chunk k"
    "resolve (\<lambda>_. True) (eid ?e) ''z'' (fst ?r, [''f'' \<mapsto> demo_conflict ''a'']) =
      Inr ((h', [''f'' \<mapsto> demo_conflict ''a'', ''f'' \<mapsto> unlines (concat (map chunk_lines cs1) @ normalized_lines ''z'' @
                                        concat (map chunk_lines cs2))]), ''f'')"
    using resolve_registered_conflict [of new_history "\<lambda>_. True" "[]" Map.empty "''f''" "[''f'' \<mapsto> demo_conflict ''a'']"
      "demo_conflict ''a''" ?e "''z''"] e
    by (auto simp: history_run_def) (auto simp: new_history_def js_values_def)
  from r(1) p have "cs1 = []" "cs2 = []" by (auto simp: Cons_eq_append_conv)
  with r(3) n e show ?thesis by auto
qed

text \<open>A conflict whose marker line was relabelled can never be resolved through the
  registry: re-registering the file finds the old entry (labels are not compared), and
  resolving it fails because the file no longer has the old entry's text, although the error
  message asks to read the conflicts again.\<close>

theorem relabelled_conflict_stuck:
  "(let h1 = fst (register ''f'' (demo_conflict ''old'') new_history);
        (h2, es) = register ''f'' (demo_conflict ''new'') h1
    in h2 = h1 \<and> map eid es = [''1''] \<and>
       resolve w ''1'' ''z'' (h2, [''f'' \<mapsto> demo_conflict ''new'']) = Inl (No_longer_matches ''1'' ''f''))"
proof -
  have one: "show_nat (Suc 0) = ''1''" by code_simp
  show ?thesis
    by (simp add: register_def detect_demo_conflict lines_demo_conflict Let_def register_one_def findExisting_def
        new_history_def js_values_def new_entry_def entry_matches_def js_set_def one resolve_def get_entry_def js_get_def slice_def)
qed

end
