(* ===== verification/Session_Storage.thy ===== *)
theory Session_Storage
  imports Js_Map
begin

text \<open>
  Session trees and their storages
  (\<open>packages/agent/src/harness/session/memory-storage.ts\<close>, \<open>jsonl-storage.ts\<close>,
  \<open>harness/types.ts\<close>): a session is a log of entries, each naming its parent, with an
  index by identifier, a cache of labels and the identifier of the active leaf.

  Values the code only stores (message contents, details) are opaque texts; a timestamp is the
  instant its ISO form names. \<open>uuidv7()\<close> is the parameter \<open>uuid\<close>, the sequence of
  values its calls return, and a state counts the calls made. Every operation that can throw
  returns a sum, and a loop that may not end returns an option.
\<close>

type_synonym json = string

datatype agent_message =
  UserMessage json
| AssistantMessage string string json
| ToolResultMessage json
| BashExecutionMessage json
| CustomAgentMessage string json bool "json option" nat
| BranchSummaryMessage string string nat
| CompactionSummaryMessage string nat nat

datatype entry_kind =
  MessageEntry agent_message
| ThinkingLevelChangeEntry string
| ModelChangeEntry string string
| ActiveToolsChangeEntry "string list"
| CompactionEntry string string nat "json option" "bool option"
| BranchSummaryEntry string string "json option" "bool option"
| CustomEntry string "json option"
| CustomMessageEntry string json bool "json option"
| LabelEntry string "string option"
| SessionInfoEntry "string option"
| LeafEntry "string option"

record entry =
  eid :: string
  parentId :: "string option"
  timestamp :: nat
  kind :: entry_kind

datatype session_error =
  Not_found string
| Invalid_session string
| Invalid_fork_target string
| Storage_failed string

section \<open>Labels, identifiers, leaves\<close>

definition updateLabelCache :: "entry \<Rightarrow> (string, string) jsmap \<Rightarrow> (string, string) jsmap" where
  "updateLabelCache e labelsById =
     (case kind e of
        LabelEntry targetId label \<Rightarrow>
          (case map_option js_trim label of
             Some l \<Rightarrow> if l \<noteq> [] then js_set targetId l labelsById else js_delete targetId labelsById
           | None \<Rightarrow> js_delete targetId labelsById)
      | _ \<Rightarrow> labelsById)"

definition buildLabelsById :: "entry list \<Rightarrow> (string, string) jsmap" where
  "buildLabelsById es = fold updateLabelCache es []"

text \<open>The retry loop: at most 100 shortened identifiers, then a whole one; the second result
  is the number of \<open>uuidv7\<close> calls made so far.\<close>

fun generate_loop :: "nat \<Rightarrow> (nat \<Rightarrow> string) \<Rightarrow> (string, 'v) jsmap \<Rightarrow> nat \<Rightarrow> string \<times> nat" where
  "generate_loop 0 uuid byId n = (uuid n, n + 1)"
| "generate_loop (Suc k) uuid byId n =
     (let i = take 8 (uuid n)
      in if i \<notin> set (js_keys byId) then (i, n + 1) else generate_loop k uuid byId (n + 1))"

definition generateEntryId :: "(nat \<Rightarrow> string) \<Rightarrow> (string, 'v) jsmap \<Rightarrow> nat \<Rightarrow> string \<times> nat" where
  "generateEntryId uuid byId n = generate_loop 100 uuid byId n"

definition leafIdAfterEntry :: "entry \<Rightarrow> string option" where
  "leafIdAfterEntry e = (case kind e of LeafEntry targetId \<Rightarrow> targetId | _ \<Rightarrow> Some (eid e))"

definition index_entries :: "entry list \<Rightarrow> (string, entry) jsmap" where
  "index_entries es = fold (\<lambda>e. js_set (eid e) e) es []"

definition leaf_after :: "entry list \<Rightarrow> string option" where
  "leaf_after es = fold (\<lambda>e _. leafIdAfterEntry e) es None"

text \<open>Following parents to the root; the loop ends at an entry without a parent (JavaScript
  also stops at an empty parent identifier) or at one whose parent is unknown.\<close>

partial_function (option) path_up ::
  "(string, entry) jsmap \<Rightarrow> entry \<Rightarrow> entry list \<Rightarrow> (session_error + entry list) option" where
  "path_up byId current path =
     (case parentId current of
        None \<Rightarrow> Some (Inr (current # path))
      | Some p \<Rightarrow>
          if p = [] then Some (Inr (current # path))
          else (case js_get byId p of
                  None \<Rightarrow> Some (Inl (Invalid_session p))
                | Some parent \<Rightarrow> path_up byId parent (current # path)))"

definition path_to_root ::
  "(string, entry) jsmap \<Rightarrow> string option \<Rightarrow> (session_error + entry list) option" where
  "path_to_root byId leafId =
     (case leafId of
        None \<Rightarrow> Some (Inr [])
      | Some l \<Rightarrow>
          (case js_get byId l of
             None \<Rightarrow> Some (Inl (Not_found l))
           | Some current \<Rightarrow> path_up byId current []))"

section \<open>The storage in memory\<close>

record memory_storage =
  entries :: "entry list"
  byId :: "(string, entry) jsmap"
  labelsById :: "(string, string) jsmap"
  leafId :: "string option"
  uuids :: nat

definition new_memory :: "entry list \<Rightarrow> nat \<Rightarrow> session_error + memory_storage" where
  "new_memory es n =
     (let by = index_entries es; l = leaf_after es
      in case l of
           Some i \<Rightarrow> if i \<in> set (js_keys by)
             then Inr \<lparr>entries = es, byId = by, labelsById = buildLabelsById es, leafId = l, uuids = n\<rparr>
             else Inl (Invalid_session i)
         | None \<Rightarrow> Inr \<lparr>entries = es, byId = by, labelsById = buildLabelsById es, leafId = l, uuids = n\<rparr>)"

definition storage_getLeafId :: "'a memory_storage_scheme \<Rightarrow> session_error + string option" where
  "storage_getLeafId s =
     (case leafId s of
        Some i \<Rightarrow> if i \<in> set (js_keys (byId s)) then Inr (Some i) else Inl (Invalid_session i)
      | None \<Rightarrow> Inr None)"

definition mem_setLeafId :: "(nat \<Rightarrow> string) \<Rightarrow> nat \<Rightarrow> string option \<Rightarrow> memory_storage
    \<Rightarrow> (session_error + unit) \<times> memory_storage" where
  "mem_setLeafId uuid now target s =
     (if (case target of Some t \<Rightarrow> t \<notin> set (js_keys (byId s)) | None \<Rightarrow> False)
      then (Inl (Not_found (the target)), s)
      else (let (i, n) = generateEntryId uuid (byId s) (uuids s);
                e = \<lparr>eid = i, parentId = leafId s, timestamp = now, kind = LeafEntry target\<rparr>
            in (Inr (), s\<lparr>entries := entries s @ [e], byId := js_set i e (byId s), leafId := target, uuids := n\<rparr>)))"

definition storage_createEntryId :: "(nat \<Rightarrow> string) \<Rightarrow> 'a memory_storage_scheme \<Rightarrow> string \<times> 'a memory_storage_scheme" where
  "storage_createEntryId uuid s = (let (i, n) = generateEntryId uuid (byId s) (uuids s) in (i, s\<lparr>uuids := n\<rparr>))"

definition mem_appendEntry :: "entry \<Rightarrow> memory_storage \<Rightarrow> (session_error + unit) \<times> memory_storage" where
  "mem_appendEntry e s =
     (Inr (), s\<lparr>entries := entries s @ [e], byId := js_set (eid e) e (byId s),
                labelsById := updateLabelCache e (labelsById s), leafId := leafIdAfterEntry e\<rparr>)"

definition storage_getEntry :: "'a memory_storage_scheme \<Rightarrow> string \<Rightarrow> entry option" where
  "storage_getEntry s i = js_get (byId s) i"

definition storage_findEntries :: "(entry_kind \<Rightarrow> bool) \<Rightarrow> 'a memory_storage_scheme \<Rightarrow> entry list" where
  "storage_findEntries is_type s = filter (\<lambda>e. is_type (kind e)) (entries s)"

definition storage_getLabel :: "'a memory_storage_scheme \<Rightarrow> string \<Rightarrow> string option" where
  "storage_getLabel s i = js_get (labelsById s) i"

definition storage_getPathToRoot :: "'a memory_storage_scheme \<Rightarrow> string option \<Rightarrow> (session_error + entry list) option" where
  "storage_getPathToRoot s l = path_to_root (byId s) l"

section \<open>The storage in a JSONL file\<close>

text \<open>
  Both storages share the query operations above, which the sources write out twice.
  \<open>JSON.stringify\<close> and \<open>JSON.parse\<close> are the parameters \<open>encode\<close> and
  \<open>parse\<close>, and the unchecked cast of a parsed object to an entry is \<open>cast\<close>.
  \<open>append_ok\<close> holds the outcomes of the coming \<open>appendFile\<close> calls, which succeed
  when the list has run out; one that fails may have written the first characters of the line.
\<close>

datatype json_value =
  JNull
| JBool bool
| JNum int
| JStr string
| JArr "json_value list"
| JObj "(string \<times> json_value) list"

definition isRecord :: "json_value \<Rightarrow> bool" where
  "isRecord v = (case v of JObj _ \<Rightarrow> True | JArr _ \<Rightarrow> True | _ \<Rightarrow> False)"

definition field :: "json_value \<Rightarrow> string \<Rightarrow> json_value option" where
  "field v k = (case v of JObj fs \<Rightarrow> map_of fs k | _ \<Rightarrow> None)"

definition string_field :: "json_value \<Rightarrow> string \<Rightarrow> string option" where
  "string_field v k = (case field v k of Some (JStr s) \<Rightarrow> Some s | _ \<Rightarrow> None)"

record session_header =
  hid :: string
  htimestamp :: string
  hcwd :: string
  parentSession :: "string option"

datatype load_error =
  Not_a_header
| Unsupported_version
| Header_missing string
| Bad_parent_session
| Missing_header
| Invalid_entry nat string

definition parseHeaderLine :: "(string \<Rightarrow> json_value option) \<Rightarrow> string \<Rightarrow> load_error + session_header" where
  "parseHeaderLine parse line =
     (case parse line of
        None \<Rightarrow> Inl Not_a_header
      | Some v \<Rightarrow>
          if \<not> isRecord v then Inl Not_a_header
          else if field v ''type'' \<noteq> Some (JStr ''session'') then Inl Not_a_header
          else if field v ''version'' \<noteq> Some (JNum 3) then Inl Unsupported_version
          else case string_field v ''id'' of
            None \<Rightarrow> Inl (Header_missing ''id'')
          | Some i \<Rightarrow> if i = [] then Inl (Header_missing ''id'') else
          (case string_field v ''timestamp'' of
            None \<Rightarrow> Inl (Header_missing ''timestamp'')
          | Some t \<Rightarrow> if t = [] then Inl (Header_missing ''timestamp'') else
          (case string_field v ''cwd'' of
            None \<Rightarrow> Inl (Header_missing ''cwd'')
          | Some c \<Rightarrow> if c = [] then Inl (Header_missing ''cwd'') else
          if field v ''parentSession'' \<noteq> None \<and> string_field v ''parentSession'' = None
          then Inl Bad_parent_session
          else Inr \<lparr>hid = i, htimestamp = t, hcwd = c, parentSession = string_field v ''parentSession''\<rparr>)))"

definition parseEntryLine ::
  "(string \<Rightarrow> json_value option) \<Rightarrow> (json_value \<Rightarrow> entry) \<Rightarrow> string \<Rightarrow> nat \<Rightarrow> load_error + entry" where
  "parseEntryLine parse cast line lineNumber =
     (case parse line of
        None \<Rightarrow> Inl (Invalid_entry lineNumber ''is not valid JSON'')
      | Some v \<Rightarrow>
          if \<not> isRecord v then Inl (Invalid_entry lineNumber ''is not a valid session entry'')
          else if string_field v ''type'' = None then Inl (Invalid_entry lineNumber ''is missing entry type'')
          else if string_field v ''id'' \<in> {None, Some []} then Inl (Invalid_entry lineNumber ''is missing entry id'')
          else if field v ''parentId'' \<noteq> Some JNull \<and> string_field v ''parentId'' = None
          then Inl (Invalid_entry lineNumber ''has invalid parentId'')
          else if string_field v ''timestamp'' \<in> {None, Some []}
          then Inl (Invalid_entry lineNumber ''is missing timestamp'')
          else if string_field v ''type'' = Some ''leaf'' \<and> field v ''targetId'' \<noteq> Some JNull \<and>
                  string_field v ''targetId'' = None
          then Inl (Invalid_entry lineNumber ''has invalid targetId'')
          else Inr (cast v))"

definition loadJsonlStorage ::
  "(string \<Rightarrow> json_value option) \<Rightarrow> (json_value \<Rightarrow> entry) \<Rightarrow> string
     \<Rightarrow> load_error + session_header \<times> entry list \<times> string option" where
  "loadJsonlStorage parse cast content =
     (case filter (\<lambda>l. js_trim l \<noteq> []) (lines_of content) of
        [] \<Rightarrow> Inl Missing_header
      | l # ls \<Rightarrow>
          (case parseHeaderLine parse l of
             Inl err \<Rightarrow> Inl err
           | Inr header \<Rightarrow>
               (case mapM (\<lambda>(i, line). parseEntryLine parse cast line (i + 1)) (enumerate 1 ls) of
                  Inl err \<Rightarrow> Inl err
                | Inr es \<Rightarrow> Inr (header, es, leaf_after es))))"

datatype append_outcome = Append_ok | Append_failed nat

record jsonl_storage = memory_storage +
  header :: session_header
  session_file :: string
  append_ok :: "append_outcome list"

definition jsonl_open :: "(string \<Rightarrow> json_value option) \<Rightarrow> (json_value \<Rightarrow> entry) \<Rightarrow> nat \<Rightarrow> append_outcome list \<Rightarrow> string
    \<Rightarrow> load_error + jsonl_storage" where
  "jsonl_open parse cast n oks content =
     (case loadJsonlStorage parse cast content of
        Inl err \<Rightarrow> Inl err
      | Inr (h, es, l) \<Rightarrow>
          Inr \<lparr>entries = es, byId = index_entries es, labelsById = buildLabelsById es, leafId = l, uuids = n,
               header = h, session_file = content, append_ok = oks\<rparr>)"

definition jsonl_create :: "(session_header \<Rightarrow> string) \<Rightarrow> nat \<Rightarrow> append_outcome list \<Rightarrow> session_header \<Rightarrow> jsonl_storage" where
  "jsonl_create encode_header n oks h =
     \<lparr>entries = [], byId = [], labelsById = [], leafId = None, uuids = n,
      header = h, session_file = encode_header h @ [nl], append_ok = oks\<rparr>"

definition append_line :: "string \<Rightarrow> jsonl_storage \<Rightarrow> bool \<times> jsonl_storage" where
  "append_line line s =
     (case append_ok s of
        [] \<Rightarrow> (True, s\<lparr>session_file := session_file s @ line @ [nl]\<rparr>)
      | Append_ok # rest \<Rightarrow> (True, s\<lparr>session_file := session_file s @ line @ [nl], append_ok := rest\<rparr>)
      | Append_failed k # rest \<Rightarrow> (False, s\<lparr>session_file := session_file s @ take k (line @ [nl]), append_ok := rest\<rparr>))"

definition jsonl_setLeafId :: "(entry \<Rightarrow> string) \<Rightarrow> (nat \<Rightarrow> string) \<Rightarrow> nat \<Rightarrow> string option \<Rightarrow> jsonl_storage
    \<Rightarrow> (session_error + unit) \<times> jsonl_storage" where
  "jsonl_setLeafId encode uuid now target s =
     (if (case target of Some t \<Rightarrow> t \<notin> set (js_keys (byId s)) | None \<Rightarrow> False)
      then (Inl (Not_found (the target)), s)
      else (let (i, n) = generateEntryId uuid (byId s) (uuids s);
                e = \<lparr>eid = i, parentId = leafId s, timestamp = now, kind = LeafEntry target\<rparr>;
                (ok, s') = append_line (encode e) (s\<lparr>uuids := n\<rparr>)
            in if \<not> ok then (Inl (Storage_failed i), s')
               else (Inr (), s'\<lparr>entries := entries s' @ [e], byId := js_set i e (byId s'), leafId := target\<rparr>)))"

definition jsonl_appendEntry :: "(entry \<Rightarrow> string) \<Rightarrow> entry \<Rightarrow> jsonl_storage
    \<Rightarrow> (session_error + unit) \<times> jsonl_storage" where
  "jsonl_appendEntry encode e s =
     (let (ok, s') = append_line (encode e) s
      in if \<not> ok then (Inl (Storage_failed (eid e)), s')
         else (Inr (), s'\<lparr>entries := entries s' @ [e], byId := js_set (eid e) e (byId s'),
                          labelsById := updateLabelCache e (labelsById s'), leafId := leafIdAfterEntry e\<rparr>))"

section \<open>Well-formed logs\<close>

abbreviation ids :: "entry list \<Rightarrow> string set" where
  "ids es \<equiv> eid ` set es"

text \<open>Newest entry first: identifiers are new and not empty, parents and leaf targets are
  older entries.\<close>

fun wf_rev :: "entry list \<Rightarrow> bool" where
  "wf_rev [] \<longleftrightarrow> True"
| "wf_rev (e # older) \<longleftrightarrow>
     wf_rev older \<and> eid e \<noteq> [] \<and> eid e \<notin> ids older \<and>
     (\<forall>p. parentId e = Some p \<longrightarrow> p \<in> ids older) \<and>
     (\<forall>t. kind e = LeafEntry (Some t) \<longrightarrow> t \<in> ids older)"

definition wf_log :: "entry list \<Rightarrow> bool" where
  "wf_log es \<longleftrightarrow> wf_rev (rev es)"

lemma wf_log_Nil [simp]: "wf_log []"
  by (simp add: wf_log_def)

lemma wf_log_snoc: "wf_log (es @ [e]) \<longleftrightarrow>
    wf_log es \<and> eid e \<noteq> [] \<and> eid e \<notin> ids es \<and>
    (\<forall>p. parentId e = Some p \<longrightarrow> p \<in> ids es) \<and>
    (\<forall>t. kind e = LeafEntry (Some t) \<longrightarrow> t \<in> ids es)"
  by (simp add: wf_log_def)

lemma wf_rev_ids: "wf_rev es \<Longrightarrow> [] \<notin> ids es"
  by (induction es) auto

lemma wf_log_eid: "wf_log es \<Longrightarrow> e \<in> set es \<Longrightarrow> eid e \<noteq> []"
  by (induction es rule: rev_induct) (auto simp: wf_log_snoc)

lemma index_snoc: "index_entries (es @ [e]) = js_set (eid e) e (index_entries es)"
  by (simp add: index_entries_def)

lemma leaf_after_snoc: "leaf_after (es @ [e]) = leafIdAfterEntry e"
  by (simp add: leaf_after_def)

lemma labels_snoc: "buildLabelsById (es @ [e]) = updateLabelCache e (buildLabelsById es)"
  by (simp add: buildLabelsById_def)

lemma index_Nil [simp]: "index_entries [] = []" by (simp add: index_entries_def)
lemma leaf_after_Nil [simp]: "leaf_after [] = None" by (simp add: leaf_after_def)
lemma labels_Nil [simp]: "buildLabelsById [] = []" by (simp add: buildLabelsById_def)

lemma set_keys_index [simp]: "set (js_keys (index_entries es)) = ids es"
  by (induction es rule: rev_induct) (auto simp: index_snoc js_keys_set)

lemma js_get_index: "wf_log es \<Longrightarrow> js_get (index_entries es) i = Some e \<longleftrightarrow> e \<in> set es \<and> eid e = i"
proof (induction es rule: rev_induct)
  case (snoc x es)
  then have "eid x \<noteq> eid e" if "e \<in> set es" for e using that by (auto simp: wf_log_snoc)
  with snoc show ?case by (auto simp: index_snoc wf_log_snoc) metis
qed simp

lemma js_get_index_None: "js_get (index_entries es) i = None \<longleftrightarrow> i \<notin> ids es"
  by (simp add: js_get_None)

lemma leaf_after_known: "wf_log es \<Longrightarrow> leaf_after es = Some l \<Longrightarrow> l \<in> ids es"
  by (induction es rule: rev_induct)
     (auto simp: leaf_after_snoc leafIdAfterEntry_def wf_log_snoc split: entry_kind.splits)

section \<open>Paths to the root\<close>

text \<open>The branch of an entry, read off the log newest first: its own entry, preceded by the
  branch of its parent among the older entries.\<close>

fun branch_rev :: "entry list \<Rightarrow> string \<Rightarrow> entry list" where
  "branch_rev [] i = []"
| "branch_rev (e # older) i =
     (if eid e = i then (case parentId e of None \<Rightarrow> [e] | Some p \<Rightarrow> branch_rev older p @ [e])
      else branch_rev older i)"

definition branch :: "entry list \<Rightarrow> string \<Rightarrow> entry list" where
  "branch es i = branch_rev (rev es) i"

lemma branch_snoc: "branch (es @ [e]) i =
    (if eid e = i then (case parentId e of None \<Rightarrow> [e] | Some p \<Rightarrow> branch es p @ [e]) else branch es i)"
  by (simp add: branch_def split: option.splits)

lemma path_up_branch:
  assumes "\<forall>x \<in> set older. js_get byI (eid x) = Some x" and "wf_rev older" and "e \<in> set older"
  shows "path_up byI e path = Some (Inr (branch_rev older (eid e) @ path))"
  using assms
proof (induction older arbitrary: e path)
  case (Cons x older)
  show ?case
  proof (cases "e = x")
    case True
    show ?thesis
    proof (cases "parentId x")
      case None
      then show ?thesis using True by (simp add: path_up.simps)
    next
      case (Some p)
      then obtain y where y: "y \<in> set older" "eid y = p" using Cons.prems by auto
      moreover have "p \<noteq> []" using y wf_rev_ids [of older] Cons.prems(2) by (metis imageI wf_rev.simps(2))
      moreover have "js_get byI p = Some y" using y Cons.prems by auto
      ultimately show ?thesis
        using True Some Cons.IH [of y "e # path"] Cons.prems by (subst path_up.simps) auto
    qed
  next
    case False
    with Cons.prems have "e \<in> set older" "eid e \<noteq> eid x" by auto
    then show ?thesis using Cons.IH [of e path] Cons.prems by auto
  qed
qed simp

lemma path_to_root_branch:
  assumes "wf_log es" and "i \<in> ids es"
  shows "path_to_root (index_entries es) (Some i) = Some (Inr (branch es i))"
proof -
  obtain e where e: "e \<in> set es" "eid e = i" using assms by auto
  have "\<forall>x \<in> set (rev es). js_get (index_entries es) (eid x) = Some x"
    using js_get_index [OF assms(1)] by auto
  then have "path_up (index_entries es) e [] = Some (Inr (branch es i))"
    using path_up_branch [of "rev es" "index_entries es" e "[]"] assms(1) e by (simp add: wf_log_def branch_def)
  then show ?thesis using e js_get_index [OF assms(1), of i e] by (simp add: path_to_root_def)
qed

text \<open>A branch starts at a root, follows parents without gaps, and ends at its entry.\<close>

fun chained :: "string option \<Rightarrow> entry list \<Rightarrow> bool" where
  "chained p [] \<longleftrightarrow> True"
| "chained p (e # es) \<longleftrightarrow> parentId e = p \<and> chained (Some (eid e)) es"

lemma chained_snoc: "chained p (es @ [e]) \<longleftrightarrow>
    chained p es \<and> parentId e = (if es = [] then p else Some (eid (last es)))"
  by (induction es arbitrary: p) auto

lemma branch_rev_chain:
  "wf_rev es \<Longrightarrow> i \<in> ids es \<Longrightarrow>
   branch_rev es i \<noteq> [] \<and> eid (last (branch_rev es i)) = i \<and> chained None (branch_rev es i) \<and>
   set (branch_rev es i) \<subseteq> set es \<and> distinct (map eid (branch_rev es i))"
proof (induction es arbitrary: i)
  case (Cons e es)
  show ?case
  proof (cases "eid e = i")
    case True
    show ?thesis
    proof (cases "parentId e")
      case None
      with True show ?thesis by simp
    next
      case (Some p)
      with Cons.prems have "p \<in> ids es" "eid e \<notin> ids es" by auto
      with Cons.IH [of p] Cons.prems Some True show ?thesis by (auto simp: chained_snoc)
    qed
  next
    case False
    with Cons.IH [of i] Cons.prems show ?thesis by auto
  qed
qed simp

lemmas branch_chain = branch_rev_chain [of "rev es" for es, folded wf_log_def branch_def, simplified]

section \<open>Fresh identifiers\<close>

text \<open>What the storages rely on of \<open>uuidv7\<close>: its first \<open>N\<close> values have 36
  characters and do not repeat.\<close>

definition uuid_source :: "(nat \<Rightarrow> string) \<Rightarrow> nat \<Rightarrow> bool" where
  "uuid_source uuid N \<longleftrightarrow> inj_on uuid {..<N} \<and> (\<forall>n < N. length (uuid n) = 36)"

definition issued :: "(nat \<Rightarrow> string) \<Rightarrow> nat \<Rightarrow> string \<Rightarrow> bool" where
  "issued uuid n i \<longleftrightarrow> length i = 8 \<or> (\<exists>m < n. i = uuid m)"

lemma issued_mono: "issued uuid n i \<Longrightarrow> n \<le> m \<Longrightarrow> issued uuid m i"
  unfolding issued_def using order_less_le_trans by blast

lemma issued_not_Nil:
  assumes "uuid_source uuid N" "issued uuid n i" "n \<le> N"
  shows "i \<noteq> []"
proof
  assume "i = []"
  with assms(2) obtain m where m: "uuid m = []" "m < n" by (auto simp: issued_def) metis
  then have "m < N" using assms(3) by simp
  then have "length (uuid m) = 36" using assms(1) by (simp add: uuid_source_def del: length_greater_0_conv)
  with m(1) show False by simp
qed

lemma generate_loop_fresh:
  assumes "uuid_source uuid N" and "\<forall>i \<in> set (js_keys m). issued uuid n i" and "n + k < N"
  shows "\<exists>i n'. generate_loop k uuid m n = (i, n') \<and> i \<notin> set (js_keys m) \<and> n \<le> n' \<and> n' \<le> n + k + 1 \<and>
    issued uuid n' i"
  using assms(2,3)
proof (induction k arbitrary: n)
  case 0
  have "\<not> issued uuid n (uuid n)"
    using assms(1) 0(2) inj_onD [of uuid "{..<N}" n] by (force simp: issued_def uuid_source_def)
  with 0 show ?case by (auto simp: issued_def)
next
  case (Suc k)
  have "length (take 8 (uuid n)) = 8" using assms(1) Suc.prems by (simp add: uuid_source_def)
  then have "issued uuid (Suc n) (take 8 (uuid n))" by (simp add: issued_def)
  moreover have "\<forall>i \<in> set (js_keys m). issued uuid (n + 1) i" using Suc.prems issued_mono by auto
  from Suc.IH [OF this] Suc.prems obtain i n' where "generate_loop k uuid m (n + 1) = (i, n')" "i \<notin> set (js_keys m)"
    "n + 1 \<le> n'" "n' \<le> n + 1 + k + 1" "issued uuid n' i" by auto
  ultimately show ?case by (simp add: Let_def)
qed

lemma generate_first: "take 8 (uuid n) \<notin> set (js_keys m) \<Longrightarrow> generateEntryId uuid m n = (take 8 (uuid n), n + 1)"
proof -
  assume a: "take 8 (uuid n) \<notin> set (js_keys m)"
  have "(100 :: nat) = Suc 99" by simp
  with a show ?thesis unfolding generateEntryId_def by (simp only: generate_loop.simps) (simp add: Let_def)
qed

section \<open>The invariant of a storage\<close>

definition storage_inv :: "(nat \<Rightarrow> string) \<Rightarrow> 'a memory_storage_scheme \<Rightarrow> bool" where
  "storage_inv uuid s \<longleftrightarrow>
     wf_log (entries s) \<and> byId s = index_entries (entries s) \<and>
     labelsById s = buildLabelsById (entries s) \<and> leafId s = leaf_after (entries s) \<and>
     (\<forall>i \<in> ids (entries s). issued uuid (uuids s) i)"

lemma generateEntryId_fresh:
  assumes "uuid_source uuid N" and "storage_inv uuid s" and "generateEntryId uuid (byId s) (uuids s) = (i, n)"
    and "uuids s + 101 \<le> N"
  shows "i \<notin> ids (entries s)" "uuids s \<le> n" "issued uuid n i" "i \<noteq> []" "n \<le> uuids s + 101"
proof -
  have "\<forall>i \<in> set (js_keys (byId s)). issued uuid (uuids s) i" using assms(2) by (simp add: storage_inv_def)
  from generate_loop_fresh [OF assms(1) this, of 100] assms(3,4)
  have g: "i \<notin> set (js_keys (byId s))" "uuids s \<le> n" "issued uuid n i" "n \<le> uuids s + 101"
    by (auto simp: generateEntryId_def)
  then show "i \<notin> ids (entries s)" "uuids s \<le> n" "issued uuid n i" "n \<le> uuids s + 101"
    using assms(2) by (auto simp: storage_inv_def)
  show "i \<noteq> []" using issued_not_Nil [OF assms(1) g(3)] g(4) assms(4) by simp
qed

text \<open>An entry with a new identifier and known parents can be added.\<close>

definition addable :: "entry \<Rightarrow> entry list \<Rightarrow> bool" where
  "addable e es \<longleftrightarrow> eid e \<noteq> [] \<and> eid e \<notin> ids es \<and> (\<forall>p. parentId e = Some p \<longrightarrow> p \<in> ids es) \<and>
     (\<forall>t. kind e = LeafEntry (Some t) \<longrightarrow> t \<in> ids es)"

lemma wf_log_addable: "wf_log (es @ [e]) \<longleftrightarrow> wf_log es \<and> addable e es"
  by (auto simp: wf_log_snoc addable_def)

lemma storage_inv_append:
  assumes "storage_inv uuid s" and "addable e (entries s)" and "issued uuid n (eid e)" and "uuids s \<le> n"
    and "entries s' = entries s @ [e]" "byId s' = js_set (eid e) e (byId s)"
      "labelsById s' = updateLabelCache e (labelsById s)" "leafId s' = leafIdAfterEntry e" "uuids s' = n"
  shows "storage_inv uuid s'"
  using assms issued_mono [of uuid "uuids s" _ n]
  by (auto simp: storage_inv_def wf_log_addable index_snoc labels_snoc leaf_after_snoc)

lemma updateLabelCache_leaf [simp]: "kind e = LeafEntry t \<Longrightarrow> updateLabelCache e m = m"
  by (simp add: updateLabelCache_def)

section \<open>The contract of a session storage\<close>

record 's storage_ops =
  getLeafId :: "'s \<Rightarrow> session_error + string option"
  setLeafId :: "nat \<Rightarrow> string option \<Rightarrow> 's \<Rightarrow> (session_error + unit) \<times> 's"
  createEntryId :: "'s \<Rightarrow> string \<times> 's"
  appendEntry :: "entry \<Rightarrow> 's \<Rightarrow> (session_error + unit) \<times> 's"
  getEntry :: "'s \<Rightarrow> string \<Rightarrow> entry option"
  findEntries :: "(entry_kind \<Rightarrow> bool) \<Rightarrow> 's \<Rightarrow> entry list"
  getLabel :: "'s \<Rightarrow> string \<Rightarrow> string option"
  getPathToRoot :: "'s \<Rightarrow> string option \<Rightarrow> (session_error + entry list) option"
  getEntries :: "'s \<Rightarrow> entry list"

definition memory_ops :: "(nat \<Rightarrow> string) \<Rightarrow> memory_storage storage_ops" where
  "memory_ops uuid =
     \<lparr>getLeafId = storage_getLeafId, setLeafId = mem_setLeafId uuid, createEntryId = storage_createEntryId uuid,
      appendEntry = mem_appendEntry, getEntry = storage_getEntry, findEntries = storage_findEntries,
      getLabel = storage_getLabel, getPathToRoot = storage_getPathToRoot, getEntries = entries\<rparr>"

definition jsonl_ops :: "(entry \<Rightarrow> string) \<Rightarrow> (nat \<Rightarrow> string) \<Rightarrow> jsonl_storage storage_ops" where
  "jsonl_ops encode uuid =
     \<lparr>getLeafId = storage_getLeafId, setLeafId = jsonl_setLeafId encode uuid, createEntryId = storage_createEntryId uuid,
      appendEntry = jsonl_appendEntry encode, getEntry = storage_getEntry, findEntries = storage_findEntries,
      getLabel = storage_getLabel, getPathToRoot = storage_getPathToRoot, getEntries = entries\<rparr>"

text \<open>A storage is a log: every query is a function of the log, and the operations that
  change it add one well-formed entry or fail and add none.\<close>

locale session_storage =
  fixes ops :: "'s storage_ops"
    and inv :: "'s \<Rightarrow> bool"
    and log :: "'s \<Rightarrow> entry list"
    and known :: "'s \<Rightarrow> string \<Rightarrow> bool"
    and budget :: "'s \<Rightarrow> nat"
  assumes log_wf: "inv s \<Longrightarrow> wf_log (log s)"
    and getLeafId: "inv s \<Longrightarrow> getLeafId ops s = Inr (leaf_after (log s))"
    and getEntry: "inv s \<Longrightarrow> getEntry ops s i = js_get (index_entries (log s)) i"
    and getLabel: "inv s \<Longrightarrow> getLabel ops s i = js_get (buildLabelsById (log s)) i"
    and getPathToRoot: "inv s \<Longrightarrow> getPathToRoot ops s l = path_to_root (index_entries (log s)) l"
    and getEntries: "getEntries ops s = log s"
    and findEntries: "findEntries ops P s = filter (\<lambda>e. P (kind e)) (log s)"
    and createEntryId: "inv s \<Longrightarrow> 101 \<le> budget s \<Longrightarrow> createEntryId ops s = (i, s') \<Longrightarrow>
          inv s' \<and> log s' = log s \<and> i \<noteq> [] \<and> i \<notin> ids (log s) \<and> known s' i \<and> budget s \<le> budget s' + 101"
    and appendEntry: "inv s \<Longrightarrow> known s (eid e) \<Longrightarrow> addable e (log s) \<Longrightarrow> appendEntry ops e s = (r, s') \<Longrightarrow>
          inv s' \<and> (r = Inr () \<and> log s' = log s @ [e] \<or> (\<exists>x. r = Inl x) \<and> log s' = log s) \<and> budget s' = budget s"
    and setLeafId_unknown: "inv s \<Longrightarrow> t \<notin> ids (log s) \<Longrightarrow> setLeafId ops now (Some t) s = (Inl (Not_found t), s)"
    and setLeafId: "inv s \<Longrightarrow> 101 \<le> budget s \<Longrightarrow> (\<forall>t. target = Some t \<longrightarrow> t \<in> ids (log s)) \<Longrightarrow> setLeafId ops now target s = (r, s') \<Longrightarrow>
          inv s' \<and> ((\<exists>e. r = Inr () \<and> log s' = log s @ [e] \<and> addable e (log s) \<and> kind e = LeafEntry target) \<or>
                    (\<exists>x. r = Inl x) \<and> log s' = log s) \<and> budget s \<le> budget s' + 101"

lemma storage_getLeafId_inv:
  assumes "storage_inv uuid s" shows "storage_getLeafId s = Inr (leaf_after (entries s))"
  using assms leaf_after_known [of "entries s"]
  by (auto simp: storage_getLeafId_def storage_inv_def split: option.splits)

lemma storage_createEntryId_inv:
  assumes "uuid_source uuid N" "storage_inv uuid s" "storage_createEntryId uuid s = (i, s')" "uuids s + 101 \<le> N"
  shows "storage_inv uuid s' \<and> entries s' = entries s \<and> i \<noteq> [] \<and> i \<notin> ids (entries s) \<and> issued uuid (uuids s') i \<and>
    uuids s' \<le> uuids s + 101"
proof -
  obtain n where g: "generateEntryId uuid (byId s) (uuids s) = (i, n)" and s': "s' = s\<lparr>uuids := n\<rparr>"
    using assms(3) by (auto simp: storage_createEntryId_def split: prod.splits)
  from generateEntryId_fresh [OF assms(1,2) g assms(4)] assms(2) s' show ?thesis
    using issued_mono [of uuid "uuids s" _ n] by (auto simp: storage_inv_def)
qed

lemma leaf_addable:
  assumes "storage_inv uuid s" "i \<notin> ids (entries s)" "i \<noteq> []" "\<forall>t. target = Some t \<longrightarrow> t \<in> ids (entries s)"
  shows "addable \<lparr>eid = i, parentId = leafId s, timestamp = now, kind = LeafEntry target\<rparr> (entries s)"
  using assms leaf_after_known by (auto simp: addable_def storage_inv_def)

lemma mem_setLeafId_inv:
  assumes "uuid_source uuid N" "storage_inv uuid s" "\<forall>t. target = Some t \<longrightarrow> t \<in> ids (entries s)" "uuids s + 101 \<le> N"
  shows "\<exists>s' e. mem_setLeafId uuid now target s = (Inr (), s') \<and> storage_inv uuid s' \<and> uuids s' \<le> uuids s + 101 \<and>
    entries s' = entries s @ [e] \<and> addable e (entries s) \<and> kind e = LeafEntry target"
proof -
  obtain i n where g: "generateEntryId uuid (byId s) (uuids s) = (i, n)" by fastforce
  note f = generateEntryId_fresh [OF assms(1,2) g assms(4)]
  let ?e = "\<lparr>eid = i, parentId = leafId s, timestamp = now, kind = LeafEntry target\<rparr>"
  let ?s = "s\<lparr>entries := entries s @ [?e], byId := js_set i ?e (byId s), leafId := target, uuids := n\<rparr>"
  have a: "addable ?e (entries s)" using leaf_addable [OF assms(2) f(1,4) assms(3)] .
  then have "storage_inv uuid ?s"
    using f by (intro storage_inv_append [OF assms(2), of ?e n ?s]) (auto simp: leafIdAfterEntry_def)
  moreover have "mem_setLeafId uuid now target s = (Inr (), ?s)"
    using g assms(2,3) by (auto simp: mem_setLeafId_def storage_inv_def Let_def split: option.splits)
  ultimately show ?thesis using a f(5) by (intro exI [of _ ?s] exI [of _ ?e]) simp
qed

interpretation memory: session_storage
  "memory_ops uuid" "\<lambda>s. uuid_source uuid N \<and> storage_inv uuid s" entries "\<lambda>s. issued uuid (uuids s)" "\<lambda>s. N - uuids s"
  for uuid N
proof unfold_locales
  fix s s' :: memory_storage and r :: "session_error + unit" and e i t target now
  assume inv: "uuid_source uuid N \<and> storage_inv uuid s"
  then have u: "uuid_source uuid N" and si: "storage_inv uuid s" by auto
  show "wf_log (entries s)" using si by (simp add: storage_inv_def)
  show "getLeafId (memory_ops uuid) s = Inr (leaf_after (entries s))"
    using si by (simp add: memory_ops_def storage_getLeafId_inv)
  show "getEntry (memory_ops uuid) s i = js_get (index_entries (entries s)) i"
    using si by (simp add: memory_ops_def storage_getEntry_def storage_inv_def)
  show "getLabel (memory_ops uuid) s i = js_get (buildLabelsById (entries s)) i"
    using si by (simp add: memory_ops_def storage_getLabel_def storage_inv_def)
  show "getPathToRoot (memory_ops uuid) s target = path_to_root (index_entries (entries s)) target"
    using si by (simp add: memory_ops_def storage_getPathToRoot_def storage_inv_def)
  show "(uuid_source uuid N \<and> storage_inv uuid s') \<and> entries s' = entries s \<and> i \<noteq> [] \<and> i \<notin> ids (entries s) \<and> issued uuid (uuids s') i \<and> N - uuids s \<le> N - uuids s' + 101"
    if "101 \<le> N - uuids s" "createEntryId (memory_ops uuid) s = (i, s')"
    using that storage_createEntryId_inv [OF u si, of i s'] u by (simp add: memory_ops_def) linarith
  show "(uuid_source uuid N \<and> storage_inv uuid s') \<and> (r = Inr () \<and> entries s' = entries s @ [e] \<or> (\<exists>x. r = Inl x) \<and> entries s' = entries s) \<and> N - uuids s' = N - uuids s"
    if "issued uuid (uuids s) (eid e)" "addable e (entries s)" "appendEntry (memory_ops uuid) e s = (r, s')"
    using that u storage_inv_append [OF si that(2,1), of s'] by (auto simp: memory_ops_def mem_appendEntry_def)
  show "setLeafId (memory_ops uuid) now (Some t) s = (Inl (Not_found t), s)" if "t \<notin> ids (entries s)"
    using that si by (simp add: memory_ops_def mem_setLeafId_def storage_inv_def)
  show "(uuid_source uuid N \<and> storage_inv uuid s') \<and>
     ((\<exists>e. r = Inr () \<and> entries s' = entries s @ [e] \<and> addable e (entries s) \<and> kind e = LeafEntry target) \<or>
      (\<exists>x. r = Inl x) \<and> entries s' = entries s) \<and> N - uuids s \<le> N - uuids s' + 101"
    if b: "101 \<le> N - uuids s" and t: "\<forall>t. target = Some t \<longrightarrow> t \<in> ids (entries s)" and r: "setLeafId (memory_ops uuid) now target s = (r, s')"
    using r u b mem_setLeafId_inv [OF u si t, of now] by (auto simp: memory_ops_def) linarith
qed (simp_all add: memory_ops_def storage_findEntries_def)

text \<open>As long as no failing append leaves part of a line behind, the file of a JSONL storage is its header line
  followed by one line per entry. The flag says whether this is assumed of the coming appends.\<close>

definition file_text :: "(session_header \<Rightarrow> string) \<Rightarrow> (entry \<Rightarrow> string) \<Rightarrow> session_header \<Rightarrow> entry list \<Rightarrow> string" where
  "file_text encode_header encode h es = encode_header h @ nl # concat (map (\<lambda>e. encode e @ [nl]) es)"

definition nothing_partial :: "append_outcome list \<Rightarrow> bool" where
  "nothing_partial oks \<longleftrightarrow> list_all (\<lambda>w. case w of Append_ok \<Rightarrow> True | Append_failed k \<Rightarrow> k = 0) oks"

definition jsonl_inv ::
  "bool \<Rightarrow> (session_header \<Rightarrow> string) \<Rightarrow> (entry \<Rightarrow> string) \<Rightarrow> (nat \<Rightarrow> string) \<Rightarrow> jsonl_storage \<Rightarrow> bool" where
  "jsonl_inv whole encode_header encode uuid s \<longleftrightarrow>
     storage_inv uuid s
     \<and> (whole \<longrightarrow> nothing_partial (append_ok s) \<and> session_file s = file_text encode_header encode (header s) (entries s))"

lemma file_text_snoc: "file_text eh enc h (es @ [e]) = file_text eh enc h es @ enc e @ [nl]"
  by (simp add: file_text_def)

lemma append_line_cases:
  assumes "append_line line s = (ok, s')"
  obtains (written) a where "ok" "s' = s\<lparr>session_file := session_file s @ line @ [nl], append_ok := a\<rparr>"
      "nothing_partial (append_ok s) \<Longrightarrow> nothing_partial a"
  | (failed) f a where "\<not> ok" "s' = s\<lparr>session_file := f, append_ok := a\<rparr>"
      "nothing_partial (append_ok s) \<Longrightarrow> nothing_partial a \<and> f = session_file s"
proof (cases "append_ok s")
  case Nil
  then have "ok" "s' = s\<lparr>session_file := session_file s @ line @ [nl], append_ok := []\<rparr>"
    using assms by (auto simp: append_line_def)
  then show ?thesis by (rule that(1)) (simp add: nothing_partial_def)
next
  case (Cons b bs)
  show ?thesis
  proof (cases b)
    case Append_ok
    with Cons have "ok" "s' = s\<lparr>session_file := session_file s @ line @ [nl], append_ok := bs\<rparr>"
      using assms by (auto simp: append_line_def)
    then show ?thesis by (rule that(1)) (use Cons in \<open>simp add: nothing_partial_def\<close>)
  next
    case (Append_failed k)
    with Cons have "\<not> ok" "s' = s\<lparr>session_file := session_file s @ take k (line @ [nl]), append_ok := bs\<rparr>"
      using assms by (auto simp: append_line_def)
    then show ?thesis by (rule that(2)) (use Cons Append_failed in \<open>simp add: nothing_partial_def\<close>)
  qed
qed

lemma storage_inv_irrelevant [simp]:
  "storage_inv uuid (s\<lparr>session_file := f, append_ok := a\<rparr>) = storage_inv uuid s"
  by (simp add: storage_inv_def)

lemma jsonl_appendEntry_inv:
  assumes inv: "jsonl_inv c eh enc uuid s" and "issued uuid (uuids s) (eid e)" and "addable e (entries s)"
    and "jsonl_appendEntry enc e s = (r, s')"
  shows "jsonl_inv c eh enc uuid s' \<and> (r = Inr () \<and> entries s' = entries s @ [e] \<or> (\<exists>x. r = Inl x) \<and> entries s' = entries s) \<and>
    uuids s' = uuids s"
proof -
  have si: "storage_inv uuid s" using inv by (simp add: jsonl_inv_def)
  obtain ok s1 where a: "append_line (enc e) s = (ok, s1)" by fastforce
  from a show ?thesis
  proof (cases rule: append_line_cases)
    case (written a')
    with assms(4) a have r: "r = Inr ()" and s': "s' = s1\<lparr>entries := entries s1 @ [e], byId := js_set (eid e) e (byId s1),
                          labelsById := updateLabelCache e (labelsById s1), leafId := leafIdAfterEntry e\<rparr>"
      by (auto simp: jsonl_appendEntry_def)
    have "storage_inv uuid s'"
      by (rule storage_inv_append [OF si assms(3,2)]) (use s' written(2) in simp_all)
    moreover have "entries s' = entries s @ [e]" "session_file s' = session_file s @ enc e @ [nl]" "header s' = header s"
      "uuids s' = uuids s" "append_ok s' = a'"
      using s' written(2) by simp_all
    ultimately show ?thesis using r inv written(3) by (simp add: jsonl_inv_def file_text_snoc)
  next
    case (failed f' a')
    with assms(4) a have "\<exists>x. r = Inl x" "s' = s1" by (auto simp: jsonl_appendEntry_def)
    moreover have "jsonl_inv c eh enc uuid s1 \<and> entries s1 = entries s \<and> uuids s1 = uuids s"
      using failed(2,3) inv by (simp add: jsonl_inv_def)
    ultimately show ?thesis by blast
  qed
qed

lemma jsonl_setLeafId_inv:
  assumes u: "uuid_source uuid N" and inv: "jsonl_inv c eh enc uuid s"
    and t: "\<forall>t. target = Some t \<longrightarrow> t \<in> ids (entries s)" and r: "jsonl_setLeafId enc uuid now target s = (r, s')"
    and b: "uuids s + 101 \<le> N"
  shows "jsonl_inv c eh enc uuid s' \<and>
     ((\<exists>e. r = Inr () \<and> entries s' = entries s @ [e] \<and> addable e (entries s) \<and> kind e = LeafEntry target) \<or>
      (\<exists>x. r = Inl x) \<and> entries s' = entries s) \<and> uuids s' \<le> uuids s + 101"
proof -
  have si: "storage_inv uuid s" using inv by (simp add: jsonl_inv_def)
  obtain i n where g: "generateEntryId uuid (byId s) (uuids s) = (i, n)" by fastforce
  note f = generateEntryId_fresh [OF u si g b]
  let ?e = "\<lparr>eid = i, parentId = leafId s, timestamp = now, kind = LeafEntry target\<rparr>"
  obtain ok s1 where a: "append_line (enc ?e) (s\<lparr>uuids := n\<rparr>) = (ok, s1)" by fastforce
  have ad: "addable ?e (entries s)" using leaf_addable [OF si f(1,4) t] .
  have known: "\<not> (case target of Some t \<Rightarrow> t \<notin> set (js_keys (byId s)) | None \<Rightarrow> False)"
    using t si by (auto simp: storage_inv_def split: option.splits)
  have r': "(r, s') = (if \<not> ok then (Inl (Storage_failed i), s1)
               else (Inr (), s1\<lparr>entries := entries s1 @ [?e], byId := js_set i ?e (byId s1), leafId := target\<rparr>))"
    using r g a known by (simp add: jsonl_setLeafId_def Let_def)
  from a show ?thesis
  proof (cases rule: append_line_cases)
    case (written a')
    then have rs: "r = Inr ()" "s' = s1\<lparr>entries := entries s1 @ [?e], byId := js_set i ?e (byId s1), leafId := target\<rparr>"
      using r' by simp_all
    have "storage_inv uuid s'"
      by (rule storage_inv_append [OF si ad, of n]) (use f rs(2) written(2) in \<open>simp_all add: leafIdAfterEntry_def\<close>)
    moreover have "entries s' = entries s @ [?e]" "session_file s' = session_file s @ enc ?e @ [nl]" "header s' = header s" "uuids s' = n"
      "append_ok s' = a'"
      using rs(2) written(2) by simp_all
    ultimately show ?thesis using rs(1) inv ad f(5) written(3) by (auto simp: jsonl_inv_def file_text_snoc)
  next
    case (failed f' a')
    then have "\<exists>x. r = Inl x" "s' = s1" using r' by simp_all
    moreover have "storage_inv uuid (s\<lparr>uuids := n\<rparr>)"
      using si f(2) issued_mono [of uuid "uuids s" _ n] by (auto simp: storage_inv_def)
    then have "jsonl_inv c eh enc uuid s1 \<and> entries s1 = entries s \<and> uuids s1 = n"
      using failed(2,3) inv by (simp add: jsonl_inv_def)
    ultimately show ?thesis using f(5) by auto
  qed
qed

interpretation jsonl: session_storage
  "jsonl_ops encode uuid" "\<lambda>s. uuid_source uuid N \<and> jsonl_inv whole encode_header encode uuid s" entries "\<lambda>s. issued uuid (uuids s)" "\<lambda>s. N - uuids s"
  for whole encode_header encode uuid N
proof unfold_locales
  fix s s' :: jsonl_storage and r :: "session_error + unit" and e i t target now
  assume inv: "uuid_source uuid N \<and> jsonl_inv whole encode_header encode uuid s"
  then have u: "uuid_source uuid N" and ji: "jsonl_inv whole encode_header encode uuid s" and si: "storage_inv uuid s"
    by (auto simp: jsonl_inv_def)
  show "wf_log (entries s)" using si by (simp add: storage_inv_def)
  show "getLeafId (jsonl_ops encode uuid) s = Inr (leaf_after (entries s))"
    using si by (simp add: jsonl_ops_def storage_getLeafId_inv)
  show "getEntry (jsonl_ops encode uuid) s i = js_get (index_entries (entries s)) i"
    using si by (simp add: jsonl_ops_def storage_getEntry_def storage_inv_def)
  show "getLabel (jsonl_ops encode uuid) s i = js_get (buildLabelsById (entries s)) i"
    using si by (simp add: jsonl_ops_def storage_getLabel_def storage_inv_def)
  show "getPathToRoot (jsonl_ops encode uuid) s target = path_to_root (index_entries (entries s)) target"
    using si by (simp add: jsonl_ops_def storage_getPathToRoot_def storage_inv_def)
  show "(uuid_source uuid N \<and> jsonl_inv whole encode_header encode uuid s') \<and> entries s' = entries s \<and> i \<noteq> [] \<and> i \<notin> ids (entries s) \<and> issued uuid (uuids s') i \<and> N - uuids s \<le> N - uuids s' + 101"
    if b: "101 \<le> N - uuids s" and c: "createEntryId (jsonl_ops encode uuid) s = (i, s')"
  proof -
    have c': "storage_createEntryId uuid s = (i, s')" using c by (simp add: jsonl_ops_def)
    then have "session_file s' = session_file s" "header s' = header s" "append_ok s' = append_ok s"
      by (auto simp: storage_createEntryId_def split: prod.splits)
    with storage_createEntryId_inv [OF u si c'] b u ji show ?thesis by (simp add: jsonl_inv_def) linarith
  qed
  show "(uuid_source uuid N \<and> jsonl_inv whole encode_header encode uuid s') \<and> (r = Inr () \<and> entries s' = entries s @ [e] \<or> (\<exists>x. r = Inl x) \<and> entries s' = entries s) \<and> N - uuids s' = N - uuids s"
    if "issued uuid (uuids s) (eid e)" "addable e (entries s)" "appendEntry (jsonl_ops encode uuid) e s = (r, s')"
    using jsonl_appendEntry_inv [OF ji that(1,2), of r s'] that(3) u by (auto simp: jsonl_ops_def)
  show "setLeafId (jsonl_ops encode uuid) now (Some t) s = (Inl (Not_found t), s)" if "t \<notin> ids (entries s)"
    using that si by (simp add: jsonl_ops_def jsonl_setLeafId_def storage_inv_def)
  show "(uuid_source uuid N \<and> jsonl_inv whole encode_header encode uuid s') \<and>
     ((\<exists>e. r = Inr () \<and> entries s' = entries s @ [e] \<and> addable e (entries s) \<and> kind e = LeafEntry target) \<or>
      (\<exists>x. r = Inl x) \<and> entries s' = entries s) \<and> N - uuids s \<le> N - uuids s' + 101"
    if b: "101 \<le> N - uuids s" and t: "\<forall>t. target = Some t \<longrightarrow> t \<in> ids (entries s)" and r: "setLeafId (jsonl_ops encode uuid) now target s = (r, s')"
    using jsonl_setLeafId_inv [OF u ji t, of now r s'] r b u by (auto simp: jsonl_ops_def) linarith
qed (simp_all add: jsonl_ops_def storage_findEntries_def)

section \<open>Reopening a JSONL file\<close>

fun type_name :: "entry_kind \<Rightarrow> string" where
  "type_name (MessageEntry _) = ''message''"
| "type_name (ThinkingLevelChangeEntry _) = ''thinking_level_change''"
| "type_name (ModelChangeEntry _ _) = ''model_change''"
| "type_name (ActiveToolsChangeEntry _) = ''active_tools_change''"
| "type_name (CompactionEntry _ _ _ _ _) = ''compaction''"
| "type_name (BranchSummaryEntry _ _ _ _) = ''branch_summary''"
| "type_name (CustomEntry _ _) = ''custom''"
| "type_name (CustomMessageEntry _ _ _ _) = ''custom_message''"
| "type_name (LabelEntry _ _) = ''label''"
| "type_name (SessionInfoEntry _) = ''session_info''"
| "type_name (LeafEntry _) = ''leaf''"

definition json_opt :: "string option \<Rightarrow> json_value" where
  "json_opt x = (case x of None \<Rightarrow> JNull | Some s \<Rightarrow> JStr s)"

text \<open>What the storage relies on of \<open>JSON\<close>: an entry is written on one line that is not
  blank, and reading that line gives an object with the entry's own fields, which the cast
  takes back to the entry; likewise for the header.\<close>

definition entry_codec :: "(string \<Rightarrow> json_value option) \<Rightarrow> (json_value \<Rightarrow> entry) \<Rightarrow> (entry \<Rightarrow> string) \<Rightarrow> entry \<Rightarrow> bool" where
  "entry_codec parse cast encode e \<longleftrightarrow>
     nl \<notin> set (encode e) \<and> js_trim (encode e) \<noteq> [] \<and>
     (\<exists>fs. parse (encode e) = Some (JObj fs) \<and> cast (JObj fs) = e \<and>
        map_of fs ''type'' = Some (JStr (type_name (kind e))) \<and> map_of fs ''id'' = Some (JStr (eid e)) \<and>
        map_of fs ''parentId'' = Some (json_opt (parentId e)) \<and>
        (\<exists>t. t \<noteq> [] \<and> map_of fs ''timestamp'' = Some (JStr t)) \<and>
        (case kind e of LeafEntry target \<Rightarrow> map_of fs ''targetId'' = Some (json_opt target) | _ \<Rightarrow> True))"

definition header_codec :: "(string \<Rightarrow> json_value option) \<Rightarrow> (session_header \<Rightarrow> string) \<Rightarrow> session_header \<Rightarrow> bool" where
  "header_codec parse encode_header h \<longleftrightarrow>
     hid h \<noteq> [] \<and> htimestamp h \<noteq> [] \<and> hcwd h \<noteq> [] \<and>
     nl \<notin> set (encode_header h) \<and> js_trim (encode_header h) \<noteq> [] \<and>
     (\<exists>fs. parse (encode_header h) = Some (JObj fs) \<and>
        map_of fs ''type'' = Some (JStr ''session'') \<and> map_of fs ''version'' = Some (JNum 3) \<and>
        map_of fs ''id'' = Some (JStr (hid h)) \<and> map_of fs ''timestamp'' = Some (JStr (htimestamp h)) \<and>
        map_of fs ''cwd'' = Some (JStr (hcwd h)) \<and> map_of fs ''parentSession'' = map_option JStr (parentSession h))"

lemma type_name_leaf: "type_name k = ''leaf'' \<Longrightarrow> \<exists>t. k = LeafEntry t"
  by (cases k) auto

lemma parseEntryLine_encode:
  assumes "entry_codec parse cast encode e" "eid e \<noteq> []"
  shows "parseEntryLine parse cast (encode e) n = Inr e"
proof -
  obtain fs t where f: "parse (encode e) = Some (JObj fs)" "cast (JObj fs) = e"
    "map_of fs ''type'' = Some (JStr (type_name (kind e)))" "map_of fs ''id'' = Some (JStr (eid e))"
    "map_of fs ''parentId'' = Some (json_opt (parentId e))" "t \<noteq> []" "map_of fs ''timestamp'' = Some (JStr t)"
    "case kind e of LeafEntry target \<Rightarrow> map_of fs ''targetId'' = Some (json_opt target) | _ \<Rightarrow> True"
    using assms(1) by (auto simp: entry_codec_def)
  have p: "field (JObj fs) ''parentId'' = Some JNull \<or> string_field (JObj fs) ''parentId'' \<noteq> None"
    using f(5) by (cases "parentId e") (simp_all add: field_def string_field_def json_opt_def)
  have tg: "field (JObj fs) ''targetId'' = Some JNull \<or> string_field (JObj fs) ''targetId'' \<noteq> None"
    if "type_name (kind e) = ''leaf''"
    using f(8) type_name_leaf [OF that] by (auto simp: field_def string_field_def json_opt_def split: option.splits)
  have ty: "string_field (JObj fs) ''type'' = Some (type_name (kind e))" "string_field (JObj fs) ''id'' = Some (eid e)"
    "string_field (JObj fs) ''timestamp'' = Some t" "isRecord (JObj fs)"
    using f by (simp_all add: string_field_def field_def isRecord_def)
  show ?thesis
    using f(1,2,6) p tg ty assms(2) unfolding parseEntryLine_def by auto
qed

lemma parseHeaderLine_encode:
  assumes "header_codec parse encode_header h"
  shows "parseHeaderLine parse (encode_header h) = Inr h"
  using assms unfolding header_codec_def parseHeaderLine_def
  by (cases "parentSession h") (auto simp: isRecord_def field_def string_field_def)

lemma lines_file_text:
  assumes "nl \<notin> set (eh h)" "\<forall>e \<in> set es. nl \<notin> set (enc e)"
  shows "lines_of (file_text eh enc h es) = eh h # map enc es @ [[]]"
proof -
  have "lines_of (concat (map (\<lambda>e. enc e @ [nl]) es)) = map enc es @ [[]]"
    using assms(2) by (induction es) (simp_all add: split_on_append_sep)
  then show ?thesis using assms(1) by (simp add: file_text_def split_on_append_sep)
qed

lemma mapM_enumerate:
  "\<forall>x \<in> set xs. \<forall>n. f (g x) n = Inr x \<Longrightarrow> mapM (\<lambda>(i, l). f l (i + 1)) (enumerate k (map g xs)) = Inr xs"
  by (induction xs arbitrary: k) auto

lemma jsonl_reopen:
  assumes inv: "jsonl_inv True eh enc uuid s" and h: "header_codec parse eh (header s)"
    and es: "\<forall>e \<in> set (entries s). entry_codec parse cast enc e"
  shows "jsonl_open parse cast n oks (session_file s) = Inr (s\<lparr>uuids := n, append_ok := oks\<rparr>)"
proof -
  have si: "storage_inv uuid s" and f: "session_file s = file_text eh enc (header s) (entries s)"
    using inv by (auto simp: jsonl_inv_def)
  have "lines_of (session_file s) = eh (header s) # map enc (entries s) @ [[]]"
    unfolding f using h es by (intro lines_file_text) (auto simp: header_codec_def entry_codec_def)
  moreover have "filter (\<lambda>l. js_trim l \<noteq> []) (map enc (entries s)) = map enc (entries s)"
    using es by (simp add: entry_codec_def)
  ultimately have l: "filter (\<lambda>l. js_trim l \<noteq> []) (lines_of (session_file s)) = eh (header s) # map enc (entries s)"
    using h by (simp add: header_codec_def) (simp add: js_trim_def)
  have "eid e \<noteq> []" if "e \<in> set (entries s)" for e
    using si wf_log_eid [OF _ that] by (simp add: storage_inv_def)
  then have "mapM (\<lambda>(i, line). parseEntryLine parse cast line (i + 1)) (enumerate 1 (map enc (entries s))) = Inr (entries s)"
    using es by (intro mapM_enumerate) (simp add: parseEntryLine_encode)
  then have "loadJsonlStorage parse cast (session_file s) = Inr (header s, entries s, leaf_after (entries s))"
    by (simp add: loadJsonlStorage_def l parseHeaderLine_encode [OF h])
  then show ?thesis using si by (simp add: jsonl_open_def storage_inv_def)
qed

end
