(* ===== verification/Session.thy ===== *)
theory Session
  imports Session_Storage
begin

text \<open>
  Sessions (\<open>packages/agent/src/harness/session/session.ts\<close>, \<open>repo-utils.ts\<close>,
  \<open>memory-repo.ts\<close>): the operations of the class \<open>Session\<close>, written once over the
  operations of the storage it was built with, the context sent to the model, and forks. The
  lemmas are proved once for every storage that meets the contract \<open>session_storage\<close>, and
  hold for the memory and the JSONL storage.
\<close>

record session_context =
  messages :: "agent_message list"
  thinkingLevel :: string
  model :: "(string \<times> string) option"
  activeToolNames :: "string list option"

text \<open>The settings loop: the last change of each kind wins; the compaction is the last one.\<close>

record context_scan =
  sc_thinking :: string
  sc_model :: "(string \<times> string) option"
  sc_tools :: "string list option"
  sc_compaction :: "entry option"

definition scan_entry :: "context_scan \<Rightarrow> entry \<Rightarrow> context_scan" where
  "scan_entry c e =
     (case kind e of
        ThinkingLevelChangeEntry t \<Rightarrow> c\<lparr>sc_thinking := t\<rparr>
      | ModelChangeEntry p m \<Rightarrow> c\<lparr>sc_model := Some (p, m)\<rparr>
      | MessageEntry (AssistantMessage p m _) \<Rightarrow> c\<lparr>sc_model := Some (p, m)\<rparr>
      | ActiveToolsChangeEntry ts \<Rightarrow> c\<lparr>sc_tools := Some ts\<rparr>
      | CompactionEntry _ _ _ _ _ \<Rightarrow> c\<lparr>sc_compaction := Some e\<rparr>
      | _ \<Rightarrow> c)"

definition entry_message :: "entry \<Rightarrow> agent_message list" where
  "entry_message e =
     (case kind e of
        MessageEntry m \<Rightarrow> [m]
      | CustomMessageEntry customType content display details \<Rightarrow>
          [CustomAgentMessage customType content display details (timestamp e)]
      | BranchSummaryEntry fromId summary _ _ \<Rightarrow>
          if summary \<noteq> [] then [BranchSummaryMessage summary fromId (timestamp e)] else []
      | _ \<Rightarrow> [])"

fun is_compaction :: "entry_kind \<Rightarrow> bool" where
  "is_compaction (CompactionEntry _ _ _ _ _) \<longleftrightarrow> True"
| "is_compaction _ \<longleftrightarrow> False"

text \<open>The kept entries before the compaction: nothing until the first kept one.\<close>

fun kept_messages :: "string \<Rightarrow> bool \<Rightarrow> entry list \<Rightarrow> agent_message list" where
  "kept_messages firstKept found [] = []"
| "kept_messages firstKept found (e # es) =
     (let found' = (found \<or> eid e = firstKept)
      in (if found' then entry_message e else []) @ kept_messages firstKept found' es)"

definition buildSessionContext :: "entry list \<Rightarrow> session_context" where
  "buildSessionContext pathEntries =
     (let c = foldl scan_entry \<lparr>sc_thinking = ''off'', sc_model = None, sc_tools = None, sc_compaction = None\<rparr> pathEntries;
          ms = (case sc_compaction c of
                  Some compaction \<Rightarrow>
                    (case kind compaction of
                       CompactionEntry summary firstKept tokensBefore _ _ \<Rightarrow>
                         (case find_index (\<lambda>e. is_compaction (kind e) \<and> eid e = eid compaction) pathEntries of
                            Some idx \<Rightarrow>
                              CompactionSummaryMessage summary tokensBefore (timestamp compaction)
                              # kept_messages firstKept False (take idx pathEntries)
                              @ concat (map entry_message (drop (idx + 1) pathEntries))
                          | None \<Rightarrow>
                              CompactionSummaryMessage summary tokensBefore (timestamp compaction)
                              # concat (map entry_message pathEntries))
                     | _ \<Rightarrow> [])
                | None \<Rightarrow> concat (map entry_message pathEntries))
      in \<lparr>messages = ms, thinkingLevel = sc_thinking c, model = sc_model c, activeToolNames = sc_tools c\<rparr>)"

section \<open>The class Session\<close>

definition getBranch :: "'s storage_ops \<Rightarrow> string option \<Rightarrow> 's \<Rightarrow> (session_error + entry list) option" where
  "getBranch ops fromId s =
     (case fromId of
        Some f \<Rightarrow> getPathToRoot ops s (Some f)
      | None \<Rightarrow> (case getLeafId ops s of Inl x \<Rightarrow> Some (Inl x) | Inr l \<Rightarrow> getPathToRoot ops s l))"


definition getSessionName :: "'s storage_ops \<Rightarrow> 's \<Rightarrow> string option" where
  "getSessionName ops s =
     (let es = findEntries ops (\<lambda>k. case k of SessionInfoEntry _ \<Rightarrow> True | _ \<Rightarrow> False) s
      in if es = [] then None
         else case kind (last es) of
                SessionInfoEntry (Some n) \<Rightarrow> (let t = js_trim n in if t = [] then None else Some t)
              | _ \<Rightarrow> None)"

definition appendTypedEntry :: "'s storage_ops \<Rightarrow> entry \<Rightarrow> 's \<Rightarrow> (session_error + string) \<times> 's" where
  "appendTypedEntry ops e s =
     (case appendEntry ops e s of (Inl x, s') \<Rightarrow> (Inl x, s') | (Inr _, s') \<Rightarrow> (Inr (eid e), s'))"

text \<open>The object literal of every append: a new identifier, then the current leaf as parent.\<close>

definition append_kind :: "'s storage_ops \<Rightarrow> nat \<Rightarrow> entry_kind \<Rightarrow> 's \<Rightarrow> (session_error + string) \<times> 's" where
  "append_kind ops now k s =
     (let (i, s1) = createEntryId ops s
      in case getLeafId ops s1 of
           Inl x \<Rightarrow> (Inl x, s1)
         | Inr l \<Rightarrow> appendTypedEntry ops \<lparr>eid = i, parentId = l, timestamp = now, kind = k\<rparr> s1)"

definition appendMessage :: "'s storage_ops \<Rightarrow> nat \<Rightarrow> agent_message \<Rightarrow> 's \<Rightarrow> (session_error + string) \<times> 's" where
  "appendMessage ops now message s = append_kind ops now (MessageEntry message) s"

definition appendThinkingLevelChange where
  "appendThinkingLevelChange ops now level s = append_kind ops now (ThinkingLevelChangeEntry level) s"

definition appendModelChange where
  "appendModelChange ops now provider modelId s = append_kind ops now (ModelChangeEntry provider modelId) s"

definition appendActiveToolsChange where
  "appendActiveToolsChange ops now names s = append_kind ops now (ActiveToolsChangeEntry names) s"

definition appendCompaction where
  "appendCompaction ops now summary firstKept tokensBefore details fromHook s =
     append_kind ops now (CompactionEntry summary firstKept tokensBefore details fromHook) s"

definition appendCustomEntry where
  "appendCustomEntry ops now customType data s = append_kind ops now (CustomEntry customType data) s"

definition appendCustomMessageEntry where
  "appendCustomMessageEntry ops now customType content display details s =
     append_kind ops now (CustomMessageEntry customType content display details) s"

definition appendLabel :: "'s storage_ops \<Rightarrow> nat \<Rightarrow> string \<Rightarrow> string option \<Rightarrow> 's \<Rightarrow> (session_error + string) \<times> 's" where
  "appendLabel ops now targetId label s =
     (if getEntry ops s targetId = None then (Inl (Not_found targetId), s)
      else append_kind ops now (LabelEntry targetId label) s)"

text \<open>\<open>name.replace(/[\r\n]+/g, " ").trim()\<close>.\<close>

function collapse_breaks :: "string \<Rightarrow> string" where
  "collapse_breaks [] = []"
| "collapse_breaks (c # cs) =
     (if c = cr \<or> c = nl then CHR '' '' # collapse_breaks (dropWhile (\<lambda>c. c = cr \<or> c = nl) cs)
      else c # collapse_breaks cs)"
  by pat_completeness auto
termination
  by (relation "measure length") (auto simp: length_dropWhile_le less_Suc_eq_le)

definition appendSessionName :: "'s storage_ops \<Rightarrow> nat \<Rightarrow> string \<Rightarrow> 's \<Rightarrow> (session_error + string) \<times> 's" where
  "appendSessionName ops now name s =
     append_kind ops now (SessionInfoEntry (Some (js_trim (collapse_breaks name)))) s"

record summary_arg =
  sum_text :: string
  sum_details :: "json option"
  sum_fromHook :: "bool option"

definition moveTo :: "'s storage_ops \<Rightarrow> nat \<Rightarrow> string option \<Rightarrow> summary_arg option \<Rightarrow> 's
    \<Rightarrow> (session_error + string option) \<times> 's" where
  "moveTo ops now entryId summary s =
     (if (case entryId of Some t \<Rightarrow> getEntry ops s t = None | None \<Rightarrow> False)
      then (Inl (Not_found (the entryId)), s)
      else case setLeafId ops now entryId s of
             (Inl x, s1) \<Rightarrow> (Inl x, s1)
           | (Inr _, s1) \<Rightarrow>
               (case summary of
                  None \<Rightarrow> (Inr None, s1)
                | Some a \<Rightarrow>
                    (let (i, s2) = createEntryId ops s1;
                         e = \<lparr>eid = i, parentId = entryId, timestamp = now,
                              kind = BranchSummaryEntry (case entryId of Some t \<Rightarrow> t | None \<Rightarrow> ''root'')
                                       (sum_text a) (sum_details a) (sum_fromHook a)\<rparr>
                     in case appendTypedEntry ops e s2 of
                          (Inl x, s3) \<Rightarrow> (Inl x, s3) | (Inr r, s3) \<Rightarrow> (Inr (Some r), s3))))"

section \<open>Forks\<close>

datatype fork_position = Before | At

definition getEntriesToFork :: "'s storage_ops \<Rightarrow> string option \<Rightarrow> fork_position option \<Rightarrow> 's
    \<Rightarrow> (session_error + entry list) option" where
  "getEntriesToFork ops entryId position s =
     (case entryId of
        None \<Rightarrow> Some (Inr (getEntries ops s))
      | Some t \<Rightarrow>
          if t = [] then Some (Inr (getEntries ops s))
          else (case getEntry ops s t of
                  None \<Rightarrow> Some (Inl (Invalid_fork_target t))
                | Some target \<Rightarrow>
                    if (case position of Some p \<Rightarrow> p | None \<Rightarrow> Before) = At
                    then getPathToRoot ops s (Some (eid target))
                    else (case kind target of
                            MessageEntry (UserMessage _) \<Rightarrow> getPathToRoot ops s (parentId target)
                          | _ \<Rightarrow> Some (Inl (Invalid_fork_target t)))))"

text \<open>\<open>InMemorySessionRepo\<close>: the sessions by identifier, with their creation times.
  \<open>newId\<close> is the identifier \<open>createSessionId\<close> returns.\<close>

type_synonym repo = "(string, nat \<times> memory_storage) jsmap"

definition repo_create :: "string option \<Rightarrow> string \<Rightarrow> nat \<Rightarrow> nat \<Rightarrow> repo \<Rightarrow> string \<times> repo" where
  "repo_create optId newId now n r =
     (let i = (case optId of Some x \<Rightarrow> x | None \<Rightarrow> newId)
      in (i, js_set i (now, \<lparr>entries = [], byId = [], labelsById = [], leafId = None, uuids = n\<rparr>) r))"

definition repo_open :: "string \<Rightarrow> repo \<Rightarrow> session_error + memory_storage" where
  "repo_open i r = (case js_get r i of None \<Rightarrow> Inl (Not_found i) | Some (_, s) \<Rightarrow> Inr s)"

definition repo_list :: "repo \<Rightarrow> (string \<times> nat) list" where
  "repo_list r = map (\<lambda>(i, t, _). (i, t)) r"

definition repo_delete :: "string \<Rightarrow> repo \<Rightarrow> repo" where
  "repo_delete i r = js_delete i r"

definition repo_fork :: "(nat \<Rightarrow> string) \<Rightarrow> string \<Rightarrow> string option \<Rightarrow> fork_position option \<Rightarrow> string option \<Rightarrow> string
    \<Rightarrow> nat \<Rightarrow> repo \<Rightarrow> (session_error + string \<times> repo) option" where
  "repo_fork uuid sourceId entryId position optId newId now r =
     (case repo_open sourceId r of
        Inl x \<Rightarrow> Some (Inl x)
      | Inr source \<Rightarrow>
          (case getEntriesToFork (memory_ops uuid) entryId position source of
             None \<Rightarrow> None
           | Some (Inl x) \<Rightarrow> Some (Inl x)
           | Some (Inr es) \<Rightarrow>
               (case new_memory es (uuids source) of
                  Inl x \<Rightarrow> Some (Inl x)
                | Inr s \<Rightarrow>
                    (let i = (case optId of Some x \<Rightarrow> x | None \<Rightarrow> newId)
                     in Some (Inr (i, js_set i (now, s) r))))))"

section \<open>The current branch\<close>

definition current :: "entry list \<Rightarrow> entry list" where
  "current es = (case leaf_after es of None \<Rightarrow> [] | Some l \<Rightarrow> branch es l)"

lemma path_to_root_current:
  "wf_log es \<Longrightarrow> path_to_root (index_entries es) (leaf_after es) = Some (Inr (current es))"
proof -
  assume w: "wf_log es"
  show ?thesis
  proof (cases "leaf_after es")
    case None
    then show ?thesis by (simp add: current_def path_to_root_def)
  next
    case (Some l)
    with path_to_root_branch [OF w leaf_after_known [OF w Some]] show ?thesis by (simp add: current_def)
  qed
qed

lemma branch_old: "wf_log (es @ xs) \<Longrightarrow> i \<in> ids es \<Longrightarrow> branch (es @ xs) i = branch es i"
proof (induction xs rule: rev_induct)
  case (snoc x xs)
  then have "wf_log ((es @ xs) @ [x])" by simp
  then have w: "wf_log (es @ xs)" and "eid x \<notin> ids (es @ xs)" by (simp_all add: wf_log_snoc del: append_assoc)
  with snoc.prems have "eid x \<noteq> i" by auto
  with snoc.IH [OF w snoc.prems(2)] show ?case
    using branch_snoc [of "es @ xs" x i] by simp
qed simp

lemma current_append:
  assumes "wf_log (es @ [e])" and "parentId e = leaf_after es" and "\<forall>t. kind e \<noteq> LeafEntry t"
  shows "current (es @ [e]) = current es @ [e]"
proof -
  have "leaf_after (es @ [e]) = Some (eid e)"
    using assms(3) by (auto simp: leaf_after_snoc leafIdAfterEntry_def split: entry_kind.splits)
  then show ?thesis
    using assms(2) by (simp add: current_def branch_snoc split: option.splits)
qed

lemma current_leaf:
  assumes "wf_log (es @ [e])" and "kind e = LeafEntry target"
  shows "current (es @ [e]) = (case target of None \<Rightarrow> [] | Some t \<Rightarrow> branch es t)"
proof -
  have "leaf_after (es @ [e]) = target" using assms(2) by (simp add: leaf_after_snoc leafIdAfterEntry_def)
  moreover have "branch (es @ [e]) t = branch es t" if "target = Some t" for t
    using assms that by (intro branch_old) (auto simp: wf_log_snoc)
  ultimately show ?thesis by (simp add: current_def split: option.splits)
qed

section \<open>The operations over any storage\<close>

datatype session_op =
  Append_message nat agent_message
| Append_thinking nat string
| Append_model nat string string
| Append_tools nat "string list"
| Append_compaction nat string string nat "json option" "bool option"
| Append_custom nat string "json option"
| Append_custom_message nat string json bool "json option"
| Append_label nat string "string option"
| Append_name nat string
| Move_to nat "string option" "summary_arg option"

fun session_step :: "'s storage_ops \<Rightarrow> session_op \<Rightarrow> 's \<Rightarrow> 's" where
  "session_step ops (Append_message now m) s = snd (appendMessage ops now m s)"
| "session_step ops (Append_thinking now l) s = snd (appendThinkingLevelChange ops now l s)"
| "session_step ops (Append_model now p m) s = snd (appendModelChange ops now p m s)"
| "session_step ops (Append_tools now ns) s = snd (appendActiveToolsChange ops now ns s)"
| "session_step ops (Append_compaction now su fk tb d fh) s = snd (appendCompaction ops now su fk tb d fh s)"
| "session_step ops (Append_custom now ct d) s = snd (appendCustomEntry ops now ct d s)"
| "session_step ops (Append_custom_message now ct c di d) s = snd (appendCustomMessageEntry ops now ct c di d s)"
| "session_step ops (Append_label now t l) s = snd (appendLabel ops now t l s)"
| "session_step ops (Append_name now n) s = snd (appendSessionName ops now n s)"
| "session_step ops (Move_to now t su) s = snd (moveTo ops now t su s)"

definition session_run :: "'s storage_ops \<Rightarrow> session_op list \<Rightarrow> 's \<Rightarrow> 's" where
  "session_run ops os s = fold (session_step ops) os s"

lemmas append_defs = appendMessage_def appendThinkingLevelChange_def appendModelChange_def
  appendActiveToolsChange_def appendCompaction_def appendCustomEntry_def appendCustomMessageEntry_def
  appendLabel_def appendSessionName_def

context session_storage
begin

lemma getBranch_current: "inv s \<Longrightarrow> getBranch ops None s = Some (Inr (current (log s)))"
  by (simp add: getBranch_def getLeafId getPathToRoot path_to_root_current log_wf)

lemma getBranch_from:
  "inv s \<Longrightarrow> getBranch ops (Some f) s =
     (if f \<in> ids (log s) then Some (Inr (branch (log s) f)) else Some (Inl (Not_found f)))"
  using js_get_index_None [of "log s" f]
  by (auto simp: getBranch_def getPathToRoot path_to_root_branch log_wf) (simp add: path_to_root_def)

text \<open>An append adds one entry under the current leaf, or fails and adds nothing.\<close>

lemma append_kind_log:
  assumes inv: "inv s" and b: "101 \<le> budget s" and k: "\<forall>t. k \<noteq> LeafEntry t" and r: "append_kind ops now k s = (r, s')"
  shows "inv s' \<and> budget s \<le> budget s' + 101 \<and>
    ((\<exists>e. r = Inr (eid e) \<and> log s' = log s @ [e] \<and> addable e (log s) \<and> kind e = k \<and> timestamp e = now \<and>
          parentId e = leaf_after (log s)) \<or>
     (\<exists>x. r = Inl x) \<and> log s' = log s)"
proof -
  obtain i s1 where c: "createEntryId ops s = (i, s1)" by fastforce
  from createEntryId [OF inv b c] have 1: "inv s1" "log s1 = log s" "i \<noteq> []" "i \<notin> ids (log s)" "known s1 i"
    "budget s \<le> budget s1 + 101" by auto
  let ?e = "\<lparr>eid = i, parentId = leaf_after (log s), timestamp = now, kind = k\<rparr>"
  have a: "addable ?e (log s1)"
    using 1 k leaf_after_known [OF log_wf [OF inv]] by (auto simp: addable_def)
  obtain r1 s2 where ap: "appendEntry ops ?e s1 = (r1, s2)" by fastforce
  have "known s1 (eid ?e)" using 1(5) by simp
  from appendEntry [OF 1(1) this a ap] r c ap 1 a show ?thesis
    by (auto simp: append_kind_def appendTypedEntry_def getLeafId split: sum.splits)
qed

lemma append_kind_current:
  assumes "inv s" "101 \<le> budget s" "\<forall>t. k \<noteq> LeafEntry t" "append_kind ops now k s = (Inr i, s')"
  shows "\<exists>e. current (log s') = current (log s) @ [e] \<and> kind e = k \<and> eid e = i \<and> timestamp e = now \<and> eid e \<notin> ids (log s)"
proof -
  obtain e where "log s' = log s @ [e]" "kind e = k" "eid e = i" "timestamp e = now" "parentId e = leaf_after (log s)" "inv s'"
    "addable e (log s)"
    using append_kind_log [OF assms] by auto
  then show ?thesis
    using current_append [of "log s" e] assms(3) log_wf [of s'] by (auto simp: addable_def)
qed

text \<open>Moving to an entry makes its path the branch, followed by the summary if one is given.\<close>

lemma moveTo_log:
  assumes inv: "inv s" and b: "202 \<le> budget s" and r: "moveTo ops now target su s = (r, s')"
  shows "inv s' \<and> budget s \<le> budget s' + 202 \<and> (\<exists>es. log s' = log s @ es) \<and>
    (\<forall>i. r = Inr i \<longrightarrow> (\<forall>t. target = Some t \<longrightarrow> t \<in> ids (log s)) \<and>
       (case su of
          None \<Rightarrow> current (log s') = (case target of None \<Rightarrow> [] | Some t \<Rightarrow> branch (log s) t)
        | Some a \<Rightarrow> \<exists>e. current (log s') = (case target of None \<Rightarrow> [] | Some t \<Rightarrow> branch (log s) t) @ [e] \<and>
            kind e = BranchSummaryEntry (case target of Some t \<Rightarrow> t | None \<Rightarrow> ''root'') (sum_text a) (sum_details a) (sum_fromHook a)))"
proof (cases "\<forall>t. target = Some t \<longrightarrow> t \<in> ids (log s)")
  case False
  then obtain t where "target = Some t" "t \<notin> ids (log s)" by auto
  with r show ?thesis using inv js_get_index_None [of "log s" t] by (auto simp: moveTo_def getEntry)
next
  case True
  have known: "\<not> (case target of Some t \<Rightarrow> getEntry ops s t = None | None \<Rightarrow> False)"
    using True js_get_index_None by (auto simp: getEntry [OF inv] split: option.splits)
  obtain r1 s1 where sl: "setLeafId ops now target s = (r1, s1)" by fastforce
  have "101 \<le> budget s" using b by simp
  from setLeafId [OF inv this True sl] have s1: "inv s1" "budget s \<le> budget s1 + 101"
    and c: "(\<exists>e. r1 = Inr () \<and> log s1 = log s @ [e] \<and> addable e (log s) \<and> kind e = LeafEntry target) \<or> (\<exists>x. r1 = Inl x) \<and> log s1 = log s"
    by auto
  from c show ?thesis
  proof
    assume "(\<exists>x. r1 = Inl x) \<and> log s1 = log s"
    then show ?thesis using r sl known s1 by (auto simp: moveTo_def split: option.splits)
  next
    assume "\<exists>e. r1 = Inr () \<and> log s1 = log s @ [e] \<and> addable e (log s) \<and> kind e = LeafEntry target"
    then obtain l where l: "r1 = Inr ()" "log s1 = log s @ [l]" "kind l = LeafEntry target" by blast
    have w: "wf_log (log s @ [l])" using log_wf [OF s1(1)] l(2) by simp
    have cur: "current (log s1) = (case target of None \<Rightarrow> [] | Some t \<Rightarrow> branch (log s) t)"
      unfolding l(2) by (rule current_leaf [OF w l(3)])
    have leaf: "leaf_after (log s1) = target" unfolding l(2) by (simp add: leaf_after_snoc leafIdAfterEntry_def l(3))
    show ?thesis
    proof (cases su)
      case None
      then have "r = Inr None" "s' = s1" using r sl known l(1) by (simp_all add: moveTo_def)
      then show ?thesis using None s1 l(2) cur True by simp
    next
      case (Some a)
      obtain i s2 where ce: "createEntryId ops s1 = (i, s2)" by fastforce
      have "101 \<le> budget s1" using b s1(2) by simp
      from createEntryId [OF s1(1) this ce] have 2: "inv s2" "log s2 = log s1" "i \<noteq> []" "i \<notin> ids (log s1)" "known s2 i"
        "budget s1 \<le> budget s2 + 101" by auto
      let ?e = "\<lparr>eid = i, parentId = target, timestamp = now,
          kind = BranchSummaryEntry (case target of Some t \<Rightarrow> t | None \<Rightarrow> ''root'') (sum_text a) (sum_details a) (sum_fromHook a)\<rparr>"
      have ad: "addable ?e (log s2)" using 2 True l(2) by (auto simp: addable_def)
      obtain r2 s3 where ap: "appendEntry ops ?e s2 = (r2, s3)" by fastforce
      have "known s2 (eid ?e)" using 2(5) by simp
      from appendEntry [OF 2(1) this ad ap] have 3: "inv s3" "budget s3 = budget s2"
        and c3: "r2 = Inr () \<and> log s3 = log s2 @ [?e] \<or> (\<exists>x. r2 = Inl x) \<and> log s3 = log s2" by auto
      have rs: "r = (case r2 of Inl x \<Rightarrow> Inl x | Inr _ \<Rightarrow> Inr (Some i))" "s' = s3"
        using r sl known l(1) Some ce ap
        by (auto simp: moveTo_def appendTypedEntry_def Let_def split: sum.splits option.splits)
      have "current (log s2 @ [?e]) = current (log s1) @ [?e]" if "log s3 = log s2 @ [?e]"
        using current_append [of "log s2" ?e] log_wf [OF 3(1)] that leaf 2(2) by simp
      then show ?thesis
        using rs 3 c3 s1 2 l(2) cur Some True by (auto split: option.splits)
    qed
  qed
qed
end

context session_storage
begin

definition grows :: "'s \<Rightarrow> 's \<Rightarrow> bool" where
  "grows s s' \<longleftrightarrow> inv s' \<and> budget s \<le> budget s' + 202 \<and> (\<exists>es. log s' = log s @ es)"

lemma append_kind_grows:
  assumes "inv s" "202 \<le> budget s" "\<forall>t. k \<noteq> LeafEntry t"
  shows "grows s (snd (append_kind ops now k s))"
proof -
  obtain r s' where r: "append_kind ops now k s = (r, s')" by fastforce
  have "101 \<le> budget s" using assms(2) by simp
  from append_kind_log [OF assms(1) this assms(3) r] r show ?thesis by (auto simp: grows_def)
qed

lemma session_step_grows:
  assumes "inv s" "202 \<le> budget s"
  shows "grows s (session_step ops op s)"
proof (cases op)
  case (Append_label now t l)
  then show ?thesis
    using assms append_kind_grows [OF assms, of "LabelEntry t l" now] by (auto simp: append_defs grows_def)
next
  case (Move_to now t su)
  obtain r s' where "moveTo ops now t su s = (r, s')" by fastforce
  with moveTo_log [OF assms this] Move_to show ?thesis by (auto simp: grows_def)
qed (auto simp: append_defs intro!: append_kind_grows [OF assms])

lemma session_run_grows:
  "inv s \<Longrightarrow> 202 * length os \<le> budget s \<Longrightarrow> inv (session_run ops os s) \<and> (\<exists>es. log (session_run ops os s) = log s @ es)"
proof (induction os arbitrary: s)
  case (Cons op os)
  have g: "grows s (session_step ops op s)" using session_step_grows [of s op] Cons.prems by simp
  moreover have "202 * length os \<le> budget (session_step ops op s)" using g Cons.prems by (simp add: grows_def)
  ultimately have "inv (session_run ops os (session_step ops op s)) \<and>
      (\<exists>es. log (session_run ops os (session_step ops op s)) = log (session_step ops op s) @ es)"
    by (intro Cons.IH) (simp_all add: grows_def)
  with g show ?case by (auto simp: session_run_def grows_def)
qed (simp add: session_run_def)

lemma session_run_budget:
  "inv s \<Longrightarrow> 202 * length os \<le> budget s \<Longrightarrow> budget s \<le> budget (session_run ops os s) + 202 * length os"
proof (induction os arbitrary: s)
  case (Cons op os)
  have g: "grows s (session_step ops op s)" using session_step_grows [of s op] Cons.prems by simp
  then have "202 * length os \<le> budget (session_step ops op s)" "inv (session_step ops op s)"
    using Cons.prems by (simp_all add: grows_def)
  from Cons.IH [OF this(2,1)] g show ?case by (simp add: session_run_def grows_def)
qed (simp add: session_run_def)

lemma session_run_append: "session_run ops (os @ os') s = session_run ops os' (session_run ops os s)"
  by (simp add: session_run_def)

lemma session_run_split:
  assumes "inv s" "202 * length (os @ os') \<le> budget s"
  shows "\<exists>es es'. log (session_run ops os s) = log s @ es \<and> inv (session_run ops os s) \<and>
    log (session_run ops (os @ os') s) = log (session_run ops os s) @ es' \<and> inv (session_run ops (os @ os') s)"
proof -
  have 1: "202 * length os \<le> budget s" using assms(2) by simp
  note g = session_run_grows [OF assms(1) 1]
  have "202 * length os' \<le> budget (session_run ops os s)"
    using session_run_budget [OF assms(1) 1] assms(2) by simp
  from session_run_grows [OF conjunct1 [OF g] this] g show ?thesis
    by (auto simp: session_run_append)
qed

text \<open>The branch of any state is a gapless path from a root to the active leaf.\<close>

lemma branch_shape:
  assumes "inv s"
  shows "\<exists>b l. getBranch ops None s = Some (Inr b) \<and> getLeafId ops s = Inr l \<and> chained None b \<and>
     distinct (map eid b) \<and> set b \<subseteq> set (log s) \<and> (if b = [] then l = None else l = Some (eid (last b)))"
proof (cases "leaf_after (log s)")
  case None
  then show ?thesis using assms by (simp add: getBranch_current getLeafId current_def)
next
  case (Some l)
  have "l \<in> ids (log s)" by (rule leaf_after_known [OF log_wf [OF assms] Some])
  from branch_chain [OF log_wf [OF assms] this] Some assms show ?thesis
    by (simp add: getBranch_current getLeafId current_def)
qed

lemma branch_stable:
  assumes "inv s" "202 * length os \<le> budget s" "f \<in> ids (log s)"
  shows "getBranch ops (Some f) (session_run ops os s) = getBranch ops (Some f) s"
proof -
  obtain es where es: "inv (session_run ops os s)" "log (session_run ops os s) = log s @ es"
    using session_run_grows [OF assms(1,2)] by blast
  have "branch (log s @ es) f = branch (log s) f"
    using branch_old [of "log s" es f] log_wf [OF es(1)] es(2) assms(3) by simp
  with es assms show ?thesis by (auto simp: getBranch_from)
qed

end

section \<open>Contexts\<close>

lemma scan_compaction:
  "sc_compaction (foldl scan_entry c es) =
     (let xs = filter (\<lambda>e. is_compaction (kind e)) es in if xs = [] then sc_compaction c else Some (last xs))"
proof (induction es arbitrary: c)
  case (Cons e es)
  have "sc_compaction (scan_entry c e) = (if is_compaction (kind e) then Some e else sc_compaction c)"
    by (auto simp: scan_entry_def split: entry_kind.splits agent_message.splits)
  with Cons show ?case by (auto simp: Let_def)
qed simp

lemma kept_found: "kept_messages k True es = concat (map entry_message es)"
  by (induction es) (auto simp: Let_def)

lemma kept_split: "k \<notin> eid ` set b1 \<Longrightarrow> eid e = k \<Longrightarrow>
   kept_messages k False (b1 @ e # b2) = concat (map entry_message (e # b2))"
  by (induction b1) (auto simp: Let_def kept_found)

lemma kept_none: "k \<notin> eid ` set b \<Longrightarrow> kept_messages k False b = []"
  by (induction b) (auto simp: Let_def)

text \<open>The messages of a branch whose last compaction is \<open>c\<close>.\<close>

lemma compacted_messages:
  assumes d: "distinct (map eid (pre @ c # post))" and c: "kind c = CompactionEntry su fk tb de fh"
    and post: "\<forall>e \<in> set post. \<not> is_compaction (kind e)"
  shows "messages (buildSessionContext (pre @ c # post)) =
    CompactionSummaryMessage su tb (timestamp c) # kept_messages fk False pre @ concat (map entry_message post)"
proof -
  have "filter (\<lambda>e. is_compaction (kind e)) (pre @ c # post) = filter (\<lambda>e. is_compaction (kind e)) pre @ [c]"
    using c post by simp
  then have s: "sc_compaction (foldl scan_entry x (pre @ c # post)) = Some c" for x
    by (simp only: scan_compaction Let_def) simp
  have "find_index (\<lambda>e. is_compaction (kind e) \<and> eid e = eid c) (pre @ c # post) = Some (length pre)"
  proof (intro find_index_append_first)
    show "\<forall>x \<in> set pre. \<not> (is_compaction (kind x) \<and> eid x = eid c)" using d by (auto simp: image_iff)
  qed (simp add: c)
  then show ?thesis
    using s c by (simp add: buildSessionContext_def Let_def del: foldl_append foldl_Cons)
qed



section \<open>Sessions kept in a file\<close>

definition jsonl_session where
  "jsonl_session encode_header encode uuid h oks os =
     session_run (jsonl_ops encode uuid) os (jsonl_create encode_header 0 oks h)"

lemma jsonl_create_inv: "uuid_source uuid N \<Longrightarrow> (c \<Longrightarrow> nothing_partial oks) \<Longrightarrow> uuid_source uuid N \<and> jsonl_inv c eh enc uuid (jsonl_create eh 0 oks h)"
  by (simp add: jsonl_inv_def storage_inv_def jsonl_create_def file_text_def)

lemma jsonl_session_inv:
  assumes "uuid_source uuid N" "202 * length os \<le> N" "c \<Longrightarrow> nothing_partial oks"
  shows "uuid_source uuid N \<and> jsonl_inv c eh enc uuid (jsonl_session eh enc uuid h oks os)"
  using jsonl.session_run_grows [OF jsonl_create_inv [OF assms(1), of c oks eh enc h], of os] assms(2,3)
  by (simp add: jsonl_session_def) (simp add: jsonl_create_def)

lemma jsonl_session_any:
  assumes "uuid_source uuid N" "202 * length os \<le> N"
  shows "uuid_source uuid N \<and> jsonl_inv False eh enc uuid (jsonl_session eh enc uuid h oks os)"
  by (rule jsonl_session_inv [OF assms]) simp

lemma jsonl_session_header:
  "header (session_run (jsonl_ops enc uuid) os s) = header s"
proof (induction os arbitrary: s)
  case (Cons op os)
  have l: "header (snd (append_line l s)) = header s" for l s
    by (auto simp: append_line_def split: list.splits append_outcome.splits)
  have a: "header (snd (jsonl_appendEntry enc e s)) = header s" for e s
    using l [of "enc e" s] by (auto simp: jsonl_appendEntry_def Let_def split: prod.splits)
  have c: "header (snd (storage_createEntryId uuid s)) = header s" for s :: jsonl_storage
    by (auto simp: storage_createEntryId_def split: prod.splits)
  have sl: "header (snd (jsonl_setLeafId enc uuid now t s)) = header s" for now t s
    using l [of _ "s\<lparr>uuids := _\<rparr>"] by (auto simp: jsonl_setLeafId_def Let_def split: prod.splits) (metis jsonl_storage.select_convs(1) snd_conv jsonl_storage.simps)+
  have ap: "header (snd (append_kind (jsonl_ops enc uuid) now k s)) = header s" for now k s
    using a c by (auto simp: append_kind_def appendTypedEntry_def jsonl_ops_def split: prod.splits sum.splits) (metis snd_conv)+
  have mv: "header (snd (moveTo (jsonl_ops enc uuid) now t su s)) = header s" for now t su s
    using a c sl by (auto simp: moveTo_def appendTypedEntry_def jsonl_ops_def Let_def split: prod.splits sum.splits option.splits) (metis snd_conv)+
  have "header (session_step (jsonl_ops enc uuid) op s) = header s"
    by (cases op) (simp_all add: append_defs ap mv)
  with Cons show ?case by (simp add: session_run_def)
qed (simp add: session_run_def)

text \<open>C39: Whatever a session kept in a JSONL file goes through (appends, labels, moves between
  branches, with any of the file appends failing), asking for the current branch always
  returns, with the entries from a root down to the active leaf: each entry's parent is the
  one before it, no entry appears twice, and all of them are in the log.\<close>

theorem session_branch_is_path:
  assumes "uuid_source uuid N" and "202 * length os \<le> N"
  shows "let s = jsonl_session encode_header encode uuid h oks os; ops = jsonl_ops encode uuid in
     \<exists>b l. getBranch ops None s = Some (Inr b) \<and> getLeafId ops s = Inr l \<and> chained None b \<and>
       distinct (map eid b) \<and> set b \<subseteq> set (getEntries ops s) \<and>
       (if b = [] then l = None else l = Some (eid (last b)))"
  using jsonl.branch_shape [OF jsonl_session_any [OF assms]] by (simp add: Let_def jsonl.getEntries)


definition wide_uuid :: "nat \<Rightarrow> string" where
  "wide_uuid n = replicate 34 (CHR ''0'') @ [char_of (n div 256 mod 256), char_of (n mod 256)]"

lemma wide_uuid_source: "uuid_source wide_uuid 65536"
proof -
  have "a = b" if a: "a < 65536" and b: "b < 65536" and e: "wide_uuid a = wide_uuid b" for a b
  proof -
    have "of_char (char_of (a mod 256) :: char) = (of_char (char_of (b mod 256) :: char) :: nat)"
      "of_char (char_of (a div 256 mod 256) :: char) = (of_char (char_of (b div 256 mod 256) :: char) :: nat)"
      using e by (simp_all add: wide_uuid_def)
    then have "a mod 256 = b mod 256" "a div 256 mod 256 = b div 256 mod 256" by simp_all
    moreover have "a div 256 < 256" "b div 256 < 256" using a b by auto
    ultimately have "a div 256 = b div 256" by simp
    with \<open>a mod 256 = b mod 256\<close> show ?thesis by (metis div_mult_mod_eq)
  qed
  then show ?thesis unfolding uuid_source_def inj_on_def by (simp add: wide_uuid_def)
qed

theorem session_branch_is_path_witness:
  "\<exists>b l. getBranch (jsonl_ops (\<lambda>e. eid e) wide_uuid) None
      (jsonl_session (\<lambda>h. hid h) (\<lambda>e. eid e) wide_uuid \<lparr>hid = ''s'', htimestamp = ''t'', hcwd = ''c'', parentSession = None\<rparr> []
        [Append_message 1 (UserMessage ''hi''), Move_to 2 None None]) = Some (Inr b) \<and> chained l b"
  using session_branch_is_path [OF wide_uuid_source, of "[Append_message 1 (UserMessage ''hi''), Move_to 2 None None]"
      "\<lambda>h. hid h" "\<lambda>e. eid e" "\<lparr>hid = ''s'', htimestamp = ''t'', hcwd = ''c'', parentSession = None\<rparr>" "[]"]
  by (auto simp: Let_def)

text \<open>C17: A session is never lost or changed by writing it to its file: after any run, with any of the appends failing as
  long as the failed ones wrote nothing at all, opening the file gives back the same entries, index, labels, active
  leaf and header, given that the JSON codec restores the entries and the header that were written, each from a line
  of its own.\<close>

theorem session_reopen:
  assumes "uuid_source uuid N" and "202 * length os \<le> N" and "nothing_partial oks"
    and "s = jsonl_session encode_header encode uuid h oks os"
    and "header_codec parse encode_header h" and "\<forall>e \<in> set (entries s). entry_codec parse cast encode e"
  shows "jsonl_open parse cast n oks' (session_file s) = Inr (s\<lparr>uuids := n, append_ok := oks'\<rparr>)"
proof -
  have "header s = h"
    using jsonl_session_header [of encode uuid os] assms(4) by (simp add: jsonl_session_def jsonl_create_def)
  with jsonl_reopen [of encode_header encode uuid s parse cast n oks'] jsonl_session_inv [OF assms(1,2), of True oks] assms(3-6)
  show ?thesis by simp
qed

definition demo_header :: session_header where
  "demo_header = \<lparr>hid = ''s'', htimestamp = ''t'', hcwd = ''c'', parentSession = None\<rparr>"

definition demo_parse :: "string \<Rightarrow> json_value option" where
  "demo_parse l = (if l = ''H'' then Some (JObj [(''type'', JStr ''session''), (''version'', JNum 3), (''id'', JStr ''s''),
       (''timestamp'', JStr ''t''), (''cwd'', JStr ''c'')])
     else Some (JObj [(''type'', JStr ''message''), (''id'', JStr (replicate 8 (CHR ''0''))), (''parentId'', JNull), (''timestamp'', JStr ''1'')]))"

definition demo_entry :: entry where
  "demo_entry = \<lparr>eid = replicate 8 (CHR ''0''), parentId = None, timestamp = 2, kind = MessageEntry (UserMessage ''hi'')\<rparr>"

lemma demo_run:
  "jsonl_session (\<lambda>h. ''H'') (\<lambda>e. ''E'') wide_uuid demo_header [] [Append_message 2 (UserMessage ''hi'')] =
     \<lparr>entries = [demo_entry], byId = [(replicate 8 (CHR ''0''), demo_entry)], labelsById = [], leafId = Some (replicate 8 (CHR ''0'')),
      uuids = 1, header = demo_header, session_file = ''H'' @ nl # ''E'' @ [nl], append_ok = []\<rparr>"
proof -
  have g: "generateEntryId wide_uuid ([] :: (string, entry) jsmap) 0 = (replicate 8 (CHR ''0''), 1)"
    using generate_first [of wide_uuid 0 "[] :: (string, entry) jsmap"] by (simp add: wide_uuid_def)
  show ?thesis
    by (simp add: jsonl_session_def session_run_def appendMessage_def append_kind_def jsonl_ops_def storage_createEntryId_def
        jsonl_create_def g appendTypedEntry_def jsonl_appendEntry_def append_line_def storage_getLeafId_def
        updateLabelCache_def leafIdAfterEntry_def js_set_def demo_entry_def Let_def)
qed

theorem session_reopen_witness:
  "jsonl_open demo_parse (\<lambda>_. demo_entry) 5 [] (''H'' @ nl # ''E'' @ [nl]) =
     Inr (jsonl_session (\<lambda>h. ''H'') (\<lambda>e. ''E'') wide_uuid demo_header [] [Append_message 2 (UserMessage ''hi'')] \<lparr>uuids := 5\<rparr>)"
proof -
  let ?s = "jsonl_session (\<lambda>h. ''H'') (\<lambda>e. ''E'') wide_uuid demo_header [] [Append_message 2 (UserMessage ''hi'')]"
  have h: "header_codec demo_parse (\<lambda>h. ''H'') demo_header"
    by (simp add: header_codec_def demo_parse_def demo_header_def js_trim_def is_space_def)
  have e: "\<forall>e \<in> set (entries ?s). entry_codec demo_parse (\<lambda>_. demo_entry) (\<lambda>e. ''E'') e"
    by (simp add: demo_run entry_codec_def demo_parse_def json_opt_def js_trim_def is_space_def) (simp add: demo_entry_def)
  have "jsonl_open demo_parse (\<lambda>_. demo_entry) 5 [] (session_file ?s) = Inr (?s\<lparr>uuids := 5, append_ok := []\<rparr>)"
    by (rule session_reopen [OF wide_uuid_source _ _ refl h e]) (simp_all add: nothing_partial_def)
  then show ?thesis by (simp add: demo_run)
qed

text \<open>The condition on failing appends is needed: when one leaves part of a line behind, the file can no longer be
  opened, and the next message is written behind the rest of that line.\<close>

definition strict_parse :: "string \<Rightarrow> json_value option" where
  "strict_parse l = (if l = ''H'' \<or> l = ''EE'' then demo_parse l else None)"

theorem partial_line_blocks_reopen:
  "jsonl_open strict_parse (\<lambda>_. demo_entry) 5 []
     (session_file (jsonl_session (\<lambda>h. ''H'') (\<lambda>e. ''EE'') wide_uuid demo_header [Append_failed 1]
        [Append_message 1 (UserMessage ''lost''), Append_message 2 (UserMessage ''hi'')]))
   = Inl (Invalid_entry 2 ''is not valid JSON'')"
proof -
  have g: "generateEntryId wide_uuid ([] :: (string, entry) jsmap) n = (take 8 (wide_uuid n), Suc n)" for n
    by (simp add: generate_first)
  have f: "session_file (jsonl_session (\<lambda>h. ''H'') (\<lambda>e. ''EE'') wide_uuid demo_header [Append_failed 1]
        [Append_message 1 (UserMessage ''lost''), Append_message 2 (UserMessage ''hi'')]) = ''H'' @ nl # ''EEE'' @ [nl]"
    by (simp add: jsonl_session_def session_run_def appendMessage_def append_kind_def jsonl_ops_def storage_createEntryId_def
        jsonl_create_def g appendTypedEntry_def jsonl_appendEntry_def append_line_def storage_getLeafId_def Let_def)
  show ?thesis
    unfolding f
    by (simp add: jsonl_open_def loadJsonlStorage_def js_trim_def is_space_def strict_parse_def demo_parse_def parseHeaderLine_def
        parseEntryLine_def isRecord_def field_def string_field_def)
qed

text \<open>C32: History is immutable: the path to an entry that exists stays the same whatever the
  session does afterwards, moves to other branches and failing writes included.\<close>

theorem session_history_immutable:
  assumes "uuid_source uuid N" and "202 * (length os + length os') \<le> N"
    and "f \<in> ids (entries (jsonl_session encode_header encode uuid h oks os))"
  shows "getBranch (jsonl_ops encode uuid) (Some f) (jsonl_session encode_header encode uuid h oks (os @ os')) =
         getBranch (jsonl_ops encode uuid) (Some f) (jsonl_session encode_header encode uuid h oks os)"
proof -
  let ?c = "jsonl_create encode_header 0 oks h" and ?ops = "jsonl_ops encode uuid"
  have c: "uuid_source uuid N \<and> jsonl_inv False encode_header encode uuid ?c" by (rule jsonl_create_inv [OF assms(1)]) simp
  have b: "202 * length (os @ os') \<le> N - uuids ?c" using assms(2) by (simp add: jsonl_create_def)
  obtain es es' where 1: "entries (session_run ?ops os ?c) = entries ?c @ es"
      "uuid_source uuid N \<and> jsonl_inv False encode_header encode uuid (session_run ?ops os ?c)"
    and 2: "entries (session_run ?ops (os @ os') ?c) = entries (session_run ?ops os ?c) @ es'"
      "uuid_source uuid N \<and> jsonl_inv False encode_header encode uuid (session_run ?ops (os @ os') ?c)"
    using jsonl.session_run_split [OF c b] by blast
  have "branch (entries (session_run ?ops os ?c) @ es') f = branch (entries (session_run ?ops os ?c)) f"
    using branch_old jsonl.log_wf [OF 2(2)] 2(1) assms(3) by (simp add: jsonl_session_def)
  then show ?thesis
    using jsonl.getBranch_from [OF 1(2), of f] jsonl.getBranch_from [OF 2(2), of f] 2(1) assms(3)
    by (simp add: jsonl_session_def image_Un)
qed


theorem session_history_immutable_witness:
  "getBranch (jsonl_ops (\<lambda>e. ''E'') wide_uuid) (Some (replicate 8 (CHR ''0'')))
     (jsonl_session (\<lambda>h. ''H'') (\<lambda>e. ''E'') wide_uuid demo_header []
        ([Append_message 2 (UserMessage ''hi'')] @ [Move_to 3 None None, Append_message 4 (UserMessage ''ho'')])) =
   Some (Inr [demo_entry])"
proof -
  have "replicate 8 (CHR ''0'') \<in> ids (entries (jsonl_session (\<lambda>h. ''H'') (\<lambda>e. ''E'') wide_uuid demo_header []
          [Append_message 2 (UserMessage ''hi'')]))"
    by (simp add: demo_run) (simp add: demo_entry_def)
  from session_history_immutable [OF wide_uuid_source _ this, of "[Move_to 3 None None, Append_message 4 (UserMessage ''ho'')]"]
  show ?thesis
    by (simp add: demo_run getBranch_def jsonl_ops_def storage_getPathToRoot_def path_to_root_def js_get_def path_up.simps)
       (simp add: demo_entry_def)
qed


text \<open>The context of a compacted branch is the summary, then the messages of the entries
  from the first kept one up to the compaction, then those after it; when the first kept entry
  is not on the branch before the compaction, everything before it is left out.\<close>

theorem buildSessionContext_compaction:
  assumes "distinct (map eid (pre @ c # post))" and "kind c = CompactionEntry summary firstKept tokens details fromHook"
    and "\<forall>e \<in> set post. \<not> is_compaction (kind e)"
  shows "messages (buildSessionContext (pre @ c # post)) =
    CompactionSummaryMessage summary tokens (timestamp c) #
    concat (map entry_message (dropWhile (\<lambda>e. eid e \<noteq> firstKept) pre)) @ concat (map entry_message post)"
proof -
  have "kept_messages firstKept False pre = concat (map entry_message (dropWhile (\<lambda>e. eid e \<noteq> firstKept) pre))"
    by (induction pre) (auto simp: Let_def kept_found)
  with compacted_messages [OF assms] show ?thesis by simp
qed

theorem buildSessionContext_compaction_witness:
  "messages (buildSessionContext
     ([\<lparr>eid = ''a'', parentId = None, timestamp = 2, kind = MessageEntry (UserMessage ''x'')\<rparr>,
       \<lparr>eid = ''b'', parentId = Some ''a'', timestamp = 3, kind = MessageEntry (UserMessage ''y'')\<rparr>] @
      \<lparr>eid = ''c'', parentId = Some ''b'', timestamp = 4, kind = CompactionEntry ''sum'' ''b'' 7 None None\<rparr> #
      [\<lparr>eid = ''d'', parentId = Some ''c'', timestamp = 5, kind = MessageEntry (UserMessage ''z'')\<rparr>])) =
   [CompactionSummaryMessage ''sum'' 7 4, UserMessage ''y'', UserMessage ''z'']"
  by (subst buildSessionContext_compaction [where summary = "''sum''" and firstKept = "''b''" and tokens = 7 and details = None and fromHook = None])
     (simp_all add: entry_message_def)

section \<open>Forked sessions\<close>

lemma path_up_chain:
  assumes "chained None es" "es \<noteq> []" "\<forall>e \<in> set es. js_get m (eid e) = Some e \<and> eid e \<noteq> []"
  shows "path_up m (last es) acc = Some (Inr (es @ acc))"
  using assms
proof (induction es arbitrary: acc rule: rev_induct)
  case (snoc e es)
  show ?case
  proof (cases "es = []")
    case True
    with snoc.prems show ?thesis by (simp add: path_up.simps)
  next
    case False
    then have p: "parentId e = Some (eid (last es))" "chained None es" using snoc.prems(1) by (auto simp: chained_snoc)
    have l: "js_get m (eid (last es)) = Some (last es)" "eid (last es) \<noteq> []" using snoc.prems(3) False by auto
    have "path_up m (last es) (e # acc) = Some (Inr (es @ e # acc))"
      using snoc.IH [OF p(2) False] snoc.prems(3) by simp
    with p l show ?thesis by (simp add: path_up.simps [of m e])
  qed
qed simp

lemma js_get_index_distinct: "distinct (map eid es) \<Longrightarrow> e \<in> set es \<Longrightarrow> js_get (index_entries es) (eid e) = Some e"
proof (induction es rule: rev_induct)
  case (snoc x es)
  then show ?case by (auto simp: index_snoc image_iff)
qed simp

text \<open>A session made of a branch has that branch as its own.\<close>

lemma fork_branch:
  assumes "chained None b" "b \<noteq> []" "distinct (map eid b)" "\<forall>e \<in> set b. eid e \<noteq> []" "\<forall>t. kind (last b) \<noteq> LeafEntry t"
  shows "\<exists>s. new_memory b n = Inr s \<and> getBranch (memory_ops uuid) None s = Some (Inr b) \<and> entries s = b"
proof -
  have l: "leaf_after b = Some (eid (last b))"
    using assms(2,5) by (cases b rule: rev_cases) (auto simp: leaf_after_snoc leafIdAfterEntry_def split: entry_kind.splits)
  have g: "js_get (index_entries b) (eid (last b)) = Some (last b)"
    using js_get_index_distinct [OF assms(3), of "last b"] assms(2) by simp
  have "path_up (index_entries b) (last b) [] = Some (Inr b)"
    using path_up_chain [OF assms(1,2), of "index_entries b" "[]"] js_get_index_distinct [OF assms(3)] assms(4) by simp
  then show ?thesis
    using l g assms(2)
    by (auto simp: new_memory_def Let_def getBranch_def memory_ops_def storage_getLeafId_def storage_getPathToRoot_def path_to_root_def)
qed

definition memory_session :: "(nat \<Rightarrow> string) \<Rightarrow> session_op list \<Rightarrow> memory_storage" where
  "memory_session uuid os =
     session_run (memory_ops uuid) os \<lparr>entries = [], byId = [], labelsById = [], leafId = None, uuids = 0\<rparr>"

lemma memory_session_inv:
  assumes "uuid_source uuid N" "202 * length os \<le> N"
  shows "uuid_source uuid N \<and> storage_inv uuid (memory_session uuid os)"
proof -
  let ?s = "\<lparr>entries = [], byId = [], labelsById = [], leafId = None, uuids = 0\<rparr> :: memory_storage"
  have "uuid_source uuid N \<and> storage_inv uuid ?s" using assms(1) by (simp add: storage_inv_def)
  from memory.session_run_grows [OF this, of os] assms(2) show ?thesis by (simp add: memory_session_def)
qed

text \<open>Forking a stored session at one of its entries always succeeds and gives a session
  whose current branch is exactly the path to that entry in the source; the source and every
  other session of the repository stay as they were (for an entry that is not itself a leaf
  marker).\<close>

theorem fork_copies_branch:
  assumes "uuid_source uuid N" and "202 * length os \<le> N" and "repo_open src r = Inr (memory_session uuid os)"
    and "e \<in> set (entries (memory_session uuid os))" and "\<forall>t. kind e \<noteq> LeafEntry t"
  shows "\<exists>i r' s'. repo_fork uuid src (Some (eid e)) (Some At) optId newId now r = Some (Inr (i, r')) \<and>
     i = (case optId of Some x \<Rightarrow> x | None \<Rightarrow> newId) \<and> repo_open i r' = Inr s' \<and>
     getBranch (memory_ops uuid) None s' = getBranch (memory_ops uuid) (Some (eid e)) (memory_session uuid os) \<and>
     (\<forall>j. j \<noteq> i \<longrightarrow> js_get r' j = js_get r j)"
proof -
  let ?s = "memory_session uuid os" and ?ops = "memory_ops uuid"
  have inv: "uuid_source uuid N \<and> storage_inv uuid ?s" by (rule memory_session_inv [OF assms(1,2)])
  note w = memory.log_wf [OF inv]
  have m: "eid e \<in> ids (entries ?s)" using assms(4) by blast
  let ?b = "branch (entries ?s) (eid e)"
  have ch: "?b \<noteq> []" "eid (last ?b) = eid e" "chained None ?b" "set ?b \<subseteq> set (entries ?s)" "distinct (map eid ?b)"
    using branch_chain [OF w m] by auto
  have ne: "\<forall>x \<in> set (entries ?s). eid x \<noteq> []" using wf_log_eid [OF w] by blast
  have ge: "getEntry ?ops ?s (eid e) = Some e" using memory.getEntry [OF inv] js_get_index [OF w] assms(4) by simp
  have "last ?b \<in> set (entries ?s)" using ch(1,4) last_in_set by blast
  then have "js_get (index_entries (entries ?s)) (eid e) = Some (last ?b)" using js_get_index [OF w] ch(2) by simp
  then have "last ?b = e" using ge memory.getEntry [OF inv] by simp
  then have lk: "\<forall>t. kind (last ?b) \<noteq> LeafEntry t" using assms(5) by simp
  have neb: "\<forall>x \<in> set ?b. eid x \<noteq> []" using ne ch(4) by blast
  obtain s' where s': "new_memory ?b (uuids ?s) = Inr s'" "getBranch ?ops None s' = Some (Inr ?b)"
    using fork_branch [OF ch(3,1,5) neb lk] by blast
  have gb: "getBranch ?ops (Some (eid e)) ?s = Some (Inr ?b)" using memory.getBranch_from [OF inv, of "eid e"] m by simp
  then have "getEntriesToFork ?ops (Some (eid e)) (Some At) ?s = Some (Inr ?b)"
    using ge ne assms(4) by (simp add: getEntriesToFork_def getBranch_def)
  then show ?thesis
    using s' gb assms(3) by (simp add: repo_fork_def Let_def) (simp add: repo_open_def)
qed

theorem fork_copies_branch_witness:
  "\<exists>i r' s'. repo_fork wide_uuid ''s'' (Some (replicate 8 (CHR ''0''))) (Some At) (Some ''t'') ''n'' 5
       [(''s'', 0, memory_session wide_uuid [Append_message 2 (UserMessage ''hi'')])] = Some (Inr (i, r')) \<and>
     repo_open i r' = Inr s' \<and> getBranch (memory_ops wide_uuid) None s' = Some (Inr [demo_entry])"
proof -
  have g: "generateEntryId wide_uuid ([] :: (string, entry) jsmap) 0 = (replicate 8 (CHR ''0''), 1)"
    using generate_first [of wide_uuid 0 "[] :: (string, entry) jsmap"] by (simp add: wide_uuid_def)
  have s: "memory_session wide_uuid [Append_message 2 (UserMessage ''hi'')] =
     \<lparr>entries = [demo_entry], byId = [(replicate 8 (CHR ''0''), demo_entry)], labelsById = [],
      leafId = Some (replicate 8 (CHR ''0'')), uuids = 1\<rparr>"
    by (simp add: memory_session_def session_run_def appendMessage_def append_kind_def memory_ops_def storage_createEntryId_def
        g appendTypedEntry_def mem_appendEntry_def storage_getLeafId_def
        updateLabelCache_def leafIdAfterEntry_def js_set_def demo_entry_def Let_def)
  have e: "eid demo_entry = replicate 8 (CHR ''0'')" by (simp add: demo_entry_def)
  have gb: "getBranch (memory_ops wide_uuid) (Some (eid demo_entry)) (memory_session wide_uuid [Append_message 2 (UserMessage ''hi'')]) = Some (Inr [demo_entry])"
    by (simp add: s getBranch_def memory_ops_def storage_getPathToRoot_def path_to_root_def js_get_def path_up.simps) (simp add: demo_entry_def)
  have "repo_open ''s'' [(''s'', 0, memory_session wide_uuid [Append_message 2 (UserMessage ''hi'')])] =
      Inr (memory_session wide_uuid [Append_message 2 (UserMessage ''hi'')])"
    by (simp add: repo_open_def js_get_def)
  from fork_copies_branch [OF wide_uuid_source _ this, of demo_entry "Some ''t''" "''n''" 5] gb e show ?thesis
    by (auto simp: s) (auto simp: demo_entry_def)
qed

end
