(* ===== verification/Uuid.thy ===== *)
theory Uuid
  imports Session_Storage
begin

text \<open>
  Time-ordered identifiers (\<open>packages/agent/src/harness/session/uuid.ts\<close>). The module's
  variables \<open>lastTimestamp\<close> and \<open>sequence\<close> are a record; a call takes the clock and
  sixteen random bytes. Bytes and the 32-bit sequence are natural numbers with the masks of the
  source as \<open>div\<close> and \<open>mod\<close>; a mask that is or-ed to disjoint bits is a sum.
\<close>

record uuid_state =
  lastTimestamp :: "nat option"
  sequence :: nat

definition initial_uuid_state :: uuid_state where
  "initial_uuid_state = \<lparr>lastTimestamp = None, sequence = 0\<rparr>"

definition advance :: "nat \<Rightarrow> nat list \<Rightarrow> uuid_state \<Rightarrow> nat \<times> nat" where
  "advance now random st =
     (case lastTimestamp st of
        None \<Rightarrow> (now, random ! 6 * 16777216 + random ! 7 * 65536 + random ! 8 * 256 + random ! 9)
      | Some l \<Rightarrow>
          if l < now then (now, random ! 6 * 16777216 + random ! 7 * 65536 + random ! 8 * 256 + random ! 9)
          else (let s = (sequence st + 1) mod 4294967296 in (if s = 0 then l + 1 else l, s)))"

definition uuid_bytes :: "nat \<Rightarrow> nat \<Rightarrow> nat list \<Rightarrow> nat list" where
  "uuid_bytes l s random =
     [l div 1099511627776 mod 256, l div 4294967296 mod 256, l div 16777216 mod 256, l div 65536 mod 256,
      l div 256 mod 256, l mod 256,
      112 + s div 268435456 mod 16, s div 1048576 mod 256, 128 + s div 16384 mod 64, s div 64 mod 256,
      s mod 64 * 4 + random ! 10 mod 4,
      random ! 11, random ! 12, random ! 13, random ! 14, random ! 15]"

definition hex_digit :: "nat \<Rightarrow> char" where
  "hex_digit n = ''0123456789abcdef'' ! n"

definition hex_byte :: "nat \<Rightarrow> string" where
  "hex_byte b = [hex_digit (b div 16 mod 16), hex_digit (b mod 16)]"

definition formatUuid :: "nat list \<Rightarrow> string" where
  "formatUuid bytes =
     (let hex = map hex_byte bytes
      in concat (slice 0 4 hex) @ ''-'' @ concat (slice 4 6 hex) @ ''-'' @ concat (slice 6 8 hex) @ ''-'' @
         concat (slice 8 10 hex) @ ''-'' @ concat (slice 10 16 hex))"

definition uuidv7 :: "nat \<Rightarrow> nat list \<Rightarrow> uuid_state \<Rightarrow> string \<times> uuid_state" where
  "uuidv7 now random st =
     (let (l, s) = advance now random st
      in (formatUuid (uuid_bytes l s random), \<lparr>lastTimestamp = Some l, sequence = s\<rparr>))"

text \<open>The values of successive calls, from the clock readings and random bytes they see.\<close>

primrec state_after :: "(nat \<Rightarrow> nat \<times> nat list) \<Rightarrow> nat \<Rightarrow> uuid_state" where
  "state_after inputs 0 = initial_uuid_state"
| "state_after inputs (Suc n) = snd (uuidv7 (fst (inputs n)) (snd (inputs n)) (state_after inputs n))"

definition uuid_seq :: "(nat \<Rightarrow> nat \<times> nat list) \<Rightarrow> nat \<Rightarrow> string" where
  "uuid_seq inputs n = fst (uuidv7 (fst (inputs n)) (snd (inputs n)) (state_after inputs n))"

definition random_ok :: "nat list \<Rightarrow> bool" where
  "random_ok random \<longleftrightarrow> length random = 16 \<and> (\<forall>b \<in> set random. b < 256)"

section \<open>Identifiers determine their counters\<close>

lemma hex_digit_inject: "a < 16 \<Longrightarrow> b < 16 \<Longrightarrow> hex_digit a = hex_digit b \<longleftrightarrow> a = b"
proof -
  have "distinct ''0123456789abcdef''" by simp
  moreover assume "a < 16" "b < 16"
  ultimately show ?thesis unfolding hex_digit_def by (intro nth_eq_iff_index_eq) simp_all
qed

lemma hex_byte_inject: "a < 256 \<Longrightarrow> b < 256 \<Longrightarrow> hex_byte a = hex_byte b \<longleftrightarrow> a = b"
proof
  assume ab: "a < 256" "b < 256" and "hex_byte a = hex_byte b"
  then have "a div 16 mod 16 = b div 16 mod 16" "a mod 16 = b mod 16"
    by (simp_all add: hex_byte_def hex_digit_inject)
  moreover have "a div 16 mod 16 = a div 16" "b div 16 mod 16 = b div 16" using ab by (simp_all add: mod_less)
  ultimately show "a = b" by (metis div_mult_mod_eq)
qed simp

lemma length_hex_byte [simp]: "length (hex_byte b) = 2"
  by (simp add: hex_byte_def)

lemma length16: "length xs = 16 \<longleftrightarrow> (\<exists>a0 a1 a2 a3 a4 a5 a6 a7 a8 a9 a10 a11 a12 a13 a14 a15.
    xs = [a0, a1, a2, a3, a4, a5, a6, a7, a8, a9, a10, a11, a12, a13, a14, a15])"
  by (auto simp: numeral_eq_Suc length_Suc_conv)

lemma formatUuid_16:
  "formatUuid [a0, a1, a2, a3, a4, a5, a6, a7, a8, a9, a10, a11, a12, a13, a14, a15] =
    hex_byte a0 @ hex_byte a1 @ hex_byte a2 @ hex_byte a3 @ ''-'' @ hex_byte a4 @ hex_byte a5 @ ''-'' @
    hex_byte a6 @ hex_byte a7 @ ''-'' @ hex_byte a8 @ hex_byte a9 @ ''-'' @
    hex_byte a10 @ hex_byte a11 @ hex_byte a12 @ hex_byte a13 @ hex_byte a14 @ hex_byte a15"
  by (simp add: formatUuid_def slice_def Let_def)

lemma length_formatUuid: "length bytes = 16 \<Longrightarrow> length (formatUuid bytes) = 36"
  by (auto simp: length16 formatUuid_16)

lemma formatUuid_inject:
  assumes "length xs = 16" "length ys = 16" "\<forall>b \<in> set xs. b < 256" "\<forall>b \<in> set ys. b < 256" "formatUuid xs = formatUuid ys"
  shows "xs = ys"
  using assms by (auto simp: length16 formatUuid_16 hex_byte_inject)

lemma uuid_bytes_ok:
  assumes "random_ok random"
  shows "length (uuid_bytes l s random) = 16" "\<forall>b \<in> set (uuid_bytes l s random). b < 256"
proof -
  have "random ! i < 256" if "i < 16" for i using assms that by (simp add: random_ok_def)
  moreover have "s mod 64 * 4 + random ! 10 mod 4 < 256"
  proof -
    have "s mod 64 \<le> 63" "random ! 10 mod 4 \<le> 3" by simp_all
    then show ?thesis by linarith
  qed
  moreover have "112 + s div 268435456 mod 16 < 256" "128 + s div 16384 mod 64 < 256"
  proof -
    have "s div 268435456 mod 16 < 16" "s div 16384 mod 64 < 64" by (rule mod_less_divisor, simp)+
    then show "112 + s div 268435456 mod 16 < 256" "128 + s div 16384 mod 64 < 256" by linarith+
  qed
  moreover have "x mod 256 < 256" for x :: nat by (rule mod_less_divisor) simp
  moreover have "random ! 11 < 256" "random ! 12 < 256" "random ! 13 < 256" "random ! 14 < 256" "random ! 15 < 256"
    using calculation(1) by simp_all
  ultimately show "\<forall>b \<in> set (uuid_bytes l s random). b < 256"
    unfolding uuid_bytes_def by (simp only: list.set ball_simps simp_thms)
  show "length (uuid_bytes l s random) = 16" by (simp add: uuid_bytes_def)
qed

text \<open>Two numbers with the same last digits and the same rest are equal.\<close>

lemma digits_eq: "(a :: nat) mod k = b mod k \<Longrightarrow> a div k = b div k \<Longrightarrow> a = b"
  by (metis div_mult_mod_eq)

lemma div_digit: "(a :: nat) div m mod k = b div m mod k \<Longrightarrow> a div (m * k) = b div (m * k) \<Longrightarrow> a div m = b div m"
  by (metis digits_eq div_mult2_eq)

lemma timestamp_bytes:
  assumes "l < 281474976710656" "l' < 281474976710656"
    and "l div 1099511627776 mod 256 = l' div 1099511627776 mod 256" "l div 4294967296 mod 256 = l' div 4294967296 mod 256"
      "l div 16777216 mod 256 = l' div 16777216 mod 256" "l div 65536 mod 256 = l' div 65536 mod 256"
      "l div 256 mod 256 = l' div 256 mod 256" "l mod 256 = l' mod 256"
  shows "l = (l' :: nat)"
proof -
  have "l div 1099511627776 < 256" "l' div 1099511627776 < 256" using assms(1,2) by (simp_all add: less_mult_imp_div_less)
  then have "l div 1099511627776 = l' div 1099511627776" using assms(3) by simp
  then have "l div 4294967296 = l' div 4294967296" using div_digit [of l 4294967296 256 l'] assms(4) by simp
  then have "l div 16777216 = l' div 16777216" using div_digit [of l 16777216 256 l'] assms(5) by simp
  then have "l div 65536 = l' div 65536" using div_digit [of l 65536 256 l'] assms(6) by simp
  then have "l div 256 = l' div 256" using div_digit [of l 256 256 l'] assms(7) by simp
  with assms(8) show ?thesis by (rule digits_eq)
qed

lemma sequence_bytes:
  assumes "s < 4294967296" "s' < 4294967296"
    and "s div 268435456 mod 16 = s' div 268435456 mod 16" "s div 1048576 mod 256 = s' div 1048576 mod 256"
      "s div 16384 mod 64 = s' div 16384 mod 64" "s div 64 mod 256 = s' div 64 mod 256" "s mod 64 = s' mod 64"
  shows "s = (s' :: nat)"
proof -
  have "s div 268435456 < 16" "s' div 268435456 < 16" using assms(1,2) by (simp_all add: less_mult_imp_div_less)
  then have "s div 268435456 = s' div 268435456" using assms(3) by simp
  then have "s div 1048576 = s' div 1048576" using div_digit [of s 1048576 256 s'] assms(4) by simp
  then have "s div 16384 = s' div 16384" using div_digit [of s 16384 64 s'] assms(5) by simp
  then have "s div 64 = s' div 64" using div_digit [of s 64 256 s'] assms(6) by simp
  with assms(7) show ?thesis by (rule digits_eq)
qed

lemma uuid_bytes_inject:
  assumes "l < 281474976710656" "l' < 281474976710656" "s < 4294967296" "s' < 4294967296"
    and "uuid_bytes l s r = uuid_bytes l' s' r'"
  shows "l = l' \<and> s = s'"
proof -
  note eqs = assms(5) [unfolded uuid_bytes_def list.inject add_left_cancel]
  have d: "(a * 4 + b mod 4) div 4 = a" for a b :: nat by simp
  have m: "s mod 64 * 4 + r ! 10 mod 4 = s' mod 64 * 4 + r' ! 10 mod 4" using eqs by (elim conjE)
  have "s mod 64 = (s mod 64 * 4 + r ! 10 mod 4) div 4" by (rule d [symmetric])
  also have "\<dots> = s' mod 64" unfolding m by (rule d)
  finally have "s mod 64 = s' mod 64" .
  have "l = l'" using eqs by (elim conjE) (rule timestamp_bytes [OF assms(1,2)], assumption+)
  moreover have "s = s'"
    using eqs \<open>s mod 64 = s' mod 64\<close> by (elim conjE) (rule sequence_bytes [OF assms(3,4)], assumption+)
  ultimately show ?thesis ..
qed

section \<open>The counter grows\<close>

definition counter :: "uuid_state \<Rightarrow> nat" where
  "counter st = (case lastTimestamp st of None \<Rightarrow> 0 | Some l \<Rightarrow> l * 4294967296 + sequence st + 1)"

definition state_ok :: "uuid_state \<Rightarrow> bool" where
  "state_ok st \<longleftrightarrow> sequence st < 4294967296"

lemma random_sequence: "random_ok random \<Longrightarrow>
   random ! 6 * 16777216 + random ! 7 * 65536 + random ! 8 * 256 + random ! 9 < 4294967296"
proof -
  assume "random_ok random"
  then have "random ! i \<le> 255" if "i < 16" for i
  proof -
    have "random ! i < 256" using that nth_mem [of i random] \<open>random_ok random\<close> by (simp add: random_ok_def)
    then show ?thesis by simp
  qed
  from this [of 6] this [of 7] this [of 8] this [of 9]
  have "random ! 6 \<le> 255" "random ! 7 \<le> 255" "random ! 8 \<le> 255" "random ! 9 \<le> 255" by simp_all
  then show ?thesis by linarith
qed

lemma advance_props:
  assumes "random_ok random" "state_ok st" "advance now random st = (l, s)"
  shows "s < 4294967296" "counter st < l * 4294967296 + s + 1"
    "l \<le> max now (case lastTimestamp st of None \<Rightarrow> 0 | Some k \<Rightarrow> k + 1)"
    "case lastTimestamp st of None \<Rightarrow> True | Some k \<Rightarrow> k \<le> l"
  using assms random_sequence [OF assms(1)]
  by (auto simp: advance_def counter_def state_ok_def Let_def mod_Suc split: option.splits if_splits)

lemma uuidv7_counter:
  assumes "random_ok random" "state_ok st"
  shows "state_ok (snd (uuidv7 now random st))" "counter st < counter (snd (uuidv7 now random st))"
  using advance_props [OF assms, of now "fst (advance now random st)" "snd (advance now random st)"]
  by (simp_all add: uuidv7_def state_ok_def counter_def case_prod_beta Let_def)

lemma state_after_ok: "(\<forall>n. random_ok (snd (inputs n))) \<Longrightarrow> state_ok (state_after inputs n)"
  by (induction n) (simp_all add: uuidv7_counter(1), simp add: state_ok_def initial_uuid_state_def)

lemma counter_mono:
  assumes "\<forall>n. random_ok (snd (inputs n))" and "a < b"
  shows "counter (state_after inputs a) < counter (state_after inputs b)"
  using assms(2)
proof (induction b)
  case (Suc b)
  have "counter (state_after inputs b) < counter (state_after inputs (Suc b))"
    using uuidv7_counter(2) [of "snd (inputs b)" "state_after inputs b"] assms(1) state_after_ok [OF assms(1)] by simp
  with Suc show ?case by (cases "a = b") auto
qed simp

text \<open>The timestamp runs ahead of the clock by at most one per call.\<close>

lemma lastTimestamp_bound:
  assumes "\<forall>n. random_ok (snd (inputs n))" and "\<forall>i < n. fst (inputs i) \<le> C"
  shows "case lastTimestamp (state_after inputs n) of None \<Rightarrow> True | Some l \<Rightarrow> l \<le> C + n"
  using assms(2)
proof (induction n)
  case (Suc n)
  let ?st = "state_after inputs n"
  obtain l s where a: "advance (fst (inputs n)) (snd (inputs n)) ?st = (l, s)" by fastforce
  have "l \<le> max (fst (inputs n)) (case lastTimestamp ?st of None \<Rightarrow> 0 | Some k \<Rightarrow> k + 1)"
    using advance_props(3) [OF _ state_after_ok [OF assms(1)] a] assms(1) by blast
  moreover have "case lastTimestamp ?st of None \<Rightarrow> True | Some l \<Rightarrow> l \<le> C + n" using Suc by simp
  ultimately show ?case using a Suc.prems by (auto simp: uuidv7_def split: option.splits) (metis add_leD1 le_SucI lessI nat_le_linear not_less_eq_eq order.trans)?
qed (simp add: initial_uuid_state_def)

lemma uuid_seq_bytes:
  "uuid_seq inputs n = formatUuid (uuid_bytes (the (lastTimestamp (state_after inputs (Suc n))))
     (sequence (state_after inputs (Suc n))) (snd (inputs n)))"
  by (simp add: uuid_seq_def uuidv7_def case_prod_beta Let_def)

lemma lastTimestamp_Suc: "lastTimestamp (state_after inputs (Suc n)) = Some (the (lastTimestamp (state_after inputs (Suc n))))"
  by (simp add: uuidv7_def case_prod_beta Let_def)

text \<open>Successive values of \<open>uuidv7\<close> are different 36-character texts, whatever the
  random bytes and however the clock moves (backwards included), as long as no clock reading
  is within the number of calls of the end of the 48-bit timestamp range.\<close>

theorem uuidv7_source:
  assumes "\<forall>n. random_ok (snd (inputs n))" and "\<forall>n < N. fst (inputs n) + N < 281474976710656"
  shows "uuid_source (uuid_seq inputs) N"
  unfolding uuid_source_def
proof
  let ?l = "\<lambda>n. the (lastTimestamp (state_after inputs (Suc n)))" and ?s = "\<lambda>n. sequence (state_after inputs (Suc n))"
  have l: "?l n < 281474976710656" if "n < N" for n
  proof -
    have "fst (inputs i) \<le> 281474976710656 - N - 1" if "i < Suc n" for i
    proof -
      have "i < N" using that \<open>n < N\<close> by simp
      then have "fst (inputs i) + N < 281474976710656" using assms(2) by blast
      then show ?thesis by linarith
    qed
    then have "case lastTimestamp (state_after inputs (Suc n)) of None \<Rightarrow> True | Some l \<Rightarrow> l \<le> 281474976710656 - N - 1 + Suc n"
      using lastTimestamp_bound [OF assms(1), of "Suc n"] by blast
    then have "?l n \<le> 281474976710656 - N - 1 + Suc n" using lastTimestamp_Suc [of inputs n] by (metis option.case(2))
    moreover have "fst (inputs n) + N < 281474976710656" using assms(2) that by blast
    ultimately show ?thesis using that by linarith
  qed
  have s: "?s n < 4294967296" for n using state_after_ok [OF assms(1), of "Suc n"] by (simp only: state_ok_def)
  show "inj_on (uuid_seq inputs) {..<N}"
  proof (rule inj_onI)
    fix a b assume ab: "a \<in> {..<N}" "b \<in> {..<N}" and e: "uuid_seq inputs a = uuid_seq inputs b"
    have ok: "random_ok (snd (inputs n))" for n using assms(1) by blast
    have "uuid_bytes (?l a) (?s a) (snd (inputs a)) = uuid_bytes (?l b) (?s b) (snd (inputs b))"
      using e unfolding uuid_seq_bytes by (rule formatUuid_inject [rotated -1]) (rule uuid_bytes_ok [OF ok])+
    then have eq: "?l a = ?l b \<and> ?s a = ?s b" using ab l s by (intro uuid_bytes_inject) auto
    have "lastTimestamp (state_after inputs (Suc a)) = lastTimestamp (state_after inputs (Suc b))"
      using eq lastTimestamp_Suc [of inputs a] lastTimestamp_Suc [of inputs b] by simp
    then have c: "counter (state_after inputs (Suc a)) = counter (state_after inputs (Suc b))"
      by (simp only: counter_def conjunct2 [OF eq])
    show "a = b"
      using c counter_mono [OF assms(1), of "Suc a" "Suc b"] counter_mono [OF assms(1), of "Suc b" "Suc a"] by (cases a b rule: linorder_cases) auto
  qed
  show "\<forall>n<N. length (uuid_seq inputs n) = 36"
    unfolding uuid_seq_bytes using assms(1) uuid_bytes_ok(1) length_formatUuid by blast
qed

theorem uuidv7_source_witness:
  "uuid_source (uuid_seq (\<lambda>n. (1700000000000 - n, replicate 16 7))) 1000"
proof (rule uuidv7_source)
  show "\<forall>n < 1000. fst (1700000000000 - n, replicate 16 7) + 1000 < (281474976710656 :: nat)" by auto
qed (simp add: random_ok_def)

section \<open>Shortened identifiers\<close>

text \<open>The first eight characters of an identifier are the upper 32 bits of its timestamp.\<close>

lemma short_id_window:
  assumes "l div 65536 = l' div 65536"
  shows "take 8 (formatUuid (uuid_bytes l s r)) = take 8 (formatUuid (uuid_bytes l' s' r'))"
proof -
  have d: "l div (65536 * k) = l' div (65536 * k)" for k using assms by (simp add: div_mult2_eq)
  have "l div 1099511627776 = l' div 1099511627776" "l div 4294967296 = l' div 4294967296" "l div 16777216 = l' div 16777216"
    using d [of 16777216] d [of 65536] d [of 256] by simp_all
  then show ?thesis unfolding uuid_bytes_def formatUuid_16 by (simp only: assms) simp
qed

text \<open>The retry loop for short entry identifiers cannot succeed twice within one window of
  65.536 seconds: the eight characters it keeps are only the upper 32 bits of the timestamp, so
  once an identifier of the current window is taken, all 100 retries give that same one, and
  the entry gets a whole 36-character identifier after 101 calls.\<close>

theorem short_ids_exhausted:
  assumes "take 8 (uuid_seq inputs n) \<in> set (js_keys m)"
    and "\<forall>i \<le> 100. the (lastTimestamp (state_after inputs (Suc (n + i)))) div 65536 =
                  the (lastTimestamp (state_after inputs (Suc n))) div 65536"
  shows "generateEntryId (uuid_seq inputs) m n = (uuid_seq inputs (n + 100), n + 101)"
proof -
  have same: "take 8 (uuid_seq inputs (n + i)) = take 8 (uuid_seq inputs n)" if "i \<le> 100" for i
    unfolding uuid_seq_bytes using assms(2) that by (intro short_id_window) blast
  have "generate_loop k (uuid_seq inputs) m (n + (100 - k)) = (uuid_seq inputs (n + 100), n + 101)" if "k \<le> 100" for k
    using that
  proof (induction k)
    case (Suc k)
    have "take 8 (uuid_seq inputs (n + (100 - Suc k))) \<in> set (js_keys m)"
      using same [of "100 - Suc k"] assms(1) by simp
    moreover have "n + (100 - Suc k) + 1 = n + (100 - k)" using Suc.prems by simp
    ultimately show ?case using Suc by (simp only: generate_loop.simps Let_def) simp
  qed simp
  from this [of 100] show ?thesis by (simp add: generateEntryId_def)
qed

lemma state_after_const:
  "n < 4294967296 \<Longrightarrow> state_after (\<lambda>_. (T, replicate 16 0)) (Suc n) = \<lparr>lastTimestamp = Some T, sequence = n\<rparr>"
proof (induction n)
  case 0
  show ?case by (simp add: uuidv7_def advance_def initial_uuid_state_def)
next
  case (Suc n)
  then have IH: "state_after (\<lambda>_. (T, replicate 16 0)) (Suc n) = \<lparr>lastTimestamp = Some T, sequence = n\<rparr>" by simp
  have m: "(n + 1) mod 4294967296 = n + 1" using Suc.prems by simp
  have "advance T (replicate 16 0) \<lparr>lastTimestamp = Some T, sequence = n\<rparr> = (T, n + 1)"
    by (simp only: advance_def uuid_state.select_convs option.case Let_def m) simp
  then show ?case
    by (subst state_after.simps) (simp only: IH, simp add: uuidv7_def)
qed

theorem short_ids_exhausted_witness:
  "generateEntryId (uuid_seq (\<lambda>_. (1700000000000, replicate 16 0)))
     [(take 8 (uuid_seq (\<lambda>_. (1700000000000, replicate 16 0)) 5), ())] 5 =
   (uuid_seq (\<lambda>_. (1700000000000, replicate 16 0)) 105, 106)"
proof -
  have "generateEntryId (uuid_seq (\<lambda>_. (1700000000000, replicate 16 0)))
     [(take 8 (uuid_seq (\<lambda>_. (1700000000000, replicate 16 0)) 5), ())] 5 =
   (uuid_seq (\<lambda>_. (1700000000000, replicate 16 0)) (5 + 100), 5 + 101)"
  proof (rule short_ids_exhausted)
    have "the (lastTimestamp (state_after (\<lambda>_. (1700000000000, replicate 16 0)) (Suc (5 + i)))) = 1700000000000"
      if "i \<le> 100" for i using that state_after_const [of "5 + i" 1700000000000] by (simp only:) simp
    from this this [of 0] show "\<forall>i\<le>100. the (lastTimestamp (state_after (\<lambda>_. (1700000000000, replicate 16 0)) (Suc (5 + i)))) div 65536 =
      the (lastTimestamp (state_after (\<lambda>_. (1700000000000, replicate 16 0)) (Suc 5))) div 65536"
      by (simp del: state_after.simps add_Suc_right add_Suc)
  qed simp
  then show ?thesis by simp
qed

end
