(* ===== verification/Utf16_Text.thy ===== *)
theory Utf16_Text
  imports Prelude "HOL-Library.Word"
begin

text \<open>
  Texts as JavaScript has them, lists of 16-bit code units, where a character outside the basic plane is a pair of
  surrogates. Here are its white space, \<open>trim\<close>, and the removal of unpaired surrogates
  (\<open>packages/ai/src/utils/sanitize-unicode.ts\<close>), with the lemmas that what is left is well-formed
  UTF-16 and that a well-formed text is left as it is.
\<close>

type_synonym ustring = "16 word list"

abbreviation unit_nl :: "16 word" where "unit_nl \<equiv> 10"

text \<open>A text of characters below 256, such as the code's own phrases.\<close>

definition units :: "string \<Rightarrow> ustring" where
  "units s = map (\<lambda>c. word_of_nat (of_char c)) s"

definition high_surrogate :: "16 word \<Rightarrow> bool" where
  "high_surrogate c \<longleftrightarrow> 0xD800 \<le> c \<and> c \<le> 0xDBFF"

definition low_surrogate :: "16 word \<Rightarrow> bool" where
  "low_surrogate c \<longleftrightarrow> 0xDC00 \<le> c \<and> c \<le> 0xDFFF"

section \<open>White space\<close>

definition unit_space :: "16 word \<Rightarrow> bool" where
  "unit_space c \<longleftrightarrow> 9 \<le> c \<and> c \<le> 13 \<or> 0x2000 \<le> c \<and> c \<le> 0x200A
     \<or> c \<in> set [0x20, 0xA0, 0x1680, 0x2028, 0x2029, 0x202F, 0x205F, 0x3000, 0xFEFF]"

definition utrim :: "ustring \<Rightarrow> ustring" where
  "utrim t = rev (dropWhile unit_space (rev (dropWhile unit_space t)))"

definition blank :: "ustring \<Rightarrow> bool" where
  "blank t \<longleftrightarrow> utrim t = []"

lemma blank_iff: "blank t \<longleftrightarrow> list_all unit_space t"
proof
  assume "blank t"
  then have "dropWhile unit_space (rev (dropWhile unit_space t)) = []" by (simp add: blank_def utrim_def del: dropWhile_eq_Nil_conv)
  then have "\<forall>x \<in> set (rev (dropWhile unit_space t)). unit_space x" by (rule dropWhile_eq_Nil_conv [THEN iffD1])
  then have "\<forall>x \<in> set (dropWhile unit_space t). unit_space x" by (simp only: set_rev)
  then have "dropWhile unit_space t = []" by (metis hd_dropWhile hd_in_set)
  then show "list_all unit_space t" by (simp only: list_all_iff dropWhile_eq_Nil_conv)
next
  assume "list_all unit_space t"
  then have "dropWhile unit_space t = []" by (simp only: list_all_iff dropWhile_eq_Nil_conv)
  then show "blank t" unfolding blank_def utrim_def by (simp only: rev.simps dropWhile.simps)
qed

section \<open>Surrogates\<close>

text \<open>Unpaired surrogates are removed: a high one that no low one follows, a low one that no high one precedes.\<close>

fun drop_unpaired :: "bool \<Rightarrow> ustring \<Rightarrow> ustring" where
  "drop_unpaired after_high [] = []"
| "drop_unpaired after_high (u # us) =
     (if high_surrogate u \<and> \<not> (us \<noteq> [] \<and> low_surrogate (hd us)) \<or> \<not> after_high \<and> low_surrogate u then []
      else [u]) @ drop_unpaired (high_surrogate u) us"

definition sanitizeSurrogates :: "ustring \<Rightarrow> ustring" where
  "sanitizeSurrogates t = drop_unpaired False t"

text \<open>Well-formed UTF-16: every surrogate belongs to a pair.\<close>

fun well_formed :: "ustring \<Rightarrow> bool" where
  "well_formed [] = True"
| "well_formed [u] = (\<not> high_surrogate u \<and> \<not> low_surrogate u)"
| "well_formed (u # v # us) =
     (if high_surrogate u then low_surrogate v \<and> well_formed us else \<not> low_surrogate u \<and> well_formed (v # us))"

lemma low_not_high: "low_surrogate u \<Longrightarrow> \<not> high_surrogate u"
  by (auto simp: low_surrogate_def high_surrogate_def word_le_nat_alt)

lemma drop_unpaired_start: "us = [] \<or> \<not> low_surrogate (hd us) \<Longrightarrow> drop_unpaired b us = drop_unpaired False us"
  by (cases us) auto

lemma drop_unpaired_low: "low_surrogate v \<Longrightarrow> drop_unpaired True (v # us) = v # drop_unpaired False us"
  using low_not_high by simp

lemma well_formed_Cons: "\<not> high_surrogate u \<Longrightarrow> well_formed (u # us) \<longleftrightarrow> \<not> low_surrogate u \<and> well_formed us"
  by (cases us) auto

lemma drop_unpaired_well_formed: "well_formed (drop_unpaired False us)"
proof (induction us rule: length_induct)
  case (1 us)
  show ?case
  proof (cases us)
    case (Cons u vs)
    have IH: "well_formed (drop_unpaired False vs)" using 1 Cons by simp
    show ?thesis
    proof (cases "high_surrogate u")
      case False
      then show ?thesis using IH Cons by (simp add: well_formed_Cons)
    next
      case high: True
      show ?thesis
      proof (cases "vs = [] \<or> \<not> low_surrogate (hd vs)")
        case True
        then show ?thesis using high Cons IH drop_unpaired_start [OF True, of True] by auto
      next
        case False
        then obtain v ws where v: "vs = v # ws" "low_surrogate v" by (cases vs) auto
        then have "well_formed (drop_unpaired False ws)" using 1 Cons by simp
        then show ?thesis
          using high v Cons low_not_high [of u] drop_unpaired_low [of v ws] by (auto simp del: drop_unpaired.simps(2) simp: drop_unpaired.simps(2) [of False u])
      qed
    qed
  qed simp
qed

lemma drop_unpaired_id: "well_formed us \<Longrightarrow> drop_unpaired False us = us"
proof (induction us rule: well_formed.induct)
  case (3 u v us)
  then show ?case using low_not_high [of v] low_not_high [of u] by (auto split: if_splits)
qed auto

lemma sanitized_well_formed [simp]: "well_formed (sanitizeSurrogates t)"
  by (simp add: sanitizeSurrogates_def drop_unpaired_well_formed)

lemma sanitized_id: "well_formed t \<Longrightarrow> sanitizeSurrogates t = t"
  by (simp add: sanitizeSurrogates_def drop_unpaired_id)

lemma units_below: "u \<in> set (units s) \<Longrightarrow> u < 256"
proof -
  assume "u \<in> set (units s)"
  then obtain c where "u = word_of_nat (of_char (c :: char))" by (auto simp: units_def)
  moreover have "of_char c < (256 :: nat)" by (rule nat_of_char_less_256)
  then have "of_char c mod (65536 :: nat) < 256" using le_less_trans [OF mod_less_eq_dividend] by blast
  ultimately show ?thesis by (simp add: word_less_nat_alt unat_of_nat take_bit_eq_mod)
qed

lemma below_well_formed: "\<forall>u \<in> set us. u < 256 \<Longrightarrow> well_formed us"
proof (induction us rule: well_formed.induct)
  case (2 u)
  then show ?case by (auto simp: high_surrogate_def low_surrogate_def word_le_nat_alt word_less_nat_alt)
next
  case (3 u v us)
  then have "\<not> high_surrogate u" "\<not> low_surrogate u"
    by (auto simp: high_surrogate_def low_surrogate_def word_le_nat_alt word_less_nat_alt)
  with 3 show ?case by simp
qed simp

lemma units_well_formed [simp]: "well_formed (units s)"
  using below_well_formed units_below by blast

end
