(* ===== verification/Truncate.thy ===== *)
theory Truncate
  imports Utf16_Text
begin

text \<open>
  Truncation of tool output (\<open>packages/agent/src/harness/utils/truncate.ts\<close>). Strings are
  lists of 16-bit code units, as JavaScript has them, so that surrogate pairs and their UTF-8
  sizes are visible. The byte cnt is the code's own loop, which the source uses where
  \<open>Buffer\<close> does not exist; it is compared with an encoder to bytes.
\<close>

abbreviation ulines :: "ustring \<Rightarrow> ustring list" where "ulines s \<equiv> split_on unit_nl s"
abbreviation uunlines :: "ustring list \<Rightarrow> ustring" where "uunlines ls \<equiv> join_with [unit_nl] ls"

definition DEFAULT_MAX_LINES :: nat where "DEFAULT_MAX_LINES = 2000"
definition DEFAULT_MAX_BYTES :: nat where "DEFAULT_MAX_BYTES = 50 * 1024"
definition GREP_MAX_LINE_LENGTH :: nat where "GREP_MAX_LINE_LENGTH = 500"

datatype cut = Lines | Bytes

record truncation_result =
  content :: ustring
  truncated :: bool
  truncatedBy :: "cut option"
  totalLines :: nat
  totalBytes :: nat
  outputLines :: nat
  outputBytes :: nat
  lastLinePartial :: bool
  firstLineExceedsLimit :: bool
  maxLines :: nat
  maxBytes :: nat

fun utf8_loop :: "ustring \<Rightarrow> nat" where
  "utf8_loop [] = 0"
| "utf8_loop (c # cs) =
     (if c \<le> 0x7F then 1 + utf8_loop cs
      else if c \<le> 0x7FF then 2 + utf8_loop cs
      else if high_surrogate c then
        (case cs of
           [] \<Rightarrow> 3
         | d # ds \<Rightarrow> if low_surrogate d then 4 + utf8_loop ds else 3 + utf8_loop cs)
      else 3 + utf8_loop cs)"

definition utf8ByteLength :: "ustring \<Rightarrow> nat" where
  "utf8ByteLength s =
     (case find_index (\<lambda>c. 0x7F < c) s of
        None \<Rightarrow> length s
      | Some firstNonAscii \<Rightarrow> firstNonAscii + utf8_loop (drop firstNonAscii s))"

fun replaceUnpairedSurrogates :: "ustring \<Rightarrow> ustring" where
  "replaceUnpairedSurrogates [] = []"
| "replaceUnpairedSurrogates (c # cs) =
     (if high_surrogate c then
        (case cs of
           [] \<Rightarrow> [0xFFFD]
         | d # ds \<Rightarrow> if low_surrogate d then c # d # replaceUnpairedSurrogates ds
                    else 0xFFFD # replaceUnpairedSurrogates cs)
      else if low_surrogate c then 0xFFFD # replaceUnpairedSurrogates cs
      else c # replaceUnpairedSurrogates cs)"

text \<open>The backward loop of \<open>truncateStringToBytesFromEnd\<close>: the position \<open>i\<close>, the bytes
  counted, and whether a lone surrogate was passed; the result is the start and the flag.\<close>

function from_end_loop :: "ustring \<Rightarrow> nat \<Rightarrow> nat \<Rightarrow> nat \<Rightarrow> bool \<Rightarrow> nat \<times> bool" where
  "from_end_loop str limit i out needs =
     (if i = 0 then (i, needs)
      else (let code = str ! (i - 1);
                (characterStart, characterBytes, lone) =
                  (if low_surrogate code \<and> 0 < i - 1 then
                     (if high_surrogate (str ! (i - 2)) then (i - 2, 4, False) else (i - 1, 3, True))
                   else if high_surrogate code \<or> low_surrogate code then (i - 1, 3, True)
                   else (i - 1, (if code \<le> 0x7F then 1 else if code \<le> 0x7FF then 2 else 3), False))
            in if limit < out + characterBytes then (i, needs)
               else from_end_loop str limit characterStart (out + characterBytes) (needs \<or> lone)))"
  by pat_completeness auto
termination
  by (relation "measure (\<lambda>(str, limit, i, out, needs). i)") (auto simp: Let_def split: if_splits)

declare from_end_loop.simps [simp del]

definition truncateStringToBytesFromEnd :: "ustring \<Rightarrow> nat \<Rightarrow> ustring" where
  "truncateStringToBytesFromEnd str limit =
     (if limit = 0 then []
      else (let (start, needs) = from_end_loop str limit (length str) 0 False;
                output = drop start str
            in if needs then replaceUnpairedSurrogates output else output))"

text \<open>The collecting loop of \<open>truncateHead\<close> over the lines from number \<open>i\<close>, and that
  of \<open>truncateTail\<close> over the lines from the last one back.\<close>

fun head_loop :: "nat \<Rightarrow> nat \<Rightarrow> nat \<Rightarrow> ustring list \<Rightarrow> ustring list \<Rightarrow> nat \<Rightarrow> ustring list \<times> nat \<times> cut" where
  "head_loop ml mb i [] acc cnt = (acc, cnt, Lines)"
| "head_loop ml mb i (line # rest) acc cnt =
     (if ml \<le> i then (acc, cnt, Lines)
      else (let lineBytes = utf8ByteLength line + (if 0 < i then 1 else 0)
            in if mb < cnt + lineBytes then (acc, cnt, Bytes)
               else head_loop ml mb (i + 1) rest (acc @ [line]) (cnt + lineBytes)))"

fun tail_loop :: "nat \<Rightarrow> nat \<Rightarrow> ustring list \<Rightarrow> ustring list \<Rightarrow> nat \<Rightarrow> ustring list \<times> nat \<times> cut \<times> bool" where
  "tail_loop ml mb [] acc cnt = (acc, cnt, Lines, False)"
| "tail_loop ml mb (line # before) acc cnt =
     (if ml \<le> length acc then (acc, cnt, Lines, False)
      else (let lineBytes = utf8ByteLength line + (if acc \<noteq> [] then 1 else 0)
            in if mb < cnt + lineBytes then
                 (if acc = [] then
                    (let truncatedLine = truncateStringToBytesFromEnd line mb
                     in ([truncatedLine], utf8ByteLength truncatedLine, Bytes, True))
                  else (acc, cnt, Bytes, False))
               else tail_loop ml mb before (line # acc) (cnt + lineBytes)))"

definition untruncated :: "ustring \<Rightarrow> nat \<Rightarrow> nat \<Rightarrow> nat \<Rightarrow> nat \<Rightarrow> truncation_result" where
  "untruncated s nl_total tb ml mb =
     \<lparr>content = s, truncated = False, truncatedBy = None, totalLines = nl_total, totalBytes = tb, outputLines = nl_total,
      outputBytes = tb, lastLinePartial = False, firstLineExceedsLimit = False, maxLines = ml, maxBytes = mb\<rparr>"

definition truncateHead :: "ustring \<Rightarrow> nat option \<Rightarrow> nat option \<Rightarrow> truncation_result" where
  "truncateHead s optLines optBytes =
     (let ml = (case optLines of Some n \<Rightarrow> n | None \<Rightarrow> DEFAULT_MAX_LINES);
          mb = (case optBytes of Some n \<Rightarrow> n | None \<Rightarrow> DEFAULT_MAX_BYTES);
          tb = utf8ByteLength s; ls = ulines s; nl_total = length ls
      in if nl_total \<le> ml \<and> tb \<le> mb then untruncated s nl_total tb ml mb
         else if mb < utf8ByteLength (ls ! 0) then
           \<lparr>content = [], truncated = True, truncatedBy = Some Bytes, totalLines = nl_total, totalBytes = tb, outputLines = 0,
            outputBytes = 0, lastLinePartial = False, firstLineExceedsLimit = True, maxLines = ml, maxBytes = mb\<rparr>
         else (let (out, cnt, by0) = head_loop ml mb 0 ls [] 0;
                   by1 = (if ml \<le> length out \<and> cnt \<le> mb then Lines else by0);
                   text' = uunlines out
               in \<lparr>content = text', truncated = True, truncatedBy = Some by1, totalLines = nl_total, totalBytes = tb,
                   outputLines = length out, outputBytes = utf8ByteLength text', lastLinePartial = False,
                   firstLineExceedsLimit = False, maxLines = ml, maxBytes = mb\<rparr>))"

definition truncateTail :: "ustring \<Rightarrow> nat option \<Rightarrow> nat option \<Rightarrow> truncation_result" where
  "truncateTail s optLines optBytes =
     (let ml = (case optLines of Some n \<Rightarrow> n | None \<Rightarrow> DEFAULT_MAX_LINES);
          mb = (case optBytes of Some n \<Rightarrow> n | None \<Rightarrow> DEFAULT_MAX_BYTES);
          tb = utf8ByteLength s; ls0 = ulines s;
          ls = (if 1 < length ls0 \<and> last ls0 = [] then butlast ls0 else ls0); nl_total = length ls
      in if nl_total \<le> ml \<and> tb \<le> mb then untruncated s nl_total tb ml mb
         else (let (out, cnt, by0, partial) = tail_loop ml mb (rev ls) [] 0;
                   by1 = (if ml \<le> length out \<and> cnt \<le> mb then Lines else by0);
                   text' = uunlines out
               in \<lparr>content = text', truncated = True, truncatedBy = Some by1, totalLines = nl_total, totalBytes = tb,
                   outputLines = length out, outputBytes = utf8ByteLength text', lastLinePartial = partial,
                   firstLineExceedsLimit = False, maxLines = ml, maxBytes = mb\<rparr>))"

definition truncated_suffix :: ustring where
  "truncated_suffix = map (\<lambda>c. word_of_nat (of_char c)) ''... [truncated]''"

definition truncateLine :: "ustring \<Rightarrow> nat \<Rightarrow> ustring \<times> bool" where
  "truncateLine line maxChars =
     (if length line \<le> maxChars then (line, False) else (take maxChars line @ truncated_suffix, True))"

section \<open>UTF-8 sizes\<close>

text \<open>The reference: decode the code units to code points, a lone surrogate as U+FFFD, and
  encode each code point to its UTF-8 bytes.\<close>

fun code_points :: "ustring \<Rightarrow> nat list" where
  "code_points [] = []"
| "code_points (c # cs) =
     (if high_surrogate c then
        (case cs of
           [] \<Rightarrow> [0xFFFD]
         | d # ds \<Rightarrow> if low_surrogate d
                    then (0x10000 + (unat c - 0xD800) * 0x400 + (unat d - 0xDC00)) # code_points ds
                    else 0xFFFD # code_points cs)
      else if low_surrogate c then 0xFFFD # code_points cs
      else unat c # code_points cs)"

definition utf8_bytes :: "nat \<Rightarrow> 8 word list" where
  "utf8_bytes p =
     (if p < 0x80 then [word_of_nat p]
      else if p < 0x800 then [word_of_nat (0xC0 + p div 64), word_of_nat (0x80 + p mod 64)]
      else if p < 0x10000 then
        [word_of_nat (0xE0 + p div 4096), word_of_nat (0x80 + p div 64 mod 64), word_of_nat (0x80 + p mod 64)]
      else [word_of_nat (0xF0 + p div 262144), word_of_nat (0x80 + p div 4096 mod 64),
            word_of_nat (0x80 + p div 64 mod 64), word_of_nat (0x80 + p mod 64)])"

definition utf8_encode :: "ustring \<Rightarrow> 8 word list" where
  "utf8_encode s = concat (map utf8_bytes (code_points s))"

lemma length_utf8_bytes:
  "length (utf8_bytes p) = (if p < 0x80 then 1 else if p < 0x800 then 2 else if p < 0x10000 then 3 else 4)"
  by (simp add: utf8_bytes_def)

lemma ascii_not_surrogate: "c \<le> 0x7FF \<Longrightarrow> \<not> high_surrogate c \<and> \<not> low_surrogate c"
  by (auto simp: high_surrogate_def low_surrogate_def word_le_nat_alt)

lemma high_not_low: "high_surrogate c \<Longrightarrow> \<not> low_surrogate c"
  by (auto simp: high_surrogate_def low_surrogate_def word_le_nat_alt)

lemma utf8_loop_encode: "utf8_loop s = length (utf8_encode s)"
proof (induction s rule: utf8_loop.induct)
  case (2 c cs)
  have "unat c < 2 ^ LENGTH(16)" by (rule unsigned_less)
  then have u: "unat c < 65536" by simp
  consider (a) "c \<le> 0x7F" | (b) "\<not> c \<le> 0x7F" "c \<le> 0x7FF" | (h) "\<not> c \<le> 0x7FF" "high_surrogate c"
    | (l) "\<not> c \<le> 0x7FF" "\<not> high_surrogate c" by blast
  then show ?case
  proof cases
    case a
    then have "c \<le> 0x7FF" by (auto simp: word_le_nat_alt)
    with a 2 show ?thesis
      using ascii_not_surrogate [of c] by (auto simp: utf8_encode_def length_utf8_bytes word_le_nat_alt)
  next
    case b
    with 2 show ?thesis
      using ascii_not_surrogate [of c] by (auto simp: utf8_encode_def length_utf8_bytes word_le_nat_alt)
  next
    case h
    then have "\<not> c \<le> 0x7F" by (auto simp: word_le_nat_alt)
    with h 2 show ?thesis
      by (auto simp: utf8_encode_def length_utf8_bytes split: list.splits)
  next
    case l
    then have "\<not> c \<le> 0x7F" "2047 < unat c" by (auto simp: word_le_nat_alt)
    with l 2 u show ?thesis
      by (auto simp: utf8_encode_def length_utf8_bytes)
  qed
qed (simp add: utf8_encode_def)

lemma utf8_loop_ascii_prefix: "\<forall>c \<in> set xs. c \<le> 0x7F \<Longrightarrow> utf8_loop (xs @ ys) = length xs + utf8_loop ys"
  by (induction xs) auto

lemma utf8ByteLength_loop: "utf8ByteLength s = utf8_loop s"
proof (cases "find_index (\<lambda>c. 0x7F < c) s")
  case None
  then have "\<forall>c \<in> set s. c \<le> 0x7F" by (auto simp: find_index_None)
  from utf8_loop_ascii_prefix [OF this, of "[]"] None show ?thesis by (simp add: utf8ByteLength_def)
next
  case (Some i)
  then have i: "i < length s" "\<forall>j < i. \<not> 0x7F < s ! j" using find_index_Some by fastforce+
  then have "\<forall>c \<in> set (take i s). c \<le> 0x7F" by (auto simp: in_set_conv_nth not_less)
  from utf8_loop_ascii_prefix [OF this, of "drop i s"] i Some show ?thesis by (simp add: utf8ByteLength_def)
qed

text \<open>The byte count of a string, computed from its code units with a fast path for ASCII,
  is the number of bytes of its UTF-8 encoding, for every string, lone surrogates (encoded as
  U+FFFD) included.\<close>

theorem utf8ByteLength_encode: "utf8ByteLength s = length (utf8_encode s)"
  by (simp add: utf8ByteLength_loop utf8_loop_encode)

text \<open>Sizes add up across a newline and across any boundary that does not split a pair.\<close>

definition splits_pair :: "ustring \<Rightarrow> ustring \<Rightarrow> bool" where
  "splits_pair xs ys \<longleftrightarrow> xs \<noteq> [] \<and> ys \<noteq> [] \<and> high_surrogate (last xs) \<and> low_surrogate (hd ys)"

lemma utf8_loop_append: "\<not> splits_pair xs ys \<Longrightarrow> utf8_loop (xs @ ys) = utf8_loop xs + utf8_loop ys"
proof (induction xs rule: utf8_loop.induct)
  case (2 c cs)
  show ?case
  proof (cases cs)
    case Nil
    with 2 show ?thesis
      using high_not_low by (cases ys) (auto simp: splits_pair_def)
  next
    case (Cons d ds)
    have "\<not> splits_pair (d # ds) ys" using "2.prems" Cons by (auto simp: splits_pair_def split: if_splits)
    moreover have "\<not> splits_pair ds ys" using "2.prems" Cons by (auto simp: splits_pair_def split: if_splits)
    ultimately show ?thesis using "2.IH" Cons by auto
  qed
qed simp

lemma utf8_newline: "utf8_loop (xs @ unit_nl # ys) = utf8_loop xs + 1 + utf8_loop ys"
  using utf8_loop_append [of xs "unit_nl # ys"]
  by (simp add: splits_pair_def low_surrogate_def word_le_nat_alt)

lemma utf8_uunlines:
  "ls \<noteq> [] \<Longrightarrow> utf8_loop (uunlines ls) = sum_list (map utf8_loop ls) + (length ls - 1)"
proof (induction ls)
  case (Cons l ls)
  then show ?case by (cases "ls = []") (auto simp: join_with_Cons utf8_newline length_greater_0_conv [symmetric] simp del: length_greater_0_conv)
qed simp

section \<open>Cutting a line from its start\<close>

lemma code_points_replace: "code_points (replaceUnpairedSurrogates s) = code_points s"
proof (induction s rule: replaceUnpairedSurrogates.induct)
  case (2 c cs)
  have f: "\<not> high_surrogate 0xFFFD" "\<not> low_surrogate 0xFFFD" "unat (0xFFFD :: 16 word) = 0xFFFD"
    by (simp_all add: high_surrogate_def low_surrogate_def word_le_nat_alt)
  show ?case using 2 f by (auto split: list.splits)
qed simp

lemma utf8_encode_replace [simp]: "utf8_encode (replaceUnpairedSurrogates s) = utf8_encode s"
  by (simp add: utf8_encode_def code_points_replace)

definition boundary :: "ustring \<Rightarrow> nat \<Rightarrow> bool" where
  "boundary s k \<longleftrightarrow> k \<le> length s \<and> \<not> splits_pair (take k s) (drop k s)"

lemma boundary_iff:
  "boundary s k \<longleftrightarrow> k \<le> length s \<and> \<not> (0 < k \<and> k < length s \<and> high_surrogate (s ! (k - 1)) \<and> low_surrogate (s ! k))"
proof -
  have "last (take k s) = s ! (k - 1)" if "0 < k" "k \<le> length s"
    using that by (cases s) (auto simp: last_conv_nth min_def)
  moreover have "hd (drop k s) = s ! k" if "k < length s" using that by (simp add: hd_drop_conv_nth)
  ultimately show ?thesis by (auto simp: boundary_def splits_pair_def)
qed

lemma utf8_drop_boundary:
  assumes "boundary s k" "j \<le> k"
  shows "utf8_loop (drop j s) = utf8_loop (Prelude.slice j k s) + utf8_loop (drop k s)"
proof -
  have k: "k \<le> length s" using assms(1) by (simp add: boundary_def)
  have d: "drop j s = Prelude.slice j k s @ drop k s" using slice_append_rest [OF assms(2), of s] by simp
  have "\<not> splits_pair (Prelude.slice j k s) (drop k s)"
  proof
    assume sp: "splits_pair (Prelude.slice j k s) (drop k s)"
    then have ne: "Prelude.slice j k s \<noteq> []" by (simp add: splits_pair_def)
    have "take k s = take j s @ Prelude.slice j k s" using take_append_slice [OF assms(2), of s] by simp
    with ne have "last (take k s) = last (Prelude.slice j k s)" "take k s \<noteq> []" by auto
    with sp assms(1) show False by (simp add: splits_pair_def boundary_def)
  qed
  then show ?thesis by (simp add: d utf8_loop_append)
qed

text \<open>The size of the character that ends just before position \<open>i\<close>.\<close>

definition char_before :: "ustring \<Rightarrow> nat \<Rightarrow> nat \<times> nat \<times> bool" where
  "char_before str i =
     (let code = str ! (i - 1)
      in if low_surrogate code \<and> 0 < i - 1 then
           (if high_surrogate (str ! (i - 2)) then (i - 2, 4, False) else (i - 1, 3, True))
         else if high_surrogate code \<or> low_surrogate code then (i - 1, 3, True)
         else (i - 1, (if code \<le> 0x7F then 1 else if code \<le> 0x7FF then 2 else 3), False))"

lemma from_end_loop_step:
  "from_end_loop str limit i out needs =
     (if i = 0 then (i, needs)
      else case char_before str i of (cs, n, lone) \<Rightarrow>
        if limit < out + n then (i, needs) else from_end_loop str limit cs (out + n) (needs \<or> lone))"
  by (subst from_end_loop.simps) (simp add: char_before_def Let_def)

lemma slice_1: "Suc j \<le> length s \<Longrightarrow> Prelude.slice j (Suc j) s = [s ! j]"
  by (simp add: Prelude.slice_def take_Suc hd_drop_conv_nth)

lemma slice_2: "Suc (Suc j) \<le> length s \<Longrightarrow> Prelude.slice j (Suc (Suc j)) s = [s ! j, s ! Suc j]"
  by (rule nth_equalityI) (auto simp: less_Suc_eq nth_Cons split: nat.splits)

lemma utf8_single: "utf8_loop [c] = (if c \<le> 0x7F then 1 else if c \<le> 0x7FF then 2 else 3)"
  by simp

lemma surrogate_large: "high_surrogate c \<or> low_surrogate c \<Longrightarrow> \<not> c \<le> 0x7F \<and> \<not> c \<le> 0x7FF"
  using ascii_not_surrogate [of c] by (auto simp: word_le_nat_alt)

lemma char_before_props:
  assumes "0 < i" "boundary str i" "char_before str i = (cs, n, lone)"
  shows "cs < i" "boundary str cs" "utf8_loop (drop cs str) = n + utf8_loop (drop i str)"
    "\<forall>j. cs < j \<and> j < i \<longrightarrow> \<not> boundary str j"
proof -
  have len: "i \<le> length str" using assms(2) by (simp add: boundary_def)
  obtain m where m: "i = Suc m" using assms(1) by (cases i) auto
  have "cs < i \<and> boundary str cs \<and> utf8_loop (Prelude.slice cs i str) = n \<and> (\<forall>j. cs < j \<and> j < i \<longrightarrow> \<not> boundary str j)"
  proof (cases "low_surrogate (str ! m) \<and> 0 < m \<and> high_surrogate (str ! (m - 1))")
    case True
    then obtain k where k: "m = Suc k" by (cases m) auto
    then have cs: "cs = k" "n = 4" using assms(3) True m by (auto simp: char_before_def Let_def)
    have "boundary str k" using high_not_low True k len m by (auto simp: boundary_iff)
    moreover have "utf8_loop (Prelude.slice k i str) = 4"
      using slice_2 [of k str] True k m len surrogate_large [of "str ! k"] by simp
    moreover have "\<not> boundary str m" using True k len m by (auto simp: boundary_iff)
    ultimately show ?thesis using cs k m by (auto simp: less_Suc_eq)
  next
    case False
    then have cs: "cs = m" and n: "n = utf8_loop [str ! m]"
      using assms(3) m surrogate_large [of "str ! m"] by (auto simp: char_before_def Let_def split: if_splits)
    have "boundary str m" using False len m by (auto simp: boundary_iff)
    then show ?thesis using cs n slice_1 [of m str] len m by auto
  qed
  then show "cs < i" "boundary str cs" "utf8_loop (drop cs str) = n + utf8_loop (drop i str)"
    "\<forall>j. cs < j \<and> j < i \<longrightarrow> \<not> boundary str j"
    using utf8_drop_boundary [OF assms(2), of cs] by auto
qed

lemma from_end_loop_props:
  assumes "boundary str i" "out = utf8_loop (drop i str)" "out \<le> limit" "from_end_loop str limit i out needs = (k, nd)"
  shows "boundary str k \<and> utf8_loop (drop k str) \<le> limit \<and>
    (\<forall>j < k. boundary str j \<longrightarrow> limit < utf8_loop (drop j str))"
  using assms
proof (induction str limit i out needs rule: from_end_loop.induct)
  case (1 str limit i out needs)
  show ?case
  proof (cases "i = 0")
    case True
    with 1 show ?thesis by (subst (asm) (2) from_end_loop_step) auto
  next
    case False
    obtain cs n lone where c: "char_before str i = (cs, n, lone)" by (cases "char_before str i")
    note p = char_before_props [OF _ "1.prems"(1) c]
    show ?thesis
    proof (cases "limit < out + n")
      case True
      then have k: "k = i" using "1.prems"(4) False c by (subst (asm) from_end_loop_step) auto
      have "limit < utf8_loop (drop j str)" if "j < i" "boundary str j" for j
      proof -
        have "j \<le> cs" using p(4) that False by (meson not_le_imp_less neq0_conv)
        then have "utf8_loop (drop cs str) \<le> utf8_loop (drop j str)"
          using utf8_drop_boundary [of str cs j] p(2) False by simp
        then show ?thesis using p(3) True "1.prems"(2) False by simp
      qed
      then show ?thesis using k "1.prems" by simp
    next
      case out: False
      have rec: "from_end_loop str limit cs (out + n) (needs \<or> lone) = (k, nd)"
        using "1.prems"(4) False c out by (subst (asm) from_end_loop_step) auto
      show ?thesis
        using "1.IH" [OF False refl _ refl refl] c out p "1.prems" False rec
        by (fastforce simp: char_before_def Let_def split: if_splits)
    qed
  qed
qed

lemma from_end_cut:
  "\<exists>k. boundary str k \<and> utf8_encode (truncateStringToBytesFromEnd str limit) = utf8_encode (drop k str) \<and>
     utf8_loop (drop k str) \<le> limit \<and> (\<forall>j < k. boundary str j \<longrightarrow> limit < utf8_loop (drop j str))"
proof (cases "limit = 0")
  case True
  have "boundary str (length str)" by (simp add: boundary_iff)
  moreover have "0 < utf8_loop (drop j str)" if "j < length str" for j
    using that by (cases "drop j str") (auto split: list.splits)
  ultimately show ?thesis using True by (intro exI [of _ "length str"]) (simp add: truncateStringToBytesFromEnd_def)
next
  case False
  obtain k nd where k: "from_end_loop str limit (length str) 0 False = (k, nd)" by fastforce
  have "boundary str (length str)" by (simp add: boundary_iff)
  from from_end_loop_props [OF this _ _ k] k False show ?thesis
    by (intro exI [of _ k]) (simp add: truncateStringToBytesFromEnd_def Let_def)
qed

text \<open>Cutting a line to its last bytes keeps whole characters: the bytes kept are those of
  the longest end of the line that does not start inside a surrogate pair and fits the limit,
  and lone surrogates are written as U+FFFD without changing that.\<close>

theorem truncateStringToBytesFromEnd_longest:
  "\<exists>k. boundary str k \<and> utf8_encode (truncateStringToBytesFromEnd str limit) = utf8_encode (drop k str) \<and>
     utf8ByteLength (truncateStringToBytesFromEnd str limit) \<le> limit \<and>
     (\<forall>j. j < k \<and> boundary str j \<longrightarrow> limit < utf8ByteLength (drop j str))"
  using from_end_cut [of str limit] by (simp add: utf8ByteLength_loop) (metis utf8_loop_encode)

theorem truncateStringToBytesFromEnd_longest_witness:
  "\<exists>k. boundary [0xD83D, 0xDE00, 0x61] k \<and>
     utf8_encode (truncateStringToBytesFromEnd [0xD83D, 0xDE00, 0x61] 3) = utf8_encode (drop k [0xD83D, 0xDE00, 0x61]) \<and>
     k \<noteq> 0"
proof -
  obtain k where k: "boundary [0xD83D, 0xDE00, 0x61] k"
    "utf8_encode (truncateStringToBytesFromEnd [0xD83D, 0xDE00, 0x61] 3) = utf8_encode (drop k [0xD83D, 0xDE00, 0x61])"
    "utf8ByteLength (truncateStringToBytesFromEnd [0xD83D, 0xDE00, 0x61] 3) \<le> 3"
    using truncateStringToBytesFromEnd_longest [of "[0xD83D, 0xDE00, 0x61]" 3] by blast
  have "utf8_loop [0xD83D, 0xDE00, 0x61] = 5" by (simp add: high_surrogate_def low_surrogate_def word_le_nat_alt)
  then have "k \<noteq> 0" using k(2,3) by (intro notI) (simp add: utf8ByteLength_loop utf8_loop_encode)
  with k show ?thesis by blast
qed

section \<open>Keeping the first lines\<close>

definition lines_bytes :: "ustring list \<Rightarrow> nat" where
  "lines_bytes ls = utf8_loop (uunlines ls)"

lemma lines_bytes_snoc: "lines_bytes (ls @ [l]) = lines_bytes ls + utf8_loop l + (if ls \<noteq> [] then 1 else 0)"
  by (cases "ls = []") (auto simp: lines_bytes_def utf8_uunlines length_greater_0_conv [symmetric] simp del: length_greater_0_conv)

lemma lines_bytes_Cons: "lines_bytes (l # ls) = utf8_loop l + (if ls \<noteq> [] then 1 else 0) + lines_bytes ls"
  by (cases "ls = []") (auto simp: lines_bytes_def join_with_Cons utf8_newline)

lemma lines_bytes_Nil [simp]: "lines_bytes [] = 0"
  by (simp add: lines_bytes_def)

lemma lines_bytes_mono: "j \<le> k \<Longrightarrow> lines_bytes (take j ls) \<le> lines_bytes (take k ls)"
proof (induction ls arbitrary: j k)
  case (Cons l ls)
  then show ?case by (cases j; cases k) (auto simp: lines_bytes_Cons)
qed simp

lemma head_loop_props:
  assumes "head_loop ml mb (length acc) rest acc (lines_bytes acc) = (out, c, by')" "lines_bytes acc \<le> mb" "length acc \<le> ml"
  shows "\<exists>k \<le> length rest. out = acc @ take k rest \<and> c = lines_bytes out \<and> c \<le> mb \<and> length out \<le> ml \<and>
    (case by' of Lines \<Rightarrow> k = length rest \<or> ml \<le> length out
     | Bytes \<Rightarrow> k < length rest \<and> length out < ml \<and> mb < lines_bytes (acc @ take (Suc k) rest))"
  using assms
proof (induction rest arbitrary: acc)
  case (Cons l rest)
  have b: "lines_bytes acc + (utf8ByteLength l + (if 0 < length acc then 1 else 0)) = lines_bytes (acc @ [l])"
    by (simp add: lines_bytes_snoc utf8ByteLength_loop)
  consider (lines) "ml \<le> length acc" | (bytes) "length acc < ml" "mb < lines_bytes (acc @ [l])"
    | (more) "length acc < ml" "lines_bytes (acc @ [l]) \<le> mb" by linarith
  then show ?case
  proof cases
    case lines
    with Cons.prems show ?thesis by (intro exI [of _ 0]) auto
  next
    case bytes
    with Cons.prems b show ?thesis by (intro exI [of _ 0]) (auto simp: Let_def)
  next
    case more
    then have r: "head_loop ml mb (length (acc @ [l])) rest (acc @ [l]) (lines_bytes (acc @ [l])) = (out, c, by')"
      using Cons.prems(1) b by (simp add: Let_def)
    have "length (acc @ [l]) \<le> ml" using more by simp
    from Cons.IH [OF r more(2) this] obtain k where "k \<le> length rest" "out = (acc @ [l]) @ take k rest" "c = lines_bytes out" "c \<le> mb"
        "length out \<le> ml" "case by' of Lines \<Rightarrow> k = length rest \<or> ml \<le> length out
         | Bytes \<Rightarrow> k < length rest \<and> length out < ml \<and> mb < lines_bytes ((acc @ [l]) @ take (Suc k) rest)"
      by blast
    then show ?thesis by (intro exI [of _ "Suc k"]) (auto split: cut.splits)
  qed
qed auto

text \<open>The longest run of first lines within both limits.\<close>

definition best_head :: "nat \<Rightarrow> nat \<Rightarrow> ustring list \<Rightarrow> nat \<Rightarrow> bool" where
  "best_head ml mb ls k \<longleftrightarrow> k \<le> length ls \<and> k \<le> ml \<and> lines_bytes (take k ls) \<le> mb \<and>
     (\<forall>j. k < j \<and> j \<le> length ls \<and> j \<le> ml \<longrightarrow> mb < lines_bytes (take j ls))"

lemma best_head_I:
  assumes "k \<le> length ls" "k \<le> ml" "lines_bytes (take k ls) \<le> mb"
    and "k = length ls \<or> ml \<le> k \<or> mb < lines_bytes (take (Suc k) ls)"
  shows "best_head ml mb ls k"
  unfolding best_head_def
proof (intro conjI allI impI)
  fix j assume j: "k < j \<and> j \<le> length ls \<and> j \<le> ml"
  then have "mb < lines_bytes (take (Suc k) ls)" using assms(4) by auto
  also have "\<dots> \<le> lines_bytes (take j ls)" using j by (intro lines_bytes_mono) simp
  finally show "mb < lines_bytes (take j ls)" .
qed (use assms in auto)

lemma uunlines_ulines_bytes: "lines_bytes (ulines s) = utf8ByteLength s"
  by (simp add: lines_bytes_def utf8ByteLength_loop)

text \<open>C29: Truncating from the head keeps exactly the longest run of complete first lines that
  is within both the line limit and the byte limit (bytes of UTF-8, newlines between lines
  counted); the reported line and byte counts are those of the output, the flag says whether
  lines were left out, and the reported limit is the one that stopped it.\<close>

theorem truncateHead_longest:
  "let r = truncateHead s (Some ml) (Some mb); ls = ulines s in
     best_head ml mb ls (outputLines r) \<and> content r = uunlines (take (outputLines r) ls) \<and>
     outputBytes r = utf8ByteLength (content r) \<and> outputBytes r \<le> mb \<and>
     truncated r = (outputLines r < totalLines r) \<and> totalLines r = length ls \<and>
     (truncated r \<and> 0 < ml \<longrightarrow> truncatedBy r = Some (if outputLines r = ml then Lines else Bytes))"
proof -
  let ?ls = "ulines s" and ?r = "truncateHead s (Some ml) (Some mb)"
  obtain l0 lr where l0: "?ls = l0 # lr" using split_on_not_Nil [of unit_nl s] by (cases ?ls) auto
  consider (all) "length ?ls \<le> ml" "utf8ByteLength s \<le> mb"
    | (first) "\<not> (length ?ls \<le> ml \<and> utf8ByteLength s \<le> mb)" "mb < utf8ByteLength (?ls ! 0)"
    | (some) "\<not> (length ?ls \<le> ml \<and> utf8ByteLength s \<le> mb)" "utf8ByteLength (?ls ! 0) \<le> mb" by linarith
  then show ?thesis
  proof cases
    case all
    then have "best_head ml mb ?ls (length ?ls)" by (intro best_head_I) (auto simp: uunlines_ulines_bytes)
    with all show ?thesis by (simp add: truncateHead_def Let_def untruncated_def)
  next
    case first
    then have "best_head ml mb ?ls 0" using l0
      by (intro best_head_I) (auto simp: lines_bytes_def utf8ByteLength_loop)
    with first l0 show ?thesis by (auto simp: truncateHead_def Let_def utf8ByteLength_def)
  next
    case some
    obtain out c by' where h: "head_loop ml mb 0 ?ls [] 0 = (out, c, by')" by (metis prod_cases3)
    then obtain k where k: "k \<le> length ?ls" "out = take k ?ls" "c = lines_bytes out" "c \<le> mb" "length out \<le> ml"
      "case by' of Lines \<Rightarrow> k = length ?ls \<or> ml \<le> length out
       | Bytes \<Rightarrow> k < length ?ls \<and> length out < ml \<and> mb < lines_bytes (take (Suc k) ?ls)"
      using head_loop_props [of ml mb "[]" ?ls out c by'] by (simp only: append_Nil list.size lines_bytes_Nil le0 simp_thms) blast
    have len: "length out = k" using k(1,2) by simp
    have best: "best_head ml mb ?ls k"
      using k len by (intro best_head_I) (auto split: cut.splits)
    have "k < length ?ls"
    proof (rule ccontr)
      assume "\<not> k < length ?ls"
      then have "k = length ?ls" using k(1) by simp
      with k len some(1) show False by (simp add: uunlines_ulines_bytes)
    qed
    moreover have "by' = (if k = ml then Lines else Bytes)" if "\<not> (ml \<le> k \<and> c \<le> mb)"
      using k(4-6) len \<open>k < length ?ls\<close> that by (auto split: cut.splits)
    moreover have "?r = \<lparr>content = uunlines out, truncated = True, truncatedBy = Some (if ml \<le> length out \<and> c \<le> mb then Lines else by'),
        totalLines = length ?ls, totalBytes = utf8ByteLength s, outputLines = length out, outputBytes = utf8ByteLength (uunlines out),
        lastLinePartial = False, firstLineExceedsLimit = False, maxLines = ml, maxBytes = mb\<rparr>"
      using some h by (auto simp: truncateHead_def Let_def)
    ultimately show ?thesis
      using best k(2-5) len by (auto simp: Let_def lines_bytes_def utf8ByteLength_loop)
  qed
qed

theorem truncateHead_longest_witness:
  "truncatedBy (truncateHead [97, 10, 98, 10, 99] (Some 2) (Some 100)) = Some Lines"
proof -
  have "outputLines (truncateHead [97, 10, 98, 10, 99] (Some 2) (Some 100)) = 2"
    "truncated (truncateHead [97, 10, 98, 10, 99] (Some 2) (Some 100))"
    by (simp_all add: truncateHead_def Let_def utf8ByteLength_def untruncated_def)
  with truncateHead_longest [of "[97, 10, 98, 10, 99]" 2 100] show ?thesis by (simp add: Let_def)
qed

section \<open>Keeping the last lines\<close>

lemma tail_loop_props:
  assumes "tail_loop ml mb before acc (lines_bytes acc) = (out, c, by', partial)" "lines_bytes acc \<le> mb" "length acc \<le> ml"
  shows "(\<exists>k \<le> length before. \<not> partial \<and> out = rev (take k before) @ acc \<and> c = lines_bytes out \<and> c \<le> mb \<and> length out \<le> ml \<and>
      (case by' of Lines \<Rightarrow> k = length before \<or> ml \<le> length out
       | Bytes \<Rightarrow> k < length before \<and> length out < ml \<and> mb < lines_bytes (before ! k # out))) \<or>
    (partial \<and> acc = [] \<and> before \<noteq> [] \<and> 0 < ml \<and> by' = Bytes \<and> mb < utf8ByteLength (hd before) \<and>
      out = [truncateStringToBytesFromEnd (hd before) mb])"
  using assms
proof (induction before arbitrary: acc)
  case (Cons l before)
  have b: "lines_bytes acc + (utf8ByteLength l + (if acc \<noteq> [] then 1 else 0)) = lines_bytes (l # acc)"
    by (simp add: lines_bytes_Cons utf8ByteLength_loop)
  consider (lines) "ml \<le> length acc" | (partial) "length acc < ml" "mb < lines_bytes (l # acc)" "acc = []"
    | (bytes) "length acc < ml" "mb < lines_bytes (l # acc)" "acc \<noteq> []"
    | (more) "length acc < ml" "lines_bytes (l # acc) \<le> mb" by linarith
  then show ?case
  proof cases
    case lines
    with Cons.prems show ?thesis by (intro disjI1 exI [of _ 0]) auto
  next
    case partial
    with Cons.prems b show ?thesis by (intro disjI2) (auto simp: Let_def lines_bytes_Cons utf8ByteLength_loop)
  next
    case bytes
    with Cons.prems b show ?thesis by (intro disjI1 exI [of _ 0]) (auto simp: Let_def)
  next
    case more
    then have r: "tail_loop ml mb before (l # acc) (lines_bytes (l # acc)) = (out, c, by', partial)"
      using Cons.prems(1) b by (simp add: Let_def)
    have "length (l # acc) \<le> ml" using more by simp
    from Cons.IH [OF r more(2) this] obtain k where "k \<le> length before" "\<not> partial" "out = rev (take k before) @ l # acc"
        "c = lines_bytes out" "c \<le> mb" "length out \<le> ml" "case by' of Lines \<Rightarrow> k = length before \<or> ml \<le> length out
         | Bytes \<Rightarrow> k < length before \<and> length out < ml \<and> mb < lines_bytes (before ! k # out)"
      by auto
    then show ?thesis by (intro disjI1 exI [of _ "Suc k"]) (auto split: cut.splits)
  qed
qed auto

text \<open>The lines \<open>truncateTail\<close> works on: an empty last line is not counted.\<close>

definition tail_lines :: "ustring \<Rightarrow> ustring list" where
  "tail_lines s = (let ls = ulines s in if 1 < length ls \<and> last ls = [] then butlast ls else ls)"

definition best_tail :: "nat \<Rightarrow> nat \<Rightarrow> ustring list \<Rightarrow> nat \<Rightarrow> bool" where
  "best_tail ml mb ls k \<longleftrightarrow> k \<le> length ls \<and> k \<le> ml \<and> lines_bytes (drop (length ls - k) ls) \<le> mb \<and>
     (\<forall>j. k < j \<and> j \<le> length ls \<and> j \<le> ml \<longrightarrow> mb < lines_bytes (drop (length ls - j) ls))"

lemma lines_bytes_drop_mono: "j \<le> k \<Longrightarrow> lines_bytes (drop k ls) \<le> lines_bytes (drop j ls)"
proof (induction ls arbitrary: j k)
  case (Cons l ls)
  show ?case
  proof (cases j)
    case 0
    have "lines_bytes (drop (k - 1) ls) \<le> lines_bytes ls" using Cons.IH [of 0 "k - 1"] by simp
    then show ?thesis using 0 by (cases k) (auto simp: lines_bytes_Cons)
  next
    case (Suc j')
    with Cons.prems Cons.IH [of j' "k - 1"] show ?thesis by (cases k) auto
  qed
qed simp

lemma best_tail_I:
  assumes "k \<le> length ls" "k \<le> ml" "lines_bytes (drop (length ls - k) ls) \<le> mb"
    and "k = length ls \<or> ml \<le> k \<or> mb < lines_bytes (drop (length ls - Suc k) ls)"
  shows "best_tail ml mb ls k"
  unfolding best_tail_def
proof (intro conjI allI impI)
  fix j assume j: "k < j \<and> j \<le> length ls \<and> j \<le> ml"
  then have "mb < lines_bytes (drop (length ls - Suc k) ls)" using assms(4) by auto
  also have "\<dots> \<le> lines_bytes (drop (length ls - j) ls)" using j by (intro lines_bytes_drop_mono) linarith
  finally show "mb < lines_bytes (drop (length ls - j) ls)" .
qed (use assms in auto)

lemma rev_take_rev: "rev (take k (rev xs)) = drop (length xs - k) xs"
  by (simp add: take_rev)

text \<open>Truncating from the tail, when it truncates, keeps either exactly the longest run of
  complete last lines within both limits, or, when not even the last line fits the byte limit,
  that line cut to its last bytes; the output is never over the byte limit or the line limit.\<close>

theorem truncateTail_longest:
  assumes "truncated (truncateTail s (Some ml) (Some mb))"
  shows "let r = truncateTail s (Some ml) (Some mb); ls = tail_lines s in
     outputBytes r = utf8ByteLength (content r) \<and> outputBytes r \<le> mb \<and> outputLines r \<le> ml \<and>
     (if lastLinePartial r then mb < utf8ByteLength (last ls) \<and> content r = truncateStringToBytesFromEnd (last ls) mb
      else best_tail ml mb ls (outputLines r) \<and> content r = uunlines (drop (length ls - outputLines r) ls))"
proof -
  let ?ls = "tail_lines s" and ?r = "truncateTail s (Some ml) (Some mb)"
  obtain out c by' p where t: "tail_loop ml mb (rev ?ls) [] 0 = (out, c, by', p)" by (metis prod_cases4)
  have r: "?r = \<lparr>content = uunlines out, truncated = True, truncatedBy = Some (if ml \<le> length out \<and> c \<le> mb then Lines else by'),
      totalLines = length ?ls, totalBytes = utf8ByteLength s, outputLines = length out, outputBytes = utf8ByteLength (uunlines out),
      lastLinePartial = p, firstLineExceedsLimit = False, maxLines = ml, maxBytes = mb\<rparr>"
    using assms t by (auto simp: truncateTail_def Let_def tail_lines_def untruncated_def split: if_splits)
  have "tail_loop ml mb (rev ?ls) [] (lines_bytes []) = (out, c, by', p)" using t by simp
  moreover have "lines_bytes [] \<le> mb" "length ([] :: ustring list) \<le> ml" by simp_all
  ultimately have props: "(\<exists>k \<le> length ?ls. \<not> p \<and> out = rev (take k (rev ?ls)) \<and> c = lines_bytes out \<and> c \<le> mb \<and> length out \<le> ml \<and>
      (case by' of Lines \<Rightarrow> k = length ?ls \<or> ml \<le> length out
       | Bytes \<Rightarrow> k < length ?ls \<and> length out < ml \<and> mb < lines_bytes (rev ?ls ! k # out))) \<or>
    (p \<and> ?ls \<noteq> [] \<and> 0 < ml \<and> mb < utf8ByteLength (last ?ls) \<and> out = [truncateStringToBytesFromEnd (last ?ls) mb])"
    using tail_loop_props [of ml mb "rev ?ls" "[]" out c by' p] by (simp only: length_rev append_Nil2 rev_is_Nil_conv hd_rev simp_thms) blast
  show ?thesis
  proof (cases p)
    case True
    with props have "0 < ml" "mb < utf8ByteLength (last ?ls)" "out = [truncateStringToBytesFromEnd (last ?ls) mb]"
      by auto
    moreover have "utf8ByteLength (truncateStringToBytesFromEnd (last ?ls) mb) \<le> mb"
      using from_end_cut [of "last ?ls" mb] by (auto simp: utf8ByteLength_loop utf8_loop_encode)
    ultimately show ?thesis using True r by simp
  next
    case False
    with props obtain k where k: "k \<le> length ?ls" "out = rev (take k (rev ?ls))" "c = lines_bytes out" "c \<le> mb" "length out \<le> ml"
      "case by' of Lines \<Rightarrow> k = length ?ls \<or> ml \<le> length out
       | Bytes \<Rightarrow> k < length ?ls \<and> length out < ml \<and> mb < lines_bytes (rev ?ls ! k # out)"
      by (simp only: simp_thms) blast
    have len: "length out = k" using k(1,2) by simp
    have out: "out = drop (length ?ls - k) ?ls" using k(2) by (simp add: rev_take_rev)
    have "rev ?ls ! k # out = drop (length ?ls - Suc k) ?ls" if "k < length ?ls"
      using that out Cons_nth_drop_Suc [of "length ?ls - Suc k" ?ls] by (simp add: rev_nth Suc_diff_Suc)
    then have "best_tail ml mb ?ls k"
      using k(1,3-6) len out by (intro best_tail_I) (auto split: cut.splits)
    then show ?thesis using False r k(3,4,5) len out by (simp add: lines_bytes_def utf8ByteLength_loop)
  qed
qed

theorem truncateTail_longest_witness:
  "outputBytes (truncateTail [0x61, 10, 0xD83D, 0xDE00, 0x62] (Some 5) (Some 3)) \<le> 3"
proof -
  have "utf8ByteLength [0x61, 10, 0xD83D, 0xDE00, 0x62] = 7"
    by (simp add: utf8ByteLength_loop high_surrogate_def low_surrogate_def word_le_nat_alt)
  then have "truncated (truncateTail [0x61, 10, 0xD83D, 0xDE00, 0x62] (Some 5) (Some 3))"
    by (simp add: truncateTail_def Let_def split: prod.splits)
  from truncateTail_longest [OF this] show ?thesis by (simp add: Let_def)
qed

text \<open>When the text ends in a newline and only that newline does not fit the byte limit,
  \<open>truncateTail\<close> reports that the line limit was hit, though it was not.\<close>

theorem truncateTail_wrong_limit:
  "(let r = truncateTail [0x61, 10] (Some 2000) (Some 1)
    in truncated r \<and> truncatedBy r = Some Lines \<and> totalLines r = 1 \<and> outputLines r = 1 \<and> content r = [0x61])"
  by (simp add: truncateTail_def Let_def utf8ByteLength_loop)

end
