(* ===== verification/Schedule.thy ===== *)
theory Schedule
  imports Prelude
begin

text \<open>
  Schedules of background jobs
  (\<open>packages/coding-agent/src/core/scheduler/schedule.ts\<close>): durations, cron expressions,
  the search for the next run, and the grace window of a missed one. An instant is its number
  of milliseconds, and an ISO timestamp is the instant it names. What the platform knows of
  time zones is a record of functions, the argument \<open>env\<close>: the offset of the local zone, the
  instant of a local time, the getters of \<open>Date\<close> and the parts \<open>Intl.DateTimeFormat\<close> formats.
  \<open>setSeconds\<close> and \<open>setMinutes\<close> are written over them as the language defines them.
  \<open>Number(s)\<close> is the parameter \<open>to_int\<close>, the integer it gives if it is one.
\<close>

datatype schedule_kind = Once | Interval | Cron

record parsed_schedule =
  kind :: schedule_kind
  schedule :: string
  scheduleDisplay :: string
  repeat :: bool
  nextRunAt :: int
  intervalMs :: "int option"
  cronExpression :: "string option"

datatype schedule_error =
  Unsupported_unit string
  | Duration_not_positive
  | Invalid_time_value
  | Invalid_step string
  | Out_of_range string
  | Invalid_value string
  | Not_five_fields
  | No_next_run string
  | Schedule_required
  | Unsupported_schedule string
  | Missing_interval string
  | Missing_cron string
  | Invalid_timezone string

section \<open>Durations\<close>

definition unitToMs :: "string \<Rightarrow> schedule_error + int" where
  "unitToMs unit =
     (let normalized = to_lower unit in
      if normalized \<in> {''s'', ''sec'', ''secs'', ''second'', ''seconds''} then Inr 1000
      else if normalized \<in> {''m'', ''min'', ''mins'', ''minute'', ''minutes''} then Inr 60000
      else if normalized \<in> {''h'', ''hr'', ''hrs'', ''hour'', ''hours''} then Inr (60 * 60000)
      else if normalized \<in> {''d'', ''day'', ''days''} then Inr (24 * 60 * 60000)
      else if normalized \<in> {''w'', ''week'', ''weeks''} then Inr (7 * 24 * 60 * 60000)
      else Inl (Unsupported_unit unit))"

text \<open>\<open>Number(value)\<close> of a digit string is infinite from \<open>2 ^ 1024 - 2 ^ 970\<close> on; below it the
  rounding of a double is not modelled, and only changes amounts far beyond the last valid date.\<close>

definition durationToMs :: "string \<Rightarrow> string \<Rightarrow> schedule_error + int" where
  "durationToMs value' unit =
     (let amount = int (nat_of_digits value') in
      if amount \<le> 0 \<or> 2 ^ 1024 - 2 ^ 970 \<le> amount then Inl Duration_not_positive
      else (case unitToMs unit of Inl e \<Rightarrow> Inl e | Inr ms \<Rightarrow> Inr (amount * ms)))"

text \<open>\<open>new Date(t).toISOString()\<close> raises beyond \<open>8.64e15\<close> milliseconds.\<close>

definition toISO :: "int \<Rightarrow> schedule_error + int" where
  "toISO t = (if \<bar>t\<bar> \<le> 8640000000000000 then Inr t else Inl Invalid_time_value)"

text \<open>The two regular expressions: a number, optional blanks and a unit, after an optional
  \<open>in\<close> or after \<open>every\<close>; upper and lower case do not matter.\<close>

definition match_amount :: "string \<Rightarrow> (string \<times> string) option" where
  "match_amount s =
     (let digits = takeWhile is_digit s; unit = dropWhile is_space (dropWhile is_digit s)
      in if digits \<noteq> [] \<and> \<not> isl (unitToMs unit) then Some (digits, unit) else None)"

definition after_word :: "string \<Rightarrow> string \<Rightarrow> string option" where
  "after_word w s =
     (if to_lower (take (length w) s) = w \<and> takeWhile is_space (drop (length w) s) \<noteq> []
      then Some (dropWhile is_space (drop (length w) s)) else None)"

definition match_every :: "string \<Rightarrow> (string \<times> string) option" where
  "match_every s = (case after_word ''every'' s of None \<Rightarrow> None | Some r \<Rightarrow> match_amount r)"

definition match_duration :: "string \<Rightarrow> (string \<times> string) option" where
  "match_duration s = (case after_word ''in'' s of None \<Rightarrow> match_amount s | Some r \<Rightarrow> match_amount r)"

section \<open>Cron fields\<close>

definition range_values :: "int \<Rightarrow> int \<Rightarrow> int \<Rightarrow> int list" where
  "range_values start stop step = filter (\<lambda>v. (v - start) mod step = 0) [start..stop]"

text \<open>
  \<open>names?.[lowered]\<close> also finds the properties an object literal inherits: for \<open>constructor\<close> and
  \<open>__proto__\<close> the value is an object. It is \<open>None\<close> here; it compares false with every number
  and, added to the set, is no number a date component is equal to.
\<close>

definition lt_num :: "int option \<Rightarrow> int option \<Rightarrow> bool" where
  "lt_num a b = (case (a, b) of (Some x, Some y) \<Rightarrow> x < y | _ \<Rightarrow> False)"

definition addRange ::
  "string \<Rightarrow> int \<Rightarrow> int \<Rightarrow> int option \<Rightarrow> int option \<Rightarrow> int \<Rightarrow> schedule_error + int list" where
  "addRange fld mn mx start stop step =
     (if step \<le> 0 then Inl (Invalid_step fld)
      else if lt_num start (Some mn) \<or> lt_num (Some mx) stop \<or> lt_num stop start then Inl (Out_of_range fld)
      else Inr (case (start, stop) of (Some a, Some b) \<Rightarrow> range_values a b step | _ \<Rightarrow> []))"

definition parseValue ::
  "(string \<Rightarrow> int option) \<Rightarrow> (string \<times> int) list option \<Rightarrow> string \<Rightarrow> schedule_error + int option" where
  "parseValue to_int names raw =
     (let lowered = to_lower raw;
          named = (case names of
                     None \<Rightarrow> None
                   | Some ns \<Rightarrow> (case map_of ns lowered of
                                  Some v \<Rightarrow> Some (Some v)
                                | None \<Rightarrow> if lowered \<in> {''constructor'', ''__proto__''} then Some None else None))
      in case named of
           Some v \<Rightarrow> Inr v
         | None \<Rightarrow> (case to_int raw of Some v \<Rightarrow> Inr (Some v) | None \<Rightarrow> Inl (Invalid_value raw)))"

definition is_word_char :: "char \<Rightarrow> bool" where
  "is_word_char c \<longleftrightarrow> is_digit c \<or> (let n = of_char c :: nat in 65 \<le> n \<and> n \<le> 90 \<or> 97 \<le> n \<and> n \<le> 122)"

text \<open>\<open>/^([A-Za-z0-9]+)-([A-Za-z0-9]+)$/\<close>.\<close>

definition match_span :: "string \<Rightarrow> (string \<times> string) option" where
  "match_span s =
     (case split_on (CHR ''-'') s of
        [a, b] \<Rightarrow> if a \<noteq> [] \<and> b \<noteq> [] \<and> list_all is_word_char a \<and> list_all is_word_char b then Some (a, b) else None
      | _ \<Rightarrow> None)"

definition parse_part ::
  "(string \<Rightarrow> int option) \<Rightarrow> string \<Rightarrow> int \<Rightarrow> int \<Rightarrow> (string \<times> int) list option \<Rightarrow> string \<Rightarrow> schedule_error + int list" where
  "parse_part to_int fld mn mx names part =
     (let pieces = split_on (CHR ''/'') part;
          rangePart = hd pieces;
          step = (case tl pieces of [] \<Rightarrow> Some 1 | stepPart # _ \<Rightarrow> to_int stepPart)
      in case step of
           None \<Rightarrow> Inl (Invalid_step part)
         | Some k \<Rightarrow>
             if k \<le> 0 then Inl (Invalid_step part)
             else if rangePart = ''*'' then addRange fld mn mx (Some mn) (Some mx) k
             else (case match_span rangePart of
                     Some (a, b) \<Rightarrow>
                       (case parseValue to_int names a of
                          Inl e \<Rightarrow> Inl e
                        | Inr start \<Rightarrow>
                            (case parseValue to_int names b of
                               Inl e \<Rightarrow> Inl e
                             | Inr stop \<Rightarrow> addRange fld mn mx start stop k))
                   | None \<Rightarrow>
                       (case parseValue to_int names rangePart of
                          Inl e \<Rightarrow> Inl e
                        | Inr v \<Rightarrow> if lt_num v (Some mn) \<or> lt_num (Some mx) v then Inl (Out_of_range part)
                                   else Inr (case v of Some x \<Rightarrow> [x] | None \<Rightarrow> []))))"

definition parseCronField ::
  "(string \<Rightarrow> int option) \<Rightarrow> string \<Rightarrow> int \<Rightarrow> int \<Rightarrow> (string \<times> int) list option \<Rightarrow> schedule_error + int list" where
  "parseCronField to_int fld mn mx names =
     (case mapM (parse_part to_int fld mn mx names) (split_on (CHR '','') fld) of
        Inl e \<Rightarrow> Inl e | Inr vss \<Rightarrow> Inr (concat vss))"

definition normalizeDayOfWeek :: "int list \<Rightarrow> int list" where
  "normalizeDayOfWeek vs = map (\<lambda>v. if v = 7 then 0 else v) vs"

definition isWildcard :: "string \<Rightarrow> bool" where
  "isWildcard fld \<longleftrightarrow> fld = ''*'' \<or> fld = ''*/1''"

record cron_fields =
  minutes :: "int list"
  hours :: "int list"
  daysOfMonth :: "int list"
  months :: "int list"
  daysOfWeek :: "int list"
  dayOfMonthWildcard :: bool
  dayOfWeekWildcard :: bool

definition monthNames :: "(string \<times> int) list" where
  "monthNames = [(''jan'', 1), (''feb'', 2), (''mar'', 3), (''apr'', 4), (''may'', 5), (''jun'', 6), (''jul'', 7),
     (''aug'', 8), (''sep'', 9), (''oct'', 10), (''nov'', 11), (''dec'', 12)]"

definition dowNames :: "(string \<times> int) list" where
  "dowNames = [(''sun'', 0), (''mon'', 1), (''tue'', 2), (''wed'', 3), (''thu'', 4), (''fri'', 5), (''sat'', 6)]"

text \<open>\<open>s.split(/\s+/)\<close>.\<close>

function split_blank :: "string \<Rightarrow> string list" where
  "split_blank s =
     (case dropWhile (\<lambda>c. \<not> is_space c) s of
        [] \<Rightarrow> [s]
      | b # r \<Rightarrow> takeWhile (\<lambda>c. \<not> is_space c) s # split_blank (dropWhile is_space r))"
  by pat_completeness auto
termination
proof (relation "measure length", goal_cases)
  case (2 s b r)
  then have "length (b # r) \<le> length s" using length_dropWhile_le [of "\<lambda>c. \<not> is_space c" s] by simp
  moreover have "length (dropWhile is_space r) \<le> length r" by (rule length_dropWhile_le)
  ultimately show ?case by simp
qed simp

declare split_blank.simps [simp del]

definition parseCronExpression :: "(string \<Rightarrow> int option) \<Rightarrow> string \<Rightarrow> schedule_error + cron_fields" where
  "parseCronExpression to_int expression =
     (case split_blank (js_trim expression) of
        [p0, p1, p2, p3, p4] \<Rightarrow>
          (case parseCronField to_int p0 0 59 None of Inl e \<Rightarrow> Inl e | Inr mi \<Rightarrow>
          (case parseCronField to_int p1 0 23 None of Inl e \<Rightarrow> Inl e | Inr ho \<Rightarrow>
          (case parseCronField to_int p2 1 31 None of Inl e \<Rightarrow> Inl e | Inr dm \<Rightarrow>
          (case parseCronField to_int p3 1 12 (Some monthNames) of Inl e \<Rightarrow> Inl e | Inr mo \<Rightarrow>
          (case parseCronField to_int p4 0 7 (Some dowNames) of Inl e \<Rightarrow> Inl e | Inr dw \<Rightarrow>
             Inr \<lparr>minutes = mi, hours = ho, daysOfMonth = dm, months = mo, daysOfWeek = normalizeDayOfWeek dw,
                  dayOfMonthWildcard = isWildcard p2, dayOfWeekWildcard = isWildcard p4\<rparr>)))))
      | _ \<Rightarrow> Inl Not_five_fields)"

section \<open>The next run\<close>

record date_components =
  dc_minutes :: int
  dc_hours :: int
  dayOfMonth :: int
  month :: int
  dayOfWeek :: int

text \<open>The parts \<open>formatToParts\<close> gives, as the numbers \<open>Number(...)\<close> reads from them;
  \<open>intl env tz\<close> is \<open>None\<close> where the format raises (an unknown zone).\<close>

record intl_parts =
  p_minute :: "int option"
  p_hour :: "int option"
  p_day :: "int option"
  p_month :: "int option"
  weekday :: "string option"

record time_env =
  localOffset :: "int \<Rightarrow> int"
  utcOfLocal :: "int \<Rightarrow> int"
  getters :: "int \<Rightarrow> date_components"
  intl :: "string \<Rightarrow> int \<Rightarrow> intl_parts option"

definition DOW_SHORT :: "(string \<times> int) list" where
  "DOW_SHORT = [(''Sun'', 0), (''Mon'', 1), (''Tue'', 2), (''Wed'', 3), (''Thu'', 4), (''Fri'', 5), (''Sat'', 6)]"

definition num_or :: "int \<Rightarrow> int option \<Rightarrow> int" where
  "num_or d v = (case v of Some x \<Rightarrow> x | None \<Rightarrow> d)"

definition getDateComponents :: "time_env \<Rightarrow> int \<Rightarrow> string option \<Rightarrow> date_components" where
  "getDateComponents env date timezone =
     (case timezone of
        None \<Rightarrow> getters env date
      | Some tz \<Rightarrow>
          if tz = [] then getters env date
          else (case intl env tz date of
                  None \<Rightarrow> getters env date
                | Some parts \<Rightarrow>
                    (let rawHour = num_or 0 (p_hour parts)
                     in \<lparr>dc_minutes = num_or 0 (p_minute parts),
                         dc_hours = (if rawHour = 24 then 0 else rawHour),
                         dayOfMonth = num_or 1 (p_day parts),
                         month = num_or 1 (p_month parts),
                         dayOfWeek = (case map_of DOW_SHORT (case weekday parts of Some w \<Rightarrow> w | None \<Rightarrow> []) of
                                        Some d \<Rightarrow> d | None \<Rightarrow> dayOfWeek (getters env date))\<rparr>)))"

definition validateTimezone :: "time_env \<Rightarrow> string \<Rightarrow> schedule_error + string" where
  "validateTimezone env tz = (if intl env tz 0 \<noteq> None then Inr tz else Inl (Invalid_timezone tz))"

text \<open>\<open>setSeconds(0, 0)\<close> and \<open>setMinutes(getMinutes() + 1)\<close>: the local time is changed and
  read back as an instant.\<close>

definition floorMinute :: "time_env \<Rightarrow> int \<Rightarrow> int" where
  "floorMinute env t = (let l = t + localOffset env t in utcOfLocal env (l - l mod 60000))"

definition plusMinute :: "time_env \<Rightarrow> int \<Rightarrow> int" where
  "plusMinute env t = utcOfLocal env (t + localOffset env t + 60000)"

definition cronMatches :: "time_env \<Rightarrow> int \<Rightarrow> cron_fields \<Rightarrow> string option \<Rightarrow> bool" where
  "cronMatches env date parsed timezone =
     (let c = getDateComponents env date timezone in
      if dc_minutes c \<notin> set (minutes parsed) then False
      else if dc_hours c \<notin> set (hours parsed) then False
      else if month c \<notin> set (months parsed) then False
      else (let domMatches = dayOfMonth c \<in> set (daysOfMonth parsed);
                dowMatches = dayOfWeek c \<in> set (daysOfWeek parsed)
            in if dayOfMonthWildcard parsed \<and> dayOfWeekWildcard parsed then True
               else if dayOfMonthWildcard parsed then dowMatches
               else if dayOfWeekWildcard parsed then domMatches
               else domMatches \<or> dowMatches))"

fun search_minutes :: "time_env \<Rightarrow> cron_fields \<Rightarrow> string option \<Rightarrow> nat \<Rightarrow> int \<Rightarrow> int option" where
  "search_minutes env parsed timezone 0 candidate = None"
| "search_minutes env parsed timezone (Suc i) candidate =
     (if cronMatches env candidate parsed timezone then Some candidate
      else search_minutes env parsed timezone i (plusMinute env candidate))"

definition maxMinutes :: nat where "maxMinutes = 5 * 366 * 24 * 60"

definition nextCronRun ::
  "(string \<Rightarrow> int option) \<Rightarrow> time_env \<Rightarrow> string \<Rightarrow> int \<Rightarrow> string option \<Rightarrow> schedule_error + int" where
  "nextCronRun to_int env expression after timezone =
     (case parseCronExpression to_int expression of
        Inl e \<Rightarrow> Inl e
      | Inr parsed \<Rightarrow>
          (case search_minutes env parsed timezone maxMinutes (plusMinute env (floorMinute env after)) of
             Some t \<Rightarrow> Inr t
           | None \<Rightarrow> Inl (No_next_run expression)))"

text \<open>\<open>parse_date\<close> is \<open>new Date(raw)\<close>, \<open>None\<close> for an invalid date;
  \<open>toISOString\<close> only fills the display text.\<close>

definition parseSchedule ::
  "(string \<Rightarrow> int option) \<Rightarrow> time_env \<Rightarrow> (string \<Rightarrow> int option) \<Rightarrow> (int \<Rightarrow> string) \<Rightarrow> string \<Rightarrow> int \<Rightarrow> bool option
     \<Rightarrow> string option \<Rightarrow> schedule_error + parsed_schedule" where
  "parseSchedule to_int env parse_date toISOString input now forceRepeat timezone =
     (let raw = js_trim input in
      if raw = [] then Inl Schedule_required
      else case match_every raw of
        Some (value', unit) \<Rightarrow>
          (case durationToMs value' unit of
             Inl e \<Rightarrow> Inl e
           | Inr ms \<Rightarrow>
               (case toISO (now + ms) of
                  Inl e \<Rightarrow> Inl e
                | Inr t \<Rightarrow> Inr \<lparr>kind = Interval, schedule = raw, scheduleDisplay = raw, repeat = True, nextRunAt = t,
                               intervalMs = Some ms, cronExpression = None\<rparr>))
      | None \<Rightarrow>
      (case match_duration raw of
        Some (value', unit) \<Rightarrow>
          (case durationToMs value' unit of
             Inl e \<Rightarrow> Inl e
           | Inr ms \<Rightarrow>
               (let rep = (forceRepeat = Some True)
                in case toISO (now + ms) of
                     Inl e \<Rightarrow> Inl e
                   | Inr t \<Rightarrow> Inr \<lparr>kind = (if rep then Interval else Once), schedule = raw,
                        scheduleDisplay = (if rep then ''every '' @ value' @ unit else raw), repeat = rep, nextRunAt = t,
                        intervalMs = (if rep then Some ms else None), cronExpression = None\<rparr>))
      | None \<Rightarrow>
      if length (split_blank raw) = 5 then
        (case nextCronRun to_int env raw now timezone of
           Inl e \<Rightarrow> Inl e
         | Inr t \<Rightarrow> Inr \<lparr>kind = Cron, schedule = raw,
                        scheduleDisplay = (case timezone of Some z \<Rightarrow> if z \<noteq> [] then raw @ '' ('' @ z @ '')'' else raw | None \<Rightarrow> raw),
                        repeat = True, nextRunAt = t, intervalMs = None, cronExpression = Some raw\<rparr>)
      else (case parse_date raw of
              Some t \<Rightarrow> Inr \<lparr>kind = Once, schedule = raw, scheduleDisplay = toISOString t, repeat = False, nextRunAt = t,
                            intervalMs = None, cronExpression = None\<rparr>
            | None \<Rightarrow> Inl (Unsupported_schedule input))))"

record timing =
  tm_kind :: schedule_kind
  tm_repeat :: bool
  tm_intervalMs :: "int option"
  tm_cronExpression :: "string option"
  tm_schedule :: string
  tm_timezone :: "string option"

definition computeNextRun ::
  "(string \<Rightarrow> int option) \<Rightarrow> time_env \<Rightarrow> timing \<Rightarrow> int \<Rightarrow> schedule_error + int option" where
  "computeNextRun to_int env job after =
     (if \<not> tm_repeat job then Inr None
      else case tm_kind job of
        Interval \<Rightarrow>
          (case tm_intervalMs job of
             None \<Rightarrow> Inl (Missing_interval (tm_schedule job))
           | Some ms \<Rightarrow> if ms \<le> 0 then Inl (Missing_interval (tm_schedule job)) else map_sum id Some (toISO (after + ms)))
      | Cron \<Rightarrow>
          (case tm_cronExpression job of
             None \<Rightarrow> Inl (Missing_cron (tm_schedule job))
           | Some e \<Rightarrow> if e = [] then Inl (Missing_cron (tm_schedule job))
                      else map_sum id Some (nextCronRun to_int env e after (tm_timezone job)))
      | Once \<Rightarrow> Inr None)"

definition computeGraceWindowSeconds :: "(string \<Rightarrow> int option) \<Rightarrow> time_env \<Rightarrow> int \<Rightarrow> timing \<Rightarrow> int" where
  "computeGraceWindowSeconds to_int env probe job =
     (if \<not> tm_repeat job \<or> tm_kind job = Once then 120
      else if tm_kind job = Interval \<and> tm_intervalMs job \<notin> {None, Some 0}
      then min (max (the (tm_intervalMs job) div 2000) 120) 7200
      else if tm_kind job = Cron \<and> tm_cronExpression job \<notin> {None, Some []}
      then (case nextCronRun to_int env (the (tm_cronExpression job)) probe (tm_timezone job) of
              Inl _ \<Rightarrow> 120
            | Inr t1 \<Rightarrow>
                (case nextCronRun to_int env (the (tm_cronExpression job)) t1 (tm_timezone job) of
                   Inl _ \<Rightarrow> 120
                 | Inr t2 \<Rightarrow> min (max ((t2 - t1) div 1000 div 2) 120) 7200))
      else 120)"

section \<open>Cron fields keep to their range\<close>

lemma set_range_values: "set (range_values a b k) = {v. a \<le> v \<and> v \<le> b \<and> (v - a) mod k = 0}"
  by (auto simp: range_values_def)

lemma lt_num_simps [simp]:
  "lt_num (Some a) (Some b) \<longleftrightarrow> a < b" "\<not> lt_num None x" "\<not> lt_num x None"
  by (auto simp: lt_num_def split: option.splits)

lemma addRange_bounds:
  "addRange fld mn mx start stop k = Inr vs \<Longrightarrow> v \<in> set vs \<Longrightarrow> mn \<le> v \<and> v \<le> mx"
  by (auto simp: addRange_def set_range_values split: if_splits option.splits)

lemma parse_part_bounds:
  "parse_part to_int fld mn mx names part = Inr vs \<Longrightarrow> v \<in> set vs \<Longrightarrow> mn \<le> v \<and> v \<le> mx"
  by (auto simp: parse_part_def Let_def dest: addRange_bounds split: option.splits if_splits sum.splits prod.splits)

lemma parseCronField_bounds:
  assumes "parseCronField to_int fld mn mx names = Inr vs" "v \<in> set vs"
  shows "mn \<le> v \<and> v \<le> mx"
proof -
  from assms obtain vss where vss: "mapM (parse_part to_int fld mn mx names) (split_on (CHR '','') fld) = Inr vss"
    "v \<in> set (concat vss)"
    by (auto simp: parseCronField_def split: sum.splits)
  then obtain vs' where "vs' \<in> set vss" "v \<in> set vs'" by auto
  with vss obtain part where "parse_part to_int fld mn mx names part = Inr vs'"
    by (auto simp: mapM_Inr list_all2_conv_all_nth in_set_conv_nth)
  with \<open>v \<in> set vs'\<close> show ?thesis by (blast dest: parse_part_bounds)
qed

definition cron_wf :: "cron_fields \<Rightarrow> bool" where
  "cron_wf p \<longleftrightarrow> set (minutes p) \<subseteq> {0..59} \<and> set (hours p) \<subseteq> {0..23} \<and> set (daysOfMonth p) \<subseteq> {1..31}
     \<and> set (months p) \<subseteq> {1..12} \<and> set (daysOfWeek p) \<subseteq> {0..6}"

lemma set_normalizeDayOfWeek: "set vs \<subseteq> {0..7} \<Longrightarrow> set (normalizeDayOfWeek vs) \<subseteq> {0..6}"
  by (force simp: normalizeDayOfWeek_def)

lemma parseCronField_subset: "parseCronField to_int fld mn mx names = Inr vs \<Longrightarrow> set vs \<subseteq> {mn..mx}"
  by (auto dest: parseCronField_bounds)

lemma parseCronExpression_wf: "parseCronExpression to_int e = Inr p \<Longrightarrow> cron_wf p"
  by (auto simp: parseCronExpression_def cron_wf_def simp del: atLeastAtMost_iff atLeastatMost_subset_iff
      dest!: parseCronField_subset set_normalizeDayOfWeek split: list.splits sum.splits)

section \<open>The search for the next run\<close>

lemma search_minutes_Some:
  "search_minutes env p tz n c = Some t \<longleftrightarrow>
     (\<exists>k<n. t = (plusMinute env ^^ k) c \<and> cronMatches env t p tz
        \<and> (\<forall>j<k. \<not> cronMatches env ((plusMinute env ^^ j) c) p tz))"
proof (induction n arbitrary: c)
  case (Suc n)
  show ?case
  proof (cases "cronMatches env c p tz")
    case True
    then have "(\<forall>j<k. \<not> cronMatches env ((plusMinute env ^^ j) c) p tz) \<longleftrightarrow> k = 0" for k
      by (metis funpow_0 gr0I not_less_zero)
    with True show ?thesis by (auto simp: ex_bool_eq)
  next
    case False
    then have "(\<forall>j<Suc k. \<not> cronMatches env ((plusMinute env ^^ j) c) p tz) \<longleftrightarrow>
        (\<forall>j<k. \<not> cronMatches env ((plusMinute env ^^ j) (plusMinute env c)) p tz)" for k
      by (simp add: All_less_Suc2 funpow_swap1)
    with False Suc.IH [of "plusMinute env c"] show ?thesis
      by (simp add: Ex_less_Suc2 funpow_swap1) (use False in blast)
  qed
qed simp

lemma search_minutes_None:
  "search_minutes env p tz n c = None \<longleftrightarrow> (\<forall>k<n. \<not> cronMatches env ((plusMinute env ^^ k) c) p tz)"
  by (induction n arbitrary: c) (auto simp: All_less_Suc2 funpow_swap1)

text \<open>A zone whose offset is always \<open>c\<close>, a whole number of minutes.\<close>

definition fixed_zone :: "time_env \<Rightarrow> int \<Rightarrow> bool" where
  "fixed_zone env c \<longleftrightarrow> (\<forall>t. localOffset env t = c) \<and> (\<forall>l. utcOfLocal env l = l - c) \<and> c mod 60000 = 0"

lemma fixed_zone_floor: "fixed_zone env c \<Longrightarrow> floorMinute env t = t - t mod 60000"
  by (simp add: fixed_zone_def floorMinute_def Let_def mod_add_right_eq [symmetric])

lemma fixed_zone_plus: "fixed_zone env c \<Longrightarrow> (plusMinute env ^^ k) t = t + int k * 60000"
proof (induction k)
  case (Suc k)
  then show ?case by (simp add: fixed_zone_def plusMinute_def distrib_right)
qed simp

lemma minute_step:
  fixes u :: int
  assumes "after < u" "u mod 60000 = 0"
  shows "\<exists>k. u = after - after mod 60000 + 60000 + int k * 60000"
proof -
  have "u = 60000 * (u div 60000)" using assms(2) by (simp add: mod_0_imp_dvd)
  moreover have "after - after mod 60000 = 60000 * (after div 60000)" by (simp add: minus_mod_eq_mult_div)
  moreover have "after div 60000 < u div 60000"
  proof -
    have "60000 * (after div 60000) + after mod 60000 = after" "0 \<le> after mod 60000" by simp_all
    moreover have "u = 60000 * (u div 60000)" using assms(2) by (simp add: mod_0_imp_dvd)
    ultimately show ?thesis using assms(1) by linarith
  qed
  ultimately show ?thesis by (intro exI [where x = "nat (u div 60000 - after div 60000 - 1)"]) simp
qed

definition cron_result :: "time_env \<Rightarrow> cron_fields \<Rightarrow> string option \<Rightarrow> int \<Rightarrow> string \<Rightarrow> schedule_error + int \<Rightarrow> bool" where
  "cron_result env p tz after e r =
     (case r of
        Inr t \<Rightarrow> after < t \<and> t \<le> after + int maxMinutes * 60000 \<and> t mod 60000 = 0 \<and> cronMatches env t p tz
                 \<and> (\<forall>u. after < u \<and> u < t \<and> u mod 60000 = 0 \<longrightarrow> \<not> cronMatches env u p tz)
      | Inl err \<Rightarrow> err = No_next_run e
                 \<and> (\<forall>u. after < u \<and> u \<le> after + (int maxMinutes - 1) * 60000 \<and> u mod 60000 = 0 \<longrightarrow> \<not> cronMatches env u p tz))"

lemma nextCronRun_fixed_zone:
  assumes zone: "fixed_zone env c" and p: "parseCronExpression to_int e = Inr p"
  shows "cron_result env p tz after e (nextCronRun to_int env e after tz)"
proof -
  define base where "base = after - after mod 60000 + 60000"
  have base: "after < base" "base \<le> after + 60000" "base mod 60000 = 0"
    by (auto simp: base_def minus_mod_eq_mult_div)
  have start: "plusMinute env (floorMinute env after) = base"
    using fixed_zone_plus [OF zone, of 1] by (simp add: fixed_zone_floor [OF zone] base_def)
  have reach: "\<exists>k. u = base + int k * 60000" if "after < u" "u mod 60000 = 0" for u
    using minute_step [OF that] by (simp add: base_def)
  show ?thesis
  proof (cases "search_minutes env p tz maxMinutes base")
    case None
    then have none: "\<not> cronMatches env (base + int k * 60000) p tz" if "k < maxMinutes" for k
      using that by (simp add: search_minutes_None fixed_zone_plus [OF zone])
    have "\<not> cronMatches env u p tz" if u: "after < u" "u \<le> after + (int maxMinutes - 1) * 60000" "u mod 60000 = 0" for u
    proof -
      obtain k where k: "u = base + int k * 60000" using reach [OF u(1) u(3)] by blast
      have "base + int k * 60000 \<le> after + int maxMinutes * 60000 - 60000" using u(2) by (simp add: k left_diff_distrib)
      with base(1) have "k < maxMinutes" by simp
      with none k show ?thesis by blast
    qed
    with None p show ?thesis by (simp add: nextCronRun_def start cron_result_def)
  next
    case (Some t)
    then obtain k where k: "k < maxMinutes" "t = base + int k * 60000" "cronMatches env t p tz"
      and least: "\<And>j. j < k \<Longrightarrow> \<not> cronMatches env (base + int j * 60000) p tz"
      by (auto simp: search_minutes_Some fixed_zone_plus [OF zone])
    have "\<not> cronMatches env u p tz" if u: "after < u" "u < t" "u mod 60000 = 0" for u
    proof -
      obtain j where j: "u = base + int j * 60000" using reach [OF u(1) u(3)] by blast
      with u k have "j < k" by simp
      with least j show ?thesis by blast
    qed
    moreover have "t mod 60000 = 0" using k base by (simp add: mod_add_left_eq [symmetric])
    moreover have "t \<le> after + int maxMinutes * 60000" "after < t" using k base by (simp_all add: algebra_simps)
    ultimately show ?thesis using Some p k by (simp add: nextCronRun_def start cron_result_def)
  qed
qed

text \<open>\<open>decimal\<close> is \<open>Number\<close> on strings of digits, and \<open>utc_env\<close> a zone without offset; they
  instantiate the parameters in the examples below.\<close>

definition decimal :: "string \<Rightarrow> int option" where
  "decimal s = (if list_all is_digit s then Some (int (nat_of_digits s)) else None)"

definition utc_env :: time_env where
  "utc_env = \<lparr>localOffset = (\<lambda>_. 0), utcOfLocal = (\<lambda>l. l),
     getters = (\<lambda>t. \<lparr>dc_minutes = t div 60000 mod 60, dc_hours = t div 3600000 mod 24,
                    dayOfMonth = t div 86400000 mod 31 + 1, month = 1, dayOfWeek = (t div 86400000 + 4) mod 7\<rparr>),
     intl = (\<lambda>_ _. None)\<rparr>"

lemma fixed_zone_utc_env: "fixed_zone utc_env 0"
  by (simp add: fixed_zone_def utc_env_def)

text \<open>C24: In a zone with a constant offset of whole minutes, \<open>nextCronRun\<close> returns the least full
  minute strictly after the given instant that matches the cron expression, however long the
  search takes, and raises only when no minute within the five years it searches matches.\<close>

theorem nextCronRun_least:
  assumes "fixed_zone env c" and "parseCronExpression to_int e = Inr p"
  shows "case nextCronRun to_int env e after tz of
           Inr t \<Rightarrow> after < t \<and> t \<le> after + int maxMinutes * 60000 \<and> t mod 60000 = 0 \<and> cronMatches env t p tz
                   \<and> (\<forall>u. after < u \<and> u < t \<and> u mod 60000 = 0 \<longrightarrow> \<not> cronMatches env u p tz)
         | Inl err \<Rightarrow> err = No_next_run e
                   \<and> (\<forall>u. after < u \<and> u \<le> after + (int maxMinutes - 1) * 60000 \<and> u mod 60000 = 0
                        \<longrightarrow> \<not> cronMatches env u p tz)"
  using nextCronRun_fixed_zone [OF assms] by (simp add: cron_result_def)

definition half_past_nine :: cron_fields where
  "half_past_nine = \<lparr>minutes = [30], hours = [9], daysOfMonth = [1..31], months = [1..12], daysOfWeek = [0..6] @ [0],
     dayOfMonthWildcard = True, dayOfWeekWildcard = True\<rparr>"

lemma parse_half_past_nine: "parseCronExpression decimal ''30 9 * * *'' = Inr half_past_nine"
  by code_simp

theorem nextCronRun_least_witness:
  "fixed_zone utc_env 0 \<and> parseCronExpression decimal ''30 9 * * *'' = Inr half_past_nine
   \<and> (case nextCronRun decimal utc_env ''30 9 * * *'' 0 None of
           Inr t \<Rightarrow> 0 < t \<and> cronMatches utc_env t half_past_nine None
         | Inl err \<Rightarrow> err = No_next_run ''30 9 * * *'')"
  using nextCronRun_least [OF fixed_zone_utc_env parse_half_past_nine, of 0 None]
  by (auto simp: fixed_zone_utc_env parse_half_past_nine split: sum.splits)

section \<open>Schedules\<close>

lemma unitToMs_pos: "unitToMs u = Inr ms \<Longrightarrow> 0 < ms"
  by (auto simp: unitToMs_def Let_def split: if_splits)

lemma durationToMs_pos: "durationToMs v u = Inr ms \<Longrightarrow> 0 < ms"
  by (auto simp: durationToMs_def Let_def unitToMs_pos split: if_splits sum.splits)

lemma nextCronRun_after:
  assumes "fixed_zone env c" "nextCronRun to_int env e after tz = Inr t"
  shows "after < t"
proof -
  from assms(2) obtain p where "parseCronExpression to_int e = Inr p"
    by (auto simp: nextCronRun_def split: sum.splits)
  from nextCronRun_fixed_zone [OF assms(1) this, of tz after] assms(2) show ?thesis by (simp add: cron_result_def)
qed

text \<open>The part of a job record that a parsed schedule determines.\<close>

definition timing_of :: "parsed_schedule \<Rightarrow> string option \<Rightarrow> timing" where
  "timing_of s tz = \<lparr>tm_kind = kind s, tm_repeat = repeat s, tm_intervalMs = intervalMs s,
     tm_cronExpression = cronExpression s, tm_schedule = schedule s, tm_timezone = tz\<rparr>"

lemma parseSchedule_cases:
  assumes "parseSchedule to_int env pd fmt input now fr tz = Inr s"
  obtains (interval) ms where "kind s = Interval" "repeat s" "0 < ms" "intervalMs s = Some ms" "nextRunAt s = now + ms"
  | (delay) ms where "kind s = Once" "\<not> repeat s" "0 < ms" "nextRunAt s = now + ms"
  | (cron) "kind s = Cron" "repeat s" "cronExpression s = Some (schedule s)" "schedule s \<noteq> []"
      "nextCronRun to_int env (schedule s) now tz = Inr (nextRunAt s)"
  | (timestamp) "kind s = Once" "\<not> repeat s" "pd (schedule s) = Some (nextRunAt s)"
  using assms
  by (auto simp: parseSchedule_def Let_def toISO_def dest: durationToMs_pos
      split: if_splits option.splits sum.splits prod.splits)

text \<open>A schedule that repeats is first due strictly after now, and the record made of it can
  always be rescheduled: \<open>computeNextRun\<close> never raises for a missing interval or cron
  expression, and what it returns is again strictly later.\<close>

theorem parseSchedule_reschedules:
  assumes "fixed_zone env c" and "parseSchedule to_int env pd fmt input now fr tz = Inr s" and "repeat s"
  shows "now < nextRunAt s \<and>
    (case computeNextRun to_int env (timing_of s tz) after of
       Inr n \<Rightarrow> (\<exists>t. n = Some t \<and> after < t)
     | Inl e \<Rightarrow> e = Invalid_time_value \<or> e = No_next_run (schedule s))"
  using assms(2)
proof (cases rule: parseSchedule_cases)
  case (interval ms)
  then show ?thesis by (simp add: computeNextRun_def timing_of_def toISO_def)
next
  case cron
  then obtain p where p: "parseCronExpression to_int (schedule s) = Inr p"
    by (auto simp: nextCronRun_def split: sum.splits)
  from nextCronRun_fixed_zone [OF assms(1) p, of tz after] cron nextCronRun_after [OF assms(1)]
  show ?thesis
    by (auto simp: computeNextRun_def timing_of_def cron_result_def split: sum.splits)
qed (use assms(3) in simp_all)

definition every_five_minutes :: parsed_schedule where
  "every_five_minutes = \<lparr>kind = Interval, schedule = ''every 5m'', scheduleDisplay = ''every 5m'', repeat = True,
     nextRunAt = 301000, intervalMs = Some 300000, cronExpression = None\<rparr>"

lemma parse_every_five_minutes:
  "parseSchedule decimal utc_env (\<lambda>_. None) (\<lambda>_. []) '' every 5m'' 1000 None None = Inr every_five_minutes"
  by code_simp

theorem parseSchedule_reschedules_witness:
  "fixed_zone utc_env 0
   \<and> parseSchedule decimal utc_env (\<lambda>_. None) (\<lambda>_. []) '' every 5m'' 1000 None None = Inr every_five_minutes
   \<and> repeat every_five_minutes \<and> 1000 < nextRunAt every_five_minutes"
  using parseSchedule_reschedules [OF fixed_zone_utc_env parse_every_five_minutes]
  by (simp add: fixed_zone_utc_env parse_every_five_minutes) (simp add: every_five_minutes_def)

lemma computeGraceWindowSeconds_bounds:
  "120 \<le> computeGraceWindowSeconds to_int env probe job \<and> computeGraceWindowSeconds to_int env probe job \<le> 7200"
  by (auto simp: computeGraceWindowSeconds_def split: sum.splits)

section \<open>Clocks set back\<close>

text \<open>
  A zone whose clocks are set back by \<open>d\<close> milliseconds at the instant \<open>T\<close>: a local time that
  occurs twice is read with the offset before the change, as the language defines it.
\<close>

definition set_back :: "time_env \<Rightarrow> int \<Rightarrow> int \<Rightarrow> int \<Rightarrow> bool" where
  "set_back env T c d \<longleftrightarrow> T mod 60000 = 0 \<and> c mod 60000 = 0 \<and> d mod 60000 = 0 \<and> 0 < d
     \<and> (\<forall>t. localOffset env t = (if t < T then c + d else c))
     \<and> (\<forall>l. utcOfLocal env l = (if l < T + c + d then l - c - d else l - c))"

definition dates_in_range :: "time_env \<Rightarrow> bool" where
  "dates_in_range env \<longleftrightarrow> (\<forall>t. dc_minutes (getters env t) \<in> {0..59} \<and> dc_hours (getters env t) \<in> {0..23}
     \<and> month (getters env t) \<in> {1..12})"

lemma parse_every_minute:
  "parseCronExpression to_int ''* * * * *'' =
     Inr \<lparr>minutes = [0..59], hours = [0..23], daysOfMonth = [1..31], months = [1..12], daysOfWeek = [0..6] @ [0],
          dayOfMonthWildcard = True, dayOfWeekWildcard = True\<rparr>"
  by code_simp

text \<open>While the clocks are set back, the next run of a job due every minute lies about one
  set-back in the past: the search starts from the first pass of the repeated local time.\<close>

theorem nextCronRun_set_back:
  assumes "set_back env T c d" and "dates_in_range env" and "T \<le> after" and "after + 60000 < T + d"
  shows "nextCronRun to_int env ''* * * * *'' after None = Inr (after - after mod 60000 + 60000 - d)"
proof -
  define m where "m = after - after mod 60000"
  have m: "m \<le> after" "T \<le> m"
  proof -
    show "m \<le> after" by (simp add: m_def)
    have "T = 60000 * (T div 60000)" using assms(1) by (simp add: set_back_def mod_0_imp_dvd)
    moreover have "T div 60000 \<le> after div 60000" using assms(3) by (rule zdiv_mono1) simp
    moreover have "m = 60000 * (after div 60000)" by (simp add: m_def minus_mod_eq_mult_div)
    ultimately show "T \<le> m" by linarith
  qed
  have c: "(after + c) mod 60000 = after mod 60000"
    using assms(1) by (simp add: set_back_def mod_add_right_eq [symmetric])
  have floor: "floorMinute env after = m - d"
  proof -
    have "after + c - (after + c) mod 60000 = m + c" using c by (simp add: m_def)
    moreover have "m < T + d" using m(1) assms(4) by linarith
    ultimately show ?thesis using assms(1,3) by (simp add: floorMinute_def set_back_def Let_def)
  qed
  have next': "plusMinute env (m - d) = m + 60000 - d"
    using assms(1,4) m by (simp add: plusMinute_def set_back_def)
  have step: "search_minutes env p None maxMinutes u = Some u" if "cronMatches env u p None" for p u
  proof -
    obtain n where "maxMinutes = Suc n" by (cases maxMinutes) (simp_all add: maxMinutes_def)
    then show ?thesis by (elim ssubst) (simp add: that)
  qed
  have range: "dc_minutes (getters env u) \<in> {0..59}" "dc_hours (getters env u) \<in> {0..23}" "month (getters env u) \<in> {1..12}" for u
    using assms(2) by (auto simp: dates_in_range_def)
  show ?thesis unfolding nextCronRun_def parse_every_minute sum.case floor next'
    by (subst step) (use range in \<open>auto simp: cronMatches_def getDateComponents_def Let_def m_def\<close>)
qed

definition set_back_env :: time_env where
  "set_back_env = utc_env\<lparr>localOffset := (\<lambda>t. if t < 36000000 then 3600000 else 0),
     utcOfLocal := (\<lambda>l. if l < 39600000 then l - 3600000 else l)\<rparr>"

theorem nextCronRun_set_back_witness:
  "set_back set_back_env 36000000 0 3600000 \<and> dates_in_range set_back_env
   \<and> nextCronRun decimal set_back_env ''* * * * *'' 37800000 None = Inr 34260000"
proof -
  have zone: "set_back set_back_env 36000000 0 3600000"
    by (simp add: set_back_def set_back_env_def)
  have below: "a mod 60 \<le> 59" "a mod 24 \<le> 23" for a :: int
    using pos_mod_bound [of 60 a] pos_mod_bound [of 24 a] by linarith+
  have range: "dates_in_range set_back_env"
    by (simp add: dates_in_range_def set_back_env_def utc_env_def below)
  show ?thesis
    using nextCronRun_set_back [OF zone range, of 37800000 decimal] zone range by simp
qed

end
