(* ===== verification/Job_Store.thy ===== *)
theory Job_Store
  imports Schedule
begin

text \<open>
  The store of scheduled jobs
  (\<open>packages/coding-agent/src/core/scheduler/job-store.ts\<close>). Every public method runs under a
  file lock, so it is one atomic function from the jobs file to a result and the jobs file.
  \<open>clk i\<close> is the \<open>i\<close>-th value \<open>new Date()\<close> gives within one call. The record \<open>platform\<close>
  holds what the store takes from outside: \<open>Number\<close>, the calendar, the date parser, the
  prompt scanner and \<open>path.resolve\<close>; paths are POSIX paths.
\<close>

section \<open>Records\<close>

datatype job_status = Pending | Running | Success | Failed | Silent | Paused | Completed

record model_ref =
  provider :: "string option"
  model_id :: "string option"

record cron_job =
  job_id :: string
  job_name :: string
  job_prompt :: string
  job_schedule :: string
  job_scheduleDisplay :: string
  job_kind :: schedule_kind
  job_repeat :: bool
  repeatTimes :: "int option"
  completedRuns :: "int option"
  job_intervalMs :: "int option"
  job_cronExpression :: "string option"
  enabled :: bool
  state :: job_status
  createdAt :: int
  updatedAt :: int
  job_nextRunAt :: "int option"
  lastRunAt :: "int option"
  lastStatus :: "job_status option"
  lastError :: "string option"
  lastDeliveryError :: "string option"
  lastOutputPath :: "string option"
  deliver :: string
  origin :: "string option"
  script :: "string option"
  noAgent :: bool
  contextFrom :: "string list option"
  skills :: "string list option"
  tools :: "string list option"
  workdir :: "string option"
  job_model :: "model_ref option"
  job_timezone :: "string option"

text \<open>A number a caller passes: \<open>Fraction\<close> stands for one that \<open>Number.isInteger\<close> refuses.\<close>

datatype js_number = Whole int | Fraction

record create_input =
  ci_name :: string
  ci_prompt :: string
  ci_schedule :: string
  ci_repeat :: "bool option"
  ci_repeatTimes :: "js_number option"
  ci_deliver :: "string option"
  ci_origin :: "string option"
  ci_script :: "string option"
  ci_noAgent :: "bool option"
  ci_contextFrom :: "string list option"
  ci_skills :: "string list option"
  ci_tools :: "string list option"
  ci_workdir :: "string option"
  ci_model :: "model_ref option"
  ci_timezone :: "string option"

text \<open>In an update the outer \<open>None\<close> is \<open>undefined\<close> (leave as it is), the inner one \<open>null\<close> (clear).\<close>

record update_input =
  ui_name :: "string option"
  ui_prompt :: "string option"
  ui_schedule :: "string option"
  ui_repeat :: "bool option"
  ui_repeatTimes :: "js_number option option"
  ui_deliver :: "string option"
  ui_origin :: "string option"
  ui_script :: "string option option"
  ui_noAgent :: "bool option"
  ui_contextFrom :: "string list option option"
  ui_skills :: "string list option option"
  ui_tools :: "string list option option"
  ui_workdir :: "string option option"
  ui_model :: "model_ref option option"
  ui_enabled :: "bool option"
  ui_timezone :: "string option option"

datatype job_error =
  Name_required | Name_too_long | Job_exists string
  | Prompt_required | Prompt_too_long | Unsafe_prompt
  | Bad_schedule schedule_error
  | Script_required | Script_not_relative | Script_traversal
  | No_agent_without_script
  | Repeat_times_invalid | Repeat_times_without_repeat
  | Job_not_found string

record platform =
  to_int :: "string \<Rightarrow> int option"
  tenv :: time_env
  parse_date :: "string \<Rightarrow> int option"
  iso_string :: "int \<Rightarrow> string"
  unsafe_prompt :: "string \<Rightarrow> bool"
  resolve_path :: "string \<Rightarrow> string \<Rightarrow> string"
  store_cwd :: string

section \<open>Input normalisation\<close>

definition normalizeName :: "string \<Rightarrow> job_error + string" where
  "normalizeName value' =
     (let name = js_trim value' in
      if name = [] then Inl Name_required
      else if 120 < int (length name) then Inl Name_too_long
      else Inr name)"

definition normalizePrompt :: "string \<Rightarrow> job_error + string" where
  "normalizePrompt value' =
     (let prompt = js_trim value' in
      if prompt = [] then Inl Prompt_required
      else if 50000 < int (length prompt) then Inl Prompt_too_long
      else Inr prompt)"

text \<open>\<open>Array.from(new Set(xs))\<close> keeps the first of equal items.\<close>

definition normalizeStringList :: "string list option \<Rightarrow> string list option" where
  "normalizeStringList value' =
     (case value' of
        None \<Rightarrow> None
      | Some items \<Rightarrow>
          (let result = filter (\<lambda>s. s \<noteq> []) (map js_trim items)
           in if result \<noteq> [] then Some (rev (remdups (rev result))) else None))"

definition normalizeDeliver :: "string option \<Rightarrow> string" where
  "normalizeDeliver value' =
     (let trimmed = (case value' of None \<Rightarrow> [] | Some v \<Rightarrow> js_trim v);
          deliver' = (if trimmed = [] then ''local'' else trimmed);
          parts = filter (\<lambda>s. s \<noteq> []) (map js_trim (split_on (CHR '','') deliver'))
      in if parts \<noteq> [] then join_with '','' parts else ''local'')"

definition normalizeWorkdir :: "platform \<Rightarrow> string option \<Rightarrow> string option" where
  "normalizeWorkdir pf value' =
     (case value' of
        None \<Rightarrow> None
      | Some v \<Rightarrow> if js_trim v = [] then None else Some (resolve_path pf (store_cwd pf) v))"

text \<open>\<open>path.normalize\<close> of a relative POSIX path: \<open>norm_seg\<close> is what one segment does to the
  segments kept so far, last first.\<close>

fun norm_seg :: "string list \<Rightarrow> string \<Rightarrow> string list" where
  "norm_seg kept seg =
     (if seg = [] \<or> seg = ''.'' then kept
      else if seg = ''..'' then (case kept of k # ks \<Rightarrow> if k = ''..'' then ''..'' # kept else ks | [] \<Rightarrow> [''..''])
      else seg # kept)"

definition normalize_rel :: "string \<Rightarrow> string" where
  "normalize_rel path =
     (let kept = rev (foldl norm_seg [] (split_on (CHR ''/'') path));
          body = (if kept = [] then ''.'' else join_with ''/'' kept)
      in if path \<noteq> [] \<and> last path = CHR ''/'' then body @ ''/'' else body)"

definition has_infix :: "string \<Rightarrow> string \<Rightarrow> bool" where
  "has_infix w s \<longleftrightarrow> list_ex (\<lambda>i. starts_with w (drop i s)) [0..<Suc (length s)]"

definition assertRelativeSafePath :: "string \<Rightarrow> job_error + string" where
  "assertRelativeSafePath path =
     (let trimmed = js_trim path in
      if trimmed = [] then Inl Script_required
      else if starts_with ''/'' trimmed \<or> starts_with ''~'' trimmed then Inl Script_not_relative
      else (let normalized = normalize_rel trimmed in
            if normalized = ''..'' \<or> starts_with ''../'' normalized \<or> has_infix ''/../'' normalized
            then Inl Script_traversal else Inr normalized))"

definition normalizeRepeatTimes :: "js_number option \<Rightarrow> job_error + int option" where
  "normalizeRepeatTimes value' =
     (case value' of
        None \<Rightarrow> Inr None
      | Some Fraction \<Rightarrow> Inl Repeat_times_invalid
      | Some (Whole n) \<Rightarrow> if n < 1 then Inl Repeat_times_invalid else Inr (Some n))"

section \<open>Job ids\<close>

definition id_char :: "char \<Rightarrow> bool" where
  "id_char c \<longleftrightarrow> is_word_char c \<or> c = CHR ''_'' \<or> c = CHR ''-''"

definition slug_char :: "char \<Rightarrow> bool" where
  "slug_char c \<longleftrightarrow> is_digit c \<or> (let n = of_char c :: nat in 97 \<le> n \<and> n \<le> 122) \<or> c = CHR ''_'' \<or> c = CHR ''-''"

text \<open>\<open>JOB_ID_RE\<close>.\<close>

definition JOB_ID_RE :: "string \<Rightarrow> bool" where
  "JOB_ID_RE s \<longleftrightarrow> (case s of [] \<Rightarrow> False | c # cs \<Rightarrow> is_word_char c \<and> list_all id_char cs \<and> 2 \<le> length cs \<and> length cs \<le> 79)"

text \<open>\<open>replace(/[^a-z0-9_-]+/g, "-")\<close>: \<open>inrun\<close> says that the previous character was replaced.\<close>

fun replace_runs :: "bool \<Rightarrow> string \<Rightarrow> string" where
  "replace_runs inrun [] = []"
| "replace_runs inrun (c # cs) =
     (if slug_char c then c # replace_runs False cs
      else if inrun then replace_runs True cs
      else CHR ''-'' # replace_runs True cs)"

definition strip_dashes :: "string \<Rightarrow> string" where
  "strip_dashes s = rev (dropWhile (\<lambda>c. c = CHR ''-'') (rev (dropWhile (\<lambda>c. c = CHR ''-'') s)))"

definition job_slug :: "string \<Rightarrow> string" where
  "job_slug name = take 48 (strip_dashes (replace_runs False (to_lower name)))"

definition job_candidate :: "string \<Rightarrow> nat \<Rightarrow> string" where
  "job_candidate base suffix = base @ ''-'' @ show_nat suffix"

lemma inj_job_candidate: "job_candidate base m = job_candidate base n \<Longrightarrow> m = n"
  by (metis append_same_eq job_candidate_def nat_of_show_nat same_append_eq)

lemma finite_job_candidates: "finite {k. job_candidate base k \<in> set ids}"
  by (rule finite_imageD [of "job_candidate base"], rule finite_subset [of _ "set ids"])
    (auto simp: inj_on_def dest: inj_job_candidate)

function suffix_loop :: "string \<Rightarrow> string list \<Rightarrow> string \<Rightarrow> nat \<Rightarrow> string" where
  "suffix_loop base ids candidate suffix =
     (if candidate \<in> set ids then suffix_loop base ids (job_candidate base suffix) (Suc suffix) else candidate)"
  by pat_completeness auto
termination
proof (relation "measure (\<lambda>(base, ids, candidate, suffix).
      card {k. suffix \<le> k \<and> job_candidate base k \<in> set ids} + (if candidate \<in> set ids then 1 else 0))", goal_cases)
  case (2 base ids candidate suffix)
  let ?S = "\<lambda>n. {k. n \<le> k \<and> job_candidate base k \<in> set ids}"
  have fin: "finite (?S n)" for n
    by (rule finite_subset [OF _ finite_job_candidates [of base ids]]) auto
  show ?case
  proof (cases "job_candidate base suffix \<in> set ids")
    case True
    then have "?S suffix = insert suffix (?S (Suc suffix))" by (auto simp: not_less_eq_eq le_less_Suc_eq)
    then show ?thesis using 2 True fin by simp
  next
    case False
    have "card (?S (Suc suffix)) \<le> card (?S suffix)" by (rule card_mono [OF fin]) auto
    then show ?thesis using 2 False by simp
  qed
qed simp

declare suffix_loop.simps [simp del]

definition createJobId :: "string \<Rightarrow> string \<Rightarrow> cron_job list \<Rightarrow> string" where
  "createJobId uuid name jobs =
     (let slug = job_slug name;
          base = (if JOB_ID_RE slug then slug else ''job-'' @ take 8 uuid)
      in suffix_loop base (map job_id jobs) base 2)"

section \<open>The jobs file\<close>

text \<open>A file that is missing is created empty; one that does not parse reads as empty.\<close>

datatype jobs_file = Missing | Corrupt | Jobs "cron_job list"

definition ensureUnlocked :: "jobs_file \<Rightarrow> jobs_file" where
  "ensureUnlocked file' = (if file' = Missing then Jobs [] else file')"

definition readJobsFile :: "jobs_file \<Rightarrow> cron_job list" where
  "readJobsFile file' = (case file' of Jobs js \<Rightarrow> js | _ \<Rightarrow> [])"

definition matches :: "string \<Rightarrow> cron_job \<Rightarrow> bool" where
  "matches idOrName job \<longleftrightarrow> job_id job = idOrName \<or> job_name job = idOrName"

definition resolveJob :: "cron_job list \<Rightarrow> string \<Rightarrow> cron_job option" where
  "resolveJob jobs idOrName = find (matches idOrName) jobs"

definition resolveJobIndex :: "cron_job list \<Rightarrow> string \<Rightarrow> job_error + nat" where
  "resolveJobIndex jobs idOrName =
     (case find_index (matches idOrName) jobs of None \<Rightarrow> Inl (Job_not_found idOrName) | Some i \<Rightarrow> Inr i)"

definition job_timing :: "cron_job \<Rightarrow> timing" where
  "job_timing job = \<lparr>tm_kind = job_kind job, tm_repeat = job_repeat job, tm_intervalMs = job_intervalMs job,
     tm_cronExpression = job_cronExpression job, tm_schedule = job_schedule job, tm_timezone = job_timezone job\<rparr>"

abbreviation bad :: "schedule_error + 'a \<Rightarrow> job_error + 'a" where
  "bad r \<equiv> map_sum Bad_schedule id r"

definition nextRun :: "platform \<Rightarrow> cron_job \<Rightarrow> int \<Rightarrow> job_error + int option" where
  "nextRun pf job after = bad (computeNextRun (to_int pf) (tenv pf) (job_timing job) after)"

definition graceMs :: "platform \<Rightarrow> int \<Rightarrow> cron_job \<Rightarrow> int" where
  "graceMs pf probe job = computeGraceWindowSeconds (to_int pf) (tenv pf) probe (job_timing job) * 1000"

definition list_jobs :: "jobs_file \<Rightarrow> cron_job list" where
  "list_jobs file' = readJobsFile (ensureUnlocked file')"

definition get_job :: "jobs_file \<Rightarrow> string \<Rightarrow> cron_job option" where
  "get_job file' idOrName = resolveJob (readJobsFile (ensureUnlocked file')) idOrName"

section \<open>Creating and updating\<close>

definition parse_for :: "platform \<Rightarrow> string \<Rightarrow> int \<Rightarrow> bool option \<Rightarrow> string option \<Rightarrow> job_error + parsed_schedule" where
  "parse_for pf input now forceRepeat tz =
     bad (parseSchedule (to_int pf) (tenv pf) (parse_date pf) (iso_string pf) input now forceRepeat tz)"

definition new_job ::
  "platform \<Rightarrow> create_input \<Rightarrow> string \<Rightarrow> string \<Rightarrow> string \<Rightarrow> parsed_schedule \<Rightarrow> int option \<Rightarrow> string option \<Rightarrow> string option
     \<Rightarrow> int \<Rightarrow> cron_job" where
  "new_job pf input jid name prompt parsed limit script' tz now =
     \<lparr>job_id = jid, job_name = name, job_prompt = prompt, job_schedule = schedule parsed,
      job_scheduleDisplay = scheduleDisplay parsed, job_kind = kind parsed, job_repeat = repeat parsed,
      repeatTimes = limit, completedRuns = None, job_intervalMs = intervalMs parsed,
      job_cronExpression = cronExpression parsed, enabled = True, state = Pending, createdAt = now, updatedAt = now,
      job_nextRunAt = Some (nextRunAt parsed), lastRunAt = None, lastStatus = None, lastError = None,
      lastDeliveryError = None, lastOutputPath = None, deliver = normalizeDeliver (ci_deliver input),
      origin = ci_origin input, script = script', noAgent = (ci_noAgent input = Some True),
      contextFrom = normalizeStringList (ci_contextFrom input), skills = normalizeStringList (ci_skills input),
      tools = normalizeStringList (ci_tools input), workdir = normalizeWorkdir pf (ci_workdir input),
      job_model = ci_model input, job_timezone = tz\<rparr>"

definition truthy :: "string option \<Rightarrow> bool" where
  "truthy v \<longleftrightarrow> v \<noteq> None \<and> v \<noteq> Some []"

definition create :: "platform \<Rightarrow> (nat \<Rightarrow> int) \<Rightarrow> string \<Rightarrow> create_input \<Rightarrow> jobs_file \<Rightarrow> job_error + cron_job \<times> jobs_file" where
  "create pf clk uuid input file' =
     (let jobs = readJobsFile (ensureUnlocked file') in
      and_then (normalizeName (ci_name input)) (\<lambda>name.
      and_then (ensure (\<not> list_ex (\<lambda>job. job_name job = name) jobs) (Job_exists name)) (\<lambda>_.
      and_then (normalizePrompt (ci_prompt input)) (\<lambda>prompt.
      and_then (ensure (\<not> unsafe_prompt pf prompt) Unsafe_prompt) (\<lambda>_.
      and_then (if truthy (ci_timezone input)
                then bad (map_sum id Some (validateTimezone (tenv pf) (the (ci_timezone input)))) else Inr None) (\<lambda>tz.
      and_then (parse_for pf (ci_schedule input) (clk 0) (ci_repeat input) tz) (\<lambda>parsed.
      and_then (if truthy (ci_script input)
                then map_sum id Some (assertRelativeSafePath (the (ci_script input))) else Inr None) (\<lambda>script'.
      and_then (ensure (\<not> (ci_noAgent input = Some True \<and> \<not> truthy (ci_script input))) No_agent_without_script) (\<lambda>_.
      and_then (normalizeRepeatTimes (ci_repeatTimes input)) (\<lambda>limit.
      and_then (ensure (limit = None \<or> repeat parsed) Repeat_times_without_repeat) (\<lambda>_.
        (let job = new_job pf input (createJobId uuid name jobs) name prompt parsed limit script' tz (clk 1)
         in Inr (job, Jobs (jobs @ [job]))))))))))))))"

text \<open>The steps of \<open>update\<close>, each on the copy \<open>next\<close> of the job, in the order of the source.\<close>

definition update_name :: "update_input \<Rightarrow> cron_job list \<Rightarrow> cron_job \<Rightarrow> cron_job \<Rightarrow> job_error + cron_job" where
  "update_name input jobs current job =
     (case ui_name input of
        None \<Rightarrow> Inr job
      | Some v \<Rightarrow>
          and_then (normalizeName v) (\<lambda>name.
          and_then (ensure (\<not> list_ex (\<lambda>j. job_id j \<noteq> job_id current \<and> job_name j = name) jobs) (Job_exists name)) (\<lambda>_.
            Inr (job\<lparr>job_name := name\<rparr>))))"

definition update_prompt :: "platform \<Rightarrow> update_input \<Rightarrow> cron_job \<Rightarrow> job_error + cron_job" where
  "update_prompt pf input job =
     (case ui_prompt input of
        None \<Rightarrow> Inr job
      | Some v \<Rightarrow>
          and_then (normalizePrompt v) (\<lambda>prompt.
          and_then (ensure (\<not> unsafe_prompt pf prompt) Unsafe_prompt) (\<lambda>_. Inr (job\<lparr>job_prompt := prompt\<rparr>))))"

definition update_timezone :: "platform \<Rightarrow> update_input \<Rightarrow> cron_job \<Rightarrow> job_error + cron_job" where
  "update_timezone pf input job =
     (case ui_timezone input of
        None \<Rightarrow> Inr job
      | Some None \<Rightarrow> Inr (job\<lparr>job_timezone := None\<rparr>)
      | Some (Some tz) \<Rightarrow> and_then (bad (validateTimezone (tenv pf) tz)) (\<lambda>tz'. Inr (job\<lparr>job_timezone := Some tz'\<rparr>)))"

definition update_schedule :: "platform \<Rightarrow> (nat \<Rightarrow> int) \<Rightarrow> update_input \<Rightarrow> cron_job \<Rightarrow> cron_job \<Rightarrow> job_error + cron_job" where
  "update_schedule pf clk input current job =
     (if ui_schedule input \<noteq> None \<or> ui_repeat input \<noteq> None \<or> ui_timezone input \<noteq> None then
        and_then (parse_for pf (case ui_schedule input of Some s \<Rightarrow> s | None \<Rightarrow> job_schedule current) (clk 1)
                    (Some (case ui_repeat input of Some r \<Rightarrow> r | None \<Rightarrow> job_repeat current)) (job_timezone job)) (\<lambda>parsed.
          Inr (job\<lparr>job_schedule := schedule parsed, job_scheduleDisplay := scheduleDisplay parsed, job_kind := kind parsed,
                  job_repeat := repeat parsed, job_intervalMs := intervalMs parsed,
                  job_cronExpression := cronExpression parsed, job_nextRunAt := Some (nextRunAt parsed), state := Pending\<rparr>))
      else Inr job)"

definition update_enabled :: "platform \<Rightarrow> (nat \<Rightarrow> int) \<Rightarrow> update_input \<Rightarrow> cron_job \<Rightarrow> job_error + cron_job" where
  "update_enabled pf clk input job =
     (case ui_enabled input of
        None \<Rightarrow> Inr job
      | Some b \<Rightarrow>
          (let job' = job\<lparr>enabled := b, state := (if b then Pending else Paused)\<rparr>
           in if b \<and> job_nextRunAt job = None
              then and_then (nextRun pf job' (clk 2)) (\<lambda>n.
                     Inr (job'\<lparr>job_nextRunAt := Some (case n of Some t \<Rightarrow> t | None \<Rightarrow> clk 3)\<rparr>))
              else Inr job'))"

definition update_script :: "update_input \<Rightarrow> cron_job \<Rightarrow> job_error + cron_job" where
  "update_script input job =
     and_then (case ui_script input of
                 None \<Rightarrow> Inr job
               | Some None \<Rightarrow> Inr (job\<lparr>script := None\<rparr>)
               | Some (Some s) \<Rightarrow> and_then (assertRelativeSafePath s) (\<lambda>p. Inr (job\<lparr>script := Some p\<rparr>))) (\<lambda>job.
     (let job' = (case ui_noAgent input of None \<Rightarrow> job | Some b \<Rightarrow> job\<lparr>noAgent := b\<rparr>)
      in and_then (ensure (\<not> (noAgent job' \<and> \<not> truthy (script job'))) No_agent_without_script) (\<lambda>_. Inr job')))"

definition update_repeatTimes :: "update_input \<Rightarrow> cron_job \<Rightarrow> job_error + cron_job" where
  "update_repeatTimes input job =
     and_then (case ui_repeatTimes input of
                 None \<Rightarrow> Inr job
               | Some v \<Rightarrow> and_then (normalizeRepeatTimes v) (\<lambda>n. Inr (job\<lparr>repeatTimes := n\<rparr>))) (\<lambda>job'.
     and_then (ensure (repeatTimes job' = None \<or> job_repeat job') Repeat_times_without_repeat) (\<lambda>_. Inr job'))"

definition update_rest :: "platform \<Rightarrow> update_input \<Rightarrow> cron_job \<Rightarrow> cron_job" where
  "update_rest pf input job =
     (let job = (case ui_contextFrom input of None \<Rightarrow> job | Some v \<Rightarrow> job\<lparr>contextFrom := normalizeStringList v\<rparr>);
          job = (case ui_skills input of None \<Rightarrow> job | Some v \<Rightarrow> job\<lparr>skills := normalizeStringList v\<rparr>);
          job = (case ui_tools input of None \<Rightarrow> job | Some v \<Rightarrow> job\<lparr>tools := normalizeStringList v\<rparr>);
          job = (case ui_workdir input of None \<Rightarrow> job | Some v \<Rightarrow> job\<lparr>workdir := normalizeWorkdir pf v\<rparr>)
      in (case ui_model input of None \<Rightarrow> job | Some v \<Rightarrow> job\<lparr>job_model := v\<rparr>))"

definition update_delivery :: "update_input \<Rightarrow> cron_job \<Rightarrow> cron_job" where
  "update_delivery input job =
     (let job = (case ui_deliver input of None \<Rightarrow> job | Some v \<Rightarrow> job\<lparr>deliver := normalizeDeliver (Some v)\<rparr>)
      in (case ui_origin input of None \<Rightarrow> job | Some v \<Rightarrow> job\<lparr>origin := Some v\<rparr>))"

definition updated_job ::
  "platform \<Rightarrow> (nat \<Rightarrow> int) \<Rightarrow> update_input \<Rightarrow> cron_job list \<Rightarrow> cron_job \<Rightarrow> job_error + cron_job" where
  "updated_job pf clk input jobs current =
     and_then (update_name input jobs current (current\<lparr>updatedAt := clk 0\<rparr>)) (\<lambda>job.
     and_then (update_prompt pf input job) (\<lambda>job.
     and_then (update_timezone pf input job) (\<lambda>job.
     and_then (update_schedule pf clk input current job) (\<lambda>job.
     and_then (update_enabled pf clk input job) (\<lambda>job.
     and_then (update_script input (update_delivery input job)) (\<lambda>job.
     and_then (update_repeatTimes input job) (\<lambda>job.
       Inr (update_rest pf input job))))))))"

definition update ::
  "platform \<Rightarrow> (nat \<Rightarrow> int) \<Rightarrow> string \<Rightarrow> update_input \<Rightarrow> jobs_file \<Rightarrow> job_error + cron_job \<times> jobs_file" where
  "update pf clk idOrName input file' =
     (let jobs = readJobsFile (ensureUnlocked file') in
      and_then (resolveJobIndex jobs idOrName) (\<lambda>i.
      and_then (updated_job pf clk input jobs (jobs ! i)) (\<lambda>job.
        Inr (job, Jobs (jobs[i := job])))))"

definition no_update :: update_input where
  "no_update = \<lparr>ui_name = None, ui_prompt = None, ui_schedule = None, ui_repeat = None, ui_repeatTimes = None,
     ui_deliver = None, ui_origin = None, ui_script = None, ui_noAgent = None, ui_contextFrom = None, ui_skills = None,
     ui_tools = None, ui_workdir = None, ui_model = None, ui_enabled = None, ui_timezone = None\<rparr>"

definition pause :: "platform \<Rightarrow> (nat \<Rightarrow> int) \<Rightarrow> string \<Rightarrow> jobs_file \<Rightarrow> job_error + cron_job \<times> jobs_file" where
  "pause pf clk idOrName file' = update pf clk idOrName (no_update\<lparr>ui_enabled := Some False\<rparr>) file'"

definition resume :: "platform \<Rightarrow> (nat \<Rightarrow> int) \<Rightarrow> string \<Rightarrow> jobs_file \<Rightarrow> job_error + cron_job \<times> jobs_file" where
  "resume pf clk idOrName file' = update pf clk idOrName (no_update\<lparr>ui_enabled := Some True\<rparr>) file'"

section \<open>Removing, triggering, running\<close>

text \<open>\<open>remove\<close> also deletes the directory of the job's outputs, named by the id it returns.\<close>

definition remove :: "string \<Rightarrow> jobs_file \<Rightarrow> job_error + cron_job \<times> jobs_file" where
  "remove idOrName file' =
     (let jobs = readJobsFile (ensureUnlocked file') in
      and_then (resolveJobIndex jobs idOrName) (\<lambda>i. Inr (jobs ! i, Jobs (splice i 1 [] jobs))))"

definition trigger :: "string \<Rightarrow> int \<Rightarrow> jobs_file \<Rightarrow> job_error + cron_job \<times> jobs_file" where
  "trigger idOrName now file' =
     (let jobs = readJobsFile (ensureUnlocked file') in
      and_then (resolveJobIndex jobs idOrName) (\<lambda>i.
        (let job = (jobs ! i)\<lparr>enabled := True, state := Pending, job_nextRunAt := Some now, updatedAt := now\<rparr>
         in Inr (job, Jobs (jobs[i := job])))))"

text \<open>One turn of the loop of \<open>getDueJobs\<close>: what it adds to \<open>due\<close>, the job it leaves in the
  file, and whether it set \<open>mutated\<close>.\<close>

definition due_step :: "platform \<Rightarrow> int \<Rightarrow> int \<Rightarrow> cron_job \<Rightarrow> job_error + cron_job list \<times> cron_job \<times> bool" where
  "due_step pf probe now job =
     (if \<not> enabled job \<or> state job = Running then Inr ([], job, False)
      else case job_nextRunAt job of
        None \<Rightarrow> Inr ([], job, False)
      | Some scheduledAt \<Rightarrow>
          if now < scheduledAt then Inr ([], job, False)
          else if graceMs pf probe job < now - scheduledAt then
            (if job_repeat job
             then and_then (nextRun pf job now) (\<lambda>n. Inr ([], job\<lparr>job_nextRunAt := n, updatedAt := now\<rparr>, True))
             else Inr ([], job, False))
          else Inr ([job], job, False))"

fun due_loop :: "platform \<Rightarrow> (nat \<Rightarrow> int) \<Rightarrow> int \<Rightarrow> nat \<Rightarrow> cron_job list \<Rightarrow> job_error + cron_job list \<times> cron_job list \<times> bool" where
  "due_loop pf clk now i [] = Inr ([], [], False)"
| "due_loop pf clk now i (job # rest) =
     and_then (due_step pf (clk i) now job) (\<lambda>(due, job', mutated).
     and_then (due_loop pf clk now (Suc i) rest) (\<lambda>(dues, rest', mutated').
       Inr (due @ dues, job' # rest', mutated \<or> mutated')))"

definition getDueJobs :: "platform \<Rightarrow> (nat \<Rightarrow> int) \<Rightarrow> int \<Rightarrow> jobs_file \<Rightarrow> job_error + cron_job list \<times> jobs_file" where
  "getDueJobs pf clk now file' =
     and_then (due_loop pf clk now 0 (readJobsFile (ensureUnlocked file'))) (\<lambda>(due, jobs', mutated).
       Inr (due, if mutated then Jobs jobs' else ensureUnlocked file'))"

definition claimDueJob ::
  "platform \<Rightarrow> int \<Rightarrow> string \<Rightarrow> int \<Rightarrow> jobs_file \<Rightarrow> job_error + cron_job option \<times> jobs_file" where
  "claimDueJob pf probe jid now file' =
     (let file' = ensureUnlocked file'; jobs = readJobsFile file' in
      case find_index (\<lambda>job. job_id job = jid) jobs of
        None \<Rightarrow> Inr (None, file')
      | Some i \<Rightarrow>
          (let current = jobs ! i in
           if \<not> enabled current \<or> state current = Running then Inr (None, file')
           else case job_nextRunAt current of
             None \<Rightarrow> Inr (None, file')
           | Some scheduledAt \<Rightarrow>
               if now < scheduledAt then Inr (None, file')
               else if graceMs pf probe current < now - scheduledAt then
                 (if job_repeat current
                  then and_then (nextRun pf current now) (\<lambda>n.
                         Inr (None, Jobs (jobs[i := current\<lparr>job_nextRunAt := n, updatedAt := now\<rparr>])))
                  else Inr (None, file'))
               else and_then (nextRun pf current now) (\<lambda>n.
                      (let claimed = current\<lparr>state := Running, enabled := job_repeat current, job_nextRunAt := n, updatedAt := now\<rparr>
                       in Inr (Some claimed, Jobs (jobs[i := claimed]))))))"

record run_result =
  rr_status :: job_status
  rr_outputPath :: "string option"
  rr_error :: "string option"
  rr_ranAt :: "int option"

definition marked_job :: "(nat \<Rightarrow> int) \<Rightarrow> run_result \<Rightarrow> cron_job \<Rightarrow> cron_job" where
  "marked_job clk result current =
     (let runs = (case completedRuns current of Some n \<Rightarrow> n | None \<Rightarrow> 0) + 1;
          reachedRunLimit = (case repeatTimes current of Some k \<Rightarrow> k \<le> runs | None \<Rightarrow> False);
          finalState = (if reachedRunLimit then Completed
                        else if job_repeat current \<and> enabled current then Pending else rr_status result)
      in current\<lparr>state := finalState, enabled := (enabled current \<and> \<not> reachedRunLimit),
           job_nextRunAt := (if reachedRunLimit then None else job_nextRunAt current), completedRuns := Some runs,
           lastRunAt := Some (case rr_ranAt result of Some t \<Rightarrow> t | None \<Rightarrow> clk 0), lastStatus := Some (rr_status result),
           lastError := rr_error result, lastOutputPath := rr_outputPath result, updatedAt := clk 1\<rparr>)"

definition markRun :: "(nat \<Rightarrow> int) \<Rightarrow> string \<Rightarrow> run_result \<Rightarrow> jobs_file \<Rightarrow> job_error + cron_job \<times> jobs_file" where
  "markRun clk jid result file' =
     (let jobs = readJobsFile (ensureUnlocked file') in
      and_then (resolveJobIndex jobs jid) (\<lambda>i.
        (let job = marked_job clk result (jobs ! i) in Inr (job, Jobs (jobs[i := job])))))"

definition markDelivery :: "(nat \<Rightarrow> int) \<Rightarrow> string \<Rightarrow> string option \<Rightarrow> jobs_file \<Rightarrow> job_error + cron_job \<times> jobs_file" where
  "markDelivery clk jid deliveryError file' =
     (let jobs = readJobsFile (ensureUnlocked file') in
      and_then (resolveJobIndex jobs jid) (\<lambda>i.
        (let job = (jobs ! i)\<lparr>lastDeliveryError := deliveryError, updatedAt := clk 0\<rparr> in Inr (job, Jobs (jobs[i := job])))))"

definition stale_message :: "nat \<Rightarrow> string" where
  "stale_message timeoutMs = ''Job was reset after stale running state (>'' @ show_nat ((timeoutMs + 500) div 1000) @ ''s).''"

fun stale_loop :: "platform \<Rightarrow> nat \<Rightarrow> int \<Rightarrow> cron_job list \<Rightarrow> job_error + nat \<times> cron_job list" where
  "stale_loop pf timeoutMs now [] = Inr (0, [])"
| "stale_loop pf timeoutMs now (job # rest) =
     and_then
       (if state job \<noteq> Running then Inr (0, job)
        else if now - updatedAt job < int timeoutMs then Inr (0, job)
        else and_then (if job_repeat job then nextRun pf job now else Inr None) (\<lambda>n.
               Inr (1, job\<lparr>state := (if job_repeat job \<and> enabled job then Pending else Failed), job_nextRunAt := n,
                          lastError := Some (stale_message timeoutMs), updatedAt := now\<rparr>))) (\<lambda>(k, job').
     and_then (stale_loop pf timeoutMs now rest) (\<lambda>(n, rest'). Inr (k + n, job' # rest')))"

definition resetStaleRunning :: "platform \<Rightarrow> nat \<Rightarrow> int \<Rightarrow> jobs_file \<Rightarrow> job_error + nat \<times> jobs_file" where
  "resetStaleRunning pf timeoutMs now file' =
     and_then (stale_loop pf timeoutMs now (readJobsFile (ensureUnlocked file'))) (\<lambda>(n, jobs').
       Inr (n, if 0 < n then Jobs jobs' else ensureUnlocked file'))"

end
