(* ===== verification/Job_Lifecycle.thy ===== *)
theory Job_Lifecycle
  imports Job_Store
begin

text \<open>
  What the job store keeps over every sequence of operations, and the life of a job: due,
  claimed, run, rescheduled. The jobs file is reached from a missing or corrupt one by any
  interleaving of the operations, each atomic under the lock.
\<close>

section \<open>Paths\<close>

definition safe_path :: "string \<Rightarrow> bool" where
  "safe_path p \<longleftrightarrow> p \<noteq> [] \<and> \<not> starts_with ''/'' p \<and> ''..'' \<notin> set (split_on (CHR ''/'') p)"

text \<open>The segments kept by \<open>normalize\<close> are free of slashes, and the \<open>..\<close> among them come first.\<close>

definition kept_ok :: "string list \<Rightarrow> bool" where
  "kept_ok kept \<longleftrightarrow> (\<forall>s \<in> set kept. CHR ''/'' \<notin> set s \<and> s \<noteq> []) \<and> (\<exists>n xs. kept = xs @ replicate n ''..'' \<and> ''..'' \<notin> set xs)"

lemma kept_ok_norm_seg:
  assumes "kept_ok kept" "CHR ''/'' \<notin> set seg"
  shows "kept_ok (norm_seg kept seg)"
proof -
  obtain n xs where k: "kept = xs @ replicate n ''..''" "''..'' \<notin> set xs" and ok: "\<forall>s \<in> set kept. CHR ''/'' \<notin> set s \<and> s \<noteq> []"
    using assms(1) by (auto simp: kept_ok_def)
  have more: "kept = replicate n ''..'' \<Longrightarrow> kept_ok (''..'' # kept)"
    by (auto simp: kept_ok_def intro!: exI [where x = "Suc n"])
  show ?thesis
  proof (cases xs)
    case Nil
    then have "norm_seg kept ''..'' = ''..'' # kept" using k by (cases n) auto
    then show ?thesis using assms k ok Nil more
      by (cases "seg = ''..''") (auto simp: kept_ok_def intro!: exI [where x = n] exI [where x = "[seg]"])
  next
    case (Cons x ys)
    then have "norm_seg kept ''..'' = ys @ replicate n ''..''" using k by auto
    moreover have "kept_ok (ys @ replicate n ''..'')" using k ok Cons by (auto simp: kept_ok_def)
    ultimately show ?thesis using assms k ok
      by (cases "seg = ''..''") (auto simp: kept_ok_def intro!: exI [where x = n] exI [where x = "seg # xs"])
  qed
qed

lemma kept_ok_foldl: "kept_ok kept \<Longrightarrow> \<forall>s \<in> set segs. CHR ''/'' \<notin> set s \<Longrightarrow> kept_ok (foldl norm_seg kept segs)"
  by (induction segs arbitrary: kept) (auto intro!: kept_ok_norm_seg simp del: norm_seg.simps)

lemma kept_rev: "kept_ok kept \<Longrightarrow> ''..'' \<in> set kept \<Longrightarrow> \<exists>ys. rev kept = ''..'' # ys"
proof -
  assume "kept_ok kept" "''..'' \<in> set kept"
  then obtain n xs where "kept = xs @ replicate n ''..''" "n \<noteq> 0" by (auto simp: kept_ok_def)
  then have "rev kept = replicate n ''..'' @ rev xs" "n \<noteq> 0" by simp_all
  then show ?thesis by (cases n) simp_all
qed

lemma join_with_head: "\<exists>t. join_with ''/'' (s # ss) = s @ t \<and> (t = [] \<or> (\<exists>u. t = CHR ''/'' # u))"
  by (cases ss) auto

lemma split_on_append: "split_on c (xs @ ys) = butlast (split_on c xs) @ split_on c (last (split_on c xs) @ ys)"
proof (induction xs)
  case (Cons x xs)
  obtain q qs where q: "split_on c xs = q # qs" using split_on_not_Nil [of c xs] by (cases "split_on c xs") auto
  obtain r rs where r: "split_on c (xs @ ys) = r # rs" using split_on_not_Nil [of c "xs @ ys"] by (cases "split_on c (xs @ ys)") auto
  show ?case
  proof (cases qs)
    case Nil
    then show ?thesis using Cons q r by (cases "x = c") auto
  next
    case (Cons q' qs')
    then show ?thesis using Cons.IH q r by auto
  qed
qed simp

lemma normalize_rel_safe:
  assumes "CHR ''/'' \<noteq> hd path" "normalize_rel path \<noteq> ''..''" "\<not> starts_with ''../'' (normalize_rel path)"
  shows "safe_path (normalize_rel path)"
proof -
  define kept where "kept = foldl norm_seg [] (split_on (CHR ''/'') path)"
  have kept: "kept_ok kept" unfolding kept_def
    by (rule kept_ok_foldl) (auto simp: kept_ok_def dest: split_on_sep_free)
  define body where "body = (if rev kept = [] then ''.'' else join_with ''/'' (rev kept))"
  have norm: "normalize_rel path = body \<or> normalize_rel path = body @ ''/''"
    by (auto simp: normalize_rel_def Let_def body_def kept_def)
  have nodots: "''..'' \<notin> set kept"
  proof
    assume "''..'' \<in> set kept"
    with kept obtain ys where "rev kept = ''..'' # ys" using kept_rev by blast
    then obtain t where "body = ''..'' @ t" "t = [] \<or> (\<exists>u. t = CHR ''/'' # u)"
      using join_with_head [of "''..''" ys] by (auto simp: body_def)
    with norm assms(2,3) show False by auto
  qed
  have split: "split_on (CHR ''/'') body = (if kept = [] then [''.''] else rev kept)"
    using kept by (auto simp: body_def kept_ok_def split_on_no_sep intro!: split_on_join)
  have first: "\<not> starts_with ''/'' body"
  proof (cases "rev kept")
    case (Cons s ss)
    then have "s \<in> set kept" by (metis list.set_intros(1) set_rev)
    with kept have "s \<noteq> []" "CHR ''/'' \<notin> set s" by (auto simp: kept_ok_def)
    with Cons join_with_head [of s ss] show ?thesis by (cases s) (auto simp: body_def)
  qed (simp add: body_def)
  have ne: "body \<noteq> []"
  proof
    assume "body = []"
    with split have "kept = [[]]" by (auto split: if_splits)
    with kept show False by (simp add: kept_ok_def)
  qed
  show ?thesis using norm
  proof
    assume "normalize_rel path = body"
    with split nodots first ne show ?thesis by (auto simp: safe_path_def split: if_splits)
  next
    assume eq: "normalize_rel path = body @ ''/''"
    have "split_on (CHR ''/'') (body @ ''/'') = split_on (CHR ''/'') body @ [[]]"
    proof -
      let ?l = "last (split_on (CHR ''/'') body)"
      have "CHR ''/'' \<notin> set ?l" by (metis last_in_set split_on_not_Nil split_on_sep_free)
      then have "split_on (CHR ''/'') (?l @ ''/'') = [?l, []]" by (simp add: split_on_append_sep)
      then show ?thesis by (subst split_on_append) simp
    qed
    with eq split nodots first ne show ?thesis by (cases body) (auto simp: safe_path_def split: if_splits)
  qed
qed

lemma assertRelativeSafePath_safe: "assertRelativeSafePath path = Inr p \<Longrightarrow> safe_path p"
  by (auto simp: assertRelativeSafePath_def Let_def simp del: starts_with_Cons split: if_splits
      intro!: normalize_rel_safe) (metis hd_Cons_tl starts_with_Cons starts_with_Nil)

section \<open>Fresh ids\<close>

definition id_ok :: "string \<Rightarrow> bool" where
  "id_ok s \<longleftrightarrow> s \<noteq> [] \<and> is_word_char (hd s) \<and> list_all id_char s"

lemma suffix_loop_fresh: "suffix_loop base ids candidate n \<notin> set ids"
  by (induction base ids candidate n rule: suffix_loop.induct) (subst suffix_loop.simps, simp)

lemma suffix_loop_form:
  "suffix_loop base ids candidate n = candidate \<or> (\<exists>k. suffix_loop base ids candidate n = job_candidate base k)"
  by (induction base ids candidate n rule: suffix_loop.induct) (subst (1 2) suffix_loop.simps, auto)

lemma is_digit_id_char: "is_digit c \<Longrightarrow> id_char c"
  by (simp add: id_char_def is_word_char_def)

lemma id_ok_candidate: "id_ok base \<Longrightarrow> id_ok (job_candidate base k)"
  by (auto simp: id_ok_def job_candidate_def list_all_iff is_digit_id_char dest: show_nat_digits) (simp add: id_char_def)

lemma is_word_id_char: "is_word_char c \<Longrightarrow> id_char c"
  by (simp add: id_char_def)

lemma JOB_ID_RE_ok: "JOB_ID_RE s \<Longrightarrow> id_ok s"
  by (cases s) (auto simp: JOB_ID_RE_def id_ok_def is_word_id_char)

lemma createJobId_fresh: "createJobId uuid name jobs \<notin> job_id ` set jobs"
  using suffix_loop_fresh by (metis createJobId_def list.set_map)

lemma createJobId_ok:
  assumes "list_all is_word_char (take 8 uuid)"
  shows "id_ok (createJobId uuid name jobs)"
proof -
  have base: "id_ok (''job-'' @ take 8 uuid)"
    using assms by (auto simp: id_ok_def list_all_iff is_word_id_char) (simp_all add: id_char_def is_word_char_def is_digit_def)
  define b where "b = (if JOB_ID_RE (job_slug name) then job_slug name else ''job-'' @ take 8 uuid)"
  have "id_ok b" using base by (auto simp: b_def intro: JOB_ID_RE_ok)
  moreover have "createJobId uuid name jobs = suffix_loop b (map job_id jobs) b 2"
    by (simp add: createJobId_def b_def Let_def)
  ultimately show ?thesis using suffix_loop_form [of b "map job_id jobs" b 2] by (auto intro: id_ok_candidate)
qed

section \<open>The invariant of the jobs file\<close>

definition schedule_ok :: "schedule_kind \<Rightarrow> bool \<Rightarrow> int option \<Rightarrow> string option \<Rightarrow> bool" where
  "schedule_ok k rep ms cron =
     (case k of
        Once \<Rightarrow> \<not> rep
      | Interval \<Rightarrow> rep \<and> (\<exists>n. ms = Some n \<and> 0 < n)
      | Cron \<Rightarrow> rep \<and> truthy cron)"

definition job_ok :: "cron_job \<Rightarrow> bool" where
  "job_ok job \<longleftrightarrow> id_ok (job_id job) \<and> job_name job \<noteq> [] \<and> length (job_name job) \<le> 120
     \<and> (\<forall>p. script job = Some p \<longrightarrow> safe_path p) \<and> (noAgent job \<longrightarrow> truthy (script job))
     \<and> (\<forall>k. repeatTimes job = Some k \<longrightarrow> 1 \<le> k \<and> job_repeat job)
     \<and> schedule_ok (job_kind job) (job_repeat job) (job_intervalMs job) (job_cronExpression job)"

definition jobs_ok :: "cron_job list \<Rightarrow> bool" where
  "jobs_ok jobs \<longleftrightarrow> distinct (map job_id jobs) \<and> distinct (map job_name jobs) \<and> list_all job_ok jobs"

named_theorems job_defs \<open>definitions of the steps of an update\<close>

lemmas [job_defs] = update_name_def update_prompt_def update_timezone_def update_schedule_def update_enabled_def
  update_script_def update_repeatTimes_def update_rest_def update_delivery_def

lemmas result_simps = and_then_Inr Let_def

lemma normalizeName_ok: "normalizeName v = Inr n \<Longrightarrow> n \<noteq> [] \<and> length n \<le> 120"
  by (auto simp: normalizeName_def Let_def split: if_splits)

lemma normalizeRepeatTimes_ok: "normalizeRepeatTimes v = Inr (Some k) \<Longrightarrow> 1 \<le> k"
  by (auto simp: normalizeRepeatTimes_def split: option.splits js_number.splits if_splits)

lemma parse_for_ok: "parse_for pf s now fr tz = Inr p \<Longrightarrow> schedule_ok (kind p) (repeat p) (intervalMs p) (cronExpression p)"
proof -
  assume "parse_for pf s now fr tz = Inr p"
  then have "parseSchedule (to_int pf) (tenv pf) (parse_date pf) (iso_string pf) s now fr tz = Inr p"
    by (cases "parseSchedule (to_int pf) (tenv pf) (parse_date pf) (iso_string pf) s now fr tz") (auto simp: parse_for_def)
  then show ?thesis
    by (cases rule: parseSchedule_cases) (auto simp: schedule_ok_def truthy_def)
qed

lemma map_sum_Inr: "map_sum f g r = Inr y \<longleftrightarrow> (\<exists>x. r = Inr x \<and> y = g x)"
  by (cases r) auto

lemma create_ok:
  assumes "create pf clk uuid input f = Inr (job, f')" "jobs_ok (readJobsFile f)" "list_all is_word_char (take 8 uuid)"
  shows "jobs_ok (readJobsFile f')"
proof -
  define jobs where "jobs = readJobsFile (ensureUnlocked f)"
  have jobs: "jobs_ok jobs" using assms(2) by (auto simp: jobs_def ensureUnlocked_def readJobsFile_def split: jobs_file.splits)
  from assms(1) obtain name prompt tz parsed script' limit where
    name: "normalizeName (ci_name input) = Inr name" "\<not> list_ex (\<lambda>job. job_name job = name) jobs" and
    parsed: "parse_for pf (ci_schedule input) (clk 0) (ci_repeat input) tz = Inr parsed" and
    script: "(if truthy (ci_script input) then map_sum id Some (assertRelativeSafePath (the (ci_script input))) else Inr None)
        = (Inr script' :: job_error + string option)" "\<not> (ci_noAgent input = Some True \<and> \<not> truthy (ci_script input))" and
    limit: "normalizeRepeatTimes (ci_repeatTimes input) = Inr limit" "limit = None \<or> repeat parsed" and
    job: "job = new_job pf input (createJobId uuid name jobs) name prompt parsed limit script' tz (clk 1)" and
    f': "f' = Jobs (jobs @ [job])"
    unfolding create_def Let_def jobs_def [symmetric] and_then_Inr ensure_Inr by blast
  have nonempty: "p \<noteq> []" if "assertRelativeSafePath s = Inr p" for s p
    using assertRelativeSafePath_safe [OF that] by (simp add: safe_path_def)
  have "job_ok job"
    using name(1) parsed script limit assms(3)
    by (auto simp: job job_ok_def new_job_def createJobId_ok truthy_def map_sum_Inr dest: normalizeName_ok parse_for_ok
        normalizeRepeatTimes_ok assertRelativeSafePath_safe nonempty split: if_splits)
  with jobs name(2) createJobId_fresh [of uuid name jobs] show ?thesis
    by (auto simp: f' jobs_ok_def readJobsFile_def job new_job_def list_ex_iff)
qed

text \<open>What holds of the copy \<open>next\<close> between the steps of an update: the run limit is only
  compared with the schedule at the end.\<close>

definition job_pre :: "cron_job \<Rightarrow> bool" where
  "job_pre job \<longleftrightarrow> id_ok (job_id job) \<and> job_name job \<noteq> [] \<and> length (job_name job) \<le> 120
     \<and> (\<forall>p. script job = Some p \<longrightarrow> safe_path p) \<and> (noAgent job \<longrightarrow> truthy (script job))
     \<and> (\<forall>k. repeatTimes job = Some k \<longrightarrow> 1 \<le> k)
     \<and> schedule_ok (job_kind job) (job_repeat job) (job_intervalMs job) (job_cronExpression job)"

lemma job_ok_pre: "job_ok job \<longleftrightarrow> job_pre job \<and> (repeatTimes job = None \<or> job_repeat job)"
  by (auto simp: job_ok_def job_pre_def)

definition kept_by :: "cron_job \<Rightarrow> cron_job \<Rightarrow> bool" where
  "kept_by job job' \<longleftrightarrow> job_id job' = job_id job \<and> job_name job' = job_name job \<and> (job_pre job \<longrightarrow> job_pre job')"

lemma kept_by_trans: "kept_by a b \<Longrightarrow> kept_by b c \<Longrightarrow> kept_by a c"
  by (auto simp: kept_by_def)

lemma kept_update_prompt: "update_prompt pf input job = Inr job' \<Longrightarrow> kept_by job job'"
  by (auto simp: update_prompt_def kept_by_def job_pre_def and_then_Inr split: option.splits)

lemma kept_update_timezone: "update_timezone pf input job = Inr job' \<Longrightarrow> kept_by job job'"
  by (auto simp: update_timezone_def kept_by_def job_pre_def and_then_Inr split: option.splits)

lemma kept_update_schedule: "update_schedule pf clk input cur job = Inr job' \<Longrightarrow> kept_by job job'"
  by (auto simp: update_schedule_def kept_by_def job_pre_def and_then_Inr dest: parse_for_ok split: option.splits if_splits)

lemma kept_update_enabled: "update_enabled pf clk input job = Inr job' \<Longrightarrow> kept_by job job'"
  by (auto simp: update_enabled_def kept_by_def job_pre_def and_then_Inr Let_def split: option.splits if_splits)

lemma kept_update_delivery: "kept_by job (update_delivery input job)"
  by (auto simp: update_delivery_def kept_by_def job_pre_def Let_def split: option.splits)

lemma kept_update_script: "update_script input job = Inr job' \<Longrightarrow> kept_by job job'"
proof -
  assume "update_script input job = Inr job'"
  then obtain job1 where
    s: "(case ui_script input of None \<Rightarrow> Inr job | Some None \<Rightarrow> Inr (job\<lparr>script := None\<rparr>)
         | Some (Some s) \<Rightarrow> and_then (assertRelativeSafePath s) (\<lambda>p. Inr (job\<lparr>script := Some p\<rparr>))) = Inr job1"
    and job': "job' = (case ui_noAgent input of None \<Rightarrow> job1 | Some b \<Rightarrow> job1\<lparr>noAgent := b\<rparr>)"
      "noAgent job' \<longrightarrow> truthy (script job')"
    by (auto simp: update_script_def and_then_Inr Let_def)
  from s have "job1 = job \<or> (\<exists>v. job1 = job\<lparr>script := v\<rparr> \<and> (\<forall>p. v = Some p \<longrightarrow> safe_path p))"
  proof (cases "ui_script input")
    case (Some v)
    with s show ?thesis by (cases v) (auto simp: and_then_Inr dest: assertRelativeSafePath_safe)
  qed simp
  then show ?thesis using job' by (cases "ui_noAgent input") (auto simp: kept_by_def job_pre_def)
qed

lemma kept_update_repeatTimes:
  "update_repeatTimes input job = Inr job' \<Longrightarrow> kept_by job job' \<and> (repeatTimes job' = None \<or> job_repeat job')"
  by (auto simp: update_repeatTimes_def kept_by_def job_pre_def and_then_Inr dest: normalizeRepeatTimes_ok split: option.splits)

lemma update_rest_fields:
  "job_id (update_rest pf input job) = job_id job" "job_name (update_rest pf input job) = job_name job"
  "script (update_rest pf input job) = script job" "noAgent (update_rest pf input job) = noAgent job"
  "repeatTimes (update_rest pf input job) = repeatTimes job" "job_repeat (update_rest pf input job) = job_repeat job"
  "job_kind (update_rest pf input job) = job_kind job" "job_intervalMs (update_rest pf input job) = job_intervalMs job"
  "job_cronExpression (update_rest pf input job) = job_cronExpression job"
  by (simp_all add: update_rest_def Let_def split: option.split)

lemma kept_update_rest:
  "kept_by job (update_rest pf input job) \<and> repeatTimes (update_rest pf input job) = repeatTimes job
     \<and> job_repeat (update_rest pf input job) = job_repeat job"
  by (simp add: kept_by_def job_pre_def update_rest_fields)

lemma update_name_keeps:
  "update_name input jobs cur job = Inr job' \<Longrightarrow>
     job_id job' = job_id job \<and> (job_pre job \<longrightarrow> job_pre job')
     \<and> (job_name job' = job_name job \<or> (\<forall>j \<in> set jobs. job_id j \<noteq> job_id cur \<longrightarrow> job_name j \<noteq> job_name job'))"
  by (auto simp: update_name_def job_pre_def and_then_Inr list_ex_iff dest: normalizeName_ok split: option.splits)

lemma updated_job_ok:
  assumes "updated_job pf clk input jobs cur = Inr job" "job_ok cur"
  shows "job_ok job \<and> job_id job = job_id cur
    \<and> (job_name job = job_name cur \<or> (\<forall>j \<in> set jobs. job_id j \<noteq> job_id cur \<longrightarrow> job_name j \<noteq> job_name job))"
proof -
  from assms(1) obtain j1 j2 j3 j4 j5 j6 j7 where
    s: "update_name input jobs cur (cur\<lparr>updatedAt := clk 0\<rparr>) = Inr j1" "update_prompt pf input j1 = Inr j2"
       "update_timezone pf input j2 = Inr j3" "update_schedule pf clk input cur j3 = Inr j4"
       "update_enabled pf clk input j4 = Inr j5" "update_script input (update_delivery input j5) = Inr j6"
       "update_repeatTimes input j6 = Inr j7" and job: "job = update_rest pf input j7"
    by (auto simp: updated_job_def and_then_Inr)
  have "kept_by j1 j6"
    using s(2-6) by (meson kept_by_trans kept_update_prompt kept_update_timezone kept_update_schedule kept_update_enabled
        kept_update_delivery kept_update_script)
  with s(7) have k: "kept_by j1 job" "repeatTimes job = None \<or> job_repeat job"
    unfolding job using kept_update_repeatTimes kept_update_rest by (metis kept_by_trans)+
  have "job_pre (cur\<lparr>updatedAt := clk 0\<rparr>)" using assms(2) by (simp add: job_ok_pre job_pre_def)
  then show ?thesis using update_name_keeps [OF s(1)] k by (auto simp: kept_by_def job_ok_pre)
qed

lemma resolveJobIndex_Inr:
  "resolveJobIndex jobs x = Inr i \<Longrightarrow> i < length jobs \<and> matches x (jobs ! i) \<and> (\<forall>j<i. \<not> matches x (jobs ! j))"
  by (auto simp: resolveJobIndex_def dest: find_index_Some split: option.splits)

lemma jobs_ok_ensure [simp]: "readJobsFile (ensureUnlocked f) = readJobsFile f"
  by (simp add: ensureUnlocked_def readJobsFile_def split: jobs_file.splits)

text \<open>Replacing a job by one with the same id keeps the invariant if its name is free.\<close>

lemma jobs_ok_list_update:
  assumes "jobs_ok jobs" "i < length jobs" "job_ok job" "job_id job = job_id (jobs ! i)"
    and "job_name job = job_name (jobs ! i) \<or> (\<forall>j \<in> set jobs. job_id j \<noteq> job_id (jobs ! i) \<longrightarrow> job_name j \<noteq> job_name job)"
  shows "jobs_ok (jobs[i := job])"
proof -
  have ids: "map job_id (jobs[i := job]) = map job_id jobs"
    using assms(2,4) by (metis list_update_id map_update nth_map)
  have other: "job_name (jobs ! j) \<noteq> job_name job" if "j < length jobs" "j \<noteq> i" for j
  proof -
    have "job_id (jobs ! j) \<noteq> job_id (jobs ! i)" "job_name (jobs ! j) \<noteq> job_name (jobs ! i)"
      using assms(1,2) that by (auto simp: jobs_ok_def distinct_conv_nth)
    with assms(5) that show ?thesis by auto
  qed
  have "distinct (map job_name (jobs[i := job]))"
  proof -
    have "distinct ((map job_name jobs)[i := job_name job])"
    proof (rule distinct_list_update)
      show "distinct (map job_name jobs)" using assms(1) by (simp add: jobs_ok_def)
      show "job_name job \<notin> set (map job_name jobs) - {map job_name jobs ! i}"
        using other assms(2) by (auto simp: in_set_conv_nth) metis
    qed
    then show ?thesis by (simp add: map_update)
  qed
  moreover have "list_all job_ok (jobs[i := job])"
    using assms(1,3) by (auto simp: jobs_ok_def list_all_iff dest: set_update_subset_insert [THEN subsetD])
  ultimately show ?thesis using assms(1) ids by (simp add: jobs_ok_def)
qed

lemma jobs_ok_nth: "jobs_ok jobs \<Longrightarrow> i < length jobs \<Longrightarrow> job_ok (jobs ! i)"
  by (simp add: jobs_ok_def list_all_length)

lemma update_ok:
  "update pf clk x input f = Inr (job, f') \<Longrightarrow> jobs_ok (readJobsFile f) \<Longrightarrow> jobs_ok (readJobsFile f')"
  by (auto simp: update_def Let_def and_then_Inr readJobsFile_def [of "Jobs _"]
      dest!: resolveJobIndex_Inr updated_job_ok intro!: jobs_ok_list_update intro: jobs_ok_nth)

text \<open>The other operations change none of the fields the invariant reads.\<close>

definition same_core :: "cron_job \<Rightarrow> cron_job \<Rightarrow> bool" where
  "same_core job job' \<longleftrightarrow> job_id job' = job_id job \<and> job_name job' = job_name job \<and> job_ok job' = job_ok job"

lemma jobs_ok_same_core_update:
  "jobs_ok jobs \<Longrightarrow> i < length jobs \<Longrightarrow> same_core (jobs ! i) job \<Longrightarrow> jobs_ok (jobs[i := job])"
  by (rule jobs_ok_list_update) (auto simp: same_core_def jobs_ok_nth)

lemma jobs_ok_same_core: "list_all2 same_core jobs jobs' \<Longrightarrow> jobs_ok jobs \<Longrightarrow> jobs_ok jobs'"
proof -
  assume l: "list_all2 same_core jobs jobs'" and ok: "jobs_ok jobs"
  from l have "map job_id jobs' = map job_id jobs" "map job_name jobs' = map job_name jobs" "list_all job_ok jobs' = list_all job_ok jobs"
    by (induction rule: list_all2_induct) (auto simp: same_core_def)
  with ok show "jobs_ok jobs'" by (simp add: jobs_ok_def)
qed

lemma jobs_ok_remove: "jobs_ok jobs \<Longrightarrow> i < length jobs \<Longrightarrow> jobs_ok (take i jobs @ drop (Suc i) jobs)"
proof -
  assume ok: "jobs_ok jobs" and i: "i < length jobs"
  have "distinct (map f (take i jobs @ drop (Suc i) jobs))" if d: "distinct (map f jobs)" for f :: "cron_job \<Rightarrow> string"
  proof -
    have "jobs = take i jobs @ (jobs ! i) # drop (Suc i) jobs" using i by (rule id_take_nth_drop)
    then have "map f jobs = map f (take i jobs) @ f (jobs ! i) # map f (drop (Suc i) jobs)"
      by (metis list.simps(9) map_append)
    with d have "distinct (map f (take i jobs) @ f (jobs ! i) # map f (drop (Suc i) jobs))" by simp
    then show ?thesis by simp
  qed
  with ok show ?thesis by (auto simp: jobs_ok_def list_all_iff dest: in_set_takeD in_set_dropD)
qed

lemma remove_ok: "remove x f = Inr (job, f') \<Longrightarrow> jobs_ok (readJobsFile f) \<Longrightarrow> jobs_ok (readJobsFile f')"
  by (auto simp: remove_def Let_def and_then_Inr splice_def readJobsFile_def [of "Jobs _"]
      dest!: resolveJobIndex_Inr intro: jobs_ok_remove)

lemma trigger_ok: "trigger x now f = Inr (job, f') \<Longrightarrow> jobs_ok (readJobsFile f) \<Longrightarrow> jobs_ok (readJobsFile f')"
  by (auto simp: trigger_def Let_def and_then_Inr readJobsFile_def [of "Jobs _"] same_core_def job_ok_def
      dest!: resolveJobIndex_Inr intro!: jobs_ok_same_core_update)

lemma due_step_core: "due_step pf probe now job = Inr (d, job', b) \<Longrightarrow> same_core job job'"
  by (auto simp: due_step_def and_then_Inr same_core_def job_ok_def split: if_splits option.splits)

lemma due_loop_core: "due_loop pf clk now i jobs = Inr (due, jobs', m) \<Longrightarrow> list_all2 same_core jobs jobs'"
  by (induction jobs arbitrary: i due jobs' m) (auto simp: and_then_Inr dest: due_step_core)

lemma getDueJobs_ok: "getDueJobs pf clk now f = Inr (due, f') \<Longrightarrow> jobs_ok (readJobsFile f) \<Longrightarrow> jobs_ok (readJobsFile f')"
  using jobs_ok_same_core [OF due_loop_core]
  by (auto simp: getDueJobs_def and_then_Inr readJobsFile_def [of "Jobs _"] split: if_splits)

lemma claimDueJob_ok: "claimDueJob pf probe x now f = Inr (job, f') \<Longrightarrow> jobs_ok (readJobsFile f) \<Longrightarrow> jobs_ok (readJobsFile f')"
  by (auto simp: claimDueJob_def Let_def and_then_Inr readJobsFile_def [of "Jobs _"] same_core_def job_ok_def
      dest!: find_index_Some intro!: jobs_ok_same_core_update split: option.splits if_splits)

lemma markRun_ok: "markRun clk x r f = Inr (job, f') \<Longrightarrow> jobs_ok (readJobsFile f) \<Longrightarrow> jobs_ok (readJobsFile f')"
  by (auto simp: markRun_def marked_job_def Let_def and_then_Inr readJobsFile_def [of "Jobs _"] same_core_def job_ok_def
      dest!: resolveJobIndex_Inr intro!: jobs_ok_same_core_update)

lemma markDelivery_ok: "markDelivery clk x e f = Inr (job, f') \<Longrightarrow> jobs_ok (readJobsFile f) \<Longrightarrow> jobs_ok (readJobsFile f')"
  by (auto simp: markDelivery_def Let_def and_then_Inr readJobsFile_def [of "Jobs _"] same_core_def job_ok_def
      dest!: resolveJobIndex_Inr intro!: jobs_ok_same_core_update)

lemma stale_loop_core: "stale_loop pf t now jobs = Inr (n, jobs') \<Longrightarrow> list_all2 same_core jobs jobs'"
proof (induction jobs arbitrary: n jobs')
  case (Cons job jobs)
  then show ?case
    by (auto simp: and_then_Inr same_core_def job_ok_def split: if_splits option.splits)
qed simp

lemma resetStaleRunning_ok:
  "resetStaleRunning pf t now f = Inr (n, f') \<Longrightarrow> jobs_ok (readJobsFile f) \<Longrightarrow> jobs_ok (readJobsFile f')"
proof -
  assume r: "resetStaleRunning pf t now f = Inr (n, f')" and ok: "jobs_ok (readJobsFile f)"
  from r obtain jobs' where "stale_loop pf t now (readJobsFile f) = Inr (n, jobs')"
    and "f' = Jobs jobs' \<or> f' = ensureUnlocked f"
    by (auto simp: resetStaleRunning_def and_then_Inr split: if_splits)
  then show ?thesis using ok jobs_ok_same_core [OF stale_loop_core] by (auto simp: readJobsFile_def [of "Jobs _"])
qed

section \<open>Sequences of operations\<close>

datatype store_op =
  Op_create "nat \<Rightarrow> int" string create_input
  | Op_update "nat \<Rightarrow> int" string update_input
  | Op_remove string
  | Op_trigger string int
  | Op_due "nat \<Rightarrow> int" int
  | Op_claim int string int
  | Op_mark "nat \<Rightarrow> int" string run_result
  | Op_delivery "nat \<Rightarrow> int" string "string option"
  | Op_stale nat int

text \<open>A call that raises leaves the file as the lock step found or made it.\<close>

definition after :: "jobs_file \<Rightarrow> 'e + 'a \<times> jobs_file \<Rightarrow> jobs_file" where
  "after f r = (case r of Inl _ \<Rightarrow> ensureUnlocked f | Inr (_, f') \<Rightarrow> f')"

fun exec :: "platform \<Rightarrow> store_op \<Rightarrow> jobs_file \<Rightarrow> jobs_file" where
  "exec pf (Op_create clk uuid input) f = after f (create pf clk uuid input f)"
| "exec pf (Op_update clk x input) f = after f (update pf clk x input f)"
| "exec pf (Op_remove x) f = after f (remove x f)"
| "exec pf (Op_trigger x now) f = after f (trigger x now f)"
| "exec pf (Op_due clk now) f = after f (getDueJobs pf clk now f)"
| "exec pf (Op_claim probe jid now) f = after f (claimDueJob pf probe jid now f)"
| "exec pf (Op_mark clk x r) f = after f (markRun clk x r f)"
| "exec pf (Op_delivery clk x e) f = after f (markDelivery clk x e f)"
| "exec pf (Op_stale t now) f = after f (resetStaleRunning pf t now f)"

text \<open>\<open>randomUUID\<close> gives hexadecimal digits; only its first eight are used.\<close>

fun uuid_ok :: "store_op \<Rightarrow> bool" where
  "uuid_ok (Op_create clk uuid input) \<longleftrightarrow> list_all is_word_char (take 8 uuid)"
| "uuid_ok _ \<longleftrightarrow> True"

inductive reachable :: "platform \<Rightarrow> jobs_file \<Rightarrow> bool" for pf where
  missing: "reachable pf Missing"
| corrupt: "reachable pf Corrupt"
| step: "reachable pf f \<Longrightarrow> uuid_ok opn \<Longrightarrow> reachable pf (exec pf opn f)"

lemma jobs_ok_after:
  "jobs_ok (readJobsFile f) \<Longrightarrow> (\<And>x f'. r = Inr (x, f') \<Longrightarrow> jobs_ok (readJobsFile f')) \<Longrightarrow> jobs_ok (readJobsFile (after f r))"
  by (auto simp: after_def split: sum.splits)

lemma exec_ok: "jobs_ok (readJobsFile f) \<Longrightarrow> uuid_ok opn \<Longrightarrow> jobs_ok (readJobsFile (exec pf opn f))"
  by (cases opn) (auto intro!: jobs_ok_after intro: create_ok update_ok remove_ok trigger_ok getDueJobs_ok claimDueJob_ok
      markRun_ok markDelivery_ok resetStaleRunning_ok)

lemma reachable_ok: "reachable pf f \<Longrightarrow> jobs_ok (readJobsFile f)"
  by (induction rule: reachable.induct) (auto simp: exec_ok, simp_all add: readJobsFile_def jobs_ok_def)

text \<open>C16: Whatever sequence of operations is run on the store, failing ones included, the jobs in
  the file have pairwise distinct ids and names; every id is a plain directory name (so that
  deleting a job's outputs stays inside the output directory), every script is a relative path
  without \<open>..\<close>, a job that runs without an agent has a script, a run limit is positive and only on
  a repeating job, and a repeating job has the interval or cron expression it repeats by.\<close>

theorem jobs_file_invariant:
  assumes "reachable pf f"
  shows "distinct (map job_id (readJobsFile f)) \<and> distinct (map job_name (readJobsFile f))
    \<and> (\<forall>job \<in> set (readJobsFile f). id_ok (job_id job)
        \<and> (\<forall>p. script job = Some p \<longrightarrow> safe_path p) \<and> (noAgent job \<longrightarrow> truthy (script job))
        \<and> (\<forall>k. repeatTimes job = Some k \<longrightarrow> 1 \<le> k \<and> job_repeat job)
        \<and> schedule_ok (job_kind job) (job_repeat job) (job_intervalMs job) (job_cronExpression job))"
  using reachable_ok [OF assms] by (auto simp: jobs_ok_def list_all_iff job_ok_def)

text \<open>A platform and inputs for the examples.\<close>

definition example_platform :: platform where
  "example_platform = \<lparr>to_int = decimal, tenv = utc_env, parse_date = (\<lambda>_. None), iso_string = (\<lambda>_. []),
     unsafe_prompt = (\<lambda>_. False), resolve_path = (\<lambda>_ v. v), store_cwd = ''/''\<rparr>"

definition example_input :: "string \<Rightarrow> string \<Rightarrow> create_input" where
  "example_input name sched = \<lparr>ci_name = name, ci_prompt = ''report'', ci_schedule = sched, ci_repeat = None,
     ci_repeatTimes = None, ci_deliver = None, ci_origin = None, ci_script = None, ci_noAgent = None,
     ci_contextFrom = None, ci_skills = None, ci_tools = None, ci_workdir = None, ci_model = None, ci_timezone = None\<rparr>"

definition two_jobs :: jobs_file where
  "two_jobs = exec example_platform (Op_create (\<lambda>_. 0) ''0badcafe'' (example_input ''Beta!'' ''every 5m''))
     (exec example_platform (Op_create (\<lambda>_. 0) ''0badcafe'' (example_input ''beta'' ''every 5m'')) Missing)"

definition example_job :: "string \<Rightarrow> string \<Rightarrow> cron_job" where
  "example_job i name = \<lparr>job_id = i, job_name = name, job_prompt = ''report'', job_schedule = ''every 5m'',
     job_scheduleDisplay = ''every 5m'', job_kind = Interval, job_repeat = True, repeatTimes = None, completedRuns = None,
     job_intervalMs = Some 300000, job_cronExpression = None, enabled = True, state = Pending, createdAt = 0, updatedAt = 0,
     job_nextRunAt = Some 300000, lastRunAt = None, lastStatus = None, lastError = None, lastDeliveryError = None,
     lastOutputPath = None, deliver = ''local'', origin = None, script = None, noAgent = False, contextFrom = None,
     skills = None, tools = None, workdir = None, job_model = None, job_timezone = None\<rparr>"

lemma two_jobs_eq: "two_jobs = Jobs [example_job ''beta'' ''beta'', example_job ''beta-2'' ''Beta!'']"
  by code_simp

lemma reachable_two_jobs: "reachable example_platform two_jobs"
  unfolding two_jobs_def by (intro reachable.intros) (code_simp+)

theorem jobs_file_invariant_witness:
  "reachable example_platform two_jobs \<and> map job_id (readJobsFile two_jobs) = [''beta'', ''beta-2'']
   \<and> distinct (map job_id (readJobsFile two_jobs))"
proof -
  have "map job_id (readJobsFile two_jobs) = [''beta'', ''beta-2'']" by code_simp
  then show ?thesis using jobs_file_invariant [OF reachable_two_jobs] reachable_two_jobs by simp
qed

section \<open>Due and claimed\<close>

definition is_due :: "platform \<Rightarrow> int \<Rightarrow> int \<Rightarrow> cron_job \<Rightarrow> bool" where
  "is_due pf probe now job \<longleftrightarrow> enabled job \<and> state job \<noteq> Running
     \<and> (\<exists>t. job_nextRunAt job = Some t \<and> t \<le> now \<and> now - t \<le> graceMs pf probe job)"

lemma due_step_due:
  "due_step pf probe now job = Inr (d, job', b) \<Longrightarrow>
     d = (if is_due pf probe now job then [job] else []) \<and> (is_due pf probe now job \<or> \<not> b \<longrightarrow> job' = job)"
  by (auto simp: due_step_def is_due_def and_then_Inr split: if_splits option.splits)

lemma due_loop_due:
  "due_loop pf (\<lambda>_. probe) now i jobs = Inr (due, jobs', m) \<Longrightarrow>
     due = filter (is_due pf probe now) jobs \<and> list_all2 (\<lambda>job job'. is_due pf probe now job \<longrightarrow> job' = job) jobs jobs'
     \<and> (\<not> m \<longrightarrow> jobs' = jobs)"
proof (induction jobs arbitrary: i due jobs' m)
  case (Cons job jobs)
  from Cons.prems obtain d job' b dues rest' b' where
    step: "due_step pf probe now job = Inr (d, job', b)" and
    rest: "due_loop pf (\<lambda>_. probe) now (Suc i) jobs = Inr (dues, rest', b')" and
    eq: "d @ dues = due" "job' # rest' = jobs'" "(b \<or> b') = m"
    by (simp add: and_then_Inr split_paired_Ex) blast
  show ?case using due_step_due [OF step] Cons.IH [OF rest] eq by auto
qed simp

lemma getDueJobs_due:
  assumes "getDueJobs pf (\<lambda>_. probe) now f = Inr (due, f')"
  shows "due = filter (is_due pf probe now) (readJobsFile f)"
    and "list_all2 (\<lambda>job job'. is_due pf probe now job \<longrightarrow> job' = job) (readJobsFile f) (readJobsFile f')"
proof -
  from assms obtain jobs' m where l: "due_loop pf (\<lambda>_. probe) now 0 (readJobsFile f) = Inr (due, jobs', m)"
    and f': "f' = (if m then Jobs jobs' else ensureUnlocked f)"
    by (auto simp: getDueJobs_def and_then_Inr)
  from due_loop_due [OF l] f' show "due = filter (is_due pf probe now) (readJobsFile f)"
    "list_all2 (\<lambda>job job'. is_due pf probe now job \<longrightarrow> job' = job) (readJobsFile f) (readJobsFile f')"
    by (auto simp: readJobsFile_def [of "Jobs _"] list_all2_refl)
qed

lemma find_index_unique:
  "distinct (map g xs) \<Longrightarrow> i < length xs \<Longrightarrow> find_index (\<lambda>x. g x = g (xs ! i)) xs = Some i"
proof (induction xs arbitrary: i)
  case (Cons x xs)
  show ?case
  proof (cases i)
    case (Suc j)
    with Cons.prems have "g x \<noteq> g (xs ! j)" by (auto simp: image_iff)
    with Suc Cons show ?thesis by simp
  qed simp
qed simp

lemma claimDueJob_due:
  assumes "jobs_ok (readJobsFile f)" "i < length (readJobsFile f)" "job = readJobsFile f ! i" "is_due pf probe now job"
    "nextRun pf job now = Inr n"
  defines "claimed \<equiv> job\<lparr>state := Running, enabled := job_repeat job, job_nextRunAt := n, updatedAt := now\<rparr>"
  shows "claimDueJob pf probe (job_id job) now f = Inr (Some claimed, Jobs ((readJobsFile f)[i := claimed]))"
proof -
  have "find_index (\<lambda>j. job_id j = job_id job) (readJobsFile f) = Some i"
    using find_index_unique [of job_id "readJobsFile f" i] assms(1-3) by (simp add: jobs_ok_def)
  with assms show ?thesis by (auto simp: claimDueJob_def is_due_def Let_def)
qed

text \<open>Every job the scheduler finds due can be claimed: a claim at the same time, after the
  due check has fast-forwarded the jobs it found too late, returns the job, now running and with
  its next run set, and only the claim of a job whose schedule has no next run raises.\<close>

theorem due_job_claimed:
  assumes "reachable pf f" and "getDueJobs pf (\<lambda>_. probe) now f = Inr (due, f')" and "job \<in> set due"
  shows "case nextRun pf job now of
     Inl e \<Rightarrow> claimDueJob pf probe (job_id job) now f' = Inl e
   | Inr n \<Rightarrow> \<exists>f''. claimDueJob pf probe (job_id job) now f'
         = Inr (Some (job\<lparr>state := Running, enabled := job_repeat job, job_nextRunAt := n, updatedAt := now\<rparr>), f'')"
proof -
  note due = getDueJobs_due [OF assms(2)]
  have ok: "jobs_ok (readJobsFile f')" using getDueJobs_ok [OF assms(2)] reachable_ok [OF assms(1)] by blast
  from assms(3) due(1) obtain i where "i < length (readJobsFile f)" "job = readJobsFile f ! i" and is_due: "is_due pf probe now job"
    by (auto simp: in_set_conv_nth)
  with due(2) have i: "i < length (readJobsFile f')" "job = readJobsFile f' ! i"
    by (auto simp: list_all2_conv_all_nth)
  have find: "find_index (\<lambda>j. job_id j = job_id job) (readJobsFile f') = Some i"
    using find_index_unique [of job_id "readJobsFile f'" i] ok i by (simp add: jobs_ok_def)
  show ?thesis
  proof (cases "nextRun pf job now")
    case (Inl e)
    then show ?thesis using find i(2) is_due by (auto simp: claimDueJob_def is_due_def Let_def)
  next
    case (Inr n)
    then show ?thesis using claimDueJob_due [OF ok i is_due Inr] by auto
  qed
qed

theorem due_job_claimed_witness:
  "reachable example_platform two_jobs
   \<and> (\<exists>due f'. getDueJobs example_platform (\<lambda>_. 0) 300000 two_jobs = Inr (due, f') \<and> hd due \<in> set due
        \<and> (case nextRun example_platform (hd due) 300000 of
             Inl e \<Rightarrow> claimDueJob example_platform 0 (job_id (hd due)) 300000 f' = Inl e
           | Inr n \<Rightarrow> (\<exists>f''. claimDueJob example_platform 0 (job_id (hd due)) 300000 f'
               = Inr (Some ((hd due)\<lparr>state := Running, enabled := job_repeat (hd due), job_nextRunAt := n, updatedAt := 300000\<rparr>), f''))))"
proof -
  define r where "r = getDueJobs example_platform (\<lambda>_. 0) 300000 two_jobs"
  have "\<not> isl r" "fst (projr r) \<noteq> []" unfolding r_def two_jobs_eq by code_simp+
  then obtain due f' where r: "getDueJobs example_platform (\<lambda>_. 0) 300000 two_jobs = Inr (due, f')" "hd due \<in> set due"
    unfolding r_def by (cases "getDueJobs example_platform (\<lambda>_. 0) 300000 two_jobs") auto
  show ?thesis
    using due_job_claimed [OF reachable_two_jobs r] r reachable_two_jobs by blast
qed

section \<open>A claimed job is not claimed again\<close>

definition running_in :: "string \<Rightarrow> jobs_file \<Rightarrow> bool" where
  "running_in jid f \<longleftrightarrow> (\<exists>job \<in> set (readJobsFile f). job_id job = jid \<and> state job = Running)"

definition resolves :: "jobs_file \<Rightarrow> string \<Rightarrow> string \<Rightarrow> bool" where
  "resolves f x jid \<longleftrightarrow> (\<exists>i. resolveJobIndex (readJobsFile f) x = Inr i \<and> job_id (readJobsFile f ! i) = jid)"

text \<open>The operations that may end the run of a job: the ones that name it and change its state,
  and the reset of a run older than the timeout.\<close>

fun releases :: "jobs_file \<Rightarrow> string \<Rightarrow> store_op \<Rightarrow> bool" where
  "releases f jid (Op_update clk x input) \<longleftrightarrow> resolves f x jid"
| "releases f jid (Op_remove x) \<longleftrightarrow> resolves f x jid"
| "releases f jid (Op_trigger x now) \<longleftrightarrow> resolves f x jid"
| "releases f jid (Op_mark clk x r) \<longleftrightarrow> resolves f x jid"
| "releases f jid (Op_stale t now) \<longleftrightarrow> (\<exists>job \<in> set (readJobsFile f). job_id job = jid \<and> int t \<le> now - updatedAt job)"
| "releases f jid _ \<longleftrightarrow> False"

inductive undisturbed :: "platform \<Rightarrow> string \<Rightarrow> jobs_file \<Rightarrow> jobs_file \<Rightarrow> bool" for pf jid f where
  refl: "undisturbed pf jid f f"
| step: "undisturbed pf jid f f' \<Longrightarrow> uuid_ok opn \<Longrightarrow> \<not> releases f' jid opn \<Longrightarrow> undisturbed pf jid f (exec pf opn f')"

lemma readJobsFile_Jobs [simp]: "readJobsFile (Jobs js) = js"
  by (simp add: readJobsFile_def)

lemma running_in_ensure [simp]: "running_in jid (ensureUnlocked f) = running_in jid f"
  by (simp add: running_in_def)

lemma running_in_after:
  "running_in jid f \<Longrightarrow> (\<And>x f'. r = Inr (x, f') \<Longrightarrow> running_in jid f') \<Longrightarrow> running_in jid (after f r)"
  by (auto simp: after_def split: sum.splits)

text \<open>A job that runs under the id \<open>jid\<close> still does.\<close>

definition keeps_run :: "string \<Rightarrow> cron_job \<Rightarrow> cron_job \<Rightarrow> bool" where
  "keeps_run jid job job' \<longleftrightarrow> (job_id job = jid \<and> state job = Running \<longrightarrow> job_id job' = jid \<and> state job' = Running)"

lemma running_in_list_all2:
  "running_in jid f \<Longrightarrow> list_all2 (keeps_run jid) (readJobsFile f) jobs' \<Longrightarrow> running_in jid (Jobs jobs')"
  by (fastforce simp: running_in_def keeps_run_def dest: list_all2_mem1)

lemma running_in_list_update:
  assumes "running_in jid f" "keeps_run jid (readJobsFile f ! i) job"
  shows "running_in jid (Jobs ((readJobsFile f)[i := job]))"
proof (rule running_in_list_all2 [OF assms(1)])
  show "list_all2 (keeps_run jid) (readJobsFile f) ((readJobsFile f)[i := job])"
  proof (rule list_all2_all_nthI)
    fix k
    assume "k < length (readJobsFile f)"
    with assms(2) show "keeps_run jid (readJobsFile f ! k) ((readJobsFile f)[i := job] ! k)"
      by (cases "k = i") (auto simp: keeps_run_def)
  qed simp
qed

lemma due_loop_running: "due_loop pf clk now i jobs = Inr (due, jobs', m) \<Longrightarrow> list_all2 (keeps_run jid) jobs jobs'"
  by (induction jobs arbitrary: i due jobs' m)
    (auto simp: and_then_Inr due_step_def keeps_run_def split: if_splits option.splits)

lemma stale_loop_running:
  "stale_loop pf t now jobs = Inr (n, jobs') \<Longrightarrow> \<forall>job \<in> set jobs. job_id job = jid \<longrightarrow> now - updatedAt job < int t \<Longrightarrow>
     list_all2 (keeps_run jid) jobs jobs'"
proof (induction jobs arbitrary: n jobs')
  case (Cons job jobs)
  then show ?case by (auto simp: and_then_Inr keeps_run_def split: if_splits)
qed simp

lemma named_running:
  "\<not> resolves f x jid \<Longrightarrow> resolveJobIndex (readJobsFile f) x = Inr i \<Longrightarrow> keeps_run jid (readJobsFile f ! i) job"
  by (auto simp: resolves_def keeps_run_def)

lemma create_running: "create pf clk uuid input f = Inr (job, f') \<Longrightarrow> running_in jid f \<Longrightarrow> running_in jid f'"
  by (auto simp: create_def Let_def and_then_Inr running_in_def)

lemma remove_running:
  assumes "remove x f = Inr (job, f')" "running_in jid f" "\<not> resolves f x jid"
  shows "running_in jid f'"
proof -
  let ?jobs = "readJobsFile f"
  obtain i where i: "resolveJobIndex ?jobs x = Inr i" and f': "f' = Jobs (take i ?jobs @ drop (Suc i) ?jobs)"
    using assms(1) by (auto simp: remove_def Let_def and_then_Inr splice_def)
  have l: "i < length ?jobs" using resolveJobIndex_Inr [OF i] by simp
  have "job_id (?jobs ! i) \<noteq> jid" using assms(3) i by (auto simp: resolves_def)
  moreover have "set ?jobs = insert (?jobs ! i) (set (take i ?jobs @ drop (Suc i) ?jobs))"
    by (subst id_take_nth_drop [OF l]) auto
  ultimately show ?thesis using assms(2) f' by (auto simp: running_in_def)
qed

lemma claimDueJob_running: "claimDueJob pf probe x now f = Inr (c, f') \<Longrightarrow> running_in jid f \<Longrightarrow> running_in jid f'"
  by (auto simp: claimDueJob_def Let_def and_then_Inr keeps_run_def intro!: running_in_list_update split: option.splits if_splits)

lemma getDueJobs_running: "getDueJobs pf clk now f = Inr (due, f') \<Longrightarrow> running_in jid f \<Longrightarrow> running_in jid f'"
  using running_in_list_all2 [OF _ due_loop_running] by (auto simp: getDueJobs_def and_then_Inr split: if_splits)

lemma resetStaleRunning_running:
  assumes "resetStaleRunning pf t now f = Inr (n, f')" "running_in jid f"
    "\<not> (\<exists>job \<in> set (readJobsFile f). job_id job = jid \<and> int t \<le> now - updatedAt job)"
  shows "running_in jid f'"
proof -
  from assms(1) obtain jobs' where l: "stale_loop pf t now (readJobsFile f) = Inr (n, jobs')"
    and f': "f' = Jobs jobs' \<or> f' = ensureUnlocked f"
    by (auto simp: resetStaleRunning_def and_then_Inr split: if_splits)
  have "list_all2 (keeps_run jid) (readJobsFile f) jobs'"
    by (rule stale_loop_running [OF l]) (use assms(3) in force)
  with f' assms(2) running_in_list_all2 show ?thesis by auto
qed

lemma exec_running: "running_in jid f \<Longrightarrow> \<not> releases f jid opn \<Longrightarrow> running_in jid (exec pf opn f)"
  by (cases opn)
    (auto intro!: running_in_after intro: create_running remove_running claimDueJob_running getDueJobs_running resetStaleRunning_running
      simp: update_def trigger_def markRun_def markDelivery_def Let_def and_then_Inr intro!: running_in_list_update
      dest: named_running, simp_all add: keeps_run_def)

lemma undisturbed_running: "undisturbed pf jid f f' \<Longrightarrow> running_in jid f \<Longrightarrow> running_in jid f'"
  by (induction rule: undisturbed.induct) (auto intro: exec_running)

lemma undisturbed_ok: "undisturbed pf jid f f' \<Longrightarrow> jobs_ok (readJobsFile f) \<Longrightarrow> jobs_ok (readJobsFile f')"
  by (induction rule: undisturbed.induct) (auto intro: exec_ok)

lemma claimDueJob_claims:
  assumes "claimDueJob pf probe jid now f = Inr (Some job, f')"
  shows "job_id job = jid \<and> running_in jid f'"
proof -
  from assms obtain i where i: "find_index (\<lambda>j. job_id j = jid) (readJobsFile f) = Some i"
    and job: "job_id job = job_id (readJobsFile f ! i)" "state job = Running" "f' = Jobs ((readJobsFile f)[i := job])"
    by (auto simp: claimDueJob_def Let_def and_then_Inr split: option.splits if_splits)
  from find_index_Some [OF i] job show ?thesis by (auto simp: running_in_def set_update_memI)
qed

lemma claimDueJob_busy:
  assumes "jobs_ok (readJobsFile f)" "running_in jid f"
  shows "claimDueJob pf probe jid now f = Inr (None, ensureUnlocked f)"
proof -
  from assms(2) obtain i where i: "i < length (readJobsFile f)" "job_id (readJobsFile f ! i) = jid" "state (readJobsFile f ! i) = Running"
    by (auto simp: running_in_def in_set_conv_nth)
  then have "find_index (\<lambda>j. job_id j = jid) (readJobsFile f) = Some i"
    using find_index_unique [of job_id "readJobsFile f" i] assms(1) by (simp add: jobs_ok_def)
  with i show ?thesis by (simp add: claimDueJob_def Let_def)
qed

text \<open>C5: A claimed job cannot be claimed a second time while it runs: whatever operations other
  schedulers and users run in between, as long as none of them updates, removes, triggers or
  marks that job, or resets it as stale, every later claim of it is refused.\<close>

theorem claim_exclusive:
  assumes "reachable pf f" and "claimDueJob pf probe jid now f = Inr (Some job, f1)" and "undisturbed pf jid f1 f2"
  shows "claimDueJob pf probe' jid now' f2 = Inr (None, ensureUnlocked f2)"
proof -
  have "jobs_ok (readJobsFile f1)" using claimDueJob_ok [OF assms(2)] reachable_ok [OF assms(1)] by blast
  with undisturbed_ok [OF assms(3)] have "jobs_ok (readJobsFile f2)" by blast
  moreover have "running_in jid f2"
    using undisturbed_running [OF assms(3)] claimDueJob_claims [OF assms(2)] by blast
  ultimately show ?thesis by (rule claimDueJob_busy)
qed

definition claimed_jobs :: jobs_file where
  "claimed_jobs = exec example_platform (Op_claim 0 ''beta'' 300000) two_jobs"


lemma claim_beta:
  "\<exists>job. claimDueJob example_platform 0 ''beta'' 300000 two_jobs = Inr (Some job, claimed_jobs)"
proof -
  define r where "r = claimDueJob example_platform 0 ''beta'' 300000 two_jobs"
  have "\<not> isl r" "fst (projr r) \<noteq> None" unfolding r_def two_jobs_eq by code_simp+
  then show ?thesis unfolding r_def claimed_jobs_def
    by (cases "claimDueJob example_platform 0 ''beta'' 300000 two_jobs") (auto simp: after_def)
qed

theorem claim_exclusive_witness:
  "reachable example_platform two_jobs
   \<and> (\<exists>job. claimDueJob example_platform 0 ''beta'' 300000 two_jobs = Inr (Some job, claimed_jobs))
   \<and> undisturbed example_platform ''beta'' claimed_jobs (exec example_platform (Op_claim 0 ''beta-2'' 300000) claimed_jobs)
   \<and> claimDueJob example_platform 0 ''beta'' 600000 (exec example_platform (Op_claim 0 ''beta-2'' 300000) claimed_jobs)
       = Inr (None, ensureUnlocked (exec example_platform (Op_claim 0 ''beta-2'' 300000) claimed_jobs))"
proof -
  have u: "undisturbed example_platform ''beta'' claimed_jobs (exec example_platform (Op_claim 0 ''beta-2'' 300000) claimed_jobs)"
    by (intro undisturbed.intros) simp_all
  obtain job where job: "claimDueJob example_platform 0 ''beta'' 300000 two_jobs = Inr (Some job, claimed_jobs)"
    using claim_beta by blast
  show ?thesis using claim_exclusive [OF reachable_two_jobs job u] reachable_two_jobs job u by blast
qed

section \<open>A repeating job runs again\<close>




definition done_well :: run_result where
  "done_well = \<lparr>rr_status = Success, rr_outputPath = None, rr_error = None, rr_ranAt = None\<rparr>"


section \<open>Names that are ids\<close>

text \<open>Jobs are looked up by id or name in file order, so a job renamed to the id of a later one
  takes its place: the mark of the later job's run goes to the renamed one, and the job that ran
  stays marked as running, out of reach of every due check.\<close>

theorem mark_run_hits_renamed_job:
  "let f0 = exec example_platform (Op_create (\<lambda>_. 0) ''0badcafe'' (example_input ''alpha'' ''every 5m'')) Missing;
       f1 = exec example_platform (Op_create (\<lambda>_. 0) ''0badcafe'' (example_input ''beta job'' ''every 5m'')) f0;
       f2 = exec example_platform (Op_update (\<lambda>_. 0) ''alpha'' (no_update\<lparr>ui_name := Some ''beta-job''\<rparr>)) f1;
       f3 = exec example_platform (Op_claim 0 ''beta-job'' 300000) f2;
       f4 = exec example_platform (Op_mark (\<lambda>_. 310000) ''beta-job'' done_well) f3
   in map (\<lambda>j. (job_id j, state j, completedRuns j)) (readJobsFile f4)
        = [(''alpha'', Pending, Some 1), (''beta-job'', Running, None)]"
  by code_simp

text \<open>Triggering a job that is running makes it pending, and it can be claimed a second time
  while its first run goes on.\<close>

theorem triggered_job_claimed_twice:
  "let f1 = exec example_platform (Op_claim 0 ''beta'' 300000) two_jobs;
       f2 = exec example_platform (Op_trigger ''beta'' 310000) f1
   in running_in ''beta'' f1
      \<and> (case claimDueJob example_platform 0 ''beta'' 310000 f2 of Inr (Some job, _) \<Rightarrow> job_id job = ''beta'' | _ \<Rightarrow> False)"
  unfolding two_jobs_eq by code_simp

end
