(* ===== verification/Router_Cooldown.thy ===== *)
theory Router_Cooldown
  imports Complex_Main Prelude
begin

text \<open>
  Cooldowns of the model router (\<open>packages/router/src/index.ts\<close>): the rules that turn a
  provider error into a cooldown, the exponential backoff, and the reset times providers put
  into their errors. An error is a tree of JavaScript values without sharing; numbers are
  rationals, so the rounding of doubles is not modelled. \<open>Date.parse\<close> is the parameter
  \<open>parse_date\<close> and \<open>now\<close> is what \<open>Date.now()\<close> gives during the call.
\<close>

section \<open>Backoff\<close>

definition backoff_base :: int where "backoff_base = 2000"
definition backoff_max :: int where "backoff_max = 5 * 60 * 1000"
definition backoff_maxLevel :: int where "backoff_maxLevel = 15"
definition ROUTER_TRANSIENT_COOLDOWN_MS :: int where "ROUTER_TRANSIENT_COOLDOWN_MS = 30 * 1000"
definition ROUTER_MAX_RATE_LIMIT_COOLDOWN_MS :: rat where "ROUTER_MAX_RATE_LIMIT_COOLDOWN_MS = 30 * 60 * 1000"
definition COOLDOWN_long :: int where "COOLDOWN_long = 2 * 60 * 1000"
definition COOLDOWN_short :: int where "COOLDOWN_short = 5 * 1000"

record error_rule =
  rule_text :: "string option"
  rule_status :: "int option"
  rule_cooldownMs :: "int option"
  rule_backoff :: bool

record fallback_decision =
  shouldFallback :: bool
  cooldownMs :: int
  newBackoffLevel :: "int option"

definition text_rule :: "string \<Rightarrow> int option \<Rightarrow> bool \<Rightarrow> error_rule" where
  "text_rule t c b = \<lparr>rule_text = Some t, rule_status = None, rule_cooldownMs = c, rule_backoff = b\<rparr>"

definition status_rule :: "int \<Rightarrow> int option \<Rightarrow> bool \<Rightarrow> error_rule" where
  "status_rule s c b = \<lparr>rule_text = None, rule_status = Some s, rule_cooldownMs = c, rule_backoff = b\<rparr>"

definition ROUTER_ERROR_RULES :: "error_rule list" where
  "ROUTER_ERROR_RULES =
     [text_rule ''no credentials'' (Some COOLDOWN_long) False,
      text_rule ''request not allowed'' (Some COOLDOWN_short) False,
      text_rule ''improperly formed request'' (Some COOLDOWN_long) False,
      text_rule ''rate limit'' None True,
      text_rule ''too many requests'' None True,
      text_rule ''quota exceeded'' None True,
      text_rule ''out of extra usage'' None True,
      text_rule ''usage limit'' None True,
      text_rule ''capacity'' None True,
      text_rule ''overloaded'' None True,
      status_rule 401 (Some COOLDOWN_long) False,
      status_rule 402 (Some COOLDOWN_long) False,
      status_rule 403 (Some COOLDOWN_long) False,
      status_rule 404 (Some COOLDOWN_long) False,
      status_rule 429 None True]"

definition getQuotaCooldown :: "int \<Rightarrow> int" where
  "getQuotaCooldown backoffLevel =
     (let level = max 0 (backoffLevel - 1); cooldown = backoff_base * 2 ^ nat level
      in min cooldown backoff_max)"

definition backoffDecision :: "int \<Rightarrow> fallback_decision" where
  "backoffDecision backoffLevel =
     (let level = min (backoffLevel + 1) backoff_maxLevel
      in \<lparr>shouldFallback = True, cooldownMs = getQuotaCooldown level, newBackoffLevel = Some level\<rparr>)"

text \<open>\<open>s.includes(w)\<close>.\<close>

fun str_includes :: "string \<Rightarrow> string \<Rightarrow> bool" where
  "str_includes w [] \<longleftrightarrow> w = []"
| "str_includes w (c # cs) \<longleftrightarrow> starts_with w (c # cs) \<or> str_includes w cs"

definition rule_applies :: "int option \<Rightarrow> string \<Rightarrow> error_rule \<Rightarrow> bool" where
  "rule_applies status lowerError rule \<longleftrightarrow>
     (case rule_text rule of Some t \<Rightarrow> lowerError \<noteq> [] \<and> str_includes t lowerError | None \<Rightarrow> False)
     \<or> (case rule_status rule of Some s \<Rightarrow> status = Some s | None \<Rightarrow> False)"

definition checkFallbackError :: "int option \<Rightarrow> string \<Rightarrow> int \<Rightarrow> fallback_decision" where
  "checkFallbackError status errorText backoffLevel =
     (let lowerError = to_lower errorText in
      case find (rule_applies status lowerError) ROUTER_ERROR_RULES of
        Some rule \<Rightarrow>
          if rule_backoff rule then backoffDecision backoffLevel
          else \<lparr>shouldFallback = True, cooldownMs = (case rule_cooldownMs rule of Some c \<Rightarrow> c | None \<Rightarrow> 0),
                newBackoffLevel = None\<rparr>
      | None \<Rightarrow> \<lparr>shouldFallback = True, cooldownMs = ROUTER_TRANSIENT_COOLDOWN_MS, newBackoffLevel = None\<rparr>)"

section \<open>Reset times in errors\<close>

datatype js_value =
  JNull
  | JBool bool
  | JNum rat
  | JStr string
  | JArr "js_value list"
  | JObj "(string \<times> js_value) list"

text \<open>\<open>Object.entries\<close>: the keys of an array are its indices.\<close>

definition js_entries :: "js_value \<Rightarrow> (string \<times> js_value) list" where
  "js_entries v =
     (case v of JObj kvs \<Rightarrow> kvs | JArr vs \<Rightarrow> map (\<lambda>(i, x). (show_nat i, x)) (enumerate 0 vs) | _ \<Rightarrow> [])"

text \<open>The calls \<open>visit(value, depth)\<close>: \<open>room\<close> is how many levels are left, five at the root.\<close>

fun walk :: "nat \<Rightarrow> js_value \<Rightarrow> (string \<times> js_value) list" where
  "walk 0 v = []"
| "walk (Suc room) v = concat (map (\<lambda>(k, x). (k, x) # walk room x) (js_entries v))"

definition walkErrorValues :: "js_value \<Rightarrow> (string \<times> js_value) list" where
  "walkErrorValues error = walk 5 error"

definition parseResetTimestampNum :: "rat \<Rightarrow> rat \<Rightarrow> rat option" where
  "parseResetTimestampNum n now =
     (let timestamp = (if n < 1000000000000 then n * 1000 else n) in if now < timestamp then Some timestamp else None)"

definition parseResetTimestamp :: "(string \<Rightarrow> int option) \<Rightarrow> js_value \<Rightarrow> rat \<Rightarrow> rat option" where
  "parseResetTimestamp parse_date v now =
     (case v of
        JNum n \<Rightarrow> parseResetTimestampNum n now
      | JStr s \<Rightarrow>
          if js_trim s = [] then None
          else if list_all is_digit (js_trim s) then parseResetTimestampNum (of_nat (nat_of_digits (js_trim s))) now
          else (case parse_date s of None \<Rightarrow> None | Some t \<Rightarrow> if of_int t \<le> now then None else Some (of_int t))
      | _ \<Rightarrow> None)"

definition reset_keys :: "string list" where
  "reset_keys = [''resetsatms'', ''resetatms'', ''resets_at'', ''reset_at'', ''resetat'', ''ratelimitreset'']"

fun first_some :: "('a \<Rightarrow> 'b option) \<Rightarrow> 'a list \<Rightarrow> 'b option" where
  "first_some f [] = None"
| "first_some f (x # xs) = (case f x of Some y \<Rightarrow> Some y | None \<Rightarrow> first_some f xs)"

definition extractResetAtMs :: "(string \<Rightarrow> int option) \<Rightarrow> js_value \<Rightarrow> rat \<Rightarrow> rat option" where
  "extractResetAtMs parse_date error now =
     first_some (\<lambda>(key, v). if to_lower key \<notin> set reset_keys then None else parseResetTimestamp parse_date v now)
       (walkErrorValues error)"

text \<open>A decimal number \<open>\d+(\.\d+)?\<close>, read by \<open>Number\<close>.\<close>

definition decimal_value :: "string \<Rightarrow> rat option" where
  "decimal_value s =
     (let a = takeWhile is_digit s; r = dropWhile is_digit s in
      if a = [] then None
      else case r of
        [] \<Rightarrow> Some (of_nat (nat_of_digits a))
      | c # b \<Rightarrow> if c = CHR ''.'' \<and> b \<noteq> [] \<and> list_all is_digit b
                 then Some (of_nat (nat_of_digits a) + of_nat (nat_of_digits b) / 10 ^ length b) else None)"

definition parseDurationValue :: "js_value \<Rightarrow> bool \<Rightarrow> rat option" where
  "parseDurationValue v is_ms =
     (let scale = (\<lambda>n. if is_ms then n else n * 1000) in
      case v of
        JNum n \<Rightarrow> Some (scale n)
      | JStr s \<Rightarrow>
          (let t = js_trim s
           in if starts_with ''-'' t then map_option (\<lambda>n. scale (- n)) (decimal_value (drop 1 t))
              else map_option scale (decimal_value t))
      | _ \<Rightarrow> None)"

text \<open>One optional group \<open>(?:(\d+)\s*u)?\<close>: the number and the rest, or nothing consumed.\<close>

definition opt_group :: "char \<Rightarrow> string \<Rightarrow> nat \<times> string" where
  "opt_group u s =
     (let d = takeWhile is_digit s in
      case dropWhile is_space (dropWhile is_digit s) of
        c # r \<Rightarrow> if d \<noteq> [] \<and> lower_char c = u then (nat_of_digits d, r) else (0, s)
      | [] \<Rightarrow> (0, s))"

text \<open>The first place where a case-insensitive literal is followed by a blank; what follows the blanks.\<close>

fun after_phrase :: "string \<Rightarrow> string \<Rightarrow> string option" where
  "after_phrase w [] = None"
| "after_phrase w (c # cs) =
     (if to_lower (take (length w) (c # cs)) = w \<and> takeWhile is_space (drop (length w) (c # cs)) \<noteq> []
      then Some (dropWhile is_space (drop (length w) (c # cs)))
      else after_phrase w cs)"

definition reset_after_ms :: "string \<Rightarrow> nat" where
  "reset_after_ms s =
     (let (h, s1) = opt_group (CHR ''h'') s;
          (m, s2) = opt_group (CHR ''m'') (dropWhile is_space s1);
          (sec, s3) = opt_group (CHR ''s'') (dropWhile is_space s2)
      in h * 3600000 + m * 60000 + sec * 1000)"

definition word_char :: "char \<Rightarrow> bool" where
  "word_char c \<longleftrightarrow> is_digit c \<or> (let n = of_char (lower_char c) :: nat in 97 \<le> n \<and> n \<le> 122) \<or> c = CHR ''_''"

text \<open>\<open>~?\s*(\d+)\s*(unit)\b\<close> at one place.\<close>

definition try_again_at :: "string \<Rightarrow> (nat \<times> string) option" where
  "try_again_at s =
     (let s1 = dropWhile is_space (if starts_with ''~'' s then drop 1 s else s);
          d = takeWhile is_digit s1;
          u = to_lower (takeWhile word_char (dropWhile is_space (dropWhile is_digit s1)))
      in if d \<noteq> [] \<and> u \<in> {''min'', ''mins'', ''minute'', ''minutes'', ''m'', ''sec'', ''secs'', ''second'', ''seconds'', ''s''}
         then Some (nat_of_digits d, u) else None)"

fun try_again :: "string \<Rightarrow> (nat \<times> string) option" where
  "try_again [] = None"
| "try_again (c # cs) =
     (let w = ''try again in'' in
      if to_lower (take (length w) (c # cs)) = w \<and> takeWhile is_space (drop (length w) (c # cs)) \<noteq> []
         \<and> try_again_at (dropWhile is_space (drop (length w) (c # cs))) \<noteq> None
      then try_again_at (dropWhile is_space (drop (length w) (c # cs)))
      else try_again cs)"

definition parseResetDurationFromText :: "string \<Rightarrow> rat option" where
  "parseResetDurationFromText t =
     (let resetAfter = (case after_phrase ''reset after'' t of Some s \<Rightarrow> reset_after_ms s | None \<Rightarrow> 0)
      in if 0 < resetAfter then Some (of_nat resetAfter)
         else (case try_again t of
                 Some (amount, unit) \<Rightarrow>
                   Some (of_nat (if starts_with ''m'' unit then amount * 60000 else amount * 1000))
               | None \<Rightarrow> None))"

definition parseRetryAfterValue :: "(string \<Rightarrow> int option) \<Rightarrow> rat \<Rightarrow> js_value \<Rightarrow> rat option" where
  "parseRetryAfterValue parse_date now v =
     (case v of
        JNum n \<Rightarrow> Some (n * 1000)
      | JStr s \<Rightarrow>
          (let trimmed = js_trim s in
           if trimmed = [] then None
           else case decimal_value trimmed of
             Some n \<Rightarrow> Some (n * 1000)
           | None \<Rightarrow>
               (case parse_date trimmed of
                  Some t \<Rightarrow> if 0 < of_int t - now then Some (of_int t - now) else None
                | None \<Rightarrow> parseResetDurationFromText trimmed))
      | _ \<Rightarrow> None)"

definition after_keys :: "string list" where
  "after_keys = [''resetsinseconds'', ''resets_in_seconds'', ''retryafterseconds'', ''retry_after_seconds'',
     ''retryafterms'', ''retry_after_ms'', ''x-ratelimit-reset-after'']"

definition reset_after_of :: "(string \<Rightarrow> int option) \<Rightarrow> rat \<Rightarrow> string \<times> js_value \<Rightarrow> rat option" where
  "reset_after_of parse_date now kv =
     (let key = to_lower (fst kv); v = snd kv;
          duration = (if key \<in> set after_keys
                      then parseDurationValue v (drop (length key - 2) key = ''ms'') else None)
      in case duration of
           Some d \<Rightarrow> Some d
         | None \<Rightarrow> if key \<in> {''retryafter'', ''retry_after''} then parseRetryAfterValue parse_date now v else None)"

text \<open>\<open>error_text\<close> is \<open>normalizeErrorText\<close>: a string, an error's message, or the JSON of the value.\<close>

definition extractResetAfterMs :: "(string \<Rightarrow> int option) \<Rightarrow> rat \<Rightarrow> (js_value \<Rightarrow> string) \<Rightarrow> js_value \<Rightarrow> rat option" where
  "extractResetAfterMs parse_date now error_text error =
     (case first_some (reset_after_of parse_date now) (walkErrorValues error) of
        Some d \<Rightarrow> Some d
      | None \<Rightarrow> parseResetDurationFromText (error_text error))"

definition extractProviderResetCooldownMs ::
  "(string \<Rightarrow> int option) \<Rightarrow> (js_value \<Rightarrow> string) \<Rightarrow> js_value \<Rightarrow> rat \<Rightarrow> rat \<Rightarrow> rat option" where
  "extractProviderResetCooldownMs parse_date error_text error now maxCooldownMs =
     (let resetAfter =
            (case extractResetAfterMs parse_date now error_text error of
               Some d \<Rightarrow> if 0 < d then Some (min d maxCooldownMs) else None
             | None \<Rightarrow> None)
      in case extractResetAtMs parse_date error now of
           Some t \<Rightarrow> if now < t then Some (min (t - now) maxCooldownMs) else resetAfter
         | None \<Rightarrow> resetAfter)"

section \<open>Accounts\<close>

record account =
  acc_id :: "string option"
  rateLimitedUntil :: "int option"
  acc_backoffLevel :: "int option"
  acc_lastError :: "(int option \<times> string \<times> int) option"
  acc_status :: string

definition isAccountUnavailable :: "int \<Rightarrow> int option \<Rightarrow> bool" where
  "isAccountUnavailable now unavailableUntil = (case unavailableUntil of None \<Rightarrow> False | Some t \<Rightarrow> now < t)"

definition getUnavailableUntil :: "int \<Rightarrow> int \<Rightarrow> int" where
  "getUnavailableUntil now cooldown = now + cooldown"

fun earliest_loop :: "int \<Rightarrow> int option \<Rightarrow> int option list \<Rightarrow> int option" where
  "earliest_loop now earliest [] = earliest"
| "earliest_loop now earliest (u # us) =
     (case u of
        None \<Rightarrow> earliest_loop now earliest us
      | Some until \<Rightarrow>
          if until \<le> now then earliest_loop now earliest us
          else earliest_loop now (case earliest of None \<Rightarrow> Some until | Some e \<Rightarrow> if until < e then Some until else Some e) us)"

definition getEarliestRateLimitedUntil :: "int \<Rightarrow> account list \<Rightarrow> int option" where
  "getEarliestRateLimitedUntil now accounts = earliest_loop now None (map rateLimitedUntil accounts)"

definition filterAvailableAccounts :: "int \<Rightarrow> account list \<Rightarrow> string option \<Rightarrow> account list" where
  "filterAvailableAccounts now accounts excludeId =
     filter (\<lambda>a. if excludeId \<noteq> None \<and> excludeId \<noteq> Some [] \<and> acc_id a = excludeId then False
                 else case rateLimitedUntil a of None \<Rightarrow> True | Some t \<Rightarrow> t \<le> now) accounts"

definition formatRetryAfter :: "int \<Rightarrow> int option \<Rightarrow> string" where
  "formatRetryAfter now until =
     (case until of
        None \<Rightarrow> []
      | Some t \<Rightarrow>
          (let diffMs = t - now in
           if diffMs \<le> 0 then ''reset after 0s''
           else (let totalSeconds = nat ((diffMs + 999) div 1000);
                     hours = totalSeconds div 3600;
                     minutes = totalSeconds mod 3600 div 60;
                     seconds = totalSeconds mod 60;
                     parts = (if 0 < hours then [show_nat hours @ ''h''] else [])
                       @ (if 0 < minutes then [show_nat minutes @ ''m''] else []);
                     parts = parts @ (if 0 < seconds \<or> parts = [] then [show_nat seconds @ ''s''] else [])
                 in ''reset after '' @ join_with '' '' parts)))"

definition resetAccountState :: "account \<Rightarrow> account" where
  "resetAccountState a = a\<lparr>rateLimitedUntil := None, acc_backoffLevel := Some 0, acc_lastError := None, acc_status := ''active''\<rparr>"

definition applyErrorState :: "int \<Rightarrow> int option \<Rightarrow> string \<Rightarrow> account \<Rightarrow> account" where
  "applyErrorState now status errorText a =
     (let level = (case acc_backoffLevel a of Some l \<Rightarrow> l | None \<Rightarrow> 0);
          decision = checkFallbackError status errorText level
      in a\<lparr>rateLimitedUntil := (if 0 < cooldownMs decision then Some (getUnavailableUntil now (cooldownMs decision)) else None),
           acc_backoffLevel := Some (case newBackoffLevel decision of Some l \<Rightarrow> l | None \<Rightarrow> level),
           acc_lastError := Some (status, errorText, now), acc_status := ''error''\<rparr>)"

section \<open>Bounds of the cooldown\<close>

lemma getQuotaCooldown_bounds: "backoff_base \<le> getQuotaCooldown l \<and> getQuotaCooldown l \<le> backoff_max"
proof -
  have "(1 :: int) \<le> 2 ^ nat (max 0 (l - 1))" by simp
  then show ?thesis by (simp add: getQuotaCooldown_def Let_def backoff_base_def backoff_max_def)
qed

lemma checkFallbackError_cases:
  "checkFallbackError status t l = backoffDecision l
   \<or> (\<exists>c \<in> {COOLDOWN_long, COOLDOWN_short, ROUTER_TRANSIENT_COOLDOWN_MS}.
        checkFallbackError status t l = \<lparr>shouldFallback = True, cooldownMs = c, newBackoffLevel = None\<rparr>)"
proof (cases "find (rule_applies status (to_lower t)) ROUTER_ERROR_RULES")
  case None
  then show ?thesis by (simp add: checkFallbackError_def Let_def)
next
  case (Some rule)
  then have "rule \<in> set ROUTER_ERROR_RULES" by (auto simp: find_Some_iff)
  then have "rule_backoff rule \<or> rule_cooldownMs rule \<in> {Some COOLDOWN_long, Some COOLDOWN_short}"
    by (auto simp: ROUTER_ERROR_RULES_def text_rule_def status_rule_def)
  with Some show ?thesis by (auto simp: checkFallbackError_def Let_def)
qed

text \<open>The state of an account after the errors \<open>es\<close>, each with its time, status and text.\<close>

definition after_errors :: "(int \<times> int option \<times> string) list \<Rightarrow> account \<Rightarrow> account" where
  "after_errors es a = foldl (\<lambda>a (now, status, t). applyErrorState now status t a) a es"

definition level_of :: "account \<Rightarrow> int" where
  "level_of a = (case acc_backoffLevel a of Some l \<Rightarrow> l | None \<Rightarrow> 0)"

lemma after_errors_Cons: "after_errors ((now, st, t) # es) a = after_errors es (applyErrorState now st t a)"
  by (simp add: after_errors_def)

lemma after_errors_snoc: "after_errors (es @ [(now, st, t)]) a = applyErrorState now st t (after_errors es a)"
  by (simp add: after_errors_def)

lemma level_applyErrorState:
  "level_of (applyErrorState now st t a) =
     (case newBackoffLevel (checkFallbackError st t (level_of a)) of Some l \<Rightarrow> l | None \<Rightarrow> level_of a)"
  by (simp add: applyErrorState_def level_of_def Let_def split: option.splits)

lemma level_bounds:
  assumes "0 \<le> level_of a" "level_of a \<le> backoff_maxLevel"
  shows "level_of a \<le> level_of (applyErrorState now st t a) \<and> level_of (applyErrorState now st t a) \<le> backoff_maxLevel"
  using checkFallbackError_cases [of st t "level_of a"] assms
  by (auto simp: level_applyErrorState backoffDecision_def Let_def)

lemma levels_bounded:
  "0 \<le> level_of a \<Longrightarrow> level_of a \<le> backoff_maxLevel \<Longrightarrow>
     0 \<le> level_of (after_errors es a) \<and> level_of (after_errors es a) \<le> backoff_maxLevel"
proof (induction es arbitrary: a)
  case (Cons e es)
  obtain now st t where e: "e = (now, st, t)" by (cases e) auto
  have "0 \<le> level_of (applyErrorState now st t a)" "level_of (applyErrorState now st t a) \<le> backoff_maxLevel"
    using level_bounds [OF Cons.prems, of now st t] Cons.prems by auto
  then show ?case using Cons.IH by (simp add: e after_errors_Cons)
qed (simp add: after_errors_def)

text \<open>Whatever errors an account with no backoff goes through, it is unavailable after each of
  them, for at least five seconds when the error is not a rate limit and two when it is, and never
  for longer than five minutes; and its backoff level stays between zero and fifteen.\<close>

theorem error_cooldown_bounds:
  assumes "0 \<le> level_of a" and "level_of a \<le> backoff_maxLevel" and "b = after_errors (es @ [(now, st, t)]) a"
  shows "(\<exists>until. rateLimitedUntil b = Some until \<and> now + 2000 \<le> until \<and> until \<le> now + 300000)
    \<and> isAccountUnavailable now (rateLimitedUntil b) \<and> 0 \<le> level_of b \<and> level_of b \<le> 15"
proof -
  let ?a = "after_errors es a"
  let ?d = "checkFallbackError st t (level_of ?a)"
  have b: "b = applyErrorState now st t ?a" by (simp add: assms(3) after_errors_snoc)
  have d: "2000 \<le> cooldownMs ?d \<and> cooldownMs ?d \<le> 300000"
    using checkFallbackError_cases [of st t "level_of ?a"] getQuotaCooldown_bounds
    by (auto simp: backoffDecision_def Let_def COOLDOWN_long_def COOLDOWN_short_def ROUTER_TRANSIENT_COOLDOWN_MS_def
        backoff_base_def backoff_max_def)
  have "rateLimitedUntil b = Some (now + cooldownMs ?d)"
    using d by (simp add: b applyErrorState_def Let_def level_of_def getUnavailableUntil_def)
  moreover have "0 \<le> level_of b" "level_of b \<le> 15"
    using levels_bounded [OF assms(1,2), of "es @ [(now, st, t)]"] assms(3) by (simp_all add: backoff_maxLevel_def)
  ultimately show ?thesis using d by (simp add: isAccountUnavailable_def)
qed

definition fresh_account :: account where
  "fresh_account = \<lparr>acc_id = None, rateLimitedUntil = None, acc_backoffLevel = None, acc_lastError = None, acc_status = []\<rparr>"

theorem error_cooldown_bounds_witness:
  "0 \<le> level_of fresh_account \<and> level_of fresh_account \<le> backoff_maxLevel
   \<and> level_of (after_errors ([] @ [(0, Some 429, [])]) fresh_account) \<le> 15"
  using error_cooldown_bounds [of fresh_account _ "[]" 0 "Some 429" "[]", OF _ _ refl]
  by (simp add: fresh_account_def level_of_def backoff_maxLevel_def)

text \<open>A rate limit: an error that the rules answer with backoff.\<close>

definition rate_limited :: "int option \<Rightarrow> string \<Rightarrow> bool" where
  "rate_limited status t \<longleftrightarrow> (\<forall>l. checkFallbackError status t l = backoffDecision l)"

lemma rate_limited_429: "(\<forall>r \<in> set (take 14 ROUTER_ERROR_RULES). \<not> rule_applies (Some 429) (to_lower t) r) \<Longrightarrow> rate_limited (Some 429) t"
  by (simp add: rate_limited_def checkFallbackError_def Let_def ROUTER_ERROR_RULES_def rule_applies_def status_rule_def)

lemma rate_limit_levels:
  "\<forall>(now, st, t) \<in> set es. rate_limited st t \<Longrightarrow> 0 \<le> level_of a \<Longrightarrow> level_of a \<le> backoff_maxLevel \<Longrightarrow>
     level_of (after_errors es a) = min (level_of a + int (length es)) backoff_maxLevel"
proof (induction es arbitrary: a)
  case (Cons e es)
  obtain now st t where e: "e = (now, st, t)" by (cases e) auto
  have "level_of (applyErrorState now st t a) = min (level_of a + 1) backoff_maxLevel"
    using Cons.prems(1) by (simp add: e level_applyErrorState rate_limited_def backoffDecision_def Let_def)
  then show ?case using Cons by (auto simp: e after_errors_Cons backoff_maxLevel_def)
qed (simp add: after_errors_def)

text \<open>The backoff is exponential: the \<open>n\<close>-th rate limit in a row of an account without backoff
  makes it unavailable for \<open>2000 * 2 ^ (n - 1)\<close> milliseconds, up to five minutes, and the reset of
  the account starts the sequence anew.\<close>

theorem rate_limits_back_off:
  assumes "\<forall>(now, st, t) \<in> set (es @ [(now', st', t')]). rate_limited st t"
  shows "rateLimitedUntil (after_errors (es @ [(now', st', t')]) (resetAccountState a))
    = Some (now' + min (2000 * 2 ^ length es) 300000)"
proof -
  let ?r = "resetAccountState a"
  have r: "level_of ?r = 0" by (simp add: resetAccountState_def level_of_def)
  have level: "level_of (after_errors es ?r) = min (int (length es)) 15"
    using rate_limit_levels [of es ?r] assms r by (auto simp: backoff_maxLevel_def)
  have d: "checkFallbackError st' t' (level_of (after_errors es ?r)) = backoffDecision (min (int (length es)) 15)"
    using assms level by (auto simp: rate_limited_def)
  have c: "getQuotaCooldown (min (min (int (length es)) 15 + 1) 15) = min (2000 * 2 ^ length es) 300000"
  proof (cases "length es \<le> 14")
    case True
    then show ?thesis by (simp add: getQuotaCooldown_def Let_def backoff_base_def backoff_max_def)
  next
    case False
    then have "(2 :: int) ^ 14 \<le> 2 ^ length es" by (intro power_increasing) simp_all
    with False show ?thesis by (simp add: getQuotaCooldown_def Let_def backoff_base_def backoff_max_def)
  qed
  show ?thesis
    using c d level by (simp add: after_errors_snoc applyErrorState_def Let_def backoffDecision_def backoff_maxLevel_def
        getUnavailableUntil_def level_of_def)
qed

lemma rate_limited_status: "rate_limited (Some 429) []"
  by (rule rate_limited_429) (simp add: ROUTER_ERROR_RULES_def rule_applies_def text_rule_def status_rule_def to_lower_def)

theorem rate_limits_back_off_witness:
  "rateLimitedUntil (after_errors ([(0, Some 429, []), (2000, Some 429, [])] @ [(6000, Some 429, [])]) (resetAccountState fresh_account))
     = Some (6000 + 8000)"
  using rate_limits_back_off [of "[(0, Some 429, []), (2000, Some 429, [])]" 6000 "Some 429" "[]" fresh_account]
  by (simp add: rate_limited_status)

text \<open>A cooldown taken from the reset time in a provider's error is positive and never longer
  than the limit.\<close>

theorem reset_cooldown_bounds:
  assumes "0 < maxMs" and "extractProviderResetCooldownMs parse_date error_text error now maxMs = Some ms"
  shows "0 < ms \<and> ms \<le> maxMs"
  using assms by (auto simp: extractProviderResetCooldownMs_def Let_def split: option.splits if_splits)

theorem reset_cooldown_bounds_witness:
  "\<exists>ms. extractProviderResetCooldownMs (\<lambda>_. None) (\<lambda>_. []) (JObj [(''Retry_After'', JNum 5)]) 0 ROUTER_MAX_RATE_LIMIT_COOLDOWN_MS = Some ms
     \<and> 0 < ms \<and> ms \<le> ROUTER_MAX_RATE_LIMIT_COOLDOWN_MS"
proof -
  have "to_lower ''Retry_After'' = ''retry_after''" by code_simp
  then have e: "extractProviderResetCooldownMs (\<lambda>_. None) (\<lambda>_. []) (JObj [(''Retry_After'', JNum 5)]) 0
      ROUTER_MAX_RATE_LIMIT_COOLDOWN_MS = Some 5000"
    by (simp add: extractProviderResetCooldownMs_def extractResetAtMs_def extractResetAfterMs_def walkErrorValues_def
        eval_nat_numeral js_entries_def reset_keys_def reset_after_of_def after_keys_def parseRetryAfterValue_def Let_def
        ROUTER_MAX_RATE_LIMIT_COOLDOWN_MS_def)
  show ?thesis
    using reset_cooldown_bounds [OF _ e] e by (simp add: ROUTER_MAX_RATE_LIMIT_COOLDOWN_MS_def)
qed

section \<open>Reading back a printed retry time\<close>

lemma opt_group_show [simp]:
  "\<not> is_digit c \<Longrightarrow> \<not> is_space c \<Longrightarrow> lower_char c = u \<Longrightarrow> opt_group u (show_nat n @ c # r) = (n, r)"
  by (simp add: opt_group_def Let_def)

lemma opt_group_other [simp]:
  "\<not> is_digit c \<Longrightarrow> \<not> is_space c \<Longrightarrow> lower_char c \<noteq> u \<Longrightarrow> opt_group u (show_nat n @ c # r) = (0, show_nat n @ c # r)"
  by (simp add: opt_group_def Let_def)

lemma opt_group_Nil [simp]: "opt_group u [] = (0, [])"
  by (simp add: opt_group_def)

lemma dropWhile_space_show [simp]: "dropWhile is_space (show_nat n @ r) = show_nat n @ r"
proof -
  obtain c s where s: "show_nat n = c # s" by (cases "show_nat n") auto
  then have "is_digit c" using show_nat_digits [of c n] by simp
  then have "\<not> is_space c" by (auto simp: is_digit_def is_space_def)
  with s show ?thesis by simp
qed

lemma unit_chars:
  "\<not> is_digit (CHR ''h'')" "\<not> is_digit (CHR ''m'')" "\<not> is_digit (CHR ''s'')"
  "\<not> is_space (CHR ''h'')" "\<not> is_space (CHR ''m'')" "\<not> is_space (CHR ''s'')"
  "lower_char (CHR ''h'') = CHR ''h''" "lower_char (CHR ''m'') = CHR ''m''" "lower_char (CHR ''s'') = CHR ''s''"
  "is_space (CHR '' '')"
  by code_simp+

text \<open>C38: What the router prints about a retry time it can read back: the text \<open>reset after ...\<close>
  of a time in the future gives the cooldown in milliseconds, rounded up to a whole second.\<close>

theorem retry_after_roundtrip:
  assumes "now < until"
  shows "parseResetDurationFromText (formatRetryAfter now (Some until)) = Some (of_int ((until - now + 999) div 1000 * 1000))"
proof -
  define n where "n = nat ((until - now + 999) div 1000)"
  have n: "0 < n" "int n = (until - now + 999) div 1000" using assms by (auto simp: n_def)
  define h where "h = n div 3600" define m where "m = n mod 3600 div 60" define s where "s = n mod 60"
  have split: "n = h * 3600 + m * 60 + s"
  proof -
    have "n mod 3600 mod 60 = n mod 60" by (rule mod_mod_cancel) simp
    moreover have "n = n div 3600 * 3600 + n mod 3600" "n mod 3600 = n mod 3600 div 60 * 60 + n mod 3600 mod 60" by simp_all
    ultimately show ?thesis unfolding h_def m_def s_def by linarith
  qed
  define body where "body = join_with '' '' ((if 0 < h then [show_nat h @ ''h''] else []) @ (if 0 < m then [show_nat m @ ''m''] else [])
      @ (if 0 < s \<or> (h = 0 \<and> m = 0) then [show_nat s @ ''s''] else []))"
  have fmt: "formatRetryAfter now (Some until) = ''reset after '' @ body"
    using assms by (auto simp: formatRetryAfter_def Let_def body_def h_def m_def s_def n_def)
  have body: "reset_after_ms body = n * 1000" "\<exists>k r. body = show_nat k @ r"
    using n(1) by (auto simp: body_def reset_after_ms_def split Let_def unit_chars)
  have phrase: "after_phrase ''reset after'' (''reset after '' @ body) = Some body"
  proof -
    have "to_lower ''reset after'' = ''reset after''" by code_simp
    moreover obtain k r where "body = show_nat k @ r" using body(2) by blast
    ultimately show ?thesis by (simp add: unit_chars)
  qed
  have "of_nat (n * 1000) = (of_int (int n * 1000) :: rat)" by simp
  with n show ?thesis by (simp only: fmt parseResetDurationFromText_def Let_def phrase option.case body(1)) simp
qed

theorem retry_after_roundtrip_witness:
  "parseResetDurationFromText (formatRetryAfter 0 (Some 3723000)) = Some 3723000 \<and> (0 :: int) < 3723000"
  using retry_after_roundtrip [of 0 3723000] by simp

end
