(* ===== verification/Router_Select.thy ===== *)
theory Router_Select
  imports Router_Cooldown
begin

text \<open>
  The choice of a provider connection (\<open>selectProviderConnection\<close> and its explanation in
  \<open>packages/router/src/index.ts\<close>): model locks, quota snapshots, and the strategies
  \<open>fill-first\<close>, \<open>round-robin\<close> and \<open>quota-aware\<close>. Timestamps are the instants they name, \<open>nowMs\<close>
  is \<open>Date.now()\<close> and \<open>now\<close> the option of that name; settings given as number or string are held
  as the number \<open>parseInt\<close> or \<open>parseFloat\<close> reads from them, \<open>None\<close> if none.
\<close>

section \<open>Connections and locks\<close>

text \<open>The value stored under a lock key: a timestamp, \<open>null\<close>, or anything else.\<close>

datatype lock_value = Until int | Null | Not_string

datatype quota_status = Available | Depleted | Unknown | Error_status

record quota_snapshot =
  checkedAt :: "int option"
  q_status :: "quota_status option"
  q_score :: "rat option"
  q_remaining :: "rat option"

record connection =
  c_id :: string
  c_provider :: string
  isActive :: "bool option"
  priority :: "int option"
  lastUsedAt :: "int option"
  consecutiveUseCount :: "int option"
  c_lastError :: "string option"
  errorCode :: "string option"
  locks :: "(string \<times> lock_value) list"
  quotaSelection :: "quota_snapshot option"

definition MODEL_LOCK_PREFIX :: string where "MODEL_LOCK_PREFIX = ''modelLock_''"
definition MODEL_LOCK_ALL :: string where "MODEL_LOCK_ALL = MODEL_LOCK_PREFIX @ ''__all''"

definition getModelLockKey :: "string option \<Rightarrow> string" where
  "getModelLockKey model = (case model of Some m \<Rightarrow> if m \<noteq> [] then MODEL_LOCK_PREFIX @ m else MODEL_LOCK_ALL | None \<Rightarrow> MODEL_LOCK_ALL)"

text \<open>\<open>connection[key] ?? connection[MODEL_LOCK_ALL]\<close>.\<close>

definition lock_entry :: "connection \<Rightarrow> string \<Rightarrow> lock_value option" where
  "lock_entry c key =
     (case map_of (locks c) key of
        None \<Rightarrow> map_of (locks c) MODEL_LOCK_ALL
      | Some Null \<Rightarrow> map_of (locks c) MODEL_LOCK_ALL
      | Some v \<Rightarrow> Some v)"

definition isModelLockActive :: "int \<Rightarrow> connection \<Rightarrow> string option \<Rightarrow> bool" where
  "isModelLockActive nowMs c model =
     (case lock_entry c (getModelLockKey model) of Some (Until t) \<Rightarrow> nowMs < t | _ \<Rightarrow> False)"

definition lock_times :: "connection \<Rightarrow> int option list" where
  "lock_times c = map (\<lambda>(k, v). case v of Until t \<Rightarrow> if starts_with MODEL_LOCK_PREFIX k then Some t else None | _ \<Rightarrow> None) (locks c)"

definition getEarliestModelLockUntil :: "int \<Rightarrow> connection \<Rightarrow> int option" where
  "getEarliestModelLockUntil nowMs c = earliest_loop nowMs None (lock_times c)"

definition buildModelLockUpdate :: "int \<Rightarrow> string option \<Rightarrow> int \<Rightarrow> string \<times> lock_value" where
  "buildModelLockUpdate nowMs model cooldown = (getModelLockKey model, Until (nowMs + cooldown))"

definition buildClearModelLocksUpdate :: "connection \<Rightarrow> (string \<times> lock_value) list" where
  "buildClearModelLocksUpdate c = map (\<lambda>(k, _). (k, Null)) (filter (\<lambda>(k, _). starts_with MODEL_LOCK_PREFIX k) (locks c))"

section \<open>Quota\<close>

datatype quota_strategy = Off | Prefer_remaining | Require_remaining

record quota_score =
  hasFreshSnapshot :: bool
  qs_status :: quota_status
  qs_score :: rat
  remainingPercentage :: "rat option"

definition getProviderConnectionQuotaScore :: "connection \<Rightarrow> int \<Rightarrow> int \<Rightarrow> quota_score" where
  "getProviderConnectionQuotaScore c now maxAgeMs =
     (case quotaSelection c of
        None \<Rightarrow> \<lparr>hasFreshSnapshot = False, qs_status = Unknown, qs_score = -1, remainingPercentage = None\<rparr>
      | Some snapshot \<Rightarrow>
          (let fresh = (case checkedAt snapshot of None \<Rightarrow> False | Some t \<Rightarrow> now - t \<le> maxAgeMs);
               status = (case q_status snapshot of Some s \<Rightarrow> s | None \<Rightarrow> Unknown)
           in if \<not> fresh then \<lparr>hasFreshSnapshot = False, qs_status = status, qs_score = -1, remainingPercentage = None\<rparr>
              else \<lparr>hasFreshSnapshot = True, qs_status = status,
                    qs_score = max (-1) (min 1 (case q_score snapshot of Some s \<Rightarrow> s | None \<Rightarrow> -1)),
                    remainingPercentage = q_remaining snapshot\<rparr>))"

definition quota_admits :: "quota_strategy \<Rightarrow> int \<Rightarrow> int \<Rightarrow> rat \<Rightarrow> connection \<Rightarrow> bool" where
  "quota_admits strategy now maxAgeMs minRemaining c =
     (let score = getProviderConnectionQuotaScore c now maxAgeMs in
      if \<not> hasFreshSnapshot score then strategy \<noteq> Require_remaining
      else if qs_status score = Depleted then False
      else if strategy = Require_remaining
      then (case remainingPercentage score of None \<Rightarrow> True | Some r \<Rightarrow> minRemaining \<le> r)
      else True)"

definition applyQuotaSelectionFilter :: "quota_strategy \<Rightarrow> int \<Rightarrow> int \<Rightarrow> rat \<Rightarrow> connection list \<Rightarrow> connection list" where
  "applyQuotaSelectionFilter strategy now maxAgeMs minRemaining cs =
     (if strategy = Off then cs else filter (quota_admits strategy now maxAgeMs minRemaining) cs)"

section \<open>Orders\<close>

definition priorityValue :: "connection \<Rightarrow> int" where
  "priorityValue c = (case priority c of Some p \<Rightarrow> if p = 0 then 999 else p | None \<Rightarrow> 999)"

definition by_priority :: "connection \<Rightarrow> connection \<Rightarrow> int" where
  "by_priority l r = priorityValue l - priorityValue r"

definition sortProviderConnections :: "connection list \<Rightarrow> connection list" where
  "sortProviderConnections cs = js_sort by_priority cs"

definition by_quota :: "int \<Rightarrow> int \<Rightarrow> connection \<Rightarrow> connection \<Rightarrow> int" where
  "by_quota now maxAgeMs l r =
     (let ls = qs_score (getProviderConnectionQuotaScore l now maxAgeMs);
          rs = qs_score (getProviderConnectionQuotaScore r now maxAgeMs)
      in if rs \<noteq> ls then (if rs < ls then -1 else 1) else priorityValue l - priorityValue r)"

definition sortProviderConnectionsByQuota :: "int \<Rightarrow> int \<Rightarrow> connection list \<Rightarrow> connection list" where
  "sortProviderConnectionsByQuota now maxAgeMs cs = js_sort (by_quota now maxAgeMs) cs"

definition sortByMostRecentUseThenPriority :: "connection \<Rightarrow> connection \<Rightarrow> int" where
  "sortByMostRecentUseThenPriority l r =
     (case (lastUsedAt l, lastUsedAt r) of
        (None, None) \<Rightarrow> priorityValue l - priorityValue r
      | (None, Some _) \<Rightarrow> 1
      | (Some _, None) \<Rightarrow> -1
      | (Some a, Some b) \<Rightarrow> b - a)"

definition sortByOldestUseThenPriority :: "connection \<Rightarrow> connection \<Rightarrow> int" where
  "sortByOldestUseThenPriority l r =
     (case (lastUsedAt l, lastUsedAt r) of
        (None, None) \<Rightarrow> priorityValue l - priorityValue r
      | (None, Some _) \<Rightarrow> -1
      | (Some _, None) \<Rightarrow> 1
      | (Some a, Some b) \<Rightarrow> a - b)"

section \<open>Settings\<close>

datatype account_strategy = Fill_first | Round_robin | Quota_aware

record strategy_config =
  fallbackStrategy :: "account_strategy option"
  stickyRoundRobinLimit :: "int option option"
  quotaStrategy :: "quota_strategy option"
  quotaMinRemainingPercentage :: "rat option option"
  quotaMaxAgeMs :: "int option option"

definition no_config :: strategy_config where
  "no_config = \<lparr>fallbackStrategy = None, stickyRoundRobinLimit = None, quotaStrategy = None,
     quotaMinRemainingPercentage = None, quotaMaxAgeMs = None\<rparr>"

record selection_settings =
  general :: strategy_config
  providerStrategies :: "(string \<times> strategy_config) list"

text \<open>\<open>a ?? b\<close>.\<close>

definition or_else :: "'a option \<Rightarrow> 'a option \<Rightarrow> 'a option" where
  "or_else a b = (case a of Some x \<Rightarrow> Some x | None \<Rightarrow> b)"

definition normalizeAccountStickyLimit :: "int option \<Rightarrow> int" where
  "normalizeAccountStickyLimit parsed = (case parsed of Some n \<Rightarrow> if 0 < n then n else 3 | None \<Rightarrow> 3)"

definition normalizeDurationMs :: "int option \<Rightarrow> int \<Rightarrow> int" where
  "normalizeDurationMs parsed fallback = (case parsed of Some n \<Rightarrow> if 0 \<le> n then n else fallback | None \<Rightarrow> fallback)"

definition normalizePercentage :: "rat option \<Rightarrow> rat \<Rightarrow> rat" where
  "normalizePercentage parsed fallback = (case parsed of Some p \<Rightarrow> max 0 (min 100 p) | None \<Rightarrow> fallback)"

record selection_options =
  o_provider :: string
  o_model :: "string option"
  o_connections :: "connection list"
  o_settings :: "selection_settings option"
  o_exclude :: "string list"
  o_preferred :: "string option"
  o_now :: int

definition override_of :: "selection_options \<Rightarrow> strategy_config" where
  "override_of opts =
     (case o_settings opts of
        None \<Rightarrow> no_config
      | Some st \<Rightarrow> (case map_of (providerStrategies st) (o_provider opts) of Some c \<Rightarrow> c | None \<Rightarrow> no_config))"

definition general_of :: "selection_options \<Rightarrow> strategy_config" where
  "general_of opts = (case o_settings opts of None \<Rightarrow> no_config | Some st \<Rightarrow> general st)"

definition strategy_of :: "selection_options \<Rightarrow> account_strategy" where
  "strategy_of opts =
     (case or_else (fallbackStrategy (override_of opts)) (fallbackStrategy (general_of opts)) of
        Some s \<Rightarrow> s | None \<Rightarrow> Fill_first)"

definition quotaStrategy_of :: "selection_options \<Rightarrow> quota_strategy" where
  "quotaStrategy_of opts =
     (case or_else (quotaStrategy (override_of opts)) (quotaStrategy (general_of opts)) of
        Some s \<Rightarrow> s | None \<Rightarrow> if strategy_of opts = Quota_aware then Prefer_remaining else Off)"

definition maxAge_of :: "selection_options \<Rightarrow> int" where
  "maxAge_of opts =
     normalizeDurationMs (case or_else (quotaMaxAgeMs (override_of opts)) (quotaMaxAgeMs (general_of opts)) of
                            Some v \<Rightarrow> v | None \<Rightarrow> None) (5 * 60 * 1000)"

definition minRemaining_of :: "selection_options \<Rightarrow> rat" where
  "minRemaining_of opts =
     normalizePercentage (case or_else (quotaMinRemainingPercentage (override_of opts)) (quotaMinRemainingPercentage (general_of opts)) of
                            Some v \<Rightarrow> v | None \<Rightarrow> None) 0"

definition sticky_of :: "selection_options \<Rightarrow> int" where
  "sticky_of opts =
     normalizeAccountStickyLimit
       (case or_else (stickyRoundRobinLimit (override_of opts)) (stickyRoundRobinLimit (general_of opts)) of
          Some v \<Rightarrow> v | None \<Rightarrow> Some 3)"

section \<open>Selection\<close>

datatype selection_result =
  Selected connection "(int \<times> int) option"
  | Unavailable int string "string option" "string option"
  | Missing_connection

definition provider_connections :: "selection_options \<Rightarrow> connection list" where
  "provider_connections opts =
     sortProviderConnections (filter (\<lambda>c. c_provider c = o_provider opts \<and> isActive c \<noteq> Some False) (o_connections opts))"

definition unlocked_connections :: "int \<Rightarrow> selection_options \<Rightarrow> connection list" where
  "unlocked_connections nowMs opts =
     filter (\<lambda>c. c_id c \<notin> set (o_exclude opts) \<and> \<not> isModelLockActive nowMs c (o_model opts)) (provider_connections opts)"

definition available_connections :: "int \<Rightarrow> selection_options \<Rightarrow> connection list" where
  "available_connections nowMs opts =
     applyQuotaSelectionFilter (quotaStrategy_of opts) (o_now opts) (maxAge_of opts) (minRemaining_of opts)
       (unlocked_connections nowMs opts)"

definition unavailable_result :: "int \<Rightarrow> selection_options \<Rightarrow> selection_result" where
  "unavailable_result nowMs opts =
     (let locked = filter (\<lambda>c. isModelLockActive nowMs c (o_model opts)) (provider_connections opts);
          expiries = js_sort (\<lambda>a b. a - b) (List.map_filter (getEarliestModelLockUntil nowMs) locked)
      in case expiries of
           retryAfter # _ \<Rightarrow>
             Unavailable retryAfter (formatRetryAfter nowMs (Some retryAfter))
               (c_lastError (hd locked)) (errorCode (hd locked))
         | [] \<Rightarrow> Missing_connection)"

definition round_robin_choice :: "int \<Rightarrow> int \<Rightarrow> connection list \<Rightarrow> selection_result" where
  "round_robin_choice stickyLimit now available =
     (let current = hd (js_sort sortByMostRecentUseThenPriority available);
          currentCount = (case consecutiveUseCount current of Some n \<Rightarrow> n | None \<Rightarrow> 0)
      in if lastUsedAt current \<noteq> None \<and> currentCount < stickyLimit
         then Selected current (Some (now, currentCount + 1))
         else Selected (hd (js_sort sortByOldestUseThenPriority available)) (Some (now, 1)))"

definition selectProviderConnection :: "int \<Rightarrow> selection_options \<Rightarrow> selection_result" where
  "selectProviderConnection nowMs opts =
     (if provider_connections opts = [] then Missing_connection
      else if unlocked_connections nowMs opts = [] then unavailable_result nowMs opts
      else (let available = available_connections nowMs opts in
            if available = [] then Missing_connection
            else case (if o_preferred opts \<in> {None, Some []} then None
                       else find (\<lambda>c. Some (c_id c) = o_preferred opts) available) of
              Some pinned \<Rightarrow> Selected pinned None
            | None \<Rightarrow>
                (let ranked = (if quotaStrategy_of opts = Off then available
                               else sortProviderConnectionsByQuota (o_now opts) (maxAge_of opts) available)
                 in if strategy_of opts \<noteq> Round_robin then Selected (hd ranked) None
                    else round_robin_choice (sticky_of opts) (o_now opts) available)))"

section \<open>Explanation\<close>

datatype reason =
  Inactive_connection | Excluded_by_attempt | Model_cooldown string | Provider_cooldown
  | Snapshot_stale | Snapshot_depleted | Below_minimum rat | Score rat
  | Preferred_requested | Not_preferred | Selected_by_strategy | Lower_priority

record explanation =
  ex_id :: string
  ex_selected :: bool
  selectable :: bool
  reasons :: "reason list"
  modelLockUntil :: "int option"
  ex_score :: quota_score

definition quota_reason :: "quota_strategy \<Rightarrow> rat \<Rightarrow> quota_score \<Rightarrow> reason list \<times> bool" where
  "quota_reason strategy minRemaining score =
     (if strategy = Off then ([], True)
      else if \<not> hasFreshSnapshot score then ([Snapshot_stale], strategy \<noteq> Require_remaining)
      else if qs_status score = Depleted then ([Snapshot_depleted], False)
      else case remainingPercentage score of
        Some r \<Rightarrow> if strategy = Require_remaining \<and> r < minRemaining then ([Below_minimum minRemaining], False)
                   else ([Score (qs_score score)], True)
      | None \<Rightarrow> ([Score (qs_score score)], True))"

definition explainProviderConnectionCandidate :: "int \<Rightarrow> selection_options \<Rightarrow> string option \<Rightarrow> connection \<Rightarrow> explanation" where
  "explainProviderConnectionCandidate nowMs opts selectedId c =
     (let score = getProviderConnectionQuotaScore c (o_now opts) (maxAge_of opts);
          inactive = (isActive c = Some False);
          excluded = (c_id c \<in> set (o_exclude opts));
          locked = isModelLockActive nowMs c (o_model opts);
          (qreasons, qok) = quota_reason (quotaStrategy_of opts) (minRemaining_of opts) score;
          sel = (\<not> inactive \<and> \<not> excluded \<and> \<not> locked \<and> qok);
          base = (if inactive then [Inactive_connection] else [])
            @ (if excluded then [Excluded_by_attempt] else [])
            @ (if locked then [case o_model opts of Some m \<Rightarrow> if m \<noteq> [] then Model_cooldown m else Provider_cooldown | None \<Rightarrow> Provider_cooldown] else [])
            @ qreasons
            @ (if o_preferred opts \<in> {None, Some []} then []
               else [if Some (c_id c) = o_preferred opts then Preferred_requested else Not_preferred])
      in \<lparr>ex_id = c_id c, ex_selected = (Some (c_id c) = selectedId), selectable = sel,
          reasons = (if Some (c_id c) = selectedId then Selected_by_strategy # base
                     else if sel \<and> base = [] then [Lower_priority] else base),
          modelLockUntil = getEarliestModelLockUntil nowMs c, ex_score = score\<rparr>)"

definition explainProviderConnectionSelection :: "int \<Rightarrow> selection_options \<Rightarrow> selection_result \<times> explanation list" where
  "explainProviderConnectionSelection nowMs opts =
     (let selection = selectProviderConnection nowMs opts;
          selectedId = (case selection of Selected c _ \<Rightarrow> Some (c_id c) | _ \<Rightarrow> None)
      in (selection, map (explainProviderConnectionCandidate nowMs opts selectedId)
            (sortProviderConnections (filter (\<lambda>c. c_provider c = o_provider opts) (o_connections opts)))))"

section \<open>The orders are comparators\<close>

interpretation prio: comparator by_priority
  by unfold_locales (auto simp: by_priority_def)

interpretation quota: comparator "by_quota now maxAgeMs"
  by unfold_locales (auto simp: by_quota_def Let_def split: if_splits)

interpretation recent: comparator sortByMostRecentUseThenPriority
  by unfold_locales (auto simp: sortByMostRecentUseThenPriority_def split: option.splits)

interpretation oldest: comparator sortByOldestUseThenPriority
  by unfold_locales (auto simp: sortByOldestUseThenPriority_def split: option.splits)

interpretation instants: comparator "\<lambda>a b. a - b :: int"
  by unfold_locales auto

section \<open>What is selected\<close>

text \<open>A lock of the model or of the whole connection that has not expired, and a snapshot of the quota that is recent enough.\<close>

definition active_lock :: "int \<Rightarrow> connection \<Rightarrow> string \<Rightarrow> bool" where
  "active_lock nowMs c key \<longleftrightarrow> (case map_of (locks c) key of Some (Until t) \<Rightarrow> nowMs < t | _ \<Rightarrow> False)"

definition is_locked :: "int \<Rightarrow> connection \<Rightarrow> string option \<Rightarrow> bool" where
  "is_locked nowMs c model \<longleftrightarrow> active_lock nowMs c (getModelLockKey model) \<or> active_lock nowMs c MODEL_LOCK_ALL"

definition recent_snapshot :: "selection_options \<Rightarrow> connection \<Rightarrow> quota_snapshot option" where
  "recent_snapshot opts c =
     (case quotaSelection c of
        None \<Rightarrow> None
      | Some q \<Rightarrow> (case checkedAt q of None \<Rightarrow> None | Some t \<Rightarrow> if o_now opts - t \<le> maxAge_of opts then Some q else None))"

definition has_quota :: "selection_options \<Rightarrow> connection \<Rightarrow> bool" where
  "has_quota opts c \<longleftrightarrow> quotaStrategy_of opts = Off \<or>
     (case recent_snapshot opts c of
        None \<Rightarrow> quotaStrategy_of opts = Prefer_remaining
      | Some q \<Rightarrow> q_status q \<noteq> Some Depleted
          \<and> (quotaStrategy_of opts = Prefer_remaining \<or>
             (case q_remaining q of None \<Rightarrow> True | Some r \<Rightarrow> minRemaining_of opts \<le> r)))"

definition usable :: "int \<Rightarrow> selection_options \<Rightarrow> connection \<Rightarrow> bool" where
  "usable nowMs opts c \<longleftrightarrow> c \<in> set (o_connections opts) \<and> c_provider c = o_provider opts \<and> isActive c \<noteq> Some False
     \<and> c_id c \<notin> set (o_exclude opts) \<and> \<not> is_locked nowMs c (o_model opts) \<and> has_quota opts c"

text \<open>No connection still stores an expired (or unreadable) lock of the model: such a lock hides the lock of the whole
  connection.\<close>

definition no_stale_lock :: "int \<Rightarrow> selection_options \<Rightarrow> bool" where
  "no_stale_lock nowMs opts \<longleftrightarrow>
     list_all (\<lambda>c. map_of (locks c) (getModelLockKey (o_model opts)) \<in> {None, Some Null}
        \<or> active_lock nowMs c (getModelLockKey (o_model opts))) (o_connections opts)"

lemma isModelLockActive_eq:
  assumes "map_of (locks c) (getModelLockKey model) \<in> {None, Some Null} \<or> active_lock nowMs c (getModelLockKey model)"
  shows "isModelLockActive nowMs c model = is_locked nowMs c model"
  using assms by (auto simp: isModelLockActive_def lock_entry_def is_locked_def active_lock_def split: option.splits lock_value.splits)

lemma quota_admits_eq:
  "quotaStrategy_of opts = Off \<or> quota_admits (quotaStrategy_of opts) (o_now opts) (maxAge_of opts) (minRemaining_of opts) c
   \<longleftrightarrow> has_quota opts c"
  by (cases "quotaStrategy_of opts")
     (auto simp: quota_admits_def has_quota_def recent_snapshot_def getProviderConnectionQuotaScore_def Let_def split: option.splits)

lemma mem_available:
  "c \<in> set (available_connections nowMs opts) \<longleftrightarrow>
     c \<in> set (o_connections opts) \<and> c_provider c = o_provider opts \<and> isActive c \<noteq> Some False
     \<and> c_id c \<notin> set (o_exclude opts) \<and> \<not> isModelLockActive nowMs c (o_model opts)
     \<and> (quotaStrategy_of opts = Off
        \<or> quota_admits (quotaStrategy_of opts) (o_now opts) (maxAge_of opts) (minRemaining_of opts) c)"
  by (auto simp: available_connections_def applyQuotaSelectionFilter_def unlocked_connections_def provider_connections_def
      sortProviderConnections_def)

lemma set_available:
  assumes "no_stale_lock nowMs opts"
  shows "set (available_connections nowMs opts) = {c. usable nowMs opts c}"
proof -
  have "isModelLockActive nowMs c (o_model opts) = is_locked nowMs c (o_model opts)" if "c \<in> set (o_connections opts)" for c
    using assms that by (intro isModelLockActive_eq) (auto simp: no_stale_lock_def list_all_iff)
  then show ?thesis by (auto simp: mem_available usable_def quota_admits_eq [symmetric])
qed

text \<open>The order in which a strategy other than round-robin prefers connections: by priority, or by what is left of the quota
  and then by priority.\<close>

definition preferred_to :: "selection_options \<Rightarrow> connection \<Rightarrow> connection \<Rightarrow> bool" where
  "preferred_to opts c d \<longleftrightarrow>
     (if quotaStrategy_of opts = Off then priorityValue c \<le> priorityValue d
      else (let left = (\<lambda>x. qs_score (getProviderConnectionQuotaScore x (o_now opts) (maxAge_of opts))) in
        left d < left c \<or> left d = left c \<and> priorityValue c \<le> priorityValue d))"

text \<open>When connections rotate: the one in use, which was used last, stays until it has been used as often in a row as the limit
  says; then it is the turn of the one that was used longest ago, those that were never used first and
  among them by priority.\<close>

definition used_before :: "connection \<Rightarrow> connection \<Rightarrow> bool" where
  "used_before c d \<longleftrightarrow>
     (case (lastUsedAt c, lastUsedAt d) of (None, _) \<Rightarrow> True | (Some s, None) \<Rightarrow> False | (Some s, Some t) \<Rightarrow> s \<le> t)"

definition uses_in_row :: "connection \<Rightarrow> int" where
  "uses_in_row c = (case consecutiveUseCount c of Some n \<Rightarrow> n | None \<Rightarrow> 0)"

definition in_use :: "int \<Rightarrow> selection_options \<Rightarrow> connection \<Rightarrow> bool" where
  "in_use nowMs opts c \<longleftrightarrow> usable nowMs opts c
     \<and> list_all (\<lambda>d. usable nowMs opts d \<longrightarrow> used_before d c) (o_connections opts)"

definition next_in_turn :: "int \<Rightarrow> selection_options \<Rightarrow> connection \<Rightarrow> bool" where
  "next_in_turn nowMs opts c \<longleftrightarrow>
     list_all (\<lambda>d. usable nowMs opts d \<longrightarrow>
        used_before c d \<and> (lastUsedAt c = None \<and> lastUsedAt d = None \<longrightarrow> priorityValue c \<le> priorityValue d)) (o_connections opts)"

definition rotates_to :: "int \<Rightarrow> selection_options \<Rightarrow> connection \<Rightarrow> (int \<times> int) option \<Rightarrow> bool" where
  "rotates_to nowMs opts c u \<longleftrightarrow>
     in_use nowMs opts c \<and> lastUsedAt c \<noteq> None \<and> uses_in_row c < sticky_of opts \<and> u = Some (o_now opts, uses_in_row c + 1)
     \<or> list_ex (\<lambda>d. in_use nowMs opts d \<and> (lastUsedAt d = None \<or> sticky_of opts \<le> uses_in_row d)) (o_connections opts)
       \<and> next_in_turn nowMs opts c \<and> u = Some (o_now opts, 1)"

lemma provider_sorted: "sorted_wrt (\<lambda>x y. by_priority x y \<le> 0) (provider_connections opts)"
  unfolding provider_connections_def sortProviderConnections_def by (rule prio.sorted_js_sort)

lemma available_sorted: "sorted_wrt (\<lambda>x y. by_priority x y \<le> 0) (available_connections nowMs opts)"
  by (simp add: available_connections_def applyQuotaSelectionFilter_def unlocked_connections_def sorted_wrt_filter provider_sorted)

lemma hd_sorted: "sorted_wrt P xs \<Longrightarrow> (\<And>x. P x x) \<Longrightarrow> y \<in> set xs \<Longrightarrow> P (hd xs) y"
  by (cases xs) auto

lemma earliest_loop_props:
  "earliest_loop now e us = Some t \<Longrightarrow> e = Some t \<or> (now < t \<and> Some t \<in> set us)"
  by (induction us arbitrary: e) (fastforce split: option.splits if_splits)+

lemma unavailable_after:
  assumes "unavailable_result nowMs opts = Unavailable t s e code"
  shows "nowMs < t"
proof -
  let ?locked = "filter (\<lambda>c. isModelLockActive nowMs c (o_model opts)) (provider_connections opts)"
  let ?ts = "List.map_filter (getEarliestModelLockUntil nowMs) ?locked"
  from assms obtain rest where "js_sort (\<lambda>a b. a - b) ?ts = t # rest"
    by (auto simp: unavailable_result_def Let_def split: list.splits)
  then have "t \<in> set ?ts" by (metis list.set_intros(1) set_js_sort)
  then obtain c where "getEarliestModelLockUntil nowMs c = Some t" by (auto simp: map_filter_def)
  then show ?thesis using earliest_loop_props by (fastforce simp: getEarliestModelLockUntil_def)
qed

lemma unavailable_not_selected: "unavailable_result nowMs opts \<noteq> Selected c u"
  by (auto simp: unavailable_result_def Let_def split: list.splits)

lemma round_robin_choice_mem:
  "available \<noteq> [] \<Longrightarrow> \<exists>c u. round_robin_choice limit now available = Selected c u \<and> c \<in> set available"
proof -
  assume "available \<noteq> []"
  then have "hd (js_sort cmp available) \<in> set available" for cmp
    by (metis hd_in_set js_sort_eq_Nil set_js_sort)
  then show ?thesis by (simp add: round_robin_choice_def Let_def)
qed

lemma select_cases:
  obtains (no_choice) "available_connections nowMs opts = []"
      "\<forall>c u. selectProviderConnection nowMs opts \<noteq> Selected c u"
      "\<forall>t s e code. selectProviderConnection nowMs opts = Unavailable t s e code \<longrightarrow> nowMs < t"
  | (pinned) c where "selectProviderConnection nowMs opts = Selected c None" "c \<in> set (available_connections nowMs opts)"
      "Some (c_id c) = o_preferred opts"
  | (ranked) "available_connections nowMs opts \<noteq> []" "strategy_of opts \<noteq> Round_robin"
      "o_preferred opts \<in> {None, Some []} \<or> (\<forall>c \<in> set (available_connections nowMs opts). Some (c_id c) \<noteq> o_preferred opts)"
      "selectProviderConnection nowMs opts = Selected (hd (if quotaStrategy_of opts = Off then available_connections nowMs opts
         else sortProviderConnectionsByQuota (o_now opts) (maxAge_of opts) (available_connections nowMs opts))) None"
  | (rotated) "available_connections nowMs opts \<noteq> []" "strategy_of opts = Round_robin"
      "o_preferred opts \<in> {None, Some []} \<or> (\<forall>c \<in> set (available_connections nowMs opts). Some (c_id c) \<noteq> o_preferred opts)"
      "selectProviderConnection nowMs opts = round_robin_choice (sticky_of opts) (o_now opts) (available_connections nowMs opts)"
proof (cases "available_connections nowMs opts = []")
  case True
  show ?thesis
  proof (rule no_choice [OF True])
    show "\<forall>c u. selectProviderConnection nowMs opts \<noteq> Selected c u"
      using True unavailable_not_selected by (simp add: selectProviderConnection_def Let_def)
    show "\<forall>t s e code. selectProviderConnection nowMs opts = Unavailable t s e code \<longrightarrow> nowMs < t"
      using True unavailable_after by (auto simp: selectProviderConnection_def Let_def split: if_splits)
  qed
next
  case False
  let ?av = "available_connections nowMs opts"
  have ne: "provider_connections opts \<noteq> []" "unlocked_connections nowMs opts \<noteq> []"
    using False by (auto simp: available_connections_def unlocked_connections_def applyQuotaSelectionFilter_def filter_empty_conv
        split: if_splits)
  let ?pin = "if o_preferred opts \<in> {None, Some []} then None else find (\<lambda>c. Some (c_id c) = o_preferred opts) ?av"
  show ?thesis
  proof (cases ?pin)
    case (Some c)
    then have "c \<in> set ?av" "Some (c_id c) = o_preferred opts" by (auto simp: find_Some_iff split: if_splits)
    with pinned [of c] show ?thesis using ne False Some by (simp add: selectProviderConnection_def Let_def)
  next
    case None
    then have np: "o_preferred opts \<in> {None, Some []} \<or> (\<forall>c \<in> set ?av. Some (c_id c) \<noteq> o_preferred opts)"
      by (auto simp: find_None_iff split: if_splits)
    show ?thesis
      using ranked [OF False _ np] rotated [OF False _ np] ne False None
      by (cases "strategy_of opts = Round_robin") (simp_all add: selectProviderConnection_def Let_def)
  qed
qed

lemma by_quota_preferred:
  "quotaStrategy_of opts \<noteq> Off \<Longrightarrow> by_quota (o_now opts) (maxAge_of opts) c d \<le> 0 \<longleftrightarrow> preferred_to opts c d"
  by (auto simp: by_quota_def preferred_to_def Let_def)

lemma round_robin_choice_rotates:
  assumes "no_stale_lock nowMs opts" and "available_connections nowMs opts \<noteq> []"
  shows "\<exists>c u. round_robin_choice (sticky_of opts) (o_now opts) (available_connections nowMs opts) = Selected c u
    \<and> usable nowMs opts c \<and> rotates_to nowMs opts c u"
proof -
  let ?av = "available_connections nowMs opts"
  have mem: "d \<in> set ?av \<longleftrightarrow> usable nowMs opts d" for d using set_available [OF assms(1)] by auto
  have conn: "usable nowMs opts d \<Longrightarrow> d \<in> set (o_connections opts)" for d by (simp add: usable_def)
  define cur where "cur = hd (js_sort sortByMostRecentUseThenPriority ?av)"
  define old where "old = hd (js_sort sortByOldestUseThenPriority ?av)"
  have "hd (js_sort cmp ?av) \<in> set ?av" for cmp
    using assms(2) by (metis hd_in_set js_sort_eq_Nil set_js_sort)
  then have in_av: "usable nowMs opts cur" "usable nowMs opts old" unfolding cur_def old_def using mem by blast+
  have "used_before d cur" if "usable nowMs opts d" for d
    using recent.js_sort_hd_least [of d ?av] that mem
    by (auto simp: cur_def [symmetric] used_before_def sortByMostRecentUseThenPriority_def split: option.splits)
  then have cur: "in_use nowMs opts cur" using in_av(1) by (simp add: in_use_def list_all_iff)
  have "used_before old d \<and> (lastUsedAt old = None \<and> lastUsedAt d = None \<longrightarrow> priorityValue old \<le> priorityValue d)"
    if "usable nowMs opts d" for d
    using oldest.js_sort_hd_least [of d ?av] that mem
    by (auto simp: old_def [symmetric] used_before_def sortByOldestUseThenPriority_def split: option.splits)
  then have old: "next_in_turn nowMs opts old" by (simp add: next_in_turn_def list_all_iff)
  show ?thesis
  proof (cases "lastUsedAt cur \<noteq> None \<and> uses_in_row cur < sticky_of opts")
    case True
    then have "round_robin_choice (sticky_of opts) (o_now opts) ?av = Selected cur (Some (o_now opts, uses_in_row cur + 1))"
      by (simp add: round_robin_choice_def Let_def cur_def [symmetric] uses_in_row_def)
    with True cur in_av(1) show ?thesis by (simp add: rotates_to_def)
  next
    case False
    then have "round_robin_choice (sticky_of opts) (o_now opts) ?av = Selected old (Some (o_now opts, 1))"
      by (auto simp: round_robin_choice_def Let_def cur_def [symmetric] old_def [symmetric] uses_in_row_def)
    moreover have "list_ex (\<lambda>d. in_use nowMs opts d \<and> (lastUsedAt d = None \<or> sticky_of opts \<le> uses_in_row d)) (o_connections opts)"
      unfolding list_ex_iff using cur in_av(1) conn False by (intro bexI [of _ cur]) auto
    ultimately show ?thesis using old in_av(2) by (simp add: rotates_to_def)
  qed
qed

text \<open>C25: The selection is sound and complete, as long as no connection still stores an expired lock of the model: a
  selected connection is active, belongs to the provider, is neither excluded nor locked for the model or as a
  whole, and has the quota that is asked for; when
  none is selected there is no such connection; a preferred connection that can be used is used;
  otherwise, by priority or quota, no usable connection is ranked before the selected one, and when connections rotate the
  one in use stays until its limit is reached and then the one used longest ago is next, with the use that is to be
  recorded; and a retry time that is reported lies in the future.\<close>

theorem selectProviderConnection_correct:
  assumes "no_stale_lock nowMs opts"
  shows "case selectProviderConnection nowMs opts of
     Selected c u \<Rightarrow> usable nowMs opts c
       \<and> (\<forall>d p. usable nowMs opts d \<and> o_preferred opts = Some p \<and> p \<noteq> [] \<and> c_id d = p \<longrightarrow> c_id c = p)
       \<and> (Some (c_id c) \<noteq> o_preferred opts \<longrightarrow>
            (if strategy_of opts = Round_robin then rotates_to nowMs opts c u
             else u = None \<and> (\<forall>d. usable nowMs opts d \<longrightarrow> preferred_to opts c d)))
   | Unavailable t s e code \<Rightarrow> (\<forall>d. \<not> usable nowMs opts d) \<and> nowMs < t
   | Missing_connection \<Rightarrow> (\<forall>d. \<not> usable nowMs opts d)"
proof -
  let ?av = "available_connections nowMs opts"
  have mem: "d \<in> set ?av \<longleftrightarrow> usable nowMs opts d" for d using set_available [OF assms] by auto
  show ?thesis
  proof (cases rule: select_cases [of nowMs opts])
    case no_choice
    then have "\<not> usable nowMs opts d" for d using mem by auto
    with no_choice(2,3) show ?thesis by (auto split: selection_result.split)
  next
    case (pinned c)
    then show ?thesis using mem by auto
  next
    case ranked
    let ?c = "hd (if quotaStrategy_of opts = Off then ?av else sortProviderConnectionsByQuota (o_now opts) (maxAge_of opts) ?av)"
    have "?c \<in> set ?av"
      using ranked(1) by (simp add: sortProviderConnectionsByQuota_def) (metis hd_in_set js_sort_eq_Nil set_js_sort)
    moreover have "preferred_to opts ?c d" if d: "d \<in> set ?av" for d
    proof (cases "quotaStrategy_of opts = Off")
      case True
      then show ?thesis using hd_sorted [OF available_sorted _ d] by (simp add: preferred_to_def by_priority_def)
    next
      case False
      then show ?thesis using quota.js_sort_hd_least [OF d]
        by (simp add: by_quota_preferred [OF False, symmetric] sortProviderConnectionsByQuota_def)
    qed
    ultimately show ?thesis using ranked(2-4) mem by auto
  next
    case rotated
    obtain c u where c: "selectProviderConnection nowMs opts = Selected c u" "usable nowMs opts c" "rotates_to nowMs opts c u"
      using round_robin_choice_rotates [OF assms rotated(1)] rotated(4) by auto
    have "\<not> (usable nowMs opts d \<and> o_preferred opts = Some (c_id d) \<and> c_id d \<noteq> [])" for d
      using rotated(3) mem [of d] by auto
    then have "\<forall>d p. usable nowMs opts d \<and> o_preferred opts = Some p \<and> p \<noteq> [] \<and> c_id d = p \<longrightarrow> c_id c = p" by blast
    then show ?thesis using c rotated(2) by (simp only: selection_result.case) simp
  qed
qed

section \<open>The explanation agrees with the selection\<close>

lemma quota_reason_admits:
  "snd (quota_reason strategy minRemaining (getProviderConnectionQuotaScore c now maxAgeMs)) \<longleftrightarrow>
     strategy = Off \<or> quota_admits strategy now maxAgeMs minRemaining c"
  by (auto simp: quota_reason_def quota_admits_def Let_def split: option.splits)

text \<open>The explanation shown to the user agrees with the selection: a connection is explained as
  selectable exactly when the selection could use it, and as selected exactly when its id is that
  of the selected connection.\<close>

theorem explanation_agrees:
  "case explainProviderConnectionSelection nowMs opts of
     (selection, es) \<Rightarrow> selection = selectProviderConnection nowMs opts
       \<and> (\<exists>cs. mset cs = mset (filter (\<lambda>c. c_provider c = o_provider opts) (o_connections opts))
           \<and> list_all2 (\<lambda>c e. ex_id e = c_id c \<and> selectable e = (c \<in> set (available_connections nowMs opts))
                \<and> ex_selected e = (\<exists>d u. selection = Selected d u \<and> c_id d = c_id c)) cs es)"
proof -
  let ?cs = "sortProviderConnections (filter (\<lambda>c. c_provider c = o_provider opts) (o_connections opts))"
  obtain selection es where e: "explainProviderConnectionSelection nowMs opts = (selection, es)"
    by (cases "explainProviderConnectionSelection nowMs opts") auto
  let ?id = "case selection of Selected c _ \<Rightarrow> Some (c_id c) | _ \<Rightarrow> None"
  from e have sel: "selection = selectProviderConnection nowMs opts"
    and es: "es = map (explainProviderConnectionCandidate nowMs opts ?id) ?cs"
    by (auto simp: explainProviderConnectionSelection_def Let_def)
  have "ex_id (explainProviderConnectionCandidate nowMs opts ?id c) = c_id c
      \<and> selectable (explainProviderConnectionCandidate nowMs opts ?id c) = (c \<in> set (available_connections nowMs opts))
      \<and> ex_selected (explainProviderConnectionCandidate nowMs opts ?id c) = (\<exists>d u. selection = Selected d u \<and> c_id d = c_id c)"
    if "c \<in> set ?cs" for c
    using that quota_reason_admits [of "quotaStrategy_of opts" "minRemaining_of opts" c "o_now opts" "maxAge_of opts"]
    by (auto simp: explainProviderConnectionCandidate_def Let_def mem_available sortProviderConnections_def case_prod_beta
        split: selection_result.splits)
  then have "list_all2 (\<lambda>c e. ex_id e = c_id c \<and> selectable e = (c \<in> set (available_connections nowMs opts))
             \<and> ex_selected e = (\<exists>d u. selection = Selected d u \<and> c_id d = c_id c)) ?cs es"
    unfolding es by (auto simp: list_all2_conv_all_nth)
  moreover have "mset ?cs = mset (filter (\<lambda>c. c_provider c = o_provider opts) (o_connections opts))"
    by (simp add: sortProviderConnections_def)
  ultimately show ?thesis using sel e by (simp only: prod.case) blast
qed

section \<open>Examples\<close>

definition example_connection :: "string \<Rightarrow> int \<Rightarrow> connection" where
  "example_connection i p = \<lparr>c_id = i, c_provider = ''p'', isActive = None, priority = Some p, lastUsedAt = None,
     consecutiveUseCount = None, c_lastError = None, errorCode = None, locks = [], quotaSelection = None\<rparr>"

definition example_options :: selection_options where
  "example_options = \<lparr>o_provider = ''p'', o_model = None,
     o_connections = [example_connection ''b'' 2, example_connection ''a'' 1], o_settings = None, o_exclude = [],
     o_preferred = None, o_now = 10\<rparr>"

theorem selectProviderConnection_correct_witness:
  "selectProviderConnection 10 example_options = Selected (example_connection ''a'' 1) None
   \<and> usable 10 example_options (example_connection ''a'' 1)
   \<and> preferred_to example_options (example_connection ''a'' 1) (example_connection ''b'' 2)"
proof -
  have s: "selectProviderConnection 10 example_options = Selected (example_connection ''a'' 1) None" by code_simp
  have u: "usable 10 example_options (example_connection ''b'' 2)" by code_simp
  have r: "strategy_of example_options \<noteq> Round_robin" "o_preferred example_options = None" by code_simp+
  have n: "no_stale_lock 10 example_options" by code_simp
  show ?thesis using selectProviderConnection_correct [OF n] s u r by simp
qed

section \<open>Locks\<close>

text \<open>A lock that has expired but is still stored hides the lock of the whole connection: the
  connection is locked for every model, and yet it is selected for that one.\<close>

theorem expired_lock_hides_connection_lock:
  "let c = (example_connection ''a'' 1)\<lparr>locks := [(getModelLockKey (Some ''m''), Until 5), (MODEL_LOCK_ALL, Until 100)]\<rparr>;
       opts = \<lparr>o_provider = ''p'', o_model = Some ''m'', o_connections = [c], o_settings = None, o_exclude = [],
               o_preferred = None, o_now = 10\<rparr>
   in isModelLockActive 10 c None \<and> isModelLockActive 10 c (Some ''n'') \<and> selectProviderConnection 10 opts = Selected c None"
  by code_simp

text \<open>The retry time reported for a model is the earliest end of any lock of the connection: at
  that time the connection is still locked for the model that was asked for.\<close>

theorem retry_time_of_other_model:
  "let c = (example_connection ''a'' 1)\<lparr>locks := [(getModelLockKey (Some ''m''), Until 100000), (getModelLockKey (Some ''n''), Until 20)]\<rparr>;
       opts = \<lparr>o_provider = ''p'', o_model = Some ''m'', o_connections = [c], o_settings = None, o_exclude = [],
               o_preferred = None, o_now = 10\<rparr>
   in selectProviderConnection 10 opts = Unavailable 20 ''reset after 1s'' None None
      \<and> isModelLockActive 20 c (Some ''m'')"
  by code_simp

end
