(* ===== verification/Router_Route.thy ===== *)
theory Router_Route
  imports Router_Cooldown Js_Map
begin

text \<open>
  From a requested model to a list of routes (\<open>packages/router/src/index.ts\<close>): the selection
  language (\<open>fixed:\<close>, \<open>fallback:\<close>, \<open>auto:\<close>, \<open>cheap:\<close>, \<open>fast:\<close>, \<open>combo:\<close>), combos that rotate,
  the scoring of models, and the chain of candidates. The catalog of models is the argument
  \<open>cat\<close>; the rotation state is threaded through the calls that change it. Scores and costs are
  rationals.
\<close>

section \<open>Selections\<close>

datatype level3 = Low | Medium | High

record constraints =
  budget :: "level3 option"
  latency_low :: bool
  quality :: "level3 option"
  requireVision :: bool
  minContextTokens :: "rat option"
  maxCostUsd :: "rat option"

definition no_constraints :: constraints where
  "no_constraints = \<lparr>budget = None, latency_low = False, quality = None, requireVision = False,
     minContextTokens = None, maxCostUsd = None\<rparr>"

datatype model_selection =
  Fixed string
  | By_intent string "constraints option" "string option"
  | Fallback string "string list"

datatype routing_mode = Fixed_mode | Router_mode | Fallback_mode

fun mode_of :: "model_selection \<Rightarrow> routing_mode" where
  "mode_of (Fixed m) = Fixed_mode"
| "mode_of (By_intent i c a) = Router_mode"
| "mode_of (Fallback p f) = Fallback_mode"

datatype route_error =
  Empty_selection
  | Missing_value string string
  | No_intent_route string
  | No_model_route string
  | No_selection_route string
  | Not_in_catalog string string

definition splitModelPrefix :: "string \<Rightarrow> (string \<times> string) option" where
  "splitModelPrefix input =
     (case find_index (\<lambda>c. c = CHR '':'') input of
        None \<Rightarrow> None
      | Some i \<Rightarrow> if i = 0 then None else Some (to_lower (take i input), js_trim (drop (Suc i) input)))"

definition parse_string :: "string \<Rightarrow> route_error + model_selection" where
  "parse_string input =
     (let raw = js_trim input in
      if raw = [] then Inl Empty_selection
      else case splitModelPrefix raw of
        None \<Rightarrow> Inr (Fallback raw [])
      | Some (prefix, value') \<Rightarrow>
          if value' = [] then Inl (Missing_value raw prefix)
          else if prefix = ''fixed'' then Inr (Fixed value')
          else if prefix = ''fallback'' then Inr (Fallback value' [])
          else if prefix = ''auto'' then
            Inr (By_intent value' (if value' = ''learning'' \<or> value' = ''memory'' then Some (no_constraints\<lparr>budget := Some Low\<rparr>) else None)
                   (Some raw))
          else if prefix = ''cheap'' then Inr (By_intent value' (Some (no_constraints\<lparr>budget := Some Low\<rparr>)) (Some raw))
          else if prefix = ''fast'' then Inr (By_intent value' (Some (no_constraints\<lparr>latency_low := True\<rparr>)) (Some raw))
          else if prefix = ''combo'' then Inr (By_intent value' None (Some raw))
          else Inr (Fallback raw []))"

fun formatModelSelection :: "model_selection \<Rightarrow> string" where
  "formatModelSelection (Fixed m) = ''fixed:'' @ m"
| "formatModelSelection (Fallback p f) = ''fallback:'' @ p"
| "formatModelSelection (By_intent i c a) = (if a = None \<or> a = Some [] then ''auto:'' @ i else the a)"

definition getRoutingMode :: "string \<Rightarrow> route_error + routing_mode" where
  "getRoutingMode input = and_then (parse_string input) (\<lambda>sel. Inr (mode_of sel))"

definition ROUTER_ALIAS_PREFIXES :: "string list" where
  "ROUTER_ALIAS_PREFIXES = [''auto'', ''cheap'', ''fast'', ''combo'']"

definition isRouterAlias :: "string \<Rightarrow> bool" where
  "isRouterAlias input = (case splitModelPrefix (js_trim input) of Some (prefix, _) \<Rightarrow> prefix \<in> set ROUTER_ALIAS_PREFIXES | None \<Rightarrow> False)"

section \<open>Models\<close>

record pi_model =
  m_provider :: string
  m_id :: string
  m_name :: "string option"
  m_input :: "string list option"
  m_cost :: "(rat \<times> rat) option"
  contextWindow :: "rat option"
  reasoning :: bool

record catalog =
  cat_find :: "string \<Rightarrow> string \<Rightarrow> pi_model option"
  getAvailable :: "pi_model list"
  getAll :: "pi_model list option"

definition isPiRouterProvider :: "string \<Rightarrow> bool" where
  "isPiRouterProvider provider = (provider \<in> {''pie-lab-router'', ''pie-adk-router'', ''9router''})"

definition isPiRouterModel :: "pi_model \<Rightarrow> bool" where
  "isPiRouterModel m = (isPiRouterProvider (m_provider m) \<or> isRouterAlias (m_id m))"

definition piModelToSelection :: "pi_model \<Rightarrow> string" where
  "piModelToSelection m =
     (if isPiRouterProvider (m_provider m) then m_id m
      else if isRouterAlias (m_id m) then m_id m
      else if starts_with ''fixed:'' (m_id m) \<or> starts_with ''fallback:'' (m_id m) then m_id m
      else m_provider m @ ''/'' @ m_id m)"

definition keywordScore :: "string \<Rightarrow> string list \<Rightarrow> rat" where
  "keywordScore t keywords = (\<Sum>k\<leftarrow>keywords. if str_includes k t then 2 else 0)"

definition estimateModelCost :: "pi_model \<Rightarrow> rat" where
  "estimateModelCost m = (case m_cost m of Some (i, out) \<Rightarrow> i + out | None \<Rightarrow> 0)"

definition AUTO_ROUTING_DEPRECATED_MODEL_IDS :: "string list" where
  "AUTO_ROUTING_DEPRECATED_MODEL_IDS =
     [''gemini-2.0-flash'', ''gemini-2.0-flash-001'', ''gemini-2.0-flash-lite'', ''gemini-2.0-flash-lite-001'']"

definition isDeprecatedForAutoRouting :: "pi_model \<Rightarrow> bool" where
  "isDeprecatedForAutoRouting m =
     (last (split_on (CHR ''/'') (to_lower (m_id m))) \<in> set AUTO_ROUTING_DEPRECATED_MODEL_IDS)"

definition sees_images :: "pi_model \<Rightarrow> bool" where
  "sees_images m = (case m_input m of Some xs \<Rightarrow> ''image'' \<in> set xs | None \<Rightarrow> False)"

definition intent_score :: "pi_model \<Rightarrow> string \<Rightarrow> string \<Rightarrow> rat" where
  "intent_score m t intent =
     (if intent = ''coding''
      then keywordScore t [''codex'', ''coding'', ''coder'', ''claude'', ''sonnet'', ''opus'', ''gpt-5'', ''glm'', ''kimi'', ''qwen'', ''deepseek'']
      else if intent = ''chat'' then keywordScore t [''chat'', ''mini'', ''flash'', ''haiku'', ''gpt-5'', ''gemini'']
      else if intent = ''reasoning''
      then keywordScore t [''reasoning'', ''thinking'', ''opus'', ''pro'', ''gpt-5'', ''o3'', ''o4'', ''grok''] + (if reasoning m then 4 else 0)
      else if intent = ''vision'' then (if sees_images m then 10 else 0) + keywordScore t [''vision'', ''gpt'', ''gemini'', ''claude'']
      else if intent = ''learning'' \<or> intent = ''memory''
      then keywordScore t [''mini'', ''flash'', ''haiku'', ''small'', ''cheap'', ''gpt-5'']
        - keywordScore t [''opus'', ''pro'', ''reasoning'', ''thinking''] / 2
      else 0)"

definition constraint_score :: "pi_model \<Rightarrow> string \<Rightarrow> constraints option \<Rightarrow> rat" where
  "constraint_score m t c =
     (case c of
        None \<Rightarrow> 0
      | Some c \<Rightarrow>
          (if budget c = Some Low
           then keywordScore t [''mini'', ''flash'', ''haiku'', ''cheap'', ''free'', ''groq'', ''cerebras''] - estimateModelCost m / 2 else 0)
          + (if latency_low c
             then keywordScore t [''mini'', ''flash'', ''haiku'', ''groq'', ''cerebras'', ''fast'']
               - keywordScore t [''opus'', ''reasoning'', ''thinking'', ''pro''] / 2 else 0)
          + (if quality c = Some High then keywordScore t [''opus'', ''sonnet'', ''pro'', ''gpt-5'', ''claude''] else 0))"

definition scoreModel :: "pi_model \<Rightarrow> string \<Rightarrow> constraints option \<Rightarrow> rat" where
  "scoreModel m intent c =
     (let t = to_lower (m_provider m @ '' '' @ m_id m @ '' '' @ (case m_name m of Some n \<Rightarrow> n | None \<Rightarrow> []))
      in intent_score m t intent + constraint_score m t c
         + min ((case contextWindow m of Some w \<Rightarrow> w | None \<Rightarrow> 0) / 100000) 3)"

definition admissible :: "constraints option \<Rightarrow> pi_model \<Rightarrow> bool" where
  "admissible c m \<longleftrightarrow> \<not> isPiRouterModel m \<and> \<not> isDeprecatedForAutoRouting m
     \<and> (case c of
          None \<Rightarrow> True
        | Some c \<Rightarrow> (requireVision c \<longrightarrow> sees_images m)
            \<and> (case minContextTokens c of Some n \<Rightarrow> n = 0 \<or> n \<le> (case contextWindow m of Some w \<Rightarrow> w | None \<Rightarrow> 0) | None \<Rightarrow> True)
            \<and> (case maxCostUsd c of Some n \<Rightarrow> n = 0 \<or> estimateModelCost m \<le> n | None \<Rightarrow> True))"

definition by_score_desc :: "pi_model \<times> rat \<Rightarrow> pi_model \<times> rat \<Rightarrow> int" where
  "by_score_desc a b = (if snd b < snd a then -1 else if snd a < snd b then 1 else 0)"

definition selectBestModels :: "pi_model list \<Rightarrow> string \<Rightarrow> constraints option \<Rightarrow> nat \<Rightarrow> pi_model list" where
  "selectBestModels models intent c limit =
     (let candidates = filter (admissible c) models;
          scored = map (\<lambda>(i, m). (m, scoreModel m intent c - of_nat i / 100000)) (enumerate 0 candidates)
      in map fst (take limit (js_sort by_score_desc scored)))"

definition selectBestModel :: "pi_model list \<Rightarrow> string \<Rightarrow> constraints option \<Rightarrow> pi_model option" where
  "selectBestModel models intent c = (case selectBestModels models intent c 1 of m # _ \<Rightarrow> Some m | [] \<Rightarrow> None)"

section \<open>Combos\<close>

datatype combo_strategy = Combo_fallback | Combo_round_robin

record combo =
  combo_name :: string
  combo_models :: "string list"
  combo_strategy_of :: "combo_strategy option"
  combo_sticky :: "int option option"

record combo_override =
  ov_strategy :: "combo_strategy option"
  ov_sticky :: "int option option"

record policy =
  aliases :: "(string \<times> string list) list"
  intents :: "(string \<times> string list) list"
  combos :: "combo list"
  comboStrategy :: "combo_strategy option"
  comboStickyLimit :: "int option option"
  comboStrategies :: "(string \<times> combo_override) list"

type_synonym rotation_state = "(string, nat \<times> nat) jsmap"

definition normalizeStickyLimit :: "int option \<Rightarrow> nat" where
  "normalizeStickyLimit parsed = (case parsed of Some n \<Rightarrow> if 0 < n then nat n else 1 | None \<Rightarrow> 1)"

fun rotateModelsFromIndex :: "string list \<Rightarrow> nat \<Rightarrow> string list" where
  "rotateModelsFromIndex models 0 = models"
| "rotateModelsFromIndex models (Suc i) =
     rotateModelsFromIndex (case models of m # ms \<Rightarrow> ms @ [m] | [] \<Rightarrow> []) i"

definition getRotatedModels ::
  "string list \<Rightarrow> string \<Rightarrow> combo_strategy \<Rightarrow> int option \<Rightarrow> rotation_state \<Rightarrow> string list \<times> rotation_state" where
  "getRotatedModels models comboName strategy stickyLimit st =
     (if length models \<le> 1 \<or> strategy \<noteq> Combo_round_robin then (models, st)
      else (let rotationKey = (if comboName = [] then ''__default__'' else comboName);
                limit = normalizeStickyLimit stickyLimit;
                (idx, uses) = (case js_get st rotationKey of Some s \<Rightarrow> s | None \<Rightarrow> (0, 0));
                currentIndex = idx mod length models;
                nextUseCount = uses + 1
            in (rotateModelsFromIndex models currentIndex,
                js_set rotationKey
                  (if limit \<le> nextUseCount then ((currentIndex + 1) mod length models, 0) else (currentIndex, nextUseCount)) st)))"

definition resetComboRotation :: "string option \<Rightarrow> rotation_state \<Rightarrow> rotation_state" where
  "resetComboRotation comboName st = (case comboName of Some n \<Rightarrow> if n \<noteq> [] then js_delete n st else [] | None \<Rightarrow> [])"

definition findCombo :: "string \<Rightarrow> combo list \<Rightarrow> combo option" where
  "findCombo name cs = find (\<lambda>c. combo_name c = name) cs"

definition getComboModelsFromData :: "string \<Rightarrow> combo list \<Rightarrow> string list option" where
  "getComboModelsFromData modelStr cs =
     (if CHR ''/'' \<in> set modelStr then None
      else case findCombo modelStr cs of
        Some c \<Rightarrow> if combo_models c \<noteq> [] then Some (combo_models c) else None
      | None \<Rightarrow> None)"

definition first_of :: "'a option list \<Rightarrow> 'a \<Rightarrow> 'a" where
  "first_of xs d = (case find (\<lambda>x. x \<noteq> None) xs of Some (Some x) \<Rightarrow> x | _ \<Rightarrow> d)"

definition resolveComboStrategy :: "combo \<Rightarrow> policy \<Rightarrow> combo_strategy \<times> int option" where
  "resolveComboStrategy c p =
     (let ov = map_of (comboStrategies p) (combo_name c)
      in (first_of [Option.bind ov ov_strategy, combo_strategy_of c, comboStrategy p] Combo_fallback,
          first_of [Option.bind ov ov_sticky, combo_sticky c, comboStickyLimit p] (Some 1)))"

definition resolvePolicyCombo :: "string \<Rightarrow> policy \<Rightarrow> rotation_state \<Rightarrow> (string list \<times> rotation_state) option" where
  "resolvePolicyCombo name p st =
     (case findCombo name (combos p) of
        None \<Rightarrow> None
      | Some c \<Rightarrow>
          if combo_models c = [] then None
          else (let (strategy, sticky) = resolveComboStrategy c p
                in Some (getRotatedModels (combo_models c) (combo_name c) strategy sticky st)))"

section \<open>Candidates\<close>

record candidate =
  cd_provider :: string
  cd_model :: string
  cd_connectionId :: "string option"
  cd_source :: "routing_mode option"

record resolved_route =
  requestedModel :: string
  routingMode :: routing_mode
  resolvedProvider :: string
  resolvedModel :: string
  connectionId :: "string option"
  source :: routing_mode

definition parseProviderModel :: "string \<Rightarrow> (string \<times> string) option" where
  "parseProviderModel model =
     (case find_index (\<lambda>c. c = CHR ''/'') model of
        None \<Rightarrow> None
      | Some i \<Rightarrow> if i = 0 \<or> Suc i = length model then None else Some (take i model, drop (Suc i) model))"

definition toResolvedRoute :: "string \<Rightarrow> routing_mode \<Rightarrow> candidate \<Rightarrow> routing_mode \<Rightarrow> resolved_route" where
  "toResolvedRoute req mode cand src =
     \<lparr>requestedModel = req, routingMode = mode, resolvedProvider = cd_provider cand, resolvedModel = cd_model cand,
      connectionId = cd_connectionId cand, source = (case cd_source cand of Some s \<Rightarrow> s | None \<Rightarrow> src)\<rparr>"

definition resolveModelReference :: "catalog \<Rightarrow> string \<Rightarrow> pi_model option" where
  "resolveModelReference cat ref =
     (case parseProviderModel ref of
        Some (provider, model) \<Rightarrow> cat_find cat provider model
      | None \<Rightarrow>
          (case filter (\<lambda>m. m_id m = ref) (case getAll cat of Some ms \<Rightarrow> ms | None \<Rightarrow> getAvailable cat) of
             [m] \<Rightarrow> Some m
           | _ \<Rightarrow> None))"

definition resolveModelReferenceWithRequested :: "catalog \<Rightarrow> string \<Rightarrow> pi_model option \<Rightarrow> pi_model option" where
  "resolveModelReferenceWithRequested cat ref requested =
     (case resolveModelReference cat ref of
        Some m \<Rightarrow> Some m
      | None \<Rightarrow> (case requested of Some r \<Rightarrow> if piModelToSelection r = ref then Some r else None | None \<Rightarrow> None))"

definition modelToCandidate :: "routing_mode option \<Rightarrow> pi_model option \<Rightarrow> candidate option" where
  "modelToCandidate src m =
     map_option (\<lambda>m. \<lparr>cd_provider = m_provider m, cd_model = m_id m, cd_connectionId = None, cd_source = src\<rparr>) m"

definition candidate_key :: "candidate \<Rightarrow> string" where
  "candidate_key c = cd_provider c @ ''/'' @ cd_model c @ ''/'' @ (case cd_connectionId c of Some i \<Rightarrow> i | None \<Rightarrow> [])"

fun compact_loop :: "string list \<Rightarrow> candidate option list \<Rightarrow> candidate list" where
  "compact_loop seen [] = []"
| "compact_loop seen (c # cs) =
     (case c of
        None \<Rightarrow> compact_loop seen cs
      | Some x \<Rightarrow> if candidate_key x \<in> set seen then compact_loop seen cs
                  else x # compact_loop (candidate_key x # seen) cs)"

definition compactCandidates :: "candidate option list \<Rightarrow> candidate list" where
  "compactCandidates cs = compact_loop [] cs"

definition resolveModelReferenceChain :: "catalog \<Rightarrow> string list \<Rightarrow> routing_mode \<Rightarrow> pi_model option \<Rightarrow> candidate list" where
  "resolveModelReferenceChain cat models src requested =
     compactCandidates (map (\<lambda>ref. modelToCandidate (Some src) (resolveModelReferenceWithRequested cat ref requested)) models)"

definition firstResolvedCandidate :: "catalog \<Rightarrow> string list \<Rightarrow> routing_mode \<Rightarrow> candidate option" where
  "firstResolvedCandidate cat models src = first_some (\<lambda>m. modelToCandidate (Some src) (resolveModelReference cat m)) models"

definition lookup_list :: "string \<Rightarrow> (string \<times> string list) list \<Rightarrow> string list" where
  "lookup_list k kvs = (case map_of kvs k of Some xs \<Rightarrow> xs | None \<Rightarrow> [])"

definition comboLookupNames :: "string option \<Rightarrow> string list" where
  "comboLookupNames alias =
     (case alias of
        Some a \<Rightarrow> if starts_with ''combo:'' a
                   then (let n = drop (length ''combo:'') a in if n \<noteq> [] then [n, a] else [a]) else []
      | None \<Rightarrow> [])"

definition DEFAULT_COMBO_ROUTE_LIMIT :: nat where "DEFAULT_COMBO_ROUTE_LIMIT = 3"

fun first_combo :: "string list \<Rightarrow> policy \<Rightarrow> rotation_state \<Rightarrow> (string list \<times> rotation_state) option" where
  "first_combo [] p st = None"
| "first_combo (n # ns) p st = (case resolvePolicyCombo n p st of Some r \<Rightarrow> Some r | None \<Rightarrow> first_combo ns p st)"

fun resolveCandidateChain ::
  "model_selection \<Rightarrow> catalog \<Rightarrow> policy \<Rightarrow> pi_model option \<Rightarrow> rotation_state \<Rightarrow> candidate list \<times> rotation_state" where
  "resolveCandidateChain (Fixed m) cat p requested st =
     (compactCandidates [modelToCandidate (Some Fixed_mode) (resolveModelReferenceWithRequested cat m requested)], st)"
| "resolveCandidateChain (Fallback primary fallbacks) cat p requested st =
     (case resolvePolicyCombo primary p st of
        Some (models, st') \<Rightarrow> (resolveModelReferenceChain cat models Router_mode requested, st')
      | None \<Rightarrow> (resolveModelReferenceChain cat (primary # fallbacks) Fallback_mode requested, st))"
| "resolveCandidateChain (By_intent intent c alias) cat p requested st =
     (let policyModels = (case alias of Some a \<Rightarrow> if a \<noteq> [] then lookup_list a (aliases p) else [] | None \<Rightarrow> [])
            @ lookup_list intent (intents p);
          policyCandidates = resolveModelReferenceChain cat policyModels Router_mode requested
      in if policyCandidates \<noteq> [] then (policyCandidates, st)
         else case first_combo (comboLookupNames alias) p st of
           Some (models, st') \<Rightarrow> (resolveModelReferenceChain cat models Router_mode requested, st')
         | None \<Rightarrow>
             (let selected = (if comboLookupNames alias \<noteq> []
                              then map Some (selectBestModels (getAvailable cat) intent c DEFAULT_COMBO_ROUTE_LIMIT)
                              else [selectBestModel (getAvailable cat) intent c])
              in (compactCandidates (map (modelToCandidate (Some Router_mode)) selected), st)))"

definition resolvePiRouteCandidates ::
  "model_selection \<Rightarrow> string \<Rightarrow> pi_model option \<Rightarrow> catalog \<Rightarrow> policy \<Rightarrow> rotation_state
     \<Rightarrow> (route_error + resolved_route list) \<times> rotation_state" where
  "resolvePiRouteCandidates sel req requested cat p st =
     (case resolveCandidateChain sel cat p requested st of
        (cands, st') \<Rightarrow>
          (if cands = [] then Inl (No_selection_route req)
           else Inr (map (\<lambda>c. toResolvedRoute req (mode_of sel) c (mode_of sel)) cands), st'))"

datatype request = Of_string string | Of_selection model_selection | Of_model pi_model

definition requested_object :: "request \<Rightarrow> pi_model option" where
  "requested_object r = (case r of Of_model m \<Rightarrow> Some m | _ \<Rightarrow> None)"

definition parse_request :: "request \<Rightarrow> route_error + model_selection" where
  "parse_request r =
     (case r of Of_string s \<Rightarrow> parse_string s | Of_selection sel \<Rightarrow> Inr sel | Of_model m \<Rightarrow> parse_string (piModelToSelection m))"

definition request_text :: "request \<Rightarrow> model_selection \<Rightarrow> string" where
  "request_text r sel =
     (case r of Of_string s \<Rightarrow> js_trim s | Of_selection _ \<Rightarrow> formatModelSelection sel | Of_model m \<Rightarrow> js_trim (piModelToSelection m))"

definition resolveRouteModel :: "catalog \<Rightarrow> request \<Rightarrow> resolved_route \<Rightarrow> route_error + pi_model" where
  "resolveRouteModel cat r route =
     (case cat_find cat (resolvedProvider route) (resolvedModel route) of
        Some m \<Rightarrow> Inr m
      | None \<Rightarrow>
          (case requested_object r of
             Some m \<Rightarrow> if m_provider m = resolvedProvider route \<and> m_id m = resolvedModel route then Inr m
                        else Inl (Not_in_catalog (resolvedProvider route) (resolvedModel route))
           | None \<Rightarrow> Inl (Not_in_catalog (resolvedProvider route) (resolvedModel route))))"

text \<open>A resolver given by the caller; \<open>createPiRouteResolver\<close> makes one from a catalog.\<close>

record resolver =
  resolveModel :: "(string \<Rightarrow> model_selection \<Rightarrow> candidate option) option"
  resolveIntent :: "(string \<Rightarrow> model_selection \<Rightarrow> candidate option) option"

fun pi_resolve_model :: "catalog \<Rightarrow> string \<Rightarrow> model_selection \<Rightarrow> candidate option" where
  "pi_resolve_model cat m (Fallback primary fallbacks) = firstResolvedCandidate cat (primary # fallbacks) Fallback_mode"
| "pi_resolve_model cat m sel = modelToCandidate None (resolveModelReference cat m)"

fun pi_resolve_intent :: "catalog \<Rightarrow> policy \<Rightarrow> string \<Rightarrow> model_selection \<Rightarrow> candidate option" where
  "pi_resolve_intent cat p intent (By_intent i c alias) =
     (case firstResolvedCandidate cat
             ((case alias of Some a \<Rightarrow> if a \<noteq> [] then lookup_list a (aliases p) else [] | None \<Rightarrow> []) @ lookup_list intent (intents p))
             Router_mode of
        Some cand \<Rightarrow> Some cand
      | None \<Rightarrow> modelToCandidate (Some Router_mode) (selectBestModel (getAvailable cat) intent c))"
| "pi_resolve_intent cat p intent sel = None"

definition createPiRouteResolver :: "catalog \<Rightarrow> policy \<Rightarrow> resolver" where
  "createPiRouteResolver cat p = \<lparr>resolveModel = Some (pi_resolve_model cat), resolveIntent = Some (pi_resolve_intent cat p)\<rparr>"

definition parsed_candidate :: "string \<Rightarrow> candidate option" where
  "parsed_candidate model =
     map_option (\<lambda>(p, m). \<lparr>cd_provider = p, cd_model = m, cd_connectionId = None, cd_source = None\<rparr>) (parseProviderModel model)"

definition resolveRoute :: "request \<Rightarrow> resolver \<Rightarrow> route_error + resolved_route" where
  "resolveRoute r res =
     and_then (parse_request r) (\<lambda>sel.
       (let req = request_text r sel in
        case sel of
          By_intent intent c alias \<Rightarrow>
            (case Option.bind (resolveIntent res) (\<lambda>f. f intent sel) of
               None \<Rightarrow> Inl (No_intent_route intent)
             | Some cand \<Rightarrow> Inr (toResolvedRoute req Router_mode cand Router_mode))
        | _ \<Rightarrow>
            (let model = (case sel of Fixed m \<Rightarrow> m | Fallback p _ \<Rightarrow> p | By_intent i _ _ \<Rightarrow> i);
                 direct = Option.bind (resolveModel res) (\<lambda>f. f model sel)
             in case (if direct \<noteq> None then direct else parsed_candidate model) of
                  None \<Rightarrow> Inl (No_model_route model)
                | Some cand \<Rightarrow> Inr (toResolvedRoute req (mode_of sel) cand (mode_of sel)))))"

definition route_with_model :: "catalog \<Rightarrow> request \<Rightarrow> resolved_route \<Rightarrow> route_error + (resolved_route \<times> pi_model)" where
  "route_with_model cat r route = and_then (resolveRouteModel cat r route) (\<lambda>m. Inr (route, m))"

record route_plan =
  plan_requested :: string
  plan_mode :: routing_mode
  plan_routes :: "(resolved_route \<times> pi_model) list"

definition resolvePiModelRoutePlan ::
  "request \<Rightarrow> catalog \<Rightarrow> policy \<Rightarrow> resolver option \<Rightarrow> rotation_state \<Rightarrow> (route_error + route_plan) \<times> rotation_state" where
  "resolvePiModelRoutePlan r cat p res st =
     (case parse_request r of
        Inl e \<Rightarrow> (Inl e, st)
      | Inr sel \<Rightarrow>
          (let req = request_text r sel;
               (routes, st') = (case res of
                  Some rs \<Rightarrow> (map_sum id (\<lambda>x. [x]) (resolveRoute r rs), st)
                | None \<Rightarrow> resolvePiRouteCandidates sel req (requested_object r) cat p st)
           in (and_then routes (\<lambda>rs.
                 and_then (mapM (route_with_model cat r) rs) (\<lambda>resolved.
                   Inr \<lparr>plan_requested = req, plan_mode = mode_of sel, plan_routes = resolved\<rparr>)), st')))"

definition resolvePiModelRoute ::
  "request \<Rightarrow> catalog \<Rightarrow> policy \<Rightarrow> resolver option \<Rightarrow> rotation_state
     \<Rightarrow> (route_error + (resolved_route \<times> pi_model) option) \<times> rotation_state" where
  "resolvePiModelRoute r cat p res st =
     (case resolvePiModelRoutePlan r cat p res st of
        (plan, st') \<Rightarrow> (and_then plan (\<lambda>pl. Inr (case plan_routes pl of x # _ \<Rightarrow> Some x | [] \<Rightarrow> None)), st'))"

section \<open>The model registry as a catalog\<close>


section \<open>The selection language\<close>

lemma dropWhile_hd_not: "dropWhile P xs \<noteq> [] \<Longrightarrow> \<not> P (hd (dropWhile P xs))"
  by (induction xs) auto

lemma js_trim_ends:
  assumes "js_trim s \<noteq> []"
  shows "\<not> is_space (hd (js_trim s))" "\<not> is_space (last (js_trim s))"
proof -
  let ?d = "dropWhile is_space s"
  let ?r = "dropWhile is_space (rev ?d)"
  have r: "?r \<noteq> []" using assms by (simp add: js_trim_def)
  then show "\<not> is_space (last (js_trim s))" using dropWhile_hd_not [of is_space "rev ?d"]
    by (simp add: js_trim_def last_rev)
  have "?d = rev ?r @ rev (takeWhile is_space (rev ?d))"
    by (metis rev_append rev_rev_ident takeWhile_dropWhile_id)
  then have "hd ?d = hd (rev ?r)" using r by (metis hd_append2 rev_is_Nil_conv)
  moreover have "?d \<noteq> []" using r by (metis dropWhile.simps(1) rev.simps(1))
  ultimately show "\<not> is_space (hd (js_trim s))" using dropWhile_hd_not [of is_space s] by (simp add: js_trim_def)
qed

lemma js_trim_idem [simp]: "js_trim (js_trim s) = js_trim s"
proof (cases "js_trim s = []")
  case True
  then show ?thesis by (simp only:) (simp add: js_trim_def)
next
  case False
  then show ?thesis by (intro js_trim_id js_trim_ends)
qed

lemma js_trim_prefixed:
  "v \<noteq> [] \<Longrightarrow> js_trim v = v \<Longrightarrow> p \<noteq> [] \<Longrightarrow> \<not> is_space (hd p) \<Longrightarrow> js_trim (p @ v) = p @ v"
  using js_trim_ends(2) [of v] by (intro js_trim_id) auto

lemma splitModelPrefix_prefixed:
  "CHR '':'' \<notin> set p \<Longrightarrow> p \<noteq> [] \<Longrightarrow> splitModelPrefix (p @ CHR '':'' # v) = Some (to_lower p, js_trim v)"
  unfolding splitModelPrefix_def
  by (subst find_index_append_first) auto

lemma splitModelPrefix_trimmed: "splitModelPrefix s = Some (p, v) \<Longrightarrow> js_trim v = v"
  by (auto simp: splitModelPrefix_def split: option.splits if_splits)

lemma parse_prefixed:
  assumes "v \<noteq> []" "js_trim v = v"
  shows "parse_string (''fixed:'' @ v) = Inr (Fixed v)" "parse_string (''fallback:'' @ v) = Inr (Fallback v [])"
proof -
  have trims: "js_trim (''fixed:'' @ v) = ''fixed:'' @ v" "js_trim (''fallback:'' @ v) = ''fallback:'' @ v"
    using js_trim_prefixed [OF assms, of "''fixed:''"] js_trim_prefixed [OF assms, of "''fallback:''"]
    by (simp_all add: is_space_def)
  have splits: "splitModelPrefix (''fixed:'' @ v) = Some (''fixed'', v)"
    "splitModelPrefix (''fallback:'' @ v) = Some (''fallback'', v)"
    using splitModelPrefix_prefixed [of "''fixed''" v] splitModelPrefix_prefixed [of "''fallback''" v] assms
    by (simp_all add: to_lower_def lower_char_def)
  show "parse_string (''fixed:'' @ v) = Inr (Fixed v)"
    unfolding parse_string_def trims Let_def splits using assms(1) by simp
  show "parse_string (''fallback:'' @ v) = Inr (Fallback v [])"
    unfolding parse_string_def trims Let_def splits using assms(1) by simp
qed

lemma parse_string_shape:
  assumes "parse_string s = Inr sel"
  shows "(\<exists>v. v \<noteq> [] \<and> js_trim v = v \<and> (sel = Fixed v \<or> sel = Fallback v []))
    \<or> (\<exists>i c. sel = By_intent i c (Some (js_trim s))) \<and> js_trim s \<noteq> []"
proof -
  have ne: "js_trim s \<noteq> []" using assms by (auto simp: parse_string_def)
  show ?thesis
  proof (cases "splitModelPrefix (js_trim s)")
    case None
    with assms ne show ?thesis by (auto simp: parse_string_def Let_def)
  next
    case (Some pv)
    obtain p v where pv: "pv = (p, v)" by (cases pv)
    have "js_trim v = v" using Some splitModelPrefix_trimmed by (simp add: pv)
    with assms ne Some pv show ?thesis
      by (auto simp: parse_string_def Let_def split: if_splits)
  qed
qed

lemma parse_string_trim: "parse_string (js_trim s) = parse_string s"
  by (simp add: parse_string_def)

text \<open>A selection that was read is printed as a string that reads as the same selection:
  \<open>formatModelSelection\<close> followed by \<open>parseModelSelection\<close> gives the selection back, with its
  intent, constraints and alias.\<close>

theorem selection_roundtrip:
  assumes "parse_string s = Inr sel"
  shows "parse_string (formatModelSelection sel) = Inr sel"
  using parse_string_shape [OF assms] assms parse_prefixed by (auto simp: parse_string_trim)

theorem selection_roundtrip_witness:
  "parse_string ''  Cheap: coding '' = Inr (By_intent ''coding'' (Some (no_constraints\<lparr>budget := Some Low\<rparr>)) (Some ''Cheap: coding''))
   \<and> parse_string (formatModelSelection (By_intent ''coding'' (Some (no_constraints\<lparr>budget := Some Low\<rparr>)) (Some ''Cheap: coding'')))
       = Inr (By_intent ''coding'' (Some (no_constraints\<lparr>budget := Some Low\<rparr>)) (Some ''Cheap: coding''))"
proof -
  have "parse_string ''  Cheap: coding '' = Inr (By_intent ''coding'' (Some (no_constraints\<lparr>budget := Some Low\<rparr>)) (Some ''Cheap: coding''))"
    by code_simp
  from this selection_roundtrip [OF this] show ?thesis by (rule conjI)
qed

text \<open>A list of fallback models does not survive printing: \<open>formatModelSelection\<close> writes the
  primary model only.\<close>

theorem fallback_list_dropped:
  "parse_string (formatModelSelection (Fallback ''a/b'' [''c/d''])) = Inr (Fallback ''a/b'' [])"
  by code_simp

text \<open>The prefix of a selection is read without regard to case, but the combos are looked up
  by the alias as typed: \<open>Combo:team\<close> is a routed selection of the intent \<open>team\<close>, and the
  combo \<open>team\<close> is never consulted for it.\<close>

theorem combo_prefix_case_sensitive:
  "parse_string ''combo:team'' = Inr (By_intent ''team'' None (Some ''combo:team''))
   \<and> comboLookupNames (Some ''combo:team'') = [''team'', ''combo:team'']
   \<and> parse_string ''Combo:team'' = Inr (By_intent ''team'' None (Some ''Combo:team''))
   \<and> comboLookupNames (Some ''Combo:team'') = []"
  by code_simp

section \<open>Rotation of combos\<close>

lemma rotateModelsFromIndex_rotate: "rotateModelsFromIndex models i = rotate i models"
proof (induction models i rule: rotateModelsFromIndex.induct)
  case (2 models i)
  have "(case models of m # ms \<Rightarrow> ms @ [m] | [] \<Rightarrow> []) = rotate1 models" by (cases models) auto
  with 2 show ?case by (simp add: rotate1_rotate_swap)
qed simp

text \<open>The state after \<open>k\<close> requests of a round-robin combo.\<close>

primrec after_requests ::
  "nat \<Rightarrow> string list \<Rightarrow> string \<Rightarrow> int option \<Rightarrow> rotation_state \<Rightarrow> rotation_state" where
  "after_requests 0 models name stickyLimit st = st"
| "after_requests (Suc k) models name stickyLimit st =
     snd (getRotatedModels models name Combo_round_robin stickyLimit (after_requests k models name stickyLimit st))"

lemma normalizeStickyLimit_pos [simp]: "0 < normalizeStickyLimit s"
  by (auto simp: normalizeStickyLimit_def split: option.splits)

lemma step_div_mod:
  fixes k L n :: nat
  assumes "0 < L"
  shows "(if L \<le> k mod L + 1 then ((k div L mod n + 1) mod n, 0) else (k div L mod n, k mod L + 1))
    = (Suc k div L mod n, Suc k mod L)"
proof (cases "Suc (k mod L) = L")
  case True
  then show ?thesis by (simp add: div_Suc mod_Suc mod_Suc_eq)
next
  case False
  moreover have "k mod L < L" using assms by simp
  ultimately show ?thesis by (simp add: div_Suc mod_Suc)
qed

lemma getRotatedModels_step:
  fixes i :: nat
  assumes "2 \<le> length models" and "name \<noteq> []"
    and "(case js_get st name of Some s \<Rightarrow> s | None \<Rightarrow> (0, 0)) = (i, u)" and "i < length models"
  shows "getRotatedModels models name Combo_round_robin sl st =
    (rotate i models, js_set name (if normalizeStickyLimit sl \<le> u + 1 then ((i + 1) mod length models, 0) else (i, u + 1)) st)"
  using assms by (simp add: getRotatedModels_def Let_def rotateModelsFromIndex_rotate)

lemma after_requests_state:
  fixes sl :: "int option"
  assumes "2 \<le> length models" and "name \<noteq> []" and "js_get st name = None"
  defines "L \<equiv> normalizeStickyLimit sl"
  shows "(case js_get (after_requests k models name sl st) name of Some s \<Rightarrow> s | None \<Rightarrow> (0, 0))
      = (k div L mod length models, k mod L)"
proof (induction k)
  case 0
  then show ?case using assms by (simp add: L_def)
next
  case (Suc k)
  have n: "0 < length models" using assms(1) by linarith
  have "L \<noteq> 0" by (simp add: L_def)
  then show ?case
    using getRotatedModels_step [OF assms(1,2) Suc.IH mod_less_divisor [OF n], of sl] n
      step_div_mod [of L k "length models"]
    by (simp only: after_requests.simps snd_conv js_get_set L_def [symmetric]) simp
qed

lemma after_requests_other:
  "name \<noteq> [] \<Longrightarrow> other \<noteq> name \<Longrightarrow> js_get (after_requests k models name sl st) other = js_get st other"
  by (induction k) (auto simp: getRotatedModels_def Let_def split: option.splits prod.splits)

text \<open>A round-robin combo of \<open>n\<close> models with sticky limit \<open>L\<close> serves its requests in
  blocks of \<open>L\<close>: request \<open>k\<close>, counted from a state without rotation of that combo, gets the
  models rotated by \<open>k div L\<close> (modulo \<open>n\<close>), so each model leads for \<open>L\<close> requests in turn;
  the rotation of every other combo is left alone.\<close>

theorem combo_rotation_schedule:
  assumes "2 \<le> length models" and "name \<noteq> []" and "js_get st name = None"
  shows "fst (getRotatedModels models name Combo_round_robin sl (after_requests k models name sl st))
      = rotate (k div normalizeStickyLimit sl mod length models) models
    \<and> (\<forall>other. other \<noteq> name \<longrightarrow> js_get (after_requests k models name sl st) other = js_get st other)"
proof -
  have n: "0 < length models" using assms(1) by linarith
  show ?thesis
    using getRotatedModels_step [OF assms(1,2) after_requests_state [OF assms] mod_less_divisor [OF n], of sl]
      after_requests_other [OF assms(2)] by auto
qed

theorem combo_rotation_schedule_witness:
  "fst (getRotatedModels [''a/x'', ''b/y'', ''c/z''] ''team'' Combo_round_robin (Some 2)
     (after_requests 3 [''a/x'', ''b/y'', ''c/z''] ''team'' (Some 2) (resetComboRotation (Some ''team'') [(''team'', 2, 1), (''solo'', 1, 0)])))
   = [''b/y'', ''c/z'', ''a/x'']"
proof -
  have s: "normalizeStickyLimit (Some 2) = 2" by (simp add: normalizeStickyLimit_def)
  show ?thesis
    using combo_rotation_schedule [of "[''a/x'', ''b/y'', ''c/z'']" "''team''"
      "resetComboRotation (Some ''team'') [(''team'', 2, 1), (''solo'', 1, 0)]" "Some 2" 3]
    by (simp add: resetComboRotation_def s)
qed

section \<open>Choosing by score\<close>

lemma insort_cmp_map: "insort_cmp cmp (f x) (map f xs) = map f (insort_cmp (\<lambda>a b. cmp (f a) (f b)) x xs)"
  by (induction xs) auto

lemma js_sort_map: "js_sort cmp (map f xs) = map f (js_sort (\<lambda>a b. cmp (f a) (f b)) xs)"
  by (induction xs) (auto simp: insort_cmp_map)

lemma enumerate_map_nth: "enumerate 0 xs = map (\<lambda>i. (i, xs ! i)) [0..<length xs]"
  by (rule nth_equalityI) (auto simp: nth_enumerate_eq)

text \<open>The score a model competes with: later models of the list lose ties.\<close>

definition adjusted_score :: "pi_model list \<Rightarrow> string \<Rightarrow> constraints option \<Rightarrow> nat \<Rightarrow> rat" where
  "adjusted_score cands intent c i = scoreModel (cands ! i) intent c - of_nat i / 100000"

definition by_adjusted :: "pi_model list \<Rightarrow> string \<Rightarrow> constraints option \<Rightarrow> nat \<Rightarrow> nat \<Rightarrow> int" where
  "by_adjusted cands intent c i j =
     by_score_desc (cands ! i, adjusted_score cands intent c i) (cands ! j, adjusted_score cands intent c j)"

lemma by_score_desc_le: "by_score_desc a b \<le> 0 \<longleftrightarrow> snd b \<le> snd a"
  by (auto simp: by_score_desc_def)

interpretation score_order: comparator by_score_desc
  by unfold_locales (auto simp: by_score_desc_le)

interpretation adjusted_order: comparator "by_adjusted cands intent c" for cands intent c
  by unfold_locales (auto simp: by_adjusted_def by_score_desc_le)

lemma selectBestModels_positions:
  "selectBestModels ms intent c limit =
     (let cands = filter (admissible c) ms
      in map ((!) cands) (take limit (js_sort (by_adjusted cands intent c) [0..<length cands])))"
proof -
  let ?cands = "filter (admissible c) ms"
  let ?f = "\<lambda>i. (?cands ! i, adjusted_score ?cands intent c i)"
  have "map (\<lambda>(i, m). (m, scoreModel m intent c - of_nat i / 100000)) (enumerate 0 ?cands) = map ?f [0..<length ?cands]"
    by (simp add: enumerate_map_nth adjusted_score_def)
  then have "selectBestModels ms intent c limit = map fst (take limit (js_sort by_score_desc (map ?f [0..<length ?cands])))"
    by (simp add: selectBestModels_def Let_def)
  also have "\<dots> = map ((!) ?cands) (take limit (js_sort (by_adjusted ?cands intent c) [0..<length ?cands]))"
    by (simp add: js_sort_map take_map by_adjusted_def [abs_def])
  finally show ?thesis by (simp add: Let_def)
qed

text \<open>The models chosen for an intent are the best of the admissible ones: they stand at the
  first \<open>limit\<close> positions of a permutation of the admissible models that is sorted by
  descending score, each score less a penalty of one hundred-thousandth per place in the list. So
  no model that routes itself, is deprecated, or fails a constraint is ever chosen, and as many as
  asked for are chosen when there are enough.\<close>

theorem selectBestModels_best:
  "\<exists>order. mset order = mset [0..<length (filter (admissible c) ms)]
     \<and> selectBestModels ms intent c limit = map ((!) (filter (admissible c) ms)) (take limit order)
     \<and> sorted_wrt (\<lambda>i j. adjusted_score (filter (admissible c) ms) intent c j
          \<le> adjusted_score (filter (admissible c) ms) intent c i) order
     \<and> set (selectBestModels ms intent c limit) \<subseteq> {m \<in> set ms. admissible c m}
     \<and> length (selectBestModels ms intent c limit) = min limit (length (filter (admissible c) ms))"
proof -
  let ?cands = "filter (admissible c) ms"
  let ?order = "js_sort (by_adjusted ?cands intent c) [0..<length ?cands]"
  have sel: "selectBestModels ms intent c limit = map ((!) ?cands) (take limit ?order)"
    by (simp add: selectBestModels_positions Let_def)
  have "set (take limit ?order) \<subseteq> {0..<length ?cands}"
    using set_take_subset [of limit ?order] by simp
  then have "set (map ((!) ?cands) (take limit ?order)) \<subseteq> set ?cands"
    by (force simp: set_conv_nth)
  then have sub: "set (selectBestModels ms intent c limit) \<subseteq> {m \<in> set ms. admissible c m}"
    using sel by simp
  have "sorted_wrt (\<lambda>i j. by_adjusted ?cands intent c i j \<le> 0) ?order"
    by (rule adjusted_order.sorted_js_sort)
  then have "sorted_wrt (\<lambda>i j. adjusted_score ?cands intent c j \<le> adjusted_score ?cands intent c i) ?order"
    by (rule sorted_wrt_mono_rel [rotated]) (simp add: by_adjusted_def by_score_desc_le)
  moreover have "length (selectBestModels ms intent c limit) = min limit (length ?cands)"
    by (simp add: sel min.commute)
  moreover have "mset ?order = mset [0..<length ?cands]" by (rule mset_js_sort)
  ultimately show ?thesis using sel sub by blast
qed

section \<open>Route plans\<close>























end
