(* ===== verification/Agent_Io.thy ===== *)
theory Agent_Io
  imports Prelude
begin

text \<open>
  Effects of the agent loop (\<open>packages/agent/src/agent-loop.ts\<close>): operations that read and change
  the world and may throw, the messages, events and tools they exchange (\<open>types.ts\<close>), and the
  protocol of events as an automaton with the rules to show that an operation keeps it.
  An awaited call is a step of the caller's world; every callback, tool and stream is a function of
  that world, so it may queue messages or abort at any call.
\<close>

section \<open>Operations on the world\<close>

type_synonym ('s, 'a) io = "'s \<Rightarrow> (string + 'a) \<times> 's"

definition pure_io :: "'a \<Rightarrow> ('s, 'a) io" where
  "pure_io x s = (Inr x, s)"

definition throw_io :: "string \<Rightarrow> ('s, 'a) io" where
  "throw_io e s = (Inl e, s)"

definition bind_io :: "('s, 'a) io \<Rightarrow> ('a \<Rightarrow> ('s, 'b) io) \<Rightarrow> ('s, 'b) io" where
  "bind_io m f s = (case m s of (Inl e, s') \<Rightarrow> (Inl e, s') | (Inr x, s') \<Rightarrow> f x s')"

definition catch_io :: "('s, 'a) io \<Rightarrow> (string \<Rightarrow> ('s, 'a) io) \<Rightarrow> ('s, 'a) io" where
  "catch_io m h s = (case m s of (Inl e, s') \<Rightarrow> h e s' | (Inr x, s') \<Rightarrow> (Inr x, s'))"

definition get_io :: "('s \<Rightarrow> 'a) \<Rightarrow> ('s, 'a) io" where
  "get_io f s = (Inr (f s), s)"

fun each_io :: "('a \<Rightarrow> ('s, unit) io) \<Rightarrow> 'a list \<Rightarrow> ('s, unit) io" where
  "each_io f [] = pure_io ()"
| "each_io f (x # xs) = bind_io (f x) (\<lambda>_. each_io f xs)"

section \<open>Messages, tools and events\<close>

text \<open>Arguments and details are the text of their JSON.\<close>

record tool_call =
  callId :: string
  callName :: string
  callArgs :: string

datatype content_block = Text_block string | Thinking_block string | Call_block tool_call

datatype stop_reason = Stop | Length | Tool_use | Error_stop | Aborted_stop

record assistant_message =
  content :: "content_block list"
  stopReason :: stop_reason
  errorMessage :: "string option"

record tool_result =
  res_content :: "string list"
  res_details :: string
  res_terminate :: "bool option"

record tool_result_message =
  toolCallId :: string
  toolName :: string
  msg_content :: "string list"
  msg_details :: string
  isError :: bool
  timestamp :: int

datatype chat_message =
  User_msg string
  | Assistant_msg assistant_message
  | Result_msg tool_result_message
  | Custom_msg string string

datatype execution_mode = Sequential | Parallel

record agent_tool =
  t_name :: string
  executionMode :: "execution_mode option"

record agent_context =
  systemPrompt :: string
  messages :: "chat_message list"
  tools :: "agent_tool list"

datatype agent_event =
  Agent_start
  | Agent_end "chat_message list"
  | Turn_start
  | Turn_end assistant_message "tool_result_message list"
  | Message_start chat_message
  | Message_update chat_message
  | Message_end chat_message
  | Tool_execution_start string string string
  | Tool_execution_update string string string tool_result
  | Tool_execution_end string string tool_result bool

definition toolCalls_of :: "assistant_message \<Rightarrow> tool_call list" where
  "toolCalls_of m = List.map_filter (\<lambda>c. case c of Call_block tc \<Rightarrow> Some tc | _ \<Rightarrow> None) (content m)"

record llm_model =
  model_provider :: string
  model_id :: string

record turn_update =
  u_context :: "agent_context option"
  u_model :: "llm_model option"
  u_thinkingLevel :: "string option"

record before_result =
  block :: bool
  reason :: "string option"

record after_result =
  a_content :: "string list option"
  a_details :: "string option"
  a_isError :: "bool option"
  a_terminate :: "bool option"

text \<open>A response stream: the events that arrive one after the other, and its final message.\<close>

datatype stream_event =
  Stream_start assistant_message
  | Stream_delta assistant_message
  | Stream_done

record 'w response_stream =
  stream_events :: "('w, stream_event) io list"
  stream_result :: "('w, assistant_message) io"

text \<open>A running tool: the partial results it reports, and how it ends.\<close>

record 'w execution =
  ex_updates :: "('w \<Rightarrow> tool_result \<times> 'w) list"
  ex_outcome :: "('w, tool_result) io"

record 'w loop_config =
  model :: llm_model
  reasoning :: "string option"
  apiKey :: "string option"
  toolExecution :: "execution_mode option"
  convertToLlm :: "chat_message list \<Rightarrow> ('w, chat_message list) io"
  transformContext :: "(chat_message list \<Rightarrow> ('w, chat_message list) io) option"
  getApiKey :: "(string \<Rightarrow> ('w, string option) io) option"
  streamFn :: "llm_model \<Rightarrow> agent_context \<Rightarrow> string option \<Rightarrow> string option \<Rightarrow> ('w, 'w response_stream) io"
  getSteeringMessages :: "('w, chat_message list) io option"
  getFollowUpMessages :: "('w, chat_message list) io option"
  prepareNextTurn :: "(assistant_message \<Rightarrow> tool_result_message list \<Rightarrow> agent_context \<Rightarrow> chat_message list
      \<Rightarrow> ('w, turn_update option) io) option"
  shouldStopAfterTurn :: "(assistant_message \<Rightarrow> tool_result_message list \<Rightarrow> agent_context \<Rightarrow> chat_message list
      \<Rightarrow> ('w, bool) io) option"
  beforeToolCall :: "(assistant_message \<Rightarrow> tool_call \<Rightarrow> string \<Rightarrow> agent_context \<Rightarrow> ('w, before_result option) io) option"
  afterToolCall :: "(assistant_message \<Rightarrow> tool_call \<Rightarrow> string \<Rightarrow> tool_result \<Rightarrow> bool \<Rightarrow> agent_context
      \<Rightarrow> ('w, after_result option) io) option"
  prepareArguments :: "agent_tool \<Rightarrow> (string \<Rightarrow> ('w, string) io) option"
  validateToolArguments :: "agent_tool \<Rightarrow> tool_call \<Rightarrow> ('w, string) io"
  execute :: "agent_tool \<Rightarrow> string \<Rightarrow> string \<Rightarrow> 'w execution"
  aborted :: "'w \<Rightarrow> bool"
  clock :: "'w \<Rightarrow> int"
  sink :: "agent_event \<Rightarrow> ('w, unit) io"
  schedule :: "nat \<Rightarrow> 'w \<Rightarrow> nat \<times> 'w"

text \<open>The state of a run: the world, and the events emitted so far.\<close>

record 'w run =
  world :: 'w
  trace :: "agent_event list"

definition external :: "('w, 'a) io \<Rightarrow> ('w run, 'a) io" where
  "external m r = (case m (world r) of (x, w) \<Rightarrow> (x, r\<lparr>world := w\<rparr>))"

definition emit :: "'w loop_config \<Rightarrow> agent_event \<Rightarrow> ('w run, unit) io" where
  "emit cfg ev r = external (sink cfg ev) (r\<lparr>trace := trace r @ [ev]\<rparr>)"

definition is_aborted :: "'w loop_config \<Rightarrow> ('w run, bool) io" where
  "is_aborted cfg = get_io (\<lambda>r. aborted cfg (world r))"

end
