(* ===== verification/Agent_Tools.thy ===== *)
theory Agent_Tools
  imports Agent_Io
begin

text \<open>
  One batch of tool calls (\<open>executeToolCalls\<close> and below in \<open>packages/agent/src/agent-loop.ts\<close>):
  the calls of an assistant message are prepared in order and executed one after the other or
  concurrently. In a concurrent batch the order in which the running tools report and finish is
  chosen by \<open>schedule\<close>: every interleaving of their steps is one of its values.
\<close>

section \<open>Preparing a call\<close>

datatype preparation =
  Immediate tool_result bool
  | Prepared tool_call agent_tool string

record finalized_call =
  f_call :: tool_call
  f_result :: tool_result
  f_isError :: bool

definition createErrorToolResult :: "string \<Rightarrow> tool_result" where
  "createErrorToolResult message = \<lparr>res_content = [message], res_details = ''{}'', res_terminate = None\<rparr>"

definition prepareToolCallArguments :: "'w loop_config \<Rightarrow> agent_tool \<Rightarrow> tool_call \<Rightarrow> ('w run, tool_call) io" where
  "prepareToolCallArguments cfg tool call =
     (case prepareArguments cfg tool of
        None \<Rightarrow> pure_io call
      | Some f \<Rightarrow> bind_io (external (f (callArgs call))) (\<lambda>args. pure_io (call\<lparr>callArgs := args\<rparr>)))"

definition operation_aborted :: preparation where
  "operation_aborted = Immediate (createErrorToolResult ''Operation aborted'') True"

definition run_beforeToolCall ::
  "'w loop_config \<Rightarrow> agent_context \<Rightarrow> assistant_message \<Rightarrow> tool_call \<Rightarrow> string \<Rightarrow> ('w run, preparation option) io" where
  "run_beforeToolCall cfg ctx am call args =
     (case beforeToolCall cfg of
        None \<Rightarrow> pure_io None
      | Some hook \<Rightarrow>
          bind_io (external (hook am call args ctx)) (\<lambda>before.
          bind_io (is_aborted cfg) (\<lambda>ab.
            pure_io
              (if ab then Some operation_aborted
               else case before of
                 Some b \<Rightarrow>
                   if block b
                   then Some (Immediate (createErrorToolResult
                     (case reason b of Some r \<Rightarrow> if r \<noteq> [] then r else ''Tool execution was blocked''
                      | None \<Rightarrow> ''Tool execution was blocked'')) True)
                   else None
               | None \<Rightarrow> None))))"

definition prepareToolCall ::
  "'w loop_config \<Rightarrow> agent_context \<Rightarrow> assistant_message \<Rightarrow> tool_call \<Rightarrow> ('w run, preparation) io" where
  "prepareToolCall cfg ctx am call =
     (case find (\<lambda>t. t_name t = callName call) (tools ctx) of
        None \<Rightarrow> pure_io (Immediate (createErrorToolResult (''Tool '' @ callName call @ '' not found'')) True)
      | Some tool \<Rightarrow>
          catch_io
            (bind_io (prepareToolCallArguments cfg tool call) (\<lambda>prepared.
             bind_io (external (validateToolArguments cfg tool prepared)) (\<lambda>args.
             bind_io (run_beforeToolCall cfg ctx am call args) (\<lambda>early.
               case early of
                 Some outcome \<Rightarrow> pure_io outcome
               | None \<Rightarrow> bind_io (is_aborted cfg) (\<lambda>ab. pure_io (if ab then operation_aborted else Prepared call tool args))))))
            (\<lambda>e. pure_io (Immediate (createErrorToolResult e) True)))"

section \<open>Executing and finalizing\<close>

text \<open>Reporting a partial result: the report is not awaited, a listener that fails is remembered and
  surfaces when the tool has ended.\<close>

definition emit_update ::
  "'w loop_config \<Rightarrow> tool_call \<Rightarrow> ('w \<Rightarrow> tool_result \<times> 'w) \<Rightarrow> string option \<Rightarrow> 'w run \<Rightarrow> string option \<times> 'w run" where
  "emit_update cfg call update failed s =
     (case update (world s) of
        (partial, w) \<Rightarrow>
          (case emit cfg (Tool_execution_update (callId call) (callName call) (callArgs call) partial) (s\<lparr>world := w\<rparr>) of
             (Inl e, s') \<Rightarrow> (if failed = None then Some e else failed, s')
           | (Inr _, s') \<Rightarrow> (failed, s')))"

definition settle_execution ::
  "('w, tool_result) io \<Rightarrow> string option \<Rightarrow> ('w run, tool_result \<times> bool) io" where
  "settle_execution ending failed s =
     (case external ending s of
        (r, s') \<Rightarrow>
          (case failed of
             Some e \<Rightarrow> (Inl e, s')
           | None \<Rightarrow> (Inr (case r of Inr result \<Rightarrow> (result, False) | Inl e \<Rightarrow> (createErrorToolResult e, True)), s')))"

fun executePreparedToolCall ::
  "'w loop_config \<Rightarrow> tool_call \<Rightarrow> ('w \<Rightarrow> tool_result \<times> 'w) list \<Rightarrow> ('w, tool_result) io \<Rightarrow> string option
     \<Rightarrow> ('w run, tool_result \<times> bool) io" where
  "executePreparedToolCall cfg call [] ending failed s = settle_execution ending failed s"
| "executePreparedToolCall cfg call (u # us) ending failed s =
     (case emit_update cfg call u failed s of
        (failed', s') \<Rightarrow> executePreparedToolCall cfg call us ending failed' s')"

definition apply_after :: "after_result option \<Rightarrow> tool_result \<times> bool \<Rightarrow> tool_result \<times> bool" where
  "apply_after after executed =
     (case after of
        None \<Rightarrow> executed
      | Some a \<Rightarrow>
          (\<lparr>res_content = (case a_content a of Some c \<Rightarrow> c | None \<Rightarrow> res_content (fst executed)),
            res_details = (case a_details a of Some d \<Rightarrow> d | None \<Rightarrow> res_details (fst executed)),
            res_terminate = (case a_terminate a of Some t \<Rightarrow> Some t | None \<Rightarrow> res_terminate (fst executed))\<rparr>,
           case a_isError a of Some e \<Rightarrow> e | None \<Rightarrow> snd executed))"

definition finalizeExecutedToolCall ::
  "'w loop_config \<Rightarrow> agent_context \<Rightarrow> assistant_message \<Rightarrow> tool_call \<Rightarrow> string \<Rightarrow> tool_result \<times> bool
     \<Rightarrow> ('w run, finalized_call) io" where
  "finalizeExecutedToolCall cfg ctx am call args executed =
     bind_io
       (case afterToolCall cfg of
          None \<Rightarrow> pure_io executed
        | Some hook \<Rightarrow>
            catch_io
              (bind_io (external (hook am call args (fst executed) (snd executed) ctx))
                (\<lambda>after. pure_io (apply_after after executed)))
              (\<lambda>e. pure_io (createErrorToolResult e, True)))
       (\<lambda>(result, isErr). pure_io \<lparr>f_call = call, f_result = result, f_isError = isErr\<rparr>)"

definition emitToolExecutionEnd :: "'w loop_config \<Rightarrow> finalized_call \<Rightarrow> ('w run, unit) io" where
  "emitToolExecutionEnd cfg f =
     emit cfg (Tool_execution_end (callId (f_call f)) (callName (f_call f)) (f_result f) (f_isError f))"

definition createToolResultMessage :: "'w loop_config \<Rightarrow> finalized_call \<Rightarrow> ('w run, tool_result_message) io" where
  "createToolResultMessage cfg f =
     get_io (\<lambda>s. \<lparr>toolCallId = callId (f_call f), toolName = callName (f_call f), msg_content = res_content (f_result f),
       msg_details = res_details (f_result f), isError = f_isError f, timestamp = clock cfg (world s)\<rparr>)"

definition emitToolResultMessage :: "'w loop_config \<Rightarrow> tool_result_message \<Rightarrow> ('w run, unit) io" where
  "emitToolResultMessage cfg m =
     bind_io (emit cfg (Message_start (Result_msg m))) (\<lambda>_. emit cfg (Message_end (Result_msg m)))"

definition result_message :: "'w loop_config \<Rightarrow> finalized_call \<Rightarrow> ('w run, tool_result_message) io" where
  "result_message cfg f =
     bind_io (createToolResultMessage cfg f) (\<lambda>m. bind_io (emitToolResultMessage cfg m) (\<lambda>_. pure_io m))"

definition shouldTerminateToolBatch :: "finalized_call list \<Rightarrow> bool" where
  "shouldTerminateToolBatch fs \<longleftrightarrow> fs \<noteq> [] \<and> (\<forall>f \<in> set fs. res_terminate (f_result f) = Some True)"

definition emit_tool_start :: "'w loop_config \<Rightarrow> tool_call \<Rightarrow> ('w run, unit) io" where
  "emit_tool_start cfg call = emit cfg (Tool_execution_start (callId call) (callName call) (callArgs call))"

section \<open>One after the other\<close>

definition finish_call ::
  "'w loop_config \<Rightarrow> agent_context \<Rightarrow> assistant_message \<Rightarrow> tool_call \<Rightarrow> preparation \<Rightarrow> ('w run, finalized_call) io" where
  "finish_call cfg ctx am call preparation =
     (case preparation of
        Immediate result isErr \<Rightarrow> pure_io \<lparr>f_call = call, f_result = result, f_isError = isErr\<rparr>
      | Prepared c tool args \<Rightarrow>
          (let ex = execute cfg tool (callId c) args in
           bind_io (executePreparedToolCall cfg c (ex_updates ex) (ex_outcome ex) None)
             (finalizeExecutedToolCall cfg ctx am c args)))"

definition run_call ::
  "'w loop_config \<Rightarrow> agent_context \<Rightarrow> assistant_message \<Rightarrow> tool_call \<Rightarrow> ('w run, finalized_call \<times> tool_result_message) io" where
  "run_call cfg ctx am call =
     bind_io (emit_tool_start cfg call) (\<lambda>_.
     bind_io (prepareToolCall cfg ctx am call) (\<lambda>preparation.
     bind_io (finish_call cfg ctx am call preparation) (\<lambda>f.
     bind_io (emitToolExecutionEnd cfg f) (\<lambda>_.
     bind_io (result_message cfg f) (\<lambda>m. pure_io (f, m))))))"

fun sequential_loop ::
  "'w loop_config \<Rightarrow> agent_context \<Rightarrow> assistant_message \<Rightarrow> tool_call list
     \<Rightarrow> ('w run, (finalized_call \<times> tool_result_message) list) io" where
  "sequential_loop cfg ctx am [] = pure_io []"
| "sequential_loop cfg ctx am (call # calls) =
     bind_io (run_call cfg ctx am call) (\<lambda>fm.
     bind_io (is_aborted cfg) (\<lambda>ab.
       if ab then pure_io [fm]
       else bind_io (sequential_loop cfg ctx am calls) (\<lambda>fms. pure_io (fm # fms))))"

definition executeToolCallsSequential ::
  "'w loop_config \<Rightarrow> agent_context \<Rightarrow> assistant_message \<Rightarrow> tool_call list
     \<Rightarrow> ('w run, tool_result_message list \<times> bool) io" where
  "executeToolCallsSequential cfg ctx am calls =
     bind_io (sequential_loop cfg ctx am calls) (\<lambda>fms.
       pure_io (map snd fms, shouldTerminateToolBatch (map fst fms)))"

section \<open>Concurrently\<close>

text \<open>An entry of \<open>finalizedCalls\<close>: finalized already, or a tool with what it has still to do.\<close>

datatype 'w batch_entry =
  Ready finalized_call
  | Pending tool_call string "('w \<Rightarrow> tool_result \<times> 'w) list" "('w, tool_result) io" "string option"

definition prepared_entry ::
  "'w loop_config \<Rightarrow> tool_call \<Rightarrow> preparation \<Rightarrow> ('w run, 'w batch_entry) io" where
  "prepared_entry cfg call preparation =
     (case preparation of
        Immediate result isErr \<Rightarrow>
          (let f = \<lparr>f_call = call, f_result = result, f_isError = isErr\<rparr> in
           bind_io (emitToolExecutionEnd cfg f) (\<lambda>_. pure_io (Ready f)))
      | Prepared c tool args \<Rightarrow>
          (let ex = execute cfg tool (callId c) args in
           pure_io (Pending c args (ex_updates ex) (ex_outcome ex) None)))"

fun prepare_loop ::
  "'w loop_config \<Rightarrow> agent_context \<Rightarrow> assistant_message \<Rightarrow> tool_call list \<Rightarrow> ('w run, 'w batch_entry list) io" where
  "prepare_loop cfg ctx am [] = pure_io []"
| "prepare_loop cfg ctx am (call # calls) =
     bind_io (emit_tool_start cfg call) (\<lambda>_.
     bind_io (prepareToolCall cfg ctx am call) (\<lambda>preparation.
     bind_io (prepared_entry cfg call preparation) (\<lambda>entry.
     bind_io (is_aborted cfg) (\<lambda>ab.
       if ab then pure_io [entry]
       else bind_io (prepare_loop cfg ctx am calls) (\<lambda>entries. pure_io (entry # entries))))))"

definition is_pending :: "'w batch_entry \<Rightarrow> bool" where
  "is_pending e = (case e of Pending _ _ _ _ _ \<Rightarrow> True | Ready _ \<Rightarrow> False)"

definition finalized_calls :: "'w batch_entry list \<Rightarrow> finalized_call list" where
  "finalized_calls es = List.map_filter (\<lambda>e. case e of Ready f \<Rightarrow> Some f | _ \<Rightarrow> None) es"

text \<open>The next step of one running tool: a report, or its end with everything that follows.\<close>

definition entry_step ::
  "'w loop_config \<Rightarrow> agent_context \<Rightarrow> assistant_message \<Rightarrow> 'w batch_entry \<Rightarrow> ('w run, 'w batch_entry) io" where
  "entry_step cfg ctx am e =
     (case e of
        Ready f \<Rightarrow> pure_io (Ready f)
      | Pending c args (u # us) ending failed \<Rightarrow>
          (\<lambda>s. case emit_update cfg c u failed s of (failed', s') \<Rightarrow> (Inr (Pending c args us ending failed'), s'))
      | Pending c args [] ending failed \<Rightarrow>
          bind_io (settle_execution ending failed) (\<lambda>executed.
          bind_io (finalizeExecutedToolCall cfg ctx am c args executed) (\<lambda>f.
          bind_io (emitToolExecutionEnd cfg f) (\<lambda>_. pure_io (Ready f)))))"

definition steps_left :: "'w batch_entry \<Rightarrow> nat" where
  "steps_left e = (case e of Ready _ \<Rightarrow> 0 | Pending _ _ us _ _ \<Rightarrow> Suc (length us))"

text \<open>The index of the entry that runs next.\<close>

definition pick_entry ::
  "'w loop_config \<Rightarrow> 'w batch_entry list \<Rightarrow> ('w run, nat) io" where
  "pick_entry cfg es =
     (let waiting = indices_where is_pending es in
      external (\<lambda>w. case schedule cfg (length waiting) w of (k, w') \<Rightarrow> (Inr (waiting ! (k mod length waiting)), w')))"

definition batch_step ::
  "'w loop_config \<Rightarrow> agent_context \<Rightarrow> assistant_message \<Rightarrow> 'w batch_entry list \<Rightarrow> ('w run, 'w batch_entry list) io" where
  "batch_step cfg ctx am es =
     bind_io (pick_entry cfg es) (\<lambda>i. bind_io (entry_step cfg ctx am (es ! i)) (\<lambda>e. pure_io (es[i := e])))"

lemma entry_step_decreases:
  assumes "entry_step cfg ctx am e s = (Inr e', s')" and "is_pending e"
  shows "steps_left e' < steps_left e"
  using assms
  by (auto simp: entry_step_def is_pending_def steps_left_def bind_io_def pure_io_def
      split: batch_entry.splits list.splits prod.splits sum.splits)

lemma pick_entry_pending:
  assumes "pick_entry cfg es s = (Inr i, s')" and "\<exists>e \<in> set es. is_pending e"
  shows "i < length es \<and> is_pending (es ! i)"
proof -
  let ?w = "indices_where is_pending es"
  obtain j where "j < length es" "is_pending (es ! j)" using assms(2) by (auto simp: in_set_conv_nth)
  then have "j \<in> set ?w" by simp
  then have "0 < length ?w" by (rule length_pos_if_in_set)
  moreover obtain k where "i = ?w ! (k mod length ?w)"
    using assms(1) by (auto simp: pick_entry_def external_def Let_def split: prod.splits)
  ultimately have "i \<in> set ?w" by (metis mod_less_divisor nth_mem)
  then show ?thesis by simp
qed

lemma batch_step_decreases:
  assumes "batch_step cfg ctx am es s = (Inr es', s')" and "\<exists>e \<in> set es. is_pending e"
  shows "sum_list (map steps_left es') < sum_list (map steps_left es)"
proof -
  from assms(1) obtain i s1 e s2 where i: "pick_entry cfg es s = (Inr i, s1)"
    and e: "entry_step cfg ctx am (es ! i) s1 = (Inr e, s2)" and es': "es' = es[i := e]"
    by (auto simp: batch_step_def bind_io_def pure_io_def split: prod.splits sum.splits)
  note p = pick_entry_pending [OF i assms(2)]
  then have less: "steps_left e < steps_left (es ! i)" using entry_step_decreases [OF e] by simp
  have "es = take i es @ es ! i # drop (Suc i) es" using p by (simp add: id_take_nth_drop)
  then have "sum_list (map steps_left es)
      = sum_list (map steps_left (take i es)) + steps_left (es ! i) + sum_list (map steps_left (drop (Suc i) es))"
    by (metis (no_types, lifting) add.assoc list.simps(9) map_append sum_list.Cons sum_list.append)
  moreover have "sum_list (map steps_left es')
      = sum_list (map steps_left (take i es)) + steps_left e + sum_list (map steps_left (drop (Suc i) es))"
    using p by (simp add: es' upd_conv_take_nth_drop)
  ultimately show ?thesis using less by simp
qed

function run_batch ::
  "'w loop_config \<Rightarrow> agent_context \<Rightarrow> assistant_message \<Rightarrow> 'w batch_entry list \<Rightarrow> ('w run, finalized_call list) io" where
  "run_batch cfg ctx am es s =
     (if \<not> (\<exists>e \<in> set es. is_pending e) then (Inr (finalized_calls es), s)
      else case batch_step cfg ctx am es s of
        (Inl e, s') \<Rightarrow> (Inl e, s')
      | (Inr es', s') \<Rightarrow> run_batch cfg ctx am es' s')"
  by pat_completeness auto

termination
  by (relation "measure (\<lambda>(cfg, ctx, am, es, s). sum_list (map steps_left es))")
     (auto intro: batch_step_decreases [OF sym])

lemma run_batch_done:
  "\<not> (\<exists>e \<in> set es. is_pending e) \<Longrightarrow> run_batch cfg ctx am es s = (Inr (finalized_calls es), s)"
  by (subst run_batch.simps) (simp only: not_False_eq_True if_True)

lemma run_batch_step:
  "\<exists>e \<in> set es. is_pending e \<Longrightarrow> run_batch cfg ctx am es s =
     (case batch_step cfg ctx am es s of (Inl e, s') \<Rightarrow> (Inl e, s') | (Inr es', s') \<Rightarrow> run_batch cfg ctx am es' s')"
  by (subst run_batch.simps) (simp only: not_True_eq_False if_False)

declare run_batch.simps [simp del]

fun result_messages ::
  "'w loop_config \<Rightarrow> finalized_call list \<Rightarrow> ('w run, tool_result_message list) io" where
  "result_messages cfg [] = pure_io []"
| "result_messages cfg (f # fs) =
     bind_io (result_message cfg f) (\<lambda>m. bind_io (result_messages cfg fs) (\<lambda>ms. pure_io (m # ms)))"

definition executeToolCallsParallel ::
  "'w loop_config \<Rightarrow> agent_context \<Rightarrow> assistant_message \<Rightarrow> tool_call list
     \<Rightarrow> ('w run, tool_result_message list \<times> bool) io" where
  "executeToolCallsParallel cfg ctx am calls =
     bind_io (prepare_loop cfg ctx am calls) (\<lambda>entries.
     bind_io (run_batch cfg ctx am entries) (\<lambda>fs.
     bind_io (result_messages cfg fs) (\<lambda>ms. pure_io (ms, shouldTerminateToolBatch fs))))"

definition executeToolCalls ::
  "'w loop_config \<Rightarrow> agent_context \<Rightarrow> assistant_message \<Rightarrow> ('w run, tool_result_message list \<times> bool) io" where
  "executeToolCalls cfg ctx am =
     (let toolCalls = toolCalls_of am;
          hasSequentialToolCall =
            (\<exists>tc \<in> set toolCalls. case find (\<lambda>t. t_name t = callName tc) (tools ctx) of
               Some t \<Rightarrow> executionMode t = Some Sequential | None \<Rightarrow> False)
      in if toolExecution cfg = Some Sequential \<or> hasSequentialToolCall
         then executeToolCallsSequential cfg ctx am toolCalls
         else executeToolCallsParallel cfg ctx am toolCalls)"

end
