(* ===== verification/Agent_Loop.thy ===== *)
theory Agent_Loop
  imports Agent_Tools
begin

text \<open>
  The agent loop (\<open>packages/agent/src/agent-loop.ts\<close>): streaming a response, one turn, and the two
  nested loops that go on while there are tool calls, steering messages or follow-up messages. The
  nested loops are one step function on the state of the loop, iterated by \<open>runLoop\<close>, whose value
  is \<open>None\<close> when the loop never ends.
\<close>

section \<open>Streaming a response\<close>

definition push_message :: "agent_context \<Rightarrow> chat_message \<Rightarrow> agent_context" where
  "push_message ctx m = ctx\<lparr>messages := messages ctx @ [m]\<rparr>"

definition set_last_message :: "agent_context \<Rightarrow> chat_message \<Rightarrow> agent_context" where
  "set_last_message ctx m = ctx\<lparr>messages := butlast (messages ctx) @ [m]\<rparr>"

definition finish_stream ::
  "'w loop_config \<Rightarrow> ('w, assistant_message) io \<Rightarrow> agent_context \<Rightarrow> bool \<Rightarrow> ('w run, agent_context \<times> assistant_message) io" where
  "finish_stream cfg result ctx addedPartial =
     bind_io (external result) (\<lambda>final.
       if addedPartial
       then bind_io (emit cfg (Message_end (Assistant_msg final))) (\<lambda>_. pure_io (set_last_message ctx (Assistant_msg final), final))
       else bind_io (emit cfg (Message_start (Assistant_msg final))) (\<lambda>_.
            bind_io (emit cfg (Message_end (Assistant_msg final))) (\<lambda>_. pure_io (push_message ctx (Assistant_msg final), final))))"

fun stream_loop ::
  "'w loop_config \<Rightarrow> ('w, assistant_message) io \<Rightarrow> ('w, stream_event) io list \<Rightarrow> agent_context \<Rightarrow> bool
     \<Rightarrow> ('w run, agent_context \<times> assistant_message) io" where
  "stream_loop cfg result [] ctx addedPartial = finish_stream cfg result ctx addedPartial"
| "stream_loop cfg result (next_event # rest) ctx addedPartial =
     bind_io (external next_event) (\<lambda>event.
       case event of
         Stream_start partial \<Rightarrow>
           bind_io (emit cfg (Message_start (Assistant_msg partial))) (\<lambda>_.
             stream_loop cfg result rest (push_message ctx (Assistant_msg partial)) True)
       | Stream_delta partial \<Rightarrow>
           (if addedPartial
            then bind_io (emit cfg (Message_update (Assistant_msg partial))) (\<lambda>_.
              stream_loop cfg result rest (set_last_message ctx (Assistant_msg partial)) True)
            else stream_loop cfg result rest ctx addedPartial)
       | Stream_done \<Rightarrow> finish_stream cfg result ctx addedPartial)"

definition resolve_api_key :: "'w loop_config \<Rightarrow> ('w run, string option) io" where
  "resolve_api_key cfg =
     bind_io (case getApiKey cfg of None \<Rightarrow> pure_io None | Some f \<Rightarrow> external (f (model_provider (model cfg)))) (\<lambda>key.
       pure_io (case key of Some k \<Rightarrow> if k \<noteq> [] then Some k else apiKey cfg | None \<Rightarrow> apiKey cfg))"

definition streamAssistantResponse ::
  "'w loop_config \<Rightarrow> agent_context \<Rightarrow> ('w run, agent_context \<times> assistant_message) io" where
  "streamAssistantResponse cfg ctx =
     bind_io (case transformContext cfg of None \<Rightarrow> pure_io (messages ctx) | Some f \<Rightarrow> external (f (messages ctx))) (\<lambda>ms.
     bind_io (external (convertToLlm cfg ms)) (\<lambda>llmMessages.
     bind_io (resolve_api_key cfg) (\<lambda>key.
     bind_io (external (streamFn cfg (model cfg) (ctx\<lparr>messages := llmMessages\<rparr>) (reasoning cfg) key)) (\<lambda>response.
       stream_loop cfg (stream_result response) (stream_events response) ctx False))))"

section \<open>The loop\<close>

record 'w loop_state =
  currentContext :: agent_context
  newMessages :: "chat_message list"
  config :: "'w loop_config"
  firstTurn :: bool
  hasMoreToolCalls :: bool
  pendingMessages :: "chat_message list"

datatype 'w loop_next =
  Continue "'w loop_state"
  | Finished "chat_message list"

definition emit_message :: "'w loop_config \<Rightarrow> chat_message \<Rightarrow> ('w run, unit) io" where
  "emit_message cfg m = bind_io (emit cfg (Message_start m)) (\<lambda>_. emit cfg (Message_end m))"

definition poll :: "('w, chat_message list) io option \<Rightarrow> ('w run, chat_message list) io" where
  "poll queue = (case queue of None \<Rightarrow> pure_io [] | Some f \<Rightarrow> external f)"

definition end_run :: "'w loop_config \<Rightarrow> chat_message list \<Rightarrow> ('w run, 'w loop_next) io" where
  "end_run cfg new = bind_io (emit cfg (Agent_end new)) (\<lambda>_. pure_io (Finished new))"

definition apply_turn_update :: "turn_update option \<Rightarrow> agent_context \<Rightarrow> 'w loop_config \<Rightarrow> agent_context \<times> 'w loop_config" where
  "apply_turn_update u ctx cfg =
     (case u of
        None \<Rightarrow> (ctx, cfg)
      | Some u \<Rightarrow>
          (case u_context u of Some c \<Rightarrow> c | None \<Rightarrow> ctx,
           cfg\<lparr>model := (case u_model u of Some m \<Rightarrow> m | None \<Rightarrow> model cfg),
               reasoning := (case u_thinkingLevel u of
                 None \<Rightarrow> reasoning cfg
               | Some t \<Rightarrow> if t = ''off'' then None else Some t)\<rparr>))"

text \<open>What follows \<open>turn_end\<close>: the next turn is prepared, the loop may be asked to stop, and the
  steering messages for the next turn are fetched.\<close>

definition after_turn ::
  "'w loop_config \<Rightarrow> agent_context \<Rightarrow> chat_message list \<Rightarrow> assistant_message \<Rightarrow> tool_result_message list \<Rightarrow> bool
     \<Rightarrow> ('w run, 'w loop_next) io" where
  "after_turn cfg ctx new message toolResults goOn =
     bind_io (case prepareNextTurn cfg of None \<Rightarrow> pure_io None | Some f \<Rightarrow> external (f message toolResults ctx new)) (\<lambda>update.
       case apply_turn_update update ctx cfg of (ctx', cfg') \<Rightarrow>
     bind_io (case shouldStopAfterTurn cfg' of None \<Rightarrow> pure_io False | Some f \<Rightarrow> external (f message toolResults ctx' new)) (\<lambda>stop.
       if stop then end_run cfg' new
       else bind_io (poll (getSteeringMessages cfg')) (\<lambda>pending.
         pure_io (Continue
           \<lparr>currentContext = ctx', newMessages = new, config = cfg', firstTurn = False, hasMoreToolCalls = goOn,
             pendingMessages = pending\<rparr>))))"

definition run_tools ::
  "'w loop_config \<Rightarrow> agent_context \<Rightarrow> assistant_message \<Rightarrow> ('w run, tool_result_message list \<times> bool) io" where
  "run_tools cfg ctx message =
     (if toolCalls_of message = [] then pure_io ([], False)
      else bind_io (executeToolCalls cfg ctx message) (\<lambda>(results, terminate). pure_io (results, \<not> terminate)))"

definition loop_turn :: "'w loop_state \<Rightarrow> ('w run, 'w loop_next) io" where
  "loop_turn ls =
     (let cfg = config ls; pending = pendingMessages ls in
      bind_io (if firstTurn ls then pure_io () else emit cfg Turn_start) (\<lambda>_.
      bind_io (each_io (emit_message cfg) pending) (\<lambda>_.
      bind_io (streamAssistantResponse cfg ((currentContext ls)\<lparr>messages := messages (currentContext ls) @ pending\<rparr>)) (\<lambda>(ctx, message).
        let new = newMessages ls @ pending @ [Assistant_msg message] in
        if stopReason message = Error_stop \<or> stopReason message = Aborted_stop
        then bind_io (emit cfg (Turn_end message [])) (\<lambda>_. end_run cfg new)
        else
          bind_io (run_tools cfg ctx message) (\<lambda>(toolResults, goOn).
          bind_io (emit cfg (Turn_end message toolResults)) (\<lambda>_.
            after_turn cfg (ctx\<lparr>messages := messages ctx @ map Result_msg toolResults\<rparr>) (new @ map Result_msg toolResults)
              message toolResults goOn))))))"

definition loop_step :: "'w loop_state \<Rightarrow> ('w run, 'w loop_next) io" where
  "loop_step ls =
     (if hasMoreToolCalls ls \<or> pendingMessages ls \<noteq> [] then loop_turn ls
      else bind_io (poll (getFollowUpMessages (config ls))) (\<lambda>followUps.
        if followUps \<noteq> [] then pure_io (Continue (ls\<lparr>hasMoreToolCalls := True, pendingMessages := followUps\<rparr>))
        else end_run (config ls) (newMessages ls)))"

partial_function (option) runLoop ::
  "'w loop_state \<Rightarrow> 'w run \<Rightarrow> ((string + chat_message list) \<times> 'w run) option" where
  "runLoop ls s =
     (case loop_step ls s of
        (Inl e, s') \<Rightarrow> Some (Inl e, s')
      | (Inr (Finished ms), s') \<Rightarrow> Some (Inr ms, s')
      | (Inr (Continue ls'), s') \<Rightarrow> runLoop ls' s')"

declare runLoop.simps [code]

text \<open>A run that returns is a sequence of steps.\<close>

lemma runLoop_induct [consumes 1, case_names Failed Returned Continued]:
  assumes "runLoop ls s = Some (r, s')"
    and failed: "\<And>ls s e s'. loop_step ls s = (Inl e, s') \<Longrightarrow> P ls s (Inl e) s'"
    and returned: "\<And>ls s ms s'. loop_step ls s = (Inr (Finished ms), s') \<Longrightarrow> P ls s (Inr ms) s'"
    and continued: "\<And>ls s ls1 s1 r s'. loop_step ls s = (Inr (Continue ls1), s1) \<Longrightarrow> P ls1 s1 r s' \<Longrightarrow> P ls s r s'"
  shows "P ls s r s'"
proof -
  define Q where "Q = (\<lambda>(ls :: 'a loop_state) (s :: 'a run) (rs :: (string + chat_message list) \<times> 'a run). P ls s (fst rs) (snd rs))"
  have "Q ls s (r, s')"
  proof (rule runLoop.raw_induct [OF _ assms(1), where P = Q])
    fix f and ls :: "'a loop_state" and s :: "'a run" and rs
    assume IH: "\<And>ls s rs. f ls s = Some rs \<Longrightarrow> Q ls s rs"
      and eq: "(case loop_step ls s of (Inl e, s') \<Rightarrow> Some (Inl e, s')
         | (Inr (Continue ls'), s') \<Rightarrow> f ls' s' | (Inr (Finished ms), s') \<Rightarrow> Some (Inr ms, s')) = Some rs"
    obtain r1 s1 where step: "loop_step ls s = (r1, s1)" by fastforce
    show "Q ls s rs"
    proof (cases r1)
      case (Inl e)
      with eq step failed show ?thesis by (auto simp: Q_def)
    next
      case (Inr n)
      then show ?thesis using eq step IH returned continued by (cases n) (auto simp: Q_def)
    qed
  qed
  then show ?thesis by (simp add: Q_def)
qed

text \<open>The state the loop starts in, with the steering messages typed while it was waiting.\<close>

definition start_loop :: "'w loop_config \<Rightarrow> agent_context \<Rightarrow> chat_message list \<Rightarrow> ('w run, 'w loop_state) io" where
  "start_loop cfg ctx new =
     bind_io (poll (getSteeringMessages cfg)) (\<lambda>pending.
       pure_io \<lparr>currentContext = ctx, newMessages = new, config = cfg, firstTurn = True, hasMoreToolCalls = True,
         pendingMessages = pending\<rparr>)"

definition begin_run :: "chat_message list \<Rightarrow> agent_context \<Rightarrow> 'w loop_config \<Rightarrow> ('w run, 'w loop_state) io" where
  "begin_run prompts ctx cfg =
     bind_io (emit cfg Agent_start) (\<lambda>_.
     bind_io (emit cfg Turn_start) (\<lambda>_.
     bind_io (each_io (emit_message cfg) prompts) (\<lambda>_.
       start_loop cfg (ctx\<lparr>messages := messages ctx @ prompts\<rparr>) prompts)))"

definition run_from :: "('w run, 'w loop_state) io \<Rightarrow> 'w run \<Rightarrow> ((string + chat_message list) \<times> 'w run) option" where
  "run_from m s = (case m s of (Inl e, s') \<Rightarrow> Some (Inl e, s') | (Inr ls, s') \<Rightarrow> runLoop ls s')"

definition runAgentLoop ::
  "chat_message list \<Rightarrow> agent_context \<Rightarrow> 'w loop_config \<Rightarrow> 'w run \<Rightarrow> ((string + chat_message list) \<times> 'w run) option" where
  "runAgentLoop prompts ctx cfg = run_from (begin_run prompts ctx cfg)"

definition is_assistant :: "chat_message \<Rightarrow> bool" where
  "is_assistant m = (case m of Assistant_msg _ \<Rightarrow> True | _ \<Rightarrow> False)"

definition runAgentLoopContinue ::
  "agent_context \<Rightarrow> 'w loop_config \<Rightarrow> 'w run \<Rightarrow> ((string + chat_message list) \<times> 'w run) option" where
  "runAgentLoopContinue ctx cfg s =
     (if messages ctx = [] then Some (Inl ''Cannot continue: no messages in context'', s)
      else if is_assistant (last (messages ctx)) then Some (Inl ''Cannot continue from message role: assistant'', s)
      else run_from (begin_run [] ctx cfg) s)"

end
