(* ===== verification/Agent_Protocol.thy ===== *)
theory Agent_Protocol
  imports Agent_Loop
begin

text \<open>
  The events a run of the agent loop emits. Listeners (the interface, the session, \<open>Agent\<close> itself)
  rely on an order of events that the loop promises: \<open>observe\<close> is that order as an automaton, and
  every operation of the loop is shown to move it. An automaton state also holds the messages that
  have ended, so that acceptance says that \<open>turn_end\<close> and \<open>agent_end\<close> carry the right messages.
\<close>

section \<open>The protocol\<close>

datatype protocol_phase = Idle | Between_turns | In_turn | Ended

record protocol =
  p_phase :: protocol_phase
  p_turn :: "chat_message list"
  p_open :: bool
  p_running :: "string list"
  p_all :: "chat_message list"

definition protocol_start :: protocol where
  "protocol_start = \<lparr>p_phase = Idle, p_turn = [], p_open = False, p_running = [], p_all = []\<rparr>"

text \<open>A turn is complete when its messages are the injected ones, the response, and the results of a
  prefix of the response's tool calls.\<close>

definition turn_complete :: "chat_message list \<Rightarrow> assistant_message \<Rightarrow> tool_result_message list \<Rightarrow> bool" where
  "turn_complete ms m rs \<longleftrightarrow>
     drop (length ms - Suc (length rs)) ms = Assistant_msg m # map Result_msg rs
     \<and> map toolCallId rs = take (length rs) (map callId (toolCalls_of m))"

definition observe :: "protocol \<Rightarrow> agent_event \<Rightarrow> protocol option" where
  "observe p ev =
     (case ev of
        Agent_start \<Rightarrow> if p_phase p = Idle then Some (p\<lparr>p_phase := Between_turns\<rparr>) else None
      | Turn_start \<Rightarrow> if p_phase p = Between_turns then Some (p\<lparr>p_phase := In_turn, p_turn := []\<rparr>) else None
      | Message_start m \<Rightarrow>
          if p_phase p = In_turn \<and> \<not> p_open p \<and> p_running p = [] then Some (p\<lparr>p_open := True\<rparr>) else None
      | Message_update m \<Rightarrow> if p_phase p = In_turn \<and> p_open p then Some p else None
      | Message_end m \<Rightarrow>
          if p_phase p = In_turn \<and> p_open p
          then Some (p\<lparr>p_open := False, p_turn := p_turn p @ [m], p_all := p_all p @ [m]\<rparr>) else None
      | Tool_execution_start i n a \<Rightarrow>
          if p_phase p = In_turn \<and> \<not> p_open p then Some (p\<lparr>p_running := p_running p @ [i]\<rparr>) else None
      | Tool_execution_update i n a r \<Rightarrow>
          if p_phase p = In_turn \<and> \<not> p_open p \<and> i \<in> set (p_running p) then Some p else None
      | Tool_execution_end i n r e \<Rightarrow>
          if p_phase p = In_turn \<and> \<not> p_open p \<and> i \<in> set (p_running p)
          then Some (p\<lparr>p_running := remove1 i (p_running p)\<rparr>) else None
      | Turn_end m rs \<Rightarrow>
          if p_phase p = In_turn \<and> \<not> p_open p \<and> p_running p = [] \<and> turn_complete (p_turn p) m rs
          then Some (p\<lparr>p_phase := Between_turns\<rparr>) else None
      | Agent_end ms \<Rightarrow>
          if p_phase p = Between_turns \<and> ms = p_all p then Some (p\<lparr>p_phase := Ended\<rparr>) else None)"

fun accept :: "protocol \<Rightarrow> agent_event list \<Rightarrow> protocol option" where
  "accept p [] = Some p"
| "accept p (ev # evs) = (case observe p ev of None \<Rightarrow> None | Some q \<Rightarrow> accept q evs)"

definition follows :: "agent_event list \<Rightarrow> protocol \<Rightarrow> bool" where
  "follows evs p \<longleftrightarrow> accept protocol_start evs = Some p"

lemma accept_append: "accept p (xs @ ys) = (case accept p xs of None \<Rightarrow> None | Some q \<Rightarrow> accept q ys)"
  by (induction p xs rule: accept.induct) (auto split: option.splits)

lemma follows_snoc: "follows evs p \<Longrightarrow> observe p ev = Some q \<Longrightarrow> follows (evs @ [ev]) q"
  by (simp add: follows_def accept_append)

section \<open>Rules\<close>

text \<open>\<open>moves p m Q\<close>: run from a state whose events led to \<open>p\<close>, the operation keeps the protocol, and
  when it returns \<open>x\<close> the events lead to some \<open>q\<close> with \<open>Q x q\<close>.\<close>

definition moves :: "protocol \<Rightarrow> ('w run, 'a) io \<Rightarrow> ('a \<Rightarrow> protocol \<Rightarrow> bool) \<Rightarrow> bool" where
  "moves p m Q \<longleftrightarrow>
     (\<forall>s. follows (trace s) p \<longrightarrow>
        (\<exists>q. follows (trace (snd (m s))) q \<and> (case fst (m s) of Inr x \<Rightarrow> Q x q | Inl _ \<Rightarrow> True)))"

named_theorems silent_intros \<open>operations that emit nothing\<close>

definition silent :: "('w run, 'a) io \<Rightarrow> bool" where
  "silent m \<longleftrightarrow> (\<forall>s. trace (snd (m s)) = trace s)"

lemma silent_pure [silent_intros]: "silent (pure_io x)"
  by (simp add: silent_def pure_io_def)

lemma silent_get [silent_intros]: "silent (get_io f)"
  by (simp add: silent_def get_io_def)

lemma silent_is_aborted [silent_intros]: "silent (is_aborted cfg)"
  unfolding is_aborted_def by (rule silent_get)

lemma silent_external [silent_intros]: "silent (external m)"
  by (simp add: silent_def external_def split: prod.splits)

lemma silent_bind [silent_intros]: "silent m \<Longrightarrow> (\<And>x. silent (f x)) \<Longrightarrow> silent (bind_io m f)"
  by (simp add: silent_def bind_io_def split: prod.splits sum.splits) (metis snd_conv)

lemma silent_catch [silent_intros]: "silent m \<Longrightarrow> (\<And>e. silent (h e)) \<Longrightarrow> silent (catch_io m h)"
  by (simp add: silent_def catch_io_def split: prod.splits sum.splits) (metis snd_conv)

lemma silent_option [silent_intros]:
  "silent a \<Longrightarrow> (\<And>y. silent (f y)) \<Longrightarrow> silent (case x of None \<Rightarrow> a | Some y \<Rightarrow> f y)"
  by (cases x) auto

lemma silent_if [silent_intros]: "silent a \<Longrightarrow> silent b \<Longrightarrow> silent (if c then a else b)"
  by simp

lemma silent_prod [silent_intros]: "(\<And>x y. silent (f x y)) \<Longrightarrow> silent (case z of (x, y) \<Rightarrow> f x y)"
  by (cases z) auto

lemma moves_silent:
  assumes "silent m" and "\<And>s x s'. m s = (Inr x, s') \<Longrightarrow> R x"
  shows "moves p m (\<lambda>x q. q = p \<and> R x)"
  unfolding moves_def
proof (intro allI impI exI conjI)
  fix s :: "'a run"
  assume "follows (trace s) p"
  then show "follows (trace (snd (m s))) p" using assms(1) by (simp add: silent_def)
  show "case fst (m s) of Inl x \<Rightarrow> True | Inr x \<Rightarrow> p = p \<and> R x"
    using assms(2) [of s] by (cases "m s") (auto split: sum.splits)
qed

lemma moves_silent': "silent m \<Longrightarrow> moves p m (\<lambda>x q. q = p)"
  using moves_silent [of m "\<lambda>_. True" p] by simp

lemma moves_pure: "Q x p \<Longrightarrow> moves p (pure_io x) Q"
  by (auto simp: moves_def pure_io_def)

lemma moves_bind:
  assumes "moves p m R" and "\<And>x q. R x q \<Longrightarrow> moves q (f x) Q"
  shows "moves p (bind_io m f) Q"
  unfolding moves_def
proof (intro allI impI)
  fix s :: "'a run"
  assume "follows (trace s) p"
  then obtain q where q: "follows (trace (snd (m s))) q" "case fst (m s) of Inr x \<Rightarrow> R x q | Inl _ \<Rightarrow> True"
    using assms(1) unfolding moves_def by blast
  obtain r s1 where m: "m s = (r, s1)" by (cases "m s")
  show "\<exists>q. follows (trace (snd (bind_io m f s))) q \<and> (case fst (bind_io m f s) of Inl x \<Rightarrow> True | Inr x \<Rightarrow> Q x q)"
  proof (cases r)
    case (Inl e)
    with q m show ?thesis by (auto simp: bind_io_def)
  next
    case (Inr x)
    with q m have "moves q (f x) Q" "follows (trace s1) q" using assms(2) by auto
    then show ?thesis using Inr m by (simp add: bind_io_def moves_def)
  qed
qed

lemma moves_conseq:
  assumes m: "moves p m R" and weaker: "\<And>x q. R x q \<Longrightarrow> Q x q"
  shows "moves p m Q"
  unfolding moves_def
proof (intro allI impI)
  fix s :: "'a run"
  assume "follows (trace s) p"
  with m obtain q where q: "follows (trace (snd (m s))) q" and R: "case fst (m s) of Inr x \<Rightarrow> R x q | Inl _ \<Rightarrow> True"
    unfolding moves_def by blast
  from R have "case fst (m s) of Inr x \<Rightarrow> Q x q | Inl _ \<Rightarrow> True" by (cases "fst (m s)") (simp_all add: weaker)
  with q show "\<exists>q. follows (trace (snd (m s))) q \<and> (case fst (m s) of Inr x \<Rightarrow> Q x q | Inl _ \<Rightarrow> True)" by blast
qed

lemma moves_emit:
  assumes "observe p ev = Some q" and "Q () q"
  shows "moves p (emit cfg ev) Q"
  unfolding moves_def
proof (intro allI impI exI conjI)
  fix s :: "'a run"
  assume "follows (trace s) p"
  then show "follows (trace (snd (emit cfg ev s))) q"
    using assms(1) by (simp add: emit_def external_def follows_snoc split: prod.splits)
  show "case fst (emit cfg ev s) of Inl x \<Rightarrow> True | Inr x \<Rightarrow> Q x q"
    using assms(2) by (auto split: sum.splits)
qed

lemma moves_emit_bind:
  assumes "observe p ev = Some q" and "moves q (f ()) Q"
  shows "moves p (bind_io (emit cfg ev) f) Q"
  by (rule moves_bind [where R = "\<lambda>_ q'. q' = q"]) (auto intro: moves_emit assms)

lemma moves_silent_bind:
  assumes "silent m" and "\<And>x. moves p (f x) Q"
  shows "moves p (bind_io m f) Q"
  by (rule moves_bind [OF moves_silent' [OF assms(1)]]) (simp add: assms(2))

section \<open>Tool calls keep the protocol\<close>

definition in_turn :: "protocol \<Rightarrow> bool" where
  "in_turn p \<longleftrightarrow> p_phase p = In_turn \<and> \<not> p_open p"

definition extend :: "protocol \<Rightarrow> chat_message list \<Rightarrow> protocol" where
  "extend p ms = p\<lparr>p_turn := p_turn p @ ms, p_all := p_all p @ ms\<rparr>"

lemma extend_simps [simp]:
  "p_phase (extend p ms) = p_phase p" "p_open (extend p ms) = p_open p" "p_running (extend p ms) = p_running p"
  "p_turn (extend p ms) = p_turn p @ ms" "p_all (extend p ms) = p_all p @ ms" "in_turn (extend p ms) = in_turn p"
  "extend (extend p ms) ms' = extend p (ms @ ms')" "extend p [] = p"
  by (simp_all add: extend_def in_turn_def)

lemma running_update_simps [simp]:
  "in_turn (p\<lparr>p_running := r\<rparr>) = in_turn p" "extend (p\<lparr>p_running := r\<rparr>) ms = (extend p ms)\<lparr>p_running := r\<rparr>"
  by (simp_all add: extend_def in_turn_def)

lemma moves_emit_message_bind:
  assumes "in_turn p" and "p_running p = []" and "moves (extend p [m]) (f ()) Q"
  shows "moves p (bind_io (emit cfg (Message_start m)) (\<lambda>_. bind_io (emit cfg (Message_end m)) f)) Q"
proof (rule moves_emit_bind)
  show "observe p (Message_start m) = Some (p\<lparr>p_open := True\<rparr>)" using assms by (simp add: observe_def in_turn_def)
  have "(p\<lparr>p_open := True, p_turn := p_turn p @ [m], p_all := p_all p @ [m], p_open := False\<rparr>) = extend p [m]"
    using assms(1) by (simp add: extend_def in_turn_def)
  then have "observe (p\<lparr>p_open := True\<rparr>) (Message_end m) = Some (extend p [m])"
    using assms(1) by (simp add: observe_def in_turn_def extend_def)
  then show "moves (p\<lparr>p_open := True\<rparr>) (bind_io (emit cfg (Message_end m)) f) Q"
    using assms(3) by (rule moves_emit_bind)
qed

lemma bind_pure_right: "bind_io m (\<lambda>u. pure_io ()) = m" for m :: "('s, unit) io"
  by (rule ext) (simp add: bind_io_def pure_io_def split: prod.splits sum.splits)

lemma moves_emit_message:
  assumes "in_turn p" and "p_running p = []"
  shows "moves p (bind_io (emit cfg (Message_start m)) (\<lambda>_. emit cfg (Message_end m))) (\<lambda>_ q. q = extend p [m])"
  using moves_emit_message_bind [OF assms, of m "\<lambda>_. pure_io ()" "\<lambda>_ q. q = extend p [m]" cfg]
  unfolding bind_pure_right by (simp add: moves_pure)

lemma silent_run_beforeToolCall [silent_intros]: "silent (run_beforeToolCall cfg ctx am call args)"
  unfolding run_beforeToolCall_def by (intro silent_intros)

lemma silent_prepareToolCall [silent_intros]: "silent (prepareToolCall cfg ctx am call)"
  unfolding prepareToolCall_def prepareToolCallArguments_def by (intro silent_intros)

lemma prepareToolCall_call:
  assumes "prepareToolCall cfg ctx am call s = (Inr (Prepared c tool args), s')"
  shows "c = call"
  using assms
  by (auto simp: prepareToolCall_def bind_io_def catch_io_def pure_io_def run_beforeToolCall_def is_aborted_def get_io_def
      operation_aborted_def split: option.splits prod.splits sum.splits if_splits)

lemma moves_prepareToolCall:
  "moves p (prepareToolCall cfg ctx am call) (\<lambda>x q. q = p \<and> (\<forall>c tool args. x = Prepared c tool args \<longrightarrow> c = call))"
  by (rule moves_silent) (auto intro: silent_intros dest: prepareToolCall_call)

lemma silent_finalize [silent_intros]: "silent (finalizeExecutedToolCall cfg ctx am call args executed)"
  unfolding finalizeExecutedToolCall_def by (intro silent_intros)

lemma finalize_call:
  "finalizeExecutedToolCall cfg ctx am call args executed s = (Inr f, s') \<Longrightarrow> f_call f = call"
  by (auto simp: finalizeExecutedToolCall_def bind_io_def pure_io_def split: prod.splits sum.splits)

lemma moves_finalize:
  "moves p (finalizeExecutedToolCall cfg ctx am call args executed) (\<lambda>f q. q = p \<and> f_call f = call)"
  by (rule moves_silent) (auto intro: silent_intros dest: finalize_call)

lemma silent_settle [silent_intros]: "silent (settle_execution ending failed)"
  by (simp add: silent_def settle_execution_def external_def split: prod.splits option.splits)

lemma emit_update_follows:
  assumes "follows (trace s) p" and "in_turn p" and "callId call \<in> set (p_running p)"
    and "emit_update cfg call u failed s = (failed', s')"
  shows "follows (trace s') p"
proof -
  have "observe p (Tool_execution_update (callId call) n a r) = Some p" for n a r
    using assms by (simp add: observe_def in_turn_def)
  then have "follows (trace s @ [Tool_execution_update (callId call) n a r]) p" for n a r
    using assms(1) by (rule follows_snoc [rotated])
  then show ?thesis using assms(4)
    by (auto simp: emit_update_def emit_def external_def split: prod.splits sum.splits)
qed

lemma moves_execute:
  assumes "in_turn p" and "callId call \<in> set (p_running p)"
  shows "moves p (executePreparedToolCall cfg call us ending failed) (\<lambda>_ q. q = p)"
proof -
  have "follows (trace s) p \<Longrightarrow> follows (trace (snd (executePreparedToolCall cfg call us ending failed s))) p" for s
  proof (induction us arbitrary: failed s)
    case Nil
    then show ?case using silent_settle [of ending failed] by (simp add: silent_def)
  next
    case (Cons u us)
    then show ?case using emit_update_follows [OF Cons.prems assms] by (auto split: prod.splits)
  qed
  then show ?thesis by (auto simp: moves_def split: sum.splits)
qed

lemma moves_tool_end:
  assumes "in_turn p" and "callId (f_call f) \<in> set (p_running p)"
  shows "moves p (emitToolExecutionEnd cfg f) (\<lambda>_ q. q = p\<lparr>p_running := remove1 (callId (f_call f)) (p_running p)\<rparr>)"
  unfolding emitToolExecutionEnd_def using assms by (intro moves_emit) (simp_all add: observe_def in_turn_def)

lemma moves_tool_start_bind:
  assumes "in_turn p" and "moves (p\<lparr>p_running := p_running p @ [callId call]\<rparr>) (f ()) Q"
  shows "moves p (bind_io (emit_tool_start cfg call) f) Q"
  unfolding emit_tool_start_def using assms by (intro moves_emit_bind) (simp_all add: observe_def in_turn_def)

lemma moves_result_message:
  assumes "in_turn p" and "p_running p = []"
  shows "moves p (result_message cfg f) (\<lambda>m q. q = extend p [Result_msg m] \<and> toolCallId m = callId (f_call f))"
  unfolding result_message_def
proof (rule moves_bind)
  show "moves p (createToolResultMessage cfg f) (\<lambda>m q. q = p \<and> toolCallId m = callId (f_call f))"
    by (rule moves_silent) (auto simp: createToolResultMessage_def get_io_def silent_def)
  fix m :: tool_result_message and q
  assume m: "q = p \<and> toolCallId m = callId (f_call f)"
  show "moves q (bind_io (emitToolResultMessage cfg m) (\<lambda>_. pure_io m))
    (\<lambda>m q. q = extend p [Result_msg m] \<and> toolCallId m = callId (f_call f))"
    unfolding emitToolResultMessage_def
    by (rule moves_bind [OF moves_emit_message]) (use m assms in \<open>auto intro: moves_pure\<close>)
qed

lemma moves_finish_call:
  assumes "in_turn p" and "callId call \<in> set (p_running p)"
    and "\<forall>c tool args. preparation = Prepared c tool args \<longrightarrow> c = call"
  shows "moves p (finish_call cfg ctx am call preparation) (\<lambda>f q. q = p \<and> f_call f = call)"
proof (cases preparation)
  case (Immediate result isErr)
  then show ?thesis by (simp add: finish_call_def moves_pure)
next
  case (Prepared c tool args)
  with assms show ?thesis
    by (auto simp: finish_call_def Let_def intro!: moves_bind [OF moves_execute] intro: moves_finalize)
qed

lemma moves_run_call:
  assumes "in_turn p" and "p_running p = []"
  shows "moves p (run_call cfg ctx am call) (\<lambda>(f, m) q. q = extend p [Result_msg m] \<and> toolCallId m = callId call)"
  unfolding run_call_def
proof (rule moves_tool_start_bind [OF assms(1)], rule moves_bind [OF moves_prepareToolCall])
  let ?p = "p\<lparr>p_running := p_running p @ [callId call]\<rparr>"
  fix preparation q
  assume prep: "q = ?p \<and> (\<forall>c tool args. preparation = Prepared c tool args \<longrightarrow> c = call)"
  show "moves q (bind_io (finish_call cfg ctx am call preparation) (\<lambda>f. bind_io (emitToolExecutionEnd cfg f)
      (\<lambda>_. bind_io (result_message cfg f) (\<lambda>m. pure_io (f, m)))))
    (\<lambda>(f, m) q. q = extend p [Result_msg m] \<and> toolCallId m = callId call)"
  proof (rule moves_bind [OF moves_finish_call])
    show "in_turn q" "callId call \<in> set (p_running q)" using prep assms by simp_all
    show "\<forall>c tool args. preparation = Prepared c tool args \<longrightarrow> c = call" using prep by blast
    fix f :: finalized_call and q'
    assume f: "q' = q \<and> f_call f = call"
    have "q'\<lparr>p_running := remove1 (callId (f_call f)) (p_running q')\<rparr> = p" using f prep assms(2) by simp
    then show "moves q' (bind_io (emitToolExecutionEnd cfg f) (\<lambda>_. bind_io (result_message cfg f) (\<lambda>m. pure_io (f, m))))
      (\<lambda>(f, m) q. q = extend p [Result_msg m] \<and> toolCallId m = callId call)"
      using f prep assms
      by (auto intro!: moves_bind [OF moves_tool_end] moves_bind [OF moves_result_message] moves_pure)
  qed
qed

text \<open>What a batch promises: its results are messages of the turn, for the first calls in order.\<close>

definition results_for :: "protocol \<Rightarrow> tool_call list \<Rightarrow> tool_result_message list \<Rightarrow> protocol \<Rightarrow> bool" where
  "results_for p calls rs q \<longleftrightarrow>
     q = extend p (map Result_msg rs) \<and> map toolCallId rs = take (length rs) (map callId calls)"

lemma moves_sequential_loop:
  assumes "in_turn p" and "p_running p = []"
  shows "moves p (sequential_loop cfg ctx am calls) (\<lambda>fms q. results_for p calls (map snd fms) q)"
  using assms
proof (induction calls arbitrary: p)
  case Nil
  then show ?case by (simp add: results_for_def moves_pure)
next
  case (Cons call calls)
  have step: "moves q (bind_io (is_aborted cfg) (\<lambda>ab. if ab then pure_io [fm]
       else bind_io (sequential_loop cfg ctx am calls) (\<lambda>fms. pure_io (fm # fms))))
     (\<lambda>fms q. results_for p (call # calls) (map snd fms) q)"
    if fm: "q = extend p [Result_msg (snd fm)]" "toolCallId (snd fm) = callId call" for fm q
  proof (rule moves_silent_bind [OF silent_is_aborted])
    fix ab
    have "moves q (bind_io (sequential_loop cfg ctx am calls) (\<lambda>fms. pure_io (fm # fms)))
      (\<lambda>fms q. results_for p (call # calls) (map snd fms) q)"
      by (rule moves_bind [OF Cons.IH]) (use fm Cons.prems in \<open>auto simp: results_for_def intro!: moves_pure\<close>)
    then show "moves q (if ab then pure_io [fm] else bind_io (sequential_loop cfg ctx am calls) (\<lambda>fms. pure_io (fm # fms)))
      (\<lambda>fms q. results_for p (call # calls) (map snd fms) q)"
      using fm by (simp add: results_for_def moves_pure)
  qed
  show ?case unfolding sequential_loop.simps
    by (rule moves_bind [OF moves_run_call [OF Cons.prems]]) (use step in \<open>auto split: prod.splits\<close>)
qed

definition entry_call :: "'w batch_entry \<Rightarrow> tool_call" where
  "entry_call e = (case e of Ready f \<Rightarrow> f_call f | Pending c _ _ _ _ \<Rightarrow> c)"

definition pending_ids :: "'w batch_entry list \<Rightarrow> string list" where
  "pending_ids es = map (callId \<circ> entry_call) (filter is_pending es)"

lemma pending_ids_simps [simp]:
  "pending_ids [] = []"
  "pending_ids (Ready f # es) = pending_ids es"
  "pending_ids (Pending c a us ending failed # es) = callId c # pending_ids es"
  "entry_call (Ready f) = f_call f" "entry_call (Pending c a us ending failed) = c"
  "is_pending (Pending c a us ending failed)" "\<not> is_pending (Ready f)"
  by (simp_all add: pending_ids_def is_pending_def entry_call_def)

text \<open>The running tools of the protocol are the pending entries of the batch.\<close>

definition batch_state :: "protocol \<Rightarrow> 'w batch_entry list \<Rightarrow> protocol \<Rightarrow> bool" where
  "batch_state p es q \<longleftrightarrow> (\<exists>r. q = p\<lparr>p_running := r\<rparr> \<and> mset r = mset (p_running p) + mset (pending_ids es))"

lemma batch_stateI: "mset r = mset (p_running p) + mset (pending_ids es) \<Longrightarrow> batch_state p es (p\<lparr>p_running := r\<rparr>)"
  unfolding batch_state_def by blast

lemma batch_state_in_turn: "batch_state p es q \<Longrightarrow> in_turn q = in_turn p"
  by (auto simp: batch_state_def)

lemma moves_prepared_entry:
  assumes "in_turn p" and "callId call \<in> set (p_running p)"
    and "\<forall>c tool args. preparation = Prepared c tool args \<longrightarrow> c = call"
  shows "moves p (prepared_entry cfg call preparation)
    (\<lambda>e q. entry_call e = call \<and> q = (if is_pending e then p else p\<lparr>p_running := remove1 (callId call) (p_running p)\<rparr>))"
proof (cases preparation)
  case (Immediate result isErr)
  let ?f = "\<lparr>f_call = call, f_result = result, f_isError = isErr\<rparr>"
  have "moves p (bind_io (emitToolExecutionEnd cfg ?f) (\<lambda>_. pure_io (Ready ?f)))
    (\<lambda>e q. entry_call e = call \<and> q = (if is_pending e then p else p\<lparr>p_running := remove1 (callId call) (p_running p)\<rparr>))"
    by (rule moves_bind [OF moves_tool_end]) (use assms in \<open>auto intro: moves_pure\<close>)
  with Immediate show ?thesis by (simp add: prepared_entry_def Let_def)
next
  case (Prepared c tool args)
  with assms show ?thesis by (auto simp: prepared_entry_def Let_def intro: moves_pure)
qed

lemma moves_prepare_loop:
  assumes "in_turn p"
  shows "moves p (prepare_loop cfg ctx am calls)
    (\<lambda>es q. batch_state p es q \<and> map entry_call es = take (length es) calls)"
  using assms
proof (induction calls arbitrary: p)
  case Nil
  then show ?case by (auto simp: batch_state_def intro!: moves_pure exI [where x = "p_running p"])
next
  case (Cons call calls)
  let ?p = "p\<lparr>p_running := p_running p @ [callId call]\<rparr>"
  let ?Q = "\<lambda>es q. batch_state p es q \<and> map entry_call es = take (length es) (call # calls)"
  have rest: "moves q (bind_io (is_aborted cfg) (\<lambda>ab. if ab then pure_io [entry]
       else bind_io (prepare_loop cfg ctx am calls) (\<lambda>entries. pure_io (entry # entries)))) ?Q"
    if e: "entry_call entry = call" "q = (if is_pending entry then ?p else ?p\<lparr>p_running := remove1 (callId call) (p_running ?p)\<rparr>)"
    for entry q
  proof -
    have start: "batch_state p [entry] q"
      using e by (cases entry) (auto simp: batch_state_def)
    then have turn: "in_turn q" using Cons.prems by (simp add: batch_state_in_turn)
    have combine: "batch_state p (entry # es) q'" if "batch_state q es q'" for es q'
      using start that by (cases entry) (auto simp: batch_state_def)
    have "moves q (bind_io (prepare_loop cfg ctx am calls) (\<lambda>entries. pure_io (entry # entries))) ?Q"
      by (rule moves_bind [OF Cons.IH [OF turn]]) (use e combine in \<open>auto intro!: moves_pure\<close>)
    then show ?thesis using start e(1)
      by (intro moves_silent_bind silent_is_aborted) (simp add: moves_pure)
  qed
  show ?case unfolding prepare_loop.simps
  proof (rule moves_tool_start_bind [OF Cons.prems], rule moves_bind [OF moves_prepareToolCall])
    fix preparation q
    assume prep: "q = ?p \<and> (\<forall>c tool args. preparation = Prepared c tool args \<longrightarrow> c = call)"
    show "moves q (bind_io (prepared_entry cfg call preparation) (\<lambda>entry. bind_io (is_aborted cfg) (\<lambda>ab. if ab then pure_io [entry]
       else bind_io (prepare_loop cfg ctx am calls) (\<lambda>entries. pure_io (entry # entries))))) ?Q"
    proof (rule moves_bind [OF moves_prepared_entry])
      show "in_turn q" "callId call \<in> set (p_running q)" using prep Cons.prems by simp_all
      show "\<forall>c tool args. preparation = Prepared c tool args \<longrightarrow> c = call" using prep by blast
    next
      fix entry :: "'a batch_entry" and q'
      assume "entry_call entry = call
        \<and> q' = (if is_pending entry then q else q\<lparr>p_running := remove1 (callId call) (p_running q)\<rparr>)"
      then show "moves q' (bind_io (is_aborted cfg) (\<lambda>ab. if ab then pure_io [entry]
         else bind_io (prepare_loop cfg ctx am calls) (\<lambda>entries. pure_io (entry # entries)))) ?Q"
        using prep by (intro rest) simp_all
    qed
  qed
qed

lemma moves_entry_step:
  assumes "in_turn p" and "callId (entry_call e) \<in> set (p_running p)" and "is_pending e"
  shows "moves p (entry_step cfg ctx am e)
    (\<lambda>e' q. entry_call e' = entry_call e
       \<and> q = (if is_pending e' then p else p\<lparr>p_running := remove1 (callId (entry_call e)) (p_running p)\<rparr>))"
proof -
  obtain c args us ending failed where e: "e = Pending c args us ending failed"
    using assms(3) by (cases e) auto
  show ?thesis
  proof (cases us)
    case Nil
    have "moves p (bind_io (settle_execution ending failed) (\<lambda>executed.
          bind_io (finalizeExecutedToolCall cfg ctx am c args executed) (\<lambda>f.
          bind_io (emitToolExecutionEnd cfg f) (\<lambda>_. pure_io (Ready f)))))
      (\<lambda>e' q. entry_call e' = entry_call e
        \<and> q = (if is_pending e' then p else p\<lparr>p_running := remove1 (callId (entry_call e)) (p_running p)\<rparr>))"
      by (rule moves_silent_bind [OF silent_settle], rule moves_bind [OF moves_finalize], rule moves_bind [OF moves_tool_end])
         (use assms e in \<open>auto intro: moves_pure\<close>)
    then show ?thesis by (simp add: e Nil entry_step_def)
  next
    case (Cons u us')
    have "follows (trace s) p \<Longrightarrow> emit_update cfg c u failed s = (failed', s') \<Longrightarrow> follows (trace s') p" for s failed' s'
      using emit_update_follows [of s p c cfg u failed failed' s'] assms e by simp
    then show ?thesis
      by (auto simp: e Cons entry_step_def moves_def split: prod.splits)
  qed
qed

lemma mset_pending_ids_update:
  assumes "i < length es" and "is_pending (es ! i)" and "entry_call e = entry_call (es ! i)"
  shows "mset (pending_ids (es[i := e]))
    = (if is_pending e then mset (pending_ids es) else mset (pending_ids es) - {#callId (entry_call (es ! i))#})"
proof -
  have es: "es = take i es @ es ! i # drop (Suc i) es" using assms(1) by (simp add: id_take_nth_drop)
  have split: "mset (pending_ids es) = mset (pending_ids (take i es)) + {#callId (entry_call (es ! i))#}
      + mset (pending_ids (drop (Suc i) es))"
    by (subst es) (use assms(2) in \<open>simp add: pending_ids_def\<close>)
  show ?thesis unfolding split using assms
    by (simp add: upd_conv_take_nth_drop) (simp add: pending_ids_def)
qed

lemma moves_batch_step:
  assumes "batch_state p es q" and "in_turn p" and "p_running p = []" and "\<exists>e \<in> set es. is_pending e"
  shows "moves q (batch_step cfg ctx am es) (\<lambda>es' q'. batch_state p es' q' \<and> map entry_call es' = map entry_call es)"
  unfolding batch_step_def
proof (rule moves_bind)
  have "silent (pick_entry cfg es)" unfolding pick_entry_def Let_def by (rule silent_external)
  then show "moves q (pick_entry cfg es) (\<lambda>i q'. q' = q \<and> i < length es \<and> is_pending (es ! i))"
    by (rule moves_silent) (rule pick_entry_pending [OF _ assms(4)])
  fix i q'
  assume i: "q' = q \<and> i < length es \<and> is_pending (es ! i)"
  obtain r where r: "q = p\<lparr>p_running := r\<rparr>" "mset r = mset (pending_ids es)"
    using assms(1,3) by (auto simp: batch_state_def)
  have mem: "callId (entry_call (es ! i)) \<in># mset (pending_ids es)"
    using i by (auto simp: pending_ids_def intro!: image_eqI)
  then have "callId (entry_call (es ! i)) \<in> set (p_running q)" using r by (metis in_multiset_in_set protocol.ext_inject protocol.surjective protocol.update_convs(4) set_mset_mset)
  then have step: "moves q (entry_step cfg ctx am (es ! i)) (\<lambda>e' q'. entry_call e' = entry_call (es ! i)
       \<and> q' = (if is_pending e' then q else q\<lparr>p_running := remove1 (callId (entry_call (es ! i))) (p_running q)\<rparr>))"
    using i assms(2) r by (intro moves_entry_step) simp_all
  show "moves q' (bind_io (entry_step cfg ctx am (es ! i)) (\<lambda>e. pure_io (es[i := e])))
    (\<lambda>es' q'. batch_state p es' q' \<and> map entry_call es' = map entry_call es)"
  proof (rule moves_bind)
    show "moves q' (entry_step cfg ctx am (es ! i)) (\<lambda>e' q'. entry_call e' = entry_call (es ! i)
       \<and> q' = (if is_pending e' then q else q\<lparr>p_running := remove1 (callId (entry_call (es ! i))) (p_running q)\<rparr>))"
      using i step by simp
    fix e :: "'a batch_entry" and q''
    assume e: "entry_call e = entry_call (es ! i)
       \<and> q'' = (if is_pending e then q else q\<lparr>p_running := remove1 (callId (entry_call (es ! i))) (p_running q)\<rparr>)"
    have "batch_state p (es[i := e]) q''"
      using e r i mset_pending_ids_update [of i es e]
      by (cases "is_pending e") (auto intro!: batch_stateI simp: assms(3))
    moreover have "map entry_call (es[i := e]) = map entry_call es"
      using e i by (metis list_update_id map_update nth_map)
    ultimately show "moves q'' (pure_io (es[i := e])) (\<lambda>es' q'. batch_state p es' q' \<and> map entry_call es' = map entry_call es)"
      by (simp add: moves_pure)
  qed
qed

lemma finalized_calls_simps [simp]:
  "finalized_calls [] = []" "finalized_calls (Ready f # es) = f # finalized_calls es"
  by (simp_all add: finalized_calls_def map_filter_simps)

lemma all_ready:
  "\<not> (\<exists>e \<in> set es. is_pending e) \<Longrightarrow> map f_call (finalized_calls es) = map entry_call es \<and> pending_ids es = []"
proof (induction es)
  case (Cons e es)
  then show ?case by (cases e) auto
qed simp

lemma movesD:
  assumes "moves p m Q" and "follows (trace s) p" and "m s = (r, s')"
  shows "\<exists>q. follows (trace s') q \<and> (case r of Inr x \<Rightarrow> Q x q | Inl _ \<Rightarrow> True)"
proof -
  from assms(1,2) have "\<exists>q. follows (trace (snd (m s))) q \<and> (case fst (m s) of Inr x \<Rightarrow> Q x q | Inl _ \<Rightarrow> True)"
    unfolding moves_def by blast
  then show ?thesis by (simp only: assms(3) fst_conv snd_conv)
qed

lemma run_batch_follows:
  assumes p: "in_turn p" "p_running p = []"
  shows "batch_state p es q \<Longrightarrow> follows (trace s) q \<Longrightarrow>
      (\<exists>q'. follows (trace (snd (run_batch cfg ctx am es s))) q'
        \<and> (case fst (run_batch cfg ctx am es s) of Inr fs \<Rightarrow> q' = p \<and> map f_call fs = map entry_call es | Inl _ \<Rightarrow> True))"
proof (induction cfg ctx am es s arbitrary: q rule: run_batch.induct)
  case (1 cfg ctx am es s)
  show ?case
  proof (cases "\<exists>e \<in> set es. is_pending e")
    case False
    note ready = all_ready [OF False]
    obtain r where "q = p\<lparr>p_running := r\<rparr>" "mset r = {#}"
      using "1.prems"(1) conjunct2 [OF ready] p(2) unfolding batch_state_def by force
    then have "q = p" using p(2) by (simp add: protocol.equality)
    with "1.prems"(2) conjunct1 [OF ready] show ?thesis unfolding run_batch_done [OF False] by simp
  next
    case True
    obtain r s' where step: "batch_step cfg ctx am es s = (r, s')" by fastforce
    obtain q' where q': "follows (trace s') q'"
      "case r of Inr es' \<Rightarrow> batch_state p es' q' \<and> map entry_call es' = map entry_call es | Inl _ \<Rightarrow> True"
      using movesD [OF moves_batch_step [OF "1.prems"(1) p True] "1.prems"(2) step] by blast
    show ?thesis
    proof (cases r)
      case (Inl e)
      then show ?thesis using q' by (auto simp: run_batch_step [OF True] step)
    next
      case (Inr es')
      have run: "run_batch cfg ctx am es s = run_batch cfg ctx am es' s'"
        by (simp add: run_batch_step [OF True] step Inr)
      have es': "batch_state p es' q'" "map entry_call es' = map entry_call es" using q' Inr by simp_all
      from "1.IH" [of "Inr es'" s' es' q'] True step q'(1) es'(1) Inr
      show ?thesis unfolding run es'(2) by simp
    qed
  qed
qed

lemma moves_run_batch:
  "in_turn p \<Longrightarrow> p_running p = [] \<Longrightarrow> batch_state p es q \<Longrightarrow>
   moves q (run_batch cfg ctx am es) (\<lambda>fs q'. q' = p \<and> map f_call fs = map entry_call es)"
  unfolding moves_def using run_batch_follows by blast

lemma moves_result_messages:
  assumes "in_turn p" and "p_running p = []"
  shows "moves p (result_messages cfg fs)
    (\<lambda>rs q. q = extend p (map Result_msg rs) \<and> map toolCallId rs = map (callId \<circ> f_call) fs)"
  using assms
proof (induction fs arbitrary: p)
  case Nil
  then show ?case by (simp add: moves_pure)
next
  case (Cons f fs)
  show ?case unfolding result_messages.simps
  proof (rule moves_bind [OF moves_result_message [OF Cons.prems]])
    fix m :: tool_result_message and q
    assume m: "q = extend p [Result_msg m] \<and> toolCallId m = callId (f_call f)"
    show "moves q (bind_io (result_messages cfg fs) (\<lambda>ms. pure_io (m # ms)))
      (\<lambda>rs q. q = extend p (map Result_msg rs) \<and> map toolCallId rs = map (callId \<circ> f_call) (f # fs))"
      by (rule moves_bind [OF Cons.IH]) (use m Cons.prems in \<open>auto intro!: moves_pure\<close>)
  qed
qed

lemma moves_parallel:
  assumes "in_turn p" and "p_running p = []"
  shows "moves p (executeToolCallsParallel cfg ctx am calls) (\<lambda>(rs, _) q. results_for p calls rs q)"
  unfolding executeToolCallsParallel_def
proof (rule moves_bind [OF moves_prepare_loop [OF assms(1)]])
  fix es :: "'a batch_entry list" and q
  assume es: "batch_state p es q \<and> map entry_call es = take (length es) calls"
  show "moves q (bind_io (run_batch cfg ctx am es) (\<lambda>fs. bind_io (result_messages cfg fs)
      (\<lambda>ms. pure_io (ms, shouldTerminateToolBatch fs)))) (\<lambda>(rs, _) q. results_for p calls rs q)"
  proof (rule moves_bind [OF moves_run_batch [OF assms]])
    show "batch_state p es q" using es by simp
    fix fs :: "finalized_call list" and q'
    assume fs: "q' = p \<and> map f_call fs = map entry_call es"
    then have ids: "map (callId \<circ> f_call) fs = take (length fs) (map callId calls)"
      using es by (metis length_map list.map_comp take_map)
    show "moves q' (bind_io (result_messages cfg fs) (\<lambda>ms. pure_io (ms, shouldTerminateToolBatch fs)))
      (\<lambda>(rs, _) q. results_for p calls rs q)"
    proof (rule moves_bind [OF moves_result_messages])
      show "in_turn q'" "p_running q' = []" using fs assms by simp_all
      fix rs :: "tool_result_message list" and q''
      assume rs: "q'' = extend q' (map Result_msg rs) \<and> map toolCallId rs = map (callId \<circ> f_call) fs"
      then have "length rs = length fs" by (metis length_map)
      then show "moves q'' (pure_io (rs, shouldTerminateToolBatch fs)) (\<lambda>(rs, _) q. results_for p calls rs q)"
        using rs ids fs by (simp add: moves_pure results_for_def)
    qed
  qed
qed

lemma moves_sequential:
  assumes "in_turn p" and "p_running p = []"
  shows "moves p (executeToolCallsSequential cfg ctx am calls) (\<lambda>(rs, _) q. results_for p calls rs q)"
  unfolding executeToolCallsSequential_def
  by (rule moves_bind [OF moves_sequential_loop [OF assms]]) (simp add: moves_pure)

lemma moves_executeToolCalls:
  assumes "in_turn p" and "p_running p = []"
  shows "moves p (executeToolCalls cfg ctx am) (\<lambda>(rs, _) q. results_for p (toolCalls_of am) rs q)"
  unfolding executeToolCalls_def Let_def
  using moves_parallel [OF assms, of cfg ctx am "toolCalls_of am"] moves_sequential [OF assms, of cfg ctx am "toolCalls_of am"] by simp

lemma moves_run_tools:
  assumes "in_turn p" and "p_running p = []"
  shows "moves p (run_tools cfg ctx am) (\<lambda>(rs, _) q. results_for p (toolCalls_of am) rs q)"
proof (cases "toolCalls_of am = []")
  case True
  then show ?thesis by (simp add: run_tools_def moves_pure results_for_def)
next
  case False
  then show ?thesis unfolding run_tools_def
    by (auto intro!: moves_bind [OF moves_executeToolCalls [OF assms]] moves_pure split: prod.splits)
qed

section \<open>The loop keeps the protocol\<close>

text \<open>What the loop relies on a provider for: a stream announces its message once, before its other
  events.\<close>

definition starts_first :: "('w, stream_event) io list \<Rightarrow> bool" where
  "starts_first evs \<longleftrightarrow> (\<forall>ev \<in> set (tl evs). \<forall>v m v'. ev v \<noteq> (Inr (Stream_start m), v'))"

definition streams_start_once :: "'w loop_config \<Rightarrow> bool" where
  "streams_start_once cfg \<longleftrightarrow>
     (\<forall>m ctx r k w st w'. streamFn cfg m ctx r k w = (Inr st, w') \<longrightarrow> starts_first (stream_events st))"

lemma streams_start_onceD:
  "streams_start_once cfg \<Longrightarrow> streamFn cfg m ctx r k w = (Inr st, w') \<Longrightarrow> starts_first (stream_events st)"
  unfolding streams_start_once_def by blast

lemma moves_finish_stream:
  assumes "p_phase p = In_turn" and "p_running p = []" and "p_open p = added"
  shows "moves p (finish_stream cfg result ctx added) (\<lambda>(_, m) q. q = extend (p\<lparr>p_open := False\<rparr>) [Assistant_msg m])"
  unfolding finish_stream_def
proof (rule moves_silent_bind [OF silent_external])
  fix final
  show "moves p (if added
       then bind_io (emit cfg (Message_end (Assistant_msg final))) (\<lambda>_. pure_io (set_last_message ctx (Assistant_msg final), final))
       else bind_io (emit cfg (Message_start (Assistant_msg final))) (\<lambda>_.
            bind_io (emit cfg (Message_end (Assistant_msg final))) (\<lambda>_. pure_io (push_message ctx (Assistant_msg final), final))))
    (\<lambda>(_, m) q. q = extend (p\<lparr>p_open := False\<rparr>) [Assistant_msg m])"
  proof (cases added)
    case True
    have "observe p (Message_end (Assistant_msg final)) = Some (extend (p\<lparr>p_open := False\<rparr>) [Assistant_msg final])"
      using assms True by (simp add: observe_def extend_def)
    then show ?thesis using True by (auto intro!: moves_emit_bind moves_pure)
  next
    case False
    then have "in_turn p" "p\<lparr>p_open := False\<rparr> = p" using assms by (simp_all add: in_turn_def)
    then show ?thesis using False assms
      by (auto intro!: moves_emit_message_bind moves_pure)
  qed
qed

lemma moves_stream_loop:
  assumes "p_phase p = In_turn" and "p_running p = []" and "p_open p = added"
    and "starts_first evs" and "added \<Longrightarrow> \<forall>ev \<in> set evs. \<forall>v m v'. ev v \<noteq> (Inr (Stream_start m), v')"
  shows "moves p (stream_loop cfg result evs ctx added) (\<lambda>(_, m) q. q = extend (p\<lparr>p_open := False\<rparr>) [Assistant_msg m])"
  using assms
proof (induction evs arbitrary: p ctx added)
  case Nil
  then show ?case by (simp add: moves_finish_stream)
next
  case (Cons ev evs)
  have rest: "\<forall>ev \<in> set evs. \<forall>v m v'. ev v \<noteq> (Inr (Stream_start m), v')" using Cons.prems(4) by (simp add: starts_first_def)
  then have first: "starts_first evs" unfolding starts_first_def by (metis list.sel(2) list.set_sel(2))
  have kind: "moves p (external ev) (\<lambda>event q. q = p \<and> (added \<longrightarrow> (\<forall>m. event \<noteq> Stream_start m)))"
    by (rule moves_silent [OF silent_external]) (use Cons.prems(5) in \<open>fastforce simp: external_def split: prod.splits\<close>)
  show ?case unfolding stream_loop.simps
  proof (rule moves_bind [OF kind])
    fix event q
    assume e: "q = p \<and> (added \<longrightarrow> (\<forall>m. event \<noteq> Stream_start m))"
    show "moves q (case event of
         Stream_start partial \<Rightarrow>
           bind_io (emit cfg (Message_start (Assistant_msg partial))) (\<lambda>_.
             stream_loop cfg result evs (push_message ctx (Assistant_msg partial)) True)
       | Stream_delta partial \<Rightarrow>
           (if added
            then bind_io (emit cfg (Message_update (Assistant_msg partial))) (\<lambda>_.
              stream_loop cfg result evs (set_last_message ctx (Assistant_msg partial)) True)
            else stream_loop cfg result evs ctx added)
       | Stream_done \<Rightarrow> finish_stream cfg result ctx added)
       (\<lambda>(_, m) q. q = extend (p\<lparr>p_open := False\<rparr>) [Assistant_msg m])"
    proof (cases event)
      case (Stream_start partial)
      then have "\<not> added" using e by blast
      moreover have "moves (p\<lparr>p_open := True\<rparr>) (stream_loop cfg result evs (push_message ctx (Assistant_msg partial)) True)
        (\<lambda>(_, m) q. q = extend (p\<lparr>p_open := True\<rparr>\<lparr>p_open := False\<rparr>) [Assistant_msg m])"
        by (rule Cons.IH) (use Cons.prems rest first in simp_all)
      ultimately show ?thesis using Stream_start e Cons.prems
        by (auto intro!: moves_emit_bind simp: observe_def)
    next
      case (Stream_delta partial)
      have "moves p (stream_loop cfg result evs c added) (\<lambda>(_, m) q. q = extend (p\<lparr>p_open := False\<rparr>) [Assistant_msg m])" for c
        by (rule Cons.IH) (use Cons.prems rest first in simp_all)
      then show ?thesis using Stream_delta e Cons.prems(1-3)
        by (auto intro!: moves_emit_bind simp: observe_def)
    next
      case Stream_done
      then show ?thesis using e Cons.prems by (simp add: moves_finish_stream)
    qed
  qed
qed

lemma silent_resolve_api_key [silent_intros]: "silent (resolve_api_key cfg)"
  unfolding resolve_api_key_def by (intro silent_intros)

lemma moves_streamAssistantResponse:
  assumes "in_turn p" and "p_running p = []" and "streams_start_once cfg"
  shows "moves p (streamAssistantResponse cfg ctx) (\<lambda>(_, m) q. q = extend p [Assistant_msg m])"
  unfolding streamAssistantResponse_def
proof (rule moves_silent_bind, (intro silent_intros), rule moves_silent_bind [OF silent_external],
    rule moves_silent_bind [OF silent_resolve_api_key])
  fix ms llmMessages key
  have p: "p\<lparr>p_open := False\<rparr> = p" using assms(1) by (simp add: in_turn_def)
  show "moves p (bind_io (external (streamFn cfg (model cfg) (ctx\<lparr>messages := llmMessages\<rparr>) (reasoning cfg) key))
      (\<lambda>response. stream_loop cfg (stream_result response) (stream_events response) ctx False))
      (\<lambda>(_, m) q. q = extend p [Assistant_msg m])"
  proof (rule moves_bind)
    show "moves p (external (streamFn cfg (model cfg) (ctx\<lparr>messages := llmMessages\<rparr>) (reasoning cfg) key))
      (\<lambda>response q. q = p \<and> starts_first (stream_events response))"
      by (rule moves_silent [OF silent_external])
         (use streams_start_onceD [OF assms(3)] in \<open>auto simp: external_def split: prod.splits\<close>)
    fix response :: "'a response_stream" and q
    assume "q = p \<and> starts_first (stream_events response)"
    then show "moves q (stream_loop cfg (stream_result response) (stream_events response) ctx False)
      (\<lambda>(_, m) q. q = extend p [Assistant_msg m])"
      using moves_stream_loop [of p False "stream_events response" cfg "stream_result response" ctx] assms
      by (simp add: p in_turn_def)
  qed
qed

lemma moves_each_message:
  assumes "in_turn p" and "p_running p = []"
  shows "moves p (each_io (emit_message cfg) ms) (\<lambda>_ q. q = extend p ms)"
  using assms
proof (induction ms arbitrary: p)
  case Nil
  then show ?case by (simp add: moves_pure)
next
  case (Cons m ms)
  have "moves (extend p [m]) (each_io (emit_message cfg) ms) (\<lambda>_ q. q = extend p (m # ms))"
    using Cons.IH [of "extend p [m]"] Cons.prems by simp
  then show ?case unfolding each_io.simps emit_message_def
    by (auto intro!: moves_bind [OF moves_emit_message [OF Cons.prems]])
qed

text \<open>The invariant of the loop: every message that has ended is a new message of the run, nothing is
  open, and the loop is between turns, or in the first turn, which the caller has begun.\<close>

definition loop_inv :: "'w loop_state \<Rightarrow> protocol \<Rightarrow> bool" where
  "loop_inv ls p \<longleftrightarrow> p_all p = newMessages ls \<and> \<not> p_open p \<and> p_running p = [] \<and> streams_start_once (config ls)
     \<and> (if firstTurn ls then p_phase p = In_turn \<and> hasMoreToolCalls ls else p_phase p = Between_turns)"

fun next_inv :: "'w loop_next \<Rightarrow> protocol \<Rightarrow> bool" where
  "next_inv (Continue ls) p = loop_inv ls p"
| "next_inv (Finished ms) p = (p_phase p = Ended \<and> p_all p = ms)"

definition between :: "protocol \<Rightarrow> chat_message list \<Rightarrow> bool" where
  "between p new \<longleftrightarrow> p_phase p = Between_turns \<and> \<not> p_open p \<and> p_running p = [] \<and> p_all p = new"

lemma moves_end_run: "between p new \<Longrightarrow> moves p (end_run cfg new) next_inv"
  unfolding end_run_def by (rule moves_emit_bind) (auto simp: observe_def between_def intro: moves_pure)

lemma silent_poll [silent_intros]: "silent (poll queue)"
  unfolding poll_def by (intro silent_intros)

lemma apply_turn_update_streams:
  assumes "apply_turn_update u ctx cfg = (ctx', cfg')"
  shows "streams_start_once cfg' = streams_start_once cfg"
proof -
  have "streamFn cfg' = streamFn cfg" using assms by (auto simp: apply_turn_update_def split: option.splits)
  then show ?thesis by (simp only: streams_start_once_def)
qed

lemma moves_after_turn:
  assumes "between p new" and "streams_start_once cfg"
  shows "moves p (after_turn cfg ctx new message toolResults goOn) next_inv"
  unfolding after_turn_def
proof (rule moves_silent_bind, (intro silent_intros))
  fix update
  obtain ctx' cfg' where u: "apply_turn_update update ctx cfg = (ctx', cfg')" by fastforce
  have s: "streams_start_once cfg'" using apply_turn_update_streams [OF u] assms(2) by simp
  have "moves p (if stop then end_run cfg' new
       else bind_io (poll (getSteeringMessages cfg')) (\<lambda>pending.
         pure_io (Continue
           \<lparr>currentContext = ctx', newMessages = new, config = cfg', firstTurn = False, hasMoreToolCalls = goOn,
             pendingMessages = pending\<rparr>))) next_inv" for stop
    using assms(1) s
    by (auto intro!: moves_end_run moves_silent_bind [OF silent_poll] moves_pure simp: loop_inv_def between_def)
  then show "moves p (case apply_turn_update update ctx cfg of (ctx', cfg') \<Rightarrow>
     bind_io (case shouldStopAfterTurn cfg' of None \<Rightarrow> pure_io False | Some f \<Rightarrow> external (f message toolResults ctx' new)) (\<lambda>stop.
       if stop then end_run cfg' new
       else bind_io (poll (getSteeringMessages cfg')) (\<lambda>pending.
         pure_io (Continue
           \<lparr>currentContext = ctx', newMessages = new, config = cfg', firstTurn = False, hasMoreToolCalls = goOn,
             pendingMessages = pending\<rparr>)))) next_inv"
    unfolding u prod.case by (intro moves_silent_bind silent_intros)
qed

lemma turn_complete_suffix:
  "map toolCallId rs = take (length rs) (map callId (toolCalls_of m)) \<Longrightarrow>
   turn_complete (ms @ Assistant_msg m # map Result_msg rs) m rs"
  by (simp add: turn_complete_def)

lemma moves_turn_end_bind:
  assumes "in_turn p" and "p_running p = []" and "turn_complete (p_turn p) m rs"
    and "moves (p\<lparr>p_phase := Between_turns\<rparr>) (f ()) Q"
  shows "moves p (bind_io (emit cfg (Turn_end m rs)) f) Q"
  using assms by (intro moves_emit_bind) (auto simp: observe_def in_turn_def)

text \<open>From the response on, the messages of the turn so far are \<open>ms\<close> and the response.\<close>

lemma moves_after_response:
  assumes p: "in_turn p" "p_running p = []" "p_turn p = ms @ [Assistant_msg message]" "p_all p = new"
    and cfg: "streams_start_once cfg"
  shows "moves p
    (if stopReason message = Error_stop \<or> stopReason message = Aborted_stop
     then bind_io (emit cfg (Turn_end message [])) (\<lambda>_. end_run cfg new)
     else
       bind_io (run_tools cfg ctx message) (\<lambda>(toolResults, goOn).
       bind_io (emit cfg (Turn_end message toolResults)) (\<lambda>_.
         after_turn cfg (ctx\<lparr>messages := messages ctx @ map Result_msg toolResults\<rparr>) (new @ map Result_msg toolResults)
           message toolResults goOn))) next_inv"
proof (cases "stopReason message = Error_stop \<or> stopReason message = Aborted_stop")
  case True
  have "moves p (bind_io (emit cfg (Turn_end message [])) (\<lambda>_. end_run cfg new)) next_inv"
    using p turn_complete_suffix [of "[]" message ms]
    by (intro moves_turn_end_bind moves_end_run) (simp_all add: between_def in_turn_def)
  then show ?thesis unfolding if_P [OF True] .
next
  case False
  have "moves p (bind_io (run_tools cfg ctx message) (\<lambda>(toolResults, goOn).
       bind_io (emit cfg (Turn_end message toolResults)) (\<lambda>_.
         after_turn cfg (ctx\<lparr>messages := messages ctx @ map Result_msg toolResults\<rparr>) (new @ map Result_msg toolResults)
           message toolResults goOn))) next_inv"
  proof (rule moves_bind [OF moves_run_tools [OF p(1,2)]])
    fix rg :: "tool_result_message list \<times> bool" and q
    assume "(case rg of (rs, _) \<Rightarrow> \<lambda>q. results_for p (toolCalls_of message) rs q) q"
    then obtain rs goOn where rg: "rg = (rs, goOn)" and q: "q = extend p (map Result_msg rs)"
      and ids: "map toolCallId rs = take (length rs) (map callId (toolCalls_of message))"
      by (auto simp: results_for_def split: prod.splits)
    show "moves q (case rg of (toolResults, goOn) \<Rightarrow>
       bind_io (emit cfg (Turn_end message toolResults)) (\<lambda>_.
         after_turn cfg (ctx\<lparr>messages := messages ctx @ map Result_msg toolResults\<rparr>) (new @ map Result_msg toolResults)
           message toolResults goOn)) next_inv"
      using p q cfg turn_complete_suffix [OF ids, of ms]
      by (auto simp: rg between_def in_turn_def intro!: moves_turn_end_bind moves_after_turn)
  qed
  then show ?thesis unfolding if_not_P [OF False] .
qed

lemma moves_turn_start:
  assumes "loop_inv ls p"
  shows "moves p (if firstTurn ls then pure_io () else emit (config ls) Turn_start)
    (\<lambda>_ q. in_turn q \<and> p_running q = [] \<and> p_all q = newMessages ls)"
  using assms by (auto simp: loop_inv_def in_turn_def observe_def intro!: moves_pure moves_emit)

lemma moves_loop_turn:
  assumes "loop_inv ls p"
  shows "moves p (loop_turn ls) next_inv"
  unfolding loop_turn_def Let_def
proof (rule moves_bind [OF moves_turn_start [OF assms]])
  have cfg: "streams_start_once (config ls)" using assms by (simp add: loop_inv_def)
  fix u and q :: protocol
  assume q: "in_turn q \<and> p_running q = [] \<and> p_all q = newMessages ls"
  let ?pending = "pendingMessages ls"
  let ?ctx = "(currentContext ls)\<lparr>messages := messages (currentContext ls) @ ?pending\<rparr>"
  let ?rest = "\<lambda>(ctx, message).
        if stopReason message = Error_stop \<or> stopReason message = Aborted_stop
        then bind_io (emit (config ls) (Turn_end message [])) (\<lambda>_. end_run (config ls) (newMessages ls @ ?pending @ [Assistant_msg message]))
        else
          bind_io (run_tools (config ls) ctx message) (\<lambda>(toolResults, goOn).
          bind_io (emit (config ls) (Turn_end message toolResults)) (\<lambda>_.
            after_turn (config ls) (ctx\<lparr>messages := messages ctx @ map Result_msg toolResults\<rparr>)
              ((newMessages ls @ ?pending @ [Assistant_msg message]) @ map Result_msg toolResults) message toolResults goOn))"
  show "moves q (bind_io (each_io (emit_message (config ls)) ?pending) (\<lambda>_.
      bind_io (streamAssistantResponse (config ls) ?ctx) ?rest)) next_inv"
  proof (rule moves_bind [OF moves_each_message])
    show "in_turn q" "p_running q = []" using q by simp_all
    fix v q'
    assume q': "q' = extend q ?pending"
    show "moves q' (bind_io (streamAssistantResponse (config ls) ?ctx) ?rest) next_inv"
    proof (rule moves_bind [OF moves_streamAssistantResponse])
      show "in_turn q'" "p_running q' = []" "streams_start_once (config ls)" using q q' cfg by simp_all
      fix cm :: "agent_context \<times> assistant_message" and q''
      assume "(case cm of (_, m) \<Rightarrow> \<lambda>q. q = extend q' [Assistant_msg m]) q''"
      then obtain ctx message where cm: "cm = (ctx, message)" and q'': "q'' = extend q' [Assistant_msg message]"
        by (auto split: prod.splits)
      have "moves q'' (?rest (ctx, message)) next_inv"
        unfolding prod.case
        by (rule moves_after_response [where ms = "p_turn q @ ?pending"]) (use q q' q'' cfg in simp_all)
      then show "moves q'' (?rest cm) next_inv" by (simp only: cm)
    qed
  qed
qed

lemma moves_loop_step:
  assumes "loop_inv ls p"
  shows "moves p (loop_step ls) next_inv"
proof (cases "hasMoreToolCalls ls \<or> pendingMessages ls \<noteq> []")
  case True
  then show ?thesis using moves_loop_turn [OF assms] by (simp add: loop_step_def)
next
  case False
  then have inv: "between p (newMessages ls)" using assms by (auto simp: loop_inv_def between_def split: if_splits)
  have "moves p (if followUps \<noteq> [] then pure_io (Continue (ls\<lparr>hasMoreToolCalls := True, pendingMessages := followUps\<rparr>))
        else end_run (config ls) (newMessages ls)) next_inv" for followUps
    using inv assms False by (auto intro!: moves_pure moves_end_run simp: loop_inv_def split: if_splits)
  then show ?thesis using False unfolding loop_step_def by (auto intro!: moves_silent_bind [OF silent_poll])
qed

section \<open>Runs\<close>

text \<open>The states the loop passes through, also those of a run that never ends.\<close>

inductive reaches :: "('w run, 'w loop_state) io \<Rightarrow> 'w run \<Rightarrow> 'w loop_state \<Rightarrow> 'w run \<Rightarrow> bool"
  for starting s0 where
  Begin: "starting s0 = (Inr ls, s) \<Longrightarrow> reaches starting s0 ls s"
| Turn: "reaches starting s0 ls s \<Longrightarrow> loop_step ls s = (Inr (Continue ls'), s') \<Longrightarrow> reaches starting s0 ls' s'"

lemma reaches_inv:
  assumes "reaches starting s0 ls s" and "moves p0 starting loop_inv" and "follows (trace s0) p0"
  shows "\<exists>p. follows (trace s) p \<and> loop_inv ls p"
  using assms
proof (induction rule: reaches.induct)
  case (Begin ls s)
  then show ?case using movesD [OF Begin.prems Begin.hyps] by simp
next
  case (Turn ls s ls' s')
  then obtain p where "follows (trace s) p" "loop_inv ls p" by blast
  then show ?case using movesD [OF moves_loop_step _ Turn.hyps(2), of p] by simp
qed

lemma runLoop_ends:
  assumes "runLoop ls s = Some (r, s')" and "follows (trace s) p" and "loop_inv ls p"
  shows "\<exists>q. follows (trace s') q \<and> (case r of Inr ms \<Rightarrow> p_phase q = Ended \<and> p_all q = ms | Inl _ \<Rightarrow> True)"
  using assms
proof (induction arbitrary: p rule: runLoop_induct)
  case (Failed ls s e s')
  then show ?case using movesD [OF moves_loop_step [OF Failed(3) ] Failed(2) Failed(1)] by auto
next
  case (Returned ls s ms s')
  then show ?case using movesD [OF moves_loop_step [OF Returned(3)] Returned(2) Returned(1)] by auto
next
  case (Continued ls s ls1 s1 r s')
  then show ?case using movesD [OF moves_loop_step [OF Continued(4)] Continued(3) Continued(1)] by auto
qed

lemma moves_begin_run:
  assumes "streams_start_once cfg"
  shows "moves protocol_start (begin_run prompts ctx cfg) loop_inv"
proof -
  let ?p = "protocol_start\<lparr>p_phase := In_turn\<rparr>"
  have "moves (extend ?p prompts) (start_loop cfg ctx' prompts) loop_inv" for ctx'
    using assms unfolding start_loop_def
    by (auto intro!: moves_silent_bind [OF silent_poll] moves_pure simp: loop_inv_def protocol_start_def)
  then have "moves ?p (bind_io (each_io (emit_message cfg) prompts) (\<lambda>_. start_loop cfg ctx' prompts)) loop_inv" for ctx'
    by (auto intro!: moves_bind [OF moves_each_message] simp: in_turn_def protocol_start_def)
  then show ?thesis unfolding begin_run_def
    by (auto intro!: moves_emit_bind simp: observe_def protocol_start_def)
qed

lemma follows_start: "trace s = [] \<Longrightarrow> follows (trace s) protocol_start"
  by (simp add: follows_def)

lemma run_from_ends:
  assumes "run_from m s0 = Some (r, s)" and "moves p0 m loop_inv" and "follows (trace s0) p0"
  shows "\<exists>q. follows (trace s) q \<and> (case r of Inr ms \<Rightarrow> p_phase q = Ended \<and> p_all q = ms | Inl _ \<Rightarrow> True)"
proof -
  obtain r1 s1 where m: "m s0 = (r1, s1)" by fastforce
  obtain p where p: "follows (trace s1) p" "case r1 of Inr ls \<Rightarrow> loop_inv ls p | Inl _ \<Rightarrow> True"
    using movesD [OF assms(2,3) m] by blast
  show ?thesis
  proof (cases r1)
    case (Inl e)
    with assms(1) m p show ?thesis by (auto simp: run_from_def)
  next
    case (Inr ls)
    with assms(1) m p show ?thesis by (auto simp: run_from_def intro: runLoop_ends)
  qed
qed

text \<open>C1: The events of an agent run. Whatever the callbacks, tools and listeners do, and however
  concurrent tools interleave, the events of a run follow the protocol at every point, also when the
  run never ends or fails: messages open and close one at a time and inside a turn, a tool reports
  only between its start and its end, and a turn ends with its response and the results of that
  response's tool calls, in their order. When the loop returns, \<open>agent_end\<close> was the last event, and
  the messages returned are exactly those that ended, in order.\<close>

theorem agent_run_protocol:
  assumes "streams_start_once cfg" and "trace s0 = []"
  shows "(\<forall>ls s. reaches (begin_run prompts ctx cfg) s0 ls s \<longrightarrow>
       (\<exists>p. follows (trace s) p \<and> p_all p = newMessages ls \<and> \<not> p_open p \<and> p_running p = []))
    \<and> (\<forall>r s. runAgentLoop prompts ctx cfg s0 = Some (r, s) \<longrightarrow>
       (\<exists>q. follows (trace s) q \<and> (case r of Inr ms \<Rightarrow> p_phase q = Ended \<and> p_all q = ms | Inl _ \<Rightarrow> True)))"
proof (intro conjI allI impI)
  note start = moves_begin_run [OF assms(1)] follows_start [OF assms(2)]
  show "\<exists>p. follows (trace s) p \<and> p_all p = newMessages ls \<and> \<not> p_open p \<and> p_running p = []"
    if "reaches (begin_run prompts ctx cfg) s0 ls s" for ls s
    using reaches_inv [OF that start] by (auto simp: loop_inv_def)
  show "\<exists>q. follows (trace s) q \<and> (case r of Inr ms \<Rightarrow> p_phase q = Ended \<and> p_all q = ms | Inl _ \<Rightarrow> True)"
    if "runAgentLoop prompts ctx cfg s0 = Some (r, s)" for r s
    using run_from_ends [OF _ start] that by (simp add: runAgentLoop_def)
qed

section \<open>A scripted run\<close>

text \<open>A provider that replays a script, its world being what is left of it, and a tool that echoes.\<close>

definition scripted_stream :: "assistant_message list \<Rightarrow> (string + assistant_message list response_stream) \<times> assistant_message list" where
  "scripted_stream w =
     (case w of
        [] \<Rightarrow> (Inl ''end of script'', w)
      | m # ms \<Rightarrow>
          (Inr \<lparr>stream_events = [\<lambda>v. (Inr (Stream_start (m\<lparr>content := []\<rparr>)), v), \<lambda>v. (Inr (Stream_delta m), v), \<lambda>v. (Inr Stream_done, v)],
                stream_result = (\<lambda>v. (Inr m, v))\<rparr>, ms))"

definition scripted :: "assistant_message list loop_config" where
  "scripted =
     \<lparr>model = \<lparr>model_provider = ''p'', model_id = ''m''\<rparr>, reasoning = None, apiKey = None, toolExecution = None,
      convertToLlm = (\<lambda>ms w. (Inr ms, w)), transformContext = None, getApiKey = None,
      streamFn = (\<lambda>m ctx r k. scripted_stream), getSteeringMessages = None, getFollowUpMessages = None,
      prepareNextTurn = None, shouldStopAfterTurn = None, beforeToolCall = None, afterToolCall = None,
      prepareArguments = (\<lambda>t. None), validateToolArguments = (\<lambda>t c w. (Inr (callArgs c), w)),
      execute = (\<lambda>t i args. \<lparr>ex_updates = [\<lambda>w. (\<lparr>res_content = [''half''], res_details = ''{}'', res_terminate = None\<rparr>, w)],
        ex_outcome = (\<lambda>w. (Inr \<lparr>res_content = [args], res_details = ''{}'', res_terminate = None\<rparr>, w))\<rparr>),
      aborted = (\<lambda>w. False), clock = (\<lambda>w. 0), sink = (\<lambda>ev w. (Inr (), w)), schedule = (\<lambda>n w. (1, w))\<rparr>"

definition call_message :: assistant_message where
  "call_message = \<lparr>content = [Call_block \<lparr>callId = ''1'', callName = ''echo'', callArgs = ''a''\<rparr>,
      Call_block \<lparr>callId = ''2'', callName = ''none'', callArgs = ''b''\<rparr>,
      Call_block \<lparr>callId = ''3'', callName = ''echo'', callArgs = ''c''\<rparr>], stopReason = Tool_use, errorMessage = None\<rparr>"

definition stop_message :: assistant_message where
  "stop_message = \<lparr>content = [Text_block ''done''], stopReason = Stop, errorMessage = None\<rparr>"

definition echo_context :: agent_context where
  "echo_context = \<lparr>systemPrompt = [], messages = [], tools = [\<lparr>t_name = ''echo'', executionMode = None\<rparr>]\<rparr>"

lemma scripted_start_once: "streams_start_once scripted"
  by (auto simp: streams_start_once_def starts_first_def scripted_def scripted_stream_def split: list.splits)

theorem agent_run_protocol_witness:
  "\<exists>s ms q. runAgentLoop [User_msg ''go''] echo_context scripted \<lparr>world = [stop_message], trace = []\<rparr> = Some (Inr ms, s)
    \<and> length ms = 2 \<and> length (trace s) = 9 \<and> follows (trace s) q \<and> p_all q = ms"
proof -
  let ?run = "runAgentLoop [User_msg ''go''] echo_context scripted \<lparr>world = [stop_message], trace = []\<rparr>"
  have "(case ?run of Some (Inr ms, s) \<Rightarrow> length ms = 2 \<and> length (trace s) = 9 | _ \<Rightarrow> False)"
    by code_simp
  then obtain ms s where run: "?run = Some (Inr ms, s)" "length ms = 2" "length (trace s) = 9"
    by (cases ?run) (auto split: sum.splits, metis sum.exhaust)
  have "\<forall>r s. ?run = Some (r, s) \<longrightarrow>
       (\<exists>q. follows (trace s) q \<and> (case r of Inr ms \<Rightarrow> p_phase q = Ended \<and> p_all q = ms | Inl _ \<Rightarrow> True))"
    by (rule conjunct2 [OF agent_run_protocol [OF scripted_start_once, of "\<lparr>world = [stop_message], trace = []\<rparr>"
        "[User_msg ''go'']" echo_context]]) simp
  with run show ?thesis by fastforce
qed

end
