(* ===== verification/Agent_Batch.thy ===== *)
theory Agent_Batch
  imports Agent_Protocol
begin

text \<open>
  What a batch of tool calls computes: which calls may run at all, and that running the tools of a
  response concurrently gives the results of running them one after the other, under every
  interleaving, when the tools do not interfere.
\<close>

section \<open>Operations whose result the world does not determine\<close>

text \<open>\<open>determined m\<close>: the result of \<open>m\<close>, or the error it throws, is the same in every world;
  \<open>produces m R\<close>: \<open>m\<close> never throws, and its results satisfy \<open>R\<close>.\<close>

named_theorems determined_intros

definition yields :: "('s, 'a) io \<Rightarrow> string + 'a \<Rightarrow> bool" where
  "yields m r \<longleftrightarrow> (\<forall>s. fst (m s) = r)"

definition determined :: "('s, 'a) io \<Rightarrow> bool" where
  "determined m \<longleftrightarrow> (\<exists>r. yields m r)"

definition produces :: "('s, 'a) io \<Rightarrow> ('a \<Rightarrow> bool) \<Rightarrow> bool" where
  "produces m R \<longleftrightarrow> (\<forall>s. \<exists>x. fst (m s) = Inr x \<and> R x)"

lemma determined_pure [determined_intros]: "determined (pure_io x)"
  by (auto simp: determined_def yields_def pure_io_def)

lemma yieldsE:
  assumes "yields m r"
  obtains s' where "m s = (r, s')"
  using assms unfolding yields_def by (metis prod.collapse)

lemma determinedI: "(\<And>s. fst (m s) = r) \<Longrightarrow> determined m"
  by (auto simp: determined_def yields_def)

lemma determined_bind [determined_intros]:
  assumes "determined m" and "\<And>x. determined (f x)"
  shows "determined (bind_io m f)"
proof -
  obtain r where r: "yields m r" using assms(1) by (auto simp: determined_def)
  show ?thesis
  proof (cases r)
    case (Inl e)
    have "fst (bind_io m f s) = Inl e" for s
      by (rule yieldsE [OF r, of s]) (simp add: bind_io_def Inl)
    then show ?thesis by (rule determinedI)
  next
    case (Inr x)
    obtain r' where r': "yields (f x) r'" using assms(2) by (auto simp: determined_def)
    have "fst (bind_io m f s) = r'" for s
      by (rule yieldsE [OF r, of s]) (use r' in \<open>simp add: bind_io_def Inr yields_def\<close>)
    then show ?thesis by (rule determinedI)
  qed
qed

lemma determined_catch [determined_intros]:
  assumes "determined m" and "\<And>e. determined (h e)"
  shows "determined (catch_io m h)"
proof -
  obtain r where r: "yields m r" using assms(1) by (auto simp: determined_def)
  show ?thesis
  proof (cases r)
    case (Inr x)
    have "fst (catch_io m h s) = Inr x" for s
      by (rule yieldsE [OF r, of s]) (simp add: catch_io_def Inr)
    then show ?thesis by (rule determinedI)
  next
    case (Inl e)
    obtain r' where r': "yields (h e) r'" using assms(2) by (auto simp: determined_def)
    have "fst (catch_io m h s) = r'" for s
      by (rule yieldsE [OF r, of s]) (use r' in \<open>simp add: catch_io_def Inl yields_def\<close>)
    then show ?thesis by (rule determinedI)
  qed
qed

lemma determined_option [determined_intros]:
  "determined a \<Longrightarrow> (\<And>y. x = Some y \<Longrightarrow> determined (f y)) \<Longrightarrow> determined (case x of None \<Rightarrow> a | Some y \<Rightarrow> f y)"
  by (cases x) auto

lemma determined_prod [determined_intros]: "(\<And>x y. determined (f x y)) \<Longrightarrow> determined (case z of (x, y) \<Rightarrow> f x y)"
  by (cases z) auto

lemma determined_external: "(\<And>w w'. fst (m w) = fst (m w')) \<Longrightarrow> determined (external m)"
  by (auto simp: determined_def yields_def external_def split: prod.splits) (metis fst_conv)

lemma determined_produces:
  assumes "determined m" and "\<And>s e s'. m s \<noteq> (Inl e, s')"
  obtains x where "yields m (Inr x)"
  using assms by (auto simp: determined_def yields_def) (metis prod.collapse sum.exhaust)

lemma produces_pure: "R x \<Longrightarrow> produces (pure_io x) R"
  by (simp add: produces_def pure_io_def)

lemma produces_yields: "yields m (Inr x) \<Longrightarrow> produces m (\<lambda>y. y = x)"
  by (simp add: produces_def yields_def)

lemma produces_bind:
  assumes "produces m R" and "\<And>x. R x \<Longrightarrow> produces (f x) Q"
  shows "produces (bind_io m f) Q"
  unfolding produces_def
proof
  fix s
  obtain x s1 where m: "m s = (Inr x, s1)" and x: "R x" using assms(1) unfolding produces_def by (metis fst_conv surj_pair)
  show "\<exists>y. fst (bind_io m f s) = Inr y \<and> Q y"
    using assms(2) [OF x] m by (simp add: produces_def bind_io_def)
qed

lemma produces_conseq: "produces m R \<Longrightarrow> (\<And>x. R x \<Longrightarrow> Q x) \<Longrightarrow> produces m Q"
  unfolding produces_def by blast

section \<open>Concurrent and sequential batches agree\<close>

text \<open>Tools that do not interfere: what hooks, argument checks and tools return does not depend on the
  world, listeners do not fail, and nothing aborts. Their effects on the world are arbitrary.\<close>

definition independent_tools :: "'w loop_config \<Rightarrow> bool" where
  "independent_tools cfg \<longleftrightarrow>
     (\<forall>ev w. fst (sink cfg ev w) = Inr ()) \<and> (\<forall>w. \<not> aborted cfg w)
     \<and> (\<forall>t f a w w'. prepareArguments cfg t = Some f \<longrightarrow> fst (f a w) = fst (f a w'))
     \<and> (\<forall>t c w w'. fst (validateToolArguments cfg t c w) = fst (validateToolArguments cfg t c w'))
     \<and> (\<forall>t i a w w'. fst (ex_outcome (execute cfg t i a) w) = fst (ex_outcome (execute cfg t i a) w'))
     \<and> (\<forall>f am c a ctx w w'. beforeToolCall cfg = Some f \<longrightarrow> fst (f am c a ctx w) = fst (f am c a ctx w'))
     \<and> (\<forall>f am c a r e ctx w w'. afterToolCall cfg = Some f \<longrightarrow> fst (f am c a r e ctx w) = fst (f am c a r e ctx w'))"

lemma independentD:
  assumes "independent_tools cfg"
  shows "fst (sink cfg ev w) = Inr ()" "\<not> aborted cfg w"
    and "prepareArguments cfg t = Some f \<Longrightarrow> fst (f a w) = fst (f a w')"
    and "fst (validateToolArguments cfg t c w) = fst (validateToolArguments cfg t c w')"
    and "fst (ex_outcome (execute cfg t i a) w) = fst (ex_outcome (execute cfg t i a) w')"
    and "beforeToolCall cfg = Some g \<Longrightarrow> fst (g am c a ctx w) = fst (g am c a ctx w')"
    and "afterToolCall cfg = Some h \<Longrightarrow> fst (h am c a r e ctx w) = fst (h am c a r e ctx w')"
proof -
  note facts = assms [unfolded independent_tools_def]
  show "fst (sink cfg ev w) = Inr ()"
    using facts by metis
  show "\<not> aborted cfg w"
    using facts by metis
  show "prepareArguments cfg t = Some f \<Longrightarrow> fst (f a w) = fst (f a w')"
    using facts by metis
  show "fst (validateToolArguments cfg t c w) = fst (validateToolArguments cfg t c w')"
    using facts by metis
  show "fst (ex_outcome (execute cfg t i a) w) = fst (ex_outcome (execute cfg t i a) w')"
    using facts by metis
  show "beforeToolCall cfg = Some g \<Longrightarrow> fst (g am c a ctx w) = fst (g am c a ctx w')"
    using facts by metis
  show "afterToolCall cfg = Some h \<Longrightarrow> fst (h am c a r e ctx w) = fst (h am c a r e ctx w')"
    using facts by metis
qed

lemma no_abort: "independent_tools cfg \<Longrightarrow> yields (is_aborted cfg) (Inr False)"
  by (simp add: independentD yields_def is_aborted_def get_io_def)

lemma determined_is_aborted: "independent_tools cfg \<Longrightarrow> determined (is_aborted cfg)"
  using no_abort unfolding determined_def by blast

lemma emit_yields: "independent_tools cfg \<Longrightarrow> yields (emit cfg ev) (Inr ())"
  using independentD(1) [of cfg ev]
  by (auto simp: yields_def emit_def external_def split: prod.splits) (metis fst_conv)

lemma determined_prepareToolCall: "independent_tools cfg \<Longrightarrow> determined (prepareToolCall cfg ctx am call)"
  unfolding prepareToolCall_def prepareToolCallArguments_def run_beforeToolCall_def
  by (intro determined_intros determined_external determined_is_aborted) (blast intro: independentD)+

lemma determined_finalize: "independent_tools cfg \<Longrightarrow> determined (finalizeExecutedToolCall cfg ctx am call args ex)"
  unfolding finalizeExecutedToolCall_def
  by (intro determined_intros determined_external) (blast intro: independentD)+

lemma determined_settle: "independent_tools cfg \<Longrightarrow> determined (settle_execution (ex_outcome (execute cfg t i a)) None)"
proof -
  assume "independent_tools cfg"
  then have "fst (settle_execution (ex_outcome (execute cfg t i a)) None s)
      = fst (settle_execution (ex_outcome (execute cfg t i a)) None s0)" for s s0
    using independentD(5) [of cfg t i a "world s" "world s0"]
    by (auto simp: settle_execution_def external_def split: prod.splits)
  then show ?thesis unfolding determined_def yields_def by blast
qed

lemma never_throws:
  "prepareToolCall cfg ctx am call s \<noteq> (Inl e, s')"
  "settle_execution ending None s \<noteq> (Inl e, s')"
  "finalizeExecutedToolCall cfg ctx am call args ex s \<noteq> (Inl e, s')"
  by (auto simp: prepareToolCall_def catch_io_def pure_io_def settle_execution_def finalizeExecutedToolCall_def bind_io_def
      split: option.splits prod.splits sum.splits)

text \<open>What a prepared call comes to once its tool has ended.\<close>

definition conclude ::
  "'w loop_config \<Rightarrow> agent_context \<Rightarrow> assistant_message \<Rightarrow> tool_call \<Rightarrow> string \<Rightarrow> ('w, tool_result) io \<Rightarrow> ('w run, finalized_call) io" where
  "conclude cfg ctx am c args ending =
     bind_io (settle_execution ending None) (finalizeExecutedToolCall cfg ctx am c args)"

lemma conclude_yields:
  assumes "independent_tools cfg"
  shows "\<exists>f. yields (conclude cfg ctx am c args (ex_outcome (execute cfg t i a))) (Inr f)"
proof -
  have "determined (conclude cfg ctx am c args (ex_outcome (execute cfg t i a)))"
    unfolding conclude_def by (intro determined_bind determined_settle determined_finalize assms)
  moreover have "conclude cfg ctx am c args (ex_outcome (execute cfg t i a)) s \<noteq> (Inl e, s')" for s e s'
    by (auto simp: conclude_def bind_io_def never_throws split: prod.splits sum.splits)
  ultimately show ?thesis using determined_produces by blast
qed

lemma emit_update_none:
  assumes "independent_tools cfg" and "emit_update cfg c u None s = (failed, s')"
  shows "failed = None"
proof -
  have "fst (emit cfg ev s1) = Inr ()" for ev s1 using emit_yields [OF assms(1)] by (simp add: yields_def)
  then show ?thesis using assms(2)
    by (auto simp: emit_update_def split: prod.splits sum.splits) (metis fst_conv sum.distinct(1))
qed

lemma execute_produces:
  assumes "independent_tools cfg" and "yields (conclude cfg ctx am c args ending) (Inr f)"
  shows "produces (bind_io (executePreparedToolCall cfg c us ending None) (finalizeExecutedToolCall cfg ctx am c args)) (\<lambda>g. g = f)"
proof -
  have "fst (bind_io (executePreparedToolCall cfg c us ending None) (finalizeExecutedToolCall cfg ctx am c args) s) = Inr f" for s
  proof (induction us arbitrary: s)
    case Nil
    then show ?case using assms(2) by (simp add: conclude_def yields_def bind_io_def)
  next
    case (Cons u us)
    obtain failed s' where u: "emit_update cfg c u None s = (failed, s')" by fastforce
    then show ?case using Cons.IH [of s'] emit_update_none [OF assms(1) u] by (simp add: bind_io_def)
  qed
  then show ?thesis by (simp add: produces_def)
qed

text \<open>The result of each call, the same in both modes and in every world.\<close>

definition call_result ::
  "'w loop_config \<Rightarrow> agent_context \<Rightarrow> assistant_message \<Rightarrow> tool_call \<Rightarrow> preparation \<Rightarrow> finalized_call \<Rightarrow> bool" where
  "call_result cfg ctx am call preparation f \<longleftrightarrow>
     (case preparation of
        Immediate result isErr \<Rightarrow> f = \<lparr>f_call = call, f_result = result, f_isError = isErr\<rparr>
      | Prepared c tool args \<Rightarrow> yields (conclude cfg ctx am c args (ex_outcome (execute cfg tool (callId c) args))) (Inr f))"

lemma call_result_exists:
  assumes "independent_tools cfg"
  shows "\<exists>p f. yields (prepareToolCall cfg ctx am call) (Inr p) \<and> call_result cfg ctx am call p f"
proof -
  obtain p where "yields (prepareToolCall cfg ctx am call) (Inr p)"
    using determined_produces [OF determined_prepareToolCall [OF assms]] never_throws(1) by metis
  moreover have "\<exists>f. call_result cfg ctx am call p f"
    using conclude_yields [OF assms] by (cases p) (auto simp: call_result_def)
  ultimately show ?thesis by blast
qed

definition untimed :: "tool_result_message \<Rightarrow> tool_result_message" where
  "untimed m = m\<lparr>timestamp := 0\<rparr>"

definition result_text :: "finalized_call \<Rightarrow> tool_result_message" where
  "result_text f = \<lparr>toolCallId = callId (f_call f), toolName = callName (f_call f), msg_content = res_content (f_result f),
     msg_details = res_details (f_result f), isError = f_isError f, timestamp = 0\<rparr>"

lemma produces_emit: "independent_tools cfg \<Longrightarrow> produces (emit cfg ev) (\<lambda>_. True)"
  using emit_yields [of cfg ev] by (auto simp: produces_def yields_def)

lemma produces_emits:
  assumes "independent_tools cfg"
  shows "produces (emit_tool_start cfg call) (\<lambda>_. True)" "produces (emitToolExecutionEnd cfg f) (\<lambda>_. True)"
    "produces (emitToolResultMessage cfg m) (\<lambda>_. True)"
  unfolding emit_tool_start_def emitToolExecutionEnd_def emitToolResultMessage_def
  by (auto intro!: produces_bind produces_emit assms)

lemma produces_result_message:
  assumes "independent_tools cfg"
  shows "produces (result_message cfg f) (\<lambda>m. untimed m = result_text f)"
  unfolding result_message_def
proof (rule produces_bind)
  show "produces (createToolResultMessage cfg f) (\<lambda>m. untimed m = result_text f)"
    by (simp add: produces_def createToolResultMessage_def get_io_def untimed_def result_text_def)
  fix m :: tool_result_message
  assume "untimed m = result_text f"
  then show "produces (bind_io (emitToolResultMessage cfg m) (\<lambda>_. pure_io m)) (\<lambda>m. untimed m = result_text f)"
    by (auto intro!: produces_bind [OF produces_emits(3) [OF assms]] produces_pure)
qed

text \<open>\<open>F\<close> gives the result of every call.\<close>

definition results_function ::
  "'w loop_config \<Rightarrow> agent_context \<Rightarrow> assistant_message \<Rightarrow> (tool_call \<Rightarrow> finalized_call) \<Rightarrow> bool" where
  "results_function cfg ctx am F \<longleftrightarrow>
     (\<forall>call. \<exists>p. yields (prepareToolCall cfg ctx am call) (Inr p) \<and> call_result cfg ctx am call p (F call))"

lemma results_function_exists:
  assumes "independent_tools cfg"
  obtains F where "results_function cfg ctx am F"
proof -
  have "\<forall>call. \<exists>f p. yields (prepareToolCall cfg ctx am call) (Inr p) \<and> call_result cfg ctx am call p f"
    using call_result_exists [OF assms] by blast
  from choice [OF this] obtain F where "results_function cfg ctx am F"
    unfolding results_function_def by blast
  then show ?thesis by (rule that)
qed

lemma produces_finish_call:
  assumes "independent_tools cfg" and "call_result cfg ctx am call p f"
  shows "produces (finish_call cfg ctx am call p) (\<lambda>g. g = f)"
proof (cases p)
  case (Immediate result isErr)
  with assms(2) show ?thesis by (simp add: finish_call_def call_result_def produces_pure)
next
  case (Prepared c tool args)
  with assms show ?thesis by (simp add: finish_call_def call_result_def Let_def execute_produces)
qed

lemma produces_run_call:
  assumes ind: "independent_tools cfg" and F: "results_function cfg ctx am F"
  shows "produces (run_call cfg ctx am call) (\<lambda>fm. fst fm = F call \<and> untimed (snd fm) = result_text (F call))"
proof -
  obtain p where p: "yields (prepareToolCall cfg ctx am call) (Inr p)" "call_result cfg ctx am call p (F call)"
    using F by (auto simp: results_function_def)
  show ?thesis unfolding run_call_def
    by (intro produces_bind [OF produces_emits(1) [OF ind]] produces_bind [OF produces_yields [OF p(1)]])
       (auto intro!: produces_bind [OF produces_finish_call [OF ind p(2)]] produces_bind [OF produces_emits(2) [OF ind]]
          produces_bind [OF produces_result_message [OF ind]] produces_pure)
qed

lemma produces_sequential_loop:
  assumes ind: "independent_tools cfg" and F: "results_function cfg ctx am F"
  shows "produces (sequential_loop cfg ctx am calls)
    (\<lambda>fms. map fst fms = map F calls \<and> map (untimed \<circ> snd) fms = map (result_text \<circ> F) calls)"
proof (induction calls)
  case Nil
  then show ?case by (simp add: produces_pure)
next
  case (Cons call calls)
  show ?case unfolding sequential_loop.simps
    by (rule produces_bind [OF produces_run_call [OF ind F]], rule produces_bind [OF produces_yields [OF no_abort [OF ind]]])
       (auto intro!: produces_bind [OF Cons.IH] produces_pure)
qed

definition entry_for ::
  "'w loop_config \<Rightarrow> agent_context \<Rightarrow> assistant_message \<Rightarrow> finalized_call \<Rightarrow> 'w batch_entry \<Rightarrow> bool" where
  "entry_for cfg ctx am f e \<longleftrightarrow>
     (case e of
        Ready g \<Rightarrow> g = f
      | Pending c args us ending failed \<Rightarrow> failed = None \<and> yields (conclude cfg ctx am c args ending) (Inr f))"

lemma produces_prepared_entry:
  assumes ind: "independent_tools cfg" and "call_result cfg ctx am call p f"
  shows "produces (prepared_entry cfg call p) (entry_for cfg ctx am f)"
proof (cases p)
  case (Immediate result isErr)
  with assms show ?thesis
    by (auto simp: prepared_entry_def call_result_def Let_def entry_for_def
        intro!: produces_bind [OF produces_emits(2) [OF ind]] produces_pure)
next
  case (Prepared c tool args)
  with assms show ?thesis
    by (auto simp: prepared_entry_def call_result_def Let_def entry_for_def intro!: produces_pure)
qed

lemma produces_prepare_loop:
  assumes ind: "independent_tools cfg" and F: "results_function cfg ctx am F"
  shows "produces (prepare_loop cfg ctx am calls) (\<lambda>es. list_all2 (entry_for cfg ctx am) (map F calls) es)"
proof (induction calls)
  case Nil
  then show ?case by (simp add: produces_pure)
next
  case (Cons call calls)
  obtain p where p: "yields (prepareToolCall cfg ctx am call) (Inr p)" "call_result cfg ctx am call p (F call)"
    using F by (auto simp: results_function_def)
  show ?case unfolding prepare_loop.simps
    by (rule produces_bind [OF produces_emits(1) [OF ind]], rule produces_bind [OF produces_yields [OF p(1)]],
        simp only:, rule produces_bind [OF produces_prepared_entry [OF ind p(2)]],
        rule produces_bind [OF produces_yields [OF no_abort [OF ind]]])
       (auto intro!: produces_bind [OF Cons.IH] produces_pure)
qed

lemma produces_entry_step:
  assumes ind: "independent_tools cfg" and e: "entry_for cfg ctx am f e"
  shows "produces (entry_step cfg ctx am e) (entry_for cfg ctx am f)"
proof (cases e)
  case (Ready g)
  with e show ?thesis by (simp add: entry_step_def entry_for_def produces_pure)
next
  case (Pending c args us ending failed)
  then have failed: "failed = None" and y: "yields (conclude cfg ctx am c args ending) (Inr f)"
    using e by (simp_all add: entry_for_def)
  show ?thesis
  proof (cases us)
    case Nil
    have "produces (bind_io (conclude cfg ctx am c args ending) (\<lambda>f. bind_io (emitToolExecutionEnd cfg f) (\<lambda>_. pure_io (Ready f))))
      (entry_for cfg ctx am f)"
      by (rule produces_bind [OF produces_yields [OF y]])
         (auto simp: entry_for_def intro!: produces_bind [OF produces_emits(2) [OF ind]] produces_pure)
    moreover have "bind_io (conclude cfg ctx am c args ending) (\<lambda>f. bind_io (emitToolExecutionEnd cfg f) (\<lambda>_. pure_io (Ready f)))
      = entry_step cfg ctx am e"
      by (rule ext) (simp add: entry_step_def Pending Nil failed conclude_def bind_io_def split: prod.splits sum.splits)
    ultimately show ?thesis by simp
  next
    case (Cons u us')
    show ?thesis unfolding produces_def
    proof
      fix s
      obtain failed' s' where u: "emit_update cfg c u None s = (failed', s')" by fastforce
      then have "failed' = None" by (rule emit_update_none [OF ind])
      with u y show "\<exists>x. fst (entry_step cfg ctx am e s) = Inr x \<and> entry_for cfg ctx am f x"
        by (simp add: entry_step_def Pending Cons failed entry_for_def)
    qed
  qed
qed

lemma entry_for_ready:
  "list_all2 (entry_for cfg ctx am) fs es \<Longrightarrow> \<not> (\<exists>e \<in> set es. is_pending e) \<Longrightarrow> finalized_calls es = fs"
proof (induction rule: list_all2_induct)
  case (Cons f fs e es)
  then show ?case by (cases e) (auto simp: entry_for_def)
qed simp

lemma produces_batch_step:
  assumes ind: "independent_tools cfg" and es: "list_all2 (entry_for cfg ctx am) fs es" and p: "\<exists>e \<in> set es. is_pending e"
  shows "produces (batch_step cfg ctx am es) (list_all2 (entry_for cfg ctx am) fs)"
  unfolding batch_step_def
proof (rule produces_bind)
  show "produces (pick_entry cfg es) (\<lambda>i. i < length es)"
    unfolding produces_def
  proof
    fix s :: "'a run"
    have "\<exists>i s'. pick_entry cfg es s = (Inr i, s')"
      by (cases "schedule cfg (length (indices_where is_pending es)) (world s)")
         (simp add: pick_entry_def Let_def external_def)
    then obtain i s' where i: "pick_entry cfg es s = (Inr i, s')" by blast
    with pick_entry_pending [OF i p] show "\<exists>x. fst (pick_entry cfg es s) = Inr x \<and> x < length es" by simp
  qed
  fix i
  assume i: "i < length es"
  then have "entry_for cfg ctx am (fs ! i) (es ! i)" using es by (simp add: list_all2_conv_all_nth)
  then show "produces (bind_io (entry_step cfg ctx am (es ! i)) (\<lambda>e. pure_io (es[i := e]))) (list_all2 (entry_for cfg ctx am) fs)"
    using es i by (intro produces_bind [OF produces_entry_step [OF ind]])
      (auto intro!: produces_pure simp: list_all2_conv_all_nth nth_list_update)
qed

lemma run_batch_result:
  assumes ind: "independent_tools cfg"
  shows "list_all2 (entry_for cfg ctx am) fs es \<Longrightarrow> fst (run_batch cfg ctx am es s) = Inr fs"
proof (induction "sum_list (map steps_left es)" arbitrary: es s rule: less_induct)
  case less
  show ?case
  proof (cases "\<exists>e \<in> set es. is_pending e")
    case False
    then show ?thesis using entry_for_ready [OF less.prems] by (simp add: run_batch_done)
  next
    case True
    obtain es' s' where step: "batch_step cfg ctx am es s = (Inr es', s')" and es': "list_all2 (entry_for cfg ctx am) fs es'"
      using produces_batch_step [OF ind less.prems True] unfolding produces_def by (metis prod.collapse)
    have "fst (run_batch cfg ctx am es' s') = Inr fs"
      using batch_step_decreases [OF step True] es' by (rule less.hyps)
    then show ?thesis by (simp add: run_batch_step [OF True] step)
  qed
qed

lemma produces_result_messages:
  assumes ind: "independent_tools cfg"
  shows "produces (result_messages cfg fs) (\<lambda>ms. map untimed ms = map result_text fs)"
proof (induction fs)
  case Nil
  then show ?case by (simp add: produces_pure)
next
  case (Cons f fs)
  show ?case unfolding result_messages.simps
    by (rule produces_bind [OF produces_result_message [OF ind]], rule produces_bind [OF Cons.IH])
       (auto intro: produces_pure)
qed

lemma produces_sequential:
  assumes "independent_tools cfg" and "results_function cfg ctx am F"
  shows "produces (executeToolCallsSequential cfg ctx am calls)
    (\<lambda>(ms, t). map untimed ms = map (result_text \<circ> F) calls \<and> t = shouldTerminateToolBatch (map F calls))"
  unfolding executeToolCallsSequential_def
  by (rule produces_bind [OF produces_sequential_loop [OF assms]]) (auto intro!: produces_pure)

lemma produces_parallel:
  assumes ind: "independent_tools cfg" and F: "results_function cfg ctx am F"
  shows "produces (executeToolCallsParallel cfg ctx am calls)
    (\<lambda>(ms, t). map untimed ms = map (result_text \<circ> F) calls \<and> t = shouldTerminateToolBatch (map F calls))"
  unfolding executeToolCallsParallel_def
proof (rule produces_bind [OF produces_prepare_loop [OF ind F]])
  fix es
  assume es: "list_all2 (entry_for cfg ctx am) (map F calls) es"
  have "produces (run_batch cfg ctx am es) (\<lambda>fs. fs = map F calls)"
    using run_batch_result [OF ind es] by (simp add: produces_def)
  then show "produces (bind_io (run_batch cfg ctx am es) (\<lambda>fs. bind_io (result_messages cfg fs)
      (\<lambda>ms. pure_io (ms, shouldTerminateToolBatch fs))))
    (\<lambda>(ms, t). map untimed ms = map (result_text \<circ> F) calls \<and> t = shouldTerminateToolBatch (map F calls))"
    by (rule produces_bind) (auto intro!: produces_bind [OF produces_result_messages [OF ind]] produces_pure)
qed

text \<open>C4: Concurrency does not change results. When the tools of a response do not interfere, running
  them concurrently, under any interleaving, gives the same tool results in the same order and the
  same decision to stop as running them one after the other, whatever the worlds the two batches
  start from; only the times stamped on the results differ.\<close>

theorem parallel_agrees_with_sequential:
  assumes "independent_tools cfg"
  shows "\<exists>ms ms' t. fst (executeToolCallsSequential cfg ctx am calls s) = Inr (ms, t)
    \<and> fst (executeToolCallsParallel cfg ctx am calls s') = Inr (ms', t)
    \<and> map untimed ms = map untimed ms' \<and> map toolCallId ms = map callId calls"
proof -
  obtain F where F: "results_function cfg ctx am F" using results_function_exists [OF assms] .
  obtain ms t where seq: "fst (executeToolCallsSequential cfg ctx am calls s) = Inr (ms, t)"
    "map untimed ms = map (result_text \<circ> F) calls" "t = shouldTerminateToolBatch (map F calls)"
    using produces_sequential [OF assms F, of calls] unfolding produces_def by fastforce
  obtain ms' t' where par: "fst (executeToolCallsParallel cfg ctx am calls s') = Inr (ms', t')"
    "map untimed ms' = map (result_text \<circ> F) calls" "t' = shouldTerminateToolBatch (map F calls)"
    using produces_parallel [OF assms F, of calls] unfolding produces_def by fastforce
  have ids: "callId (f_call (F c)) = callId c" for c
  proof -
    obtain p where p: "yields (prepareToolCall cfg ctx am c) (Inr p)" "call_result cfg ctx am c p (F c)"
      using F by (auto simp: results_function_def)
    show ?thesis
    proof (cases p)
      case (Immediate result isErr)
      with p show ?thesis by (simp add: call_result_def)
    next
      case (Prepared c' tool args)
      obtain s1 where "prepareToolCall cfg ctx am c undefined = (Inr (Prepared c' tool args), s1)"
        using p(1) Prepared by (metis yieldsE)
      then have "c' = c" by (rule prepareToolCall_call)
      moreover obtain s2 where "conclude cfg ctx am c' args (ex_outcome (execute cfg tool (callId c') args)) undefined = (Inr (F c), s2)"
        using p(2) Prepared by (auto simp: call_result_def elim: yieldsE)
      then have "f_call (F c) = c'"
        by (auto simp: conclude_def bind_io_def split: prod.splits sum.splits dest: finalize_call)
      ultimately show ?thesis by simp
    qed
  qed
  have "map toolCallId (map untimed ms) = map callId calls"
    unfolding seq(2) by (simp add: result_text_def ids)
  then have "map toolCallId ms = map callId calls" by (simp add: untimed_def comp_def)
  with seq par show ?thesis by auto
qed

lemma scripted_independent: "independent_tools scripted"
  by (auto simp: independent_tools_def scripted_def)

theorem parallel_agrees_with_sequential_witness:
  "\<exists>ms ms' t. fst (executeToolCallsSequential scripted echo_context call_message (toolCalls_of call_message) \<lparr>world = [], trace = []\<rparr>) = Inr (ms, t)
    \<and> fst (executeToolCallsParallel scripted echo_context call_message (toolCalls_of call_message) \<lparr>world = [stop_message], trace = [Agent_start]\<rparr>) = Inr (ms', t)
    \<and> map untimed ms = map untimed ms' \<and> map toolCallId ms = [''1'', ''2'', ''3'']"
proof -
  have "map callId (toolCalls_of call_message) = [''1'', ''2'', ''3'']" by code_simp
  then show ?thesis
    using parallel_agrees_with_sequential [OF scripted_independent, of echo_context call_message "toolCalls_of call_message"
      "\<lparr>world = [], trace = []\<rparr>" "\<lparr>world = [stop_message], trace = [Agent_start]\<rparr>"] by simp
qed

section \<open>Which calls may run\<close>

definition validated :: "'w loop_config \<Rightarrow> agent_tool \<Rightarrow> tool_call \<Rightarrow> string \<Rightarrow> bool" where
  "validated cfg tool call args \<longleftrightarrow> (\<exists>raw w w'. validateToolArguments cfg tool (call\<lparr>callArgs := raw\<rparr>) w = (Inr args, w'))"

definition not_blocked ::
  "'w loop_config \<Rightarrow> agent_context \<Rightarrow> assistant_message \<Rightarrow> tool_call \<Rightarrow> string \<Rightarrow> bool" where
  "not_blocked cfg ctx am call args \<longleftrightarrow>
     (\<forall>hook. beforeToolCall cfg = Some hook \<longrightarrow>
        (\<exists>r w w'. hook am call args ctx w = (Inr r, w') \<and> (case r of Some b \<Rightarrow> \<not> block b | None \<Rightarrow> True)))"

lemma validatedI:
  "validateToolArguments cfg tool (call\<lparr>callArgs := raw\<rparr>) w = (Inr args, w') \<Longrightarrow> validated cfg tool call args"
  "validateToolArguments cfg tool call w = (Inr args, w') \<Longrightarrow> validated cfg tool call args"
proof -
  show "validateToolArguments cfg tool (call\<lparr>callArgs := raw\<rparr>) w = (Inr args, w') \<Longrightarrow> validated cfg tool call args" for raw
    unfolding validated_def by blast
  from this [of "callArgs call"]
  show "validateToolArguments cfg tool call w = (Inr args, w') \<Longrightarrow> validated cfg tool call args" by simp
qed

lemma not_blockedI:
  "beforeToolCall cfg = None \<Longrightarrow> not_blocked cfg ctx am call args"
  "beforeToolCall cfg = Some hook \<Longrightarrow> hook am call args ctx w = (Inr None, w') \<Longrightarrow> not_blocked cfg ctx am call args"
  "beforeToolCall cfg = Some hook \<Longrightarrow> hook am call args ctx w = (Inr (Some b), w') \<Longrightarrow> \<not> block b \<Longrightarrow> not_blocked cfg ctx am call args"
  unfolding not_blocked_def by fastforce+

text \<open>C27: A call is prepared for execution only if the context has a tool of that name, its arguments passed validation
  and are the ones the tool gets, the \<open>beforeToolCall\<close> hook, if there is one, saw these arguments and
  did not block, and the run was not aborted when the preparation ended. Every other call gets an error result
  without its tool being run. In a parallel batch a call that is prepared already is executed also when the run is
  aborted after that.\<close>

theorem prepared_call_allowed:
  assumes "prepareToolCall cfg ctx am call s = (Inr p, s')"
  shows "case p of
      Immediate result isErr \<Rightarrow> isErr
    | Prepared c tool args \<Rightarrow>
        c = call \<and> tool \<in> set (tools ctx) \<and> t_name tool = callName call \<and> \<not> aborted cfg (world s')
        \<and> validated cfg tool call args \<and> not_blocked cfg ctx am call args"
proof (cases "find (\<lambda>t. t_name t = callName call) (tools ctx)")
  case None
  with assms show ?thesis by (auto simp: prepareToolCall_def pure_io_def)
next
  case (Some tool)
  then have tool: "tool \<in> set (tools ctx)" "t_name tool = callName call" by (auto simp: find_Some_iff)
  show ?thesis
    using assms Some tool
    by (cases "prepareArguments cfg tool"; cases "beforeToolCall cfg")
       (auto simp: prepareToolCall_def catch_io_def bind_io_def pure_io_def run_beforeToolCall_def is_aborted_def
         get_io_def operation_aborted_def prepareToolCallArguments_def external_def
         split: prod.splits sum.splits if_splits option.splits intro: validatedI not_blockedI)
qed

theorem prepared_call_allowed_witness:
  "\<exists>p s'. prepareToolCall scripted echo_context call_message \<lparr>callId = ''1'', callName = ''echo'', callArgs = ''a''\<rparr>
       \<lparr>world = [], trace = []\<rparr> = (Inr p, s')
     \<and> (case p of Immediate result isErr \<Rightarrow> False
        | Prepared c tool args \<Rightarrow> t_name tool = ''echo'' \<and> args = ''a'' \<and> validated scripted tool c args)"
proof -
  let ?call = "\<lparr>callId = ''1'', callName = ''echo'', callArgs = ''a''\<rparr>"
  let ?p = "Prepared ?call \<lparr>t_name = ''echo'', executionMode = None\<rparr> ''a''"
  have "prepareToolCall scripted echo_context call_message ?call \<lparr>world = [], trace = []\<rparr>
      = (Inr ?p, \<lparr>world = [], trace = []\<rparr>)"
    by (simp add: prepareToolCall_def echo_context_def scripted_def prepareToolCallArguments_def run_beforeToolCall_def
        catch_io_def bind_io_def pure_io_def is_aborted_def get_io_def external_def)
  from this prepared_call_allowed [OF this] show ?thesis by fastforce
qed

end
