(* ===== verification/Agent_Orders.thy ===== *)
theory Agent_Orders
  imports Agent_Loop
begin

text \<open>
  What the agent loop keeps, whatever its callbacks do. The locale \<open>run_order\<close> is the interface: an order
  on the worlds that every callback, tool and stream keeps gives an order on runs that every operation
  of the loop keeps, batches of interleaved tools included. A client states its order once and has the
  lemmas of the whole loop: a provider's budget, the transcript of an agent, the events only growing.
\<close>

section \<open>Orders that every operation keeps\<close>

text \<open>Every callback, stream and tool of a configuration keeps the order \<open>R\<close>.\<close>

definition keeps :: "('w \<Rightarrow> 'w \<Rightarrow> bool) \<Rightarrow> ('w, 'a) io \<Rightarrow> bool" where
  "keeps R m \<longleftrightarrow> (\<forall>w. R w (snd (m w)))"

definition keeps_opt :: "('w \<Rightarrow> 'w \<Rightarrow> bool) \<Rightarrow> ('w, 'a) io option \<Rightarrow> bool" where
  "keeps_opt R f \<longleftrightarrow> (case f of None \<Rightarrow> True | Some m \<Rightarrow> keeps R m)"

definition stream_keeps :: "('w \<Rightarrow> 'w \<Rightarrow> bool) \<Rightarrow> 'w response_stream \<Rightarrow> bool" where
  "stream_keeps R st \<longleftrightarrow> (\<forall>ev \<in> set (stream_events st). keeps R ev) \<and> keeps R (stream_result st)"

definition callbacks_keep :: "('w \<Rightarrow> 'w \<Rightarrow> bool) \<Rightarrow> 'w loop_config \<Rightarrow> bool" where
  "callbacks_keep R cfg \<longleftrightarrow>
     (\<forall>ms. keeps R (convertToLlm cfg ms))
     \<and> (\<forall>f ms. transformContext cfg = Some f \<longrightarrow> keeps R (f ms))
     \<and> (\<forall>f p. getApiKey cfg = Some f \<longrightarrow> keeps R (f p))
     \<and> (\<forall>m c r k. keeps R (streamFn cfg m c r k))
     \<and> (\<forall>m c r k w st w'. streamFn cfg m c r k w = (Inr st, w') \<longrightarrow> stream_keeps R st)
     \<and> keeps_opt R (getSteeringMessages cfg) \<and> keeps_opt R (getFollowUpMessages cfg)
     \<and> (\<forall>f m rs c new. prepareNextTurn cfg = Some f \<longrightarrow> keeps R (f m rs c new))
     \<and> (\<forall>f m rs c new. shouldStopAfterTurn cfg = Some f \<longrightarrow> keeps R (f m rs c new))"

definition tools_keep :: "('w \<Rightarrow> 'w \<Rightarrow> bool) \<Rightarrow> 'w loop_config \<Rightarrow> bool" where
  "tools_keep R cfg \<longleftrightarrow>
     (\<forall>f m c a ctx. beforeToolCall cfg = Some f \<longrightarrow> keeps R (f m c a ctx))
     \<and> (\<forall>f m c a r e ctx. afterToolCall cfg = Some f \<longrightarrow> keeps R (f m c a r e ctx))
     \<and> (\<forall>t f a. prepareArguments cfg t = Some f \<longrightarrow> keeps R (f a))
     \<and> (\<forall>t c. keeps R (validateToolArguments cfg t c))
     \<and> (\<forall>t i a. (\<forall>u \<in> set (ex_updates (execute cfg t i a)). \<forall>w. R w (snd (u w))) \<and> keeps R (ex_outcome (execute cfg t i a)))
     \<and> (\<forall>n w. R w (snd (schedule cfg n w)))"

definition config_keeps :: "('w \<Rightarrow> 'w \<Rightarrow> bool) \<Rightarrow> 'w loop_config \<Rightarrow> bool" where
  "config_keeps R cfg \<longleftrightarrow> callbacks_keep R cfg \<and> tools_keep R cfg"

text \<open>An operation of a run goes only along the order \<open>runs\<close>.\<close>

definition within :: "('w run \<Rightarrow> 'w run \<Rightarrow> bool) \<Rightarrow> ('w run, 'a) io \<Rightarrow> bool" where
  "within runs m \<longleftrightarrow> (\<forall>s. runs s (snd (m s)))"

lemma config_keepsD:
  assumes "config_keeps R cfg"
  shows "keeps R (convertToLlm cfg ms)"
    and "transformContext cfg = Some f1 \<Longrightarrow> keeps R (f1 ms)"
    and "getApiKey cfg = Some f2 \<Longrightarrow> keeps R (f2 p)"
    and "keeps R (streamFn cfg m c r k)"
    and "streamFn cfg m c r k w = (Inr st, w') \<Longrightarrow> stream_keeps R st"
    and "keeps_opt R (getSteeringMessages cfg)" "keeps_opt R (getFollowUpMessages cfg)"
    and "prepareNextTurn cfg = Some f3 \<Longrightarrow> keeps R (f3 am rs c new)"
    and "shouldStopAfterTurn cfg = Some f4 \<Longrightarrow> keeps R (f4 am rs c new)"
    and "beforeToolCall cfg = Some f5 \<Longrightarrow> keeps R (f5 am call a c)"
    and "afterToolCall cfg = Some f6 \<Longrightarrow> keeps R (f6 am call a res e c)"
    and "prepareArguments cfg t = Some f7 \<Longrightarrow> keeps R (f7 a)"
    and "keeps R (validateToolArguments cfg t call)"
    and "u \<in> set (ex_updates (execute cfg t i a)) \<Longrightarrow> R w (snd (u w))"
    and "keeps R (ex_outcome (execute cfg t i a))"
    and "R w (snd (schedule cfg n w))"
  using assms unfolding config_keeps_def callbacks_keep_def tools_keep_def by (elim conjE, metis)+

lemma config_keeps_update [simp]: "config_keeps R (cfg\<lparr>model := m, reasoning := t\<rparr>) = config_keeps R cfg"
  by (simp add: config_keeps_def callbacks_keep_def tools_keep_def)

locale run_order =
  fixes R :: "'w \<Rightarrow> 'w \<Rightarrow> bool"
    and runs :: "'w run \<Rightarrow> 'w run \<Rightarrow> bool"
    and good :: "'w loop_config \<Rightarrow> bool"
  assumes runs_refl: "runs s s"
    and runs_trans: "runs s1 s2 \<Longrightarrow> runs s2 s3 \<Longrightarrow> runs s1 s3"
    and runs_external: "R (world s) w \<Longrightarrow> runs s (s\<lparr>world := w\<rparr>)"
    and runs_emit: "good cfg \<Longrightarrow> runs s (snd (emit cfg ev s))"
    and good_keeps: "good cfg \<Longrightarrow> config_keeps R cfg"
    and good_update: "good cfg \<Longrightarrow> good (cfg\<lparr>model := m, reasoning := level\<rparr>)"
begin

lemmas goodD = config_keepsD [OF good_keeps]

lemma within_pure: "within runs (pure_io x)"
  by (simp add: within_def pure_io_def runs_refl)

lemma within_get: "within runs (get_io f)"
  by (simp add: within_def get_io_def runs_refl)

lemma within_external: "keeps R m \<Longrightarrow> within runs (external m)"
  by (auto simp: within_def keeps_def external_def split: prod.splits intro!: runs_external) (metis snd_conv)

lemma within_bind:
  assumes "within runs m" and "\<And>x. within runs (f x)"
  shows "within runs (bind_io m f)"
  unfolding within_def
proof
  fix s
  obtain r s1 where m: "m s = (r, s1)" by fastforce
  then have 1: "runs s s1" using assms(1) unfolding within_def by (metis snd_conv)
  show "runs s (snd (bind_io m f s))"
  proof (cases r)
    case (Inl e)
    with m 1 show ?thesis by (simp add: bind_io_def)
  next
    case (Inr x)
    have "runs s1 (snd (f x s1))" using assms(2) by (simp add: within_def)
    with 1 m Inr show ?thesis by (auto simp: bind_io_def intro: runs_trans)
  qed
qed

lemma within_bind_result:
  assumes "within runs m" and "\<And>s x s'. m s = (Inr x, s') \<Longrightarrow> within runs (f x)"
  shows "within runs (bind_io m f)"
  unfolding within_def
proof
  fix s
  obtain r s1 where m: "m s = (r, s1)" by fastforce
  then have 1: "runs s s1" using assms(1) unfolding within_def by (metis snd_conv)
  show "runs s (snd (bind_io m f s))"
  proof (cases r)
    case (Inl e)
    with m 1 show ?thesis by (simp add: bind_io_def)
  next
    case (Inr x)
    with m have "within runs (f x)" using assms(2) by blast
    then have "runs s1 (snd (f x s1))" by (simp add: within_def)
    with 1 m Inr show ?thesis by (auto simp: bind_io_def intro: runs_trans)
  qed
qed

lemma within_catch:
  assumes "within runs m" and "\<And>e. within runs (h e)"
  shows "within runs (catch_io m h)"
  unfolding within_def
proof
  fix s
  obtain r s1 where m: "m s = (r, s1)" by fastforce
  then have 1: "runs s s1" using assms(1) unfolding within_def by (metis snd_conv)
  show "runs s (snd (catch_io m h s))"
  proof (cases r)
    case (Inr x)
    with m 1 show ?thesis by (simp add: catch_io_def)
  next
    case (Inl e)
    have "runs s1 (snd (h e s1))" using assms(2) by (simp add: within_def)
    with 1 m Inl show ?thesis by (auto simp: catch_io_def intro: runs_trans)
  qed
qed

lemma within_option:
  "within runs a \<Longrightarrow> (\<And>y. x = Some y \<Longrightarrow> within runs (f y)) \<Longrightarrow> within runs (case x of None \<Rightarrow> a | Some y \<Rightarrow> f y)"
  by (cases x) auto

lemma within_if: "within runs a \<Longrightarrow> within runs b \<Longrightarrow> within runs (if c then a else b)"
  by simp

lemma within_prod: "(\<And>x y. within runs (f x y)) \<Longrightarrow> within runs (case z of (x, y) \<Rightarrow> f x y)"
  by (cases z) auto

lemma within_is_aborted: "within runs (is_aborted cfg)"
  unfolding is_aborted_def by (rule within_get)

lemmas within_rules = within_pure within_get within_is_aborted within_bind within_catch within_option within_if within_prod

end

section \<open>The operations of the loop keep the order\<close>

context run_order
begin

lemma within_emit: "good cfg \<Longrightarrow> within runs (emit cfg ev)"
  by (simp add: within_def runs_emit)

lemma within_prepareToolCall: "good cfg \<Longrightarrow> within runs (prepareToolCall cfg ctx am call)"
  unfolding prepareToolCall_def prepareToolCallArguments_def run_beforeToolCall_def
  by (intro within_rules within_external) (auto intro: goodD)

lemma within_finalize: "good cfg \<Longrightarrow> within runs (finalizeExecutedToolCall cfg ctx am call args ex)"
  unfolding finalizeExecutedToolCall_def
  by (intro within_rules within_external) (auto intro: goodD)

lemma emit_update_within:
  assumes "good cfg" and "\<forall>w. R w (snd (u w))" and "emit_update cfg call u failed s = (failed', s')"
  shows "runs s s'"
proof -
  obtain partial w where u: "u (world s) = (partial, w)" by fastforce
  then have "R (world s) w" using assms(2) by (metis snd_conv)
  then have 1: "runs s (s\<lparr>world := w\<rparr>)" by (rule runs_external)
  let ?m = "emit cfg (Tool_execution_update (callId call) (callName call) (callArgs call) partial)"
  obtain r s1 where m: "?m (s\<lparr>world := w\<rparr>) = (r, s1)" by fastforce
  then have "runs (s\<lparr>world := w\<rparr>) s1" using runs_emit [OF assms(1)] by (metis snd_conv)
  moreover have "s' = s1" using assms(3) u m by (auto simp: emit_update_def split: sum.splits)
  ultimately show ?thesis using 1 by (blast intro: runs_trans)
qed

lemma within_settle: "keeps R ending \<Longrightarrow> within runs (settle_execution ending failed)"
  using within_external [of ending]
  by (auto simp: within_def settle_execution_def split: prod.splits option.splits) (metis snd_conv)+

lemma within_execute:
  assumes "good cfg" and "\<forall>u \<in> set us. \<forall>w. R w (snd (u w))" and "keeps R ending"
  shows "within runs (executePreparedToolCall cfg call us ending failed)"
  unfolding within_def
proof
  fix s
  show "runs s (snd (executePreparedToolCall cfg call us ending failed s))"
    using assms(2)
  proof (induction us arbitrary: failed s)
    case Nil
    then show ?case using within_settle [OF assms(3)] by (simp add: within_def)
  next
    case (Cons u us)
    obtain failed' s' where u: "emit_update cfg call u failed s = (failed', s')" by fastforce
    then have "runs s s'" using Cons.prems by (intro emit_update_within [OF assms(1)]) auto
    moreover have "runs s' (snd (executePreparedToolCall cfg call us ending failed' s'))"
      using Cons by simp
    ultimately show ?case using u by (auto intro: runs_trans)
  qed
qed

lemma within_finish_call:
  assumes "good cfg"
  shows "within runs (finish_call cfg ctx am call p)"
proof (cases p)
  case (Immediate r e)
  then show ?thesis by (simp add: finish_call_def within_pure)
next
  case (Prepared c tool args)
  then show ?thesis
    using assms by (auto simp: finish_call_def Let_def intro!: within_bind within_execute within_finalize intro: goodD)
qed

lemma within_result_message: "good cfg \<Longrightarrow> within runs (result_message cfg f)"
  unfolding result_message_def createToolResultMessage_def emitToolResultMessage_def
  by (intro within_rules within_emit)

lemma within_sequential: "good cfg \<Longrightarrow> within runs (executeToolCallsSequential cfg ctx am calls)"
proof -
  assume cfg: "good cfg"
  have "within runs (sequential_loop cfg ctx am calls)"
    by (induction calls)
       (auto simp: run_call_def emit_tool_start_def emitToolExecutionEnd_def cfg
          intro!: within_rules within_emit within_prepareToolCall within_finish_call within_result_message)
  then show ?thesis unfolding executeToolCallsSequential_def by (intro within_rules)
qed

text \<open>What a pending entry has still to do keeps the order too.\<close>

definition entry_keeps :: "'w batch_entry \<Rightarrow> bool" where
  "entry_keeps e \<longleftrightarrow>
     (case e of Ready f \<Rightarrow> True
      | Pending c args us ending failed \<Rightarrow> (\<forall>u \<in> set us. \<forall>w. R w (snd (u w))) \<and> keeps R ending)"

lemma prepared_entry_keeps:
  assumes "good cfg"
  shows "within runs (prepared_entry cfg call p)"
    and "prepared_entry cfg call p s = (Inr e, s') \<Longrightarrow> entry_keeps e"
proof -
  show "within runs (prepared_entry cfg call p)"
    unfolding prepared_entry_def emitToolExecutionEnd_def Let_def
    by (cases p) (auto intro!: within_rules within_emit assms)
  show "prepared_entry cfg call p s = (Inr e, s') \<Longrightarrow> entry_keeps e"
    using assms by (cases p)
      (auto simp: prepared_entry_def Let_def bind_io_def pure_io_def entry_keeps_def
        split: prod.splits sum.splits intro: goodD)
qed

lemma prepare_loop_keeps:
  assumes "good cfg"
  shows "within runs (prepare_loop cfg ctx am calls)"
    and "prepare_loop cfg ctx am calls s = (Inr es, s') \<Longrightarrow> \<forall>e \<in> set es. entry_keeps e"
proof -
  show "within runs (prepare_loop cfg ctx am calls)"
    by (induction calls)
       (auto simp: emit_tool_start_def assms
          intro!: within_rules within_emit within_prepareToolCall prepared_entry_keeps(1))
  show "prepare_loop cfg ctx am calls s = (Inr es, s') \<Longrightarrow> \<forall>e \<in> set es. entry_keeps e"
  proof (induction calls arbitrary: s es s')
    case Nil
    then show ?case by (simp add: pure_io_def)
  next
    case (Cons call calls)
    have "\<exists>p s2 e s3. prepared_entry cfg call p s2 = (Inr e, s3)
        \<and> (es = [e] \<or> (\<exists>es' s4 s5. prepare_loop cfg ctx am calls s4 = (Inr es', s5) \<and> es = e # es'))"
      using Cons.prems by (auto simp: bind_io_def pure_io_def split: prod.splits sum.splits if_splits) blast+
    then show ?case
      using prepared_entry_keeps(2) [OF assms] Cons.IH by fastforce
  qed
qed

lemma entry_step_keeps:
  assumes "good cfg" and "entry_keeps e"
  shows "within runs (entry_step cfg ctx am e)"
    and "entry_step cfg ctx am e s = (Inr e', s') \<Longrightarrow> entry_keeps e'"
proof -
  show "within runs (entry_step cfg ctx am e)"
  proof (cases e)
    case (Ready f)
    then show ?thesis by (simp add: entry_step_def within_pure)
  next
    case (Pending c args us ending failed)
    note e = Pending
    show ?thesis
    proof (cases us)
      case Nil
      with e assms show ?thesis
        by (auto simp: entry_step_def entry_keeps_def emitToolExecutionEnd_def
            intro!: within_rules within_settle within_finalize within_emit)
    next
      case (Cons u us')
      then have "\<forall>w. R w (snd (u w))" using assms(2) e by (simp add: entry_keeps_def)
      from emit_update_within [OF assms(1) this] show ?thesis
        by (auto simp: within_def entry_step_def e Cons split: prod.splits)
    qed
  qed
  show "entry_step cfg ctx am e s = (Inr e', s') \<Longrightarrow> entry_keeps e'"
    using assms(2)
    by (auto simp: entry_step_def entry_keeps_def bind_io_def pure_io_def
        split: batch_entry.splits list.splits prod.splits sum.splits)
qed

lemma batch_step_keeps:
  assumes cfg: "good cfg" and es: "\<forall>e \<in> set es. entry_keeps e" and p: "\<exists>e \<in> set es. is_pending e"
    and step: "batch_step cfg ctx am es s = (r, s')"
  shows "runs s s' \<and> (case r of Inr es' \<Rightarrow> \<forall>e \<in> set es'. entry_keeps e | Inl _ \<Rightarrow> True)"
proof -
  have "\<exists>i s1. pick_entry cfg es s = (Inr i, s1)"
    by (cases "schedule cfg (length (indices_where is_pending es)) (world s)")
       (simp add: pick_entry_def Let_def external_def)
  then obtain i s1 where i: "pick_entry cfg es s = (Inr i, s1)" by blast
  have 1: "runs s s1"
    using i goodD(16) [OF cfg, of "world s" "length (indices_where is_pending es)"]
    by (auto simp: pick_entry_def Let_def external_def split: prod.splits intro: runs_external)
  have "i < length es" using pick_entry_pending [OF i p] by simp
  then have keep: "entry_keeps (es ! i)" using es by simp
  obtain r2 s2 where e: "entry_step cfg ctx am (es ! i) s1 = (r2, s2)" by fastforce
  have 2: "runs s1 s2"
    using entry_step_keeps(1) [OF cfg keep, of ctx am] e unfolding within_def by (metis snd_conv)
  show ?thesis
  proof (cases r2)
    case (Inl x)
    with step i e 1 2 show ?thesis by (auto simp: batch_step_def bind_io_def intro: runs_trans)
  next
    case (Inr e')
    have "entry_keeps e'" using entry_step_keeps(2) [OF cfg keep] e Inr by blast
    then have "\<forall>e \<in> set (es[i := e']). entry_keeps e" using es by (auto dest: set_update_subset_insert [THEN subsetD])
    with step i e 1 2 Inr show ?thesis by (auto simp: batch_step_def bind_io_def pure_io_def intro: runs_trans)
  qed
qed

lemma run_batch_within:
  assumes cfg: "good cfg"
  shows "\<forall>e \<in> set es. entry_keeps e \<Longrightarrow> runs s (snd (run_batch cfg ctx am es s))"
proof (induction "sum_list (map steps_left es)" arbitrary: es s rule: less_induct)
  case less
  show ?case
  proof (cases "\<exists>e \<in> set es. is_pending e")
    case False
    then show ?thesis by (simp add: run_batch_done runs_refl)
  next
    case True
    obtain r s' where step: "batch_step cfg ctx am es s = (r, s')" by fastforce
    note keep = batch_step_keeps [OF cfg less.prems True step]
    show ?thesis
    proof (cases r)
      case (Inl e)
      with keep show ?thesis by (simp add: run_batch_step [OF True] step)
    next
      case (Inr es')
      have "runs s' (snd (run_batch cfg ctx am es' s'))"
        using keep Inr batch_step_decreases [OF step [unfolded Inr] True] by (intro less.hyps) simp_all
      with keep Inr show ?thesis by (auto simp: run_batch_step [OF True] step intro: runs_trans)
    qed
  qed
qed

lemma within_result_messages: "good cfg \<Longrightarrow> within runs (result_messages cfg fs)"
  by (induction fs) (auto intro!: within_rules within_result_message)

lemma within_parallel: "good cfg \<Longrightarrow> within runs (executeToolCallsParallel cfg ctx am calls)"
  unfolding executeToolCallsParallel_def
proof (rule within_bind_result)
  assume cfg: "good cfg"
  then show "within runs (prepare_loop cfg ctx am calls)" by (rule prepare_loop_keeps)
  fix s es and s' :: "'w run"
  assume "prepare_loop cfg ctx am calls s = (Inr es, s')"
  then have "within runs (run_batch cfg ctx am es)"
    using prepare_loop_keeps(2) [OF cfg] run_batch_within [OF cfg] unfolding within_def by blast
  then show "within runs (bind_io (run_batch cfg ctx am es) (\<lambda>finalizedCalls.
      bind_io (result_messages cfg finalizedCalls) (\<lambda>messages.
        pure_io (messages, shouldTerminateToolBatch finalizedCalls))))"
    by (intro within_rules within_result_messages cfg)
qed

lemma within_run_tools: "good cfg \<Longrightarrow> within runs (run_tools cfg ctx am)"
  unfolding run_tools_def executeToolCalls_def Let_def
  by (intro within_rules within_sequential within_parallel)

end

section \<open>The configuration of the loop\<close>

text \<open>Between turns only the model and the thinking level change.\<close>

lemma apply_turn_update_config:
  "apply_turn_update u ctx cfg = (ctx', cfg') \<Longrightarrow> \<exists>m t. cfg' = cfg\<lparr>model := m, reasoning := t\<rparr>"
  by (cases u; cases cfg) (auto simp: apply_turn_update_def)

lemma after_turn_continues:
  assumes "after_turn cfg ctx new am rs goOn s = (Inr (Continue ls), s')"
  shows "\<exists>m t. config ls = cfg\<lparr>model := m, reasoning := t\<rparr>"
  using assms
  by (auto simp: after_turn_def end_run_def bind_io_def pure_io_def split: prod.splits sum.splits if_splits
      dest!: apply_turn_update_config) blast

lemma loop_turn_continues:
  assumes "loop_turn ls s = (Inr (Continue ls'), s')"
  obtains m t where "config ls' = (config ls)\<lparr>model := m, reasoning := t\<rparr>"
proof -
  have "\<exists>ctx new am rs goOn s1. after_turn (config ls) ctx new am rs goOn s1 = (Inr (Continue ls'), s')"
    using assms
    by (auto simp: loop_turn_def Let_def end_run_def bind_io_def pure_io_def split: prod.splits sum.splits if_splits) blast+
  then show ?thesis using after_turn_continues that by blast
qed

lemma loop_step_no_turn:
  assumes "\<not> (hasMoreToolCalls ls \<or> pendingMessages ls \<noteq> [])"
    and "loop_step ls s = (Inr (Continue ls'), s')"
  shows "hasMoreToolCalls ls'" and "config ls' = config ls"
  using assms
  by (auto simp: loop_step_def end_run_def bind_io_def pure_io_def split: prod.splits sum.splits if_splits)

section \<open>Turns keep the order\<close>

context run_order
begin

lemma within_each: "(\<And>x. within runs (f x)) \<Longrightarrow> within runs (each_io f xs)"
  by (induction xs) (auto intro!: within_rules)

lemma within_emit_message: "good cfg \<Longrightarrow> within runs (emit_message cfg m)"
  unfolding emit_message_def by (intro within_rules within_emit)

lemma within_poll: "keeps_opt R f \<Longrightarrow> within runs (poll f)"
  unfolding poll_def by (cases f) (auto simp: keeps_opt_def intro: within_pure within_external)

lemma within_finish_stream: "good cfg \<Longrightarrow> keeps R result \<Longrightarrow> within runs (finish_stream cfg result ctx added)"
  unfolding finish_stream_def by (intro within_rules within_emit within_external)

lemma within_stream_loop:
  assumes "good cfg" and "keeps R result"
  shows "\<forall>ev \<in> set evs. keeps R ev \<Longrightarrow> within runs (stream_loop cfg result evs ctx added)"
proof (induction evs arbitrary: ctx added)
  case Nil
  then show ?case using assms by (simp add: within_finish_stream)
next
  case (Cons ev evs)
  show ?case
    unfolding stream_loop.simps
  proof (rule within_bind)
    show "within runs (external ev)" using Cons.prems by (intro within_external) simp
    fix x :: stream_event
    show "within runs (case x of
          Stream_start partial \<Rightarrow>
            bind_io (emit cfg (Message_start (Assistant_msg partial))) (\<lambda>_.
              stream_loop cfg result evs (push_message ctx (Assistant_msg partial)) True)
        | Stream_delta partial \<Rightarrow>
            (if added
             then bind_io (emit cfg (Message_update (Assistant_msg partial))) (\<lambda>_.
               stream_loop cfg result evs (set_last_message ctx (Assistant_msg partial)) True)
             else stream_loop cfg result evs ctx added)
        | Stream_done \<Rightarrow> finish_stream cfg result ctx added)"
      using Cons by (cases x) (auto intro!: within_bind within_emit within_finish_stream assms)
  qed
qed

lemma within_response:
  assumes "good cfg" and "stream_keeps R response"
  shows "within runs (stream_loop cfg (stream_result response) (stream_events response) ctx added)"
  using assms(2) by (intro within_stream_loop assms(1)) (simp_all add: stream_keeps_def)

lemma within_resolve_api_key: "good cfg \<Longrightarrow> within runs (resolve_api_key cfg)"
  unfolding resolve_api_key_def by (intro within_rules within_external) (auto intro: goodD(3))

lemma within_context: "good cfg \<Longrightarrow>
    within runs (case transformContext cfg of None \<Rightarrow> pure_io (messages ctx) | Some f \<Rightarrow> external (f (messages ctx)))"
  by (intro within_rules within_external) (auto intro: goodD(2))

lemma within_stream_call:
  assumes cfg: "good cfg"
  shows "within runs (bind_io (external (streamFn cfg (model cfg) (ctx\<lparr>messages := ms\<rparr>) (reasoning cfg) key)) (\<lambda>response.
       stream_loop cfg (stream_result response) (stream_events response) ctx False))"
proof (rule within_bind_result)
  show "within runs (external (streamFn cfg (model cfg) (ctx\<lparr>messages := ms\<rparr>) (reasoning cfg) key))"
    by (intro within_external goodD(4) [OF cfg])
  fix s response and s' :: "'w run"
  assume "external (streamFn cfg (model cfg) (ctx\<lparr>messages := ms\<rparr>) (reasoning cfg) key) s = (Inr response, s')"
  then have "stream_keeps R response"
    by (auto simp: external_def split: prod.splits intro: goodD(5) [OF cfg])
  then show "within runs (stream_loop cfg (stream_result response) (stream_events response) ctx False)"
    by (rule within_response [OF cfg])
qed

lemma within_convert: "good cfg \<Longrightarrow> within runs (external (convertToLlm cfg ms))"
  by (intro within_external goodD(1))

lemma within_streamAssistantResponse: "good cfg \<Longrightarrow> within runs (streamAssistantResponse cfg ctx)"
  unfolding streamAssistantResponse_def
  by (rule within_bind [OF within_context], assumption, rule within_bind [OF within_convert], assumption,
      rule within_bind [OF within_resolve_api_key], assumption, rule within_stream_call)

lemma within_after_turn: "good cfg \<Longrightarrow> within runs (after_turn cfg ctx new am rs goOn)"
  unfolding after_turn_def end_run_def
proof (rule within_bind)
  assume cfg: "good cfg"
  show "within runs (case prepareNextTurn cfg of None \<Rightarrow> pure_io None | Some f \<Rightarrow> external (f am rs ctx new))"
    by (intro within_rules within_external) (rule goodD(8) [OF cfg])
  fix u
  obtain ctx' cfg' where u: "apply_turn_update u ctx cfg = (ctx', cfg')" by fastforce
  then have cfg': "good cfg'" using apply_turn_update_config good_update [OF cfg] by blast
  show "within runs (case apply_turn_update u ctx cfg of (ctx', cfg') \<Rightarrow>
     bind_io (case shouldStopAfterTurn cfg' of None \<Rightarrow> pure_io False | Some f \<Rightarrow> external (f am rs ctx' new)) (\<lambda>stop.
       if stop then bind_io (emit cfg' (Agent_end new)) (\<lambda>_. pure_io (Finished new))
       else bind_io (poll (getSteeringMessages cfg')) (\<lambda>pending.
         pure_io (Continue
           \<lparr>currentContext = ctx', newMessages = new, config = cfg', firstTurn = False, hasMoreToolCalls = goOn,
             pendingMessages = pending\<rparr>))))"
    unfolding u prod.case
    by (intro within_rules within_external within_emit within_poll cfg' goodD(6) [OF cfg'])
       (rule goodD(9) [OF cfg'])
qed

text \<open>A turn is the emission of its start, the response, and what follows it.\<close>

lemma within_turn_tail:
  "good cfg \<Longrightarrow>
   within runs (if c then bind_io (emit cfg (Turn_end am [])) (\<lambda>_. end_run cfg new)
     else bind_io (run_tools cfg ctx am) (\<lambda>(toolResults, goOn).
          bind_io (emit cfg (Turn_end am toolResults)) (\<lambda>_. after_turn cfg (f toolResults) (g toolResults) am toolResults goOn)))"
  unfolding end_run_def by (intro within_rules within_emit within_run_tools within_after_turn)

text \<open>A whole turn, a step of the loop, and the start of a run.\<close>

lemma within_loop_turn: "good (config ls) \<Longrightarrow> within runs (loop_turn ls)"
  unfolding loop_turn_def Let_def
  by (intro within_bind within_if within_pure within_emit within_each within_emit_message
      within_streamAssistantResponse within_prod within_turn_tail)

lemma within_loop_step: "good (config ls) \<Longrightarrow> within runs (loop_step ls)"
  using within_loop_turn within_poll [OF goodD(7)] within_emit
  by (auto simp: loop_step_def end_run_def intro!: within_bind within_if within_pure)

lemma within_begin_run: "good cfg \<Longrightarrow> within runs (begin_run prompts ctx cfg)"
  unfolding begin_run_def start_loop_def
  by (intro within_bind within_pure within_emit within_each within_emit_message within_poll goodD(6))

lemma good_step:
  assumes "loop_step ls s = (Inr (Continue ls'), s')" and "good (config ls)"
  shows "good (config ls')"
proof (cases "hasMoreToolCalls ls \<or> pendingMessages ls \<noteq> []")
  case True
  then have "loop_turn ls s = (Inr (Continue ls'), s')" using assms(1) by (simp add: loop_step_def)
  then show ?thesis by (rule loop_turn_continues) (simp add: assms(2) good_update)
next
  case False
  then show ?thesis using loop_step_no_turn [OF False assms(1)] assms(2) by simp
qed

text \<open>A run that returns has gone along the order.\<close>

lemma runLoop_within:
  "runLoop ls s = Some (r, s') \<Longrightarrow> good (config ls) \<Longrightarrow> runs s s'"
proof (induction rule: runLoop_induct)
  case (Continued ls s ls1 s1 r s')
  then show ?case using within_loop_step [of ls] good_step [of ls s ls1 s1]
    unfolding within_def by (metis runs_trans snd_conv)
qed (metis within_def within_loop_step snd_conv)+

end

section \<open>Orders on the world alone\<close>

text \<open>The configurations whose listener keeps the order, too.\<close>

definition heard :: "('w \<Rightarrow> 'w \<Rightarrow> bool) \<Rightarrow> 'w loop_config \<Rightarrow> bool" where
  "heard R cfg \<longleftrightarrow> config_keeps R cfg \<and> (\<forall>ev. keeps R (sink cfg ev))"

lemma heard_update [simp]: "heard R (cfg\<lparr>model := m, reasoning := t\<rparr>) = heard R cfg"
  by (simp add: heard_def)

lemma heard_config: "heard R cfg \<Longrightarrow> config_keeps R cfg"
  by (simp add: heard_def)

lemma heard_sink: "heard R cfg \<Longrightarrow> keeps R (sink cfg ev)"
  by (simp add: heard_def)

locale world_order =
  fixes R :: "'w \<Rightarrow> 'w \<Rightarrow> bool"
  assumes R_refl: "R w w"
    and R_trans: "R u v \<Longrightarrow> R v w \<Longrightarrow> R u w"

sublocale world_order \<subseteq> run_order R "\<lambda>s s'. R (world s) (world s')" "heard R"
proof (unfold_locales)
  show "R (world s) (world (snd (emit cfg ev s)))" if "heard R cfg" for cfg s ev
    using that by (cases "sink cfg ev (world s)") (auto simp: heard_def keeps_def emit_def external_def dest!: spec [of _ ev] spec [of _ "world s"])
qed (auto simp: heard_def keeps_def R_refl intro: R_trans)

end
