(* ===== verification/Agent_Termination.thy ===== *)
theory Agent_Termination
  imports Agent_Protocol Agent_Orders
begin

text \<open>
  When the agent loop ends. The loop itself has no bound: it goes on while the model calls tools or
  messages are queued. Two things make it end: a provider with a finite budget of responses, and an
  abort that the provider honours.
\<close>

section \<open>A provider with a budget\<close>

text \<open>No callback gives responses back, and every response asked for costs one.\<close>

definition budget :: "('w \<Rightarrow> nat) \<Rightarrow> 'w loop_config \<Rightarrow> bool" where
  "budget rank cfg \<longleftrightarrow>
     heard (\<lambda>w w'. rank w' \<le> rank w) cfg
     \<and> (\<forall>m c r k w st w'. streamFn cfg m c r k w = (Inr st, w') \<longrightarrow> rank w' < rank w)"

lemma budget_update [simp]: "budget rank (cfg\<lparr>model := m, reasoning := t\<rparr>) = budget rank cfg"
  by (simp add: budget_def)

interpretation fewer: world_order "\<lambda>w w'. rank w' \<le> (rank w :: nat)" for rank
  by unfold_locales auto

abbreviation saves :: "('w \<Rightarrow> nat) \<Rightarrow> ('w run, 'a) io \<Rightarrow> bool" where
  "saves rank \<equiv> within (\<lambda>s s'. rank (world s') \<le> rank (world s))"

definition spends :: "('w \<Rightarrow> nat) \<Rightarrow> ('w run, 'a) io \<Rightarrow> bool" where
  "spends rank m \<longleftrightarrow> (\<forall>s x s'. m s = (Inr x, s') \<longrightarrow> rank (world s') < rank (world s))"

lemma savesD: "saves rank m \<Longrightarrow> m s = (r, s') \<Longrightarrow> rank (world s') \<le> rank (world s)"
  unfolding within_def by (metis snd_conv)

lemma spends_then:
  assumes "saves rank m" and "\<And>x. spends rank (f x)"
  shows "spends rank (bind_io m f)"
  using assms(2) savesD [OF assms(1)]
  by (auto simp: spends_def bind_io_def split: prod.splits sum.splits) (meson order_less_le_trans)

lemma spends_first:
  assumes "spends rank m" and "\<And>x. saves rank (f x)"
  shows "spends rank (bind_io m f)"
  using assms(1) savesD [OF assms(2)]
  by (auto simp: spends_def bind_io_def split: prod.splits sum.splits) (meson order_le_less_trans)

lemma spends_streamAssistantResponse:
  assumes "budget rank cfg"
  shows "spends rank (streamAssistantResponse cfg ctx)"
proof -
  have cfg: "heard (\<lambda>w w'. rank w' \<le> rank w) cfg" using assms by (simp add: budget_def)
  have "spends rank (bind_io (external (streamFn cfg (model cfg) (ctx\<lparr>messages := ms\<rparr>) (reasoning cfg) key)) (\<lambda>response.
       stream_loop cfg (stream_result response) (stream_events response) ctx False))" for ms key
    unfolding spends_def
  proof (intro allI impI)
    fix s x and s' :: "'a run"
    let ?call = "external (streamFn cfg (model cfg) (ctx\<lparr>messages := ms\<rparr>) (reasoning cfg) key)"
    assume "bind_io ?call (\<lambda>response. stream_loop cfg (stream_result response) (stream_events response) ctx False) s = (Inr x, s')"
    then obtain response s1 where call: "?call s = (Inr response, s1)"
      and rest: "stream_loop cfg (stream_result response) (stream_events response) ctx False s1 = (Inr x, s')"
      by (auto simp: bind_io_def split: prod.splits sum.splits)
    from call obtain w where w: "streamFn cfg (model cfg) (ctx\<lparr>messages := ms\<rparr>) (reasoning cfg) key (world s) = (Inr response, w)"
      and s1: "s1 = s\<lparr>world := w\<rparr>"
      by (auto simp: external_def split: prod.splits)
    have "rank w < rank (world s)" using w assms unfolding budget_def by blast
    moreover have "saves rank (stream_loop cfg (stream_result response) (stream_events response) ctx False)"
      by (rule fewer.within_response [OF cfg config_keepsD(5) [OF heard_config [OF cfg] w]])
    from savesD [OF this rest] have "rank (world s') \<le> rank w" by (simp add: s1)
    ultimately show "rank (world s') < rank (world s)" by simp
  qed
  then show ?thesis
    unfolding streamAssistantResponse_def
    by (intro spends_then [OF fewer.within_context [OF cfg]] spends_then [OF fewer.within_convert [OF cfg]]
        spends_then [OF fewer.within_resolve_api_key [OF cfg]])
qed

lemma spends_loop_turn:
  assumes "budget rank (config ls)"
  shows "spends rank (loop_turn ls)"
proof -
  have cfg: "heard (\<lambda>w w'. rank w' \<le> rank w) (config ls)" using assms by (simp add: budget_def)
  show ?thesis
    unfolding loop_turn_def Let_def
    by (intro spends_then spends_first spends_streamAssistantResponse [OF assms] fewer.within_prod
        fewer.within_turn_tail [OF cfg] fewer.within_if fewer.within_pure fewer.within_emit [OF cfg]
        fewer.within_each fewer.within_emit_message [OF cfg])
qed

lemma budget_step:
  assumes "budget rank (config ls)" and step: "loop_step ls s = (Inr (Continue ls'), s')"
  shows "budget rank (config ls')"
    and "2 * rank (world s') + (if hasMoreToolCalls ls' \<or> pendingMessages ls' \<noteq> [] then 0 else 1)
      < 2 * rank (world s) + (if hasMoreToolCalls ls \<or> pendingMessages ls \<noteq> [] then 0 else 1 :: nat)"
proof -
  have cfg: "heard (\<lambda>w w'. rank w' \<le> rank w) (config ls)" using assms by (simp add: budget_def)
  have "budget rank (config ls') \<and> 2 * rank (world s') + (if hasMoreToolCalls ls' \<or> pendingMessages ls' \<noteq> [] then 0 else 1)
      < 2 * rank (world s) + (if hasMoreToolCalls ls \<or> pendingMessages ls \<noteq> [] then 0 else 1 :: nat)"
  proof (cases "hasMoreToolCalls ls \<or> pendingMessages ls \<noteq> []")
    case True
    then have turn: "loop_turn ls s = (Inr (Continue ls'), s')" using step by (simp add: loop_step_def)
    then have "rank (world s') < rank (world s)" using spends_loop_turn [OF assms(1)] unfolding spends_def by blast
    moreover have "budget rank (config ls')" using turn by (rule loop_turn_continues) (simp add: assms(1))
    ultimately show ?thesis using True by simp
  next
    case False
    from savesD [OF fewer.within_loop_step [OF cfg] step] have "rank (world s') \<le> rank (world s)" .
    then show ?thesis using loop_step_no_turn [OF False step] assms(1) False by simp
  qed
  then show "budget rank (config ls')"
    and "2 * rank (world s') + (if hasMoreToolCalls ls' \<or> pendingMessages ls' \<noteq> [] then 0 else 1)
      < 2 * rank (world s) + (if hasMoreToolCalls ls \<or> pendingMessages ls \<noteq> [] then 0 else 1 :: nat)"
    by blast+
qed

lemma budget_runLoop_ends:
  "budget rank (config ls) \<Longrightarrow> \<exists>r s'. runLoop ls s = Some (r, s')"
proof (induction "2 * rank (world s) + (if hasMoreToolCalls ls \<or> pendingMessages ls \<noteq> [] then 0 else 1)"
    arbitrary: ls s rule: less_induct)
  case less
  show ?case
  proof (cases "loop_step ls s")
    case (Pair r s1)
    show ?thesis
    proof (cases r)
      case (Inl e)
      with Pair show ?thesis by (subst runLoop.simps) simp
    next
      case (Inr nx)
      show ?thesis
      proof (cases nx)
        case (Finished ms)
        with Pair Inr show ?thesis by (subst runLoop.simps) simp
      next
        case (Continue ls1)
        with Pair Inr have step: "loop_step ls s = (Inr (Continue ls1), s1)" by simp
        from less.hyps [OF budget_step(2) [OF less.prems step] budget_step(1) [OF less.prems step]] step
        show ?thesis by (subst runLoop.simps) simp
      qed
    qed
  qed
qed

lemma begin_run_config: "begin_run prompts ctx cfg s = (Inr ls, s') \<Longrightarrow> config ls = cfg"
  by (auto simp: begin_run_def start_loop_def bind_io_def pure_io_def split: prod.splits sum.splits)

lemma run_from_ends_if:
  assumes "\<And>ls s. runLoop ls s \<noteq> None \<or> config ls \<noteq> cfg"
  shows "\<exists>r s'. run_from (begin_run prompts ctx cfg) s = Some (r, s')"
proof -
  obtain r s1 where b: "begin_run prompts ctx cfg s = (r, s1)" by fastforce
  show ?thesis
  proof (cases r)
    case (Inl e)
    with b show ?thesis by (simp add: run_from_def)
  next
    case (Inr ls)
    with b have "config ls = cfg" by (auto dest: begin_run_config)
    with assms have "runLoop ls s1 \<noteq> None" by blast
    with b Inr show ?thesis by (auto simp: run_from_def)
  qed
qed

text \<open>C18: The agent loop has no bound of its own: it goes on while the model calls tools or messages are
  queued. With a provider that has only finitely many responses to give, every run returns: new
  runs and continued ones, whatever the tools, hooks and queues do and however the tool calls of a
  turn interleave.\<close>

theorem agent_run_ends:
  assumes "budget rank cfg"
  shows "(\<exists>r s'. runAgentLoop prompts ctx cfg s = Some (r, s'))
    \<and> (\<exists>r s'. runAgentLoopContinue ctx cfg s = Some (r, s'))"
proof -
  have "runLoop ls s \<noteq> None \<or> config ls \<noteq> cfg" for ls s
    using budget_runLoop_ends [of rank ls s] assms by auto
  from run_from_ends_if [OF this] show ?thesis
    by (auto simp: runAgentLoop_def runAgentLoopContinue_def)
qed

lemma scripted_budget: "budget length scripted"
  by (auto simp: budget_def heard_def config_keeps_def callbacks_keep_def tools_keep_def keeps_def keeps_opt_def stream_keeps_def
      scripted_def scripted_stream_def split: list.splits)

theorem agent_run_ends_witness:
  "\<exists>r s'. runAgentLoop [User_msg ''go''] echo_context scripted \<lparr>world = [call_message, stop_message], trace = []\<rparr> = Some (r, s')"
  using agent_run_ends [OF scripted_budget, of "[User_msg ''go'']" echo_context] by blast

section \<open>A run after an abort\<close>

definition is_failed :: "assistant_message \<Rightarrow> bool" where
  "is_failed m \<longleftrightarrow> stopReason m = Error_stop \<or> stopReason m = Aborted_stop"

definition starts_tool :: "agent_event \<Rightarrow> bool" where
  "starts_tool ev = (case ev of Tool_execution_start _ _ _ \<Rightarrow> True | _ \<Rightarrow> False)"

text \<open>The abort signal is never reset during a run, and a response asked for when it is set ends as
  failed.\<close>

definition abortable :: "'w loop_config \<Rightarrow> bool" where
  "abortable cfg \<longleftrightarrow>
     heard (\<lambda>w w'. aborted cfg w \<longrightarrow> aborted cfg w') cfg
     \<and> (\<forall>m c r k w st w1 w2 final w3.
          aborted cfg w \<longrightarrow> streamFn cfg m c r k w = (Inr st, w1) \<longrightarrow>
          aborted cfg w2 \<longrightarrow> stream_result st w2 = (Inr final, w3) \<longrightarrow> is_failed final)"

lemma abortable_update [simp]: "abortable (cfg\<lparr>model := m, reasoning := t\<rparr>) = abortable cfg"
  by (simp add: abortable_def)

text \<open>Events after which a turn has ended at most \<open>n\<close> times, each time with a failed response and no results of tools,
  and no tool was started.\<close>

definition ends_turn :: "agent_event \<Rightarrow> bool" where
  "ends_turn ev = (case ev of Turn_end _ _ \<Rightarrow> True | _ \<Rightarrow> False)"

definition quiet :: "agent_event \<Rightarrow> bool" where
  "quiet ev \<longleftrightarrow> \<not> starts_tool ev \<and> (case ev of Turn_end am results \<Rightarrow> is_failed am \<and> results = [] | _ \<Rightarrow> True)"

definition winding :: "nat \<Rightarrow> agent_event list \<Rightarrow> bool" where
  "winding n evs \<longleftrightarrow> list_all quiet evs \<and> length (filter ends_turn evs) \<le> n"

lemma winding_append: "winding k evs \<Longrightarrow> winding n evs' \<Longrightarrow> winding (k + n) (evs @ evs')"
  by (auto simp: winding_def)

lemma winding_0: "winding 0 evs \<Longrightarrow> winding n evs' \<Longrightarrow> winding n (evs @ evs')"
  using winding_append [of 0 evs n evs'] by simp

lemma winding_Nil [simp]: "winding n []"
  by (simp add: winding_def)

text \<open>From a world where \<open>a\<close> holds, \<open>m\<close> keeps it, winds the run down and returns only what \<open>Q\<close> allows.\<close>

definition winds :: "('w \<Rightarrow> bool) \<Rightarrow> nat \<Rightarrow> ('w run, 'a) io \<Rightarrow> ('a \<Rightarrow> bool) \<Rightarrow> bool" where
  "winds a n m Q \<longleftrightarrow>
     (\<forall>s. a (world s) \<longrightarrow> a (world (snd (m s)))
        \<and> (\<exists>evs. trace (snd (m s)) = trace s @ evs \<and> winding n evs)
        \<and> (case fst (m s) of Inr x \<Rightarrow> Q x | Inl _ \<Rightarrow> True))"

lemma winds_pure: "Q x \<Longrightarrow> winds a 0 (pure_io x) Q"
  by (simp add: winds_def pure_io_def)

lemma winds_seq:
  assumes m: "winds a k m P" and f: "\<And>x. P x \<Longrightarrow> winds a n (f x) Q"
  shows "winds a (k + n) (bind_io m f) Q"
  unfolding winds_def
proof (intro allI impI)
  fix s :: "'a run"
  assume a: "a (world s)"
  obtain r s1 where r: "m s = (r, s1)" by fastforce
  with m a obtain evs where 1: "a (world s1)" "trace s1 = trace s @ evs" "winding k evs"
    and P: "case r of Inr x \<Rightarrow> P x | Inl _ \<Rightarrow> True"
    unfolding winds_def by fastforce
  show "a (world (snd (bind_io m f s)))
      \<and> (\<exists>evs. trace (snd (bind_io m f s)) = trace s @ evs \<and> winding (k + n) evs)
      \<and> (case fst (bind_io m f s) of Inr x \<Rightarrow> Q x | Inl _ \<Rightarrow> True)"
  proof (cases r)
    case (Inl e)
    moreover have "winding (k + n) evs" using 1(3) by (simp add: winding_def)
    ultimately show ?thesis using r 1 by (auto simp: bind_io_def)
  next
    case (Inr x)
    with P f have "winds a n (f x) Q" by simp
    with 1(1) obtain evs' where 2: "a (world (snd (f x s1)))" "trace (snd (f x s1)) = trace s1 @ evs'"
      "winding n evs'" "case fst (f x s1) of Inr x \<Rightarrow> Q x | Inl _ \<Rightarrow> True"
      unfolding winds_def by blast
    have step: "bind_io m f s = f x s1" using r Inr by (simp add: bind_io_def)
    have "trace (snd (f x s1)) = trace s @ (evs @ evs')" using 1(2) 2(2) by simp
    moreover have "winding (k + n) (evs @ evs')" using 1(3) 2(3) by (rule winding_append)
    ultimately show ?thesis using 2 unfolding step by blast
  qed
qed

lemma winds_bind: "winds a 0 m P \<Longrightarrow> (\<And>x. P x \<Longrightarrow> winds a n (f x) Q) \<Longrightarrow> winds a n (bind_io m f) Q"
  using winds_seq [of a 0 m P n f Q] by simp

lemma winds_external:
  assumes "keeps (\<lambda>w w'. a w \<longrightarrow> a w') m" and "\<And>w x w'. a w \<Longrightarrow> m w = (Inr x, w') \<Longrightarrow> Q x"
  shows "winds a 0 (external m) Q"
  unfolding winds_def
proof (intro allI impI)
  fix s :: "'a run"
  assume a: "a (world s)"
  obtain r w where m: "m (world s) = (r, w)" by fastforce
  have "a w" using assms(1) a m unfolding keeps_def by (metis snd_conv)
  moreover have "case r of Inr x \<Rightarrow> Q x | Inl _ \<Rightarrow> True" using assms(2) [OF a] m by (auto split: sum.splits)
  ultimately show "a (world (snd (external m s)))
      \<and> (\<exists>evs. trace (snd (external m s)) = trace s @ evs \<and> winding 0 evs)
      \<and> (case fst (external m s) of Inr x \<Rightarrow> Q x | Inl _ \<Rightarrow> True)"
    by (simp add: external_def m)
qed

lemma winds_any: "keeps (\<lambda>w w'. a w \<longrightarrow> a w') m \<Longrightarrow> winds a 0 (external m) (\<lambda>_. True)"
  by (rule winds_external) auto

lemma winds_event:
  assumes "heard (\<lambda>w w'. a w \<longrightarrow> a w') cfg" and "winding n [ev]"
  shows "winds a n (emit cfg ev) (\<lambda>_. True)"
  unfolding winds_def
proof (intro allI impI)
  fix s :: "'a run"
  assume a: "a (world s)"
  obtain r w where m: "sink cfg ev (world s) = (r, w)" by fastforce
  have "a w" using heard_sink [OF assms(1), of ev] a m unfolding keeps_def by (metis snd_conv)
  then show "a (world (snd (emit cfg ev s)))
      \<and> (\<exists>evs. trace (snd (emit cfg ev s)) = trace s @ evs \<and> winding n evs)
      \<and> (case fst (emit cfg ev s) of Inr x \<Rightarrow> True | Inl _ \<Rightarrow> True)"
    by (auto simp: emit_def external_def m assms(2) split: sum.splits)
qed

lemma winds_emit:
  assumes "heard (\<lambda>w w'. a w \<longrightarrow> a w') cfg" and "\<not> starts_tool ev" "\<not> ends_turn ev"
  shows "winds a 0 (emit cfg ev) (\<lambda>_. True)"
proof (rule winds_event [OF assms(1)])
  show "winding 0 [ev]" using assms(2,3) by (cases ev) (simp_all add: winding_def quiet_def ends_turn_def)
qed

lemma winds_poll: "keeps_opt (\<lambda>w w'. a w \<longrightarrow> a w') f \<Longrightarrow> winds a 0 (poll f) (\<lambda>_. True)"
  by (cases f) (auto simp: poll_def keeps_opt_def intro: winds_pure winds_any)

lemma winds_each:
  "(\<And>x. winds a 0 (f x) (\<lambda>_. True)) \<Longrightarrow> winds a 0 (each_io f xs) (\<lambda>_. True)"
  by (induction xs) (auto intro: winds_pure winds_bind)

lemma winds_emit_message:
  "heard (\<lambda>w w'. a w \<longrightarrow> a w') cfg \<Longrightarrow> winds a 0 (emit_message cfg m) (\<lambda>_. True)"
  unfolding emit_message_def
  by (intro winds_bind [where P = "\<lambda>_. True"] winds_emit) (auto simp: starts_tool_def ends_turn_def)

lemma winds_finish_stream:
  assumes "heard (\<lambda>w w'. a w \<longrightarrow> a w') cfg" and "keeps (\<lambda>w w'. a w \<longrightarrow> a w') result"
    and "\<And>w final w'. a w \<Longrightarrow> result w = (Inr final, w') \<Longrightarrow> is_failed final"
  shows "winds a 0 (finish_stream cfg result ctx added) (\<lambda>(ctx, am). is_failed am)"
  unfolding finish_stream_def
proof (rule winds_bind)
  show "winds a 0 (external result) is_failed" using assms(2,3) by (intro winds_external)
  fix final
  assume "is_failed final"
  then show "winds a 0 (if added
       then bind_io (emit cfg (Message_end (Assistant_msg final))) (\<lambda>_. pure_io (set_last_message ctx (Assistant_msg final), final))
       else bind_io (emit cfg (Message_start (Assistant_msg final))) (\<lambda>_.
            bind_io (emit cfg (Message_end (Assistant_msg final))) (\<lambda>_. pure_io (push_message ctx (Assistant_msg final), final))))
     (\<lambda>(ctx, am). is_failed am)"
    using winds_emit [OF assms(1)] by (auto simp: starts_tool_def ends_turn_def intro!: winds_bind [where P = "\<lambda>_. True"] winds_pure)
qed

lemma winds_stream_loop:
  assumes cfg: "heard (\<lambda>w w'. a w \<longrightarrow> a w') cfg" and result: "keeps (\<lambda>w w'. a w \<longrightarrow> a w') result"
    and failed: "\<And>w final w'. a w \<Longrightarrow> result w = (Inr final, w') \<Longrightarrow> is_failed final"
  shows "\<forall>ev \<in> set evs. keeps (\<lambda>w w'. a w \<longrightarrow> a w') ev \<Longrightarrow>
    winds a 0 (stream_loop cfg result evs ctx added) (\<lambda>(ctx, am). is_failed am)"
proof (induction evs arbitrary: ctx added)
  case Nil
  then show ?case using winds_finish_stream [OF cfg result failed] by simp
next
  case (Cons ev evs)
  have end_case: "winds a 0 (finish_stream cfg result ctx added) (\<lambda>(ctx, am). is_failed am)"
    by (rule winds_finish_stream [OF cfg result failed])
  have emit: "winds a 0 (emit cfg ev) (\<lambda>_. True)" if "\<not> starts_tool ev" "\<not> ends_turn ev" for ev
    using winds_emit [OF cfg that] .
  show ?case
    unfolding stream_loop.simps
  proof (rule winds_bind [where P = "\<lambda>_. True"])
    show "winds a 0 (external ev) (\<lambda>_. True)" using Cons.prems by (intro winds_any) simp
    fix x :: stream_event
    show "winds a 0 (case x of
          Stream_start partial \<Rightarrow>
            bind_io (emit cfg (Message_start (Assistant_msg partial))) (\<lambda>_.
              stream_loop cfg result evs (push_message ctx (Assistant_msg partial)) True)
        | Stream_delta partial \<Rightarrow>
            (if added
             then bind_io (emit cfg (Message_update (Assistant_msg partial))) (\<lambda>_.
               stream_loop cfg result evs (set_last_message ctx (Assistant_msg partial)) True)
             else stream_loop cfg result evs ctx added)
        | Stream_done \<Rightarrow> finish_stream cfg result ctx added) (\<lambda>(ctx, am). is_failed am)"
      using Cons end_case
      by (cases x) (auto simp: starts_tool_def ends_turn_def intro!: winds_bind [where P = "\<lambda>_. True"] emit)
  qed
qed

lemma winds_streamAssistantResponse:
  assumes "abortable cfg"
  shows "winds (aborted cfg) 0 (streamAssistantResponse cfg ctx) (\<lambda>(ctx, am). is_failed am)"
proof -
  let ?R = "\<lambda>w w'. aborted cfg w \<longrightarrow> aborted cfg w'"
  have cfg: "heard ?R cfg" using assms by (simp add: abortable_def)
  have call: "winds (aborted cfg) 0 (bind_io (external (streamFn cfg (model cfg) (ctx\<lparr>messages := ms\<rparr>) (reasoning cfg) key)) (\<lambda>response.
       stream_loop cfg (stream_result response) (stream_events response) ctx False)) (\<lambda>(ctx, am). is_failed am)" for ms key
  proof (rule winds_bind)
    let ?ok = "\<lambda>st. stream_keeps ?R st
      \<and> (\<forall>w final w'. aborted cfg w \<longrightarrow> stream_result st w = (Inr final, w') \<longrightarrow> is_failed final)"
    have "stream_keeps ?R st \<and> (\<forall>w final w'. aborted cfg w \<longrightarrow> stream_result st w = (Inr final, w') \<longrightarrow> is_failed final)"
      if "aborted cfg w" "streamFn cfg (model cfg) (ctx\<lparr>messages := ms\<rparr>) (reasoning cfg) key w = (Inr st, w')" for w st w'
      using config_keepsD(5) [OF heard_config [OF cfg] that(2)] that assms unfolding abortable_def by blast
    then show "winds (aborted cfg) 0 (external (streamFn cfg (model cfg) (ctx\<lparr>messages := ms\<rparr>) (reasoning cfg) key)) ?ok"
      by (rule winds_external [OF config_keepsD(4) [OF heard_config [OF cfg]]])
    fix response :: "'a response_stream"
    assume "?ok response"
    then show "winds (aborted cfg) 0 (stream_loop cfg (stream_result response) (stream_events response) ctx False)
       (\<lambda>(ctx, am). is_failed am)"
      by (intro winds_stream_loop [OF cfg]) (auto simp: stream_keeps_def)
  qed
  have first: "winds (aborted cfg) 0 (case transformContext cfg of None \<Rightarrow> pure_io (messages ctx) | Some f \<Rightarrow> external (f (messages ctx))) (\<lambda>_. True)"
    by (auto split: option.splits intro: winds_pure winds_any config_keepsD(2) [OF heard_config [OF cfg]])
  have key: "winds (aborted cfg) 0 (resolve_api_key cfg) (\<lambda>_. True)"
    unfolding resolve_api_key_def
    by (rule winds_bind [where P = "\<lambda>_. True"])
       (auto split: option.splits intro: winds_pure winds_any config_keepsD(3) [OF heard_config [OF cfg]])
  show ?thesis
    unfolding streamAssistantResponse_def
    by (rule winds_bind [OF first], rule winds_bind [OF winds_any [OF config_keepsD(1) [OF heard_config [OF cfg]]]],
        rule winds_bind [OF key], rule call)
qed

lemma winds_loop_turn:
  assumes "abortable (config ls)"
  shows "winds (aborted (config ls)) 1 (loop_turn ls) (\<lambda>nx. \<exists>ms. nx = Finished ms)"
proof -
  let ?a = "aborted (config ls)"
  have cfg: "heard (\<lambda>w w'. ?a w \<longrightarrow> ?a w') (config ls)" using assms by (simp add: abortable_def)
  have start: "winds ?a 0 (if firstTurn ls then pure_io () else emit (config ls) Turn_start) (\<lambda>_. True)"
    using winds_emit [OF cfg] by (auto simp: starts_tool_def ends_turn_def intro: winds_pure)
  have finish: "winds ?a 1 (bind_io (emit (config ls) (Turn_end am [])) (\<lambda>_. end_run (config ls) new)) (\<lambda>nx. \<exists>ms. nx = Finished ms)"
    if "is_failed am" for am new
  proof -
    have "winds ?a 0 (end_run (config ls) new) (\<lambda>nx. \<exists>ms. nx = Finished ms)"
      unfolding end_run_def
      by (intro winds_bind [where P = "\<lambda>_. True"] winds_emit [OF cfg] winds_pure) (auto simp: starts_tool_def ends_turn_def)
    moreover have "winds ?a 1 (emit (config ls) (Turn_end am [])) (\<lambda>_. True)"
      using that by (intro winds_event [OF cfg]) (simp add: winding_def quiet_def starts_tool_def)
    ultimately show ?thesis
      using winds_seq [of ?a 1 "emit (config ls) (Turn_end am [])" "\<lambda>_. True" 0] by simp
  qed
  show ?thesis
    unfolding loop_turn_def Let_def
    by (rule winds_bind [OF start], rule winds_bind [OF winds_each [OF winds_emit_message [OF cfg]]],
        rule winds_bind [OF winds_streamAssistantResponse [OF assms]])
       (auto simp: is_failed_def finish [unfolded One_nat_def])
qed

lemma abort_ends_turn:
  assumes "abortable (config ls)" and "aborted (config ls) (world s)" and go: "hasMoreToolCalls ls \<or> pendingMessages ls \<noteq> []"
  shows "\<exists>r s'. runLoop ls s = Some (r, s') \<and> (\<exists>evs. trace s' = trace s @ evs \<and> winding 1 evs)"
proof -
  obtain r s' where turn: "loop_turn ls s = (r, s')" by fastforce
  with winds_loop_turn [OF assms(1)] assms(2)
  have evs: "\<exists>evs. trace s' = trace s @ evs \<and> winding 1 evs"
    and r: "case r of Inr nx \<Rightarrow> \<exists>ms. nx = Finished ms | Inl _ \<Rightarrow> True"
    unfolding winds_def by fastforce+
  have "loop_step ls s = (r, s')" using turn go by (simp add: loop_step_def)
  with r have "\<exists>r'. runLoop ls s = Some (r', s')" by (subst runLoop.simps) (auto split: sum.splits)
  with evs show ?thesis by blast
qed

text \<open>C14: Once the abort signal is set, the loop ends: from any state it returns, with at most one more turn, whose
  response ended as failed and which has no results, and starts no further tool. This needs of the provider what
  its interface asks of it, that a response requested under a set signal ends as failed, and of all callbacks that they do not
  reset the signal.\<close>

theorem abort_ends_run:
  assumes "abortable (config ls)" and "aborted (config ls) (world s)"
  shows "\<exists>r s'. runLoop ls s = Some (r, s') \<and> (\<exists>evs. trace s' = trace s @ evs \<and> winding 1 evs)"
proof (cases "hasMoreToolCalls ls \<or> pendingMessages ls \<noteq> []")
  case True
  then show ?thesis by (rule abort_ends_turn [OF assms])
next
  case False
  let ?a = "aborted (config ls)"
  have cfg: "heard (\<lambda>w w'. ?a w \<longrightarrow> ?a w') (config ls)" using assms by (simp add: abortable_def)
  have "winds ?a 0 (loop_step ls) (\<lambda>_. True)"
    using False winds_poll [OF config_keepsD(7) [OF heard_config [OF cfg]]] winds_emit [OF cfg]
    by (auto simp: loop_step_def end_run_def starts_tool_def ends_turn_def
        intro!: winds_bind [where P = "\<lambda>_. True"] winds_pure)
  moreover obtain r s1 where step: "loop_step ls s = (r, s1)" by fastforce
  ultimately obtain evs where s1: "?a (world s1)" "trace s1 = trace s @ evs" "winding 0 evs"
    using assms(2) unfolding winds_def by fastforce
  show ?thesis
  proof (cases "\<exists>ls1. r = Inr (Continue ls1)")
    case True
    then obtain ls1 where r: "r = Inr (Continue ls1)" by blast
    with step have ls1: "hasMoreToolCalls ls1" "config ls1 = config ls" using loop_step_no_turn [OF False] by blast+
    then obtain r' s' evs' where run: "runLoop ls1 s1 = Some (r', s')" and 2: "trace s' = trace s1 @ evs'"
      "winding 1 evs'"
      using abort_ends_turn [of ls1 s1] assms(1) s1(1) by auto
    have "runLoop ls s = Some (r', s')" using run step r by (subst runLoop.simps) simp
    moreover have "trace s' = trace s @ (evs @ evs')" "winding 1 (evs @ evs')"
      using s1(2) 2 winding_0 [OF s1(3)] by auto
    ultimately show ?thesis by blast
  next
    case False
    then have "\<exists>r'. runLoop ls s = Some (r', s1)"
      using step by (subst runLoop.simps) (auto split: sum.splits loop_next.splits)
    moreover have "winding 1 evs" using s1(3) by (simp add: winding_def)
    ultimately show ?thesis using s1(2) by blast
  qed
qed

text \<open>A provider that ends every response as aborted, under a set signal.\<close>

definition aborted_message :: assistant_message where
  "aborted_message = \<lparr>content = [], stopReason = Aborted_stop, errorMessage = Some ''aborted''\<rparr>"

definition aborted_run :: "assistant_message list loop_state" where
  "aborted_run =
     \<lparr>currentContext = echo_context, newMessages = [],
      config = scripted\<lparr>aborted := (\<lambda>w. True),
        streamFn := (\<lambda>m ctx r k w. (Inr \<lparr>stream_events = [], stream_result = (\<lambda>v. (Inr aborted_message, v))\<rparr>, w))\<rparr>,
      firstTurn = False, hasMoreToolCalls = True, pendingMessages = []\<rparr>"

lemma aborted_run_abortable: "abortable (config aborted_run)"
  by (auto simp: abortable_def heard_def config_keeps_def callbacks_keep_def tools_keep_def keeps_def keeps_opt_def stream_keeps_def
      aborted_run_def scripted_def is_failed_def aborted_message_def)

theorem abort_ends_run_witness:
  "\<exists>r s'. runLoop aborted_run \<lparr>world = [], trace = []\<rparr> = Some (r, s')
    \<and> (\<exists>evs. trace s' = [] @ evs \<and> winding 1 evs)"
  using abort_ends_run [OF aborted_run_abortable, of "\<lparr>world = [], trace = []\<rparr>"]
  by (auto simp: aborted_run_def)

end
