(* ===== verification/Agent_Run.thy ===== *)
theory Agent_Run
  imports Agent_Termination
begin

text \<open>
  The agent (\<open>packages/agent/src/agent.ts\<close>): the owner of a transcript, which runs the agent loop one run at
  a time, reduces the loop's events to its state, tells its listeners, and keeps the queues of
  steering and follow-up messages. The agent is the world of its own runs, so its callbacks and
  listeners are functions of it.
\<close>

section \<open>Queues\<close>

datatype queue_mode = All | One_at_a_time

record pending_queue =
  q_messages :: "chat_message list"
  q_mode :: queue_mode

definition enqueue :: "chat_message \<Rightarrow> pending_queue \<Rightarrow> pending_queue" where
  "enqueue m q = q\<lparr>q_messages := q_messages q @ [m]\<rparr>"

definition hasItems :: "pending_queue \<Rightarrow> bool" where
  "hasItems q = (length (q_messages q) > 0)"

definition drain :: "pending_queue \<Rightarrow> chat_message list \<times> pending_queue" where
  "drain q =
     (case q_mode q of
        All \<Rightarrow> (q_messages q, q\<lparr>q_messages := []\<rparr>)
      | One_at_a_time \<Rightarrow>
          (case q_messages q of [] \<Rightarrow> ([], q) | first # rest \<Rightarrow> ([first], q\<lparr>q_messages := rest\<rparr>)))"

definition clear_queue :: "pending_queue \<Rightarrow> pending_queue" where
  "clear_queue q = q\<lparr>q_messages := []\<rparr>"

section \<open>The state of an agent\<close>

text \<open>\<open>activeRun\<close> holds whether the abort signal of the run is set; \<open>outer\<close> is the rest of the program.\<close>

record 'x agent =
  st_systemPrompt :: string
  st_model :: llm_model
  st_thinkingLevel :: string
  st_tools :: "agent_tool list"
  st_messages :: "chat_message list"
  st_isStreaming :: bool
  st_streamingMessage :: "chat_message option"
  st_pendingToolCalls :: "string list"
  st_errorMessage :: "string option"
  steeringQueue :: pending_queue
  followUpQueue :: pending_queue
  activeRun :: "bool option"
  skipInitialSteeringPoll :: bool
  outer :: 'x

definition steer :: "chat_message \<Rightarrow> 'x agent \<Rightarrow> 'x agent" where
  "steer m a = a\<lparr>steeringQueue := enqueue m (steeringQueue a)\<rparr>"

definition followUp :: "chat_message \<Rightarrow> 'x agent \<Rightarrow> 'x agent" where
  "followUp m a = a\<lparr>followUpQueue := enqueue m (followUpQueue a)\<rparr>"

definition set_steeringMode :: "queue_mode \<Rightarrow> 'x agent \<Rightarrow> 'x agent" where
  "set_steeringMode mode a = a\<lparr>steeringQueue := (steeringQueue a)\<lparr>q_mode := mode\<rparr>\<rparr>"

definition set_followUpMode :: "queue_mode \<Rightarrow> 'x agent \<Rightarrow> 'x agent" where
  "set_followUpMode mode a = a\<lparr>followUpQueue := (followUpQueue a)\<lparr>q_mode := mode\<rparr>\<rparr>"

definition clearSteeringQueue :: "'x agent \<Rightarrow> 'x agent" where
  "clearSteeringQueue a = a\<lparr>steeringQueue := clear_queue (steeringQueue a)\<rparr>"

definition clearFollowUpQueue :: "'x agent \<Rightarrow> 'x agent" where
  "clearFollowUpQueue a = a\<lparr>followUpQueue := clear_queue (followUpQueue a)\<rparr>"

definition clearAllQueues :: "'x agent \<Rightarrow> 'x agent" where
  "clearAllQueues a = clearFollowUpQueue (clearSteeringQueue a)"

definition hasQueuedMessages :: "'x agent \<Rightarrow> bool" where
  "hasQueuedMessages a = (hasItems (steeringQueue a) \<or> hasItems (followUpQueue a))"

definition abort :: "'x agent \<Rightarrow> 'x agent" where
  "abort a = a\<lparr>activeRun := map_option (\<lambda>_. True) (activeRun a)\<rparr>"

definition reset :: "'x agent \<Rightarrow> 'x agent" where
  "reset a = clearSteeringQueue (clearFollowUpQueue
     (a\<lparr>st_messages := [], st_isStreaming := False, st_streamingMessage := None, st_pendingToolCalls := [],
        st_errorMessage := None\<rparr>))"

text \<open>A set of tool call ids, in the order they were added.\<close>

definition add_id :: "string \<Rightarrow> string list \<Rightarrow> string list" where
  "add_id i ids = (if i \<in> set ids then ids else ids @ [i])"

definition reduce_event :: "agent_event \<Rightarrow> 'x agent \<Rightarrow> 'x agent" where
  "reduce_event ev a =
     (case ev of
        Message_start m \<Rightarrow> a\<lparr>st_streamingMessage := Some m\<rparr>
      | Message_update m \<Rightarrow> a\<lparr>st_streamingMessage := Some m\<rparr>
      | Message_end m \<Rightarrow> a\<lparr>st_streamingMessage := None, st_messages := st_messages a @ [m]\<rparr>
      | Tool_execution_start i n args \<Rightarrow> a\<lparr>st_pendingToolCalls := add_id i (st_pendingToolCalls a)\<rparr>
      | Tool_execution_end i n r e \<Rightarrow> a\<lparr>st_pendingToolCalls := removeAll i (st_pendingToolCalls a)\<rparr>
      | Turn_end m rs \<Rightarrow>
          (case errorMessage m of
             None \<Rightarrow> a
           | Some e \<Rightarrow> if e \<noteq> [] then a\<lparr>st_errorMessage := Some e\<rparr> else a)
      | Agent_end ms \<Rightarrow> a\<lparr>st_streamingMessage := None\<rparr>
      | _ \<Rightarrow> a)"

section \<open>The configuration of a run\<close>

text \<open>The callbacks an agent is made with, and its listeners in the order they subscribed; then what the
  loop calls of its environment.\<close>

record 'x agent_options =
  o_convertToLlm :: "(chat_message list \<Rightarrow> ('x agent, chat_message list) io) option"
  o_transformContext :: "(chat_message list \<Rightarrow> ('x agent, chat_message list) io) option"
  o_streamFn :: "llm_model \<Rightarrow> agent_context \<Rightarrow> string option \<Rightarrow> string option \<Rightarrow> ('x agent, 'x agent response_stream) io"
  o_getApiKey :: "(string \<Rightarrow> ('x agent, string option) io) option"
  o_beforeToolCall :: "(assistant_message \<Rightarrow> tool_call \<Rightarrow> string \<Rightarrow> agent_context \<Rightarrow> ('x agent, before_result option) io) option"
  o_afterToolCall :: "(assistant_message \<Rightarrow> tool_call \<Rightarrow> string \<Rightarrow> tool_result \<Rightarrow> bool \<Rightarrow> agent_context
      \<Rightarrow> ('x agent, after_result option) io) option"
  o_prepareNextTurn :: "('x agent, turn_update option) io option"
  o_prepareNextTurnWithContext :: "(assistant_message \<Rightarrow> tool_result_message list \<Rightarrow> agent_context \<Rightarrow> chat_message list
      \<Rightarrow> ('x agent, turn_update option) io) option"
  o_toolExecution :: "execution_mode option"
  listeners :: "(agent_event \<Rightarrow> ('x agent, unit) io) list"
  o_prepareArguments :: "agent_tool \<Rightarrow> (string \<Rightarrow> ('x agent, string) io) option"
  o_validateToolArguments :: "agent_tool \<Rightarrow> tool_call \<Rightarrow> ('x agent, string) io"
  o_execute :: "agent_tool \<Rightarrow> string \<Rightarrow> string \<Rightarrow> 'x agent execution"
  o_clock :: "'x agent \<Rightarrow> int"
  o_schedule :: "nat \<Rightarrow> 'x agent \<Rightarrow> nat \<times> 'x agent"

definition defaultConvertToLlm :: "chat_message list \<Rightarrow> chat_message list" where
  "defaultConvertToLlm ms =
     filter (\<lambda>m. case m of User_msg _ \<Rightarrow> True | Assistant_msg _ \<Rightarrow> True | Result_msg _ \<Rightarrow> True | _ \<Rightarrow> False) ms"

definition createContextSnapshot :: "'x agent \<Rightarrow> agent_context" where
  "createContextSnapshot a = \<lparr>systemPrompt = st_systemPrompt a, messages = st_messages a, tools = st_tools a\<rparr>"

definition poll_steering :: "('x agent, chat_message list) io" where
  "poll_steering a =
     (if skipInitialSteeringPoll a then (Inr [], a\<lparr>skipInitialSteeringPoll := False\<rparr>)
      else case drain (steeringQueue a) of (ms, q) \<Rightarrow> (Inr ms, a\<lparr>steeringQueue := q\<rparr>))"

definition poll_followUp :: "('x agent, chat_message list) io" where
  "poll_followUp a = (case drain (followUpQueue a) of (ms, q) \<Rightarrow> (Inr ms, a\<lparr>followUpQueue := q\<rparr>))"

definition processEvents :: "'x agent_options \<Rightarrow> agent_event \<Rightarrow> ('x agent, unit) io" where
  "processEvents opts ev a =
     (let a = reduce_event ev a in
      if activeRun a = None then (Inl ''Agent listener invoked outside active run'', a)
      else each_io (\<lambda>listener. listener ev) (listeners opts) a)"

definition createLoopConfig :: "'x agent_options \<Rightarrow> 'x agent \<Rightarrow> 'x agent loop_config" where
  "createLoopConfig opts a =
     \<lparr>model = st_model a,
      reasoning = (if st_thinkingLevel a = ''off'' then None else Some (st_thinkingLevel a)),
      apiKey = None,
      toolExecution = Some (case o_toolExecution opts of Some m \<Rightarrow> m | None \<Rightarrow> Parallel),
      convertToLlm = (case o_convertToLlm opts of Some f \<Rightarrow> f | None \<Rightarrow> (\<lambda>ms. pure_io (defaultConvertToLlm ms))),
      transformContext = o_transformContext opts,
      getApiKey = o_getApiKey opts,
      streamFn = o_streamFn opts,
      getSteeringMessages = Some poll_steering,
      getFollowUpMessages = Some poll_followUp,
      prepareNextTurn =
        (case o_prepareNextTurnWithContext opts of
           Some f \<Rightarrow> Some f
         | None \<Rightarrow> (case o_prepareNextTurn opts of Some f \<Rightarrow> Some (\<lambda>m rs ctx new. f) | None \<Rightarrow> None)),
      shouldStopAfterTurn = None,
      beforeToolCall = o_beforeToolCall opts,
      afterToolCall = o_afterToolCall opts,
      prepareArguments = o_prepareArguments opts,
      validateToolArguments = o_validateToolArguments opts,
      execute = o_execute opts,
      aborted = (\<lambda>a. activeRun a = Some True),
      clock = o_clock opts,
      sink = processEvents opts,
      schedule = o_schedule opts\<rparr>"

section \<open>Runs\<close>

definition deliver :: "'x agent_options \<Rightarrow> agent_event \<Rightarrow> ('x agent run, unit) io" where
  "deliver opts ev r = external (processEvents opts ev) (r\<lparr>trace := trace r @ [ev]\<rparr>)"

definition failure_message :: "string \<Rightarrow> bool \<Rightarrow> assistant_message" where
  "failure_message error was_aborted =
     \<lparr>content = [Text_block ''''], stopReason = (if was_aborted then Aborted_stop else Error_stop), errorMessage = Some error\<rparr>"

definition handleRunFailure :: "'x agent_options \<Rightarrow> string \<Rightarrow> bool \<Rightarrow> ('x agent run, unit) io" where
  "handleRunFailure opts error was_aborted =
     (let m = failure_message error was_aborted in
      bind_io (deliver opts (Message_start (Assistant_msg m))) (\<lambda>_.
      bind_io (deliver opts (Message_end (Assistant_msg m))) (\<lambda>_.
      bind_io (deliver opts (Turn_end m [])) (\<lambda>_.
        deliver opts (Agent_end [Assistant_msg m])))))"

definition finishRun :: "'x agent \<Rightarrow> 'x agent" where
  "finishRun a = a\<lparr>st_isStreaming := False, st_streamingMessage := None, st_pendingToolCalls := [], activeRun := None\<rparr>"

definition start_run :: "'x agent \<Rightarrow> 'x agent" where
  "start_run a = a\<lparr>activeRun := Some False, st_isStreaming := True, st_streamingMessage := None, st_errorMessage := None\<rparr>"

definition at_world :: "('w \<Rightarrow> 'w) \<Rightarrow> 'w run \<Rightarrow> 'w run" where
  "at_world f s = s\<lparr>world := f (world s)\<rparr>"

definition runWithLifecycle ::
  "'x agent_options \<Rightarrow> ('x agent run \<Rightarrow> ((string + chat_message list) \<times> 'x agent run) option)
     \<Rightarrow> 'x agent run \<Rightarrow> ((string + unit) \<times> 'x agent run) option" where
  "runWithLifecycle opts executor s =
     (if activeRun (world s) \<noteq> None then Some (Inl ''Agent is already processing.'', s)
      else
        (case executor (at_world start_run s) of
           None \<Rightarrow> None
         | Some (Inr ms, s1) \<Rightarrow> Some (Inr (), at_world finishRun s1)
         | Some (Inl error, s1) \<Rightarrow>
             (case handleRunFailure opts error (activeRun (world s1) = Some True) s1 of
                (r, s2) \<Rightarrow> Some (r, at_world finishRun s2))))"

definition runPromptMessages ::
  "'x agent_options \<Rightarrow> chat_message list \<Rightarrow> bool \<Rightarrow> 'x agent run \<Rightarrow> ((string + unit) \<times> 'x agent run) option" where
  "runPromptMessages opts ms skip =
     runWithLifecycle opts (\<lambda>s.
       runAgentLoop ms (createContextSnapshot (world s)) (createLoopConfig opts (world s))
         (at_world (\<lambda>a. a\<lparr>skipInitialSteeringPoll := skip\<rparr>) s))"

definition runContinuation ::
  "'x agent_options \<Rightarrow> 'x agent run \<Rightarrow> ((string + unit) \<times> 'x agent run) option" where
  "runContinuation opts =
     runWithLifecycle opts (\<lambda>s.
       runAgentLoopContinue (createContextSnapshot (world s)) (createLoopConfig opts (world s))
         (at_world (\<lambda>a. a\<lparr>skipInitialSteeringPoll := False\<rparr>) s))"

datatype prompt_input = Prompt_text string | Prompt_message chat_message | Prompt_batch "chat_message list"

definition normalizePromptInput :: "prompt_input \<Rightarrow> chat_message list" where
  "normalizePromptInput i = (case i of Prompt_batch ms \<Rightarrow> ms | Prompt_message m \<Rightarrow> [m] | Prompt_text t \<Rightarrow> [User_msg t])"

definition prompt ::
  "'x agent_options \<Rightarrow> prompt_input \<Rightarrow> 'x agent run \<Rightarrow> ((string + unit) \<times> 'x agent run) option" where
  "prompt opts input s =
     (if activeRun (world s) \<noteq> None
      then Some (Inl ''Agent is already processing a prompt. Use steer() or followUp() to queue messages, or wait for completion.'', s)
      else runPromptMessages opts (normalizePromptInput input) False s)"

definition continue ::
  "'x agent_options \<Rightarrow> 'x agent run \<Rightarrow> ((string + unit) \<times> 'x agent run) option" where
  "continue opts s =
     (let a = world s in
      if activeRun a \<noteq> None then Some (Inl ''Agent is already processing. Wait for completion before continuing.'', s)
      else if st_messages a = [] then Some (Inl ''No messages to continue from'', s)
      else if is_assistant (last (st_messages a))
      then
        (case drain (steeringQueue a) of (queuedSteering, q) \<Rightarrow>
           if queuedSteering \<noteq> []
           then runPromptMessages opts queuedSteering True (at_world (\<lambda>a. a\<lparr>steeringQueue := q\<rparr>) s)
           else (case drain (followUpQueue a) of (queuedFollowUps, q') \<Rightarrow>
             if queuedFollowUps \<noteq> []
             then runPromptMessages opts queuedFollowUps False (at_world (\<lambda>a. a\<lparr>followUpQueue := q'\<rparr>) s)
             else Some (Inl ''Cannot continue from message role: assistant'', s)))
      else runContinuation opts s)"

section \<open>The queues are first in, first out\<close>

text \<open>What a caller does to one queue, and the batches it drains.\<close>

datatype queue_op = Enqueue chat_message | Drain | Set_mode queue_mode

fun run_queue :: "queue_op list \<Rightarrow> pending_queue \<Rightarrow> chat_message list list \<times> pending_queue" where
  "run_queue [] q = ([], q)"
| "run_queue (Enqueue m # ops) q = run_queue ops (enqueue m q)"
| "run_queue (Set_mode mode # ops) q = run_queue ops (q\<lparr>q_mode := mode\<rparr>)"
| "run_queue (Drain # ops) q =
     (case drain q of (ms, q1) \<Rightarrow> case run_queue ops q1 of (batches, q2) \<Rightarrow> (ms # batches, q2))"

definition enqueued :: "queue_op list \<Rightarrow> chat_message list" where
  "enqueued ops = List.map_filter (\<lambda>op. case op of Enqueue m \<Rightarrow> Some m | _ \<Rightarrow> None) ops"

lemma enqueued_simps [simp]:
  "enqueued [] = []" "enqueued (Enqueue m # ops) = m # enqueued ops"
  "enqueued (Drain # ops) = enqueued ops" "enqueued (Set_mode k # ops) = enqueued ops"
  by (simp_all add: enqueued_def map_filter_def)

lemma drain_conserves: "drain q = (ms, q') \<Longrightarrow> ms @ q_messages q' = q_messages q"
  by (auto simp: drain_def split: queue_mode.splits list.splits)

lemma drain_empty: "drain q = (ms, q') \<Longrightarrow> ms = [] \<longleftrightarrow> \<not> hasItems q"
  by (auto simp: drain_def hasItems_def split: queue_mode.splits list.splits)

text \<open>A queue of pending messages is first in, first out in both modes and across changes of the mode:
  whatever the calls, the drained batches one after the other, and then what is still queued, are
  the messages queued at first and those added, each once and in order.\<close>

theorem queue_fifo:
  "concat (fst (run_queue ops q)) @ q_messages (snd (run_queue ops q)) = q_messages q @ enqueued ops"
proof (induction ops q rule: run_queue.induct)
  case (4 ops q)
  obtain ms q1 where d: "drain q = (ms, q1)" by fastforce
  with 4 drain_conserves [OF d] show ?case by (auto split: prod.splits)
qed (auto simp: enqueue_def)

section \<open>The state of an agent is the reduction of its events\<close>

text \<open>What a client sees of an agent's runtime state, and the specification of an event's effect on it.\<close>

record agent_view =
  v_messages :: "chat_message list"
  v_streaming :: "chat_message option"
  v_pending :: "string list"
  v_error :: "string option"

definition view :: "'x agent \<Rightarrow> agent_view" where
  "view a = \<lparr>v_messages = st_messages a, v_streaming = st_streamingMessage a, v_pending = st_pendingToolCalls a,
     v_error = st_errorMessage a\<rparr>"

fun view_event :: "agent_event \<Rightarrow> agent_view \<Rightarrow> agent_view" where
  "view_event (Message_start m) v = v\<lparr>v_streaming := Some m\<rparr>"
| "view_event (Message_update m) v = v\<lparr>v_streaming := Some m\<rparr>"
| "view_event (Message_end m) v = v\<lparr>v_streaming := None, v_messages := v_messages v @ [m]\<rparr>"
| "view_event (Tool_execution_start i n args) v = v\<lparr>v_pending := add_id i (v_pending v)\<rparr>"
| "view_event (Tool_execution_end i n r e) v = v\<lparr>v_pending := removeAll i (v_pending v)\<rparr>"
| "view_event (Turn_end m rs) v =
     (if errorMessage m = None \<or> errorMessage m = Some [] then v else v\<lparr>v_error := errorMessage m\<rparr>)"
| "view_event (Agent_end ms) v = v\<lparr>v_streaming := None\<rparr>"
| "view_event _ v = v"

definition view_events :: "agent_event list \<Rightarrow> agent_view \<Rightarrow> agent_view" where
  "view_events evs v = foldl (\<lambda>v ev. view_event ev v) v evs"

definition ended :: "agent_event list \<Rightarrow> chat_message list" where
  "ended evs = List.map_filter (\<lambda>ev. case ev of Message_end m \<Rightarrow> Some m | _ \<Rightarrow> None) evs"

lemma ended_append [simp]: "ended (xs @ ys) = ended xs @ ended ys"
  by (simp add: ended_def map_filter_def)

lemma view_events_append: "view_events (xs @ ys) v = view_events ys (view_events xs v)"
  by (simp add: view_events_def)

lemma view_event_messages: "v_messages (view_event ev v) = v_messages v @ ended [ev]"
  by (cases "(ev, v)" rule: view_event.cases) (auto simp: ended_def map_filter_def)

lemma view_events_messages: "v_messages (view_events evs v) = v_messages v @ ended evs"
proof (induction evs rule: rev_induct)
  case (snoc ev evs)
  then show ?case by (simp add: view_events_append) (simp add: view_events_def view_event_messages)
qed (simp add: view_events_def ended_def map_filter_def)

lemma view_reduce_event: "view (reduce_event ev a) = view_event ev (view a)"
  by (cases ev) (auto simp: reduce_event_def view_def split: option.splits)

lemma reduce_event_active [simp]: "activeRun (reduce_event ev a) = activeRun a"
  by (auto simp: reduce_event_def split: agent_event.splits option.splits)

text \<open>What the callbacks and listeners of an agent may do to it: queue, clear and abort. An agent's
  transcript is written by its own reducer.\<close>

definition bystands :: "'x agent \<Rightarrow> 'x agent \<Rightarrow> bool" where
  "bystands a a' \<longleftrightarrow> view a' = view a \<and> st_isStreaming a' = st_isStreaming a
     \<and> (activeRun a' = activeRun a \<or> activeRun a \<noteq> None \<and> activeRun a' = Some True)"

definition bystanders :: "'x agent_options \<Rightarrow> bool" where
  "bystanders opts \<longleftrightarrow>
     (\<forall>a. config_keeps bystands (createLoopConfig opts a)) \<and> (\<forall>l \<in> set (listeners opts). \<forall>ev. keeps bystands (l ev))"

lemma bystands_refl: "bystands a a"
  by (simp add: bystands_def)

lemma bystands_trans: "bystands a b \<Longrightarrow> bystands b c \<Longrightarrow> bystands a c"
  unfolding bystands_def by (elim conjE disjE) simp_all

lemma queue_calls_bystand:
  "bystands a (steer m a)" "bystands a (followUp m a)" "bystands a (clearAllQueues a)" "bystands a (abort a)"
  by (auto simp: bystands_def view_def steer_def followUp_def clearAllQueues_def clearSteeringQueue_def clearFollowUpQueue_def
      abort_def)

text \<open>Along a run, the view is the reduction of the events emitted.\<close>

definition records :: "'x agent run \<Rightarrow> 'x agent run \<Rightarrow> bool" where
  "records s s' \<longleftrightarrow>
     (\<exists>evs. trace s' = trace s @ evs \<and> view (world s') = view_events evs (view (world s)))
     \<and> (activeRun (world s) \<noteq> None \<longrightarrow> activeRun (world s') \<noteq> None)"

lemma records_refl: "records s s"
  by (auto simp: records_def view_events_def)

lemma records_trans: "records r s \<Longrightarrow> records s t \<Longrightarrow> records r t"
  unfolding records_def by (metis append.assoc view_events_append)

lemma records_bystands: "bystands (world s) a \<Longrightarrow> records s (s\<lparr>world := a\<rparr>)"
  by (auto simp: records_def bystands_def view_events_def intro!: exI [of _ "[]"])

lemma each_listener:
  "(\<And>l. l \<in> set ls \<Longrightarrow> keeps bystands (l ev)) \<Longrightarrow> keeps bystands (each_io (\<lambda>l. l ev) ls)"
proof (induction ls)
  case Nil
  then show ?case by (simp add: keeps_def pure_io_def bystands_refl)
next
  case (Cons l ls)
  then have "keeps bystands (l ev)" "keeps bystands (each_io (\<lambda>l. l ev) ls)" by auto
  then show ?case
    by (auto simp: keeps_def bind_io_def split: prod.splits sum.splits) (metis bystands_trans snd_conv)+
qed

lemma records_deliver:
  assumes "bystanders opts"
  shows "records s (snd (deliver opts ev s))"
proof -
  let ?a = "reduce_event ev (world s)"
  have "keeps bystands (each_io (\<lambda>l. l ev) (listeners opts))"
    using assms by (intro each_listener) (auto simp: bystanders_def)
  then have "bystands ?a (snd (processEvents opts ev (world s)))"
    by (auto simp: processEvents_def Let_def keeps_def bystands_refl)
  then show ?thesis
    by (auto simp: records_def deliver_def external_def bystands_def view_reduce_event view_events_def split: prod.splits
        intro!: exI [of _ "[ev]"])
qed

lemma emit_deliver: "sink cfg = processEvents opts \<Longrightarrow> emit cfg ev = deliver opts ev"
  by (rule ext) (simp add: emit_def deliver_def)

interpretation recording: run_order bystands records
    "\<lambda>cfg. bystanders opts \<and> config_keeps bystands cfg \<and> sink cfg = processEvents opts" for opts
proof (unfold_locales, goal_cases)
  case (4 cfg s ev)
  then show ?case using records_deliver [of opts] by (simp add: emit_deliver [of cfg opts])
qed (auto simp: records_refl records_bystands intro: records_trans)

section \<open>Runs settle\<close>

definition is_idle :: "'x agent \<Rightarrow> bool" where
  "is_idle a \<longleftrightarrow> \<not> st_isStreaming a \<and> st_streamingMessage a = None \<and> st_pendingToolCalls a = [] \<and> activeRun a = None"

lemma poll_bystands: "keeps bystands poll_steering" "keeps bystands poll_followUp"
  by (auto simp: keeps_def poll_steering_def poll_followUp_def bystands_def view_def split: prod.splits)

lemma createLoopConfig_sink [simp]: "sink (createLoopConfig opts a) = processEvents opts"
  by (simp add: createLoopConfig_def)

lemma records_run_from:
  assumes "bystanders opts" and "run_from (begin_run ms ctx (createLoopConfig opts a)) s = Some (r, s')"
  shows "records s s'"
proof -
  let ?cfg = "createLoopConfig opts a"
  have good: "bystanders opts \<and> config_keeps bystands ?cfg \<and> sink ?cfg = processEvents opts"
    using assms(1) by (simp add: bystanders_def)
  obtain r1 s1 where b: "begin_run ms ctx ?cfg s = (r1, s1)" by fastforce
  have 1: "records s s1" using recording.within_begin_run [OF good] b unfolding within_def by (metis snd_conv)
  show ?thesis
  proof (cases r1)
    case (Inl e)
    with b 1 assms(2) show ?thesis by (simp add: run_from_def)
  next
    case (Inr ls)
    with b have cfg: "config ls = ?cfg" by (auto dest: begin_run_config)
    from Inr b assms(2) have "runLoop ls s1 = Some (r, s')" by (simp add: run_from_def)
    then have "records s1 s'" by (rule recording.runLoop_within) (unfold cfg, rule good)
    with 1 show ?thesis by (rule records_trans)
  qed
qed

lemma records_handleRunFailure:
  assumes "bystanders opts"
  shows "records s (snd (handleRunFailure opts e b s))"
proof -
  have "within records (deliver opts ev)" for ev using records_deliver [OF assms] by (simp add: within_def)
  then have "within records (handleRunFailure opts e b)"
    unfolding handleRunFailure_def Let_def by (intro recording.within_bind)
  then show ?thesis by (simp add: within_def)
qed

lemma recordsD:
  assumes "records s s'"
  obtains evs where "trace s' = trace s @ evs" and "view (world s') = view_events evs (view (world s))"
    and "st_messages (world s') = st_messages (world s) @ ended evs"
proof -
  from assms obtain evs where *: "trace s' = trace s @ evs" "view (world s') = view_events evs (view (world s))"
    by (auto simp: records_def)
  from this(2) have "v_messages (view (world s')) = v_messages (view (world s)) @ ended evs"
    by (simp add: view_events_messages)
  then have "st_messages (world s') = st_messages (world s) @ ended evs" by (simp add: view_def)
  with * show ?thesis by (rule that)
qed

definition settles :: "'x agent run \<Rightarrow> 'x agent run \<Rightarrow> bool" where
  "settles s s' \<longleftrightarrow>
     (\<exists>evs. trace s' = trace s @ evs \<and> st_messages (world s') = st_messages (world s) @ ended evs) \<and> is_idle (world s')"

lemma settles_finish:
  assumes "records (at_world f s) s'" and "st_messages (f (world s)) = st_messages (world s)"
  shows "settles s (at_world finishRun s')"
  using assms
  by (elim recordsD) (auto simp: settles_def at_world_def finishRun_def is_idle_def)

lemma lifecycle_settles:
  assumes "bystanders opts" and "activeRun (world s) = None"
    and exec: "\<And>r s'. executor (at_world start_run s) = Some (r, s') \<Longrightarrow> records (at_world start_run s) s'"
    and run: "runWithLifecycle opts executor s = Some (r, s')"
  shows "settles s s'"
proof -
  have start: "st_messages (start_run (world s)) = st_messages (world s)" by (simp add: start_run_def)
  obtain r1 s1 where e: "executor (at_world start_run s) = Some (r1, s1)"
    using run assms(2) by (auto simp: runWithLifecycle_def split: option.splits)
  note rec = exec [OF e]
  show ?thesis
  proof (cases r1)
    case (Inr ms)
    with e run assms(2) have "s' = at_world finishRun s1" by (simp add: runWithLifecycle_def)
    with settles_finish [OF rec start] show ?thesis by simp
  next
    case (Inl error)
    obtain r2 s2 where h: "handleRunFailure opts error (activeRun (world s1) = Some True) s1 = (r2, s2)" by fastforce
    with e run assms(2) Inl have s': "s' = at_world finishRun s2" by (simp add: runWithLifecycle_def)
    have "records s1 s2" using records_handleRunFailure [OF assms(1), of s1] h by (metis snd_conv)
    then have "records (at_world start_run s) s2" using rec by (rule records_trans [rotated])
    with settles_finish [OF this start] show ?thesis by (simp add: s')
  qed
qed

lemma records_at_world: "view (f (world s)) = view (world s) \<Longrightarrow> activeRun (f (world s)) = activeRun (world s) \<Longrightarrow> records s (at_world f s)"
  by (auto simp: records_def at_world_def view_events_def intro!: exI [of _ "[]"])

lemma runPromptMessages_settles:
  assumes "bystanders opts" and "activeRun (world s) = None" and "runPromptMessages opts ms skip s = Some (r, s')"
  shows "settles s s'"
  using assms(3) unfolding runPromptMessages_def
proof (rule lifecycle_settles [OF assms(1,2), rotated])
  fix r s'
  let ?s = "at_world start_run s"
  assume "runAgentLoop ms (createContextSnapshot (world ?s)) (createLoopConfig opts (world ?s))
    (at_world (\<lambda>a. a\<lparr>skipInitialSteeringPoll := skip\<rparr>) ?s) = Some (r, s')"
  then have "records (at_world (\<lambda>a. a\<lparr>skipInitialSteeringPoll := skip\<rparr>) ?s) s'"
    unfolding runAgentLoop_def by (rule records_run_from [OF assms(1)])
  then show "records ?s s'"
    by (rule records_trans [rotated]) (auto intro!: records_at_world simp: view_def)
qed

lemma runContinuation_settles:
  assumes "bystanders opts" and "activeRun (world s) = None" and "runContinuation opts s = Some (r, s')"
  shows "settles s s'"
  using assms(3) unfolding runContinuation_def
proof (rule lifecycle_settles [OF assms(1,2), rotated])
  fix r s'
  let ?s = "at_world start_run s"
  let ?entry = "at_world (\<lambda>a. a\<lparr>skipInitialSteeringPoll := False\<rparr>) ?s"
  assume "runAgentLoopContinue (createContextSnapshot (world ?s)) (createLoopConfig opts (world ?s)) ?entry = Some (r, s')"
  then have "records ?entry s'"
    using records_refl [of ?entry] records_run_from [OF assms(1)]
    unfolding runAgentLoopContinue_def by (metis option.inject prod.inject)
  moreover have "records ?s ?entry" by (rule records_at_world) (simp_all add: view_def)
  ultimately show "records ?s s'" by (rule records_trans [rotated])
qed

lemma settles_queue_change:
  assumes "settles (at_world f s) s'" and "st_messages (f (world s)) = st_messages (world s)"
  shows "settles s s'"
  using assms by (simp add: settles_def at_world_def)

text \<open>C3: As long as nothing but the run itself writes the agent's messages and flags, that is, as long as the callbacks
  and listeners only queue messages, clear the queues and abort: every run of an idle agent, prompted or continued,
  that returns leaves the agent idle again, with no message in flight and no tool call pending, also when the loop,
  a listener or the handling of the failure throws; and the transcript has grown by exactly the messages that ended
  during the run, in order.\<close>

theorem agent_run_settles:
  assumes "bystanders opts" and "is_idle (world s)"
    and "prompt opts input s = Some (r, s') \<or> continue opts s = Some (r, s')"
  shows "(\<exists>evs. trace s' = trace s @ evs \<and> st_messages (world s') = st_messages (world s) @ ended evs) \<and> is_idle (world s')"
proof -
  have idle: "activeRun (world s) = None" using assms(2) by (simp add: is_idle_def)
  have same: "settles s s" using assms(2) by (auto simp: settles_def ended_def map_filter_def)
  have q: "activeRun (world (at_world (\<lambda>a. a\<lparr>steeringQueue := q\<rparr>) s)) = None"
    "activeRun (world (at_world (\<lambda>a. a\<lparr>followUpQueue := q\<rparr>) s)) = None" for q
    using idle by (simp_all add: at_world_def)
  have "settles s s'"
    using assms(3)
  proof
    assume "prompt opts input s = Some (r, s')"
    then show ?thesis using runPromptMessages_settles [OF assms(1) idle] idle by (simp add: prompt_def)
  next
    assume "continue opts s = Some (r, s')"
    then show ?thesis
      using same runContinuation_settles [OF assms(1) idle]
        settles_queue_change [OF runPromptMessages_settles [OF assms(1) q(1)]]
        settles_queue_change [OF runPromptMessages_settles [OF assms(1) q(2)]]
      by (auto simp: continue_def Let_def idle split: prod.splits if_splits)
  qed
  then show ?thesis by (simp add: settles_def)
qed

section \<open>The state between turns\<close>

lemma follows_snocE:
  assumes "follows (evs @ [ev]) p"
  obtains p0 where "follows evs p0" and "observe p0 ev = Some p"
  using assms by (auto simp: follows_def accept_append split: option.splits)

text \<open>Events in the order of the protocol reduce to a view that agrees with the automaton.\<close>

definition agrees :: "agent_view \<Rightarrow> protocol \<Rightarrow> agent_view \<Rightarrow> bool" where
  "agrees v0 p v \<longleftrightarrow>
     v_messages v = v_messages v0 @ p_all p \<and> (v_streaming v = None \<longleftrightarrow> \<not> p_open p)
     \<and> set (v_pending v) \<subseteq> set (p_running p) \<and> (p_phase p \<noteq> In_turn \<longrightarrow> \<not> p_open p)"

lemma agrees_step:
  assumes "agrees v0 p v" and "observe p ev = Some q"
  shows "agrees v0 q (view_event ev v)"
  using assms
  by (cases ev) (auto simp: agrees_def observe_def add_id_def split: if_splits, metis in_set_remove1 subsetD)

lemma agrees_events:
  assumes "v_streaming v0 = None" and "v_pending v0 = []"
  shows "follows evs p \<Longrightarrow> agrees v0 p (view_events evs v0)"
proof (induction evs arbitrary: p rule: rev_induct)
  case Nil
  then show ?case using assms by (auto simp: agrees_def view_events_def follows_def protocol_start_def)
next
  case (snoc ev evs)
  from snoc.prems obtain p1 where "follows evs p1" "observe p1 ev = Some p" by (rule follows_snocE)
  then show ?case using snoc.IH agrees_step by (fastforce simp: view_events_append view_events_def)
qed

lemma reaches_records:
  assumes "reaches m s0 ls s" and opts: "bystanders opts"
    and start: "\<And>ls s. m s0 = (Inr ls, s) \<Longrightarrow> records s0 s \<and> config_keeps bystands (config ls) \<and> sink (config ls) = processEvents opts"
  shows "records s0 s \<and> config_keeps bystands (config ls) \<and> sink (config ls) = processEvents opts"
  using assms(1)
proof induction
  case (Begin ls s)
  then show ?case by (rule start)
next
  case (Turn ls s ls' s')
  then have good: "bystanders opts \<and> config_keeps bystands (config ls) \<and> sink (config ls) = processEvents opts"
    using opts by blast
  have "records s s'" using recording.within_loop_step [OF good] Turn(2) unfolding within_def by (metis snd_conv)
  then have "records s0 s'" using Turn.IH records_trans by blast
  moreover have "bystanders opts \<and> config_keeps bystands (config ls') \<and> sink (config ls') = processEvents opts"
    by (rule recording.good_step [OF Turn(2) good])
  ultimately show ?case by blast
qed

lemma begin_run_records:
  assumes "bystanders opts" and "begin_run ms ctx (createLoopConfig opts a) s0 = (Inr ls, s)"
  shows "records s0 s \<and> config_keeps bystands (config ls) \<and> sink (config ls) = processEvents opts"
proof -
  have good: "bystanders opts \<and> config_keeps bystands (createLoopConfig opts a) \<and> sink (createLoopConfig opts a) = processEvents opts"
    using assms(1) by (simp add: bystanders_def)
  have "records s0 s" using recording.within_begin_run [OF good] assms(2) unfolding within_def by (metis snd_conv)
  then show ?thesis using good begin_run_config [OF assms(2)] by simp
qed

text \<open>Between any two turns of a run the state of the agent is settled: its transcript is what it was
  when the run began and then the messages the loop holds as new, no message is in flight, no tool
  call is pending, and a run is active, so that no other can begin.\<close>

theorem agent_between_turns:
  assumes "bystanders opts" and "streams_start_once (createLoopConfig opts a)"
    and "trace s0 = []" and "st_streamingMessage (world s0) = None" and "st_pendingToolCalls (world s0) = []"
    and "activeRun (world s0) \<noteq> None"
    and "reaches (begin_run ms ctx (createLoopConfig opts a)) s0 ls s"
  shows "st_messages (world s) = st_messages (world s0) @ newMessages ls
    \<and> st_streamingMessage (world s) = None \<and> st_pendingToolCalls (world s) = [] \<and> activeRun (world s) \<noteq> None"
proof -
  let ?v = "view (world s0)"
  have rec: "records s0 s"
    using reaches_records [OF assms(7,1)] begin_run_records [OF assms(1), of ms ctx a s0] by blast
  then have "view (world s) = view_events (trace s) ?v" and "activeRun (world s) \<noteq> None"
    using assms(3,6) by (auto simp: records_def)
  moreover obtain p where "follows (trace s) p" "loop_inv ls p"
    using reaches_inv [OF assms(7) moves_begin_run [OF assms(2)] follows_start [OF assms(3)]] by blast
  moreover from this(1) have "agrees ?v p (view_events (trace s) ?v)"
    by (rule agrees_events [rotated 2]) (simp_all add: view_def assms)
  ultimately have "agrees ?v p (view (world s))" and "loop_inv ls p" and "activeRun (world s) \<noteq> None"
    by simp_all
  then show ?thesis by (auto simp: agrees_def loop_inv_def view_def)
qed

section \<open>A quiet agent\<close>

text \<open>An agent whose provider replays a script, the rest of its program being what is left of it, with
  an echoing tool and a listener that does nothing.\<close>

definition replay :: "assistant_message list agent
    \<Rightarrow> (string + assistant_message list agent response_stream) \<times> assistant_message list agent" where
  "replay a =
     (case outer a of
        [] \<Rightarrow> (Inl ''end of script'', a)
      | m # ms \<Rightarrow> (Inr \<lparr>stream_events = [], stream_result = (\<lambda>v. (Inr m, v))\<rparr>, a\<lparr>outer := ms\<rparr>))"

definition quiet_options :: "assistant_message list agent_options" where
  "quiet_options =
     \<lparr>o_convertToLlm = None, o_transformContext = None, o_streamFn = (\<lambda>m c r k. replay), o_getApiKey = None,
      o_beforeToolCall = None, o_afterToolCall = None, o_prepareNextTurn = None, o_prepareNextTurnWithContext = None,
      o_toolExecution = None, listeners = [\<lambda>ev a. (Inr (), a)], o_prepareArguments = (\<lambda>t. None),
      o_validateToolArguments = (\<lambda>t c a. (Inr (callArgs c), a)),
      o_execute = (\<lambda>t i args. \<lparr>ex_updates = [], ex_outcome = (\<lambda>a. (Inr \<lparr>res_content = [args], res_details = ''{}'', res_terminate = None\<rparr>, a))\<rparr>),
      o_clock = (\<lambda>a. 0), o_schedule = (\<lambda>n a. (0, a))\<rparr>"

definition quiet_agent :: "assistant_message list \<Rightarrow> assistant_message list agent" where
  "quiet_agent script =
     \<lparr>st_systemPrompt = [], st_model = \<lparr>model_provider = ''p'', model_id = ''m''\<rparr>, st_thinkingLevel = ''off'', st_tools = [],
      st_messages = [User_msg ''hi''], st_isStreaming = False, st_streamingMessage = None, st_pendingToolCalls = [], st_errorMessage = None,
      steeringQueue = \<lparr>q_messages = [], q_mode = One_at_a_time\<rparr>, followUpQueue = \<lparr>q_messages = [], q_mode = One_at_a_time\<rparr>,
      activeRun = None, skipInitialSteeringPoll = False, outer = script\<rparr>"

lemma quiet_bystanders: "bystanders quiet_options"
  using poll_bystands
  by (auto simp: bystanders_def config_keeps_def callbacks_keep_def tools_keep_def keeps_opt_def stream_keeps_def
      createLoopConfig_def quiet_options_def keeps_def pure_io_def replay_def bystands_def view_def split: list.splits)

lemma quiet_start_once: "streams_start_once (createLoopConfig quiet_options a)"
  by (auto simp: streams_start_once_def starts_first_def createLoopConfig_def quiet_options_def replay_def split: list.splits)

text \<open>The provider fails at once: the failure becomes part of the transcript and the agent is idle.\<close>

theorem agent_run_settles_witness:
  "\<exists>r s'. prompt quiet_options (Prompt_text ''go'') \<lparr>world = quiet_agent [], trace = []\<rparr> = Some (r, s')
    \<and> length (st_messages (world s')) = 3 \<and> is_idle (world s')
    \<and> (\<exists>evs. trace s' = [] @ evs \<and> st_messages (world s') = [User_msg ''hi''] @ ended evs)"
proof -
  let ?s = "\<lparr>world = quiet_agent [], trace = []\<rparr>"
  let ?run = "prompt quiet_options (Prompt_text ''go'') ?s"
  have "case ?run of Some (r, s') \<Rightarrow> length (st_messages (world s')) = 3 | None \<Rightarrow> False" by code_simp
  then obtain r s' where run: "?run = Some (r, s')" "length (st_messages (world s')) = 3"
    by (auto split: option.splits prod.splits)
  have "is_idle (world ?s)" by (simp add: is_idle_def quiet_agent_def)
  from agent_run_settles [OF quiet_bystanders this disjI1 [OF run(1)]] run show ?thesis
    by (simp add: quiet_agent_def)
qed

lemma quiet_begins:
  "case begin_run [User_msg ''go''] (createContextSnapshot (start_run (quiet_agent [stop_message])))
      (createLoopConfig quiet_options (start_run (quiet_agent [stop_message]))) \<lparr>world = start_run (quiet_agent [stop_message]), trace = []\<rparr>
    of (Inr ls, s) \<Rightarrow> newMessages ls = [User_msg ''go''] | _ \<Rightarrow> False"
  by code_simp

theorem agent_between_turns_witness:
  "\<exists>ls s. reaches (begin_run [User_msg ''go''] (createContextSnapshot (start_run (quiet_agent [stop_message])))
      (createLoopConfig quiet_options (start_run (quiet_agent [stop_message]))))
      \<lparr>world = start_run (quiet_agent [stop_message]), trace = []\<rparr> ls s
    \<and> st_messages (world s) = [User_msg ''hi'', User_msg ''go'']"
proof -
  let ?a = "start_run (quiet_agent [stop_message])"
  let ?s = "\<lparr>world = ?a, trace = []\<rparr>"
  let ?b = "begin_run [User_msg ''go''] (createContextSnapshot ?a) (createLoopConfig quiet_options ?a)"
  obtain ls s where b: "?b ?s = (Inr ls, s)" "newMessages ls = [User_msg ''go'']"
    using quiet_begins by (auto split: prod.splits sum.splits)
  then have r: "reaches ?b ?s ls s" by (intro reaches.Begin)
  have "st_messages (world s) = st_messages (world ?s) @ newMessages ls"
    by (rule conjunct1 [OF agent_between_turns [OF quiet_bystanders quiet_start_once _ _ _ _ r]])
       (simp_all add: start_run_def quiet_agent_def)
  with r b(2) show ?thesis by (auto simp: start_run_def quiet_agent_def)
qed

section \<open>How a prompt ends\<close>

lemma after_turn_new:
  assumes "after_turn cfg ctx new am rs goOn s = (Inr nx, s')"
  shows "case nx of Continue ls \<Rightarrow> newMessages ls = new | Finished ms \<Rightarrow> ms = new"
  using assms
  by (auto simp: after_turn_def end_run_def bind_io_def pure_io_def split: prod.splits sum.splits if_splits)

lemma loop_turn_new:
  assumes "loop_turn ls s = (Inr nx, s')"
  shows "\<exists>new. (case nx of Continue ls1 \<Rightarrow> newMessages ls1 | Finished ms \<Rightarrow> ms) = newMessages ls @ new"
proof -
  have "(\<exists>ctx new am rs goOn s1. after_turn (config ls) ctx (newMessages ls @ new) am rs goOn s1 = (Inr nx, s'))
      \<or> (\<exists>new. nx = Finished (newMessages ls @ new))"
    using assms
    by (auto simp: loop_turn_def Let_def end_run_def bind_io_def pure_io_def split: prod.splits sum.splits if_splits)
  then show ?thesis by (auto dest!: after_turn_new split: loop_next.splits)
qed

lemma loop_step_new:
  assumes "loop_step ls s = (Inr nx, s')"
  shows "\<exists>new. (case nx of Continue ls1 \<Rightarrow> newMessages ls1 | Finished ms \<Rightarrow> ms) = newMessages ls @ new"
proof (cases "hasMoreToolCalls ls \<or> pendingMessages ls \<noteq> []")
  case True
  then show ?thesis using assms loop_turn_new by (simp add: loop_step_def)
next
  case False
  then show ?thesis using assms
    by (auto simp: loop_step_def end_run_def bind_io_def pure_io_def split: prod.splits sum.splits if_splits)
qed

lemma runLoop_new:
  "runLoop ls s = Some (r, s') \<Longrightarrow> r = Inr ms \<Longrightarrow> \<exists>new. ms = newMessages ls @ new"
proof (induction rule: runLoop_induct)
  case (Returned ls s ms1 s')
  then show ?case using loop_step_new [OF Returned(1)] by simp
next
  case (Continued ls s ls1 s1 r s')
  then show ?case using loop_step_new [OF Continued(1)] by auto
qed simp

lemma begin_run_new: "begin_run prompts ctx cfg s = (Inr ls, s') \<Longrightarrow> newMessages ls = prompts"
  by (auto simp: begin_run_def start_loop_def bind_io_def pure_io_def split: prod.splits sum.splits)

lemma agent_loop_new:
  assumes "runAgentLoop prompts ctx cfg s = Some (Inr ms, s')"
  shows "\<exists>new. ms = prompts @ new"
proof -
  obtain ls s1 where b: "begin_run prompts ctx cfg s = (Inr ls, s1)" and "runLoop ls s1 = Some (Inr ms, s')"
    using assms by (auto simp: runAgentLoop_def run_from_def split: prod.splits sum.splits)
  with runLoop_new [OF this(2) refl] show ?thesis by (simp add: begin_run_new)
qed

text \<open>The events of a failure, of which a throwing listener lets only the first be delivered.\<close>

definition failure_events :: "assistant_message \<Rightarrow> agent_event list" where
  "failure_events m =
     [Message_start (Assistant_msg m), Message_end (Assistant_msg m), Turn_end m [], Agent_end [Assistant_msg m]]"

lemma deliver_trace: "deliver opts ev s = (r, s') \<Longrightarrow> trace s' = trace s @ [ev]"
  by (auto simp: deliver_def external_def split: prod.splits)

lemma each_deliver_events:
  assumes "each_io (deliver opts) evs s = (r, s')" and "evs \<noteq> []"
  shows "\<exists>n>0. trace s' = trace s @ take n evs \<and> (r = Inr () \<longrightarrow> length evs \<le> n)"
  using assms
proof (induction evs arbitrary: s)
  case (Cons ev evs)
  obtain r1 s1 where d: "deliver opts ev s = (r1, s1)" by fastforce
  note t = deliver_trace [OF d]
  show ?case
  proof (cases "(\<exists>e. r1 = Inl e) \<or> evs = []")
    case True
    with Cons.prems d have "s' = s1" "r = r1 \<or> evs = []" by (auto simp: bind_io_def pure_io_def split: sum.splits)
    with True t show ?thesis by (intro exI [of _ 1]) (use Cons.prems d in \<open>auto simp: bind_io_def split: sum.splits\<close>)
  next
    case False
    then obtain u where "r1 = Inr u" "evs \<noteq> []" by (cases r1) auto
    with Cons.prems(1) d have "each_io (deliver opts) evs s1 = (r, s')" by (simp add: bind_io_def)
    from Cons.IH [OF this \<open>evs \<noteq> []\<close>] t obtain n where "trace s' = trace s @ take (Suc n) (ev # evs)"
      "r = Inr () \<longrightarrow> length (ev # evs) \<le> Suc n"
      by auto
    then show ?thesis by blast
  qed
qed simp

lemma bind_io_pure_unit: "bind_io m pure_io = m"
  by (rule ext) (auto simp: bind_io_def pure_io_def split: prod.splits sum.splits)

lemma handleRunFailure_each: "handleRunFailure opts e b = each_io (deliver opts) (failure_events (failure_message e b))"
  by (simp add: handleRunFailure_def failure_events_def Let_def bind_io_pure_unit)

lemma handleRunFailure_events:
  assumes "handleRunFailure opts e b s = (r, s')"
  shows "\<exists>n>0. trace s' = trace s @ take n (failure_events (failure_message e b)) \<and> (r = Inr () \<longrightarrow> 4 \<le> n)"
proof -
  have "failure_events (failure_message e b) \<noteq> []" "length (failure_events (failure_message e b)) = 4"
    by (simp_all add: failure_events_def)
  with each_deliver_events [OF assms [unfolded handleRunFailure_each]] show ?thesis by simp
qed

text \<open>C19: A prompt given to an idle agent ends in one of two ways. Either the loop returned: the events of
  the run are a complete run of the protocol, and the messages that ended in it, which are what the
  transcript has grown by, start with the prompt. Or something threw: the events up to there keep the
  protocol, and after them comes the announcement of the failure, complete unless a listener throws
  again, as a response with the error that says whether the run was aborted.\<close>

theorem agent_prompt_outcome:
  assumes "streams_start_once (createLoopConfig opts (start_run (world s)))"
    and "activeRun (world s) = None" and "trace s = []"
    and "prompt opts input s = Some (r, s')"
  shows "(r = Inr () \<and> (\<exists>q new. follows (trace s') q \<and> p_phase q = Ended \<and> p_all q = ended (trace s')
        \<and> ended (trace s') = normalizePromptInput input @ new))
    \<or> (\<exists>evs q e b n. follows evs q \<and> 0 < n \<and> trace s' = evs @ take n (failure_events (failure_message e b))
        \<and> (r = Inr () \<longrightarrow> 4 \<le> n))"
proof -
  let ?cfg = "createLoopConfig opts (start_run (world s))"
  let ?ctx = "createContextSnapshot (start_run (world s))"
  let ?start = "at_world (\<lambda>a. a\<lparr>skipInitialSteeringPoll := False\<rparr>) (at_world start_run s)"
  have "runPromptMessages opts (normalizePromptInput input) False s = Some (r, s')"
    using assms(2,4) by (simp add: prompt_def)
  then obtain r1 s1 where run: "runAgentLoop (normalizePromptInput input) ?ctx ?cfg ?start = Some (r1, s1)"
    and rest: "case r1 of Inr ms \<Rightarrow> r = Inr () \<and> s' = at_world finishRun s1
      | Inl e \<Rightarrow> (case handleRunFailure opts e (activeRun (world s1) = Some True) s1 of
          (r2, s2) \<Rightarrow> r = r2 \<and> s' = at_world finishRun s2)"
    using assms(2)
    by (auto simp: runPromptMessages_def runWithLifecycle_def at_world_def split: option.splits sum.splits prod.splits)
  have "trace ?start = []" using assms(3) by (simp add: at_world_def)
  from run_from_ends [OF run [unfolded runAgentLoop_def] moves_begin_run [OF assms(1)] follows_start [OF this]]
  obtain q where q: "follows (trace s1) q" "case r1 of Inr ms \<Rightarrow> p_phase q = Ended \<and> p_all q = ms | Inl _ \<Rightarrow> True"
    by blast
  show ?thesis
  proof (cases r1)
    case (Inr ms)
    with q have "p_phase q = Ended" "p_all q = ms" by simp_all
    moreover have "agrees \<lparr>v_messages = [], v_streaming = None, v_pending = [], v_error = None\<rparr> q
        (view_events (trace s1) \<lparr>v_messages = [], v_streaming = None, v_pending = [], v_error = None\<rparr>)"
      using q(1) by (rule agrees_events [rotated 2]) simp_all
    then have "p_all q = ended (trace s1)" by (simp add: agrees_def view_events_messages)
    moreover obtain new where "ms = normalizePromptInput input @ new"
      using agent_loop_new run Inr by blast
    moreover have "trace s' = trace s1" and "r = Inr ()" using rest Inr by (simp_all add: at_world_def)
    ultimately show ?thesis using q(1) by auto
  next
    case (Inl e)
    obtain r2 s2 where h: "handleRunFailure opts e (activeRun (world s1) = Some True) s1 = (r2, s2)" by fastforce
    with rest Inl have "r = r2" "trace s' = trace s2" by (simp_all add: at_world_def)
    with handleRunFailure_events [OF h] q(1) show ?thesis by (intro disjI2) (metis (no_types))
  qed
qed

lemma quiet_prompt:
  "case prompt quiet_options (Prompt_text ''go'') \<lparr>world = quiet_agent [stop_message], trace = []\<rparr> of
     Some (r, s') \<Rightarrow> r = Inr () \<and> length (trace s') = 8 | None \<Rightarrow> False"
  by code_simp

theorem agent_prompt_outcome_witness:
  "\<exists>s'. prompt quiet_options (Prompt_text ''go'') \<lparr>world = quiet_agent [stop_message], trace = []\<rparr> = Some (Inr (), s')
    \<and> ((\<exists>q new. follows (trace s') q \<and> p_phase q = Ended \<and> p_all q = ended (trace s') \<and> ended (trace s') = [User_msg ''go''] @ new)
      \<or> (\<exists>evs q e b n. follows evs q \<and> 0 < n \<and> trace s' = evs @ take n (failure_events (failure_message e b)) \<and> 4 \<le> n))"
proof -
  let ?s = "\<lparr>world = quiet_agent [stop_message], trace = []\<rparr>"
  obtain s' where run: "prompt quiet_options (Prompt_text ''go'') ?s = Some (Inr (), s')"
    using quiet_prompt by (auto split: option.splits)
  have "activeRun (world ?s) = None" by (simp add: quiet_agent_def)
  from agent_prompt_outcome [OF quiet_start_once this _ run] run show ?thesis
    by (simp add: normalizePromptInput_def)
qed

section \<open>Runs of an agent return\<close>

lemma lifecycle_returns:
  assumes "\<And>s. \<exists>r s'. executor s = Some (r, s')"
  shows "\<exists>r s'. runWithLifecycle opts executor s = Some (r, s')"
  using assms [of "at_world start_run s"]
  by (auto simp: runWithLifecycle_def split: sum.splits prod.splits)

text \<open>With a provider that has finitely many responses to give, every prompt and every continuation of
  an agent returns, whatever its tools, callbacks and listeners do and whatever is queued while it runs.\<close>

theorem agent_returns:
  assumes "\<And>a. budget rank (createLoopConfig opts a)"
  shows "(\<exists>r s'. prompt opts input s = Some (r, s')) \<and> (\<exists>r s'. continue opts s = Some (r, s'))"
proof -
  have loop: "\<exists>r s'. run_from (begin_run ms ctx (createLoopConfig opts a)) s = Some (r, s')" for ms ctx a s
  proof (rule run_from_ends_if)
    show "runLoop ls s \<noteq> None \<or> config ls \<noteq> createLoopConfig opts a" for ls s
      using budget_runLoop_ends [of rank ls s] assms [of a] by auto
  qed
  have "\<exists>r s'. runPromptMessages opts ms skip s = Some (r, s')" for ms skip s
    unfolding runPromptMessages_def runAgentLoop_def by (rule lifecycle_returns) (rule loop)
  moreover have "\<exists>r s'. runContinuation opts s = Some (r, s')"
    unfolding runContinuation_def runAgentLoopContinue_def by (rule lifecycle_returns) (use loop in auto)
  ultimately show ?thesis by (auto simp: prompt_def continue_def Let_def split: prod.splits)
qed

lemma quiet_budget: "budget (\<lambda>a. length (outer a)) (createLoopConfig quiet_options a)"
  by (auto simp: budget_def heard_def config_keeps_def callbacks_keep_def tools_keep_def keeps_opt_def stream_keeps_def
      createLoopConfig_def quiet_options_def keeps_def pure_io_def replay_def poll_steering_def poll_followUp_def
      processEvents_def Let_def bind_io_def reduce_event_def split: list.splits prod.splits agent_event.splits option.splits)

theorem agent_returns_witness:
  "\<exists>r s'. continue quiet_options \<lparr>world = steer (User_msg ''more'') (quiet_agent [call_message, stop_message]), trace = []\<rparr> = Some (r, s')"
  by (rule conjunct2 [OF agent_returns [OF quiet_budget]])

end
