(* ===== verification/Compaction.thy ===== *)
theory Compaction
  imports Session
begin

text \<open>
  Compaction of a session (\<open>packages/agent/src/harness/compaction/compaction.ts\<close>, \<open>utils.ts\<close>, and
  \<open>convertToLlm\<close> of \<open>harness/messages.ts\<close>): the estimate of tokens, the choice of the cut, what is
  summarised and what is kept, and the summary itself. The contents of messages are stored values of
  which the code reads some fields: a \<open>message_reader\<close> gives these. The model that writes the
  summaries is a function of the world.
\<close>

section \<open>What the code reads of a message\<close>

record call_args =
  args_json :: string
  args_entries :: "(string \<times> string) list"
  args_path :: "string option"

datatype part =
  Text_part string
  | Thinking_part string
  | Image_part
  | Call_part string call_args

datatype message_content = Content_text string | Content_parts "part list"

record usage =
  us_input :: nat
  us_output :: nat
  us_cacheRead :: nat
  us_cacheWrite :: nat
  us_totalTokens :: nat

record bash_execution =
  bash_command :: string
  bash_output :: string
  bash_exitCode :: "int option"
  bash_cancelled :: bool
  bash_truncated :: bool
  bash_fullOutputPath :: "string option"
  bash_excludeFromContext :: bool

record message_reader =
  content_of :: "json \<Rightarrow> message_content"
  parts_of :: "json \<Rightarrow> part list"
  usage_of :: "json \<Rightarrow> usage option"
  stopReason_of :: "json \<Rightarrow> string"
  bash_of :: "json \<Rightarrow> bash_execution"
  details_of :: "json \<Rightarrow> string list option \<times> string list option"
  show_number :: "int \<Rightarrow> string"

section \<open>Files touched\<close>

text \<open>Sets of paths, in the order they were added.\<close>

record file_operations =
  fo_read :: "string list"
  fo_written :: "string list"
  fo_edited :: "string list"

definition createFileOps :: file_operations where
  "createFileOps = \<lparr>fo_read = [], fo_written = [], fo_edited = []\<rparr>"

definition add_path :: "string \<Rightarrow> string list \<Rightarrow> string list" where
  "add_path p ps = (if p \<in> set ps then ps else ps @ [p])"

definition extract_part :: "part \<Rightarrow> file_operations \<Rightarrow> file_operations" where
  "extract_part b ops =
     (case b of
        Call_part name args \<Rightarrow>
          (case args_path args of
             None \<Rightarrow> ops
           | Some path \<Rightarrow>
               if path = [] then ops
               else if name = ''read'' then ops\<lparr>fo_read := add_path path (fo_read ops)\<rparr>
               else if name = ''write'' then ops\<lparr>fo_written := add_path path (fo_written ops)\<rparr>
               else if name = ''edit'' then ops\<lparr>fo_edited := add_path path (fo_edited ops)\<rparr>
               else ops)
      | _ \<Rightarrow> ops)"

definition extractFileOpsFromMessage :: "message_reader \<Rightarrow> agent_message \<Rightarrow> file_operations \<Rightarrow> file_operations" where
  "extractFileOpsFromMessage rd m ops =
     (case m of AssistantMessage p k body \<Rightarrow> fold extract_part (parts_of rd body) ops | _ \<Rightarrow> ops)"

text \<open>The default order of \<open>sort\<close> on strings, by code units.\<close>

fun code_unit_order :: "string \<Rightarrow> string \<Rightarrow> int" where
  "code_unit_order [] [] = 0"
| "code_unit_order [] (d # ds) = -1"
| "code_unit_order (c # cs) [] = 1"
| "code_unit_order (c # cs) (d # ds) =
     (if (of_char c :: nat) < of_char d then -1 else if (of_char d :: nat) < of_char c then 1 else code_unit_order cs ds)"

definition computeFileLists :: "file_operations \<Rightarrow> string list \<times> string list" where
  "computeFileLists ops =
     (let modified = fold add_path (fo_edited ops @ fo_written ops) [];
          readOnly = js_sort code_unit_order (filter (\<lambda>f. f \<notin> set modified) (fo_read ops));
          modifiedFiles = js_sort code_unit_order modified
      in (readOnly, modifiedFiles))"

abbreviation newline :: string where
  "newline \<equiv> [CHR 0x0A]"

definition formatFileOperations :: "string list \<Rightarrow> string list \<Rightarrow> string" where
  "formatFileOperations readFiles modifiedFiles =
     (let sections =
            (if readFiles \<noteq> [] then [''<read-files>'' @ newline @ join_with newline readFiles @ newline @ ''</read-files>''] else [])
            @ (if modifiedFiles \<noteq> []
               then [''<modified-files>'' @ newline @ join_with newline modifiedFiles @ newline @ ''</modified-files>''] else [])
      in if sections = [] then [] else newline @ newline @ join_with (newline @ newline) sections)"

section \<open>Estimating tokens\<close>

definition calculateContextTokens :: "usage \<Rightarrow> nat" where
  "calculateContextTokens u =
     (if us_totalTokens u \<noteq> 0 then us_totalTokens u
      else us_input u + us_output u + us_cacheRead u + us_cacheWrite u)"

definition getAssistantUsage :: "message_reader \<Rightarrow> agent_message \<Rightarrow> usage option" where
  "getAssistantUsage rd m =
     (case m of
        AssistantMessage p k body \<Rightarrow>
          (if stopReason_of rd body \<noteq> ''aborted'' \<and> stopReason_of rd body \<noteq> ''error''
           then (case usage_of rd body of
                   Some u \<Rightarrow> if calculateContextTokens u > 0 then Some u else None
                 | None \<Rightarrow> None)
           else None)
      | _ \<Rightarrow> None)"

fun last_usage :: "message_reader \<Rightarrow> agent_message list \<Rightarrow> usage option" where
  "last_usage rd [] = None"
| "last_usage rd (m # ms) = (case getAssistantUsage rd m of Some u \<Rightarrow> Some u | None \<Rightarrow> last_usage rd ms)"

definition getLastAssistantUsage :: "message_reader \<Rightarrow> entry list \<Rightarrow> usage option" where
  "getLastAssistantUsage rd es =
     last_usage rd (List.map_filter (\<lambda>e. case kind e of MessageEntry m \<Rightarrow> Some m | _ \<Rightarrow> None) (rev es))"

definition ESTIMATED_IMAGE_CHARS :: nat where
  "ESTIMATED_IMAGE_CHARS = 4800"

definition estimateTextAndImageContentChars :: "message_content \<Rightarrow> nat" where
  "estimateTextAndImageContentChars c =
     (case c of
        Content_text t \<Rightarrow> length t
      | Content_parts bs \<Rightarrow>
          sum_list (map (\<lambda>b. case b of Text_part t \<Rightarrow> length t | Image_part \<Rightarrow> ESTIMATED_IMAGE_CHARS | _ \<Rightarrow> 0) bs))"

definition ceil_div4 :: "nat \<Rightarrow> nat" where
  "ceil_div4 n = (n + 3) div 4"

definition estimateTokens :: "message_reader \<Rightarrow> agent_message \<Rightarrow> nat" where
  "estimateTokens rd m =
     (case m of
        UserMessage body \<Rightarrow> ceil_div4 (estimateTextAndImageContentChars (content_of rd body))
      | AssistantMessage p k body \<Rightarrow>
          ceil_div4 (sum_list (map (\<lambda>b. case b of
              Text_part t \<Rightarrow> length t | Thinking_part t \<Rightarrow> length t
            | Call_part name args \<Rightarrow> length name + length (args_json args) | Image_part \<Rightarrow> 0) (parts_of rd body)))
      | CustomAgentMessage ct body display details ts \<Rightarrow> ceil_div4 (estimateTextAndImageContentChars (content_of rd body))
      | ToolResultMessage body \<Rightarrow> ceil_div4 (estimateTextAndImageContentChars (content_of rd body))
      | BashExecutionMessage body \<Rightarrow> ceil_div4 (length (bash_command (bash_of rd body)) + length (bash_output (bash_of rd body)))
      | BranchSummaryMessage summary i ts \<Rightarrow> ceil_div4 (length summary)
      | CompactionSummaryMessage summary n ts \<Rightarrow> ceil_div4 (length summary))"

record context_usage =
  cu_tokens :: nat
  cu_usageTokens :: nat
  cu_trailingTokens :: nat
  cu_lastUsageIndex :: "nat option"

fun last_usage_info :: "message_reader \<Rightarrow> agent_message list \<Rightarrow> (usage \<times> nat) option" where
  "last_usage_info rd [] = None"
| "last_usage_info rd (m # reversed) =
     (case getAssistantUsage rd m of Some u \<Rightarrow> Some (u, length reversed) | None \<Rightarrow> last_usage_info rd reversed)"

definition getLastAssistantUsageInfo :: "message_reader \<Rightarrow> agent_message list \<Rightarrow> (usage \<times> nat) option" where
  "getLastAssistantUsageInfo rd ms = last_usage_info rd (rev ms)"

definition estimateContextTokens :: "message_reader \<Rightarrow> agent_message list \<Rightarrow> context_usage" where
  "estimateContextTokens rd ms =
     (case getLastAssistantUsageInfo rd ms of
        None \<Rightarrow>
          (let estimated = sum_list (map (estimateTokens rd) ms) in
           \<lparr>cu_tokens = estimated, cu_usageTokens = 0, cu_trailingTokens = estimated, cu_lastUsageIndex = None\<rparr>)
      | Some (u, i) \<Rightarrow>
          (let usageTokens = calculateContextTokens u;
               trailing = sum_list (map (estimateTokens rd) (drop (i + 1) ms)) in
           \<lparr>cu_tokens = usageTokens + trailing, cu_usageTokens = usageTokens, cu_trailingTokens = trailing,
             cu_lastUsageIndex = Some i\<rparr>))"

record compaction_settings =
  cs_enabled :: bool
  reserveTokens :: int
  keepRecentTokens :: nat

definition DEFAULT_COMPACTION_SETTINGS :: compaction_settings where
  "DEFAULT_COMPACTION_SETTINGS = \<lparr>cs_enabled = True, reserveTokens = 16384, keepRecentTokens = 20000\<rparr>"

definition shouldCompact :: "nat \<Rightarrow> int \<Rightarrow> compaction_settings \<Rightarrow> bool" where
  "shouldCompact contextTokens contextWindow settings =
     (if \<not> cs_enabled settings then False else int contextTokens > contextWindow - reserveTokens settings)"

section \<open>The cut\<close>

definition is_cut_point :: "entry \<Rightarrow> bool" where
  "is_cut_point e =
     (case kind e of
        MessageEntry m \<Rightarrow> (case m of ToolResultMessage _ \<Rightarrow> False | _ \<Rightarrow> True)
      | BranchSummaryEntry _ _ _ _ \<Rightarrow> True
      | CustomMessageEntry _ _ _ _ \<Rightarrow> True
      | _ \<Rightarrow> False)"

definition findValidCutPoints :: "entry list \<Rightarrow> nat \<Rightarrow> nat \<Rightarrow> nat list" where
  "findValidCutPoints es startIndex endIndex = filter (\<lambda>i. is_cut_point (es ! i)) [startIndex..<endIndex]"

definition starts_turn :: "entry \<Rightarrow> bool" where
  "starts_turn e =
     (case kind e of
        BranchSummaryEntry _ _ _ _ \<Rightarrow> True
      | CustomMessageEntry _ _ _ _ \<Rightarrow> True
      | MessageEntry m \<Rightarrow> (case m of UserMessage _ \<Rightarrow> True | BashExecutionMessage _ \<Rightarrow> True | _ \<Rightarrow> False)
      | _ \<Rightarrow> False)"

definition findTurnStartIndex :: "entry list \<Rightarrow> nat \<Rightarrow> nat \<Rightarrow> nat option" where
  "findTurnStartIndex es entryIndex startIndex = find (\<lambda>i. starts_turn (es ! i)) (rev [startIndex..<Suc entryIndex])"

record cut_point =
  firstKeptEntryIndex :: nat
  turnStartIndex :: "nat option"
  isSplitTurn :: bool

text \<open>The walk back from the newest entry until the budget is reached, and the walk back over entries
  that are no messages; they go with the first message kept.\<close>

fun scan_back :: "message_reader \<Rightarrow> entry list \<Rightarrow> nat list \<Rightarrow> nat \<Rightarrow> nat \<Rightarrow> nat \<Rightarrow> nat list \<Rightarrow> nat" where
  "scan_back rd es cutPoints keep acc cutIndex [] = cutIndex"
| "scan_back rd es cutPoints keep acc cutIndex (i # is) =
     (case kind (es ! i) of
        MessageEntry m \<Rightarrow>
          (let acc' = acc + estimateTokens rd m in
           if acc' \<ge> keep
           then (case find (\<lambda>c. c \<ge> i) cutPoints of Some c \<Rightarrow> c | None \<Rightarrow> cutIndex)
           else scan_back rd es cutPoints keep acc' cutIndex is)
      | _ \<Rightarrow> scan_back rd es cutPoints keep acc cutIndex is)"

definition is_message :: "entry \<Rightarrow> bool" where
  "is_message e = (case kind e of MessageEntry _ \<Rightarrow> True | _ \<Rightarrow> False)"

fun step_back :: "entry list \<Rightarrow> nat \<Rightarrow> nat \<Rightarrow> nat" where
  "step_back es startIndex 0 = 0"
| "step_back es startIndex (Suc i) =
     (if startIndex < Suc i \<and> \<not> is_compaction (kind (es ! i)) \<and> \<not> is_message (es ! i)
      then step_back es startIndex i else Suc i)"

definition is_user_entry :: "entry \<Rightarrow> bool" where
  "is_user_entry e = (case kind e of MessageEntry (UserMessage _) \<Rightarrow> True | _ \<Rightarrow> False)"

definition findCutPoint :: "message_reader \<Rightarrow> entry list \<Rightarrow> nat \<Rightarrow> nat \<Rightarrow> nat \<Rightarrow> cut_point" where
  "findCutPoint rd es startIndex endIndex keep =
     (case findValidCutPoints es startIndex endIndex of
        [] \<Rightarrow> \<lparr>firstKeptEntryIndex = startIndex, turnStartIndex = None, isSplitTurn = False\<rparr>
      | c # cs \<Rightarrow>
          (let cutIndex = step_back es startIndex
                 (scan_back rd es (c # cs) keep 0 c (rev [startIndex..<endIndex]));
               isUserMessage = is_user_entry (es ! cutIndex);
               turnStart = (if isUserMessage then None else findTurnStartIndex es cutIndex startIndex)
           in \<lparr>firstKeptEntryIndex = cutIndex, turnStartIndex = turnStart,
               isSplitTurn = (\<not> isUserMessage \<and> turnStart \<noteq> None)\<rparr>))"

section \<open>What is summarised\<close>

text \<open>The message an entry stands for; a compaction entry stands for its summary, which is passed on
  separately.\<close>

definition getMessageFromEntry :: "entry \<Rightarrow> agent_message option" where
  "getMessageFromEntry e =
     (case kind e of
        MessageEntry m \<Rightarrow> Some m
      | CustomMessageEntry customType content display details \<Rightarrow>
          Some (CustomAgentMessage customType content display details (timestamp e))
      | BranchSummaryEntry fromId summary _ _ \<Rightarrow> Some (BranchSummaryMessage summary fromId (timestamp e))
      | CompactionEntry summary _ tokensBefore _ _ \<Rightarrow> Some (CompactionSummaryMessage summary tokensBefore (timestamp e))
      | _ \<Rightarrow> None)"

definition getMessageFromEntryForCompaction :: "entry \<Rightarrow> agent_message option" where
  "getMessageFromEntryForCompaction e = (if is_compaction (kind e) then None else getMessageFromEntry e)"

definition add_details :: "message_reader \<Rightarrow> json option \<Rightarrow> bool option \<Rightarrow> file_operations \<Rightarrow> file_operations" where
  "add_details rd details fromHook ops =
     (case details of
        Some d \<Rightarrow>
          if fromHook \<noteq> Some True
          then (case details_of rd d of (readFiles, modifiedFiles) \<Rightarrow>
            ops\<lparr>fo_read := fold add_path (case readFiles of Some fs \<Rightarrow> fs | None \<Rightarrow> []) (fo_read ops),
                fo_edited := fold add_path (case modifiedFiles of Some fs \<Rightarrow> fs | None \<Rightarrow> []) (fo_edited ops)\<rparr>)
          else ops
      | None \<Rightarrow> ops)"

definition extractFileOperations :: "message_reader \<Rightarrow> agent_message list \<Rightarrow> entry list \<Rightarrow> nat option \<Rightarrow> file_operations" where
  "extractFileOperations rd ms es prevCompactionIndex =
     fold (extractFileOpsFromMessage rd) ms
       (case prevCompactionIndex of
          None \<Rightarrow> createFileOps
        | Some i \<Rightarrow>
            (case kind (es ! i) of
               CompactionEntry _ _ _ details fromHook \<Rightarrow> add_details rd details fromHook createFileOps
             | _ \<Rightarrow> createFileOps))"

record compaction_preparation =
  firstKeptEntryId :: string
  messagesToSummarize :: "agent_message list"
  turnPrefixMessages :: "agent_message list"
  cp_isSplitTurn :: bool
  cp_tokensBefore :: nat
  previousSummary :: "string option"
  cp_fileOps :: file_operations
  cp_settings :: compaction_settings

datatype summary_error =
  Summary_aborted string
  | Summarization_failed string
  | Invalid_compaction string

definition no_first_kept :: summary_error where
  "no_first_kept = Invalid_compaction ''First kept entry has no UUID - session may need migration''"

text \<open>The last compaction on the path, by the walk from the newest entry.\<close>

definition prev_compaction_index :: "entry list \<Rightarrow> nat option" where
  "prev_compaction_index es = find (\<lambda>i. is_compaction (kind (es ! i))) (rev [0..<length es])"

definition boundary_start :: "entry list \<Rightarrow> nat option \<Rightarrow> nat" where
  "boundary_start es prev =
     (case prev of
        None \<Rightarrow> 0
      | Some i \<Rightarrow>
          (case kind (es ! i) of
             CompactionEntry _ firstKept _ _ _ \<Rightarrow>
               (case find_index (\<lambda>e. eid e = firstKept) es of Some k \<Rightarrow> k | None \<Rightarrow> i + 1)
           | _ \<Rightarrow> i + 1))"

definition previous_summary :: "entry list \<Rightarrow> nat option \<Rightarrow> string option" where
  "previous_summary es prev =
     (case prev of
        None \<Rightarrow> None
      | Some i \<Rightarrow> (case kind (es ! i) of CompactionEntry summary _ _ _ _ \<Rightarrow> Some summary | _ \<Rightarrow> None))"

definition messages_between :: "entry list \<Rightarrow> nat \<Rightarrow> nat \<Rightarrow> agent_message list" where
  "messages_between es a b = List.map_filter (\<lambda>i. getMessageFromEntryForCompaction (es ! i)) [a..<b]"

definition prepareCompaction ::
  "message_reader \<Rightarrow> entry list \<Rightarrow> compaction_settings \<Rightarrow> summary_error + compaction_preparation option" where
  "prepareCompaction rd es settings =
     (if es = [] \<or> is_compaction (kind (last es)) then Inr None
      else
        (let prev = prev_compaction_index es;
             boundaryStart = boundary_start es prev;
             tokensBefore = cu_tokens (estimateContextTokens rd (messages (buildSessionContext es)));
             cut = findCutPoint rd es boundaryStart (length es) (keepRecentTokens settings);
             firstKept = eid (es ! firstKeptEntryIndex cut)
         in if firstKept = [] then Inl no_first_kept
            else
              (let turnStart = (case turnStartIndex cut of Some t \<Rightarrow> t | None \<Rightarrow> 0);
                   historyEnd = (if isSplitTurn cut then turnStart else firstKeptEntryIndex cut);
                   toSummarize = messages_between es boundaryStart historyEnd;
                   turnPrefix = (if isSplitTurn cut then messages_between es turnStart (firstKeptEntryIndex cut) else []);
                   fileOps = fold (extractFileOpsFromMessage rd) turnPrefix (extractFileOperations rd toSummarize es prev)
               in Inr (Some \<lparr>firstKeptEntryId = firstKept, messagesToSummarize = toSummarize, turnPrefixMessages = turnPrefix,
                    cp_isSplitTurn = isSplitTurn cut, cp_tokensBefore = tokensBefore, previousSummary = previous_summary es prev,
                    cp_fileOps = fileOps, cp_settings = settings\<rparr>))))"

section \<open>The conversation as text\<close>

datatype llm_message =
  Llm_user message_content
  | Llm_assistant "part list"
  | Llm_tool_result message_content

definition COMPACTION_SUMMARY_PREFIX :: string where
  "COMPACTION_SUMMARY_PREFIX = join_with newline
     [''The conversation history before this point was compacted into the following summary:'', [], ''<summary>'', []]"

definition COMPACTION_SUMMARY_SUFFIX :: string where
  "COMPACTION_SUMMARY_SUFFIX = newline @ ''</summary>''"

definition BRANCH_SUMMARY_PREFIX :: string where
  "BRANCH_SUMMARY_PREFIX = join_with newline
     [''The following is a summary of a branch that this conversation came back from:'', [], ''<summary>'', []]"

definition BRANCH_SUMMARY_SUFFIX :: string where
  "BRANCH_SUMMARY_SUFFIX = ''</summary>''"

definition bashExecutionToText :: "message_reader \<Rightarrow> bash_execution \<Rightarrow> string" where
  "bashExecutionToText rd m =
     ''Ran `'' @ bash_command m @ ''`'' @ newline
     @ (if bash_output m \<noteq> [] then ''```'' @ newline @ bash_output m @ newline @ ''```'' else ''(no output)'')
     @ (if bash_cancelled m then newline @ newline @ ''(command cancelled)''
        else (case bash_exitCode m of
                Some c \<Rightarrow> if c \<noteq> 0 then newline @ newline @ ''Command exited with code '' @ show_number rd c else []
              | None \<Rightarrow> []))
     @ (case bash_fullOutputPath m of
          Some p \<Rightarrow> if bash_truncated m \<and> p \<noteq> [] then newline @ newline @ ''[Output truncated. Full output: '' @ p @ '']'' else []
        | None \<Rightarrow> [])"

definition to_llm :: "message_reader \<Rightarrow> agent_message \<Rightarrow> llm_message option" where
  "to_llm rd m =
     (case m of
        BashExecutionMessage body \<Rightarrow>
          (if bash_excludeFromContext (bash_of rd body) then None
           else Some (Llm_user (Content_parts [Text_part (bashExecutionToText rd (bash_of rd body))])))
      | CustomAgentMessage ct body display details ts \<Rightarrow>
          Some (Llm_user (case content_of rd body of Content_text t \<Rightarrow> Content_parts [Text_part t] | c \<Rightarrow> c))
      | BranchSummaryMessage summary i ts \<Rightarrow>
          Some (Llm_user (Content_parts [Text_part (BRANCH_SUMMARY_PREFIX @ summary @ BRANCH_SUMMARY_SUFFIX)]))
      | CompactionSummaryMessage summary n ts \<Rightarrow>
          Some (Llm_user (Content_parts [Text_part (COMPACTION_SUMMARY_PREFIX @ summary @ COMPACTION_SUMMARY_SUFFIX)]))
      | UserMessage body \<Rightarrow> Some (Llm_user (content_of rd body))
      | AssistantMessage p k body \<Rightarrow> Some (Llm_assistant (parts_of rd body))
      | ToolResultMessage body \<Rightarrow> Some (Llm_tool_result (content_of rd body)))"

definition convertToLlm :: "message_reader \<Rightarrow> agent_message list \<Rightarrow> llm_message list" where
  "convertToLlm rd ms = List.map_filter (to_llm rd) ms"

definition TOOL_RESULT_MAX_CHARS :: nat where
  "TOOL_RESULT_MAX_CHARS = 2000"

definition truncateForSummary :: "message_reader \<Rightarrow> string \<Rightarrow> nat \<Rightarrow> string" where
  "truncateForSummary rd t maxChars =
     (if length t \<le> maxChars then t
      else take maxChars t @ newline @ newline @ ''[... '' @ show_number rd (int (length t - maxChars)) @ '' more characters truncated]'')"

definition plain_text :: "message_content \<Rightarrow> string" where
  "plain_text c =
     (case c of
        Content_text t \<Rightarrow> t
      | Content_parts bs \<Rightarrow> concat (List.map_filter (\<lambda>b. case b of Text_part t \<Rightarrow> Some t | _ \<Rightarrow> None) bs))"

definition show_call :: "string \<Rightarrow> call_args \<Rightarrow> string" where
  "show_call name args =
     name @ ''('' @ join_with '', '' (map (\<lambda>(k, v). k @ ''='' @ v) (args_entries args)) @ '')''"

definition serialize_message :: "message_reader \<Rightarrow> llm_message \<Rightarrow> string list" where
  "serialize_message rd m =
     (case m of
        Llm_user c \<Rightarrow> (let t = plain_text c in if t \<noteq> [] then [''[User]: '' @ t] else [])
      | Llm_assistant bs \<Rightarrow>
          (let textParts = List.map_filter (\<lambda>b. case b of Text_part t \<Rightarrow> Some t | _ \<Rightarrow> None) bs;
               thinkingParts = List.map_filter (\<lambda>b. case b of Thinking_part t \<Rightarrow> Some t | _ \<Rightarrow> None) bs;
               calls = List.map_filter (\<lambda>b. case b of Call_part n a \<Rightarrow> Some (show_call n a) | _ \<Rightarrow> None) bs
           in (if thinkingParts \<noteq> [] then [''[Assistant thinking]: '' @ join_with newline thinkingParts] else [])
              @ (if textParts \<noteq> [] then [''[Assistant]: '' @ join_with newline textParts] else [])
              @ (if calls \<noteq> [] then [''[Assistant tool calls]: '' @ join_with ''; '' calls] else []))
      | Llm_tool_result c \<Rightarrow>
          (let t = plain_text c in
           if t \<noteq> [] then [''[Tool result]: '' @ truncateForSummary rd t TOOL_RESULT_MAX_CHARS] else []))"

definition serializeConversation :: "message_reader \<Rightarrow> llm_message list \<Rightarrow> string" where
  "serializeConversation rd ms = join_with (newline @ newline) (concat (map (serialize_message rd) ms))"

section \<open>Writing the summary\<close>

definition SUMMARIZATION_SYSTEM_PROMPT :: string where
  \<open>SUMMARIZATION_SYSTEM_PROMPT = join_with newline
     [''You are a context summarization assistant. Your task is to read a conversation between a user and an AI assistant, then produce a structured summary following the exact format specified.'',
      [],
      ''Do NOT continue the conversation. Do NOT respond to any questions in the conversation. ONLY output the structured summary.'']\<close>

definition SUMMARIZATION_PROMPT :: string where
  \<open>SUMMARIZATION_PROMPT = join_with newline
     [''The messages above are a conversation to summarize. Create a structured context checkpoint summary that another LLM will use to continue the work.'',
      [],
      ''Use this EXACT format:'',
      [],
      ''## Goal'',
      ''[What is the user trying to accomplish? Can be multiple items if the session covers different tasks.]'',
      [],
      ''## Constraints & Preferences'',
      ''- [Any constraints, preferences, or requirements mentioned by user]'',
      ''- [Or "(none)" if none were mentioned]'',
      [],
      ''## Progress'',
      ''### Done'',
      ''- [x] [Completed tasks/changes]'',
      [],
      ''### In Progress'',
      ''- [ ] [Current work]'',
      [],
      ''### Blocked'',
      ''- [Issues preventing progress, if any]'',
      [],
      ''## Key Decisions'',
      ''- **[Decision]**: [Brief rationale]'',
      [],
      ''## Next Steps'',
      ''1. [Ordered list of what should happen next]'',
      [],
      ''## Critical Context'',
      ''- [Any data, examples, or references needed to continue]'',
      ''- [Or "(none)" if not applicable]'',
      [],
      ''Keep each section concise. Preserve exact file paths, function names, and error messages.'']\<close>

definition UPDATE_SUMMARIZATION_PROMPT :: string where
  \<open>UPDATE_SUMMARIZATION_PROMPT = join_with newline
     [''The messages above are NEW conversation messages to incorporate into the existing summary provided in <previous-summary> tags.'',
      [],
      ''Update the existing structured summary with new information. RULES:'',
      ''- PRESERVE all existing information from the previous summary'',
      ''- ADD new progress, decisions, and context from the new messages'',
      ''- UPDATE the Progress section: move items from "In Progress" to "Done" when completed'',
      ''- UPDATE "Next Steps" based on what was accomplished'',
      ''- PRESERVE exact file paths, function names, and error messages'',
      ''- If something is no longer relevant, you may remove it'',
      [],
      ''Use this EXACT format:'',
      [],
      ''## Goal'',
      ''[Preserve existing goals, add new ones if the task expanded]'',
      [],
      ''## Constraints & Preferences'',
      ''- [Preserve existing, add new ones discovered]'',
      [],
      ''## Progress'',
      ''### Done'',
      ''- [x] [Include previously done items AND newly completed items]'',
      [],
      ''### In Progress'',
      ''- [ ] [Current work - update based on progress]'',
      [],
      ''### Blocked'',
      ''- [Current blockers - remove if resolved]'',
      [],
      ''## Key Decisions'',
      ''- **[Decision]**: [Brief rationale] (preserve all previous, add new)'',
      [],
      ''## Next Steps'',
      ''1. [Update based on current state]'',
      [],
      ''## Critical Context'',
      ''- [Preserve important context, add new if needed]'',
      [],
      ''Keep each section concise. Preserve exact file paths, function names, and error messages.'']\<close>

definition TURN_PREFIX_SUMMARIZATION_PROMPT :: string where
  \<open>TURN_PREFIX_SUMMARIZATION_PROMPT = join_with newline
     [''This is the PREFIX of a turn that was too large to keep. The SUFFIX (recent work) is retained.'',
      [],
      ''Summarize the prefix to provide context for the retained suffix:'',
      [],
      ''## Original Request'',
      ''[What did the user ask for in this turn?]'',
      [],
      ''## Early Progress'',
      ''- [Key decisions and work done in the prefix]'',
      [],
      ''## Context for Suffix'',
      ''- [Information needed to understand the retained recent work]'',
      [],
      ''Be concise. Focus on what's needed to understand the kept suffix.'']\<close>

record summary_model =
  sm_maxTokens :: int
  sm_reasoning :: bool

record summary_request =
  rq_systemPrompt :: string
  rq_prompt :: string
  rq_maxTokens :: int
  rq_reasoning :: "string option"

record summary_response =
  rs_stopReason :: string
  rs_errorMessage :: "string option"
  rs_content :: "part list"

type_synonym 'w completion = "summary_request \<Rightarrow> 'w \<Rightarrow> summary_response \<times> 'w"

definition message_or :: "string option \<Rightarrow> string \<Rightarrow> string" where
  "message_or m fallback = (case m of Some t \<Rightarrow> if t \<noteq> [] then t else fallback | None \<Rightarrow> fallback)"

definition request_for :: "summary_model \<Rightarrow> int \<Rightarrow> string option \<Rightarrow> string \<Rightarrow> summary_request" where
  "request_for m limit level promptText =
     \<lparr>rq_systemPrompt = SUMMARIZATION_SYSTEM_PROMPT, rq_prompt = promptText,
      rq_maxTokens = (if sm_maxTokens m > 0 then min limit (sm_maxTokens m) else limit),
      rq_reasoning = (case level of
          Some t \<Rightarrow> if sm_reasoning m \<and> t \<noteq> [] \<and> t \<noteq> ''off'' then Some t else None
        | None \<Rightarrow> None)\<rparr>"

definition summary_of :: "string \<Rightarrow> string \<Rightarrow> summary_response \<Rightarrow> summary_error + string" where
  "summary_of abortedText failedPrefix r =
     (if rs_stopReason r = ''aborted'' then Inl (Summary_aborted (message_or (rs_errorMessage r) abortedText))
      else if rs_stopReason r = ''error''
      then Inl (Summarization_failed (failedPrefix @ message_or (rs_errorMessage r) ''Unknown error''))
      else Inr (join_with newline (List.map_filter (\<lambda>b. case b of Text_part t \<Rightarrow> Some t | _ \<Rightarrow> None) (rs_content r))))"

definition conversation_block :: "message_reader \<Rightarrow> agent_message list \<Rightarrow> string" where
  "conversation_block rd ms =
     ''<conversation>'' @ newline @ serializeConversation rd (convertToLlm rd ms) @ newline @ ''</conversation>'' @ newline @ newline"

definition is_set :: "string option \<Rightarrow> bool" where
  "is_set t = (case t of Some s \<Rightarrow> s \<noteq> [] | None \<Rightarrow> False)"

definition summary_prompt :: "message_reader \<Rightarrow> agent_message list \<Rightarrow> string option \<Rightarrow> string option \<Rightarrow> string" where
  "summary_prompt rd ms customInstructions previous =
     conversation_block rd ms
     @ (if is_set previous
        then ''<previous-summary>'' @ newline @ the previous @ newline @ ''</previous-summary>'' @ newline @ newline
        else [])
     @ (if is_set previous then UPDATE_SUMMARIZATION_PROMPT else SUMMARIZATION_PROMPT)
     @ (if is_set customInstructions then newline @ newline @ ''Additional focus: '' @ the customInstructions else [])"

definition generateSummary ::
  "message_reader \<Rightarrow> 'w completion \<Rightarrow> summary_model \<Rightarrow> agent_message list \<Rightarrow> int \<Rightarrow> string option \<Rightarrow> string option \<Rightarrow> string option
     \<Rightarrow> 'w \<Rightarrow> (summary_error + string) \<times> 'w" where
  "generateSummary rd complete m ms reserve customInstructions previous level w =
     (case complete (request_for m (8 * reserve div 10) level (summary_prompt rd ms customInstructions previous)) w of
        (r, w') \<Rightarrow> (summary_of ''Summarization aborted'' ''Summarization failed: '' r, w'))"

definition generateTurnPrefixSummary ::
  "message_reader \<Rightarrow> 'w completion \<Rightarrow> summary_model \<Rightarrow> agent_message list \<Rightarrow> int \<Rightarrow> string option
     \<Rightarrow> 'w \<Rightarrow> (summary_error + string) \<times> 'w" where
  "generateTurnPrefixSummary rd complete m ms reserve level w =
     (case complete (request_for m (5 * reserve div 10) level
         (conversation_block rd ms @ TURN_PREFIX_SUMMARIZATION_PROMPT)) w of
        (r, w') \<Rightarrow> (summary_of ''Turn prefix summarization aborted'' ''Turn prefix summarization failed: '' r, w'))"

record compaction_result =
  cr_summary :: string
  cr_firstKeptEntryId :: string
  cr_tokensBefore :: nat
  cr_readFiles :: "string list"
  cr_modifiedFiles :: "string list"

definition history_summary ::
  "message_reader \<Rightarrow> 'w completion \<Rightarrow> summary_model \<Rightarrow> compaction_preparation \<Rightarrow> string option \<Rightarrow> string option
     \<Rightarrow> 'w \<Rightarrow> (summary_error + string) \<times> 'w" where
  "history_summary rd complete m p customInstructions level w =
     generateSummary rd complete m (messagesToSummarize p) (reserveTokens (cp_settings p)) customInstructions (previousSummary p)
       level w"

definition split_turn_summary ::
  "message_reader \<Rightarrow> 'w completion \<Rightarrow> summary_model \<Rightarrow> compaction_preparation \<Rightarrow> string option \<Rightarrow> string option
     \<Rightarrow> 'w \<Rightarrow> (summary_error + string) \<times> 'w" where
  "split_turn_summary rd complete m p customInstructions level w =
     (case (if messagesToSummarize p \<noteq> [] then history_summary rd complete m p customInstructions level w
            else (Inr ''No prior history.'', w)) of
        (Inl e, w1) \<Rightarrow> (Inl e, w1)
      | (Inr history, w1) \<Rightarrow>
          (case generateTurnPrefixSummary rd complete m (turnPrefixMessages p) (reserveTokens (cp_settings p)) level w1 of
             (Inl e, w2) \<Rightarrow> (Inl e, w2)
           | (Inr pre, w2) \<Rightarrow>
               (Inr (history @ newline @ newline @ ''---'' @ newline @ newline @ ''**Turn Context (split turn):**'' @ newline @ newline @ pre), w2)))"

definition compact ::
  "message_reader \<Rightarrow> 'w completion \<Rightarrow> summary_model \<Rightarrow> compaction_preparation \<Rightarrow> string option \<Rightarrow> string option
     \<Rightarrow> 'w \<Rightarrow> (summary_error + compaction_result) \<times> 'w" where
  "compact rd complete m p customInstructions level w =
     (if firstKeptEntryId p = [] then (Inl no_first_kept, w)
      else
        (case (if cp_isSplitTurn p \<and> turnPrefixMessages p \<noteq> []
               then split_turn_summary rd complete m p customInstructions level w
               else history_summary rd complete m p customInstructions level w) of
           (Inl e, w') \<Rightarrow> (Inl e, w')
         | (Inr summary, w') \<Rightarrow>
             (case computeFileLists (cp_fileOps p) of (readFiles, modifiedFiles) \<Rightarrow>
                (Inr \<lparr>cr_summary = summary @ formatFileOperations readFiles modifiedFiles, cr_firstKeptEntryId = firstKeptEntryId p,
                   cr_tokensBefore = cp_tokensBefore p, cr_readFiles = readFiles, cr_modifiedFiles = modifiedFiles\<rparr>, w'))))"

section \<open>Where the cut falls\<close>

definition entry_tokens :: "message_reader \<Rightarrow> entry \<Rightarrow> nat" where
  "entry_tokens rd e = (case kind e of MessageEntry m \<Rightarrow> estimateTokens rd m | _ \<Rightarrow> 0)"

definition tokens_from :: "message_reader \<Rightarrow> entry list \<Rightarrow> nat \<Rightarrow> nat" where
  "tokens_from rd es k = sum_list (map (entry_tokens rd) (drop k es))"

lemma tokens_from_step: "k < length es \<Longrightarrow> tokens_from rd es k = entry_tokens rd (es ! k) + tokens_from rd es (Suc k)"
  by (simp add: tokens_from_def Cons_nth_drop_Suc [symmetric])

lemma tokens_from_antimono: "i \<le> k \<Longrightarrow> tokens_from rd es k \<le> tokens_from rd es i"
proof (induction rule: dec_induct)
  case (step k)
  have "tokens_from rd es (Suc k) \<le> tokens_from rd es k"
    by (cases "k < length es") (simp_all add: tokens_from_step, simp add: tokens_from_def)
  with step.IH show ?case by simp
qed simp

text \<open>The walk stops at the newest message that exhausts the budget, and takes the first cut point from
  there on, if there is one.\<close>

definition first_from :: "nat \<Rightarrow> nat list \<Rightarrow> nat \<Rightarrow> nat" where
  "first_from i cps c = (case find (\<lambda>c. c \<ge> i) cps of Some c' \<Rightarrow> c' | None \<Rightarrow> c)"

lemma scan_back_cases:
  assumes "k \<le> length es" and "0 < keep" and "tokens_from rd es k < keep" and "b \<le> k"
    and "r = scan_back rd es cps keep (tokens_from rd es k) c (rev [b..<k])"
  shows "(\<exists>i. b \<le> i \<and> i < k \<and> keep \<le> tokens_from rd es i \<and> tokens_from rd es (Suc i) < keep \<and> r = first_from i cps c)
    \<or> r = c \<and> tokens_from rd es b < keep"
  using assms(1,3-5)
proof (induction k)
  case 0
  then show ?case by simp
next
  case (Suc k)
  show ?case
  proof (cases "b = Suc k")
    case True
    with Suc.prems show ?thesis by simp
  next
    case False
    with Suc.prems have bk: "b \<le> k" by simp
    then have idx: "rev [b..<Suc k] = k # rev [b..<k]" by simp
    have step: "tokens_from rd es k = tokens_from rd es (Suc k) + entry_tokens rd (es ! k)"
      using Suc.prems tokens_from_step [of k es rd] by simp
    have r: "r = (if is_message (es ! k) \<and> keep \<le> tokens_from rd es k then first_from k cps c
        else scan_back rd es cps keep (tokens_from rd es k) c (rev [b..<k]))"
      using Suc.prems(4) step unfolding idx
      by (simp add: Let_def is_message_def first_from_def entry_tokens_def split: entry_kind.splits)
    show ?thesis
    proof (cases "is_message (es ! k) \<and> keep \<le> tokens_from rd es k")
      case True
      with r Suc.prems(2) bk show ?thesis by auto
    next
      case False
      then have "tokens_from rd es k < keep"
        using step Suc.prems(2) by (auto simp: is_message_def entry_tokens_def split: entry_kind.splits)
      from Suc.IH [OF _ this bk] r False Suc.prems(1) show ?thesis by fastforce
    qed
  qed
qed

lemma step_back_cases:
  assumes "step_back es b c = k" and "b \<le> c"
  shows "b \<le> k \<and> k \<le> c \<and> (\<forall>i. k \<le> i \<and> i < c \<longrightarrow> \<not> is_message (es ! i) \<and> \<not> is_compaction (kind (es ! i)))"
  using assms
proof (induction c)
  case (Suc i)
  show ?case
  proof (cases "b < Suc i \<and> \<not> is_compaction (kind (es ! i)) \<and> \<not> is_message (es ! i)")
    case True
    with Suc.prems have "step_back es b i = k" "b \<le> i" by simp_all
    with Suc.IH have IH: "b \<le> k" "k \<le> i" "\<forall>j. k \<le> j \<and> j < i \<longrightarrow> \<not> is_message (es ! j) \<and> \<not> is_compaction (kind (es ! j))"
      by blast+
    have "\<not> is_message (es ! j) \<and> \<not> is_compaction (kind (es ! j))" if "k \<le> j" "j < Suc i" for j
      using IH(3) True that by (cases "j = i") auto
    with IH(1,2) show ?thesis by auto
  next
    case False
    with Suc.prems show ?thesis by (auto split: if_splits)
  qed
qed simp

text \<open>The cut point the cut belongs to: between them lie only entries that are no messages.\<close>

definition cuts_at :: "entry list \<Rightarrow> nat \<Rightarrow> nat \<Rightarrow> bool" where
  "cuts_at es k c \<longleftrightarrow>
     k \<le> c \<and> c < length es \<and> is_cut_point (es ! c)
     \<and> (\<forall>i. k \<le> i \<and> i < c \<longrightarrow> \<not> is_message (es ! i) \<and> \<not> is_compaction (kind (es ! i)))"

lemma find_le: "find P xs = Some x \<Longrightarrow> x \<in> set xs \<and> P x"
  by (auto simp: find_Some_iff)

lemma findCutPoint_cases:
  assumes "0 < keep"
  shows "let cut = firstKeptEntryIndex (findCutPoint rd es b (length es) keep); cps = findValidCutPoints es b (length es) in
    cps = [] \<and> cut = b \<or>
    (\<exists>c. cuts_at es cut c \<and> b \<le> cut
       \<and> (tokens_from rd es (Suc c) < keep
          \<or> c = hd cps \<and> (\<exists>i. b \<le> i \<and> i < length es \<and> keep \<le> tokens_from rd es i \<and> (\<forall>j \<in> set cps. j < i))))"
proof (cases "findValidCutPoints es b (length es)")
  case Nil
  then show ?thesis by (simp add: findCutPoint_def)
next
  case (Cons c0 cs)
  let ?cps = "c0 # cs"
  let ?c = "scan_back rd es ?cps keep 0 c0 (rev [b..<length es])"
  let ?cut = "step_back es b ?c"
  have cut: "firstKeptEntryIndex (findCutPoint rd es b (length es) keep) = ?cut"
    by (simp add: findCutPoint_def Cons Let_def)
  have cps: "b \<le> j \<and> j < length es \<and> is_cut_point (es ! j)" if "j \<in> set ?cps" for j
    using that unfolding Cons [symmetric] by (auto simp: findValidCutPoints_def)
  have zero: "tokens_from rd es (length es) = 0" by (simp add: tokens_from_def)
  have "c0 \<in> set (findValidCutPoints es b (length es))" using Cons by simp
  then have "b \<le> length es" by (simp add: findValidCutPoints_def)
  note scan = scan_back_cases [of "length es" es keep rd b _ ?cps c0, unfolded zero, OF order_refl assms(1) assms(1) this refl]
  have c: "?c \<in> set ?cps \<and> (tokens_from rd es (Suc ?c) < keep
      \<or> ?c = c0 \<and> (\<exists>i. b \<le> i \<and> i < length es \<and> keep \<le> tokens_from rd es i \<and> (\<forall>j \<in> set ?cps. j < i)))"
    using scan
  proof (elim disjE exE conjE)
    fix i
    assume i: "b \<le> i" "i < length es" "keep \<le> tokens_from rd es i" "tokens_from rd es (Suc i) < keep"
      and f: "?c = first_from i ?cps c0"
    show ?thesis
    proof (cases "find (\<lambda>c. c \<ge> i) ?cps")
      case None
      then have "\<forall>j \<in> set ?cps. j < i" unfolding find_None_iff by (auto simp: not_le)
      moreover from f None have "?c = c0" by (simp add: first_from_def)
      ultimately show ?thesis using i(1-3) by auto
    next
      case (Some c')
      with f find_le [OF Some] have "?c \<in> set ?cps" "i \<le> ?c" by (simp_all add: first_from_def)
      moreover from this(2) have "tokens_from rd es (Suc ?c) \<le> tokens_from rd es (Suc i)" by (intro tokens_from_antimono) simp
      ultimately show ?thesis using i(4) by auto
    qed
  next
    assume "?c = c0" and "tokens_from rd es b < keep"
    moreover have "tokens_from rd es (Suc c0) \<le> tokens_from rd es b" "b \<le> length es"
      using cps [of c0] by (auto intro: tokens_from_antimono)
    ultimately show ?thesis by auto
  qed
  then have "b \<le> ?c" "?c < length es" "is_cut_point (es ! ?c)" using cps by blast+
  with step_back_cases [OF refl this(1), of es] have "cuts_at es ?cut ?c" "b \<le> ?cut"
    by (simp_all add: cuts_at_def)
  with c show ?thesis unfolding Let_def cut Cons by auto
qed

text \<open>The messages kept verbatim by a compaction are the recent ones: after the first of them, less than
  the budget. The exception is a session whose last messages exhaust the budget and are all tool
  results: then there is no place to cut, and everything from the first cut point on is kept.\<close>

theorem compaction_keeps_recent:
  assumes "0 < keep" and "findValidCutPoints es b (length es) \<noteq> []"
    and "firstKeptEntryIndex (findCutPoint rd es b (length es) keep) = k"
  shows "\<exists>c. k \<le> c \<and> c < length es \<and> is_cut_point (es ! c) \<and> (\<forall>i. k \<le> i \<and> i < c \<longrightarrow> \<not> is_message (es ! i))
    \<and> (tokens_from rd es (Suc c) < keep
       \<or> c = hd (findValidCutPoints es b (length es))
         \<and> (\<exists>i. i < length es \<and> keep \<le> tokens_from rd es i \<and> (\<forall>j. i \<le> j \<and> j < length es \<longrightarrow> \<not> is_cut_point (es ! j))))"
proof -
  from findCutPoint_cases [OF assms(1), of rd es b] assms(2,3) obtain c where c: "cuts_at es k c"
    and t: "tokens_from rd es (Suc c) < keep
      \<or> c = hd (findValidCutPoints es b (length es))
        \<and> (\<exists>i. b \<le> i \<and> i < length es \<and> keep \<le> tokens_from rd es i \<and> (\<forall>j \<in> set (findValidCutPoints es b (length es)). j < i))"
    by (auto simp: Let_def)
  have "\<not> is_cut_point (es ! j)"
    if "b \<le> i" "\<forall>j \<in> set (findValidCutPoints es b (length es)). j < i" "i \<le> j" "j < length es" for i j
  proof
    assume "is_cut_point (es ! j)"
    with that have "j \<in> set (findValidCutPoints es b (length es))" by (simp add: findValidCutPoints_def)
    with that show False by auto
  qed
  with c t show ?thesis unfolding cuts_at_def by blast
qed

definition is_tool_result :: "entry \<Rightarrow> bool" where
  "is_tool_result e = (case kind e of MessageEntry (ToolResultMessage _) \<Rightarrow> True | _ \<Rightarrow> False)"

definition is_assistant_entry :: "entry \<Rightarrow> bool" where
  "is_assistant_entry e = (case kind e of MessageEntry (AssistantMessage _ _ _) \<Rightarrow> True | _ \<Rightarrow> False)"

lemma tool_result_message: "is_tool_result e \<Longrightarrow> is_message e \<and> \<not> is_cut_point e"
  by (auto simp: is_tool_result_def is_message_def is_cut_point_def split: entry_kind.splits agent_message.splits)

text \<open>The tool results of a session follow the response with their calls, with nothing between them that
  stands for a message of its own.\<close>

definition results_follow_calls :: "entry list \<Rightarrow> bool" where
  "results_follow_calls es \<longleftrightarrow>
     (\<forall>j < length es. is_tool_result (es ! j) \<longrightarrow>
        (\<exists>a < j. is_assistant_entry (es ! a) \<and> (\<forall>i. a < i \<and> i < j \<longrightarrow> \<not> is_cut_point (es ! i))))"

text \<open>C8: A cut never separates a tool result from the response that called the tool: wherever a result is
  kept, its response is kept. A provider rejects a conversation with a result that answers no call.\<close>

theorem compaction_keeps_calls:
  assumes "0 < keep" and "findValidCutPoints es b (length es) \<noteq> []" and "results_follow_calls es"
    and "k = firstKeptEntryIndex (findCutPoint rd es b (length es) keep)"
    and "k \<le> j" and "j < length es" and "is_tool_result (es ! j)"
  shows "\<exists>a. k \<le> a \<and> a < j \<and> is_assistant_entry (es ! a) \<and> (\<forall>i. a < i \<and> i < j \<longrightarrow> \<not> is_cut_point (es ! i))"
proof -
  from findCutPoint_cases [OF assms(1), of rd es b] assms(2,4) obtain c where c: "cuts_at es k c"
    by (auto simp: Let_def)
  obtain a where a: "a < j" "is_assistant_entry (es ! a)" "\<forall>i. a < i \<and> i < j \<longrightarrow> \<not> is_cut_point (es ! i)"
    using assms(3,6,7) unfolding results_follow_calls_def by blast
  have "c \<noteq> j" using c tool_result_message [OF assms(7)] by (auto simp: cuts_at_def)
  moreover have "\<not> j < c" using c tool_result_message [OF assms(7)] assms(5) by (auto simp: cuts_at_def)
  ultimately have "c < j" by simp
  then have "\<not> a < c" using c a(3) by (auto simp: cuts_at_def)
  with a c show ?thesis by (intro exI [of _ a]) (auto simp: cuts_at_def)
qed

section \<open>What is summarised and what is kept\<close>
















text \<open>What the model is to be asked: for a summary of the history, with the last summary, and for one of the first part of a
  turn that is cut; and how the answers make up the summary.\<close>

definition prompts_for :: "message_reader \<Rightarrow> string option \<Rightarrow> compaction_preparation \<Rightarrow> string list" where
  "prompts_for rd instructions p =
     (if messagesToSummarize p \<noteq> [] \<or> turnPrefixMessages p = []
      then [summary_prompt rd (messagesToSummarize p) instructions (previousSummary p)] else [])
     @ (if turnPrefixMessages p \<noteq> [] then [conversation_block rd (turnPrefixMessages p) @ TURN_PREFIX_SUMMARIZATION_PROMPT] else [])"

definition summary_from :: "compaction_preparation \<Rightarrow> string list \<Rightarrow> string" where
  "summary_from p answers =
     (if turnPrefixMessages p = [] then hd answers
      else (if messagesToSummarize p \<noteq> [] then hd answers else ''No prior history.'')
        @ newline @ newline @ ''---'' @ newline @ newline @ ''**Turn Context (split turn):**'' @ newline @ newline @ last answers)"








section \<open>The files a summary lists\<close>

lemma code_unit_order_total: "code_unit_order x y \<le> 0 \<or> code_unit_order y x \<le> 0"
  by (induction x y rule: code_unit_order.induct) auto

lemma code_unit_order_antisym: "code_unit_order x y \<le> 0 \<Longrightarrow> code_unit_order y x \<le> 0 \<Longrightarrow> x = y"
  by (induction x y rule: code_unit_order.induct) (auto split: if_splits simp: not_less order_antisym)

lemma code_unit_order_trans: "code_unit_order x y \<le> 0 \<Longrightarrow> code_unit_order y z \<le> 0 \<Longrightarrow> code_unit_order x z \<le> 0"
proof (induction x y arbitrary: z rule: code_unit_order.induct)
  case (1 z)
  then show ?case by (cases z) auto
next
  case (2 d ds z)
  then show ?case by (cases z) auto
next
  case (4 c cs d ds z)
  show ?case
  proof (cases z)
    case (Cons e es)
    consider "(of_char c :: nat) < of_char d" | "(of_char c :: nat) = of_char d" | "(of_char d :: nat) < of_char c"
      by linarith
    then show ?thesis
      using 4 Cons by cases (auto split: if_splits)
  qed (use 4 in auto)
qed simp

interpretation path_order: comparator code_unit_order
  by unfold_locales (use code_unit_order_total code_unit_order_trans in blast)+

lemma set_add_path [simp]: "set (add_path p ps) = insert p (set ps)"
  by (auto simp: add_path_def)

lemma distinct_add_path [simp]: "distinct (add_path p ps) = distinct ps"
  by (simp add: add_path_def)

lemma set_fold_add_path: "set (fold add_path ps qs) = set ps \<union> set qs"
  by (induction ps arbitrary: qs) auto

lemma distinct_fold_add_path: "distinct (fold add_path ps qs) = distinct qs"
  by (induction ps arbitrary: qs) auto

definition distinct_ops :: "file_operations \<Rightarrow> bool" where
  "distinct_ops ops \<longleftrightarrow> distinct (fo_read ops) \<and> distinct (fo_written ops) \<and> distinct (fo_edited ops)"

lemma distinct_extract_part: "distinct_ops ops \<Longrightarrow> distinct_ops (extract_part b ops)"
  by (auto simp: distinct_ops_def extract_part_def split: part.splits option.splits)

lemma distinct_extract_message: "distinct_ops ops \<Longrightarrow> distinct_ops (extractFileOpsFromMessage rd m ops)"
proof -
  have "distinct_ops ops \<Longrightarrow> distinct_ops (fold extract_part bs ops)" for bs ops
    by (induction bs arbitrary: ops) (simp_all add: distinct_extract_part)
  then show "distinct_ops ops \<Longrightarrow> distinct_ops (extractFileOpsFromMessage rd m ops)"
    by (auto simp: extractFileOpsFromMessage_def split: agent_message.splits)
qed

lemma distinct_fold_messages: "distinct_ops ops \<Longrightarrow> distinct_ops (fold (extractFileOpsFromMessage rd) ms ops)"
  by (induction ms arbitrary: ops) (simp_all add: distinct_extract_message)

lemma distinct_prepared: "prepareCompaction rd es settings = Inr (Some p) \<Longrightarrow> distinct_ops (cp_fileOps p)"
proof -
  have "distinct_ops (add_details rd d h createFileOps)" for d h
    by (auto simp: add_details_def distinct_ops_def createFileOps_def distinct_fold_add_path split: option.splits prod.splits)
  then have "distinct_ops (extractFileOperations rd ms es prev)" for ms prev
    unfolding extractFileOperations_def
    by (intro distinct_fold_messages) (auto simp: distinct_ops_def createFileOps_def split: option.splits entry_kind.splits)
  then show "prepareCompaction rd es settings = Inr (Some p) \<Longrightarrow> distinct_ops (cp_fileOps p)"
    by (auto simp: prepareCompaction_def Let_def distinct_fold_messages split: if_splits)
qed

lemma computeFileLists_correct:
  assumes "distinct_ops ops" and "computeFileLists ops = (readFiles, modifiedFiles)"
  shows "set modifiedFiles = set (fo_written ops) \<union> set (fo_edited ops)
    \<and> set readFiles = set (fo_read ops) - set modifiedFiles
    \<and> distinct (readFiles @ modifiedFiles)
    \<and> sorted_wrt (\<lambda>x y. code_unit_order x y \<le> 0) readFiles \<and> sorted_wrt (\<lambda>x y. code_unit_order x y \<le> 0) modifiedFiles"
  using assms path_order.sorted_js_sort
  by (auto simp: computeFileLists_def Let_def set_fold_add_path distinct_fold_add_path distinct_ops_def)

text \<open>The two lists of files a compaction records: sorted, without repetition and disjoint; a file is listed
  as modified when it was written or edited in what is summarised or in the last summary, and as read
  when it was only read.\<close>

theorem compaction_file_lists:
  assumes "prepareCompaction rd es settings = Inr (Some p)"
    and "compact rd complete m p instructions level w = (Inr r, w')"
  shows "set (cr_modifiedFiles r) = set (fo_written (cp_fileOps p)) \<union> set (fo_edited (cp_fileOps p))
    \<and> set (cr_readFiles r) = set (fo_read (cp_fileOps p)) - set (cr_modifiedFiles r)
    \<and> distinct (cr_readFiles r @ cr_modifiedFiles r)
    \<and> sorted_wrt (\<lambda>x y. code_unit_order x y \<le> 0) (cr_readFiles r)
    \<and> sorted_wrt (\<lambda>x y. code_unit_order x y \<le> 0) (cr_modifiedFiles r)"
proof -
  obtain a b where ab: "computeFileLists (cp_fileOps p) = (a, b)" by fastforce
  with assms(2) have r: "cr_readFiles r = a" "cr_modifiedFiles r = b"
    by (auto simp: compact_def split: prod.splits sum.splits if_splits)
  show ?thesis unfolding r by (rule computeFileLists_correct [OF distinct_prepared [OF assms(1)] ab])
qed

section \<open>Small sessions\<close>

text \<open>Stored values that are their own text.\<close>

definition text_reader :: message_reader where
  "text_reader =
     \<lparr>content_of = Content_text,
      parts_of = (\<lambda>j. [Text_part j, Call_part ''edit'' \<lparr>args_json = [], args_entries = [], args_path = Some ''f''\<rparr>]),
      usage_of = (\<lambda>j. None), stopReason_of = (\<lambda>j. ''stop''),
      bash_of = (\<lambda>j. \<lparr>bash_command = j, bash_output = [], bash_exitCode = None, bash_cancelled = False, bash_truncated = False,
        bash_fullOutputPath = None, bash_excludeFromContext = False\<rparr>),
      details_of = (\<lambda>j. (None, None)), show_number = (\<lambda>n. ''n'')\<rparr>"

definition chat_entries :: "entry_kind list \<Rightarrow> entry list" where
  "chat_entries ks = map (\<lambda>(i, k). \<lparr>eid = replicate (Suc i) (CHR ''x''), parentId = (if i = 0 then None else Some (replicate i (CHR ''x''))),
     timestamp = i, kind = k\<rparr>) (enumerate 0 ks)"

definition keep_tokens :: "nat \<Rightarrow> compaction_settings" where
  "keep_tokens n = \<lparr>cs_enabled = True, reserveTokens = 100, keepRecentTokens = n\<rparr>"

definition two_turns :: "entry list" where
  "two_turns = chat_entries
     [MessageEntry (UserMessage ''first''), MessageEntry (AssistantMessage ''p'' ''m'' ''call''), MessageEntry (ToolResultMessage ''result''),
      MessageEntry (UserMessage ''second''), MessageEntry (AssistantMessage ''p'' ''m'' ''done'')]"

theorem compaction_keeps_recent_witness:
  "\<exists>c. 3 \<le> c \<and> c < length two_turns \<and> is_cut_point (two_turns ! c) \<and> (\<forall>i. 3 \<le> i \<and> i < c \<longrightarrow> \<not> is_message (two_turns ! i))
    \<and> (tokens_from text_reader two_turns (Suc c) < 4
       \<or> c = hd (findValidCutPoints two_turns 0 (length two_turns))
         \<and> (\<exists>i. i < length two_turns \<and> 4 \<le> tokens_from text_reader two_turns i
           \<and> (\<forall>j. i \<le> j \<and> j < length two_turns \<longrightarrow> \<not> is_cut_point (two_turns ! j))))"
proof (rule compaction_keeps_recent)
  show "findValidCutPoints two_turns 0 (length two_turns) \<noteq> []" by code_simp
  show "firstKeptEntryIndex (findCutPoint text_reader two_turns 0 (length two_turns) 4) = 3" by code_simp
qed simp

lemma two_turns_results: "results_follow_calls two_turns"
proof -
  have "two_turns ! 0 = hd two_turns" by (simp add: two_turns_def chat_entries_def)
  have "\<not> is_tool_result (two_turns ! j)" if "j \<noteq> 2" "j < 5" for j
  proof -
    have "j \<in> {0, 1, 3, 4}" using that by auto
    then show ?thesis by (auto simp: two_turns_def chat_entries_def is_tool_result_def numeral_nat)
  qed
  moreover have "is_assistant_entry (two_turns ! 1)" by code_simp
  moreover have "length two_turns = 5" by code_simp
  moreover have "\<not> (Suc 0 < i \<and> i < 2)" for i :: nat by simp
  ultimately show ?thesis unfolding results_follow_calls_def by (metis One_nat_def one_less_numeral_iff semiring_norm(76))
qed

theorem compaction_keeps_calls_witness:
  "\<exists>a. 1 \<le> a \<and> a < 2 \<and> is_assistant_entry (two_turns ! a) \<and> (\<forall>i. a < i \<and> i < 2 \<longrightarrow> \<not> is_cut_point (two_turns ! i))"
proof (rule compaction_keeps_calls [OF _ _ two_turns_results])
  show "findValidCutPoints two_turns 0 (length two_turns) \<noteq> []" by code_simp
  show "(1::nat) = firstKeptEntryIndex (findCutPoint text_reader two_turns 0 (length two_turns) 7)" by code_simp
  show "(2::nat) < length two_turns" by code_simp
  show "is_tool_result (two_turns ! 2)" by code_simp
  show "(0::nat) < 7" by simp
qed simp

lemma two_turns_prepared:
  "prepareCompaction text_reader two_turns (keep_tokens 4) = Inr (Some
     \<lparr>firstKeptEntryId = ''xxxx'', messagesToSummarize = [UserMessage ''first'', AssistantMessage ''p'' ''m'' ''call'', ToolResultMessage ''result''],
       turnPrefixMessages = [], cp_isSplitTurn = False, cp_tokensBefore = 10, previousSummary = None,
       cp_fileOps = \<lparr>fo_read = [], fo_written = [], fo_edited = [''f'']\<rparr>, cp_settings = keep_tokens 4\<rparr>)"
  by code_simp

definition summarizing_model :: "unit completion" where
  "summarizing_model = (\<lambda>rq w. (\<lparr>rs_stopReason = ''stop'', rs_errorMessage = None, rs_content = [Text_part ''short'']\<rparr>, w))"


text \<open>When a compaction cuts the turn in which the last one made its cut, the history is empty and the last summary is
  dropped: it is in no request, and the new summary says that there is no prior history.\<close>

definition cut_again :: "entry list" where
  "cut_again = chat_entries [MessageEntry (UserMessage ''first''), CompactionEntry ''all before'' ''x'' 90 None None,
     MessageEntry (AssistantMessage ''p'' ''m'' ''call''), MessageEntry (ToolResultMessage ''result''),
     MessageEntry (AssistantMessage ''p'' ''m'' ''done'')]"

theorem split_turn_drops_summary:
  "(case prepareCompaction text_reader cut_again (keep_tokens 1) of
      Inr (Some p) \<Rightarrow>
        previousSummary p = Some ''all before'' \<and> messagesToSummarize p = []
        \<and> prompts_for text_reader None p = [conversation_block text_reader (turnPrefixMessages p) @ TURN_PREFIX_SUMMARIZATION_PROMPT]
        \<and> take 17 (summary_from p [''short'']) = ''No prior history.''
    | _ \<Rightarrow> False)"
  by code_simp

theorem compaction_file_lists_witness:
  "\<exists>p r. compact text_reader summarizing_model \<lparr>sm_maxTokens = 50, sm_reasoning = False\<rparr> p None None () = (Inr r, ())
    \<and> set (cr_modifiedFiles r) = {''f''} \<and> set (cr_readFiles r) = {}"
proof -
  from two_turns_prepared obtain p where p: "prepareCompaction text_reader two_turns (keep_tokens 4) = Inr (Some p)"
    and ops: "cp_fileOps p = \<lparr>fo_read = [], fo_written = [], fo_edited = [''f'']\<rparr>"
    and id: "firstKeptEntryId p = ''xxxx''" "\<not> cp_isSplitTurn p" by simp
  have "\<exists>r. compact text_reader summarizing_model \<lparr>sm_maxTokens = 50, sm_reasoning = False\<rparr> p None None () = (Inr r, ())"
    using id by (auto simp: compact_def history_summary_def generateSummary_def summarizing_model_def summary_of_def split: prod.splits)
  then obtain r where r: "compact text_reader summarizing_model \<lparr>sm_maxTokens = 50, sm_reasoning = False\<rparr> p None None () = (Inr r, ())"
    by blast
  from compaction_file_lists [OF p r] r ops show ?thesis by auto
qed

text \<open>A session that ends in a large tool result cannot be compacted: nothing is summarised and every
  message is kept, although the context is as full as before.\<close>

theorem compaction_blocked_by_result:
  "\<exists>p. prepareCompaction text_reader (take 3 two_turns) (keep_tokens 1) = Inr (Some p)
    \<and> messagesToSummarize p = [] \<and> turnPrefixMessages p = [] \<and> firstKeptEntryId p = eid (hd two_turns)"
proof -
  have "case prepareCompaction text_reader (take 3 two_turns) (keep_tokens 1) of
      Inr (Some p) \<Rightarrow> messagesToSummarize p = [] \<and> turnPrefixMessages p = [] \<and> firstKeptEntryId p = eid (hd two_turns) | _ \<Rightarrow> False"
    by code_simp
  then show ?thesis by (auto split: sum.splits option.splits)
qed

text \<open>A change of the model (or any entry that is no message) before a prompt moves the cut in front of it,
  and the cut is then taken to split the turn before, which is complete: that turn is summarised as the
  prefix of a turn and not as history.\<close>

theorem compaction_cut_before_setting:
  "\<exists>p. prepareCompaction text_reader
      (chat_entries [MessageEntry (UserMessage ''first''), MessageEntry (AssistantMessage ''p'' ''m'' ''done''),
        ModelChangeEntry ''p'' ''n'', MessageEntry (UserMessage ''second''), MessageEntry (AssistantMessage ''p'' ''n'' ''done'')])
      (keep_tokens 4) = Inr (Some p)
    \<and> cp_isSplitTurn p \<and> messagesToSummarize p = []
    \<and> turnPrefixMessages p = [UserMessage ''first'', AssistantMessage ''p'' ''m'' ''done'']"
proof -
  have "case prepareCompaction text_reader
      (chat_entries [MessageEntry (UserMessage ''first''), MessageEntry (AssistantMessage ''p'' ''m'' ''done''),
        ModelChangeEntry ''p'' ''n'', MessageEntry (UserMessage ''second''), MessageEntry (AssistantMessage ''p'' ''n'' ''done'')])
      (keep_tokens 4) of
      Inr (Some p) \<Rightarrow> cp_isSplitTurn p \<and> messagesToSummarize p = []
        \<and> turnPrefixMessages p = [UserMessage ''first'', AssistantMessage ''p'' ''m'' ''done''] | _ \<Rightarrow> False"
    by code_simp
  then show ?thesis by (auto split: sum.splits option.splits)
qed

end
