(* ===== verification/Branch_Summary.thy ===== *)
theory Branch_Summary
  imports Compaction
begin

text \<open>
  Summaries of branches (\<open>packages/agent/src/harness/compaction/branch-summarization.ts\<close>): when a session
  moves to another branch, the entries of the one it leaves that are not on the new one are collected,
  the most recent of them that fit a budget are summarised.
\<close>

section \<open>The entries left behind\<close>

record collected =
  co_entries :: "entry list"
  commonAncestorId :: "string option"

text \<open>From the old leaf up to the common ancestor; the entries come out oldest first.\<close>

partial_function (option) collect_up ::
  "'s storage_ops \<Rightarrow> 's \<Rightarrow> string option \<Rightarrow> string option \<Rightarrow> entry list \<Rightarrow> (session_error + entry list) option" where
  "collect_up ops s ancestor cursor acc =
     (case cursor of
        None \<Rightarrow> Some (Inr acc)
      | Some c \<Rightarrow>
          if c = [] \<or> cursor = ancestor then Some (Inr acc)
          else (case getEntry ops s c of
                  None \<Rightarrow> Some (Inl (Invalid_session c))
                | Some e \<Rightarrow> collect_up ops s ancestor (parentId e) (e # acc)))"

declare collect_up.simps [code]

definition common_ancestor :: "entry list \<Rightarrow> entry list \<Rightarrow> string option" where
  "common_ancestor oldPath targetPath = map_option eid (find (\<lambda>e. eid e \<in> set (map eid oldPath)) (rev targetPath))"

definition collectEntriesForBranchSummary ::
  "'s storage_ops \<Rightarrow> 's \<Rightarrow> string option \<Rightarrow> string \<Rightarrow> (session_error + collected) option" where
  "collectEntriesForBranchSummary ops s oldLeafId targetId =
     (if oldLeafId = None \<or> oldLeafId = Some [] then Some (Inr \<lparr>co_entries = [], commonAncestorId = None\<rparr>)
      else
        (case getBranch ops oldLeafId s of
           None \<Rightarrow> None
         | Some (Inl e) \<Rightarrow> Some (Inl e)
         | Some (Inr oldPath) \<Rightarrow>
             (case getBranch ops (Some targetId) s of
                None \<Rightarrow> None
              | Some (Inl e) \<Rightarrow> Some (Inl e)
              | Some (Inr targetPath) \<Rightarrow>
                  (let ancestor = common_ancestor oldPath targetPath in
                   map_option (map_sum id (\<lambda>es. \<lparr>co_entries = es, commonAncestorId = ancestor\<rparr>))
                     (collect_up ops s ancestor oldLeafId [])))))"

section \<open>What fits the budget\<close>

definition branch_message :: "entry \<Rightarrow> agent_message option" where
  "branch_message e =
     (case kind e of
        MessageEntry m \<Rightarrow> (case m of ToolResultMessage _ \<Rightarrow> None | _ \<Rightarrow> Some m)
      | CustomMessageEntry customType content display details \<Rightarrow>
          Some (CustomAgentMessage customType content display details (timestamp e))
      | BranchSummaryEntry fromId summary _ _ \<Rightarrow> Some (BranchSummaryMessage summary fromId (timestamp e))
      | CompactionEntry summary _ tokensBefore _ _ \<Rightarrow> Some (CompactionSummaryMessage summary tokensBefore (timestamp e))
      | _ \<Rightarrow> None)"

definition is_summary :: "entry \<Rightarrow> bool" where
  "is_summary e = (case kind e of CompactionEntry _ _ _ _ _ \<Rightarrow> True | BranchSummaryEntry _ _ _ _ \<Rightarrow> True | _ \<Rightarrow> False)"

record branch_preparation =
  bp_messages :: "agent_message list"
  bp_fileOps :: file_operations
  bp_totalTokens :: nat

text \<open>From the newest entry back, until one no longer fits; a summary that does not fit is still taken while
  less than nine tenths of the budget are used.\<close>

fun branch_walk :: "message_reader \<Rightarrow> int \<Rightarrow> entry list \<Rightarrow> branch_preparation \<Rightarrow> branch_preparation" where
  "branch_walk rd tokenBudget [] p = p"
| "branch_walk rd tokenBudget (e # older) p =
     (case branch_message e of
        None \<Rightarrow> branch_walk rd tokenBudget older p
      | Some m \<Rightarrow>
          (let p = p\<lparr>bp_fileOps := extractFileOpsFromMessage rd m (bp_fileOps p)\<rparr>;
               tokens = estimateTokens rd m;
               taken = p\<lparr>bp_messages := m # bp_messages p, bp_totalTokens := bp_totalTokens p + tokens\<rparr>
           in if tokenBudget > 0 \<and> int (bp_totalTokens p + tokens) > tokenBudget
              then (if is_summary e \<and> 10 * int (bp_totalTokens p) < 9 * tokenBudget then taken else p)
              else branch_walk rd tokenBudget older taken))"

definition summary_details :: "message_reader \<Rightarrow> entry \<Rightarrow> file_operations \<Rightarrow> file_operations" where
  "summary_details rd e ops =
     (case kind e of BranchSummaryEntry _ _ details fromHook \<Rightarrow> add_details rd details fromHook ops | _ \<Rightarrow> ops)"

definition prepareBranchEntries :: "message_reader \<Rightarrow> entry list \<Rightarrow> int \<Rightarrow> branch_preparation" where
  "prepareBranchEntries rd es tokenBudget =
     branch_walk rd tokenBudget (rev es)
       \<lparr>bp_messages = [], bp_fileOps = fold (summary_details rd) es createFileOps, bp_totalTokens = 0\<rparr>"

section \<open>The summary\<close>

definition BRANCH_SUMMARY_PREAMBLE :: string where
  \<open>BRANCH_SUMMARY_PREAMBLE = join_with newline
     [''The user explored a different conversation branch before returning here.'',
      ''Summary of that exploration:'',
      [],
      []]\<close>

definition BRANCH_SUMMARY_PROMPT :: string where
  \<open>BRANCH_SUMMARY_PROMPT = join_with newline
     [''Create a structured summary of this conversation branch for context when returning later.'',
      [],
      ''Use this EXACT format:'',
      [],
      ''## Goal'',
      ''[What was the user trying to accomplish in this branch?]'',
      [],
      ''## Constraints & Preferences'',
      ''- [Any constraints, preferences, or requirements mentioned]'',
      ''- [Or "(none)" if none were mentioned]'',
      [],
      ''## Progress'',
      ''### Done'',
      ''- [x] [Completed tasks/changes]'',
      [],
      ''### In Progress'',
      ''- [ ] [Work that was started but not finished]'',
      [],
      ''### Blocked'',
      ''- [Issues preventing progress, if any]'',
      [],
      ''## Key Decisions'',
      ''- **[Decision]**: [Brief rationale]'',
      [],
      ''## Next Steps'',
      ''1. [What should happen next to continue this work]'',
      [],
      ''Keep each section concise. Preserve exact file paths, function names, and error messages.'']\<close>

record branch_options =
  bo_contextWindow :: int
  bo_customInstructions :: "string option"
  bo_replaceInstructions :: bool
  bo_reserveTokens :: "int option"

record branch_summary_result =
  bs_summary :: string
  bs_readFiles :: "string list"
  bs_modifiedFiles :: "string list"

definition branch_instructions :: "branch_options \<Rightarrow> string" where
  "branch_instructions o' =
     (if is_set (bo_customInstructions o')
      then (if bo_replaceInstructions o' then the (bo_customInstructions o')
            else BRANCH_SUMMARY_PROMPT @ newline @ newline @ ''Additional focus: '' @ the (bo_customInstructions o'))
      else BRANCH_SUMMARY_PROMPT)"

definition token_budget :: "branch_options \<Rightarrow> int" where
  "token_budget o' =
     (if bo_contextWindow o' \<noteq> 0 then bo_contextWindow o' else 128000)
     - (case bo_reserveTokens o' of Some r \<Rightarrow> r | None \<Rightarrow> 16384)"

definition generateBranchSummary ::
  "message_reader \<Rightarrow> 'w completion \<Rightarrow> branch_options \<Rightarrow> entry list \<Rightarrow> 'w \<Rightarrow> (summary_error + branch_summary_result) \<times> 'w" where
  "generateBranchSummary rd complete o' es w =
     (let p = prepareBranchEntries rd es (token_budget o') in
      if bp_messages p = []
      then (Inr \<lparr>bs_summary = ''No content to summarize'', bs_readFiles = [], bs_modifiedFiles = []\<rparr>, w)
      else
        (case complete \<lparr>rq_systemPrompt = SUMMARIZATION_SYSTEM_PROMPT,
              rq_prompt = conversation_block rd (bp_messages p) @ branch_instructions o',
              rq_maxTokens = 2048, rq_reasoning = None\<rparr> w of
           (r, w') \<Rightarrow>
             (case summary_of ''Branch summary aborted'' ''Branch summary failed: '' r of
                Inl e \<Rightarrow> (Inl e, w')
              | Inr t \<Rightarrow>
                  (case computeFileLists (bp_fileOps p) of (readFiles, modifiedFiles) \<Rightarrow>
                     (Inr \<lparr>bs_summary = BRANCH_SUMMARY_PREAMBLE @ t @ formatFileOperations readFiles modifiedFiles,
                        bs_readFiles = readFiles, bs_modifiedFiles = modifiedFiles\<rparr>, w')))))"

section \<open>The entries left behind are those after the common ancestor\<close>

lemma branch_rev_prefix:
  "wf_rev es \<Longrightarrow> i \<in> ids es \<Longrightarrow> branch_rev es i = a @ x # b \<Longrightarrow> branch_rev es (eid x) = a @ [x]"
proof (induction es arbitrary: i a b)
  case (Cons e es)
  show ?case
  proof (cases "eid e = i")
    case False
    with Cons.prems have i: "i \<in> ids es" "branch_rev es i = a @ x # b" "wf_rev es" by auto
    then have "branch_rev es (eid x) = a @ [x]" by (intro Cons.IH)
    moreover have "x \<in> set es" using branch_rev_chain [OF i(3,1)] i(2) by auto
    then have "eid x \<noteq> eid e" using Cons.prems(1) by (metis image_eqI wf_rev.simps(2))
    ultimately show ?thesis by auto
  next
    case True
    show ?thesis
    proof (cases "parentId e")
      case None
      with True Cons.prems show ?thesis by (auto simp: Cons_eq_append_conv)
    next
      case (Some p)
      with Cons.prems have p: "p \<in> ids es" "wf_rev es" by auto
      have whole: "branch_rev es p @ [e] = a @ x # b" using Cons.prems True Some by auto
      show ?thesis
      proof (cases b rule: rev_cases)
        case Nil
        with whole show ?thesis using True Some by auto
      next
        case (snoc b' y)
        with whole have "branch_rev es p = a @ x # b'" by simp
        then have "branch_rev es (eid x) = a @ [x]" "x \<in> set es"
          using Cons.IH [OF p(2,1)] branch_rev_chain [OF p(2,1)] by auto
        moreover from this(2) have "eid x \<noteq> eid e" using Cons.prems(1) by (metis image_eqI wf_rev.simps(2))
        ultimately show ?thesis by auto
      qed
    qed
  qed
qed simp

lemmas branch_prefix = branch_rev_prefix [of "rev es" for es, folded wf_log_def branch_def, simplified]

lemma wf_log_same: "wf_log es \<Longrightarrow> x \<in> set es \<Longrightarrow> y \<in> set es \<Longrightarrow> eid x = eid y \<Longrightarrow> x = y"
  using js_get_index by (metis option.inject)

context session_storage
begin

lemma collect_up_path:
  assumes "inv s" and "chained None (c @ r)" and "distinct (map eid (c @ r))" and "set (c @ r) \<subseteq> set (log s)"
  shows "collect_up ops s (if c = [] then None else Some (eid (last c))) (if c @ r = [] then None else Some (eid (last (c @ r)))) acc
    = Some (Inr (r @ acc))"
  using assms(2-4)
proof (induction r arbitrary: acc rule: rev_induct)
  case Nil
  then show ?case by (subst collect_up.simps) simp
next
  case (snoc e r)
  let ?anc = "if c = [] then None else Some (eid (last c))"
  have chain: "chained None (c @ r)" "parentId e = (if c @ r = [] then None else Some (eid (last (c @ r))))"
    using snoc.prems(1) chained_snoc [of None "c @ r" e] by auto
  have log: "wf_log (log s)" "e \<in> set (log s)" using log_wf [OF assms(1)] snoc.prems(3) by auto
  then have get: "getEntry ops s (eid e) = Some e" using getEntry [OF assms(1)] js_get_index by simp
  have "eid e \<noteq> []" using wf_log_eid [OF log] .
  moreover have "Some (eid e) \<noteq> ?anc" using snoc.prems(2) last_in_set [of c] by auto
  moreover have "collect_up ops s ?anc (parentId e) (e # acc) = Some (Inr (r @ e # acc))"
    using snoc.IH [OF chain(1), of "e # acc"] snoc.prems chain(2) by simp
  ultimately show ?case using get by (subst collect_up.simps) simp
qed

lemma collect_branches:
  assumes "inv s" and "old \<in> ids (log s)" and "target \<in> ids (log s)"
  shows "\<exists>common left rest. branch (log s) old = common @ left \<and> branch (log s) target = common @ rest
    \<and> set (map eid left) \<inter> set (map eid rest) = {}
    \<and> collectEntriesForBranchSummary ops s (Some old) target
      = Some (Inr \<lparr>co_entries = left, commonAncestorId = (if common = [] then None else Some (eid (last common)))\<rparr>)"
proof -
  let ?O = "branch (log s) old" and ?T = "branch (log s) target"
  note wf = log_wf [OF assms(1)]
  note O = branch_chain [OF wf assms(2)] and T = branch_chain [OF wf assms(3)]
  have get: "getBranch ops (Some i) s = Some (Inr (branch (log s) i))" if "i \<in> ids (log s)" for i
    using getPathToRoot [OF assms(1)] path_to_root_branch [OF wf that] by (simp add: getBranch_def)
  have old: "old \<noteq> []" using assms(2) wf_log_eid [OF wf] by auto
  have split: "\<exists>common left rest. ?O = common @ left \<and> ?T = common @ rest \<and> set (map eid left) \<inter> set (map eid rest) = {}
    \<and> common_ancestor ?O ?T = (if common = [] then None else Some (eid (last common)))"
  proof (cases "find (\<lambda>e. eid e \<in> set (map eid ?O)) (rev ?T)")
    case None
    then have "\<forall>y \<in> set ?T. eid y \<notin> set (map eid ?O)" unfolding find_None_iff set_rev by blast
    then have "\<forall>i \<in> set (map eid ?T). i \<notin> set (map eid ?O)" by (simp only: set_map ball_simps)
    then have "set (map eid ?O) \<inter> set (map eid ?T) = {}" by (simp only: disjoint_iff) blast
    with None show ?thesis by (intro exI [of _ "[]"] exI [of _ ?O] exI [of _ ?T]) (simp add: common_ancestor_def)
  next
    case (Some x)
    then obtain n where n: "n < length ?T" "eid (rev ?T ! n) \<in> set (map eid ?O)" "x = rev ?T ! n"
      "\<forall>j < n. eid (rev ?T ! j) \<notin> set (map eid ?O)"
      by (auto simp: find_Some_iff)
    have "rev ?T = take n (rev ?T) @ x # drop (Suc n) (rev ?T)" using n(1,3) by (simp add: id_take_nth_drop)
    then have "?T = rev (drop (Suc n) (rev ?T)) @ x # rev (take n (rev ?T))"
      by (metis append.assoc append_Cons append_Nil rev.simps(2) rev_append rev_rev_ident)
    then obtain t1 t2 where t: "?T = t1 @ x # t2" "t2 = rev (take n (rev ?T))" by blast
    have t2: "eid y \<notin> set (map eid ?O)" if "y \<in> set t2" for y
      using that n(4) unfolding t(2) by (auto simp: in_set_conv_nth)
    obtain y where y: "y \<in> set ?O" "eid y = eid x" using n(2,3) by auto
    moreover have "x \<in> set ?T" using t(1) by auto
    ultimately have "y = x" using wf_log_same [OF wf, of y x] O T by blast
    then obtain o1 o2 where o: "?O = o1 @ x # o2" using y by (meson split_list)
    have "o1 @ [x] = t1 @ [x]" using branch_prefix [OF wf assms(2) o] branch_prefix [OF wf assms(3) t(1)] by simp
    then have common: "?O = (t1 @ [x]) @ o2" "?T = (t1 @ [x]) @ t2" using o t(1) by auto
    have "eid y \<notin> set (map eid o2)" if "y \<in> set t2" for y using t2 [OF that] o by simp
    then have "\<forall>i \<in> set (map eid t2). i \<notin> set (map eid o2)" by (auto simp del: set_map simp: set_map [of eid t2])
    then have "set (map eid o2) \<inter> set (map eid t2) = {}" by (simp only: disjoint_iff) blast
    with common Some show ?thesis
      by (intro exI [of _ "t1 @ [x]"] exI [of _ o2] exI [of _ t2]) (simp add: common_ancestor_def)
  qed
  then obtain common left rest where c: "?O = common @ left" "?T = common @ rest" "set (map eid left) \<inter> set (map eid rest) = {}"
    and anc: "common_ancestor ?O ?T = (if common = [] then None else Some (eid (last common)))" by blast
  have "collect_up ops s (common_ancestor ?O ?T) (Some old) [] = Some (Inr left)"
    using collect_up_path [OF assms(1), of common left "[]"] O anc unfolding c(1) by auto
  then have "collectEntriesForBranchSummary ops s (Some old) target
      = Some (Inr \<lparr>co_entries = left, commonAncestorId = common_ancestor ?O ?T\<rparr>)"
    using old get assms by (simp add: collectEntriesForBranchSummary_def)
  with c anc show ?thesis by auto
qed

end

text \<open>C40: Whatever a session kept in a file has been through, moving from one of its entries to another leaves
  behind exactly the entries of the old branch after the last entry both branches share, in order:
  collecting them returns, the two branches are equal up to that entry, which is the common ancestor
  reported, and after it they have no entry in common.\<close>

theorem branch_left_behind:
  assumes "uuid_source uuid N" and "202 * length os \<le> N"
    and "s = jsonl_session encode_header encode uuid h oks os" and "ops = jsonl_ops encode uuid"
    and "old \<in> eid ` set (getEntries ops s)" and "target \<in> eid ` set (getEntries ops s)"
  shows "\<exists>common left rest.
      getBranch ops (Some old) s = Some (Inr (common @ left)) \<and> getBranch ops (Some target) s = Some (Inr (common @ rest))
    \<and> set (map eid left) \<inter> set (map eid rest) = {}
    \<and> collectEntriesForBranchSummary ops s (Some old) target
      = Some (Inr \<lparr>co_entries = left, commonAncestorId = (if common = [] then None else Some (eid (last common)))\<rparr>)"
proof -
  have inv: "uuid_source uuid N \<and> jsonl_inv False encode_header encode uuid s"
    unfolding assms(3) by (rule jsonl_session_any [OF assms(1,2)])
  have ids: "old \<in> ids (entries s)" "target \<in> ids (entries s)"
    using assms(5,6) by (simp_all add: assms(4) jsonl.getEntries)
  have get: "getBranch ops (Some i) s = Some (Inr (branch (entries s) i))" if "i \<in> ids (entries s)" for i
    using jsonl.getPathToRoot [OF inv] path_to_root_branch [OF jsonl.log_wf [OF inv] that]
    by (simp add: getBranch_def assms(4))
  from jsonl.collect_branches [OF inv ids] get [OF ids(1)] get [OF ids(2)] show ?thesis
    by (simp add: assms(4))
qed

section \<open>What is summarised is recent and fits\<close>

definition branch_tokens :: "message_reader \<Rightarrow> entry list \<Rightarrow> nat" where
  "branch_tokens rd es = sum_list (map (estimateTokens rd) (List.map_filter branch_message es))"

lemma branch_tokens_simps [simp]:
  "branch_tokens rd [] = 0"
  "branch_tokens rd (e # es) = (case branch_message e of None \<Rightarrow> 0 | Some m \<Rightarrow> estimateTokens rd m) + branch_tokens rd es"
  "branch_tokens rd (xs @ ys) = branch_tokens rd xs + branch_tokens rd ys"
  by (auto simp: branch_tokens_def map_filter_def split: option.splits)

lemma branch_walk_takes:
  "\<exists>older newer extra. es = newer @ older
    \<and> bp_messages (branch_walk rd budget es p) = extra @ List.map_filter branch_message (rev newer) @ bp_messages p
    \<and> bp_totalTokens (branch_walk rd budget es p)
      = sum_list (map (estimateTokens rd) extra) + branch_tokens rd newer + bp_totalTokens p
    \<and> (0 < budget \<longrightarrow> int (bp_totalTokens p) \<le> budget \<longrightarrow> int (branch_tokens rd newer + bp_totalTokens p) \<le> budget)
    \<and> (case older of
         [] \<Rightarrow> extra = []
       | e # _ \<Rightarrow> \<exists>m. branch_message e = Some m \<and> 0 < budget
           \<and> budget < int (estimateTokens rd m + branch_tokens rd newer + bp_totalTokens p)
           \<and> (extra = [] \<or> extra = [m] \<and> is_summary e \<and> 10 * int (branch_tokens rd newer + bp_totalTokens p) < 9 * budget))"
proof (induction es arbitrary: p)
  case Nil
  then show ?case by (intro exI [of _ "[]"]) (simp add: map_filter_def)
next
  case (Cons e es)
  show ?case
  proof (cases "branch_message e")
    case None
    from Cons.IH [of p] obtain older newer extra where ih: "es = newer @ older"
      "bp_messages (branch_walk rd budget es p) = extra @ List.map_filter branch_message (rev newer) @ bp_messages p"
      "bp_totalTokens (branch_walk rd budget es p) = sum_list (map (estimateTokens rd) extra) + branch_tokens rd newer + bp_totalTokens p"
      "0 < budget \<longrightarrow> int (bp_totalTokens p) \<le> budget \<longrightarrow> int (branch_tokens rd newer + bp_totalTokens p) \<le> budget"
      "case older of [] \<Rightarrow> extra = []
       | e # _ \<Rightarrow> \<exists>m. branch_message e = Some m \<and> 0 < budget
           \<and> budget < int (estimateTokens rd m + branch_tokens rd newer + bp_totalTokens p)
           \<and> (extra = [] \<or> extra = [m] \<and> is_summary e \<and> 10 * int (branch_tokens rd newer + bp_totalTokens p) < 9 * budget)"
      by blast
    show ?thesis
      by (rule exI [of _ older], rule exI [of _ "e # newer"], rule exI [of _ extra]) (use ih None in \<open>simp add: map_filter_def split: list.splits\<close>)
  next
    case (Some m)
    let ?p = "p\<lparr>bp_fileOps := extractFileOpsFromMessage rd m (bp_fileOps p)\<rparr>"
    let ?q = "?p\<lparr>bp_messages := m # bp_messages p, bp_totalTokens := bp_totalTokens p + estimateTokens rd m\<rparr>"
    show ?thesis
    proof (cases "budget > 0 \<and> int (bp_totalTokens p + estimateTokens rd m) > budget")
      case True
      show ?thesis
      proof (cases "is_summary e \<and> 10 * int (bp_totalTokens p) < 9 * budget")
        case inner: True
        show ?thesis
          by (rule exI [of _ "e # es"], rule exI [of _ "[]"], rule exI [of _ "[m]"])
             (use True inner Some in \<open>simp add: Let_def map_filter_def\<close>)
      next
        case inner: False
        show ?thesis
          by (rule exI [of _ "e # es"], rule exI [of _ "[]"], rule exI [of _ "[]"])
             (use True inner Some in \<open>simp add: Let_def map_filter_def\<close>)
      qed
    next
      case False
      from Cons.IH [of ?q] obtain older newer extra where ih: "es = newer @ older"
        "bp_messages (branch_walk rd budget es ?q) = extra @ List.map_filter branch_message (rev newer) @ bp_messages ?q"
        "bp_totalTokens (branch_walk rd budget es ?q) = sum_list (map (estimateTokens rd) extra) + branch_tokens rd newer + bp_totalTokens ?q"
        "0 < budget \<longrightarrow> int (bp_totalTokens ?q) \<le> budget \<longrightarrow> int (branch_tokens rd newer + bp_totalTokens ?q) \<le> budget"
        "case older of [] \<Rightarrow> extra = []
         | e # _ \<Rightarrow> \<exists>m. branch_message e = Some m \<and> 0 < budget
             \<and> budget < int (estimateTokens rd m + branch_tokens rd newer + bp_totalTokens ?q)
             \<and> (extra = [] \<or> extra = [m] \<and> is_summary e \<and> 10 * int (branch_tokens rd newer + bp_totalTokens ?q) < 9 * budget)"
        by blast
      have "branch_walk rd budget (e # es) p = branch_walk rd budget es ?q"
        using False Some by (auto simp: Let_def)
      note walk = this
      have t0: "branch_tokens rd newer + bp_totalTokens ?q = branch_tokens rd (e # newer) + bp_totalTokens p"
        using Some by simp
      have t: "x + branch_tokens rd newer + bp_totalTokens ?q = x + branch_tokens rd (e # newer) + bp_totalTokens p" for x
        using Some by simp
      have "e # es = (e # newer) @ older" using ih(1) by simp
      moreover have "bp_messages (branch_walk rd budget (e # es) p) = extra @ List.map_filter branch_message (rev (e # newer)) @ bp_messages p"
        unfolding walk ih(2) by (simp add: Some map_filter_def)
      moreover have "bp_totalTokens (branch_walk rd budget (e # es) p)
          = sum_list (map (estimateTokens rd) extra) + branch_tokens rd (e # newer) + bp_totalTokens p"
        unfolding walk ih(3) t ..
      moreover have "0 < budget \<longrightarrow> int (bp_totalTokens p) \<le> budget \<longrightarrow> int (branch_tokens rd (e # newer) + bp_totalTokens p) \<le> budget"
        using ih(4) False unfolding t0 by auto
      ultimately show ?thesis
        using ih(5) unfolding t t0 by blast
    qed
  qed
qed

text \<open>The messages selected for the summary of a branch are those of its most recent entries, in order;
  within a budget their tokens fit it, and the next older message would not have. Only a summary that
  does not fit may be taken on top, and only while less than nine tenths of the budget are used.\<close>

theorem branch_preparation_fits:
  "\<exists>older newer extra. es = older @ newer
    \<and> bp_messages (prepareBranchEntries rd es budget) = extra @ List.map_filter branch_message newer
    \<and> bp_totalTokens (prepareBranchEntries rd es budget) = sum_list (map (estimateTokens rd) extra) + branch_tokens rd newer
    \<and> (0 < budget \<longrightarrow> int (branch_tokens rd newer) \<le> budget)
    \<and> (if older = [] then extra = []
       else \<exists>m. branch_message (last older) = Some m \<and> 0 < budget \<and> budget < int (estimateTokens rd m + branch_tokens rd newer)
         \<and> (extra = [] \<or> extra = [m] \<and> is_summary (last older) \<and> 10 * int (branch_tokens rd newer) < 9 * budget))"
proof -
  let ?p = "\<lparr>bp_messages = [], bp_fileOps = fold (summary_details rd) es createFileOps, bp_totalTokens = 0\<rparr>"
  obtain older newer extra where w: "rev es = newer @ older"
    "bp_messages (branch_walk rd budget (rev es) ?p) = extra @ List.map_filter branch_message (rev newer)"
    "bp_totalTokens (branch_walk rd budget (rev es) ?p) = sum_list (map (estimateTokens rd) extra) + branch_tokens rd newer"
    "0 < budget \<longrightarrow> int 0 \<le> budget \<longrightarrow> int (branch_tokens rd newer) \<le> budget"
    "case older of [] \<Rightarrow> extra = []
       | e # _ \<Rightarrow> \<exists>m. branch_message e = Some m \<and> 0 < budget \<and> budget < int (estimateTokens rd m + branch_tokens rd newer)
           \<and> (extra = [] \<or> extra = [m] \<and> is_summary e \<and> 10 * int (branch_tokens rd newer) < 9 * budget)"
    using branch_walk_takes [of "rev es" rd budget ?p]
    unfolding branch_preparation.select_convs add_0_right append_Nil2 by blast
  have es: "es = rev older @ rev newer" using w(1) by (metis rev_append rev_rev_ident)
  have "branch_tokens rd (rev newer) = branch_tokens rd newer"
    by (simp add: branch_tokens_def map_filter_def rev_filter [symmetric] rev_map [symmetric] sum_list_rev)
  note rev = this
  show ?thesis
    by (rule exI [of _ "rev older"], rule exI [of _ "rev newer"], rule exI [of _ extra])
       (use w es rev in \<open>auto simp: prepareBranchEntries_def last_rev split: list.splits\<close>)
qed

theorem branch_left_behind_witness:
  "\<exists>common left rest.
      getBranch (jsonl_ops (\<lambda>e. ''E'') wide_uuid) (Some (replicate 8 (CHR ''0'')))
        (jsonl_session (\<lambda>h. ''H'') (\<lambda>e. ''E'') wide_uuid demo_header [] [Append_message 2 (UserMessage ''hi'')]) = Some (Inr (common @ left))
    \<and> collectEntriesForBranchSummary (jsonl_ops (\<lambda>e. ''E'') wide_uuid)
        (jsonl_session (\<lambda>h. ''H'') (\<lambda>e. ''E'') wide_uuid demo_header [] [Append_message 2 (UserMessage ''hi'')])
        (Some (replicate 8 (CHR ''0''))) (replicate 8 (CHR ''0''))
      = Some (Inr \<lparr>co_entries = left, commonAncestorId = (if common = [] then None else Some (eid (last common)))\<rparr>)
    \<and> set (map eid left) \<inter> set (map eid rest) = {}"
proof -
  let ?s = "jsonl_session (\<lambda>h. ''H'') (\<lambda>e. ''E'') wide_uuid demo_header [] [Append_message 2 (UserMessage ''hi'')]"
  have "replicate 8 (CHR ''0'') \<in> eid ` set (getEntries (jsonl_ops (\<lambda>e. ''E'') wide_uuid) ?s)"
    by (simp add: demo_run jsonl_ops_def demo_entry_def)
  from branch_left_behind [OF wide_uuid_source _ refl refl this this] show ?thesis by auto
qed

theorem branch_preparation_fits_witness:
  "\<exists>older newer extra. two_turns = older @ newer
    \<and> bp_messages (prepareBranchEntries text_reader two_turns 5) = extra @ List.map_filter branch_message newer
    \<and> (0 < (5::int) \<and> int (branch_tokens text_reader newer) \<le> 5)"
  using branch_preparation_fits [of two_turns text_reader 5] by fastforce

end
