(* ===== verification/Transform_Messages.thy ===== *)
theory Transform_Messages
  imports Js_Map Utf16_Text "HOL-Library.Sublist"
begin

text \<open>
  What every model provider does to a conversation before it sends it (\<open>packages/ai/src/api/transform-messages.ts\<close>):
  images are replaced for models that take none, what another model thought becomes text, ids of tool calls are made
  acceptable, failed responses are left out, and calls without a result get one. How ids are made acceptable is a
  function of the provider with a state of its own; the arguments of a call are the text of their JSON. What users, models
  and tools say are lists of 16-bit code units; names, ids, signatures and encoded images are ASCII strings.
\<close>

section \<open>Messages\<close>

datatype input_part =
  In_text ustring "string option"
  | In_image string string

record ai_call =
  ac_id :: string
  ac_name :: string
  ac_arguments :: ustring
  ac_thoughtSignature :: "string option"

datatype ai_block =
  Ai_text ustring "string option"
  | Ai_thinking ustring "string option" bool
  | Ai_tool_call ai_call

datatype ai_stop = Ai_stop | Ai_length | Ai_tool_use | Ai_error | Ai_aborted

record ai_assistant =
  aa_content :: "ai_block list"
  aa_api :: string
  aa_provider :: string
  aa_model :: string
  aa_stopReason :: ai_stop
  aa_timestamp :: int

record ai_result =
  ar_toolCallId :: string
  ar_toolName :: string
  ar_content :: "input_part list"
  ar_isError :: bool
  ar_timestamp :: int

datatype user_content = User_text ustring | User_parts "input_part list"

datatype ai_message = Ai_user user_content int | Ai_assistant ai_assistant | Ai_result ai_result

record ai_model =
  am_id :: string
  am_provider :: string
  am_api :: string
  am_reasoning :: bool
  am_images :: bool

definition is_image :: "input_part \<Rightarrow> bool" where
  "is_image p = (case p of In_image d t \<Rightarrow> True | In_text t s \<Rightarrow> False)"

definition is_result :: "ai_message \<Rightarrow> bool" where
  "is_result m = (case m of Ai_result r \<Rightarrow> True | _ \<Rightarrow> False)"

fun tool_calls :: "ai_block list \<Rightarrow> ai_call list" where
  "tool_calls [] = []"
| "tool_calls (b # bs) = (case b of Ai_tool_call c \<Rightarrow> c # tool_calls bs | _ \<Rightarrow> tool_calls bs)"

text \<open>An optional text that is there and not empty.\<close>

definition is_given :: "string option \<Rightarrow> bool" where
  "is_given s = (case s of Some t \<Rightarrow> t \<noteq> [] | None \<Rightarrow> False)"

section \<open>Images\<close>

definition NON_VISION_USER_IMAGE_PLACEHOLDER :: ustring where
  "NON_VISION_USER_IMAGE_PLACEHOLDER = units ''(image omitted: model does not support images)''"

definition NON_VISION_TOOL_IMAGE_PLACEHOLDER :: ustring where
  "NON_VISION_TOOL_IMAGE_PLACEHOLDER = units ''(tool image omitted: model does not support images)''"

fun replace_images :: "ustring \<Rightarrow> bool \<Rightarrow> input_part list \<Rightarrow> input_part list" where
  "replace_images placeholder previous [] = []"
| "replace_images placeholder previous (In_image d t # ps) =
     (if previous then [] else [In_text placeholder None]) @ replace_images placeholder True ps"
| "replace_images placeholder previous (In_text t s # ps) = In_text t s # replace_images placeholder (t = placeholder) ps"

definition replaceImagesWithPlaceholder :: "input_part list \<Rightarrow> ustring \<Rightarrow> input_part list" where
  "replaceImagesWithPlaceholder content placeholder = replace_images placeholder False content"

definition downgrade_message :: "ai_message \<Rightarrow> ai_message" where
  "downgrade_message msg =
     (case msg of
        Ai_user (User_parts ps) t \<Rightarrow> Ai_user (User_parts (replaceImagesWithPlaceholder ps NON_VISION_USER_IMAGE_PLACEHOLDER)) t
      | Ai_result r \<Rightarrow> Ai_result (r\<lparr>ar_content := replaceImagesWithPlaceholder (ar_content r) NON_VISION_TOOL_IMAGE_PLACEHOLDER\<rparr>)
      | _ \<Rightarrow> msg)"

definition downgradeUnsupportedImages :: "ai_message list \<Rightarrow> ai_model \<Rightarrow> ai_message list" where
  "downgradeUnsupportedImages messages model = (if am_images model then messages else map downgrade_message messages)"

section \<open>Blocks of another model\<close>

definition same_model :: "ai_model \<Rightarrow> ai_assistant \<Rightarrow> bool" where
  "same_model model a \<longleftrightarrow> aa_provider a = am_provider model \<and> aa_api a = am_api model \<and> aa_model a = am_id model"

text \<open>The ids given out so far, and the state of the function that makes ids acceptable.\<close>

type_synonym 'n id_state = "(string, string) jsmap \<times> 'n"

type_synonym 'n normalizer = "string \<Rightarrow> ai_assistant \<Rightarrow> 'n \<Rightarrow> string \<times> 'n"

definition transform_thinking :: "bool \<Rightarrow> ustring \<Rightarrow> string option \<Rightarrow> bool \<Rightarrow> ai_block list" where
  "transform_thinking same thinking signature redacted =
     (if redacted then (if same then [Ai_thinking thinking signature redacted] else [])
      else if same \<and> is_given signature then [Ai_thinking thinking signature redacted]
      else if blank thinking then []
      else if same then [Ai_thinking thinking signature redacted]
      else [Ai_text thinking None])"

definition transform_call ::
  "'n normalizer option \<Rightarrow> bool \<Rightarrow> ai_assistant \<Rightarrow> ai_call \<Rightarrow> 'n id_state \<Rightarrow> ai_call \<times> 'n id_state" where
  "transform_call normalizeId same a c st =
     (let c1 = (if \<not> same \<and> is_given (ac_thoughtSignature c) then c\<lparr>ac_thoughtSignature := None\<rparr> else c) in
      case normalizeId of
        None \<Rightarrow> (c1, st)
      | Some f \<Rightarrow>
          if same then (c1, st)
          else
            (let (normalizedId, n) = f (ac_id c) a (snd st) in
             if normalizedId \<noteq> ac_id c
             then (c1\<lparr>ac_id := normalizedId\<rparr>, (js_set (ac_id c) normalizedId (fst st), n))
             else (c1, (fst st, n))))"

fun transform_blocks ::
  "'n normalizer option \<Rightarrow> bool \<Rightarrow> ai_assistant \<Rightarrow> ai_block list \<Rightarrow> 'n id_state \<Rightarrow> ai_block list \<times> 'n id_state" where
  "transform_blocks normalizeId same a [] st = ([], st)"
| "transform_blocks normalizeId same a (b # bs) st =
     (let (out, st1) =
        (case b of
           Ai_thinking t s r \<Rightarrow> (transform_thinking same t s r, st)
         | Ai_text t s \<Rightarrow> ([if same then b else Ai_text t None], st)
         | Ai_tool_call c \<Rightarrow> (let (c', st') = transform_call normalizeId same a c st in ([Ai_tool_call c'], st')));
          (rest, st2) = transform_blocks normalizeId same a bs st1
      in (out @ rest, st2))"

fun transform_pass :: "'n normalizer option \<Rightarrow> ai_model \<Rightarrow> ai_message list \<Rightarrow> 'n id_state \<Rightarrow> ai_message list" where
  "transform_pass normalizeId model [] st = []"
| "transform_pass normalizeId model (Ai_user c t # ms) st = Ai_user c t # transform_pass normalizeId model ms st"
| "transform_pass normalizeId model (Ai_result r # ms) st =
     Ai_result (case js_get (fst st) (ar_toolCallId r) of
                  Some i \<Rightarrow> if i \<noteq> [] \<and> i \<noteq> ar_toolCallId r then r\<lparr>ar_toolCallId := i\<rparr> else r
                | None \<Rightarrow> r)
     # transform_pass normalizeId model ms st"
| "transform_pass normalizeId model (Ai_assistant a # ms) st =
     (let (content, st') = transform_blocks normalizeId (same_model model a) a (aa_content a) st
      in Ai_assistant (a\<lparr>aa_content := content\<rparr>) # transform_pass normalizeId model ms st')"

section \<open>Calls without results\<close>

definition synthetic_result :: "int \<Rightarrow> ai_call \<Rightarrow> ai_message" where
  "synthetic_result now c =
     Ai_result \<lparr>ar_toolCallId = ac_id c, ar_toolName = ac_name c, ar_content = [In_text (units ''No result provided'') None],
       ar_isError = True, ar_timestamp = now\<rparr>"

definition missing_results :: "int \<Rightarrow> ai_call list \<Rightarrow> string set \<Rightarrow> ai_message list" where
  "missing_results now pending existing = map (synthetic_result now) (filter (\<lambda>c. ac_id c \<notin> existing) pending)"

definition failed_response :: "ai_assistant \<Rightarrow> bool" where
  "failed_response a \<longleftrightarrow> aa_stopReason a = Ai_error \<or> aa_stopReason a = Ai_aborted"

fun repair_pass :: "int \<Rightarrow> ai_message list \<Rightarrow> ai_call list \<Rightarrow> string set \<Rightarrow> ai_message list" where
  "repair_pass now [] pending existing = missing_results now pending existing"
| "repair_pass now (Ai_assistant a # ms) pending existing =
     missing_results now pending existing @
     (let existing1 = (if pending = [] then existing else {}); calls = tool_calls (aa_content a) in
      if failed_response a then repair_pass now ms [] existing1
      else Ai_assistant a # (if calls \<noteq> [] then repair_pass now ms calls {} else repair_pass now ms [] existing1))"
| "repair_pass now (Ai_result r # ms) pending existing =
     Ai_result r # repair_pass now ms pending (insert (ar_toolCallId r) existing)"
| "repair_pass now (Ai_user c t # ms) pending existing =
     missing_results now pending existing @
     Ai_user c t # repair_pass now ms [] (if pending = [] then existing else {})"

definition transformMessages :: "ai_message list \<Rightarrow> ai_model \<Rightarrow> 'n normalizer option \<Rightarrow> 'n \<Rightarrow> int \<Rightarrow> ai_message list" where
  "transformMessages messages model normalizeId n now =
     repair_pass now (transform_pass normalizeId model (downgradeUnsupportedImages messages model) ([], n)) [] {}"

section \<open>Every call has a result\<close>

definition result_ids :: "ai_message list \<Rightarrow> string list" where
  "result_ids ms = concat (map (\<lambda>m. case m of Ai_result r \<Rightarrow> [ar_toolCallId r] | _ \<Rightarrow> []) ms)"

lemma result_ids_simps [simp]:
  "result_ids [] = []"
  "result_ids (Ai_result r # ms) = ar_toolCallId r # result_ids ms"
  "result_ids (Ai_user c t # ms) = result_ids ms"
  "result_ids (Ai_assistant a # ms) = result_ids ms"
  "result_ids (xs @ ys) = result_ids xs @ result_ids ys"
  by (simp_all add: result_ids_def)

text \<open>The results that follow at once.\<close>

abbreviation next_results :: "ai_message list \<Rightarrow> ai_message list" where
  "next_results ms \<equiv> takeWhile is_result ms"

lemma is_result_simps [simp]:
  "is_result (Ai_result r)" "\<not> is_result (Ai_user c t)" "\<not> is_result (Ai_assistant a)" "is_result (synthetic_result now k)"
  by (simp_all add: is_result_def synthetic_result_def)

fun calls_answered :: "ai_message list \<Rightarrow> bool" where
  "calls_answered [] = True"
| "calls_answered (m # ms) =
     ((case m of
         Ai_assistant a \<Rightarrow> list_all (\<lambda>c. ac_id c \<in> set (result_ids (next_results ms))) (tool_calls (aa_content a))
       | _ \<Rightarrow> True) \<and> calls_answered ms)"

lemma missing_results_are_results: "\<forall>m \<in> set (missing_results now p e). is_result m"
  by (auto simp: missing_results_def)

lemma next_results_missing [simp]: "next_results (missing_results now p e @ ms) = missing_results now p e @ next_results ms"
  using missing_results_are_results by (simp add: takeWhile_append2)

lemma next_results_missing_only [simp]: "next_results (missing_results now p e) = missing_results now p e"
  using next_results_missing [of now p e "[]"] by simp

lemma result_ids_missing: "result_ids (missing_results now p e) = map ac_id (filter (\<lambda>c. ac_id c \<notin> e) p)"
  by (induction p) (auto simp: missing_results_def synthetic_result_def)

lemma calls_answered_missing [simp]: "calls_answered (missing_results now p e @ ms) = calls_answered ms"
  by (induction p) (auto simp: missing_results_def synthetic_result_def)

lemma calls_answered_missing_only [simp]: "calls_answered (missing_results now p e)"
  using calls_answered_missing [of now p e "[]"] by simp

lemma repair_answers_pending: "c \<in> set p \<Longrightarrow> ac_id c \<in> e \<union> set (result_ids (next_results (repair_pass now ms p e)))"
  by (induction now ms p e rule: repair_pass.induct) (auto simp: result_ids_missing Let_def)

lemma repair_answered: "calls_answered (repair_pass now ms p e)"
proof (induction now ms p e rule: repair_pass.induct)
  case (2 now a ms p e)
  then show ?case
    using repair_answers_pending [of _ "tool_calls (aa_content a)" "{}" now ms] by (auto simp: Let_def list_all_iff)
qed (auto simp: Let_def)

section \<open>Nothing else changes\<close>

definition kept :: "ai_message \<Rightarrow> bool" where
  "kept m = (case m of Ai_assistant a \<Rightarrow> \<not> failed_response a | _ \<Rightarrow> True)"

lemma kept_simps [simp]: "kept (Ai_user c t)" "kept (Ai_result r)" "kept (Ai_assistant a) = (\<not> failed_response a)"
  by (simp_all add: kept_def)

lemma repair_keeps: "subseq (filter kept ms) (repair_pass now ms p e)"
  by (induction now ms p e rule: repair_pass.induct) (auto simp: Let_def intro: list_emb_append2 subseq_Cons2)

lemma repair_adds: "m \<in> set (repair_pass now ms p e) \<Longrightarrow> m \<in> set (filter kept ms) \<or> (\<exists>c. m = synthetic_result now c)"
proof (induction now ms p e rule: repair_pass.induct)
  case (1 now p e)
  then show ?case by (auto simp: missing_results_def)
next
  case (2 now a ms p e)
  then show ?case by (auto simp: missing_results_def Let_def split: if_splits)
next
  case (4 now c t ms p e)
  then show ?case by (auto simp: missing_results_def)
qed auto

lemma missing_none: "\<forall>c \<in> set p. ac_id c \<in> e \<Longrightarrow> missing_results now p e = []"
  by (simp add: missing_results_def)

lemma repair_id:
  "calls_answered ms \<Longrightarrow> list_all kept ms \<Longrightarrow> \<forall>c \<in> set p. ac_id c \<in> e \<union> set (result_ids (next_results ms)) \<Longrightarrow> repair_pass now ms p e = ms"
proof (induction now ms p e rule: repair_pass.induct)
  case (1 now p e)
  then show ?case by (simp add: missing_none)
next
  case (2 now a ms p e)
  from 2(4-6) have "missing_results now p e = []" by (intro missing_none) auto
  moreover from 2(4,5) have "tool_calls (aa_content a) \<noteq> [] \<Longrightarrow> repair_pass now ms (tool_calls (aa_content a)) {} = ms"
    by (intro 2(2)) (auto simp: list_all_iff)
  ultimately show ?case using 2(3) [OF refl refl] 2(4,5) by (auto simp: Let_def)
next
  case (4 now c t ms p e)
  then have "missing_results now p e = []" by (intro missing_none) auto
  with 4 show ?case by auto
qed auto

text \<open>A message the model itself wrote, or one that is not a response.\<close>

definition own_block :: "ai_block \<Rightarrow> bool" where
  "own_block b = (case b of Ai_thinking t s r \<Rightarrow> r \<or> is_given s \<or> \<not> blank t | _ \<Rightarrow> True)"

definition own_message :: "ai_model \<Rightarrow> ai_message \<Rightarrow> bool" where
  "own_message model m =
     (case m of Ai_assistant a \<Rightarrow> same_model model a \<and> \<not> failed_response a \<and> list_all own_block (aa_content a) | _ \<Rightarrow> True)"

lemma transform_call_own: "transform_call f True a c st = (c, st)"
  by (simp add: transform_call_def split: option.split)

lemma transform_blocks_own: "list_all own_block bs \<Longrightarrow> transform_blocks f True a bs st = (bs, st)"
  by (induction bs) (auto simp: own_block_def transform_thinking_def transform_call_own split: ai_block.splits)

lemma transform_pass_own: "list_all (own_message model) ms \<Longrightarrow> transform_pass f model ms ([], n) = ms"
proof (induction ms)
  case (Cons m ms)
  then show ?case by (cases m) (auto simp: own_message_def transform_blocks_own)
qed simp

section \<open>Results follow their calls\<close>

fun results_follow :: "string list \<Rightarrow> ai_message list \<Rightarrow> bool" where
  "results_follow called [] = True"
| "results_follow called (Ai_assistant a # ms) =
     results_follow (if failed_response a then [] else map ac_id (tool_calls (aa_content a))) ms"
| "results_follow called (Ai_result r # ms) = (ar_toolCallId r \<in> set called \<and> results_follow called ms)"
| "results_follow called (Ai_user c t # ms) = results_follow [] ms"

lemma results_follow_missing:
  "set (map ac_id p) \<subseteq> set called \<Longrightarrow> results_follow called (missing_results now p e @ ms) = results_follow called ms"
  by (induction p) (auto simp: missing_results_def synthetic_result_def)

lemma results_follow_mono: "results_follow c ms \<Longrightarrow> set c \<subseteq> set d \<Longrightarrow> results_follow d ms"
  by (induction c ms arbitrary: d rule: results_follow.induct) auto

lemma repair_results_follow:
  "results_follow called ms \<Longrightarrow> set (map ac_id p) \<subseteq> set called \<Longrightarrow> results_follow called (repair_pass now ms p e)"
proof (induction now ms p e arbitrary: called rule: repair_pass.induct)
  case (1 now p e)
  then show ?case using results_follow_missing [of p called now e "[]"] by simp
next
  case (2 now a ms p e)
  let ?e1 = "if p = [] then e else {}" and ?calls = "tool_calls (aa_content a)"
  show ?case
  proof (cases "failed_response a")
    case True
    with 2(4) have "results_follow called ms" by (auto intro: results_follow_mono)
    then have "results_follow called (repair_pass now ms [] ?e1)" by (intro 2(1) [OF refl refl True]) simp_all
    with True 2(5) show ?thesis by (simp add: results_follow_missing Let_def)
  next
    case False
    with 2(4) have f: "results_follow (map ac_id ?calls) ms" by simp
    have "results_follow (map ac_id ?calls) (if ?calls \<noteq> [] then repair_pass now ms ?calls {} else repair_pass now ms [] ?e1)"
      using 2(2) [OF refl refl False _ f] 2(3) [OF refl refl False _ f] by auto
    with False 2(5) show ?thesis by (simp add: results_follow_missing Let_def)
  qed
next
  case (4 now c t ms p e)
  then show ?case by (simp add: results_follow_missing)
qed auto

text \<open>The ids of the calls of the model itself, and of other models.\<close>

fun call_ids :: "(ai_assistant \<Rightarrow> bool) \<Rightarrow> ai_message list \<Rightarrow> string list" where
  "call_ids P [] = []"
| "call_ids P (m # ms) =
     (case m of Ai_assistant a \<Rightarrow> if P a then map ac_id (tool_calls (aa_content a)) else [] | _ \<Rightarrow> []) @ call_ids P ms"

text \<open>A function of the id alone, whatever state it has, that makes no id empty.\<close>

definition normalizes_to :: "'n normalizer \<Rightarrow> (string \<Rightarrow> string) \<Rightarrow> bool" where
  "normalizes_to f g \<longleftrightarrow> (\<forall>i a n. fst (f i a n) = g i) \<and> (\<forall>i. g i = [] \<longrightarrow> i = [])"

text \<open>What the ids given out so far say: the foreign ids seen are renamed, and no others.\<close>

definition renames :: "(string \<Rightarrow> string) \<Rightarrow> string set \<Rightarrow> 'n id_state \<Rightarrow> bool" where
  "renames g I st \<longleftrightarrow> (\<forall>i. js_get (fst st) i = (if i \<in> I \<and> g i \<noteq> i then Some (g i) else None))"

lemma tool_calls_append [simp]: "tool_calls (xs @ ys) = tool_calls xs @ tool_calls ys"
  by (induction xs) (auto split: ai_block.split)

lemma tool_calls_thinking [simp]: "tool_calls (transform_thinking same t s r) = []"
  by (simp add: transform_thinking_def)

lemma transform_call_foreign:
  assumes "normalizes_to f g" and "renames g I st" and "transform_call (Some f) False a c st = (c', st')"
  shows "ac_id c' = g (ac_id c) \<and> renames g (insert (ac_id c) I) st'"
proof -
  obtain i n where f: "f (ac_id c) a (snd st) = (i, n)" by fastforce
  then have "i = g (ac_id c)" using assms(1) by (metis fst_conv normalizes_to_def)
  with assms f show ?thesis by (auto simp: transform_call_def renames_def Let_def split: if_splits)
qed

lemma transform_blocks_foreign:
  assumes "normalizes_to f g"
  shows "renames g I st \<Longrightarrow> transform_blocks (Some f) False a bs st = (bs', st')
    \<Longrightarrow> map ac_id (tool_calls bs') = map (g \<circ> ac_id) (tool_calls bs) \<and> renames g (I \<union> set (map ac_id (tool_calls bs))) st'"
proof (induction bs arbitrary: I st bs' st')
  case (Cons b bs)
  show ?case
  proof (cases b)
    case (Ai_tool_call c)
    obtain c1 st1 where c: "transform_call (Some f) False a c st = (c1, st1)" by (metis surj_pair)
    obtain bs1 st2 where b: "transform_blocks (Some f) False a bs st1 = (bs1, st2)" by (metis surj_pair)
    note t = transform_call_foreign [OF assms Cons.prems(1) c]
    from Cons.IH [OF conjunct2 [OF t] b] t Cons.prems(2) Ai_tool_call c b show ?thesis by (auto simp: insert_commute)
  next
    case (Ai_text t s)
    with Cons.prems(2) Cons.IH [OF Cons.prems(1)] show ?thesis by (auto split: prod.splits)
  next
    case (Ai_thinking t s r)
    with Cons.prems(2) Cons.IH [OF Cons.prems(1)] show ?thesis by (auto split: prod.splits)
  qed
qed simp

lemma transform_blocks_same_calls:
  "transform_blocks f True a bs st = (bs', st') \<Longrightarrow> tool_calls bs' = tool_calls bs \<and> st' = st"
  by (induction bs arbitrary: bs') (auto simp: transform_call_own Let_def split: ai_block.splits prod.splits)

lemma transform_follow:
  assumes "normalizes_to f g"
  shows "renames g I st \<Longrightarrow> results_follow called ms \<Longrightarrow> set called \<inter> I = {} \<and> called' = called \<or> set called \<subseteq> I \<and> called' = map g called
    \<Longrightarrow> set (call_ids (\<lambda>a. \<not> same_model model a) ms) \<union> I \<subseteq> F \<Longrightarrow> set (call_ids (same_model model) ms) \<inter> F = {}
    \<Longrightarrow> results_follow called' (transform_pass (Some f) model ms st)"
proof (induction ms arbitrary: I st called called')
  case (Cons m ms)
  show ?case
  proof (cases m)
    case (Ai_user c t)
    with Cons.prems show ?thesis by (auto intro: Cons.IH [OF Cons.prems(1), of "[]"])
  next
    case (Ai_result r)
    with Cons.prems have r: "ar_toolCallId r \<in> set called" "results_follow called ms" by auto
    have "results_follow called' (transform_pass (Some f) model ms st)"
      using Cons.prems Ai_result by (intro Cons.IH [OF Cons.prems(1) r(2)]) auto
    moreover have "g (ar_toolCallId r) \<noteq> [] \<or> ar_toolCallId r = []" using assms by (auto simp: normalizes_to_def)
    moreover have "g (ar_toolCallId r) = ar_toolCallId r \<Longrightarrow> ar_toolCallId r \<in> g ` set called" using r(1) by (metis imageI)
    ultimately show ?thesis using r(1) Cons.prems(1,3) Ai_result by (auto simp: renames_def)
  next
    case (Ai_assistant a)
    obtain bs st1 where b: "transform_blocks (Some f) (same_model model a) a (aa_content a) st = (bs, st1)" by (metis surj_pair)
    let ?ids = "map ac_id (tool_calls (aa_content a))"
    have fr: "failed_response (a\<lparr>aa_content := bs\<rparr>) = failed_response a" by (simp add: failed_response_def)
    have rf: "results_follow (if failed_response a then [] else ?ids) ms" using Cons.prems(2) Ai_assistant by simp
    show ?thesis
    proof (cases "same_model model a")
      case True
      then have s: "tool_calls bs = tool_calls (aa_content a)" "st1 = st" using transform_blocks_same_calls b by fastforce+
      have "set ?ids \<inter> I = {}" using Cons.prems(4,5) Ai_assistant True by auto
      then have "results_follow (if failed_response a then [] else ?ids) (transform_pass (Some f) model ms st)"
        using Cons.prems(4,5) Ai_assistant by (intro Cons.IH [OF Cons.prems(1) rf]) auto
      with Ai_assistant b s fr show ?thesis by (simp split: if_splits)
    next
      case False
      with b have "transform_blocks (Some f) False a (aa_content a) st = (bs, st1)" by simp
      note t = transform_blocks_foreign [OF assms Cons.prems(1) this]
      have "results_follow (if failed_response a then [] else map g ?ids) (transform_pass (Some f) model ms st1)"
        using Cons.prems(4,5) Ai_assistant False by (intro Cons.IH [OF conjunct2 [OF t] rf]) auto
      with Ai_assistant b t fr show ?thesis by (simp split: if_splits)
    qed
  qed
qed simp

lemma downgrade_calls [simp]:
  "call_ids P (downgradeUnsupportedImages ms model) = call_ids P ms"
  "results_follow called (downgradeUnsupportedImages ms model) = results_follow called ms"
proof -
  show "call_ids P (downgradeUnsupportedImages ms model) = call_ids P ms"
    by (induction ms) (auto simp: downgradeUnsupportedImages_def downgrade_message_def split: ai_message.split user_content.split)
  have "results_follow called (map downgrade_message ms) = results_follow called ms" for called
    by (induction called ms rule: results_follow.induct) (auto simp: downgrade_message_def split: user_content.split)
  then show "results_follow called (downgradeUnsupportedImages ms model) = results_follow called ms"
    by (simp add: downgradeUnsupportedImages_def)
qed

lemma transformMessages_answered: "calls_answered (transformMessages ms model f n now)"
  by (simp add: transformMessages_def repair_answered)

lemma transformMessages_follow:
  assumes "normalizes_to f g" and "results_follow [] ms"
    and "set (call_ids (same_model model) ms) \<inter> set (call_ids (\<lambda>a. \<not> same_model model a) ms) = {}"
  shows "results_follow [] (transformMessages ms model (Some f) n now)"
proof -
  have "renames g {} ([], n)" by (simp add: renames_def)
  from transform_follow [OF assms(1) this, of "[]" "downgradeUnsupportedImages ms model" "[]" model] assms(2,3)
  show ?thesis unfolding transformMessages_def by (intro repair_results_follow) auto
qed

section \<open>The properties\<close>

text \<open>Nothing is lost or reordered: what a provider is sent are the messages that did not fail, in their order, and between them only
  results made up for calls that had none; and then every call of a response has a result before anything else is said.\<close>

theorem transform_repairs:
  "calls_answered (transformMessages ms model f n now)
   \<and> subseq (filter kept (transform_pass f model (downgradeUnsupportedImages ms model) ([], n))) (transformMessages ms model f n now)
   \<and> set (transformMessages ms model f n now)
     \<subseteq> set (filter kept (transform_pass f model (downgradeUnsupportedImages ms model) ([], n))) \<union> range (synthetic_result now)"
proof -
  have "set (repair_pass now xs p e) \<subseteq> set (filter kept xs) \<union> range (synthetic_result now)" for xs p e
    using repair_adds by blast
  then show ?thesis using transformMessages_answered [of ms model f n now] by (simp add: transformMessages_def repair_keeps)
qed

text \<open>C20: A conversation is sent as it is to a model that takes images if the model made every response of it, none of
  them failed or was aborted, every call was answered before the next response or message of the user, and no
  response holds blank thinking without a signature.\<close>

theorem transform_identity:
  assumes "am_images model" and "list_all (own_message model) ms" and "calls_answered ms"
  shows "transformMessages ms model f n now = ms"
proof -
  have "list_all kept ms" using assms(2) by (auto simp: list_all_iff own_message_def kept_def split: ai_message.splits)
  with assms transform_pass_own [of model ms f n] repair_id [of ms "[]" "{}" now] show ?thesis
    by (simp add: transformMessages_def downgradeUnsupportedImages_def)
qed

definition example_model :: ai_model where
  "example_model = \<lparr>am_id = ''m'', am_provider = ''p'', am_api = ''a'', am_reasoning = False, am_images = True\<rparr>"

definition example_call :: "string \<Rightarrow> ai_call" where
  "example_call i = \<lparr>ac_id = i, ac_name = ''read'', ac_arguments = units ''{}'', ac_thoughtSignature = None\<rparr>"

definition example_response :: "string \<Rightarrow> string \<Rightarrow> ai_assistant" where
  "example_response m i =
     \<lparr>aa_content = [Ai_thinking (units ''hm'') None False, Ai_tool_call (example_call i)], aa_api = ''a'', aa_provider = ''p'', aa_model = m,
      aa_stopReason = Ai_tool_use, aa_timestamp = 1\<rparr>"

definition example_result :: "string \<Rightarrow> ai_result" where
  "example_result i = \<lparr>ar_toolCallId = i, ar_toolName = ''read'', ar_content = [], ar_isError = False, ar_timestamp = 2\<rparr>"

lemmas example_defs = example_model_def example_call_def example_response_def example_result_def

theorem transform_identity_witness:
  "transformMessages [Ai_user (User_text (units ''hi'')) 0, Ai_assistant (example_response ''m'' ''1''), Ai_result (example_result ''1'')]
     example_model None () 9
   = [Ai_user (User_text (units ''hi'')) 0, Ai_assistant (example_response ''m'' ''1''), Ai_result (example_result ''1'')]"
proof (rule transform_identity)
  show "list_all (own_message example_model) [Ai_user (User_text (units ''hi'')) 0, Ai_assistant (example_response ''m'' ''1''), Ai_result (example_result ''1'')]"
    by code_simp
  show "calls_answered [Ai_user (User_text (units ''hi'')) 0, Ai_assistant (example_response ''m'' ''1''), Ai_result (example_result ''1'')]"
    by code_simp
qed (simp add: example_model_def)

text \<open>When a response of another model is followed by one of the model itself that uses the same id again, the second result
  is sent under the new id of the first call, and a result is made up for the second call.\<close>

theorem reused_id_orphans_result:
  "result_ids (transformMessages
     [Ai_assistant (example_response ''old'' ''c|1''), Ai_result (example_result ''c|1''),
      Ai_assistant (example_response ''m'' ''c|1''), Ai_result (example_result ''c|1'')]
     example_model (Some (\<lambda>i a n. (map (\<lambda>c. if c = CHR 0x7C then CHR ''_'' else c) i, n))) () 9)
   = [''c_1'', ''c_1'', ''c|1'']"
  by code_simp

text \<open>The results of calls of a failed response stay behind without it.\<close>

theorem failed_response_leaves_results:
  "transformMessages [Ai_assistant ((example_response ''m'' ''1'')\<lparr>aa_stopReason := Ai_aborted\<rparr>), Ai_result (example_result ''1'')]
     example_model None () 9 = [Ai_result (example_result ''1'')]"
  by code_simp

end
