(* ===== verification/Anthropic_Messages.thy ===== *)
theory Anthropic_Messages
  imports Transform_Messages
begin

text \<open>
  How a conversation becomes the messages of a request to Anthropic's API (\<open>convertMessages\<close> of
  \<open>packages/ai/src/api/anthropic-messages.ts\<close>). The text of a marker for the cache is a parameter.
\<close>

section \<open>Names and ids\<close>

definition is_id_char :: "char \<Rightarrow> bool" where
  "is_id_char c = (c \<in> set ''abcdefghijklmnopqrstuvwxyzABCDEFGHIJKLMNOPQRSTUVWXYZ0123456789_-'')"

definition sanitize_id :: "string \<Rightarrow> string" where
  "sanitize_id i = map (\<lambda>c. if is_id_char c then c else CHR ''_'') i"

definition normalizeToolCallId :: "unit normalizer" where
  "normalizeToolCallId i a n = (take 64 (sanitize_id i), n)"

definition claudeCodeTools :: "string list" where
  "claudeCodeTools =
     [''Read'', ''Write'', ''Edit'', ''Bash'', ''Grep'', ''Glob'', ''AskUserQuestion'', ''EnterPlanMode'', ''ExitPlanMode'', ''KillShell'',
      ''NotebookEdit'', ''Skill'', ''Task'', ''TaskOutput'', ''TodoWrite'', ''WebFetch'', ''WebSearch'']"

definition ccToolLookup :: "(string, string) jsmap" where
  "ccToolLookup = map (\<lambda>t. (to_lower t, t)) claudeCodeTools"

definition toClaudeCodeName :: "string \<Rightarrow> string" where
  "toClaudeCodeName name = (case js_get ccToolLookup (to_lower name) of Some t \<Rightarrow> t | None \<Rightarrow> name)"

section \<open>Messages of the API\<close>

datatype input_block = Text_input ustring | Image_input string string

datatype result_content = Result_text ustring | Result_blocks "input_block list"

datatype api_block =
  Input_block input_block
  | Thinking_block ustring string
  | Redacted_block "string option"
  | Tool_use string string ustring
  | Tool_result string result_content bool

text \<open>Content with the markers for the cache that its blocks carry.\<close>

datatype 'c api_message =
  Api_user_text ustring
  | Api_user "(api_block \<times> 'c option) list"
  | Api_assistant "api_block list"

definition to_input_block :: "input_part \<Rightarrow> input_block" where
  "to_input_block p = (case p of In_text t s \<Rightarrow> Text_input (sanitizeSurrogates t) | In_image d m \<Rightarrow> Image_input m d)"

definition is_text_input :: "input_block \<Rightarrow> bool" where
  "is_text_input b = (case b of Text_input t \<Rightarrow> True | Image_input m d \<Rightarrow> False)"

definition text_of :: "input_part \<Rightarrow> ustring" where
  "text_of p = (case p of In_text t s \<Rightarrow> t | In_image d m \<Rightarrow> [])"

definition convertContentBlocks :: "input_part list \<Rightarrow> result_content" where
  "convertContentBlocks content =
     (if \<not> list_ex is_image content then Result_text (sanitizeSurrogates (join_with [unit_nl] (map text_of content)))
      else
        (let blocks = map to_input_block content in
         Result_blocks (if list_ex is_text_input blocks then blocks else Text_input (units ''(see attached image)'') # blocks)))"

definition user_message :: "user_content \<Rightarrow> 'c api_message list" where
  "user_message content =
     (case content of
        User_text t \<Rightarrow> if blank t then [] else [Api_user_text (sanitizeSurrogates t)]
      | User_parts ps \<Rightarrow>
          (let filteredBlocks = filter (\<lambda>b. case b of Text_input t \<Rightarrow> \<not> blank t | _ \<Rightarrow> True) (map to_input_block ps) in
           if filteredBlocks = [] then [] else [Api_user (map (\<lambda>b. (Input_block b, None)) filteredBlocks)]))"

definition assistant_block :: "bool \<Rightarrow> bool \<Rightarrow> ai_block \<Rightarrow> api_block list" where
  "assistant_block isOAuthToken allowEmptySignature b =
     (case b of
        Ai_text t s \<Rightarrow> if blank t then [] else [Input_block (Text_input (sanitizeSurrogates t))]
      | Ai_thinking t s redacted \<Rightarrow>
          if redacted then [Redacted_block s]
          else if blank t then []
          else
            (case s of
               None \<Rightarrow> [if allowEmptySignature then Thinking_block (sanitizeSurrogates t) [] else Input_block (Text_input (sanitizeSurrogates t))]
             | Some g \<Rightarrow>
                 if js_trim g = []
                 then [if allowEmptySignature then Thinking_block (sanitizeSurrogates t) [] else Input_block (Text_input (sanitizeSurrogates t))]
                 else [Thinking_block (sanitizeSurrogates t) g])
      | Ai_tool_call c \<Rightarrow> [Tool_use (ac_id c) (if isOAuthToken then toClaudeCodeName (ac_name c) else ac_name c) (ac_arguments c)])"

definition result_block :: "ai_message \<Rightarrow> api_block list" where
  "result_block m =
     (case m of
        Ai_result r \<Rightarrow> [Tool_result (ar_toolCallId r) (convertContentBlocks (ar_content r)) (ar_isError r)]
      | _ \<Rightarrow> [])"

definition assistant_params :: "bool \<Rightarrow> bool \<Rightarrow> ai_block list \<Rightarrow> 'c api_message list" where
  "assistant_params isOAuthToken allowEmptySignature content =
     (let blocks = concat (map (assistant_block isOAuthToken allowEmptySignature) content) in
      if blocks = [] then [] else [Api_assistant blocks])"

text \<open>Consecutive results make up one message.\<close>

function convert_messages :: "bool \<Rightarrow> bool \<Rightarrow> ai_message list \<Rightarrow> 'c api_message list" where
  "convert_messages oauth empty_sig [] = []"
| "convert_messages oauth empty_sig (Ai_user c t # ms) = user_message c @ convert_messages oauth empty_sig ms"
| "convert_messages oauth empty_sig (Ai_assistant a # ms) =
     assistant_params oauth empty_sig (aa_content a) @ convert_messages oauth empty_sig ms"
| "convert_messages oauth empty_sig (Ai_result r # ms) =
     Api_user (map (\<lambda>b. (b, None)) (concat (map result_block (Ai_result r # takeWhile is_result ms))))
     # convert_messages oauth empty_sig (dropWhile is_result ms)"
  by pat_completeness auto
termination by (relation "measure (\<lambda>(o1, e, ms). length ms)") (auto simp: length_dropWhile_le le_imp_less_Suc)

definition cacheable :: "api_block \<Rightarrow> bool" where
  "cacheable b = (case b of Input_block i \<Rightarrow> True | Tool_result i c e \<Rightarrow> True | _ \<Rightarrow> False)"

definition mark_last :: "'c \<Rightarrow> (api_block \<times> 'c option) list \<Rightarrow> (api_block \<times> 'c option) list" where
  "mark_last cacheControl bs =
     (if bs \<noteq> [] \<and> cacheable (fst (last bs)) then butlast bs @ [(fst (last bs), Some cacheControl)] else bs)"

definition add_cache_control :: "'c option \<Rightarrow> 'c api_message list \<Rightarrow> 'c api_message list" where
  "add_cache_control cacheControl params =
     (case cacheControl of
        None \<Rightarrow> params
      | Some k \<Rightarrow>
          if params = [] then params
          else
            butlast params @
            [case last params of
               Api_user bs \<Rightarrow> Api_user (mark_last k bs)
             | Api_user_text t \<Rightarrow> Api_user [(Input_block (Text_input t), Some k)]
             | Api_assistant bs \<Rightarrow> Api_assistant bs])"

definition convertMessages ::
  "ai_message list \<Rightarrow> ai_model \<Rightarrow> bool \<Rightarrow> 'c option \<Rightarrow> bool \<Rightarrow> int \<Rightarrow> 'c api_message list" where
  "convertMessages messages model isOAuthToken cacheControl allowEmptySignature now =
     add_cache_control cacheControl
       (convert_messages isOAuthToken allowEmptySignature (transformMessages messages model (Some normalizeToolCallId) () now))"

section \<open>What the API demands\<close>

fun use_ids :: "api_block list \<Rightarrow> string list" where
  "use_ids [] = []"
| "use_ids (b # bs) = (case b of Tool_use i n a \<Rightarrow> i # use_ids bs | _ \<Rightarrow> use_ids bs)"

fun answer_ids :: "api_block list \<Rightarrow> string list" where
  "answer_ids [] = []"
| "answer_ids (b # bs) = (case b of Tool_result i c e \<Rightarrow> i # answer_ids bs | _ \<Rightarrow> answer_ids bs)"

definition uses_of :: "'c api_message \<Rightarrow> string list" where
  "uses_of m = (case m of Api_assistant bs \<Rightarrow> use_ids bs | _ \<Rightarrow> [])"

definition answers_of :: "'c api_message \<Rightarrow> string list" where
  "answers_of m = (case m of Api_user bs \<Rightarrow> answer_ids (map fst bs) | _ \<Rightarrow> [])"

definition next_answers :: "'c api_message list \<Rightarrow> string list" where
  "next_answers ms = (case ms of [] \<Rightarrow> [] | m # _ \<Rightarrow> answers_of m)"

text \<open>A response with calls is followed by a message with a result for each of them.\<close>

fun uses_answered :: "'c api_message list \<Rightarrow> bool" where
  "uses_answered [] = True"
| "uses_answered (m # ms) = (set (uses_of m) \<subseteq> set (next_answers ms) \<and> uses_answered ms)"

text \<open>A message with results follows a response with calls of these ids.\<close>

fun answers_called :: "string list \<Rightarrow> 'c api_message list \<Rightarrow> bool" where
  "answers_called called [] = True"
| "answers_called called (m # ms) = (set (answers_of m) \<subseteq> set called \<and> answers_called (uses_of m) ms)"


definition has_blocks :: "'c api_message \<Rightarrow> bool" where
  "has_blocks m = (case m of Api_user_text t \<Rightarrow> True | Api_user bs \<Rightarrow> bs \<noteq> [] | Api_assistant bs \<Rightarrow> bs \<noteq> [])"





text \<open>A message of the conversation whose own texts, where white space is looked for before unpaired surrogates are
  removed, are well-formed.\<close>

definition well_formed_block :: "ai_block \<Rightarrow> bool" where
  "well_formed_block b = (case b of Ai_text t s \<Rightarrow> well_formed t | Ai_thinking t s r \<Rightarrow> well_formed t | Ai_tool_call c \<Rightarrow> True)"


section \<open>The conversion keeps the pairing\<close>

lemma use_ids_append [simp]: "use_ids (xs @ ys) = use_ids xs @ use_ids ys"
  by (induction xs) (auto split: api_block.split)

lemma answer_ids_append [simp]: "answer_ids (xs @ ys) = answer_ids xs @ answer_ids ys"
  by (induction xs) (auto split: api_block.split)

lemma use_ids_assistant: "use_ids (concat (map (assistant_block oauth e) bs)) = map ac_id (tool_calls bs)"
  by (induction bs) (auto simp: assistant_block_def split: ai_block.split option.split)

lemma assistant_message_cases:
  obtains "assistant_params oauth e content = ([] :: 'c api_message list)" "tool_calls content = []"
  | bs where "assistant_params oauth e content = ([Api_assistant bs] :: 'c api_message list)" "use_ids bs = map ac_id (tool_calls content)" "bs \<noteq> []"
      "bs = concat (map (assistant_block oauth e) content)"
proof -
  let ?bs = "concat (map (assistant_block oauth e) content)"
  show thesis
    using that(1) that(2) [of ?bs] use_ids_assistant [of oauth e content] by (cases "?bs = []") (simp_all add: assistant_params_def Let_def)
qed

lemma answer_ids_results: "answer_ids (concat (map result_block ms)) = result_ids ms"
  by (induction ms) (auto simp: result_block_def result_ids_def split: ai_message.split)

lemma answers_of_simps [simp]:
  "answers_of (Api_assistant bs) = []" "uses_of (Api_user cs) = []" "uses_of (Api_assistant bs) = use_ids bs"
  "answers_of (Api_user cs) = answer_ids (map fst cs)" "answers_of (Api_user_text t) = []" "uses_of (Api_user_text t) = []"
  by (simp_all add: answers_of_def uses_of_def)

lemma next_message_answers:
  "set (result_ids (next_results ms)) \<subseteq> set (next_answers (convert_messages oauth e ms))"
proof (cases ms)
  case (Cons m ms')
  show ?thesis
  proof (cases m)
    case (Ai_result r)
    have "answer_ids (concat (map result_block (Ai_result r # takeWhile is_result ms'))) = result_ids (Ai_result r # takeWhile is_result ms')"
      by (rule answer_ids_results)
    with Cons Ai_result show ?thesis by (simp add: comp_def next_answers_def)
  qed (use Cons in simp_all)
qed simp

lemma user_message_pairing:
  "uses_answered (user_message c @ ps) = uses_answered ps"
  "answers_called called (user_message c @ ps) = answers_called (if user_message c = ([] :: 'c api_message list) then called else []) (ps :: 'c api_message list)"
proof -
  have a: "answer_ids (map Input_block bs) = []" for bs by (induction bs) auto
  then show "uses_answered (user_message c @ ps) = uses_answered ps"
    "answers_called called (user_message c @ ps) = answers_called (if user_message c = ([] :: 'c api_message list) then called else []) ps"
    by (simp_all add: user_message_def Let_def comp_def split: user_content.split)
qed

lemma calls_answered_drop: "calls_answered ms \<Longrightarrow> calls_answered (dropWhile P ms)"
  by (induction ms) auto

lemma convert_uses_answered: "calls_answered ms \<Longrightarrow> uses_answered (convert_messages oauth e ms :: 'c api_message list)"
proof (induction oauth e ms rule: convert_messages.induct)
  case (3 oauth e a ms)
  from 3(2) have "set (map ac_id (tool_calls (aa_content a))) \<subseteq> set (result_ids (next_results ms))"
    by (auto simp: list_all_iff)
  from subset_trans [OF this next_message_answers [of ms oauth e]] 3 show ?case
    by (cases rule: assistant_message_cases [where 'c = 'c, of oauth e "aa_content a"]) simp_all
qed (simp_all add: user_message_pairing calls_answered_drop)

lemma results_follow_drop:
  "results_follow called ms \<Longrightarrow> set (result_ids (next_results ms)) \<subseteq> set called \<and> results_follow [] (dropWhile is_result ms)"
proof (induction ms)
  case (Cons m ms)
  then show ?case by (cases m) auto
qed simp

lemma convert_answers_called: "results_follow called ms \<Longrightarrow> answers_called called (convert_messages oauth e ms :: 'c api_message list)"
proof (induction oauth e ms arbitrary: called rule: convert_messages.induct)
  case (2 oauth e c t ms)
  then have "results_follow d ms" for d by (auto intro: results_follow_mono)
  with 2(1) show ?case by (simp add: user_message_pairing)
next
  case (3 oauth e a ms)
  let ?ids = "map ac_id (tool_calls (aa_content a))"
  have f: "results_follow ?ids ms" using 3(2) by (auto intro: results_follow_mono split: if_splits)
  show ?case
  proof (cases rule: assistant_message_cases [where 'c = 'c, of oauth e "aa_content a"])
    case 1
    with f have "results_follow called ms" by (auto intro: results_follow_mono)
    with 3(1) 1 show ?thesis by simp
  next
    case (2 bs)
    with 3(1) [OF f] show ?thesis by simp
  qed
next
  case (4 oauth e r ms)
  have "answer_ids (concat (map result_block (Ai_result r # takeWhile is_result ms))) = result_ids (Ai_result r # takeWhile is_result ms)"
    by (rule answer_ids_results)
  with 4 results_follow_drop [of called ms] show ?case by (simp add: comp_def)
qed simp

text \<open>The marker for the cache changes no ids and no texts.\<close>

definition pairing :: "'c api_message \<Rightarrow> string list \<times> string list" where
  "pairing m = (uses_of m, answers_of m)"

lemma uses_answered_cong: "map pairing ps = map pairing qs \<Longrightarrow> uses_answered ps = uses_answered qs"
proof (induction ps arbitrary: qs)
  case (Cons p ps)
  then obtain q qs' where "qs = q # qs'" "pairing p = pairing q" "map pairing ps = map pairing qs'" by auto
  with Cons.IH [OF this(3)] show ?case by (cases ps; cases qs') (auto simp: pairing_def next_answers_def)
qed simp

lemma answers_called_cong: "map pairing ps = map pairing qs \<Longrightarrow> answers_called called ps = answers_called called qs"
proof (induction ps arbitrary: qs called)
  case (Cons p ps)
  then obtain q qs' where "qs = q # qs'" "pairing p = pairing q" "map pairing ps = map pairing qs'" by auto
  with Cons.IH [OF this(3)] show ?case by (auto simp: pairing_def)
qed simp

lemma mark_last_fst: "map fst (mark_last k bs) = map fst bs"
  by (cases bs rule: rev_cases) (auto simp: mark_last_def)

definition mark_message :: "'c \<Rightarrow> 'c api_message \<Rightarrow> 'c api_message" where
  "mark_message k m =
     (case m of
        Api_user bs \<Rightarrow> Api_user (mark_last k bs)
      | Api_user_text t \<Rightarrow> Api_user [(Input_block (Text_input t), Some k)]
      | Api_assistant bs \<Rightarrow> Api_assistant bs)"

lemma add_cache_control_cases:
  obtains "add_cache_control cc ps = ps"
  | qs p k where "ps = qs @ [p]" "add_cache_control cc ps = qs @ [mark_message k p]"
  by (cases ps rule: rev_cases; cases cc) (auto simp: add_cache_control_def mark_message_def)

lemma pairing_mark: "pairing (mark_message k m) = pairing m"
  by (cases m) (simp_all add: pairing_def mark_message_def mark_last_fst)

lemma pairing_cache: "map pairing (add_cache_control cc ps) = map pairing ps"
  by (cases rule: add_cache_control_cases [of cc ps]) (auto simp: pairing_mark)


lemma mark_last_Nil [simp]: "mark_last k bs = [] \<longleftrightarrow> bs = []"
  by (metis map_is_Nil_conv mark_last_fst)


lemma has_blocks_mark: "has_blocks (mark_message k m) = has_blocks m"
  by (cases m) (simp_all add: has_blocks_def mark_message_def)


lemma cache_keeps:
  assumes "\<And>k m. P (mark_message k m) = P m"
  shows "list_all P (add_cache_control cc ps) = list_all P ps"
  by (cases rule: add_cache_control_cases [of cc ps]) (auto simp: assms)

lemma convert_has_blocks: "list_all has_blocks (convert_messages oauth e ms :: 'c api_message list)"
proof (induction oauth e ms rule: convert_messages.induct)
  case (2 oauth e c t ms)
  then show ?case by (auto simp: user_message_def has_blocks_def Let_def split: user_content.split)
next
  case (3 oauth e a ms)
  then show ?case by (cases rule: assistant_message_cases [where 'c = 'c, of oauth e "aa_content a"]) (simp_all add: has_blocks_def)
next
  case (4 oauth e r ms)
  then show ?case by (simp add: has_blocks_def result_block_def)
qed simp

section \<open>The texts\<close>










lemma well_formed_block_simps [simp]:
  "well_formed_block (Ai_text t s) = well_formed t" "well_formed_block (Ai_thinking t s r) = well_formed t" "well_formed_block (Ai_tool_call c)"
  by (simp_all add: well_formed_block_def)




section \<open>The properties\<close>

text \<open>C9: Whatever the conversation is, the API gets a request it accepts in these respects: every response with calls is followed at
  once by a message with a result for each, and no message is a list of blocks without a block.\<close>

theorem anthropic_calls_answered:
  "uses_answered (convertMessages ms model oauth cc e now) \<and> list_all has_blocks (convertMessages ms model oauth cc e now)"
proof -
  let ?ms = "transformMessages ms model (Some normalizeToolCallId) () now"
  have "uses_answered (convert_messages oauth e ?ms :: 'c api_message list)"
    by (rule convert_uses_answered [OF transformMessages_answered])
  then show ?thesis
    using uses_answered_cong [OF pairing_cache [of cc "convert_messages oauth e ?ms"]]
    by (simp add: convertMessages_def cache_keeps [OF has_blocks_mark] convert_has_blocks)
qed



text \<open>White space is looked for before unpaired surrogates are removed, so a text of nothing else is sent as an empty one.\<close>

theorem lone_surrogate_sends_empty:
  "convertMessages [Ai_user (User_text [0xD83D]) 0] example_model False (None :: string option) False 9 = [Api_user_text []]"
  by code_simp

text \<open>C10: No result is sent without its call in the response right before it, if the conversation keeps to this itself,
  with every result behind the response, neither failed nor aborted, that made its call, and if no id of a call of
  the model itself is used by a call of another model as well.\<close>

theorem anthropic_results_called:
  assumes "results_follow [] ms"
    and "set (call_ids (same_model model) ms) \<inter> set (call_ids (\<lambda>a. \<not> same_model model a) ms) = {}"
  shows "answers_called [] (convertMessages ms model oauth cc e now)"
proof -
  let ?ms = "transformMessages ms model (Some normalizeToolCallId) () now"
  have "normalizes_to normalizeToolCallId (\<lambda>i. take 64 (sanitize_id i))"
    by (auto simp: normalizes_to_def normalizeToolCallId_def sanitize_id_def)
  from convert_answers_called [OF transformMessages_follow [OF this assms]]
  have "answers_called [] (convert_messages oauth e ?ms :: 'c api_message list)" .
  then show ?thesis
    using answers_called_cong [OF pairing_cache [of cc "convert_messages oauth e ?ms"]] by (simp add: convertMessages_def)
qed

theorem anthropic_results_called_witness:
  "answers_called [] (convertMessages
     [Ai_user (User_text (units ''hi'')) 0, Ai_assistant (example_response ''old'' ''c|1''), Ai_result (example_result ''c|1''),
      Ai_assistant (example_response ''m'' ''2''), Ai_result (example_result ''2'')]
     example_model False (Some ''ephemeral'') False 9)"
  by (rule anthropic_results_called) code_simp+

end
