(* ===== verification/Openai_Messages.thy ===== *)
theory Openai_Messages
  imports Anthropic_Messages
begin

text \<open>
  How a conversation becomes the messages of a chat completion (\<open>convertMessages\<close> of
  \<open>packages/ai/src/api/openai-completions.ts\<close>), for the many servers that speak this protocol with
  peculiarities of their own. Reading JSON is a parameter. A thinking block names the field its text goes to;
  such a field is taken to be none of role, content and tool calls.
\<close>

datatype openai_part = Op_text ustring | Op_image string

datatype openai_content = Oc_null | Oc_text ustring | Oc_parts "openai_part list"

record openai_call =
  oc_id :: string
  oc_name :: string
  oc_arguments :: ustring

text \<open>No tool calls are an empty list; the fields beyond the protocol are a map.\<close>

record openai_assistant =
  oa_content :: openai_content
  oa_tool_calls :: "openai_call list"
  oa_fields :: "(string, ustring) jsmap"
  oa_reasoning_details :: "string list"

datatype openai_message =
  O_system string ustring
  | O_user openai_content
  | O_assistant openai_assistant
  | O_tool ustring string "string option"

record openai_compat =
  requiresAssistantAfterToolResult :: bool
  requiresToolResultName :: bool
  requiresThinkingAsText :: bool
  requiresReasoningContentOnAssistantMessages :: bool
  supportsDeveloperRole :: bool

definition openai_normalizeToolCallId :: "string \<Rightarrow> unit normalizer" where
  "openai_normalizeToolCallId provider i a n =
     (if CHR 0x7C \<in> set i then (take 40 (sanitize_id (hd (split_on (CHR 0x7C) i))), n)
      else if provider = ''openai'' then (if length i > 40 then take 40 i else i, n)
      else (i, n))"

definition data_url :: "string \<Rightarrow> string \<Rightarrow> string" where
  "data_url mimeType d = ''data:'' @ mimeType @ '';base64,'' @ d"

definition to_openai_part :: "input_part \<Rightarrow> openai_part" where
  "to_openai_part p = (case p of In_text t s \<Rightarrow> Op_text (sanitizeSurrogates t) | In_image d m \<Rightarrow> Op_image (data_url m d))"

definition openai_user :: "user_content \<Rightarrow> openai_message list" where
  "openai_user c =
     (case c of
        User_text t \<Rightarrow> [O_user (Oc_text (sanitizeSurrogates t))]
      | User_parts ps \<Rightarrow> if ps = [] then [] else [O_user (Oc_parts (map to_openai_part ps))])"

fun text_parts :: "ai_block list \<Rightarrow> ustring list" where
  "text_parts [] = []"
| "text_parts (b # bs) =
     (case b of Ai_text t s \<Rightarrow> if blank t then text_parts bs else sanitizeSurrogates t # text_parts bs | _ \<Rightarrow> text_parts bs)"

fun thinking_parts :: "ai_block list \<Rightarrow> (ustring \<times> string option) list" where
  "thinking_parts [] = []"
| "thinking_parts (b # bs) =
     (case b of Ai_thinking t s r \<Rightarrow> if blank t then thinking_parts bs else (t, s) # thinking_parts bs | _ \<Rightarrow> thinking_parts bs)"

definition reasoning_field :: "string \<Rightarrow> string option \<Rightarrow> string option" where
  "reasoning_field provider signature =
     (let s = (if provider = ''opencode-go'' \<and> signature = Some ''reasoning'' then Some ''reasoning_content'' else signature) in
      if is_given s then s else None)"

definition null_content :: "openai_compat \<Rightarrow> openai_content" where
  "null_content cp = (if requiresAssistantAfterToolResult cp then Oc_text [] else Oc_null)"

definition openai_text :: "openai_compat \<Rightarrow> ai_model \<Rightarrow> ai_block list \<Rightarrow> openai_content \<times> (string, ustring) jsmap" where
  "openai_text cp model content =
     (let texts = text_parts content; assistantText = concat texts; thinking = thinking_parts content;
          plain = (if assistantText \<noteq> [] then Oc_text assistantText else null_content cp) in
      if thinking = [] then (plain, [])
      else if requiresThinkingAsText cp
      then (Oc_parts (Op_text (join_with [unit_nl, unit_nl] (map (sanitizeSurrogates \<circ> fst) thinking)) # map Op_text texts), [])
      else
        (plain,
         (case reasoning_field (am_provider model) (snd (hd thinking)) of
            Some f \<Rightarrow> [(f, join_with [unit_nl] (map fst thinking))]
          | None \<Rightarrow> [])))"

definition to_openai_call :: "ai_call \<Rightarrow> openai_call" where
  "to_openai_call c = \<lparr>oc_id = ac_id c, oc_name = ac_name c, oc_arguments = ac_arguments c\<rparr>"

text \<open>The signatures that read as JSON other than null and the like.\<close>

definition reasoning_details :: "(string \<Rightarrow> string option) \<Rightarrow> ai_call list \<Rightarrow> string list" where
  "reasoning_details parse_json calls =
     concat (map (\<lambda>c. case ac_thoughtSignature c of
         Some t \<Rightarrow> if t = [] then [] else (case parse_json t of Some d \<Rightarrow> [d] | None \<Rightarrow> [])
       | None \<Rightarrow> []) calls)"

definition to_openai_assistant ::
  "(string \<Rightarrow> string option) \<Rightarrow> openai_compat \<Rightarrow> ai_model \<Rightarrow> ai_block list \<Rightarrow> openai_assistant" where
  "to_openai_assistant parse_json cp model blocks =
     (let (content, fields) = openai_text cp model blocks; calls = tool_calls blocks in
      \<lparr>oa_content = content, oa_tool_calls = map to_openai_call calls,
       oa_fields =
         (if requiresReasoningContentOnAssistantMessages cp \<and> am_reasoning model \<and> js_get fields ''reasoning_content'' = None
          then js_set ''reasoning_content'' [] fields else fields),
       oa_reasoning_details = reasoning_details parse_json calls\<rparr>)"

definition has_content :: "openai_content \<Rightarrow> bool" where
  "has_content c = (case c of Oc_null \<Rightarrow> False | Oc_text t \<Rightarrow> t \<noteq> [] | Oc_parts ps \<Rightarrow> ps \<noteq> [])"

definition openai_tool :: "openai_compat \<Rightarrow> ai_message \<Rightarrow> openai_message list" where
  "openai_tool cp m =
     (case m of
        Ai_result r \<Rightarrow>
          (let textResult = join_with [unit_nl] (map text_of (filter (\<lambda>p. \<not> is_image p) (ar_content r))) in
           [O_tool (sanitizeSurrogates (if textResult \<noteq> [] then textResult else units ''(see attached image)'')) (ar_toolCallId r)
              (if requiresToolResultName cp \<and> ar_toolName r \<noteq> [] then Some (ar_toolName r) else None)])
      | _ \<Rightarrow> [])"

definition openai_images :: "ai_model \<Rightarrow> ai_message list \<Rightarrow> openai_part list" where
  "openai_images model ms =
     concat (map (\<lambda>m. case m of
         Ai_result r \<Rightarrow> if am_images model then map to_openai_part (filter is_image (ar_content r)) else []
       | _ \<Rightarrow> []) ms)"

datatype last_role = No_role | User_role | Assistant_role | Result_role

definition bridge :: openai_message where
  "bridge =
     O_assistant \<lparr>oa_content = Oc_text (units ''I have processed the tool results.''), oa_tool_calls = [], oa_fields = [], oa_reasoning_details = []\<rparr>"

definition tool_images :: "openai_compat \<Rightarrow> openai_part list \<Rightarrow> openai_message list" where
  "tool_images cp images =
     (if images = [] then []
      else (if requiresAssistantAfterToolResult cp then [bridge] else [])
        @ [O_user (Oc_parts (Op_text (units ''Attached image(s) from tool result:'') # images))])"

function convert_openai ::
  "(string \<Rightarrow> string option) \<Rightarrow> openai_compat \<Rightarrow> ai_model \<Rightarrow> ai_message list \<Rightarrow> last_role \<Rightarrow> openai_message list" where
  "convert_openai pj cp model [] last_role = []"
| "convert_openai pj cp model (Ai_user c t # ms) last_role =
     (if requiresAssistantAfterToolResult cp \<and> last_role = Result_role then [bridge] else [])
     @ openai_user c @ convert_openai pj cp model ms (if openai_user c = [] then last_role else User_role)"
| "convert_openai pj cp model (Ai_assistant a # ms) last_role =
     (let m = to_openai_assistant pj cp model (aa_content a) in
      if \<not> has_content (oa_content m) \<and> oa_tool_calls m = [] then convert_openai pj cp model ms last_role
      else O_assistant m # convert_openai pj cp model ms Assistant_role)"
| "convert_openai pj cp model (Ai_result r # ms) last_role =
     (let results = Ai_result r # takeWhile is_result ms; images = openai_images model results in
      concat (map (openai_tool cp) results) @ tool_images cp images
      @ convert_openai pj cp model (dropWhile is_result ms) (if images \<noteq> [] then User_role else Result_role))"
  by pat_completeness auto
termination by (relation "measure (\<lambda>(pj, c, m, ms, l). length ms)") (auto simp: length_dropWhile_le le_imp_less_Suc)

definition system_message :: "openai_compat \<Rightarrow> ai_model \<Rightarrow> ustring \<Rightarrow> openai_message list" where
  "system_message cp model systemPrompt =
     (if systemPrompt = [] then []
      else [O_system (if am_reasoning model \<and> supportsDeveloperRole cp then ''developer'' else ''system'') (sanitizeSurrogates systemPrompt)])"

definition openai_convertMessages ::
  "(string \<Rightarrow> string option) \<Rightarrow> ai_model \<Rightarrow> ustring \<Rightarrow> ai_message list \<Rightarrow> openai_compat \<Rightarrow> int \<Rightarrow> openai_message list" where
  "openai_convertMessages pj model systemPrompt messages cp now =
     system_message cp model systemPrompt
     @ convert_openai pj cp model
         (transformMessages messages model (Some (openai_normalizeToolCallId (am_provider model))) () now) No_role"

section \<open>Calls and results\<close>

definition is_tool :: "openai_message \<Rightarrow> bool" where
  "is_tool m = (case m of O_tool c i n \<Rightarrow> True | _ \<Rightarrow> False)"

definition tool_ids :: "openai_message list \<Rightarrow> string list" where
  "tool_ids ms = concat (map (\<lambda>m. case m of O_tool c i n \<Rightarrow> [i] | _ \<Rightarrow> []) ms)"

definition made_calls :: "openai_message \<Rightarrow> string list" where
  "made_calls m = (case m of O_assistant a \<Rightarrow> map oc_id (oa_tool_calls a) | _ \<Rightarrow> [])"

fun tools_answered :: "openai_message list \<Rightarrow> bool" where
  "tools_answered [] = True"
| "tools_answered (m # ms) = (set (made_calls m) \<subseteq> set (tool_ids (takeWhile is_tool ms)) \<and> tools_answered ms)"

definition is_user :: "openai_message \<Rightarrow> bool" where
  "is_user m = (case m of O_user c \<Rightarrow> True | _ \<Rightarrow> False)"

fun no_user_after_tool :: "bool \<Rightarrow> openai_message list \<Rightarrow> bool" where
  "no_user_after_tool after_tool [] = True"
| "no_user_after_tool after_tool (m # ms) = (\<not> (after_tool \<and> is_user m) \<and> no_user_after_tool (is_tool m) ms)"

lemma openai_message_simps [simp]:
  "is_tool (O_tool c i n)" "\<not> is_tool (O_user u)" "\<not> is_tool (O_assistant a)" "\<not> is_tool (O_system r t)"
  "\<not> is_user (O_tool c i n)" "is_user (O_user u)" "\<not> is_user (O_assistant a)" "\<not> is_user (O_system r t)"
  "made_calls (O_tool c i n) = []" "made_calls (O_user u) = []" "made_calls (O_system r t) = []"
  "made_calls (O_assistant a) = map oc_id (oa_tool_calls a)"
  by (simp_all add: is_tool_def is_user_def made_calls_def)

lemma bridge_simps [simp]: "\<not> is_tool bridge" "\<not> is_user bridge" "made_calls bridge = []"
  by (simp_all add: bridge_def)

lemma tool_ids_simps [simp]: "tool_ids [] = []" "tool_ids (O_tool c i n # ms) = i # tool_ids ms" "tool_ids (xs @ ys) = tool_ids xs @ tool_ids ys"
  by (simp_all add: tool_ids_def)

lemma openai_tools:
  "\<forall>m \<in> set ms. is_result m \<Longrightarrow> \<exists>ts. concat (map (openai_tool cp) ms) = ts \<and> (\<forall>t \<in> set ts. is_tool t) \<and> tool_ids ts = result_ids ms
     \<and> (ms \<noteq> [] \<longrightarrow> ts \<noteq> [])"
  by (induction ms) (auto simp: openai_tool_def Let_def result_ids_def is_result_def split: ai_message.splits)

lemma tools_answered_tools: "\<forall>t \<in> set ts. is_tool t \<Longrightarrow> tools_answered (ts @ ms) = tools_answered ms"
proof (induction ts)
  case (Cons t ts)
  then show ?case by (cases t) simp_all
qed simp

lemma tools_answered_others: "\<forall>t \<in> set ts. made_calls t = [] \<Longrightarrow> tools_answered (ts @ ms) = tools_answered ms"
  by (induction ts) auto

lemma no_calls [simp]: "\<forall>t \<in> set (openai_user c). made_calls t = []" "\<forall>t \<in> set (tool_images cp xs). made_calls t = []"
  "\<forall>t \<in> set (system_message cp model p). made_calls t = []"
  by (auto simp: openai_user_def tool_images_def system_message_def split: user_content.split)

lemma openai_assistant_calls: "map oc_id (oa_tool_calls (to_openai_assistant pj cp model bs)) = map ac_id (tool_calls bs)"
  by (simp add: to_openai_assistant_def to_openai_call_def comp_def Let_def split: prod.split)

lemma next_tools:
  "set (result_ids (next_results ms)) \<subseteq> set (tool_ids (takeWhile is_tool (convert_openai pj cp model ms last_role)))"
proof (cases ms)
  case (Cons m ms')
  show ?thesis
  proof (cases m)
    case (Ai_result r)
    let ?rs = "Ai_result r # takeWhile is_result ms'"
    have "\<forall>m \<in> set ?rs. is_result m" by (auto dest: set_takeWhileD)
    from openai_tools [OF this, of cp] obtain ts where
      ts: "concat (map (openai_tool cp) ?rs) = ts" "\<forall>t \<in> set ts. is_tool t" "tool_ids ts = result_ids ?rs" by blast
    have "takeWhile is_tool (ts @ xs) = ts @ takeWhile is_tool xs" for xs using ts(2) by simp
    with ts(1,3) Cons Ai_result show ?thesis by (simp del: result_ids_simps(2) add: Let_def)
  qed (use Cons in simp_all)
qed simp

lemma convert_tools_answered: "calls_answered ms \<Longrightarrow> tools_answered (convert_openai pj cp model ms last_role)"
proof (induction pj cp model ms last_role rule: convert_openai.induct)
  case (2 pj cp model c t ms last_role)
  then show ?case by (auto simp: tools_answered_others)
next
  case (3 pj cp model a ms last_role)
  let ?m = "to_openai_assistant pj cp model (aa_content a)"
  have a: "set (map ac_id (tool_calls (aa_content a))) \<subseteq> set (result_ids (next_results ms))" using 3(3) by (auto simp: list_all_iff)
  show ?case
  proof (cases "\<not> has_content (oa_content ?m) \<and> oa_tool_calls ?m = []")
    case True
    with 3(1) [OF refl True] 3(3) show ?thesis by (simp add: Let_def)
  next
    case False
    from subset_trans [OF a next_tools [of ms pj cp model Assistant_role]]
    have "set (made_calls (O_assistant ?m)) \<subseteq> set (tool_ids (takeWhile is_tool (convert_openai pj cp model ms Assistant_role)))"
      by (simp only: openai_message_simps openai_assistant_calls)
    with 3(2) [OF refl False] 3(3) False show ?thesis by (auto simp: Let_def)
  qed
next
  case (4 pj cp model r ms last_role)
  let ?rs = "Ai_result r # takeWhile is_result ms"
  have "\<forall>m \<in> set ?rs. is_result m" by (auto dest: set_takeWhileD)
  from openai_tools [OF this, of cp] obtain ts where ts: "concat (map (openai_tool cp) ?rs) = ts" "\<forall>t \<in> set ts. is_tool t" by blast
  with 4 show ?case by (simp add: Let_def tools_answered_tools tools_answered_others calls_answered_drop)
qed simp

lemma no_user_after_tools: "\<forall>t \<in> set ts. is_tool t \<Longrightarrow> ts \<noteq> [] \<Longrightarrow> no_user_after_tool b (ts @ ms) = no_user_after_tool True ms"
proof (induction ts arbitrary: b)
  case (Cons t ts)
  have "\<not> is_user x" if "is_tool x" for x using that by (cases x) simp_all
  with Cons show ?case by (cases ts) auto
qed simp

lemma convert_no_user_after_tool:
  "requiresAssistantAfterToolResult cp \<Longrightarrow> (b \<Longrightarrow> last_role = Result_role) \<Longrightarrow> no_user_after_tool b (convert_openai pj cp model ms last_role)"
proof (induction pj cp model ms last_role arbitrary: b rule: convert_openai.induct)
  case (2 pj cp model c t ms last_role)
  have u: "openai_user c = [] \<or> (\<exists>u. openai_user c = [O_user u])" by (simp add: openai_user_def split: user_content.split)
  show ?case
  proof (cases "last_role = Result_role")
    case True
    with u 2(1) [OF 2(2), of False] 2(2) show ?thesis by auto
  next
    case False
    with 2(3) have "\<not> b" by blast
    with u 2(1) [OF 2(2), of False] False show ?thesis by auto
  qed
next
  case (3 pj cp model a ms last_role)
  let ?m = "to_openai_assistant pj cp model (aa_content a)"
  show ?case
  proof (cases "\<not> has_content (oa_content ?m) \<and> oa_tool_calls ?m = []")
    case True
    with 3(1) [OF refl True 3(3,4)] show ?thesis by (simp add: Let_def)
  next
    case False
    have "no_user_after_tool False (convert_openai pj cp model ms Assistant_role)" by (rule 3(2) [OF refl False 3(3)]) simp
    with False show ?thesis by (auto simp: Let_def)
  qed
next
  case (4 pj cp model r ms last_role)
  let ?rs = "Ai_result r # takeWhile is_result ms" and ?rest = "dropWhile is_result ms"
  let ?images = "openai_images model ?rs"
  have "\<forall>m \<in> set ?rs. is_result m" by (auto dest: set_takeWhileD)
  from openai_tools [OF this, of cp] obtain ts where
    ts: "concat (map (openai_tool cp) ?rs) = ts" "\<forall>t \<in> set ts. is_tool t" "ts \<noteq> []" by blast
  have "no_user_after_tool True (tool_images cp ?images @ convert_openai pj cp model ?rest (if ?images \<noteq> [] then User_role else Result_role))"
    using 4(1) [OF refl refl 4(2), of "?images = []"] 4(2) by (cases "?images = []") (simp_all add: tool_images_def)
  then show ?case using ts(1) by (simp only: convert_openai.simps Let_def no_user_after_tools [OF ts(2,3)])
qed simp

section \<open>The properties\<close>

text \<open>C12: Every assistant message with calls is followed at once by tool messages that answer each of them.\<close>

theorem openai_calls_answered: "tools_answered (openai_convertMessages pj model prompt ms cp now)"
  unfolding openai_convertMessages_def tools_answered_others [OF no_calls(3)]
  by (rule convert_tools_answered [OF transformMessages_answered])

text \<open>For a server that allows no user message right after a tool message, there is none.\<close>

theorem openai_bridged:
  assumes "requiresAssistantAfterToolResult cp"
  shows "no_user_after_tool False (openai_convertMessages pj model prompt ms cp now)"
proof -
  have "no_user_after_tool False (convert_openai pj cp model xs No_role)" for xs
    by (rule convert_no_user_after_tool [OF assms]) simp
  then show ?thesis by (simp add: openai_convertMessages_def system_message_def)
qed

definition example_compat :: openai_compat where
  "example_compat = \<lparr>requiresAssistantAfterToolResult = True, requiresToolResultName = False, requiresThinkingAsText = False,
     requiresReasoningContentOnAssistantMessages = False, supportsDeveloperRole = False\<rparr>"

theorem openai_bridged_witness:
  "no_user_after_tool False (openai_convertMessages (\<lambda>_. None) example_model (units ''be brief'')
     [Ai_assistant (example_response ''m'' ''1''), Ai_user (User_text (units ''stop'')) 3] example_compat 9)"
  by (rule openai_bridged) (simp only: example_compat_def openai_compat.simps)

text \<open>A tool that has printed nothing is reported as an image.\<close>

theorem empty_result_claims_image:
  "openai_tool example_compat (Ai_result (example_result ''1'')) = [O_tool (units ''(see attached image)'') ''1'' None]"
  by (simp add: openai_tool_def example_compat_def example_result_def sanitized_id)

end
