(* ===== verification/Stdin_Buffer.thy ===== *)
theory Stdin_Buffer
  imports Prelude
begin

text \<open>
  The buffer in front of the keyboard (\<open>packages/tui/src/stdin-buffer.ts\<close>): input arrives in chunks
  that may cut an escape sequence anywhere; the buffer holds back an incomplete sequence, emits
  complete ones one at a time, and collects a bracketed paste. Its timer, which gives up on an incomplete sequence,
  is a step of its own. Bytes that are not a single high byte are decoded by a parameter.
\<close>

section \<open>Searching a string\<close>

abbreviation esc :: char where "esc \<equiv> CHR 0x1B"

definition ends_with :: "'a list \<Rightarrow> 'a list \<Rightarrow> bool" where
  "ends_with p s \<longleftrightarrow> starts_with (rev p) (rev s)"

text \<open>\<open>s.indexOf(p)\<close>, with \<open>None\<close> for \<open>-1\<close>.\<close>

fun index_of :: "'a list \<Rightarrow> 'a list \<Rightarrow> nat option" where
  "index_of p [] = (if p = [] then Some 0 else None)"
| "index_of p (x # xs) = (if starts_with p (x # xs) then Some 0 else map_option Suc (index_of p xs))"

section \<open>Complete sequences\<close>

definition BRACKETED_PASTE_START :: string where
  "BRACKETED_PASTE_START = esc # ''[200~''"

definition BRACKETED_PASTE_END :: string where
  "BRACKETED_PASTE_END = esc # ''[201~''"

datatype completeness = Complete | Incomplete | Not_escape

definition ascii :: "char \<Rightarrow> nat" where
  "ascii c = of_char c"

text \<open>The pattern \<open>^<\d+;\d+;\d+[Mm]$\<close>.\<close>

definition digits_then :: "char \<Rightarrow> string \<Rightarrow> string option" where
  "digits_then c s =
     (case dropWhile is_digit s of
        [] \<Rightarrow> None
      | d # r \<Rightarrow> if takeWhile is_digit s \<noteq> [] \<and> d = c then Some r else None)"

definition is_mouse_report :: "string \<Rightarrow> bool" where
  "is_mouse_report payload =
     (case payload of
        [] \<Rightarrow> False
      | c # s \<Rightarrow> c = CHR ''<'' \<and>
          (case digits_then (CHR '';'') s of
             None \<Rightarrow> False
           | Some s2 \<Rightarrow>
               (case digits_then (CHR '';'') s2 of
                  None \<Rightarrow> False
                | Some s3 \<Rightarrow> takeWhile is_digit s3 \<noteq> [] \<and> (dropWhile is_digit s3 = ''M'' \<or> dropWhile is_digit s3 = ''m''))))"

definition is_number :: "string \<Rightarrow> bool" where
  "is_number s \<longleftrightarrow> s \<noteq> [] \<and> list_all is_digit s"

definition isCompleteCsiSequence :: "string \<Rightarrow> completeness" where
  "isCompleteCsiSequence data =
     (if \<not> starts_with [esc, CHR ''[''] data then Complete
      else if length data < 3 then Incomplete
      else
        (let payload = drop 2 data; lastChar = last payload in
         if 0x40 \<le> ascii lastChar \<and> ascii lastChar \<le> 0x7e
         then (if starts_with ''<'' payload
               then (if is_mouse_report payload then Complete
                     else if (lastChar = CHR ''M'' \<or> lastChar = CHR ''m'')
                       \<and> length (split_on (CHR '';'') (butlast (drop 1 payload))) = 3
                       \<and> list_all is_number (split_on (CHR '';'') (butlast (drop 1 payload)))
                     then Complete
                     else Incomplete)
               else Complete)
         else Incomplete))"

definition isCompleteOscSequence :: "string \<Rightarrow> completeness" where
  "isCompleteOscSequence data =
     (if \<not> starts_with [esc, CHR '']''] data then Complete
      else if ends_with [esc, CHR 0x5C] data \<or> ends_with [CHR 0x07] data then Complete
      else Incomplete)"

definition isCompleteDcsSequence :: "string \<Rightarrow> completeness" where
  "isCompleteDcsSequence data =
     (if \<not> starts_with [esc, CHR ''P''] data then Complete
      else if ends_with [esc, CHR 0x5C] data then Complete
      else Incomplete)"

definition isCompleteApcSequence :: "string \<Rightarrow> completeness" where
  "isCompleteApcSequence data =
     (if \<not> starts_with [esc, CHR ''_''] data then Complete
      else if ends_with [esc, CHR 0x5C] data then Complete
      else Incomplete)"

definition isCompleteSequence :: "string \<Rightarrow> completeness" where
  "isCompleteSequence data =
     (if \<not> starts_with [esc] data then Not_escape
      else if length data = 1 then Incomplete
      else
        (let afterEsc = drop 1 data in
         if starts_with ''['' afterEsc
         then (if starts_with ''[M'' afterEsc
               then (if length data \<ge> 6 then Complete else Incomplete)
               else isCompleteCsiSequence data)
         else if starts_with '']'' afterEsc then isCompleteOscSequence data
         else if starts_with ''P'' afterEsc then isCompleteDcsSequence data
         else if starts_with ''_'' afterEsc then isCompleteApcSequence data
         else if starts_with ''O'' afterEsc then (if length afterEsc \<ge> 2 then Complete else Incomplete)
         else Complete))"

text \<open>The pattern \<open>^\x1b\[(\d+)(?::\d*)?(?::\d+)?u$\<close> and its first group.\<close>

definition colon_groups :: "string \<Rightarrow> bool" where
  "colon_groups s =
     (case s of
        [] \<Rightarrow> False
      | c # r \<Rightarrow>
          (c = CHR ''u'' \<and> r = [])
          \<or> c = CHR '':'' \<and>
            (case dropWhile is_digit r of
               [] \<Rightarrow> False
             | d # r2 \<Rightarrow>
                 (d = CHR ''u'' \<and> r2 = [])
                 \<or> d = CHR '':'' \<and> takeWhile is_digit r2 \<noteq> [] \<and> dropWhile is_digit r2 = ''u''))"

definition parseUnmodifiedKittyPrintableCodepoint :: "string \<Rightarrow> nat option" where
  "parseUnmodifiedKittyPrintableCodepoint s =
     (case strip_prefix [esc, CHR ''[''] s of
        None \<Rightarrow> None
      | Some r \<Rightarrow>
          if takeWhile is_digit r \<noteq> [] \<and> colon_groups (dropWhile is_digit r)
          then (let codepoint = nat_of_digits (takeWhile is_digit r) in
                if codepoint \<ge> 32 then Some codepoint else None)
          else None)"

section \<open>Cutting the buffer\<close>

text \<open>The end of the escape sequence at the front, from a given length on. An escape that is followed by
  another one and then by the second character of a longer sequence stands alone.\<close>

fun seq_end :: "string \<Rightarrow> nat \<Rightarrow> nat \<Rightarrow> nat option" where
  "seq_end remaining seqEnd 0 = None"
| "seq_end remaining seqEnd (Suc left) =
     (case isCompleteSequence (take seqEnd remaining) of
        Incomplete \<Rightarrow> seq_end remaining (Suc seqEnd) left
      | _ \<Rightarrow> Some seqEnd)"

definition introduces_sequence :: "char \<Rightarrow> bool" where
  "introduces_sequence c \<longleftrightarrow> c \<in> set ''[]OP_''"

definition next_sequence :: "string \<Rightarrow> nat option" where
  "next_sequence remaining =
     (case seq_end remaining 1 (length remaining) of
        None \<Rightarrow> None
      | Some n \<Rightarrow>
          if take n remaining = [esc, esc] \<and> n < length remaining \<and> introduces_sequence (remaining ! n)
          then Some 1 else Some n)"

lemma seq_end_pos: "seq_end r n k = Some m \<Longrightarrow> n \<le> m"
  by (induction r n k rule: seq_end.induct) (auto split: completeness.splits dest: Suc_leD)

lemma next_sequence_pos: "next_sequence r = Some n \<Longrightarrow> 0 < n"
  by (auto simp: next_sequence_def split: option.splits if_splits dest: seq_end_pos)

function extractCompleteSequences :: "string \<Rightarrow> string list \<times> string" where
  "extractCompleteSequences buf =
     (case buf of
        [] \<Rightarrow> ([], [])
      | c # rest \<Rightarrow>
          if c = esc
          then (case next_sequence buf of
                  None \<Rightarrow> ([], buf)
                | Some n \<Rightarrow>
                    (let (ss, r) = extractCompleteSequences (drop n buf) in (take n buf # ss, r)))
          else (let (ss, r) = extractCompleteSequences rest in ([c] # ss, r)))"
  by pat_completeness auto
termination
  by (relation "measure length") (auto dest: next_sequence_pos)

declare extractCompleteSequences.simps [simp del]

section \<open>The buffer\<close>

datatype stdin_event = Data string | Paste string

record stdin_buffer =
  sb_buffer :: string
  sb_timeout :: bool
  sb_pasteMode :: bool
  sb_pasteBuffer :: string
  pendingKittyPrintableCodepoint :: "nat option"

definition new_stdin_buffer :: stdin_buffer where
  "new_stdin_buffer =
     \<lparr>sb_buffer = [], sb_timeout = False, sb_pasteMode = False, sb_pasteBuffer = [], pendingKittyPrintableCodepoint = None\<rparr>"

definition emitDataSequence :: "string \<Rightarrow> stdin_buffer \<Rightarrow> stdin_buffer \<times> stdin_event list" where
  "emitDataSequence sequence s =
     (if length sequence = 1 \<and> pendingKittyPrintableCodepoint s = Some (ascii (hd sequence))
      then (s\<lparr>pendingKittyPrintableCodepoint := None\<rparr>, [])
      else (s\<lparr>pendingKittyPrintableCodepoint := parseUnmodifiedKittyPrintableCodepoint sequence\<rparr>, [Data sequence]))"

fun emit_all :: "string list \<Rightarrow> stdin_buffer \<Rightarrow> stdin_buffer \<times> stdin_event list" where
  "emit_all [] s = (s, [])"
| "emit_all (x # xs) s =
     (let (s1, es1) = emitDataSequence x s; (s2, es2) = emit_all xs s1 in (s2, es1 @ es2))"

text \<open>A paste that may be complete: the state, the events, and the input after the end of the paste.\<close>

definition close_paste :: "string \<Rightarrow> stdin_buffer \<Rightarrow> stdin_buffer \<times> stdin_event list \<times> string" where
  "close_paste pasted s =
     (case index_of BRACKETED_PASTE_END pasted of
        None \<Rightarrow> (s\<lparr>sb_pasteBuffer := pasted\<rparr>, [], [])
      | Some endIndex \<Rightarrow>
          (s\<lparr>sb_pasteMode := False, sb_pasteBuffer := [], pendingKittyPrintableCodepoint := None\<rparr>,
           [Paste (take endIndex pasted)],
           drop (endIndex + length BRACKETED_PASTE_END) pasted))"

text \<open>The input before a paste that starts: only what is complete is emitted.\<close>

definition emit_before_paste :: "string \<Rightarrow> stdin_buffer \<Rightarrow> stdin_buffer \<times> stdin_event list" where
  "emit_before_paste beforePaste s =
     (if beforePaste = [] then (s, []) else emit_all (fst (extractCompleteSequences beforePaste)) s)"

definition start_paste :: "string \<Rightarrow> stdin_buffer \<Rightarrow> stdin_buffer" where
  "start_paste pasted s =
     s\<lparr>pendingKittyPrintableCodepoint := None, sb_buffer := [], sb_pasteMode := True, sb_pasteBuffer := pasted\<rparr>"

lemma index_of_bound: "index_of p s = Some i \<Longrightarrow> i + length p \<le> length s"
proof (induction p s arbitrary: i rule: index_of.induct)
  case (2 p x xs)
  show ?case
  proof (cases "starts_with p (x # xs)")
    case True
    then have "length p \<le> length (x # xs)" by (metis length_take min.cobounded1 starts_with_def)
    with 2 True show ?thesis by simp
  qed (use 2 in auto)
qed (simp split: if_splits)

lemma close_paste_shorter:
  assumes "(s1, es, rest) = close_paste pasted s" and "rest \<noteq> []"
  shows "length rest < length pasted \<and> sb_buffer s1 = sb_buffer s \<and> sb_pasteBuffer s1 = [] \<and> \<not> sb_pasteMode s1"
  using assms by (auto simp: close_paste_def BRACKETED_PASTE_END_def split: option.splits dest!: index_of_bound)

lemma emitDataSequence_fields:
  "emitDataSequence x s = (s1, es) \<Longrightarrow>
     sb_buffer s1 = sb_buffer s \<and> sb_pasteBuffer s1 = sb_pasteBuffer s \<and> sb_pasteMode s1 = sb_pasteMode s \<and> sb_timeout s1 = sb_timeout s"
  by (auto simp: emitDataSequence_def split: if_splits)

function process :: "string \<Rightarrow> stdin_buffer \<Rightarrow> stdin_buffer \<times> stdin_event list" where
  "process str s0 =
     (let s = s0\<lparr>sb_timeout := False\<rparr> in
      if str = [] \<and> sb_buffer s = [] then emitDataSequence [] s
      else
        (let buf = sb_buffer s @ str in
         if sb_pasteMode s
         then (let (s1, es1, remaining) = close_paste (sb_pasteBuffer s @ buf) (s\<lparr>sb_buffer := []\<rparr>) in
               if remaining = [] then (s1, es1)
               else (let (s2, es2) = process remaining s1 in (s2, es1 @ es2)))
         else
           (case index_of BRACKETED_PASTE_START buf of
              Some startIndex \<Rightarrow>
                (let (s1, es1) = emit_before_paste (take startIndex buf) (s\<lparr>sb_buffer := buf\<rparr>);
                     pasted = drop (startIndex + length BRACKETED_PASTE_START) buf;
                     (s2, es2, remaining) = close_paste pasted (start_paste pasted s1) in
                 if remaining = [] then (s2, es1 @ es2)
                 else (let (s3, es3) = process remaining s2 in (s3, es1 @ es2 @ es3)))
            | None \<Rightarrow>
                (let (sequences, remainder) = extractCompleteSequences buf;
                     (s1, es) = emit_all sequences (s\<lparr>sb_buffer := remainder\<rparr>)
                 in (s1\<lparr>sb_timeout := (remainder \<noteq> [])\<rparr>, es)))))"
  by pat_completeness auto
termination
proof (relation "measure (\<lambda>(str, s). length str + length (sb_buffer s) + length (sb_pasteBuffer s))", goal_cases)
  case (2 str s0 s buf p s1 y es1 remaining)
  then show ?case by (auto dest!: close_paste_shorter)
next
  case (3 str s0 s buf startIndex p s1 es1 pasted q s2 y es2 remaining)
  then show ?case by (auto simp: start_paste_def dest!: close_paste_shorter)
qed simp

declare process.simps [simp del]

definition flush :: "stdin_buffer \<Rightarrow> stdin_buffer \<times> string list" where
  "flush s0 =
     (let s = s0\<lparr>sb_timeout := False\<rparr> in
      if sb_buffer s = [] then (s, [])
      else (s\<lparr>sb_buffer := [], pendingKittyPrintableCodepoint := None\<rparr>, [sb_buffer s]))"

text \<open>The timer that \<open>process\<close> set fires.\<close>

definition timeout_fires :: "stdin_buffer \<Rightarrow> stdin_buffer \<times> stdin_event list" where
  "timeout_fires s = (if sb_timeout s then (let (s1, flushed) = flush s in emit_all flushed s1) else (s, []))"

definition clear_stdin :: "stdin_buffer \<Rightarrow> stdin_buffer" where
  "clear_stdin s =
     s\<lparr>sb_timeout := False, sb_buffer := [], sb_pasteMode := False, sb_pasteBuffer := [], pendingKittyPrintableCodepoint := None\<rparr>"

text \<open>Input as text or as bytes; a single high byte stands for escape and the byte without its high bit.\<close>

datatype stdin_data = Text_data string | Bytes_data "nat list"

definition input_text :: "(nat list \<Rightarrow> string) \<Rightarrow> stdin_data \<Rightarrow> string" where
  "input_text to_string d =
     (case d of
        Text_data s \<Rightarrow> s
      | Bytes_data bs \<Rightarrow> if length bs = 1 \<and> hd bs > 127 then [esc, char_of (hd bs - 128)] else to_string bs)"

definition process_data :: "(nat list \<Rightarrow> string) \<Rightarrow> stdin_data \<Rightarrow> stdin_buffer \<Rightarrow> stdin_buffer \<times> stdin_event list" where
  "process_data to_string d s = process (input_text to_string d) s"

section \<open>Searching\<close>

lemma starts_with_iff: "starts_with p s \<longleftrightarrow> (\<exists>t. s = p @ t)"
  unfolding starts_with_def by (metis append_eq_conv_conj append_take_drop_id)

lemma index_of_front: "starts_with p s \<Longrightarrow> index_of p s = Some 0"
  by (cases s) (auto simp: starts_with_def)

lemma index_of_skip:
  "\<forall>i < length a. \<not> starts_with p (drop i (a @ w)) \<Longrightarrow> index_of p (a @ w) = map_option ((+) (length a)) (index_of p w)"
proof (induction a)
  case Nil
  show ?case by (cases "index_of p w") auto
next
  case (Cons x a)
  have "\<not> starts_with p ((x # a) @ w)" using Cons.prems by (metis drop0 length_greater_0_conv list.simps(3))
  moreover have "\<forall>i < length a. \<not> starts_with p (drop i (a @ w))" using Cons.prems by (metis Suc_mono append_Cons drop_Suc_Cons length_Cons)
  ultimately show ?case using Cons.IH by (cases "index_of p w") auto
qed

lemma index_of_none: "\<forall>i \<le> length s. \<not> starts_with p (drop i s) \<Longrightarrow> index_of p s = None"
proof (induction s)
  case (Cons x s)
  have "\<forall>i \<le> length s. \<not> starts_with p (drop i s)" using Cons.prems by (metis Suc_le_mono drop_Suc_Cons length_Cons)
  moreover have "\<not> starts_with p (x # s)" using Cons.prems by (metis drop0 zero_le)
  ultimately show ?case using Cons.IH by simp
qed (auto simp: starts_with_def)

lemma starts_with_longer: "length p \<le> length s \<Longrightarrow> starts_with p (s @ t) \<longleftrightarrow> starts_with p s"
  by (simp add: starts_with_def)

lemma index_of_append: "index_of p a = Some i \<Longrightarrow> index_of p (a @ b) = Some i"
proof (induction p a arbitrary: i rule: index_of.induct)
  case (2 p x xs)
  have "length p \<le> length (x # xs)" using index_of_bound [OF 2(2)] by simp
  from starts_with_longer [OF this, of b] 2 show ?case by (auto split: if_splits)
qed (auto simp: index_of_front split: if_splits)

lemma index_of_short: "length s < length p \<Longrightarrow> index_of p s = None"
  using index_of_bound by (metis add_leD2 linorder_not_le not_None_eq)

lemma index_of_prefix:
  assumes "index_of p (a @ b) = Some i" and "length a < i + length p"
  shows "index_of p a = None"
proof (cases "index_of p a")
  case (Some j)
  from index_of_append [OF this, of b] index_of_bound [OF this] assms show ?thesis by simp
qed

section \<open>Tokens\<close>

text \<open>What a terminal sends, one token after the other: a character; an escape sequence, complete and with no
  complete one in front, in which an escape only begins or ends the sequence; a paste, whose content does not
  contain the mark of its end.\<close>

datatype stdin_token = Key string | Pasted string

definition inner_escapes_end :: "string \<Rightarrow> bool" where
  "inner_escapes_end s \<longleftrightarrow> list_all (\<lambda>i. s ! i = esc \<longrightarrow> Suc i < length s \<and> s ! Suc i = CHR 0x5C) [1..<length s]"

definition key_token :: "string \<Rightarrow> bool" where
  "key_token s \<longleftrightarrow>
     (length s = 1 \<and> s \<noteq> [esc])
     \<or> starts_with [esc] s \<and> isCompleteSequence s = Complete
       \<and> list_all (\<lambda>n. isCompleteSequence (take n s) = Incomplete) [1..<length s]
       \<and> inner_escapes_end s \<and> s \<noteq> BRACKETED_PASTE_START"

definition paste_token :: "string \<Rightarrow> bool" where
  "paste_token s \<longleftrightarrow> index_of BRACKETED_PASTE_END (s @ BRACKETED_PASTE_END) = Some (length s)"

fun wf_token :: "stdin_token \<Rightarrow> bool" where
  "wf_token (Key s) = key_token s"
| "wf_token (Pasted s) = paste_token s"

fun sent_as :: "stdin_token \<Rightarrow> string" where
  "sent_as (Key s) = s"
| "sent_as (Pasted s) = BRACKETED_PASTE_START @ s @ BRACKETED_PASTE_END"

definition sent :: "stdin_token list \<Rightarrow> string" where
  "sent ts = concat (map sent_as ts)"

text \<open>What is delivered: every token, except that a character is dropped when the sequence before it was the
  Kitty form of the same character.\<close>

fun delivered :: "nat option \<Rightarrow> stdin_token list \<Rightarrow> stdin_event list" where
  "delivered k [] = []"
| "delivered k (Key s # ts) =
     (if length s = 1 \<and> k = Some (ascii (hd s)) then delivered None ts
      else Data s # delivered (parseUnmodifiedKittyPrintableCodepoint s) ts)"
| "delivered k (Pasted s # ts) = Paste s # delivered None ts"

fun kitty_after :: "nat option \<Rightarrow> stdin_token list \<Rightarrow> nat option" where
  "kitty_after k [] = k"
| "kitty_after k (Key s # ts) =
     (if length s = 1 \<and> k = Some (ascii (hd s)) then kitty_after None ts
      else kitty_after (parseUnmodifiedKittyPrintableCodepoint s) ts)"
| "kitty_after k (Pasted s # ts) = kitty_after None ts"

lemma delivered_append: "delivered k (a @ b) = delivered k a @ delivered (kitty_after k a) b"
  by (induction k a rule: delivered.induct) auto

lemma kitty_after_append: "kitty_after k (a @ b) = kitty_after (kitty_after k a) b"
  by (induction k a rule: delivered.induct) auto

lemma emit_all_keys:
  "emit_all xs s = (s\<lparr>pendingKittyPrintableCodepoint := kitty_after (pendingKittyPrintableCodepoint s) (map Key xs)\<rparr>,
     delivered (pendingKittyPrintableCodepoint s) (map Key xs))"
  by (induction xs s rule: emit_all.induct) (auto simp: emitDataSequence_def Let_def)

lemma key_token_not_Nil: "key_token s \<Longrightarrow> s \<noteq> []"
  by (auto simp: key_token_def)

lemma length_BRACKETED [simp]: "length BRACKETED_PASTE_START = 6" "length BRACKETED_PASTE_END = 6"
  by (simp_all add: BRACKETED_PASTE_START_def BRACKETED_PASTE_END_def)

lemma take_START:
  "take n BRACKETED_PASTE_START =
     (if n = 0 then [] else if n = 1 then [esc] else if n = 2 then esc # ''['' else if n = 3 then esc # ''[2''
      else if n = 4 then esc # ''[20'' else if n = 5 then esc # ''[200'' else BRACKETED_PASTE_START)"
  by (auto simp: BRACKETED_PASTE_START_def take_Cons' eval_nat_numeral)

lemma START_complete [simp]: "isCompleteSequence BRACKETED_PASTE_START = Complete"
  by code_simp

lemma START_incomplete: "0 < n \<Longrightarrow> n < 6 \<Longrightarrow> isCompleteSequence (take n BRACKETED_PASTE_START) = Incomplete"
proof -
  assume n: "0 < n" "n < 6"
  have "isCompleteSequence [esc] = Incomplete" "isCompleteSequence (esc # ''['') = Incomplete"
    "isCompleteSequence (esc # ''[2'') = Incomplete" "isCompleteSequence (esc # ''[20'') = Incomplete"
    "isCompleteSequence (esc # ''[200'') = Incomplete" by code_simp+
  moreover have "n = 1 \<or> n = 2 \<or> n = 3 \<or> n = 4 \<or> n = 5" using n by arith
  ultimately show ?thesis by (auto simp: take_START)
qed

text \<open>No paste begins inside a key.\<close>

lemma key_no_start:
  assumes "key_token a" and "i < length a"
  shows "\<not> starts_with BRACKETED_PASTE_START (drop i (a @ w))"
proof
  assume s: "starts_with BRACKETED_PASTE_START (drop i (a @ w))"
  then obtain t where t: "drop i (a @ w) = BRACKETED_PASTE_START @ t" by (auto simp: starts_with_iff)
  have hd: "(a @ w) ! i = esc" "(a @ w) ! Suc i = CHR ''['' "
    using arg_cong [OF t, of "\<lambda>l. l ! 0"] arg_cong [OF t, of "\<lambda>l. l ! Suc 0"] arg_cong [OF t, of length] assms(2)
    by (auto simp: BRACKETED_PASTE_START_def simp del: drop_append)
  show False
  proof (cases "i = 0")
    case True
    then have aw: "a @ w = BRACKETED_PASTE_START @ t" using t by simp
    have esc: "a ! 0 = esc" using hd(1) True assms(2) by (simp add: nth_append)
    with assms(1) have k: "isCompleteSequence a = Complete" "list_all (\<lambda>n. isCompleteSequence (take n a) = Incomplete) [1..<length a]"
      "a \<noteq> BRACKETED_PASTE_START"
      by (auto simp: key_token_def length_Suc_conv BRACKETED_PASTE_START_def)
    show False
    proof (cases "length a < 6")
      case True
      then have "a = take (length a) BRACKETED_PASTE_START"
        using arg_cong [OF aw, of "take (length a)"] by simp
      with START_incomplete [of "length a"] True assms(2) k(1) show False by force
    next
      case False
      then have six: "take 6 a = BRACKETED_PASTE_START" using arg_cong [OF aw, of "take 6"] by simp
      then have "length a \<noteq> 6" using k(3) by auto
      with False have "6 \<in> set [1..<length a]" by simp
      with k(2) have "isCompleteSequence (take 6 a) = Incomplete" unfolding list_all_iff by blast
      with six show False by simp
    qed
  next
    case False
    then have "a ! i = esc" using hd(1) assms(2) by (simp add: nth_append)
    moreover have "length a \<noteq> 1" using False assms(2) by simp
    ultimately have "Suc i < length a" "a ! Suc i = CHR 0x5C"
      using assms False by (auto simp: key_token_def inner_escapes_end_def list_all_iff)
    with hd(2) show False by (simp add: nth_append)
  qed
qed

lemma index_of_START_key:
  "key_token a \<Longrightarrow> index_of BRACKETED_PASTE_START (a @ w) = map_option ((+) (length a)) (index_of BRACKETED_PASTE_START w)"
  by (rule index_of_skip) (auto dest: key_no_start simp del: drop_append)

lemma index_of_START_keys:
  "list_all key_token ks \<Longrightarrow>
   index_of BRACKETED_PASTE_START (concat ks @ w) = map_option ((+) (length (concat ks))) (index_of BRACKETED_PASTE_START w)"
proof (induction ks)
  case Nil
  show ?case by (cases "index_of BRACKETED_PASTE_START w") auto
next
  case (Cons a ks)
  then show ?case by (cases "index_of BRACKETED_PASTE_START w") (auto simp: index_of_START_key)
qed

lemma key_incomplete: "key_token a \<Longrightarrow> a ! 0 = esc \<Longrightarrow> 0 < n \<Longrightarrow> n < length a \<Longrightarrow> isCompleteSequence (take n a) = Incomplete"
  by (auto simp: key_token_def list_all_iff)

lemma key_complete: "key_token a \<Longrightarrow> a ! 0 = esc \<Longrightarrow> isCompleteSequence a = Complete"
  by (auto simp: key_token_def length_Suc_conv)

lemma seq_end_at:
  assumes "\<forall>n. start \<le> n \<and> n < m \<longrightarrow> isCompleteSequence (take n r) = Incomplete"
    and "isCompleteSequence (take m r) \<noteq> Incomplete" and "start \<le> m" and "m < start + k"
  shows "seq_end r start k = Some m"
  using assms
proof (induction r start k rule: seq_end.induct)
  case (2 r n k)
  then show ?case by (cases "n = m") (auto split: completeness.splits)
qed simp

lemma seq_end_none:
  assumes "\<forall>n. start \<le> n \<and> n < start + k \<longrightarrow> isCompleteSequence (take n r) = Incomplete"
  shows "seq_end r start k = None"
  using assms by (induction r start k rule: seq_end.induct) (auto split: completeness.splits)

lemma key_not_double_escape: "key_token a \<Longrightarrow> a \<noteq> [esc, esc]"
  by (auto simp: key_token_def inner_escapes_end_def list_all_iff)

lemma extract_key: "key_token a \<Longrightarrow>
  extractCompleteSequences (a @ w) = (let (ss, r) = extractCompleteSequences w in (a # ss, r))"
proof (cases "a ! 0 = esc")
  case True
  assume a: "key_token a"
  have "isCompleteSequence (take n (a @ w)) = Incomplete" if "1 \<le> n" "n < length a" for n
    using key_incomplete [OF a True, of n] that by simp
  moreover have "isCompleteSequence (take (length a) (a @ w)) = Complete" using key_complete [OF a True] by simp
  moreover have "1 \<le> length a" using key_token_not_Nil [OF a] by (cases a) auto
  ultimately have "seq_end (a @ w) 1 (length (a @ w)) = Some (length a)" by (intro seq_end_at) auto
  then have "next_sequence (a @ w) = Some (length a)"
    using key_not_double_escape [OF a] by (simp add: next_sequence_def)
  moreover obtain b where "a = esc # b" using True key_token_not_Nil [OF a] by (cases a) auto
  ultimately show ?thesis by (subst extractCompleteSequences.simps) (auto split: prod.splits)
next
  case False
  assume "key_token a"
  with False have "length a = 1" by (auto simp: key_token_def)
  with False obtain c where "a = [c]" "c \<noteq> esc" by (cases a) auto
  then show ?thesis by (subst extractCompleteSequences.simps) (simp add: Let_def split: prod.splits)
qed

lemma extract_keys: "list_all key_token ks \<Longrightarrow>
  extractCompleteSequences (concat ks @ w) = (let (ss, r) = extractCompleteSequences w in (ks @ ss, r))"
  by (induction ks) (auto simp: extract_key split: prod.splits)

lemma extract_Nil [simp]: "extractCompleteSequences [] = ([], [])"
  by (simp add: extractCompleteSequences.simps)

lemma extract_partial:
  assumes "y \<noteq> []" and "y ! 0 = esc" and "\<forall>n. 0 < n \<and> n \<le> length y \<longrightarrow> isCompleteSequence (take n y) = Incomplete"
  shows "extractCompleteSequences y = ([], y)"
proof -
  have "next_sequence y = None" using assms(3) by (simp add: next_sequence_def seq_end_none)
  with assms(1,2) show ?thesis by (subst extractCompleteSequences.simps) (auto split: list.splits)
qed

section \<open>What a chunk does\<close>

text \<open>The buffer between two chunks holds the part of a token that has arrived.\<close>

definition holding :: "nat option \<Rightarrow> string \<Rightarrow> stdin_buffer" where
  "holding k y =
     (if starts_with BRACKETED_PASTE_START y
      then \<lparr>sb_buffer = [], sb_timeout = False, sb_pasteMode = True, sb_pasteBuffer = drop 6 y, pendingKittyPrintableCodepoint = None\<rparr>
      else \<lparr>sb_buffer = y, sb_timeout = (y \<noteq> []), sb_pasteMode = False, sb_pasteBuffer = [], pendingKittyPrintableCodepoint = k\<rparr>)"

definition part_of_token :: "string \<Rightarrow> bool" where
  "part_of_token y \<longleftrightarrow> y = [] \<or> (\<exists>t b. wf_token t \<and> sent_as t = y @ b \<and> b \<noteq> [])"

lemma sent_simps [simp]: "sent [] = []" "sent (t # ts) = sent_as t @ sent ts" "sent (a @ b) = sent a @ sent b"
  by (simp_all add: sent_def)

lemma not_start_Nil [simp]: "\<not> starts_with BRACKETED_PASTE_START []"
  by (simp add: BRACKETED_PASTE_START_def)

lemma START_not_Nil [simp]: "BRACKETED_PASTE_START \<noteq> []"
  by (simp add: BRACKETED_PASTE_START_def)

lemma holding_Nil: "holding k [] = \<lparr>sb_buffer = [], sb_timeout = False, sb_pasteMode = False, sb_pasteBuffer = [], pendingKittyPrintableCodepoint = k\<rparr>"
  by (simp add: holding_def)

lemma holding_part: "\<not> starts_with BRACKETED_PASTE_START y \<Longrightarrow>
   holding k y = \<lparr>sb_buffer = y, sb_timeout = (y \<noteq> []), sb_pasteMode = False, sb_pasteBuffer = [], pendingKittyPrintableCodepoint = k\<rparr>"
  by (simp add: holding_def)

lemma holding_paste: "holding k (BRACKETED_PASTE_START @ p) =
   \<lparr>sb_buffer = [], sb_timeout = False, sb_pasteMode = True, sb_pasteBuffer = p, pendingKittyPrintableCodepoint = None\<rparr>"
  by (simp add: holding_def)

lemma start_paste_holding: "\<not> sb_timeout s \<Longrightarrow> start_paste p s = holding k (BRACKETED_PASTE_START @ p)"
  by (cases s) (simp add: start_paste_def holding_paste)

lemma close_paste_holding:
  "close_paste (p @ str) (holding k (BRACKETED_PASTE_START @ p @ str)) = close_paste (p @ str) (holding k' (BRACKETED_PASTE_START @ p))"
  by (auto simp: close_paste_def holding_paste split: option.splits)

lemma process_at_start:
  assumes "index_of BRACKETED_PASTE_START str = Some i" and "str \<noteq> []"
  shows "process str (holding k []) =
    (let (s1, es1) = emit_before_paste (take i str) (holding k [] \<lparr>sb_buffer := str\<rparr>);
         pasted = drop (i + 6) str;
         (s2, es2, remaining) = close_paste pasted (holding k (BRACKETED_PASTE_START @ pasted)) in
     if remaining = [] then (s2, es1 @ es2)
     else (let (s3, es3) = process remaining s2 in (s3, es1 @ es2 @ es3)))"
proof -
  obtain s1 es1 where e: "emit_before_paste (take i str) (holding k [] \<lparr>sb_buffer := str\<rparr>) = (s1, es1)" by fastforce
  have "\<not> sb_timeout s1"
    using arg_cong [OF e, of fst] by (auto simp: emit_before_paste_def emit_all_keys holding_Nil split: if_splits)
  from start_paste_holding [OF this] show ?thesis
    using assms e by (subst process.simps) (simp add: holding_Nil)
qed

lemma process_resume:
  assumes "str \<noteq> []"
  shows "process str (holding k y) = process (y @ str) (holding k [])"
proof (cases "starts_with BRACKETED_PASTE_START y")
  case True
  then obtain p where y: "y = BRACKETED_PASTE_START @ p" by (auto simp: starts_with_iff)
  have "process str (holding k y) =
     (let (s1, es1, remaining) = close_paste (p @ str) (holding k y) in
      if remaining = [] then (s1, es1) else (let (s2, es2) = process remaining s1 in (s2, es1 @ es2)))"
    using assms by (subst process.simps) (simp add: y holding_paste)
  moreover have "index_of BRACKETED_PASTE_START (y @ str) = Some 0" by (simp add: y index_of_front)
  from process_at_start [OF this, of k] have "process (y @ str) (holding k []) =
     (let (s1, es1, remaining) = close_paste (p @ str) (holding k y) in
      if remaining = [] then (s1, es1) else (let (s2, es2) = process remaining s1 in (s2, es1 @ es2)))"
    using assms close_paste_holding [of p str k k] by (simp add: y emit_before_paste_def split: prod.splits)
  ultimately show ?thesis by simp
next
  case False
  show ?thesis
    using assms by (subst (1 2) process.simps) (simp add: holding_Nil holding_part [OF False] Let_def split: option.split)
qed

lemma close_paste_token:
  assumes "paste_token s"
  shows "close_paste (s @ BRACKETED_PASTE_END @ rest) st =
    (st\<lparr>sb_pasteMode := False, sb_pasteBuffer := [], pendingKittyPrintableCodepoint := None\<rparr>, [Paste s], rest)"
proof -
  have "index_of BRACKETED_PASTE_END (s @ BRACKETED_PASTE_END @ rest) = Some (length s)"
    using index_of_append [of _ "s @ BRACKETED_PASTE_END"] assms by (simp add: paste_token_def)
  then show ?thesis by (simp add: close_paste_def)
qed

lemma close_paste_part:
  assumes "paste_token s" and "s @ BRACKETED_PASTE_END = p @ b" and "b \<noteq> []"
  shows "close_paste p st = (st\<lparr>sb_pasteBuffer := p\<rparr>, [], [])"
proof -
  have "length p < length s + length BRACKETED_PASTE_END" using arg_cong [OF assms(2), of length] assms(3) by simp
  then have "index_of BRACKETED_PASTE_END p = None"
    using assms(1,2) by (intro index_of_prefix [of _ p b]) (auto simp: paste_token_def)
  then show ?thesis by (simp add: close_paste_def)
qed

lemma process_paste:
  assumes "list_all key_token ks"
  shows "process (concat ks @ BRACKETED_PASTE_START @ pasted) (holding k []) =
    (let (s2, es2, remaining) = close_paste pasted (holding None (BRACKETED_PASTE_START @ pasted)) in
     if remaining = [] then (s2, delivered k (map Key ks) @ es2)
     else (let (s3, es3) = process remaining s2 in (s3, delivered k (map Key ks) @ es2 @ es3)))"
proof -
  have "index_of BRACKETED_PASTE_START (concat ks @ BRACKETED_PASTE_START @ pasted) = Some (length (concat ks))"
    using assms by (simp add: index_of_START_keys index_of_front)
  moreover have "extractCompleteSequences (concat ks) = (ks, [])" using extract_keys [OF assms, of "[]"] by simp
  moreover have "concat ks = [] \<Longrightarrow> ks = []" using assms key_token_not_Nil by (cases ks) auto
  ultimately show ?thesis
    using process_at_start [of "concat ks @ BRACKETED_PASTE_START @ pasted" "length (concat ks)" k]
    by (cases "ks = []") (auto simp: emit_before_paste_def emit_all_keys holding_Nil holding_paste split: prod.splits)
qed

lemma part_cases:
  assumes "part_of_token y" and "\<not> starts_with BRACKETED_PASTE_START y"
  shows "index_of BRACKETED_PASTE_START y = None \<and> extractCompleteSequences y = ([], y)"
proof (cases "y = []")
  case True
  then show ?thesis by (simp add: index_of_short BRACKETED_PASTE_START_def)
next
  case False
  with assms obtain t b where t: "wf_token t" "sent_as t = y @ b" "b \<noteq> []" by (auto simp: part_of_token_def)
  show ?thesis
  proof (cases t)
    case (Key a)
    then have a: "key_token a" "a = y @ b" using t by simp_all
    have "\<not> starts_with BRACKETED_PASTE_START (drop i y)" if "i \<le> length y" for i
    proof (cases "i = length y")
      case False
      then show ?thesis using key_no_start [OF a(1), of i "[]"] a(2) that starts_with_longer [of BRACKETED_PASTE_START "drop i y" b]
        by (auto simp: starts_with_iff)
    qed simp
    moreover have "length a \<noteq> 1" using a(2) False t(3) by (cases y) auto
    then have "a ! 0 = esc" using a(1) by (auto simp: key_token_def)
    have "isCompleteSequence (take n y) = Incomplete" if "0 < n" "n \<le> length y" for n
    proof -
      obtain z zs where "b = z # zs" using t(3) by (cases b) auto
      then have "n < length a" "take n a = take n y" using that a(2) by auto
      with key_incomplete [OF a(1) \<open>a ! 0 = esc\<close> that(1)] show ?thesis by simp
    qed
    with False \<open>a ! 0 = esc\<close> a(2) have "extractCompleteSequences y = ([], y)" by (intro extract_partial) (auto simp: nth_append)
    ultimately show ?thesis by (simp add: index_of_none)
  next
    case (Pasted s)
    then have y: "BRACKETED_PASTE_START @ s @ BRACKETED_PASTE_END = y @ b" using t(2) by simp
    have len: "length y < 6"
    proof (rule ccontr)
      assume "\<not> length y < 6"
      then have "take 6 y = BRACKETED_PASTE_START" using arg_cong [OF y, of "take 6"] by simp
      with assms(2) show False by (simp add: starts_with_def)
    qed
    then have "y = take (length y) BRACKETED_PASTE_START" using arg_cong [OF y, of "take (length y)"] by simp
    then have "take n y = take n BRACKETED_PASTE_START" if "n \<le> length y" for n using that by (metis min.absorb1 take_take)
    with len START_incomplete have "\<forall>n. 0 < n \<and> n \<le> length y \<longrightarrow> isCompleteSequence (take n y) = Incomplete" by auto
    moreover have "y ! 0 = esc" using y False by (cases y) (auto simp: BRACKETED_PASTE_START_def)
    ultimately show ?thesis using False len by (simp add: index_of_short extract_partial)
  qed
qed

lemma part_paste:
  assumes "part_of_token (BRACKETED_PASTE_START @ p)"
  shows "\<exists>s b. paste_token s \<and> s @ BRACKETED_PASTE_END = p @ b \<and> b \<noteq> []"
proof -
  obtain t b where t: "wf_token t" "sent_as t = (BRACKETED_PASTE_START @ p) @ b" "b \<noteq> []"
    using assms by (auto simp: part_of_token_def BRACKETED_PASTE_START_def)
  show ?thesis
  proof (cases t)
    case (Key a)
    with t have "key_token a" "starts_with BRACKETED_PASTE_START (drop 0 (a @ []))" by (auto simp: starts_with_iff)
    with key_no_start [of a 0 "[]"] key_token_not_Nil show ?thesis by auto
  next
    case (Pasted s)
    with t show ?thesis by auto
  qed
qed

lemma sent_as_not_Nil: "wf_token t \<Longrightarrow> sent_as t \<noteq> []"
  by (cases t) (auto dest: key_token_not_Nil)

text \<open>A text of whole tokens and a part of one, given to an empty buffer at once.\<close>

lemma process_tokens:
  assumes "list_all key_token ks" and "list_all wf_token ts" and "part_of_token y" and "concat ks @ sent ts @ y \<noteq> []"
  shows "process (concat ks @ sent ts @ y) (holding k []) =
    (holding (kitty_after k (map Key ks @ ts)) y, delivered k (map Key ks @ ts))"
  using assms
proof (induction ts arbitrary: ks k)
  case Nil
  show ?case
  proof (cases "starts_with BRACKETED_PASTE_START y")
    case True
    then obtain p where y: "y = BRACKETED_PASTE_START @ p" by (auto simp: starts_with_iff)
    obtain s b where s: "paste_token s" "s @ BRACKETED_PASTE_END = p @ b" "b \<noteq> []"
      using part_paste Nil.prems(3) y by blast
    show ?thesis
      using process_paste [OF Nil.prems(1), of p k] close_paste_part [OF s]
      by (simp add: y holding_paste)
  next
    case False
    from part_cases [OF Nil.prems(3) False]
    have "index_of BRACKETED_PASTE_START (concat ks @ y) = None" "extractCompleteSequences (concat ks @ y) = (ks, y)"
      using Nil.prems(1) by (simp_all add: index_of_START_keys extract_keys)
    then show ?thesis
      using Nil.prems(4) by (subst process.simps) (auto simp: holding_Nil holding_part [OF False] emit_all_keys Let_def)
  qed
next
  case (Cons t ts)
  show ?case
  proof (cases t)
    case (Key a)
    with Cons.IH [of "ks @ [a]" k] Cons.prems show ?thesis by simp
  next
    case (Pasted s)
    let ?rest = "sent ts @ y"
    have p: "process (concat ks @ BRACKETED_PASTE_START @ s @ BRACKETED_PASTE_END @ ?rest) (holding k []) =
      (if ?rest = [] then (holding None [], delivered k (map Key ks) @ [Paste s])
       else (let (s3, es3) = process ?rest (holding None []) in (s3, delivered k (map Key ks) @ Paste s # es3)))"
      using process_paste [OF Cons.prems(1), of "s @ BRACKETED_PASTE_END @ ?rest" k] close_paste_token [of s ?rest] Cons.prems(2) Pasted
      by (simp add: holding_paste holding_Nil)
    show ?thesis
    proof (cases "?rest = []")
      case True
      then have "ts = []" using Cons.prems(2) by (cases ts) (auto simp: sent_as_not_Nil)
      with True p Pasted show ?thesis by (simp add: delivered_append kitty_after_append)
    next
      case False
      with Cons.IH [of "[]" None] Cons.prems p Pasted show ?thesis
        by (auto simp: delivered_append kitty_after_append)
    qed
  qed
qed

section \<open>Chunks\<close>

fun process_chunks :: "string list \<Rightarrow> stdin_buffer \<Rightarrow> stdin_buffer \<times> stdin_event list" where
  "process_chunks [] s = (s, [])"
| "process_chunks (c # cs) s =
     (let (s1, es1) = process c s; (s2, es2) = process_chunks cs s1 in (s2, es1 @ es2))"

text \<open>A beginning of a text of tokens is some tokens and a part of the next.\<close>

lemma sent_prefix:
  assumes "sent ts = x @ z"
  shows "\<exists>ts1 ts2 y. ts = ts1 @ ts2 \<and> x = sent ts1 @ y \<and> sent ts2 = y @ z
    \<and> (case ts2 of [] \<Rightarrow> y = [] | t # _ \<Rightarrow> \<exists>b. sent_as t = y @ b \<and> b \<noteq> [])"
  using assms
proof (induction ts arbitrary: x)
  case (Cons t ts)
  show ?case
  proof (cases "\<exists>b. sent_as t = x @ b \<and> b \<noteq> []")
    case True
    with Cons.prems show ?thesis by (intro exI [of _ "[]"] exI [of _ "t # ts"] exI [of _ x]) auto
  next
    case False
    then obtain x' where x: "x = sent_as t @ x'" "sent ts = x' @ z"
      using Cons.prems by (auto simp: append_eq_append_conv2)
    from Cons.IH [OF x(2)] obtain ts1 ts2 y where "ts = ts1 @ ts2" "x' = sent ts1 @ y" "sent ts2 = y @ z"
      "case ts2 of [] \<Rightarrow> y = [] | t # _ \<Rightarrow> \<exists>b. sent_as t = y @ b \<and> b \<noteq> []" by blast
    then show ?thesis using x(1) by (intro exI [of _ "t # ts1"] exI [of _ ts2] exI [of _ y]) auto
  qed
qed simp

lemma process_chunks_tokens:
  assumes "list_all wf_token ts" and "sent ts = y @ concat cs" and "[] \<notin> set cs"
    and "case ts of [] \<Rightarrow> y = [] | t # _ \<Rightarrow> \<exists>b. sent_as t = y @ b \<and> b \<noteq> []"
  shows "process_chunks cs (holding k y) = (holding (kitty_after k ts) [], delivered k ts)"
  using assms
proof (induction cs arbitrary: k y ts)
  case Nil
  then show ?case by (cases ts) auto
next
  case (Cons c cs)
  from sent_prefix [of ts "y @ c" "concat cs"] Cons.prems(2) obtain ts1 ts2 y'
    where ts: "ts = ts1 @ ts2" "y @ c = sent ts1 @ y'" "sent ts2 = y' @ concat cs"
      "case ts2 of [] \<Rightarrow> y' = [] | t # _ \<Rightarrow> \<exists>b. sent_as t = y' @ b \<and> b \<noteq> []" by auto
  have c: "c \<noteq> []" using Cons.prems(3) by auto
  have part: "part_of_token y'"
    using ts(1,4) Cons.prems(1) unfolding part_of_token_def by (cases ts2) auto
  have "process c (holding k y) = process (sent ts1 @ y') (holding k [])"
    using process_resume [OF c] ts(2) by simp
  also have "\<dots> = (holding (kitty_after k ts1) y', delivered k ts1)"
  proof -
    have "sent ts1 @ y' \<noteq> []" using ts(2) c by (metis append_is_Nil_conv)
    with process_tokens [of "[]" ts1 y' k] part Cons.prems(1) ts(1) show ?thesis by simp
  qed
  finally show ?case
    using Cons.IH [of ts2 y' "kitty_after k ts1"] ts Cons.prems(1,3)
    by (simp add: delivered_append kitty_after_append)
qed

text \<open>C13: However a stream of keys and pastes is cut into chunks, what is delivered is what the terminal sent, token by
  token, but for a character that only repeats the Kitty report before it, and nothing is left over. The stream is
  made of decoded characters below 256, and the timer does not fire between the chunks. A key is one character that
  is not the escape, or one escape sequence that is complete at its end and not before and holds a further escape
  only in front of a backslash.\<close>

theorem stdin_chunks_irrelevant:
  assumes "list_all wf_token ts" and "concat cs = sent ts" and "[] \<notin> set cs"
  shows "process_chunks cs new_stdin_buffer = (holding (kitty_after None ts) [], delivered None ts)"
proof -
  have "case ts of [] \<Rightarrow> [] = [] | t # _ \<Rightarrow> \<exists>b. sent_as t = [] @ b \<and> b \<noteq> []"
    using assms(1) by (cases ts) (auto simp: sent_as_not_Nil)
  from process_chunks_tokens [OF assms(1) _ assms(3) this, of None] assms(2) show ?thesis
    by (simp add: new_stdin_buffer_def holding_Nil)
qed

theorem stdin_chunks_irrelevant_witness:
  "snd (process_chunks [[esc], ''[97'', ''ua'', esc # ''[20'', ''0~hi'' @ [esc], ''[201~x''] new_stdin_buffer)
     = [Data (esc # ''[97u''), Paste ''hi'', Data ''x'']"
proof -
  have "list_all wf_token [Key (esc # ''[97u''), Key ''a'', Pasted ''hi'', Key ''x'']" by code_simp
  from stdin_chunks_irrelevant [OF this, of "[[esc], ''[97'', ''ua'', esc # ''[20'', ''0~hi'' @ [esc], ''[201~x'']"]
  have "snd (process_chunks [[esc], ''[97'', ''ua'', esc # ''[20'', ''0~hi'' @ [esc], ''[201~x''] new_stdin_buffer)
     = delivered None [Key (esc # ''[97u''), Key ''a'', Pasted ''hi'', Key ''x'']"
    by (simp add: BRACKETED_PASTE_START_def BRACKETED_PASTE_END_def)
  also have "\<dots> = [Data (esc # ''[97u''), Paste ''hi'', Data ''x'']" by code_simp
  finally show ?thesis .
qed

text \<open>An escape key pressed right before a paste is lost: what is incomplete before a paste is dropped.\<close>

theorem escape_before_paste_lost:
  "snd (process_chunks [[esc], BRACKETED_PASTE_START @ ''x'' @ BRACKETED_PASTE_END] new_stdin_buffer) = [Paste ''x'']"
  by code_simp

text \<open>Nothing else is lost or made up: without a paste, what is cut off the front and what is kept make up the
  buffer, every piece has a character, and what is kept is an escape sequence that is incomplete at every
  length.\<close>

theorem extract_lossless:
  "case extractCompleteSequences buf of (ss, r) \<Rightarrow>
     concat ss @ r = buf \<and> [] \<notin> set ss \<and> (r = [] \<or> hd r = esc \<and> next_sequence r = None)"
proof (induction buf rule: extractCompleteSequences.induct)
  case (1 buf)
  show ?case
  proof (cases buf)
    case (Cons c rest)
    show ?thesis
    proof (cases "c = esc")
      case True
      show ?thesis
      proof (cases "next_sequence buf")
        case (Some n)
        with 1(1) [OF Cons True Some] next_sequence_pos [OF Some] Cons True show ?thesis
          by (subst extractCompleteSequences.simps) (auto split: prod.splits)
      qed (use Cons True in \<open>subst extractCompleteSequences.simps, simp\<close>)
    next
      case False
      with 1(2) [OF Cons False] Cons show ?thesis
        by (subst extractCompleteSequences.simps) (auto split: prod.splits)
    qed
  qed simp
qed

end
