(* ===== verification/Keys.thy ===== *)
theory Keys
  imports Stdin_Buffer
begin

unbundle bit_operations_syntax

text \<open>
  Keys (\<open>packages/tui/src/keys.ts\<close>): what key a piece of input is, and whether it is a given key, in the
  legacy encodings of terminals, the Kitty protocol and xterm's \<open>modifyOtherKeys\<close>. Code points and modifiers are
  integers, and bitwise operations work on their 32-bit form. The two facts the code reads from its surroundings,
  whether the Kitty protocol is active and the environment variables, are a \<open>terminal_mode\<close>.
  A decoded character is given as its code point.
\<close>

section \<open>Tables\<close>

record terminal_mode =
  kittyProtocolActive :: bool
  environment :: "string \<Rightarrow> string option"

definition SYMBOL_KEYS :: string where
  "SYMBOL_KEYS = ''`-=[]'' @ [CHR 0x5C] @ '';'' @ [CHR 0x27] @ '',./!@#$%^&*()_+|~{}:<>?''"

definition mod_shift :: int where "mod_shift = 1"
definition mod_alt :: int where "mod_alt = 2"
definition mod_ctrl :: int where "mod_ctrl = 4"
definition mod_super :: int where "mod_super = 8"

definition LOCK_MASK :: int where
  "LOCK_MASK = 64 + 128"

datatype special_key = Escape | Tab | Enter | Space | Backspace | KpEnter
  | Up | Down | Right | Left | Delete | Insert | PageUp | PageDown | Home | End

fun key_codepoint :: "special_key \<Rightarrow> int" where
  "key_codepoint Escape = 27"
| "key_codepoint Tab = 9"
| "key_codepoint Enter = 13"
| "key_codepoint Space = 32"
| "key_codepoint Backspace = 127"
| "key_codepoint KpEnter = 57414"
| "key_codepoint Up = -1"
| "key_codepoint Down = -2"
| "key_codepoint Right = -3"
| "key_codepoint Left = -4"
| "key_codepoint Delete = -10"
| "key_codepoint Insert = -11"
| "key_codepoint PageUp = -12"
| "key_codepoint PageDown = -13"
| "key_codepoint Home = -14"
| "key_codepoint End = -15"

definition KITTY_FUNCTIONAL_KEY_EQUIVALENTS :: "(int \<times> int) list" where
  "KITTY_FUNCTIONAL_KEY_EQUIVALENTS =
     [(57399, 48), (57400, 49), (57401, 50), (57402, 51), (57403, 52), (57404, 53), (57405, 54), (57406, 55),
      (57407, 56), (57408, 57), (57409, 46), (57410, 47), (57411, 42), (57412, 45), (57413, 43), (57415, 61),
      (57416, 44), (57417, key_codepoint Left), (57418, key_codepoint Right), (57419, key_codepoint Up),
      (57420, key_codepoint Down), (57421, key_codepoint PageUp), (57422, key_codepoint PageDown),
      (57423, key_codepoint Home), (57424, key_codepoint End), (57425, key_codepoint Insert),
      (57426, key_codepoint Delete)]"

definition normalizeKittyFunctionalCodepoint :: "int \<Rightarrow> int" where
  "normalizeKittyFunctionalCodepoint codepoint =
     (case map_of KITTY_FUNCTIONAL_KEY_EQUIVALENTS codepoint of Some c \<Rightarrow> c | None \<Rightarrow> codepoint)"

text \<open>The operands of \<open>&\<close> are taken to 32 bits.\<close>

definition to_int32 :: "int \<Rightarrow> int" where
  "to_int32 n = signed_take_bit 31 n"

definition without_locks :: "int \<Rightarrow> int" where
  "without_locks modifier = to_int32 modifier AND NOT LOCK_MASK"

definition normalizeShiftedLetterIdentityCodepoint :: "int \<Rightarrow> int \<Rightarrow> int" where
  "normalizeShiftedLetterIdentityCodepoint codepoint modifier =
     (if without_locks modifier AND mod_shift \<noteq> 0 \<and> codepoint \<ge> 65 \<and> codepoint \<le> 90 then codepoint + 32
      else codepoint)"

definition csi :: "string \<Rightarrow> string" where
  "csi s = esc # CHR ''['' # s"

definition ss3 :: "char \<Rightarrow> string" where
  "ss3 c = [esc, CHR ''O'', c]"

definition LEGACY_KEY_SEQUENCES :: "(string \<times> string list) list" where
  "LEGACY_KEY_SEQUENCES =
     [(''up'', [csi ''A'', ss3 (CHR ''A'')]),
      (''down'', [csi ''B'', ss3 (CHR ''B'')]),
      (''right'', [csi ''C'', ss3 (CHR ''C'')]),
      (''left'', [csi ''D'', ss3 (CHR ''D'')]),
      (''home'', [csi ''H'', ss3 (CHR ''H''), csi ''1~'', csi ''7~'']),
      (''end'', [csi ''F'', ss3 (CHR ''F''), csi ''4~'', csi ''8~'']),
      (''insert'', [csi ''2~'']),
      (''delete'', [csi ''3~'']),
      (''pageUp'', [csi ''5~'', csi ''[5~'']),
      (''pageDown'', [csi ''6~'', csi ''[6~'']),
      (''clear'', [csi ''E'', ss3 (CHR ''E'')]),
      (''f1'', [ss3 (CHR ''P''), csi ''11~'', csi ''[A'']),
      (''f2'', [ss3 (CHR ''Q''), csi ''12~'', csi ''[B'']),
      (''f3'', [ss3 (CHR ''R''), csi ''13~'', csi ''[C'']),
      (''f4'', [ss3 (CHR ''S''), csi ''14~'', csi ''[D'']),
      (''f5'', [csi ''15~'', csi ''[E'']),
      (''f6'', [csi ''17~'']),
      (''f7'', [csi ''18~'']),
      (''f8'', [csi ''19~'']),
      (''f9'', [csi ''20~'']),
      (''f10'', [csi ''21~'']),
      (''f11'', [csi ''23~'']),
      (''f12'', [csi ''24~''])]"

definition LEGACY_SHIFT_SEQUENCES :: "(string \<times> string list) list" where
  "LEGACY_SHIFT_SEQUENCES =
     [(''up'', [csi ''a'']), (''down'', [csi ''b'']), (''right'', [csi ''c'']), (''left'', [csi ''d'']),
      (''clear'', [csi ''e'']), (''insert'', [csi ''2$'']), (''delete'', [csi ''3$'']), (''pageUp'', [csi ''5$'']),
      (''pageDown'', [csi ''6$'']), (''home'', [csi ''7$'']), (''end'', [csi ''8$''])]"

definition LEGACY_CTRL_SEQUENCES :: "(string \<times> string list) list" where
  "LEGACY_CTRL_SEQUENCES =
     [(''up'', [ss3 (CHR ''a'')]), (''down'', [ss3 (CHR ''b'')]), (''right'', [ss3 (CHR ''c'')]),
      (''left'', [ss3 (CHR ''d'')]), (''clear'', [ss3 (CHR ''e'')]), (''insert'', [csi ''2^'']),
      (''delete'', [csi ''3^'']), (''pageUp'', [csi ''5^'']), (''pageDown'', [csi ''6^'']), (''home'', [csi ''7^'']),
      (''end'', [csi ''8^''])]"

definition LEGACY_SEQUENCE_KEY_IDS :: "(string \<times> string) list" where
  "LEGACY_SEQUENCE_KEY_IDS =
     [(ss3 (CHR ''A''), ''up''), (ss3 (CHR ''B''), ''down''), (ss3 (CHR ''C''), ''right''), (ss3 (CHR ''D''), ''left''),
      (ss3 (CHR ''H''), ''home''), (ss3 (CHR ''F''), ''end''), (csi ''E'', ''clear''), (ss3 (CHR ''E''), ''clear''),
      (ss3 (CHR ''e''), ''ctrl+clear''), (csi ''e'', ''shift+clear''), (csi ''2~'', ''insert''),
      (csi ''2$'', ''shift+insert''), (csi ''2^'', ''ctrl+insert''), (csi ''3$'', ''shift+delete''),
      (csi ''3^'', ''ctrl+delete''), (csi ''[5~'', ''pageUp''), (csi ''[6~'', ''pageDown''), (csi ''a'', ''shift+up''),
      (csi ''b'', ''shift+down''), (csi ''c'', ''shift+right''), (csi ''d'', ''shift+left''),
      (ss3 (CHR ''a''), ''ctrl+up''), (ss3 (CHR ''b''), ''ctrl+down''), (ss3 (CHR ''c''), ''ctrl+right''),
      (ss3 (CHR ''d''), ''ctrl+left''), (csi ''5$'', ''shift+pageUp''), (csi ''6$'', ''shift+pageDown''),
      (csi ''7$'', ''shift+home''), (csi ''8$'', ''shift+end''), (csi ''5^'', ''ctrl+pageUp''),
      (csi ''6^'', ''ctrl+pageDown''), (csi ''7^'', ''ctrl+home''), (csi ''8^'', ''ctrl+end''),
      (ss3 (CHR ''P''), ''f1''), (ss3 (CHR ''Q''), ''f2''), (ss3 (CHR ''R''), ''f3''), (ss3 (CHR ''S''), ''f4''),
      (csi ''11~'', ''f1''), (csi ''12~'', ''f2''), (csi ''13~'', ''f3''), (csi ''14~'', ''f4''),
      (csi ''[A'', ''f1''), (csi ''[B'', ''f2''), (csi ''[C'', ''f3''), (csi ''[D'', ''f4''), (csi ''[E'', ''f5''),
      (csi ''15~'', ''f5''), (csi ''17~'', ''f6''), (csi ''18~'', ''f7''), (csi ''19~'', ''f8''), (csi ''20~'', ''f9''),
      (csi ''21~'', ''f10''), (csi ''23~'', ''f11''), (csi ''24~'', ''f12''),
      (esc # ''b'', ''alt+left''), (esc # ''f'', ''alt+right''), (esc # ''p'', ''alt+up''), (esc # ''n'', ''alt+down'')]"

definition sequences_of :: "(string \<times> string list) list \<Rightarrow> string \<Rightarrow> string list" where
  "sequences_of table key = (case map_of table key of Some ss \<Rightarrow> ss | None \<Rightarrow> [])"

definition matchesLegacySequence :: "string \<Rightarrow> string list \<Rightarrow> bool" where
  "matchesLegacySequence data sequences = (data \<in> set sequences)"

definition matchesLegacyModifierSequence :: "string \<Rightarrow> string \<Rightarrow> int \<Rightarrow> bool" where
  "matchesLegacyModifierSequence data key modifier =
     (if modifier = mod_shift then matchesLegacySequence data (sequences_of LEGACY_SHIFT_SEQUENCES key)
      else if modifier = mod_ctrl then matchesLegacySequence data (sequences_of LEGACY_CTRL_SEQUENCES key)
      else False)"

section \<open>Events\<close>

datatype key_event_type = Press | Repeat | Release

definition includes_text :: "string \<Rightarrow> string \<Rightarrow> bool" where
  "includes_text data t = (index_of t data \<noteq> None)"

definition has_event_mark :: "string \<Rightarrow> string \<Rightarrow> bool" where
  "has_event_mark n data =
     (includes_text data (n @ ''u'') \<or> includes_text data (n @ ''~'') \<or> includes_text data (n @ ''A'')
      \<or> includes_text data (n @ ''B'') \<or> includes_text data (n @ ''C'') \<or> includes_text data (n @ ''D'')
      \<or> includes_text data (n @ ''H'') \<or> includes_text data (n @ ''F''))"

definition isKeyRelease :: "string \<Rightarrow> bool" where
  "isKeyRelease data = (if includes_text data BRACKETED_PASTE_START then False else has_event_mark '':3'' data)"

definition isKeyRepeat :: "string \<Rightarrow> bool" where
  "isKeyRepeat data = (if includes_text data BRACKETED_PASTE_START then False else has_event_mark '':2'' data)"

definition parseEventType :: "string option \<Rightarrow> key_event_type" where
  "parseEventType s =
     (case s of
        None \<Rightarrow> Press
      | Some d \<Rightarrow> if nat_of_digits d = 2 then Repeat else if nat_of_digits d = 3 then Release else Press)"

section \<open>Kitty sequences\<close>

text \<open>One or more digits; then an optional group of a mark and digits, where the mark commits to the
  group.\<close>

definition digits1 :: "string \<Rightarrow> (string \<times> string) option" where
  "digits1 s = (if takeWhile is_digit s = [] then None else Some (takeWhile is_digit s, dropWhile is_digit s))"

definition marked_digits :: "char \<Rightarrow> string \<Rightarrow> (string option \<times> string) option" where
  "marked_digits mark s =
     (case s of
        [] \<Rightarrow> Some (None, s)
      | c # r \<Rightarrow>
          if c = mark then (case digits1 r of None \<Rightarrow> None | Some (ds, rest) \<Rightarrow> Some (Some ds, rest))
          else Some (None, s))"

definition marked_maybe_digits :: "char \<Rightarrow> string \<Rightarrow> string option \<times> string" where
  "marked_maybe_digits mark s =
     (case s of
        [] \<Rightarrow> (None, s)
      | c # r \<Rightarrow> if c = mark then (Some (takeWhile is_digit r), dropWhile is_digit r) else (None, s))"

text \<open>The pattern \<open>^\x1b\[(\d+)(?::(\d*))?(?::(\d+))?(?:;(\d+))?(?::(\d+))?u$\<close>.\<close>

record csi_u_match =
  m_codepoint :: string
  m_shifted :: "string option"
  m_base :: "string option"
  m_modifier :: "string option"
  m_event :: "string option"

definition match_csi_u :: "string \<Rightarrow> csi_u_match option" where
  "match_csi_u data =
     Option.bind (strip_prefix (csi []) data) (\<lambda>s.
     Option.bind (digits1 s) (\<lambda>(cp, r1).
       (let (shifted, r2) = marked_maybe_digits (CHR '':'') r1 in
        Option.bind (if shifted = None then Some (None, r2) else marked_digits (CHR '':'') r2) (\<lambda>(base, r3).
        Option.bind (marked_digits (CHR '';'') r3) (\<lambda>(md, r4).
        Option.bind (marked_digits (CHR '':'') r4) (\<lambda>(ev, r5).
          if r5 = ''u''
          then Some \<lparr>m_codepoint = cp, m_shifted = shifted, m_base = base, m_modifier = md, m_event = ev\<rparr>
          else None))))))"

text \<open>The pattern \<open>^\x1b\[1;(\d+)(?::(\d+))?([...])$\<close> for a set of final characters.\<close>

definition match_modified :: "string \<Rightarrow> string \<Rightarrow> (string \<times> string option \<times> char) option" where
  "match_modified finals data =
     Option.bind (strip_prefix (csi ''1;'') data) (\<lambda>s.
     Option.bind (digits1 s) (\<lambda>(md, r1).
     Option.bind (marked_digits (CHR '':'') r1) (\<lambda>(ev, r2).
       case r2 of [c] \<Rightarrow> if c \<in> set finals then Some (md, ev, c) else None | _ \<Rightarrow> None)))"

text \<open>The pattern \<open>^\x1b\[(\d+)(?:;(\d+))?(?::(\d+))?~$\<close>.\<close>

definition match_functional :: "string \<Rightarrow> (string \<times> string option \<times> string option) option" where
  "match_functional data =
     Option.bind (strip_prefix (csi []) data) (\<lambda>s.
     Option.bind (digits1 s) (\<lambda>(n, r1).
     Option.bind (marked_digits (CHR '';'') r1) (\<lambda>(md, r2).
     Option.bind (marked_digits (CHR '':'') r2) (\<lambda>(ev, r3).
       if r3 = ''~'' then Some (n, md, ev) else None))))"

record kitty_sequence =
  codepoint :: int
  shiftedKey :: "int option"
  baseLayoutKey :: "int option"
  modifier :: int
  eventType :: key_event_type

definition mod_value :: "string option \<Rightarrow> int" where
  "mod_value s = (case s of Some ds \<Rightarrow> int (nat_of_digits ds) | None \<Rightarrow> 1)"

definition plain_kitty :: "int \<Rightarrow> int \<Rightarrow> key_event_type \<Rightarrow> kitty_sequence" where
  "plain_kitty cp md ev = \<lparr>codepoint = cp, shiftedKey = None, baseLayoutKey = None, modifier = md, eventType = ev\<rparr>"

definition func_codes :: "(nat \<times> int) list" where
  "func_codes =
     [(2, key_codepoint Insert), (3, key_codepoint Delete), (5, key_codepoint PageUp), (6, key_codepoint PageDown),
      (7, key_codepoint Home), (8, key_codepoint End)]"

definition arrow_codes :: "(char \<times> int) list" where
  "arrow_codes = [(CHR ''A'', -1), (CHR ''B'', -2), (CHR ''C'', -3), (CHR ''D'', -4)]"

definition parse_csi_u :: "string \<Rightarrow> kitty_sequence option" where
  "parse_csi_u data =
     map_option (\<lambda>m.
       \<lparr>codepoint = int (nat_of_digits (m_codepoint m)),
        shiftedKey = (case m_shifted m of Some ds \<Rightarrow> if ds = [] then None else Some (int (nat_of_digits ds)) | None \<Rightarrow> None),
        baseLayoutKey = map_option (\<lambda>ds. int (nat_of_digits ds)) (m_base m),
        modifier = mod_value (m_modifier m) - 1,
        eventType = parseEventType (m_event m)\<rparr>) (match_csi_u data)"

definition parse_arrow :: "string \<Rightarrow> kitty_sequence option" where
  "parse_arrow data =
     map_option (\<lambda>(md, ev, c). plain_kitty (the (map_of arrow_codes c)) (int (nat_of_digits md) - 1) (parseEventType ev))
       (match_modified ''ABCD'' data)"

definition parse_functional :: "string \<Rightarrow> kitty_sequence option" where
  "parse_functional data =
     Option.bind (match_functional data) (\<lambda>(n, md, ev).
       map_option (\<lambda>cp. plain_kitty cp (mod_value md - 1) (parseEventType ev)) (map_of func_codes (nat_of_digits n)))"

definition parse_home_end :: "string \<Rightarrow> kitty_sequence option" where
  "parse_home_end data =
     map_option (\<lambda>(md, ev, c).
       plain_kitty (key_codepoint (if c = CHR ''H'' then Home else End)) (int (nat_of_digits md) - 1) (parseEventType ev))
       (match_modified ''HF'' data)"

definition parseKittySequence :: "string \<Rightarrow> kitty_sequence option" where
  "parseKittySequence data =
     (case parse_csi_u data of
        Some k \<Rightarrow> Some k
      | None \<Rightarrow>
          (case parse_arrow data of
             Some k \<Rightarrow> Some k
           | None \<Rightarrow> (case parse_functional data of Some k \<Rightarrow> Some k | None \<Rightarrow> parse_home_end data)))"

text \<open>\<open>SYMBOL_KEYS.has(String.fromCharCode(cp))\<close>: the code unit is the number modulo 65536.\<close>

definition char_code :: "int \<Rightarrow> int" where
  "char_code cp = cp mod 65536"

definition is_symbol_code :: "int \<Rightarrow> bool" where
  "is_symbol_code cp = (char_code cp \<in> set (map (\<lambda>c. int (ascii c)) SYMBOL_KEYS))"

definition normalized_codepoint :: "int \<Rightarrow> int \<Rightarrow> int" where
  "normalized_codepoint cp md = normalizeShiftedLetterIdentityCodepoint (normalizeKittyFunctionalCodepoint cp) md"

definition matchesKittySequence :: "string \<Rightarrow> int \<Rightarrow> int \<Rightarrow> bool" where
  "matchesKittySequence data expectedCodepoint expectedModifier =
     (case parseKittySequence data of
        None \<Rightarrow> False
      | Some parsed \<Rightarrow>
          if without_locks (modifier parsed) \<noteq> without_locks expectedModifier then False
          else
            (let cp = normalized_codepoint (codepoint parsed) (modifier parsed) in
             cp = normalized_codepoint expectedCodepoint expectedModifier
             \<or> baseLayoutKey parsed = Some expectedCodepoint
               \<and> \<not> (97 \<le> cp \<and> cp \<le> 122) \<and> \<not> is_symbol_code cp))"

section \<open>modifyOtherKeys\<close>

text \<open>The pattern \<open>^\x1b\[27;(\d+);(\d+)~$\<close>: the code point and the modifier.\<close>

definition parseModifyOtherKeysSequence :: "string \<Rightarrow> (int \<times> int) option" where
  "parseModifyOtherKeysSequence data =
     Option.bind (strip_prefix (csi ''27;'') data) (\<lambda>s.
     Option.bind (digits1 s) (\<lambda>(md, r1).
     Option.bind (strip_prefix '';'' r1) (\<lambda>r2.
     Option.bind (digits1 r2) (\<lambda>(cp, r3).
       if r3 = ''~'' then Some (int (nat_of_digits cp), int (nat_of_digits md) - 1) else None))))"

definition matchesModifyOtherKeys :: "string \<Rightarrow> int \<Rightarrow> int \<Rightarrow> bool" where
  "matchesModifyOtherKeys data expectedKeycode expectedModifier =
     (parseModifyOtherKeysSequence data = Some (expectedKeycode, expectedModifier))"

definition matchesPrintableModifyOtherKeys :: "string \<Rightarrow> int \<Rightarrow> int \<Rightarrow> bool" where
  "matchesPrintableModifyOtherKeys data expectedKeycode expectedModifier =
     (if expectedModifier = 0 then False
      else case parseModifyOtherKeysSequence data of
        None \<Rightarrow> False
      | Some (cp, md) \<Rightarrow>
          md = expectedModifier
          \<and> normalizeShiftedLetterIdentityCodepoint cp md
            = normalizeShiftedLetterIdentityCodepoint expectedKeycode expectedModifier)"

section \<open>Matching a key\<close>

definition env_set :: "terminal_mode \<Rightarrow> string \<Rightarrow> bool" where
  "env_set m v = (case environment m v of Some s \<Rightarrow> s \<noteq> [] | None \<Rightarrow> False)"

definition isWindowsTerminalSession :: "terminal_mode \<Rightarrow> bool" where
  "isWindowsTerminalSession m =
     (env_set m ''WT_SESSION'' \<and> \<not> env_set m ''SSH_CONNECTION'' \<and> \<not> env_set m ''SSH_CLIENT'' \<and> \<not> env_set m ''SSH_TTY'')"

definition matchesRawBackspace :: "terminal_mode \<Rightarrow> string \<Rightarrow> int \<Rightarrow> bool" where
  "matchesRawBackspace m data expectedModifier =
     (if data = [CHR 0x7F] then expectedModifier = 0
      else if data \<noteq> [CHR 0x08] then False
      else if isWindowsTerminalSession m then expectedModifier = mod_ctrl else expectedModifier = 0)"

definition is_letter_key :: "char \<Rightarrow> bool" where
  "is_letter_key c = (97 \<le> ascii c \<and> ascii c \<le> 122)"

definition rawCtrlChar :: "char \<Rightarrow> char option" where
  "rawCtrlChar key =
     (let c = lower_char key; code = ascii c in
      if is_letter_key c \<or> c = CHR ''['' \<or> c = CHR 0x5C \<or> c = CHR '']'' \<or> c = CHR ''_''
      then Some (char_of (code mod 32))
      else if c = CHR ''-'' then Some (char_of (31 :: nat))
      else None)"

record key_id =
  key_name :: string
  key_ctrl :: bool
  key_shift :: bool
  key_alt :: bool
  key_super :: bool

definition parseKeyId :: "string \<Rightarrow> key_id option" where
  "parseKeyId keyId =
     (let parts = split_on (CHR ''+'') (to_lower keyId); key = last parts in
      if key = [] then None
      else Some \<lparr>key_name = key, key_ctrl = (''ctrl'' \<in> set parts), key_shift = (''shift'' \<in> set parts),
                key_alt = (''alt'' \<in> set parts), key_super = (''super'' \<in> set parts)\<rparr>)"

definition key_modifier :: "key_id \<Rightarrow> int" where
  "key_modifier k =
     (if key_shift k then mod_shift else 0) + (if key_alt k then mod_alt else 0)
     + (if key_ctrl k then mod_ctrl else 0) + (if key_super k then mod_super else 0)"

definition matches_coded :: "string \<Rightarrow> special_key \<Rightarrow> int \<Rightarrow> bool" where
  "matches_coded data k md \<longleftrightarrow>
     matchesKittySequence data (key_codepoint k) md \<or> matchesModifyOtherKeys data (key_codepoint k) md"

definition matches_escape :: "string \<Rightarrow> int \<Rightarrow> bool" where
  "matches_escape data md = (if md \<noteq> 0 then False else data = [esc] \<or> matches_coded data Escape 0)"

definition matches_space :: "terminal_mode \<Rightarrow> string \<Rightarrow> int \<Rightarrow> bool" where
  "matches_space m data md =
     (if \<not> kittyProtocolActive m \<and> md = mod_ctrl \<and> data = [CHR 0x00] then True
      else if \<not> kittyProtocolActive m \<and> md = mod_alt \<and> data = esc # '' '' then True
      else if md = 0 then data = '' '' \<or> matches_coded data Space 0
      else matches_coded data Space md)"

definition matches_tab :: "string \<Rightarrow> int \<Rightarrow> bool" where
  "matches_tab data md =
     (if md = mod_shift then data = csi ''Z'' \<or> matches_coded data Tab mod_shift
      else if md = 0 then data = [CHR 0x09] \<or> matchesKittySequence data (key_codepoint Tab) 0
      else matches_coded data Tab md)"

definition matches_enter_sequence :: "string \<Rightarrow> int \<Rightarrow> bool" where
  "matches_enter_sequence data md =
     (matchesKittySequence data (key_codepoint Enter) md \<or> matchesKittySequence data (key_codepoint KpEnter) md)"

definition matches_enter :: "terminal_mode \<Rightarrow> string \<Rightarrow> int \<Rightarrow> bool" where
  "matches_enter m data md =
     (if md = mod_shift
      then (if matches_enter_sequence data mod_shift then True
            else if matchesModifyOtherKeys data (key_codepoint Enter) mod_shift then True
            else if kittyProtocolActive m then data = [esc, cr] \<or> data = [nl]
            else False)
      else if md = mod_alt
      then (if matches_enter_sequence data mod_alt then True
            else if matchesModifyOtherKeys data (key_codepoint Enter) mod_alt then True
            else if \<not> kittyProtocolActive m then data = [esc, cr]
            else False)
      else if md = 0
      then data = [cr] \<or> (\<not> kittyProtocolActive m \<and> data = [nl]) \<or> data = ss3 (CHR ''M'') \<or> matches_enter_sequence data 0
      else matches_enter_sequence data md \<or> matchesModifyOtherKeys data (key_codepoint Enter) md)"

definition matches_backspace :: "terminal_mode \<Rightarrow> string \<Rightarrow> int \<Rightarrow> bool" where
  "matches_backspace m data md =
     (if md = mod_alt
      then (if data = [esc, CHR 0x7F] \<or> data = [esc, CHR 0x08] then True else matches_coded data Backspace mod_alt)
      else if md = mod_ctrl
      then (if matchesRawBackspace m data mod_ctrl then True else matches_coded data Backspace mod_ctrl)
      else if md = 0 then matchesRawBackspace m data 0 \<or> matches_coded data Backspace 0
      else matches_coded data Backspace md)"

text \<open>Insert, delete, home, end, page up and page down, which all have legacy sequences.\<close>

definition matches_functional :: "string \<Rightarrow> string \<Rightarrow> special_key \<Rightarrow> int \<Rightarrow> bool" where
  "matches_functional data name k md =
     (if md = 0
      then matchesLegacySequence data (sequences_of LEGACY_KEY_SEQUENCES name) \<or> matchesKittySequence data (key_codepoint k) 0
      else if matchesLegacyModifierSequence data name md then True
      else matchesKittySequence data (key_codepoint k) md)"

definition matches_clear :: "string \<Rightarrow> int \<Rightarrow> bool" where
  "matches_clear data md =
     (if md = 0 then matchesLegacySequence data (sequences_of LEGACY_KEY_SEQUENCES ''clear'')
      else matchesLegacyModifierSequence data ''clear'' md)"

definition matches_vertical :: "string \<Rightarrow> string \<Rightarrow> special_key \<Rightarrow> char \<Rightarrow> int \<Rightarrow> bool" where
  "matches_vertical data name k altChar md =
     (if md = mod_alt then data = [esc, altChar] \<or> matchesKittySequence data (key_codepoint k) mod_alt
      else matches_functional data name k md)"

definition matches_horizontal :: "terminal_mode \<Rightarrow> string \<Rightarrow> string \<Rightarrow> special_key \<Rightarrow> char \<Rightarrow> char \<Rightarrow> char \<Rightarrow> int \<Rightarrow> bool" where
  "matches_horizontal m data name k final altUpper altLower md =
     (if md = mod_alt
      then data = csi (''1;3'' @ [final]) \<or> (\<not> kittyProtocolActive m \<and> data = [esc, altUpper]) \<or> data = [esc, altLower]
        \<or> matchesKittySequence data (key_codepoint k) mod_alt
      else if md = mod_ctrl
      then data = csi (''1;5'' @ [final]) \<or> matchesLegacyModifierSequence data name mod_ctrl
        \<or> matchesKittySequence data (key_codepoint k) mod_ctrl
      else matches_functional data name k md)"

definition matches_function_key :: "string \<Rightarrow> string \<Rightarrow> int \<Rightarrow> bool" where
  "matches_function_key data name md =
     (if md \<noteq> 0 then False else matchesLegacySequence data (sequences_of LEGACY_KEY_SEQUENCES name))"

definition matches_character :: "terminal_mode \<Rightarrow> string \<Rightarrow> char \<Rightarrow> int \<Rightarrow> bool" where
  "matches_character m data key md =
     (let cp = int (ascii key); rawCtrl = rawCtrlChar key; isLetter = is_letter_key key; isDigit = is_digit key in
      if md = mod_ctrl + mod_alt \<and> \<not> kittyProtocolActive m \<and> (case rawCtrl of Some r \<Rightarrow> data = [esc, r] | None \<Rightarrow> False)
      then True
      else if md = mod_alt \<and> \<not> kittyProtocolActive m \<and> (isLetter \<or> isDigit) \<and> data = [esc, key] then True
      else if md = mod_ctrl
      then (if rawCtrl \<noteq> None \<and> data = [the rawCtrl] then True
            else matchesKittySequence data cp mod_ctrl \<or> matchesPrintableModifyOtherKeys data cp mod_ctrl)
      else if md = mod_shift + mod_ctrl
      then matchesKittySequence data cp (mod_shift + mod_ctrl) \<or> matchesPrintableModifyOtherKeys data cp (mod_shift + mod_ctrl)
      else if md = mod_shift
      then (if isLetter \<and> data = [upper_char key] then True
            else matchesKittySequence data cp mod_shift \<or> matchesPrintableModifyOtherKeys data cp mod_shift)
      else if md \<noteq> 0 then matchesKittySequence data cp md \<or> matchesPrintableModifyOtherKeys data cp md
      else data = [key] \<or> matchesKittySequence data cp 0)"

definition function_keys :: "string list" where
  "function_keys = [''f1'', ''f2'', ''f3'', ''f4'', ''f5'', ''f6'', ''f7'', ''f8'', ''f9'', ''f10'', ''f11'', ''f12'']"

definition matches_named :: "terminal_mode \<Rightarrow> string \<Rightarrow> string \<Rightarrow> int \<Rightarrow> bool" where
  "matches_named m data key md =
     (if key = ''escape'' \<or> key = ''esc'' then matches_escape data md
      else if key = ''space'' then matches_space m data md
      else if key = ''tab'' then matches_tab data md
      else if key = ''enter'' \<or> key = ''return'' then matches_enter m data md
      else if key = ''backspace'' then matches_backspace m data md
      else if key = ''insert'' then matches_functional data ''insert'' Insert md
      else if key = ''delete'' then matches_functional data ''delete'' Delete md
      else if key = ''clear'' then matches_clear data md
      else if key = ''home'' then matches_functional data ''home'' Home md
      else if key = ''end'' then matches_functional data ''end'' End md
      else if key = ''pageup'' then matches_functional data ''pageUp'' PageUp md
      else if key = ''pagedown'' then matches_functional data ''pageDown'' PageDown md
      else if key = ''up'' then matches_vertical data ''up'' Up (CHR ''p'') md
      else if key = ''down'' then matches_vertical data ''down'' Down (CHR ''n'') md
      else if key = ''left'' then matches_horizontal m data ''left'' Left (CHR ''D'') (CHR ''B'') (CHR ''b'') md
      else if key = ''right'' then matches_horizontal m data ''right'' Right (CHR ''C'') (CHR ''F'') (CHR ''f'') md
      else if key \<in> set function_keys then matches_function_key data key md
      else
        (case key of
           [c] \<Rightarrow> (is_letter_key c \<or> is_digit c \<or> c \<in> set SYMBOL_KEYS) \<and> matches_character m data c md
         | _ \<Rightarrow> False))"

definition matchesKey :: "terminal_mode \<Rightarrow> string \<Rightarrow> string \<Rightarrow> bool" where
  "matchesKey m data keyId =
     (case parseKeyId keyId of
        None \<Rightarrow> False
      | Some k \<Rightarrow> matches_named m data (key_name k) (key_modifier k))"

section \<open>Naming a key\<close>

definition formatKeyNameWithModifiers :: "string \<Rightarrow> int \<Rightarrow> string option" where
  "formatKeyNameWithModifiers keyName md =
     (let effectiveMod = without_locks md;
          mods = (if effectiveMod AND mod_shift \<noteq> 0 then [''shift''] else [])
               @ (if effectiveMod AND mod_ctrl \<noteq> 0 then [''ctrl''] else [])
               @ (if effectiveMod AND mod_alt \<noteq> 0 then [''alt''] else [])
               @ (if effectiveMod AND mod_super \<noteq> 0 then [''super''] else [])
      in if effectiveMod AND NOT (mod_shift OR mod_ctrl OR mod_alt OR mod_super) \<noteq> 0 then None
         else if mods \<noteq> [] then Some (join_with ''+'' mods @ ''+'' @ keyName)
         else Some keyName)"

definition special_name :: "int \<Rightarrow> string option" where
  "special_name cp =
     (if cp = key_codepoint Escape then Some ''escape''
      else if cp = key_codepoint Tab then Some ''tab''
      else if cp = key_codepoint Enter \<or> cp = key_codepoint KpEnter then Some ''enter''
      else if cp = key_codepoint Space then Some ''space''
      else if cp = key_codepoint Backspace then Some ''backspace''
      else if cp = key_codepoint Delete then Some ''delete''
      else if cp = key_codepoint Insert then Some ''insert''
      else if cp = key_codepoint Home then Some ''home''
      else if cp = key_codepoint End then Some ''end''
      else if cp = key_codepoint PageUp then Some ''pageUp''
      else if cp = key_codepoint PageDown then Some ''pageDown''
      else if cp = key_codepoint Up then Some ''up''
      else if cp = key_codepoint Down then Some ''down''
      else if cp = key_codepoint Left then Some ''left''
      else if cp = key_codepoint Right then Some ''right''
      else if 48 \<le> cp \<and> cp \<le> 57 then Some [char_of (nat cp)]
      else if 97 \<le> cp \<and> cp \<le> 122 then Some [char_of (nat cp)]
      else if is_symbol_code cp then Some [char_of (nat (char_code cp))]
      else None)"

definition effective_codepoint :: "int \<Rightarrow> int \<Rightarrow> int option \<Rightarrow> int" where
  "effective_codepoint cp md base =
     (let identity = normalized_codepoint cp md in
      if 97 \<le> identity \<and> identity \<le> 122 \<or> 48 \<le> identity \<and> identity \<le> 57 \<or> is_symbol_code identity
      then identity
      else (case base of Some b \<Rightarrow> b | None \<Rightarrow> identity))"

definition formatParsedKey :: "int \<Rightarrow> int \<Rightarrow> int option \<Rightarrow> string option" where
  "formatParsedKey cp md base =
     (case special_name (effective_codepoint cp md base) of
        None \<Rightarrow> None
      | Some keyName \<Rightarrow> formatKeyNameWithModifiers keyName md)"

definition parse_raw_key :: "terminal_mode \<Rightarrow> string \<Rightarrow> string option" where
  "parse_raw_key m data =
     (if data = [esc] then Some ''escape''
      else if data = [CHR 0x1C] then Some (''ctrl+'' @ [CHR 0x5C])
      else if data = [CHR 0x1D] then Some ''ctrl+]''
      else if data = [CHR 0x1F] then Some ''ctrl+-''
      else if data = [esc, esc] then Some ''ctrl+alt+[''
      else if data = [esc, CHR 0x1C] then Some (''ctrl+alt+'' @ [CHR 0x5C])
      else if data = [esc, CHR 0x1D] then Some ''ctrl+alt+]''
      else if data = [esc, CHR 0x1F] then Some ''ctrl+alt+-''
      else if data = [CHR 0x09] then Some ''tab''
      else if data = [cr] \<or> (\<not> kittyProtocolActive m \<and> data = [nl]) \<or> data = ss3 (CHR ''M'') then Some ''enter''
      else if data = [CHR 0x00] then Some ''ctrl+space''
      else if data = '' '' then Some ''space''
      else if data = [CHR 0x7F] then Some ''backspace''
      else if data = [CHR 0x08] then Some (if isWindowsTerminalSession m then ''ctrl+backspace'' else ''backspace'')
      else if data = csi ''Z'' then Some ''shift+tab''
      else if \<not> kittyProtocolActive m \<and> data = [esc, cr] then Some ''alt+enter''
      else if \<not> kittyProtocolActive m \<and> data = esc # '' '' then Some ''alt+space''
      else if data = [esc, CHR 0x7F] \<or> data = [esc, CHR 0x08] then Some ''alt+backspace''
      else if \<not> kittyProtocolActive m \<and> data = esc # ''B'' then Some ''alt+left''
      else if \<not> kittyProtocolActive m \<and> data = esc # ''F'' then Some ''alt+right''
      else None)"

definition parse_alt_key :: "terminal_mode \<Rightarrow> string \<Rightarrow> string option" where
  "parse_alt_key m data =
     (if \<not> kittyProtocolActive m \<and> length data = 2 \<and> data ! 0 = esc
      then (let code = ascii (data ! 1) in
            if 1 \<le> code \<and> code \<le> 26 then Some (''ctrl+alt+'' @ [char_of (code + 96)])
            else if (97 \<le> code \<and> code \<le> 122) \<or> (48 \<le> code \<and> code \<le> 57) then Some (''alt+'' @ [char_of code])
            else None)
      else None)"

definition parse_plain_key :: "string \<Rightarrow> string option" where
  "parse_plain_key data =
     (if data = csi ''A'' then Some ''up''
      else if data = csi ''B'' then Some ''down''
      else if data = csi ''C'' then Some ''right''
      else if data = csi ''D'' then Some ''left''
      else if data = csi ''H'' \<or> data = ss3 (CHR ''H'') then Some ''home''
      else if data = csi ''F'' \<or> data = ss3 (CHR ''F'') then Some ''end''
      else if data = csi ''3~'' then Some ''delete''
      else if data = csi ''5~'' then Some ''pageUp''
      else if data = csi ''6~'' then Some ''pageDown''
      else if length data = 1
      then (let code = ascii (hd data) in
            if 1 \<le> code \<and> code \<le> 26 then Some (''ctrl+'' @ [char_of (code + 96)])
            else if 32 \<le> code \<and> code \<le> 126 then Some data
            else None)
      else None)"

definition first_some :: "'a option \<Rightarrow> 'a option \<Rightarrow> 'a option" where
  "first_some a b = (case a of Some x \<Rightarrow> Some x | None \<Rightarrow> b)"

definition parse_legacy_key :: "terminal_mode \<Rightarrow> string \<Rightarrow> string option" where
  "parse_legacy_key m data =
     (if kittyProtocolActive m \<and> (data = [esc, cr] \<or> data = [nl]) then Some ''shift+enter''
      else first_some (map_of LEGACY_SEQUENCE_KEY_IDS data)
        (first_some (parse_raw_key m data) (first_some (parse_alt_key m data) (parse_plain_key data))))"

definition parseKey :: "terminal_mode \<Rightarrow> string \<Rightarrow> string option" where
  "parseKey m data =
     (case parseKittySequence data of
        Some k \<Rightarrow> formatParsedKey (codepoint k) (modifier k) (baseLayoutKey k)
      | None \<Rightarrow>
          (case parseModifyOtherKeysSequence data of
             Some (cp, md) \<Rightarrow> formatParsedKey cp md None
           | None \<Rightarrow> parse_legacy_key m data))"

section \<open>Printable characters\<close>

text \<open>The code point that \<open>String.fromCodePoint\<close> accepts.\<close>

definition valid_codepoint :: "int \<Rightarrow> bool" where
  "valid_codepoint cp = (0 \<le> cp \<and> cp \<le> 0x10FFFF)"

definition KITTY_PRINTABLE_ALLOWED_MODIFIERS :: int where
  "KITTY_PRINTABLE_ALLOWED_MODIFIERS = mod_shift OR LOCK_MASK"

definition decodeKittyPrintable :: "string \<Rightarrow> int option" where
  "decodeKittyPrintable data =
     (case parse_csi_u data of
        None \<Rightarrow> None
      | Some k \<Rightarrow>
          if to_int32 (modifier k) AND NOT KITTY_PRINTABLE_ALLOWED_MODIFIERS \<noteq> 0 then None
          else if to_int32 (modifier k) AND (mod_alt OR mod_ctrl) \<noteq> 0 then None
          else
            (let cp = normalizeKittyFunctionalCodepoint
                   (if to_int32 (modifier k) AND mod_shift \<noteq> 0
                    then (case shiftedKey k of Some s \<Rightarrow> s | None \<Rightarrow> codepoint k) else codepoint k)
             in if cp < 32 \<or> \<not> valid_codepoint cp then None else Some cp))"

definition decodeModifyOtherKeysPrintable :: "string \<Rightarrow> int option" where
  "decodeModifyOtherKeysPrintable data =
     (case parseModifyOtherKeysSequence data of
        None \<Rightarrow> None
      | Some (cp, md) \<Rightarrow>
          if without_locks md AND NOT mod_shift \<noteq> 0 then None
          else if cp < 32 \<or> \<not> valid_codepoint cp then None else Some cp)"

definition decodePrintableKey :: "string \<Rightarrow> int option" where
  "decodePrintableKey data = first_some (decodeKittyPrintable data) (decodeModifyOtherKeysPrintable data)"

section \<open>Parsing what a terminal reports\<close>

text \<open>The reports of the Kitty protocol, as its specification prints them: a code point with its alternates, closed
  by \<open>u\<close>; the letter of an arrow, of home or of end; or the number of a functional key, closed by a tilde. The
  modifiers are left out where there are none, and then so is the event; the event alone can be left out too. A key
  with a letter and without modifiers has no report of the protocol: it is sent as the legacy sequence.\<close>

datatype kitty_form = Code_point nat "nat option" "nat option" | With_letter special_key | With_tilde special_key

definition letter_of :: "special_key \<Rightarrow> char option" where
  "letter_of = map_of [(Up, CHR ''A''), (Down, CHR ''B''), (Right, CHR ''C''), (Left, CHR ''D''), (Home, CHR ''H''), (End, CHR ''F'')]"

definition tilde_of :: "special_key \<Rightarrow> nat option" where
  "tilde_of = map_of [(Insert, 2), (Delete, 3), (PageUp, 5), (PageDown, 6), (Home, 7), (End, 8)]"

definition group_of :: "char \<Rightarrow> nat option \<Rightarrow> string" where
  "group_of mark n = (case n of Some k \<Rightarrow> mark # show_nat k | None \<Rightarrow> [])"

definition alternates :: "nat option \<Rightarrow> nat option \<Rightarrow> string" where
  "alternates shifted base =
     (case base of
        Some b \<Rightarrow> CHR '':'' # (case shifted of Some s \<Rightarrow> show_nat s | None \<Rightarrow> []) @ CHR '':'' # show_nat b
      | None \<Rightarrow> group_of (CHR '':'') shifted)"

definition event_number :: "key_event_type \<Rightarrow> nat" where
  "event_number ev = (case ev of Press \<Rightarrow> 1 | Repeat \<Rightarrow> 2 | Release \<Rightarrow> 3)"

type_synonym key_fields = "(nat \<times> key_event_type option) option"

definition fields_text :: "key_fields \<Rightarrow> string" where
  "fields_text mods =
     (case mods of
        None \<Rightarrow> []
      | Some (md, ev) \<Rightarrow> CHR '';'' # show_nat (md + 1) @ group_of (CHR '':'') (map_option event_number ev))"

definition kitty_report :: "kitty_form \<Rightarrow> key_fields \<Rightarrow> string option" where
  "kitty_report form mods =
     (case form of
        Code_point cp shifted base \<Rightarrow> Some (csi (show_nat cp @ alternates shifted base @ fields_text mods @ ''u''))
      | With_letter k \<Rightarrow>
          (if mods = None then None else map_option (\<lambda>c. csi (''1'' @ fields_text mods @ [c])) (letter_of k))
      | With_tilde k \<Rightarrow> map_option (\<lambda>n. csi (show_nat n @ fields_text mods @ ''~'')) (tilde_of k))"

text \<open>What a report says: without modifiers there are none, and without an event the key was pressed.\<close>

definition reported :: "kitty_form \<Rightarrow> key_fields \<Rightarrow> kitty_sequence" where
  "reported form mods =
     (let md = (case mods of Some (n, _) \<Rightarrow> int n | None \<Rightarrow> 0);
          ev = (case mods of Some (_, Some e) \<Rightarrow> e | _ \<Rightarrow> Press) in
      case form of
        Code_point cp shifted base \<Rightarrow>
          \<lparr>codepoint = int cp, shiftedKey = map_option int shifted, baseLayoutKey = map_option int base, modifier = md, eventType = ev\<rparr>
      | With_letter k \<Rightarrow> plain_kitty (key_codepoint k) md ev
      | With_tilde k \<Rightarrow> plain_kitty (key_codepoint k) md ev)"

lemma mark_not_digit [simp]: "\<not> is_digit (CHR '':'')" "\<not> is_digit (CHR '';'')" "\<not> is_digit (CHR ''u'')" "\<not> is_digit (CHR ''~'')"
  by (simp_all add: is_digit_def)

lemma digits1_show_nat [simp]: "\<not> is_digit c \<Longrightarrow> digits1 (show_nat n @ c # s) = Some (show_nat n, c # s)"
  by (simp add: digits1_def)

lemma parseEventType_number [simp]: "parseEventType (Some (show_nat (event_number ev))) = ev"
  by (cases ev) (simp_all add: parseEventType_def event_number_def)

lemma strip_csi [simp]: "strip_prefix (csi []) (csi s) = Some s"
  by (simp add: csi_def)

lemma parseEventType_None [simp]: "parseEventType None = Press"
  by (simp add: parseEventType_def)

lemma digits1_one [simp]: "\<not> is_digit c \<Longrightarrow> digits1 (CHR ''1'' # c # s) = Some (''1'', c # s)"
  by (simp add: digits1_def is_digit_def)

lemma mod_value_show [simp]: "mod_value (Some (show_nat n)) = int n" "mod_value None = 1"
  by (simp_all add: mod_value_def)

lemma strip_one [simp]: "strip_prefix (csi ''1;'') (csi (CHR ''1'' # CHR '';'' # s)) = Some s"
  by (simp add: csi_def)

text \<open>The digits of the modifiers and of the event in a report.\<close>

definition modifier_digits :: "key_fields \<Rightarrow> string option" where
  "modifier_digits = map_option (\<lambda>(md, ev). show_nat (md + 1))"

definition event_digits :: "key_fields \<Rightarrow> string option" where
  "event_digits mods = Option.bind mods (\<lambda>(md, ev). map_option (\<lambda>e. show_nat (event_number e)) ev)"

lemma digits_read:
  "mod_value (modifier_digits mods) - 1 = (case mods of Some (n, _) \<Rightarrow> int n | None \<Rightarrow> 0)"
  "parseEventType (event_digits mods) = (case mods of Some (_, Some e) \<Rightarrow> e | _ \<Rightarrow> Press)"
  by (auto simp: modifier_digits_def event_digits_def split: option.split)

lemma fields_cases:
  obtains (no_mods) "mods = None" | (no_event) n where "mods = Some (n, None)" | (event) n e where "mods = Some (n, Some e)"
  by (metis not_Some_eq surj_pair)

lemmas field_defs = fields_text_def group_of_def alternates_def marked_digits_def marked_maybe_digits_def
  modifier_digits_def event_digits_def

lemma match_csi_u_report:
  assumes "\<not> is_digit c" "c \<noteq> CHR '';''" "c \<noteq> CHR '':''"
  shows "match_csi_u (csi (show_nat n @ alternates shifted base @ fields_text mods @ [c])) =
     (if c = CHR ''u''
      then Some \<lparr>m_codepoint = show_nat n,
        m_shifted = (case shifted of Some s \<Rightarrow> Some (show_nat s) | None \<Rightarrow> if base = None then None else Some []),
        m_base = map_option show_nat base, m_modifier = modifier_digits mods, m_event = event_digits mods\<rparr>
      else None)"
  using assms
  by (cases mods rule: fields_cases; cases shifted; cases base) (simp_all add: match_csi_u_def field_defs)

lemma match_csi_u_plain:
  assumes "\<not> is_digit c" "c \<noteq> CHR '';''" "c \<noteq> CHR '':''" "c \<noteq> CHR ''u''"
  shows "match_csi_u (csi (show_nat n @ fields_text mods @ [c])) = None"
  using match_csi_u_report [of c n None None mods] assms by (simp add: alternates_def group_of_def)

lemma match_modified_report:
  assumes "\<not> is_digit c" "c \<noteq> CHR '';''" "c \<noteq> CHR '':''" and "mods \<noteq> None"
  shows "match_modified finals (csi (''1'' @ fields_text mods @ [c])) =
     (if c \<in> set finals then Some (the (modifier_digits mods), event_digits mods, c) else None)"
  using assms by (cases mods rule: fields_cases) (simp_all add: match_modified_def field_defs)

lemma match_functional_report:
  assumes "\<not> is_digit c" "c \<noteq> CHR '';''" "c \<noteq> CHR '':''"
  shows "match_functional (csi (show_nat n @ fields_text mods @ [c])) =
     (if c = CHR ''~'' then Some (show_nat n, modifier_digits mods, event_digits mods) else None)"
  using assms by (cases mods rule: fields_cases) (simp_all add: match_functional_def field_defs)

lemma parse_letter_report:
  assumes k: "letter_of k = Some c" and mods: "mods \<noteq> None"
  shows "parseKittySequence (csi (''1'' @ fields_text mods @ [c])) = Some (reported (With_letter k) mods)"
proof -
  have c: "\<not> is_digit c" "c \<noteq> CHR '';''" "c \<noteq> CHR '':''" "c \<noteq> CHR ''u''" "c \<noteq> CHR ''~''"
    using k by (cases k; auto simp: letter_of_def is_digit_def)+
  have one: "show_nat (Suc 0) = ''1''" by code_simp
  let ?d = "csi (''1'' @ fields_text mods @ [c])"
  have "parse_csi_u ?d = None" "parse_functional ?d = None"
    using match_csi_u_plain [OF c(1-4), of 1 mods] match_functional_report [OF c(1-3), of 1 mods] c(5)
    by (simp_all add: parse_csi_u_def parse_functional_def one)
  moreover have "mod_value (Some (the (modifier_digits mods))) = mod_value (modifier_digits mods)"
    using mods by (auto simp: modifier_digits_def)
  then have "int (nat_of_digits (the (modifier_digits mods))) = mod_value (modifier_digits mods)" by (simp add: mod_value_def)
  moreover have "match_modified finals ?d = (if c \<in> set finals then Some (the (modifier_digits mods), event_digits mods, c) else None)"
    for finals by (rule match_modified_report [OF c(1-3) mods])
  moreover have "(k, c) \<in> set [(Up, CHR ''A''), (Down, CHR ''B''), (Right, CHR ''C''), (Left, CHR ''D''), (Home, CHR ''H''), (End, CHR ''F'')]"
    using map_of_SomeD [OF k [unfolded letter_of_def]] .
  ultimately show ?thesis
    using digits_read [of mods]
    by (auto simp: parseKittySequence_def parse_arrow_def parse_home_end_def arrow_codes_def reported_def
        simp del: append_Cons append_Nil)
qed

lemma tilde_digit: "tilde_of k = Some n \<Longrightarrow> \<exists>d. show_nat n = [d] \<and> d \<noteq> CHR ''1''"
  by (cases k) (simp_all add: tilde_of_def, code_simp+)

lemma parse_tilde_report:
  assumes k: "tilde_of k = Some n"
  shows "parseKittySequence (csi (show_nat n @ fields_text mods @ ''~'')) = Some (reported (With_tilde k) mods)"
proof -
  let ?d = "csi (show_nat n @ fields_text mods @ ''~'')"
  have "parse_csi_u ?d = None" using match_csi_u_plain [of "CHR ''~''" n mods] by (simp add: parse_csi_u_def)
  moreover have "parse_arrow ?d = None"
    using tilde_digit [OF k] by (auto simp: parse_arrow_def match_modified_def csi_def)
  ultimately show ?thesis
    using k digits_read [of mods]
    by (cases k)
       (simp_all add: tilde_of_def parseKittySequence_def parse_functional_def match_functional_report func_codes_def
         reported_def)
qed

text \<open>C31: Every report is read back: the key, its alternates, the modifiers and the event, in all four forms; where
  modifiers or the event are left out, there are none and the key was pressed. (An arrow, home or end without
  modifiers has no report of this protocol.)\<close>

theorem kitty_report_roundtrip:
  assumes "kitty_report form mods = Some data"
  shows "parseKittySequence data = Some (reported form mods)"
proof (cases form)
  case (Code_point cp shifted base)
  then have d: "data = csi (show_nat cp @ alternates shifted base @ fields_text mods @ ''u'')"
    using assms by (simp add: kitty_report_def)
  show ?thesis unfolding d Code_point reported_def
    by (cases shifted; cases base) (simp_all add: parseKittySequence_def parse_csi_u_def match_csi_u_report digits_read)
next
  case (With_letter k)
  obtain c where c: "letter_of k = Some c" "mods \<noteq> None" and d: "data = csi (''1'' @ fields_text mods @ [c])"
    using assms With_letter by (auto simp: kitty_report_def split: if_splits)
  show ?thesis unfolding d With_letter by (rule parse_letter_report [OF c])
next
  case (With_tilde k)
  then obtain n where n: "tilde_of k = Some n" and d: "data = csi (show_nat n @ fields_text mods @ ''~'')"
    using assms by (auto simp: kitty_report_def)
  show ?thesis unfolding d With_tilde by (rule parse_tilde_report [OF n])
qed

theorem kitty_report_roundtrip_witness:
  "kitty_report (With_letter Up) (Some (4, Some Release)) = Some (csi ''1;5:3A'')
   \<and> parseKittySequence (csi ''1;5:3A'') = Some (plain_kitty (key_codepoint Up) 4 Release)"
proof -
  have r: "kitty_report (With_letter Up) (Some (4, Some Release)) = Some (csi ''1;5:3A'')" by code_simp
  show ?thesis using r kitty_report_roundtrip [OF r] by (simp add: reported_def)
qed

section \<open>Matching does not depend on more of the terminal than it should\<close>

definition mode_of :: "bool \<Rightarrow> bool \<Rightarrow> terminal_mode" where
  "mode_of kitty windows =
     \<lparr>kittyProtocolActive = kitty, environment = (\<lambda>v. if windows \<and> v = ''WT_SESSION'' then Some ''1'' else None)\<rparr>"

lemma mode_of_simps [simp]: "kittyProtocolActive (mode_of a b) = a" "isWindowsTerminalSession (mode_of a b) = b"
  by (auto simp: mode_of_def isWindowsTerminalSession_def env_set_def)

text \<open>What the matching of one key reads of the terminal: the protocol, and for the backspace what kind of
  session it is.\<close>

definition same_mode :: "string \<Rightarrow> terminal_mode \<Rightarrow> terminal_mode \<Rightarrow> bool" where
  "same_mode data m m' \<longleftrightarrow>
     kittyProtocolActive m = kittyProtocolActive m' \<and> (data = [CHR 0x08] \<longrightarrow> isWindowsTerminalSession m = isWindowsTerminalSession m')"

lemma matchesRawBackspace_mode: "same_mode d m m' \<Longrightarrow> matchesRawBackspace m d md = matchesRawBackspace m' d md"
  unfolding matchesRawBackspace_def same_mode_def by auto

lemma matches_parts_mode:
  assumes "same_mode d m m'"
  shows "matches_space m d md = matches_space m' d md"
    and "matches_enter m d md = matches_enter m' d md"
    and "matches_backspace m d md = matches_backspace m' d md"
    and "matches_horizontal m d n k f u l md = matches_horizontal m' d n k f u l md"
    and "matches_character m d c md = matches_character m' d c md"
proof -
  have k: "kittyProtocolActive m = kittyProtocolActive m'" using assms by (simp add: same_mode_def)
  show "matches_space m d md = matches_space m' d md" unfolding matches_space_def k by (rule refl)
  show "matches_enter m d md = matches_enter m' d md" unfolding matches_enter_def k by (rule refl)
  show "matches_backspace m d md = matches_backspace m' d md"
    unfolding matches_backspace_def matchesRawBackspace_mode [OF assms] by (rule refl)
  show "matches_horizontal m d n k f u l md = matches_horizontal m' d n k f u l md" unfolding matches_horizontal_def k by (rule refl)
  show "matches_character m d c md = matches_character m' d c md" unfolding matches_character_def k by (rule refl)
qed

lemma matchesKey_mode:
  assumes "same_mode d m m'"
  shows "matchesKey m d k = matchesKey m' d k"
  unfolding matchesKey_def matches_named_def matches_parts_mode [OF assms] by (rule refl)

lemma same_mode_of: "same_mode d m (mode_of (kittyProtocolActive m) (isWindowsTerminalSession m))"
  by (simp add: same_mode_def)

lemma same_mode_plain: "d \<noteq> [CHR 0x08] \<Longrightarrow> same_mode d m (mode_of (kittyProtocolActive m) False)"
  by (simp add: same_mode_def)

section \<open>A named key matches its name: legacy input\<close>

definition single_names :: "(string \<times> string) list" where
  "single_names =
     [([esc], ''escape''), ([CHR 0x1C], ''ctrl+'' @ [CHR 0x5C]), ([CHR 0x1D], ''ctrl+]''), ([CHR 0x1F], ''ctrl+-''),
      ([CHR 0x09], ''tab''), ([cr], ''enter''), (ss3 (CHR ''M''), ''enter''), ('' '', ''space''),
      ([CHR 0x7F], ''backspace''), (csi ''Z'', ''shift+tab''), ([esc, CHR 0x7F], ''alt+backspace''),
      ([esc, CHR 0x08], ''alt+backspace''), (csi ''A'', ''up''), (csi ''B'', ''down''), (csi ''C'', ''right''),
      (csi ''D'', ''left''), (csi ''H'', ''home''), (ss3 (CHR ''H''), ''home''), (csi ''F'', ''end''),
      (ss3 (CHR ''F''), ''end''), (csi ''3~'', ''delete''), (csi ''5~'', ''pageUp''), (csi ''6~'', ''pageDown'')]"

definition plain_mode_names :: "(string \<times> string) list" where
  "plain_mode_names =
     [([esc, esc], ''ctrl+alt+[''), ([esc, CHR 0x1C], ''ctrl+alt+'' @ [CHR 0x5C]), ([esc, CHR 0x1D], ''ctrl+alt+]''),
      ([esc, CHR 0x1F], ''ctrl+alt+-''), ([nl], ''enter''), ([CHR 0x00], ''ctrl+space''), ([esc, cr], ''alt+enter''),
      (esc # '' '', ''alt+space''), (esc # ''B'', ''alt+left''), (esc # ''F'', ''alt+right'')]"

definition matches_all :: "terminal_mode \<Rightarrow> (string \<times> string) list \<Rightarrow> bool" where
  "matches_all m = list_all (\<lambda>(d, k). matchesKey m d k)"

lemma matches_allD: "matches_all m ps \<Longrightarrow> (d, k) \<in> set ps \<Longrightarrow> matchesKey m d k"
  by (auto simp: matches_all_def list_all_iff)

lemma table_matches: "matches_all (mode_of False False) LEGACY_SEQUENCE_KEY_IDS" by code_simp
lemma table_matches_kitty: "matches_all (mode_of True False) LEGACY_SEQUENCE_KEY_IDS" by code_simp
lemma single_matches: "matches_all (mode_of False False) single_names" by code_simp
lemma single_matches_kitty: "matches_all (mode_of True False) single_names" by code_simp
lemma plain_matches: "matches_all (mode_of False False) plain_mode_names" by code_simp
lemma kitty_mapped: "matches_all (mode_of True False) [([esc, cr], ''shift+enter''), ([nl], ''shift+enter'')]" by code_simp

lemma windows_backspace: "matchesKey (mode_of a True) [CHR 0x08] ''ctrl+backspace''" "matchesKey (mode_of a False) [CHR 0x08] ''backspace''"
  by (cases a; code_simp)+

text \<open>Names of single characters, plain and with modifiers.\<close>

lemma lower_char_id: "\<not> (65 \<le> ascii c \<and> ascii c \<le> 90) \<Longrightarrow> lower_char c = c"
  by (auto simp: lower_char_def ascii_def Let_def)

lemma to_lower_word [simp]: "to_lower ''ctrl'' = ''ctrl''" "to_lower ''alt'' = ''alt''"
  by code_simp+

lemma to_lower_append: "to_lower (a @ b) = to_lower a @ to_lower b"
  by (simp add: to_lower_def)

lemma parseKeyId_parts:
  assumes "to_lower keyId = join_with ''+'' (mods @ [key])" and "list_all (\<lambda>p. CHR ''+'' \<notin> set p) (mods @ [key])" and "key \<noteq> []"
  shows "parseKeyId keyId =
    Some \<lparr>key_name = key, key_ctrl = (''ctrl'' \<in> set (mods @ [key])), key_shift = (''shift'' \<in> set (mods @ [key])),
      key_alt = (''alt'' \<in> set (mods @ [key])), key_super = (''super'' \<in> set (mods @ [key]))\<rparr>"
proof -
  have "split_on (CHR ''+'') (to_lower keyId) = mods @ [key]"
    unfolding assms(1) using assms(2) by (intro split_on_join) (auto simp: list_all_iff)
  then show ?thesis using assms(3) by (simp add: parseKeyId_def)
qed

lemma parseKeyId_char:
  assumes "c \<noteq> CHR ''+''" and "\<not> (65 \<le> ascii c \<and> ascii c \<le> 90)"
  shows "parseKeyId [c] = Some \<lparr>key_name = [c], key_ctrl = False, key_shift = False, key_alt = False, key_super = False\<rparr>"
    and "parseKeyId (''ctrl+'' @ [c]) = Some \<lparr>key_name = [c], key_ctrl = True, key_shift = False, key_alt = False, key_super = False\<rparr>"
    and "parseKeyId (''alt+'' @ [c]) = Some \<lparr>key_name = [c], key_ctrl = False, key_shift = False, key_alt = True, key_super = False\<rparr>"
    and "parseKeyId (''ctrl+alt+'' @ [c]) = Some \<lparr>key_name = [c], key_ctrl = True, key_shift = False, key_alt = True, key_super = False\<rparr>"
proof -
  have low: "to_lower ''ctrl+'' = ''ctrl+''" "to_lower ''alt+'' = ''alt+''" "to_lower ''ctrl+alt+'' = ''ctrl+alt+''" by code_simp+
  have c: "to_lower [c] = [c]" using lower_char_id [OF assms(2)] by (simp add: to_lower_def)
  show "parseKeyId [c] = Some \<lparr>key_name = [c], key_ctrl = False, key_shift = False, key_alt = False, key_super = False\<rparr>"
    using parseKeyId_parts [of "[c]" "[]" "[c]"] c assms(1) by simp
  show "parseKeyId (''ctrl+'' @ [c]) = Some \<lparr>key_name = [c], key_ctrl = True, key_shift = False, key_alt = False, key_super = False\<rparr>"
    using parseKeyId_parts [of "''ctrl+'' @ [c]" "[''ctrl'']" "[c]"] assms(1) unfolding to_lower_append low c by simp
  show "parseKeyId (''alt+'' @ [c]) = Some \<lparr>key_name = [c], key_ctrl = False, key_shift = False, key_alt = True, key_super = False\<rparr>"
    using parseKeyId_parts [of "''alt+'' @ [c]" "[''alt'']" "[c]"] assms(1) unfolding to_lower_append low c by simp
  show "parseKeyId (''ctrl+alt+'' @ [c]) = Some \<lparr>key_name = [c], key_ctrl = True, key_shift = False, key_alt = True, key_super = False\<rparr>"
    using parseKeyId_parts [of "''ctrl+alt+'' @ [c]" "[''ctrl'', ''alt'']" "[c]"] assms(1) unfolding to_lower_append low c by simp
qed

lemma matches_named_char:
  "matches_named m data [c] md \<longleftrightarrow> (is_letter_key c \<or> is_digit c \<or> c \<in> set SYMBOL_KEYS) \<and> matches_character m data c md"
  by (simp add: matches_named_def function_keys_def)

lemma key_modifier_simps [simp]:
  "key_modifier \<lparr>key_name = n, key_ctrl = False, key_shift = False, key_alt = False, key_super = False\<rparr> = 0"
  "key_modifier \<lparr>key_name = n, key_ctrl = True, key_shift = False, key_alt = False, key_super = False\<rparr> = mod_ctrl"
  "key_modifier \<lparr>key_name = n, key_ctrl = False, key_shift = False, key_alt = True, key_super = False\<rparr> = mod_alt"
  "key_modifier \<lparr>key_name = n, key_ctrl = True, key_shift = False, key_alt = True, key_super = False\<rparr> = mod_ctrl + mod_alt"
  by (simp_all add: key_modifier_def)

lemmas mod_defs = mod_shift_def mod_alt_def mod_ctrl_def mod_super_def

text \<open>The printable characters that are keys.\<close>

lemma symbol_codes: "map ascii SYMBOL_KEYS = [96, 45, 61, 91, 93, 92, 59, 39, 44, 46, 47, 33, 64, 35, 36, 37, 94, 38, 42, 40, 41, 95, 43, 124, 126, 123, 125, 58, 60, 62, 63]"
  by code_simp

lemma printable_is_key:
  assumes "32 \<le> ascii c" and "ascii c \<le> 126" and "c \<noteq> CHR '' ''" and "c \<noteq> CHR 0x22" and "\<not> (65 \<le> ascii c \<and> ascii c \<le> 90)"
  shows "is_letter_key c \<or> is_digit c \<or> c \<in> set SYMBOL_KEYS"
proof -
  have codes: "list_all (\<lambda>n :: nat. n = 32 \<or> n = 34 \<or> (65 \<le> n \<and> n \<le> 90) \<or> (97 \<le> n \<and> n \<le> 122) \<or> (48 \<le> n \<and> n \<le> 57)
      \<or> n \<in> set [96, 45, 61, 91, 93, 92, 59, 39, 44, 46, 47, 33, 64, 35, 36, 37, 94, 38, 42, 40, 41, 95, 43, 124, 126, 123, 125, 58, 60, 62, 63])
      [32..<127]"
    by code_simp
  have c: "char_of (ascii c) = c" by (simp add: ascii_def)
  have "char_of (32 :: nat) = CHR '' ''" "char_of (34 :: nat) = CHR 0x22" by code_simp+
  then have "ascii c \<noteq> 32" "ascii c \<noteq> 34" using c assms(3,4) by metis+
  moreover have "ascii c \<in> set [32..<127]" unfolding set_upt atLeastLessThan_iff using assms(1,2) by linarith
  ultimately have "(97 \<le> ascii c \<and> ascii c \<le> 122) \<or> (48 \<le> ascii c \<and> ascii c \<le> 57) \<or> ascii c \<in> set (map ascii SYMBOL_KEYS)"
    using codes assms(5) unfolding list_all_iff symbol_codes by blast
  moreover have "inj ascii" by (rule injI) (simp add: ascii_def)
  ultimately show ?thesis unfolding is_letter_key_def is_digit_def ascii_def by (auto dest: injD)
qed

lemma plain_char_matches:
  assumes "32 \<le> ascii c" and "ascii c \<le> 126" and "c \<noteq> CHR '' ''" and "c \<noteq> CHR 0x22" and "c \<noteq> CHR ''+''"
    and "\<not> (65 \<le> ascii c \<and> ascii c \<le> 90)"
  shows "matchesKey m [c] [c]"
  using parseKeyId_char(1) [OF assms(5,6)] printable_is_key [OF assms(1-4,6)]
  by (simp add: matchesKey_def matches_named_char matches_character_def mod_defs)

lemma letter_facts:
  fixes n :: nat
  assumes "1 \<le> n" and "n \<le> 26"
  shows "is_letter_key (char_of (n + 96))" and "char_of (n + 96) \<noteq> CHR ''+''"
    and "\<not> (65 \<le> ascii (char_of (n + 96)) \<and> ascii (char_of (n + 96)) \<le> 90)"
    and "rawCtrlChar (char_of (n + 96)) = Some (char_of n)"
proof -
  have a: "ascii (char_of (n + 96)) = n + 96" using assms by (simp add: ascii_def)
  then show l: "is_letter_key (char_of (n + 96))" using assms by (simp add: is_letter_key_def)
  show "char_of (n + 96) \<noteq> CHR ''+''"
  proof
    assume "char_of (n + 96) = CHR ''+''"
    then have "ascii (char_of (n + 96)) = ascii (CHR ''+'')" by (rule arg_cong)
    then show False unfolding a by (simp add: ascii_def)
  qed
  show u: "\<not> (65 \<le> ascii (char_of (n + 96)) \<and> ascii (char_of (n + 96)) \<le> 90)" using a assms by simp
  have "(n + 32 * 3) mod 32 = n mod 32" by (rule mod_mult_self2)
  then have "(n + 96) mod 32 = n" using assms by simp
  then show "rawCtrlChar (char_of (n + 96)) = Some (char_of n)"
    unfolding rawCtrlChar_def lower_char_id [OF u] Let_def a by (simp only: l simp_thms if_True)
qed

lemma ctrl_char_matches:
  assumes "1 \<le> ascii c" and "ascii c \<le> 26"
  shows "matchesKey m [c] (''ctrl+'' @ [char_of (ascii c + 96)])"
    and "\<not> kittyProtocolActive m \<Longrightarrow> matchesKey m [esc, c] (''ctrl+alt+'' @ [char_of (ascii c + 96)])"
proof -
  note l = letter_facts [OF assms]
  have c: "char_of (ascii c) = c" by (simp add: ascii_def)
  show "matchesKey m [c] (''ctrl+'' @ [char_of (ascii c + 96)])"
    unfolding matchesKey_def parseKeyId_char(2) [OF l(2,3)] using l(1,4) c
    by (simp add: matches_named_char matches_character_def mod_defs)
  show "matchesKey m [esc, c] (''ctrl+alt+'' @ [char_of (ascii c + 96)])" if "\<not> kittyProtocolActive m"
    unfolding matchesKey_def parseKeyId_char(4) [OF l(2,3)] using l(1,4) c that
    by (simp add: matches_named_char matches_character_def mod_defs)
qed

lemma alt_char_matches:
  assumes "97 \<le> ascii c \<and> ascii c \<le> 122 \<or> 48 \<le> ascii c \<and> ascii c \<le> 57" and "\<not> kittyProtocolActive m"
  shows "matchesKey m [esc, c] (''alt+'' @ [c])"
proof -
  have "c \<noteq> CHR ''+''" "\<not> (65 \<le> ascii c \<and> ascii c \<le> 90)" "is_letter_key c \<or> is_digit c"
    using assms(1) by (auto simp: ascii_def is_letter_key_def is_digit_def)
  then show ?thesis unfolding matchesKey_def parseKeyId_char(3) [OF \<open>c \<noteq> CHR ''+''\<close> \<open>\<not> (65 \<le> ascii c \<and> ascii c \<le> 90)\<close>]
    using assms(2) by (auto simp: matches_named_char matches_character_def mod_defs)
qed

text \<open>The legacy inputs whose name is not matched: two characters that are no key names, the capital letters, and
  with the Kitty protocol five control sequences.\<close>

definition unmatched_legacy :: "terminal_mode \<Rightarrow> string \<Rightarrow> bool" where
  "unmatched_legacy m data \<longleftrightarrow>
     data = [CHR 0x22] \<or> data = ''+'' \<or> (length data = 1 \<and> 65 \<le> ascii (hd data) \<and> ascii (hd data) \<le> 90)
     \<or> kittyProtocolActive m
       \<and> (data = [CHR 0x00] \<or> data = [esc, esc] \<or> data = [esc, CHR 0x1C] \<or> data = [esc, CHR 0x1D] \<or> data = [esc, CHR 0x1F])"

lemma single_name:
  assumes "(data, k) \<in> set single_names"
  shows "matchesKey m data k"
proof -
  have "[CHR 0x08] \<notin> fst ` set single_names" by code_simp
  then have "data \<noteq> [CHR 0x08]" using assms by force
  from matchesKey_mode [OF same_mode_plain [OF this]]
  have "matchesKey m data k = matchesKey (mode_of (kittyProtocolActive m) False) data k" .
  with matches_allD [OF single_matches assms] matches_allD [OF single_matches_kitty assms] show ?thesis
    by (cases "kittyProtocolActive m") simp_all
qed

lemma plain_mode_name:
  assumes "(data, k) \<in> set plain_mode_names" and "\<not> kittyProtocolActive m"
  shows "matchesKey m data k"
proof -
  have "[CHR 0x08] \<notin> fst ` set plain_mode_names" by code_simp
  then have "data \<noteq> [CHR 0x08]" using assms by force
  from matchesKey_mode [OF same_mode_plain [OF this], of m k] assms(2) matches_allD [OF plain_matches assms(1)] show ?thesis by simp
qed

lemma table_name:
  assumes "map_of LEGACY_SEQUENCE_KEY_IDS data = Some k"
  shows "matchesKey m data k"
proof -
  have mem: "(data, k) \<in> set LEGACY_SEQUENCE_KEY_IDS" using assms by (rule map_of_SomeD)
  have "[CHR 0x08] \<notin> fst ` set LEGACY_SEQUENCE_KEY_IDS" by code_simp
  then have "data \<noteq> [CHR 0x08]" using mem by force
  from matchesKey_mode [OF same_mode_plain [OF this]]
  have "matchesKey m data k = matchesKey (mode_of (kittyProtocolActive m) False) data k" .
  with matches_allD [OF table_matches mem] matches_allD [OF table_matches_kitty mem] show ?thesis
    by (cases "kittyProtocolActive m") simp_all
qed

lemma backspace_name:
  "matchesKey m [CHR 0x08] (if isWindowsTerminalSession m then ''ctrl+backspace'' else ''backspace'')"
  unfolding matchesKey_mode [OF same_mode_of [of "[CHR 0x08]" m]]
  by (cases "isWindowsTerminalSession m") (simp_all add: windows_backspace)

lemma if_SomeE:
  assumes "(if b then Some x else r) = Some k"
  obtains "b" and "k = x" | "r = Some k"
  using assms by (cases b) auto

lemma raw_key_named:
  assumes "parse_raw_key m data = Some k" and "\<not> unmatched_legacy m data"
  shows "(data, k) \<in> set single_names \<or> (\<not> kittyProtocolActive m \<and> (data, k) \<in> set plain_mode_names)
    \<or> data = [CHR 0x08] \<and> k = (if isWindowsTerminalSession m then ''ctrl+backspace'' else ''backspace'')"
  using assms unfolding parse_raw_key_def unmatched_legacy_def
  by (elim if_SomeE disjE conjE; simp add: single_names_def plain_mode_names_def)

lemma alt_key_matches:
  assumes "parse_alt_key m data = Some k"
  shows "matchesKey m data k"
proof -
  have data: "data = [esc, data ! 1]" and kitty: "\<not> kittyProtocolActive m"
    using assms by (auto simp: parse_alt_key_def numeral_2_eq_2 length_Suc_conv split: if_splits)
  define c where "c = data ! 1"
  have d: "data = [esc, c]" using data by (simp add: c_def)
  from assms have "1 \<le> ascii c \<and> ascii c \<le> 26 \<and> k = ''ctrl+alt+'' @ [char_of (ascii c + 96)]
    \<or> (97 \<le> ascii c \<and> ascii c \<le> 122 \<or> 48 \<le> ascii c \<and> ascii c \<le> 57) \<and> k = ''alt+'' @ [c]"
    using kitty unfolding d parse_alt_key_def by (auto simp: Let_def ascii_def split: if_splits)
  then show ?thesis unfolding d using ctrl_char_matches(2) alt_char_matches kitty by blast
qed

lemma parse_raw_space: "parse_raw_key m '' '' = Some ''space''"
  by (simp add: parse_raw_key_def csi_def ss3_def)

lemma plain_key_matches:
  assumes "parse_plain_key data = Some k" and "parse_raw_key m data = None" and "\<not> unmatched_legacy m data"
  shows "matchesKey m data k"
proof -
  from assms(1) have "(data, k) \<in> set single_names \<or> length data = 1 \<and> (1 \<le> ascii (hd data) \<and> ascii (hd data) \<le> 26
      \<and> k = ''ctrl+'' @ [char_of (ascii (hd data) + 96)] \<or> 32 \<le> ascii (hd data) \<and> ascii (hd data) \<le> 126 \<and> k = data)"
    unfolding parse_plain_key_def
    by (elim if_SomeE disjE conjE; simp add: single_names_def Let_def split: if_splits)
  then consider "(data, k) \<in> set single_names"
    | c where "data = [c]" "1 \<le> ascii c" "ascii c \<le> 26" "k = ''ctrl+'' @ [char_of (ascii c + 96)]"
    | c where "data = [c]" "32 \<le> ascii c" "ascii c \<le> 126" "k = data"
    by (auto simp: length_Suc_conv)
  then show ?thesis
  proof cases
    case 1
    then show ?thesis by (rule single_name)
  next
    case 2
    show ?thesis unfolding 2(1,4) by (rule ctrl_char_matches(1) [OF 2(2,3)])
  next
    case 3
    then have "c \<noteq> CHR '' ''" using assms(2) parse_raw_space [of m] by auto
    moreover have "c \<noteq> CHR 0x22" "c \<noteq> CHR ''+''" "\<not> (65 \<le> ascii c \<and> ascii c \<le> 90)"
      using assms(3) 3(1) by (auto simp: unmatched_legacy_def)
    ultimately show ?thesis using plain_char_matches 3 by simp
  qed
qed

text \<open>C23: The name that \<open>parseKey\<close> gives to a legacy input is a name that \<open>matchesKey\<close> accepts
  the input for, unless the input is a plus sign, a double quote or a capital letter, or, while the Kitty protocol
  is active, one of the five control inputs listed above.\<close>

theorem legacy_name_matches:
  assumes "parseKittySequence data = None" and "parseModifyOtherKeysSequence data = None"
    and "parseKey m data = Some k" and "\<not> unmatched_legacy m data"
  shows "matchesKey m data k"
proof -
  from assms(1-3) have p: "parse_legacy_key m data = Some k" by (simp add: parseKey_def)
  show ?thesis
  proof (cases "kittyProtocolActive m \<and> (data = [esc, cr] \<or> data = [nl])")
    case True
    then have "k = ''shift+enter''" "data \<noteq> [CHR 0x08]" using p by (auto simp: parse_legacy_key_def)
    with matchesKey_mode [OF same_mode_plain, of data m k] True kitty_mapped show ?thesis by (auto simp: matches_all_def)
  next
    case False
    then have "map_of LEGACY_SEQUENCE_KEY_IDS data = Some k \<or> parse_raw_key m data = Some k \<or> parse_alt_key m data = Some k
      \<or> parse_raw_key m data = None \<and> parse_plain_key data = Some k"
      using p by (auto simp: parse_legacy_key_def first_some_def split: option.splits)
    then show ?thesis
      using table_name raw_key_named [OF _ assms(4)] single_name plain_mode_name backspace_name alt_key_matches
        plain_key_matches [OF _ _ assms(4)] by blast
  qed
qed

theorem legacy_name_matches_witness:
  "matchesKey (mode_of False False) [esc, CHR ''b''] ''alt+left''"
proof (rule legacy_name_matches)
  show "parseKittySequence [esc, CHR ''b''] = None" by code_simp
  show "parseModifyOtherKeysSequence [esc, CHR ''b''] = None" by code_simp
  show "parseKey (mode_of False False) [esc, CHR ''b''] = Some ''alt+left''" by code_simp
  show "\<not> unmatched_legacy (mode_of False False) [esc, CHR ''b'']" by code_simp
qed

section \<open>A named key matches its name: Kitty reports\<close>

lemma without_locks_range:
  assumes "without_locks md AND NOT 15 = 0"
  shows "0 \<le> without_locks md \<and> without_locks md \<le> 15"
proof -
  have "without_locks md = without_locks md AND 15"
  proof -
    have "without_locks md = without_locks md AND (15 OR NOT 15)" by simp
    also have "\<dots> = without_locks md AND 15 OR without_locks md AND NOT 15" by (rule bit.conj_disj_distrib)
    finally show ?thesis using assms by simp
  qed
  moreover have "0 \<le> without_locks md AND 15" by simp
  moreover have "without_locks md AND 15 \<le> 15" by (simp add: AND_upper2)
  ultimately show ?thesis by linarith
qed

lemma without_locks_small: "0 \<le> e \<Longrightarrow> e \<le> 15 \<Longrightarrow> without_locks e = e"
proof -
  assume e: "0 \<le> e" "e \<le> 15"
  then have "nat e < 16" "e = int (nat e)" by simp_all
  then have "nat e \<in> set [0..<16]" unfolding set_upt by simp
  with \<open>e = int (nat e)\<close> have "e \<in> set (map int [0..<16])" by (metis image_eqI set_map)
  moreover have "list_all (\<lambda>e. without_locks e = e) (map int [0..<16])" by code_simp
  ultimately show ?thesis unfolding list_all_iff by blast
qed

lemma csi_u_range: "parse_csi_u data = Some p \<Longrightarrow> 0 \<le> codepoint p \<and> (\<forall>b. baseLayoutKey p = Some b \<longrightarrow> 0 \<le> b)"
  by (auto simp: parse_csi_u_def)

lemma single_final:
  "(case r of [d] \<Rightarrow> if d \<in> S then Some (a, b, d) else None | _ \<Rightarrow> None) = Some (x, y, c) \<Longrightarrow> c \<in> S"
  by (cases r; cases "tl r") (auto split: if_splits)

lemma match_modified_final: "match_modified finals data = Some (md, ev, c) \<Longrightarrow> c \<in> set finals"
  unfolding match_modified_def by (auto simp: bind_eq_Some_conv dest!: single_final simp del: list.case)

lemma arrow_range: "parse_arrow data = Some p \<Longrightarrow> -16 < codepoint p \<and> baseLayoutKey p = None"
  by (auto simp: parse_arrow_def plain_kitty_def arrow_codes_def dest!: match_modified_final)

lemma functional_range: "parse_functional data = Some p \<Longrightarrow> -16 < codepoint p \<and> baseLayoutKey p = None"
  by (auto simp: parse_functional_def plain_kitty_def func_codes_def bind_eq_Some_conv split: if_splits)

lemma home_end_range: "parse_home_end data = Some p \<Longrightarrow> -16 < codepoint p \<and> baseLayoutKey p = None"
  by (auto simp: parse_home_end_def plain_kitty_def)

lemma codepoint_range: "parseKittySequence data = Some p \<Longrightarrow> -16 < codepoint p \<and> (\<forall>b. baseLayoutKey p = Some b \<longrightarrow> 0 \<le> b)"
  unfolding parseKittySequence_def
  by (auto split: option.splits dest: csi_u_range arrow_range functional_range home_end_range)

definition modifier_words :: "int \<Rightarrow> string list" where
  "modifier_words e = (if e AND mod_shift \<noteq> 0 then [''shift''] else []) @ (if e AND mod_ctrl \<noteq> 0 then [''ctrl''] else [])
     @ (if e AND mod_alt \<noteq> 0 then [''alt''] else []) @ (if e AND mod_super \<noteq> 0 then [''super''] else [])"

lemma modifier_words_facts:
  assumes "0 \<le> e" and "e \<le> 15"
  shows "(if ''shift'' \<in> set (modifier_words e) then mod_shift else 0) + (if ''alt'' \<in> set (modifier_words e) then mod_alt else 0)
      + (if ''ctrl'' \<in> set (modifier_words e) then mod_ctrl else 0) + (if ''super'' \<in> set (modifier_words e) then mod_super else 0) = e"
    and "list_all (\<lambda>p. CHR ''+'' \<notin> set p \<and> to_lower p = p) (modifier_words e)"
proof -
  from assms have "nat e < 16" "e = int (nat e)" by simp_all
  then have "nat e \<in> set [0..<16]" unfolding set_upt by simp
  with \<open>e = int (nat e)\<close> have e: "e \<in> set (map int [0..<16])" by (metis image_eqI set_map)
  have "list_all (\<lambda>e. (if ''shift'' \<in> set (modifier_words e) then mod_shift else 0) + (if ''alt'' \<in> set (modifier_words e) then mod_alt else 0)
      + (if ''ctrl'' \<in> set (modifier_words e) then mod_ctrl else 0) + (if ''super'' \<in> set (modifier_words e) then mod_super else 0) = e)
    (map int [0..<16])" by code_simp
  with e show "(if ''shift'' \<in> set (modifier_words e) then mod_shift else 0) + (if ''alt'' \<in> set (modifier_words e) then mod_alt else 0)
      + (if ''ctrl'' \<in> set (modifier_words e) then mod_ctrl else 0) + (if ''super'' \<in> set (modifier_words e) then mod_super else 0) = e"
    unfolding list_all_iff by blast
  have "to_lower ''shift'' = ''shift''" "to_lower ''super'' = ''super''" by code_simp+
  then show "list_all (\<lambda>p. CHR ''+'' \<notin> set p \<and> to_lower p = p) (modifier_words e)"
    by (simp add: modifier_words_def)
qed

definition proper_name :: "string \<Rightarrow> bool" where
  "proper_name n \<longleftrightarrow> n \<noteq> [] \<and> CHR ''+'' \<notin> set n \<and> n \<noteq> ''ctrl'' \<and> n \<noteq> ''shift'' \<and> n \<noteq> ''alt'' \<and> n \<noteq> ''super''"

lemma to_lower_join: "to_lower (join_with ''+'' ps) = join_with ''+'' (map to_lower ps)"
proof (induction ps rule: induct_list012)
  case (3 x y zs)
  have "lower_char (CHR ''+'') = CHR ''+''" by code_simp
  with 3 show ?case by (simp add: to_lower_def)
qed (simp_all add: to_lower_def)

text \<open>A name with its modifiers is read as what it was made of.\<close>

lemma parse_formatted:
  assumes "formatKeyNameWithModifiers name md = Some k" and "proper_name (to_lower name)"
  shows "\<exists>p. parseKeyId k = Some p \<and> key_name p = to_lower name \<and> key_modifier p = without_locks md"
    and "0 \<le> without_locks md \<and> without_locks md \<le> 15"
proof -
  let ?e = "without_locks md" and ?mods = "modifier_words (without_locks md)"
  have "mod_shift OR mod_ctrl OR mod_alt OR mod_super = 15" by code_simp
  then have "?e AND NOT 15 = 0" using assms(1) by (simp add: formatKeyNameWithModifiers_def Let_def split: if_splits)
  then show range: "0 \<le> ?e \<and> ?e \<le> 15" by (rule without_locks_range)
  have "k = (if ?mods \<noteq> [] then join_with ''+'' ?mods @ ''+'' @ name else name)"
    using assms(1) by (auto simp: formatKeyNameWithModifiers_def Let_def modifier_words_def split: if_splits)
  then have k: "k = join_with ''+'' (?mods @ [name])" using join_with_append [of ?mods "[name]" "''+''"] by auto
  note words = modifier_words_facts [OF range [THEN conjunct1] range [THEN conjunct2]]
  have "map to_lower ?mods = ?mods" using words(2) by (induction ?mods) (auto simp: list_all_iff map_idI)
  then have "to_lower k = join_with ''+'' (?mods @ [to_lower name])" unfolding k to_lower_join by simp
  moreover have "list_all (\<lambda>p. CHR ''+'' \<notin> set p) (?mods @ [to_lower name])"
    using words(2) assms(2) by (auto simp: list_all_iff proper_name_def)
  ultimately have "parseKeyId k = Some \<lparr>key_name = to_lower name, key_ctrl = (''ctrl'' \<in> set (?mods @ [to_lower name])),
      key_shift = (''shift'' \<in> set (?mods @ [to_lower name])), key_alt = (''alt'' \<in> set (?mods @ [to_lower name])),
      key_super = (''super'' \<in> set (?mods @ [to_lower name]))\<rparr>"
    using assms(2) by (intro parseKeyId_parts) (auto simp: proper_name_def)
  then show "\<exists>p. parseKeyId k = Some p \<and> key_name p = to_lower name \<and> key_modifier p = ?e"
    using words(1) assms(2) unfolding key_modifier_def proper_name_def by auto
qed

lemma matches_character_kitty: "matchesKittySequence data (int (ascii c)) md \<Longrightarrow> matches_character m data c md"
  unfolding matches_character_def Let_def mod_defs
  by (cases "md = 4"; cases "md = 5"; cases "md = 1"; cases "md = 0"; simp)

lemma ascii_char_of [simp]: "n < 256 \<Longrightarrow> ascii (char_of n) = n"
  by (simp add: ascii_def)

lemma special_name_matches_char:
  assumes "c \<noteq> CHR ''+''" and "\<not> (65 \<le> ascii c \<and> ascii c \<le> 90)" and "is_letter_key c \<or> is_digit c \<or> c \<in> set SYMBOL_KEYS"
    and "matchesKittySequence data (int (ascii c)) e"
  shows "matches_named m data (to_lower [c]) e \<and> proper_name (to_lower [c])"
  using assms lower_char_id [OF assms(2)] matches_character_kitty
  by (auto simp: to_lower_def matches_named_char proper_name_def)

lemma to_lower_names:
  "to_lower ''escape'' = ''escape''" "to_lower ''tab'' = ''tab''" "to_lower ''enter'' = ''enter''" "to_lower ''space'' = ''space''"
  "to_lower ''backspace'' = ''backspace''" "to_lower ''delete'' = ''delete''" "to_lower ''insert'' = ''insert''"
  "to_lower ''home'' = ''home''" "to_lower ''end'' = ''end''" "to_lower ''pageUp'' = ''pageup''" "to_lower ''pageDown'' = ''pagedown''"
  "to_lower ''up'' = ''up''" "to_lower ''down'' = ''down''" "to_lower ''left'' = ''left''" "to_lower ''right'' = ''right''"
  by code_simp+

lemma matches_special_kitty:
  "matchesKittySequence data 27 e \<Longrightarrow> e = 0 \<Longrightarrow> matches_named m data ''escape'' e"
  "matchesKittySequence data 9 e \<Longrightarrow> matches_named m data ''tab'' e"
  "matchesKittySequence data 13 e \<or> matchesKittySequence data 57414 e \<Longrightarrow> matches_named m data ''enter'' e"
  "matchesKittySequence data 32 e \<Longrightarrow> matches_named m data ''space'' e"
  "matchesKittySequence data 127 e \<Longrightarrow> matches_named m data ''backspace'' e"
  "matchesKittySequence data (-10) e \<Longrightarrow> matches_named m data ''delete'' e"
  "matchesKittySequence data (-11) e \<Longrightarrow> matches_named m data ''insert'' e"
  "matchesKittySequence data (-14) e \<Longrightarrow> matches_named m data ''home'' e"
  "matchesKittySequence data (-15) e \<Longrightarrow> matches_named m data ''end'' e"
  "matchesKittySequence data (-12) e \<Longrightarrow> matches_named m data ''pageup'' e"
  "matchesKittySequence data (-13) e \<Longrightarrow> matches_named m data ''pagedown'' e"
  "matchesKittySequence data (-1) e \<Longrightarrow> matches_named m data ''up'' e"
  "matchesKittySequence data (-2) e \<Longrightarrow> matches_named m data ''down'' e"
  "matchesKittySequence data (-4) e \<Longrightarrow> matches_named m data ''left'' e"
  "matchesKittySequence data (-3) e \<Longrightarrow> matches_named m data ''right'' e"
  by (auto simp: matches_named_def matches_escape_def matches_tab_def matches_enter_def matches_enter_sequence_def
      matches_space_def matches_backspace_def matches_functional_def matches_vertical_def matches_horizontal_def
      matches_coded_def mod_defs)

lemma symbol_char:
  assumes "is_symbol_code cp" and "0 \<le> cp" and "cp < 65536" and "cp \<noteq> 43"
  shows "\<exists>c. char_of (nat (char_code cp)) = c \<and> int (ascii c) = cp \<and> c \<noteq> CHR ''+'' \<and> \<not> (65 \<le> ascii c \<and> ascii c \<le> 90) \<and> c \<in> set SYMBOL_KEYS"
proof -
  have cp: "char_code cp = cp" using assms(2,3) by (simp add: char_code_def)
  then obtain c where c: "c \<in> set SYMBOL_KEYS" "int (ascii c) = cp" using assms(1) by (auto simp: is_symbol_code_def)
  have "list_all (\<lambda>c. \<not> (65 \<le> ascii c \<and> ascii c \<le> 90)) SYMBOL_KEYS" by code_simp
  then have upper: "\<not> (65 \<le> ascii c \<and> ascii c \<le> 90)" using c(1) by (simp add: list_all_iff)
  have "nat cp = ascii c" using c(2) by simp
  then have "char_of (nat (char_code cp)) = c" unfolding cp by (simp add: ascii_def)
  moreover note upper
  moreover have "c \<noteq> CHR ''+''" using c(2) assms(4) by (auto simp: ascii_def)
  ultimately show ?thesis using c by blast
qed

lemma code_char:
  assumes "0 \<le> cp" and "cp < 256"
  shows "int (ascii (char_of (nat cp))) = cp" and "char_of (nat cp) = CHR ''+'' \<Longrightarrow> cp = 43"
proof -
  show a: "int (ascii (char_of (nat cp))) = cp" using assms by (simp add: ascii_def nat_mod_distrib [symmetric])
  show "cp = 43" if "char_of (nat cp) = CHR ''+''" using a unfolding that by (simp add: ascii_def)
qed

lemma special_name_matches:
  assumes "special_name cp = Some name" and "-16 < cp" and "cp < 65536" and "cp \<noteq> 43" and "cp = 27 \<longrightarrow> e = 0"
    and "matchesKittySequence data cp e"
  shows "matches_named m data (to_lower name) e \<and> proper_name (to_lower name)"
  using assms(1) unfolding special_name_def
proof (elim if_SomeE disjE conjE)
  assume cp: "48 \<le> cp" "cp \<le> 57" "name = [char_of (nat cp)]"
  then show ?thesis unfolding cp(3) using code_char [of cp] assms(6)
    by (intro special_name_matches_char) (auto simp: is_digit_def ascii_def)
next
  assume cp: "97 \<le> cp" "cp \<le> 122" "name = [char_of (nat cp)]"
  then show ?thesis unfolding cp(3) using code_char [of cp] assms(6)
    by (intro special_name_matches_char) (auto simp: is_letter_key_def)
next
  assume sym: "is_symbol_code cp" "name = [char_of (nat (char_code cp))]"
  have "0 \<le> cp"
  proof (rule ccontr)
    assume "\<not> 0 \<le> cp"
    then have "cp mod 65536 = cp + 65536" using assms(2) by (intro int_mod_pos_eq [of _ _ "-1"]) auto
    with sym(1) assms(2) show False by (auto simp: is_symbol_code_def char_code_def SYMBOL_KEYS_def ascii_def)
  qed
  from symbol_char [OF sym(1) this assms(3,4)] sym(2) special_name_matches_char assms(6) show ?thesis by metis
qed (use assms(5,6) in \<open>simp_all add: to_lower_names matches_special_kitty proper_name_def\<close>)

text \<open>Normalising twice changes nothing, and the range of code points is kept.\<close>

lemma functional_equivalents:
  "map_of KITTY_FUNCTIONAL_KEY_EQUIVALENTS c = Some d \<Longrightarrow> -16 < d \<and> d < 65536 \<and> d < 65 \<and> map_of KITTY_FUNCTIONAL_KEY_EQUIVALENTS d = None"
proof -
  assume "map_of KITTY_FUNCTIONAL_KEY_EQUIVALENTS c = Some d"
  then have "(c, d) \<in> set KITTY_FUNCTIONAL_KEY_EQUIVALENTS" by (rule map_of_SomeD)
  moreover have "list_all (\<lambda>(c, d). -16 < d \<and> d < 65536 \<and> d < 65 \<and> map_of KITTY_FUNCTIONAL_KEY_EQUIVALENTS d = None) KITTY_FUNCTIONAL_KEY_EQUIVALENTS"
    by code_simp
  ultimately show ?thesis by (auto simp: list_all_iff)
qed

lemma functional_equivalents_low: "0 \<le> c \<Longrightarrow> c < 256 \<Longrightarrow> map_of KITTY_FUNCTIONAL_KEY_EQUIVALENTS c = None"
  by (simp add: KITTY_FUNCTIONAL_KEY_EQUIVALENTS_def)

lemma normalized_idem:
  assumes "without_locks e = without_locks md"
  shows "normalized_codepoint (normalized_codepoint c md) e = normalized_codepoint c md"
proof -
  define n where "n = normalizeKittyFunctionalCodepoint c"
  have n: "normalizeKittyFunctionalCodepoint n = n"
    unfolding n_def normalizeKittyFunctionalCodepoint_def by (auto dest: functional_equivalents split: option.splits)
  show ?thesis
  proof (cases "without_locks md AND mod_shift \<noteq> 0 \<and> 65 \<le> n \<and> n \<le> 90")
    case True
    then have "normalizeKittyFunctionalCodepoint (n + 32) = n + 32"
      by (simp add: normalizeKittyFunctionalCodepoint_def functional_equivalents_low)
    with True show ?thesis
      by (simp add: normalized_codepoint_def normalizeShiftedLetterIdentityCodepoint_def n_def [symmetric])
  next
    case False
    with n assms show ?thesis
      unfolding normalized_codepoint_def normalizeShiftedLetterIdentityCodepoint_def n_def [symmetric] by auto
  qed
qed

lemma normalized_range: "-16 < c \<Longrightarrow> c < 65536 \<Longrightarrow> -16 < normalized_codepoint c md \<and> normalized_codepoint c md < 65536"
  unfolding normalized_codepoint_def normalizeShiftedLetterIdentityCodepoint_def normalizeKittyFunctionalCodepoint_def
  by (auto dest: functional_equivalents split: option.splits)

text \<open>The name that is given to a Kitty report is a name the input matches. Escape with modifiers and the plus key
  have no name that matches, and code points beyond 16 bits may be confused with symbols.\<close>

theorem kitty_name_matches:
  assumes "parseKittySequence data = Some p" and "parseKey m data = Some k"
    and "codepoint p < 65536" and "\<And>b. baseLayoutKey p = Some b \<Longrightarrow> b < 65536"
    and "effective_codepoint (codepoint p) (modifier p) (baseLayoutKey p) \<noteq> 43"
    and "effective_codepoint (codepoint p) (modifier p) (baseLayoutKey p) = 27 \<Longrightarrow> without_locks (modifier p) = 0"
  shows "matchesKey m data k"
proof -
  let ?md = "modifier p" and ?e = "without_locks (modifier p)"
  let ?eff = "effective_codepoint (codepoint p) ?md (baseLayoutKey p)"
  let ?id = "normalized_codepoint (codepoint p) ?md"
  from assms(1,2) obtain name where name: "special_name ?eff = Some name" "formatKeyNameWithModifiers name ?md = Some k"
    by (auto simp: parseKey_def formatParsedKey_def split: option.splits)
  have range: "-16 < ?eff" "?eff < 65536"
    using codepoint_range [OF assms(1)] normalized_range [of "codepoint p" ?md] assms(3,4)
    by (auto simp: effective_codepoint_def Let_def split: option.splits dest!: spec)
  have "?e AND NOT 15 = 0"
  proof -
    have "mod_shift OR mod_ctrl OR mod_alt OR mod_super = 15" by code_simp
    then show ?thesis using name(2) by (simp add: formatKeyNameWithModifiers_def Let_def split: if_splits)
  qed
  then have e: "without_locks ?e = ?e" using without_locks_range without_locks_small by blast
  have "?eff = ?id \<or> baseLayoutKey p = Some ?eff \<and> \<not> (97 \<le> ?id \<and> ?id \<le> 122) \<and> \<not> is_symbol_code ?id"
    by (auto simp: effective_codepoint_def Let_def split: option.splits)
  then have "matchesKittySequence data ?eff ?e"
    using assms(1) e normalized_idem [OF e, of "codepoint p"] by (auto simp: matchesKittySequence_def Let_def)
  from special_name_matches [OF name(1) range assms(5) _ this, of m] assms(6)
  have m: "matches_named m data (to_lower name) ?e" "proper_name (to_lower name)" by auto
  from parse_formatted(1) [OF name(2) m(2)] m(1) show ?thesis by (auto simp: matchesKey_def)
qed

theorem kitty_name_matches_witness:
  "matchesKey (mode_of True False) (csi ''1089::99;5u'') ''ctrl+c''"
proof -
  have p: "parseKittySequence (csi ''1089::99;5u'') =
      Some \<lparr>codepoint = 1089, shiftedKey = None, baseLayoutKey = Some 99, modifier = 4, eventType = Press\<rparr>" by code_simp
  have "parseKey (mode_of True False) (csi ''1089::99;5u'') = Some ''ctrl+c''" by code_simp
  moreover have "effective_codepoint 1089 4 (Some 99) = 99" by code_simp
  ultimately show ?thesis using kitty_name_matches [OF p] by simp
qed

text \<open>A home key sent as \<open>ESC [ 1 ~\<close> matches \<open>home\<close> and is given no name.\<close>

theorem home_has_no_name:
  "matchesKey m (csi ''1~'') ''home'' \<and> parseKey m (csi ''1~'') = None"
proof -
  have "matchesKey (mode_of False False) (csi ''1~'') ''home''" "matchesKey (mode_of True False) (csi ''1~'') ''home''"
    "parseKey (mode_of False False) (csi ''1~'') = None" "parseKey (mode_of True False) (csi ''1~'') = None" by code_simp+
  moreover have "csi ''1~'' \<noteq> [CHR 0x08]" by (simp add: csi_def)
  note matchesKey_mode [OF same_mode_plain [OF this], of m "''home''"]
  moreover have "parseKey m (csi ''1~'') = parseKey (mode_of (kittyProtocolActive m) False) (csi ''1~'')"
    unfolding parseKey_def parse_legacy_key_def parse_raw_key_def parse_alt_key_def by (simp add: csi_def)
  ultimately show ?thesis by (cases "kittyProtocolActive m") auto
qed

section \<open>Printable input and bindings\<close>

text \<open>A sequence that ends in \<open>u\<close> is none of the legacy sequences.\<close>

definition no_u_sequence :: "(string \<times> string list) list \<Rightarrow> bool" where
  "no_u_sequence table = list_all (\<lambda>(k, ss). list_all (\<lambda>d. last d \<noteq> CHR ''u'') ss) table"

lemma no_u_tables: "no_u_sequence LEGACY_KEY_SEQUENCES" "no_u_sequence LEGACY_SHIFT_SEQUENCES" "no_u_sequence LEGACY_CTRL_SEQUENCES"
  by code_simp+

lemma not_legacy: "no_u_sequence table \<Longrightarrow> last data = CHR ''u'' \<Longrightarrow> \<not> matchesLegacySequence data (sequences_of table key)"
  by (cases "map_of table key")
     (fastforce simp: no_u_sequence_def list_all_iff matchesLegacySequence_def sequences_of_def dest: map_of_SomeD)+


lemma dropWhile_suffix: "\<exists>a. s = a @ dropWhile P s"
  by (metis takeWhile_dropWhile_id)

lemma digits1_suffix: "digits1 s = Some (d, r) \<Longrightarrow> \<exists>a. s = a @ r"
  using dropWhile_suffix [of s is_digit] by (auto simp: digits1_def split: if_splits)

lemma marked_suffix: "marked_digits c s = Some (d, r) \<Longrightarrow> \<exists>a. s = a @ r"
  by (cases s) (auto simp: marked_digits_def split: if_splits option.splits dest!: digits1_suffix)

lemma marked_maybe_suffix: "marked_maybe_digits c s = (d, r) \<Longrightarrow> \<exists>a. s = a @ r"
proof (cases s)
  case (Cons x t)
  assume m: "marked_maybe_digits c s = (d, r)"
  obtain a where "t = a @ dropWhile is_digit t" using dropWhile_suffix by blast
  then have "s = (x # a) @ dropWhile is_digit t" using Cons by simp
  moreover have "r = dropWhile is_digit t \<or> r = s" using m Cons by (auto simp: marked_maybe_digits_def split: if_splits)
  ultimately show ?thesis by (metis append_Nil)
qed (auto simp: marked_maybe_digits_def)

lemma csi_u_shape:
  assumes "parse_csi_u data = Some p"
  obtains d s where "data = esc # CHR ''['' # d # s" and "is_digit d" and "s \<noteq> []" and "last s = CHR ''u''"
proof -
  from assms obtain r where "match_csi_u data = Some r" by (auto simp: parse_csi_u_def)
  then obtain s where s1: "strip_prefix (csi []) data = Some s"
    and "Option.bind (digits1 s) (\<lambda>(cp, r1).
       (let (shifted, r2) = marked_maybe_digits (CHR '':'') r1 in
        Option.bind (if shifted = None then Some (None, r2) else marked_digits (CHR '':'') r2) (\<lambda>(base, r3).
        Option.bind (marked_digits (CHR '';'') r3) (\<lambda>(md, r4).
        Option.bind (marked_digits (CHR '':'') r4) (\<lambda>(ev, r5).
          if r5 = ''u''
          then Some \<lparr>m_codepoint = cp, m_shifted = shifted, m_base = base, m_modifier = md, m_event = ev\<rparr>
          else None))))) = Some r"
    unfolding match_csi_u_def bind_eq_Some_conv by blast
  then obtain cp r1 where s2: "digits1 s = Some (cp, r1)"
    and "(let (shifted, r2) = marked_maybe_digits (CHR '':'') r1 in
        Option.bind (if shifted = None then Some (None, r2) else marked_digits (CHR '':'') r2) (\<lambda>(base, r3).
        Option.bind (marked_digits (CHR '';'') r3) (\<lambda>(md, r4).
        Option.bind (marked_digits (CHR '':'') r4) (\<lambda>(ev, r5).
          if r5 = ''u''
          then Some \<lparr>m_codepoint = cp, m_shifted = shifted, m_base = base, m_modifier = md, m_event = ev\<rparr>
          else None)))) = Some r"
    unfolding bind_eq_Some_conv by (auto simp del: Let_def)
  moreover obtain shifted r2 where s3: "marked_maybe_digits (CHR '':'') r1 = (shifted, r2)" by fastforce
  ultimately obtain base r3 md r4 ev where
    b: "(if shifted = None then Some (None, r2) else marked_digits (CHR '':'') r2) = Some (base, r3)"
    and e: "marked_digits (CHR '';'') r3 = Some (md, r4)" "marked_digits (CHR '':'') r4 = Some (ev, ''u'')"
    by (auto simp: bind_eq_Some_conv split: if_split_asm)
  note s = s1 s2 s3
  from s(2) obtain d ds where d: "s = d # ds" "is_digit d" by (cases s) (auto simp: digits1_def split: if_splits)
  have "\<exists>a. r2 = a @ r3" using b marked_suffix by (auto split: if_splits)
  then obtain a where a: "s = a @ ''u''"
    using digits1_suffix [OF s(2)] marked_maybe_suffix [OF s(3)] marked_suffix [OF e(1)] marked_suffix [OF e(2)] by auto
  have "data = csi s" using s(1) by (simp add: strip_prefix_Some csi_def)
  moreover have "ds \<noteq> []" "last ds = CHR ''u''"
  proof -
    have "CHR ''u'' \<noteq> d" using d(2) by auto
    then show "ds \<noteq> []" using a d(1) by (cases a) auto
    then show "last ds = CHR ''u''" using arg_cong [OF a, of last] d(1) by simp
  qed
  ultimately show thesis using d that by (simp add: csi_def)
qed

lemma csi_u_not_modify_other:
  assumes "parse_csi_u data = Some p"
  shows "parseModifyOtherKeysSequence data = None"
proof (rule ccontr)
  assume "parseModifyOtherKeysSequence data \<noteq> None"
  then obtain s md r1 r2 cp where
    s: "strip_prefix (csi ''27;'') data = Some s" "digits1 s = Some (md, r1)" "strip_prefix '';'' r1 = Some r2" "digits1 r2 = Some (cp, ''~'')"
    by (auto simp: parseModifyOtherKeysSequence_def bind_eq_Some_conv split: if_splits)
  then obtain a where "data = a @ ''~''"
    using digits1_suffix [OF s(2)] digits1_suffix [OF s(4)] by (auto simp: strip_prefix_Some)
  moreover from csi_u_shape [OF assms] have "last data = CHR ''u''" by (metis last_ConsR list.distinct(1))
  ultimately show False by simp
qed

lemma decode_modifier:
  assumes "decodeKittyPrintable data = Some c"
  obtains p where "parse_csi_u data = Some p" and "without_locks (modifier p) = 0 \<or> without_locks (modifier p) = 1"
proof -
  from assms obtain p where p: "parse_csi_u data = Some p" "to_int32 (modifier p) AND NOT KITTY_PRINTABLE_ALLOWED_MODIFIERS = 0"
    by (auto simp: decodeKittyPrintable_def split: option.splits if_splits)
  let ?x = "to_int32 (modifier p)"
  have n: "NOT LOCK_MASK = NOT KITTY_PRINTABLE_ALLOWED_MODIFIERS OR 1" by code_simp
  have "?x AND NOT LOCK_MASK = (?x AND NOT KITTY_PRINTABLE_ALLOWED_MODIFIERS) OR (?x AND 1)"
    unfolding n by (rule bit.conj_disj_distrib)
  then have "without_locks (modifier p) = ?x AND 1" using p(2) by (simp add: without_locks_def)
  moreover have "?x AND 1 = 0 \<or> ?x AND 1 = 1" by (simp add: and_one_eq) presburger
  ultimately show thesis using that p(1) by simp
qed

text \<open>C28: A Kitty report that stands for a printable character, which is inserted as text, is never an input for a
  key with control, alt or super: typing does not run commands.\<close>

theorem printable_never_bound:
  assumes "decodeKittyPrintable data = Some c" and "parseKeyId keyId = Some k" and "key_ctrl k \<or> key_alt k \<or> key_super k"
  shows "\<not> matchesKey m data keyId"
proof -
  obtain p where p: "parse_csi_u data = Some p" "without_locks (modifier p) = 0 \<or> without_locks (modifier p) = 1"
    by (rule decode_modifier [OF assms(1)])
  obtain d s where shape: "data = esc # CHR ''['' # d # s" "is_digit d" "s \<noteq> []" "last s = CHR ''u''" by (rule csi_u_shape [OF p(1)])
  let ?md = "key_modifier k"
  have md: "2 \<le> ?md" "?md \<le> 15" using assms(3) by (auto simp: key_modifier_def mod_defs)
  then have "without_locks ?md = ?md" by (simp add: without_locks_small)
  then have kitty: "\<not> matchesKittySequence data cp ?md" for cp
    using p md(1) by (auto simp: matchesKittySequence_def parseKittySequence_def)
  have other: "\<not> matchesModifyOtherKeys data cp md" "\<not> matchesPrintableModifyOtherKeys data cp md" for cp md
    using csi_u_not_modify_other [OF p(1)] by (simp_all add: matchesModifyOtherKeys_def matchesPrintableModifyOtherKeys_def)
  have last: "last data = CHR ''u''" using shape by simp
  note legacy = not_legacy [OF no_u_tables(1) last] not_legacy [OF no_u_tables(2) last] not_legacy [OF no_u_tables(3) last]
  have literals: "data \<noteq> [x]" "data \<noteq> [x, y]" "data \<noteq> ss3 x" "data \<noteq> csi [x]" "data \<noteq> csi (''1;3'' @ ''D'')"
    "data \<noteq> csi (''1;5'' @ ''D'')" "data \<noteq> csi (''1;3'' @ ''C'')" "data \<noteq> csi (''1;5'' @ ''C'')" for x y
    using shape by (auto simp: csi_def ss3_def)
  have nonzero: "?md \<noteq> 0" "?md \<noteq> mod_shift" using md by (simp_all add: mod_shift_def)
  have parts: "\<not> matches_escape data ?md" "\<not> matches_space m data ?md" "\<not> matches_tab data ?md" "\<not> matches_enter m data ?md"
    "\<not> matches_backspace m data ?md" "\<not> matches_functional data n sk ?md" "\<not> matches_clear data ?md"
    "\<not> matches_vertical data n sk a ?md" "\<not> matches_function_key data n ?md" "\<not> matches_character m data x ?md" for n sk a x
    unfolding matches_escape_def matches_space_def matches_tab_def matches_enter_def matches_enter_sequence_def
      matches_backspace_def matches_functional_def matches_clear_def matches_vertical_def matches_function_key_def
      matches_character_def matchesLegacyModifierSequence_def matches_coded_def matchesRawBackspace_def Let_def
    using kitty other legacy literals nonzero by (auto split: option.splits)
  have hor: "\<not> matches_horizontal m data n sk (CHR ''D'') a b ?md" "\<not> matches_horizontal m data n sk (CHR ''C'') a b ?md" for n sk a b
    unfolding matches_horizontal_def matchesLegacyModifierSequence_def
    using kitty other legacy literals nonzero parts(6) by auto
  show ?thesis using assms(2) parts hor
    by (simp add: matchesKey_def matches_named_def split: list.split)
qed

theorem printable_never_bound_witness:
  "\<not> matchesKey (mode_of True False) (csi ''99:67;2u'') ''ctrl+c''"
proof -
  have "decodeKittyPrintable (csi ''99:67;2u'') = Some 67" by code_simp
  moreover have "parseKeyId ''ctrl+c'' = Some \<lparr>key_name = ''c'', key_ctrl = True, key_shift = False, key_alt = False, key_super = False\<rparr>"
    by code_simp
  ultimately show ?thesis by (rule printable_never_bound) simp
qed

end
