(* ===== verification/Keybindings.thy ===== *)
theory Keybindings
  imports Keys Js_Map
begin

text \<open>
  Key bindings (\<open>packages/tui/src/keybindings.ts\<close>): a table of commands with default keys, the user's own
  keys, which replace the defaults of a command, and the conflicts between the user's keys.
\<close>

section \<open>Tables\<close>

datatype key_list = One_key string | Many_keys "string list"

record keybinding_definition =
  defaultKeys :: key_list
  description :: "string option"

definition bound :: "key_list \<Rightarrow> string \<Rightarrow> keybinding_definition" where
  "bound keys d = \<lparr>defaultKeys = keys, description = Some d\<rparr>"

definition TUI_KEYBINDINGS :: "(string, keybinding_definition) jsmap" where
  "TUI_KEYBINDINGS =
     [(''tui.editor.cursorUp'', bound (One_key ''up'') ''Move cursor up''),
      (''tui.editor.cursorDown'', bound (One_key ''down'') ''Move cursor down''),
      (''tui.editor.cursorLeft'', bound (Many_keys [''left'', ''ctrl+b'']) ''Move cursor left''),
      (''tui.editor.cursorRight'', bound (Many_keys [''right'', ''ctrl+f'']) ''Move cursor right''),
      (''tui.editor.cursorWordLeft'', bound (Many_keys [''alt+left'', ''ctrl+left'', ''alt+b'']) ''Move cursor word left''),
      (''tui.editor.cursorWordRight'', bound (Many_keys [''alt+right'', ''ctrl+right'', ''alt+f'']) ''Move cursor word right''),
      (''tui.editor.cursorLineStart'', bound (Many_keys [''home'', ''ctrl+a'']) ''Move to line start''),
      (''tui.editor.cursorLineEnd'', bound (Many_keys [''end'', ''ctrl+e'']) ''Move to line end''),
      (''tui.editor.jumpForward'', bound (One_key ''ctrl+]'') ''Jump forward to character''),
      (''tui.editor.jumpBackward'', bound (One_key ''ctrl+alt+]'') ''Jump backward to character''),
      (''tui.editor.pageUp'', bound (One_key ''pageUp'') ''Page up''),
      (''tui.editor.pageDown'', bound (One_key ''pageDown'') ''Page down''),
      (''tui.editor.deleteCharBackward'', bound (One_key ''backspace'') ''Delete character backward''),
      (''tui.editor.deleteCharForward'', bound (Many_keys [''delete'', ''ctrl+d'']) ''Delete character forward''),
      (''tui.editor.deleteWordBackward'', bound (Many_keys [''ctrl+w'', ''alt+backspace'']) ''Delete word backward''),
      (''tui.editor.deleteWordForward'', bound (Many_keys [''alt+d'', ''alt+delete'']) ''Delete word forward''),
      (''tui.editor.deleteToLineStart'', bound (One_key ''ctrl+u'') ''Delete to line start''),
      (''tui.editor.deleteToLineEnd'', bound (One_key ''ctrl+k'') ''Delete to line end''),
      (''tui.editor.yank'', bound (One_key ''ctrl+y'') ''Yank''),
      (''tui.editor.yankPop'', bound (One_key ''alt+y'') ''Yank pop''),
      (''tui.editor.undo'', bound (One_key ''ctrl+-'') ''Undo''),
      (''tui.input.newLine'', bound (Many_keys [''shift+enter'', ''ctrl+j'']) ''Insert newline''),
      (''tui.input.submit'', bound (One_key ''enter'') ''Submit input''),
      (''tui.input.tab'', bound (One_key ''tab'') ''Tab / autocomplete''),
      (''tui.input.copy'', bound (One_key ''ctrl+c'') ''Copy selection''),
      (''tui.select.up'', bound (One_key ''up'') ''Move selection up''),
      (''tui.select.down'', bound (One_key ''down'') ''Move selection down''),
      (''tui.select.pageUp'', bound (One_key ''pageUp'') ''Selection page up''),
      (''tui.select.pageDown'', bound (One_key ''pageDown'') ''Selection page down''),
      (''tui.select.confirm'', bound (One_key ''enter'') ''Confirm selection''),
      (''tui.select.cancel'', bound (Many_keys [''escape'', ''ctrl+c'']) ''Cancel selection'')]"

section \<open>The manager\<close>

text \<open>A key of the user's configuration may be present without a value.\<close>

type_synonym user_bindings = "(string, key_list option) jsmap"

record keybindings_manager =
  definitions :: "(string, keybinding_definition) jsmap"
  userBindings :: user_bindings
  keysById :: "(string, string list) jsmap"
  conflicts :: "(string \<times> string list) list"

definition add_once :: "'a \<Rightarrow> 'a list \<Rightarrow> 'a list" where
  "add_once x xs = (if x \<in> set xs then xs else xs @ [x])"

definition normalizeKeys :: "key_list option \<Rightarrow> string list" where
  "normalizeKeys keys =
     (case keys of
        None \<Rightarrow> []
      | Some (One_key k) \<Rightarrow> [k]
      | Some (Many_keys ks) \<Rightarrow> fold add_once ks [])"

definition claim_key :: "string \<Rightarrow> string \<Rightarrow> (string, string list) jsmap \<Rightarrow> (string, string list) jsmap" where
  "claim_key keybinding key claims =
     js_set key (add_once keybinding (case js_get claims key of Some c \<Rightarrow> c | None \<Rightarrow> [])) claims"

definition user_claims :: "(string, keybinding_definition) jsmap \<Rightarrow> user_bindings \<Rightarrow> (string, string list) jsmap" where
  "user_claims defs user =
     fold (\<lambda>(keybinding, keys) claims.
       if keybinding \<notin> set (js_keys defs) then claims
       else fold (claim_key keybinding) (normalizeKeys keys) claims) user []"

definition user_keys :: "user_bindings \<Rightarrow> string \<Rightarrow> key_list option" where
  "user_keys user i = (case js_get user i of Some (Some ks) \<Rightarrow> Some ks | _ \<Rightarrow> None)"

definition resolved_keys :: "user_bindings \<Rightarrow> string \<Rightarrow> keybinding_definition \<Rightarrow> string list" where
  "resolved_keys user i d =
     (case user_keys user i of None \<Rightarrow> normalizeKeys (Some (defaultKeys d)) | Some ks \<Rightarrow> normalizeKeys (Some ks))"

definition rebuild :: "keybindings_manager \<Rightarrow> keybindings_manager" where
  "rebuild m =
     m\<lparr>conflicts := filter (\<lambda>(key, ids). length ids > 1) (user_claims (definitions m) (userBindings m)),
       keysById := fold (\<lambda>(i, d). js_set i (resolved_keys (userBindings m) i d)) (definitions m) []\<rparr>"

definition new_keybindings_manager :: "(string, keybinding_definition) jsmap \<Rightarrow> user_bindings \<Rightarrow> keybindings_manager" where
  "new_keybindings_manager defs user = rebuild \<lparr>definitions = defs, userBindings = user, keysById = [], conflicts = []\<rparr>"

definition getKeys :: "keybindings_manager \<Rightarrow> string \<Rightarrow> string list" where
  "getKeys m keybinding = (case js_get (keysById m) keybinding of Some ks \<Rightarrow> ks | None \<Rightarrow> [])"

definition matches_binding :: "terminal_mode \<Rightarrow> keybindings_manager \<Rightarrow> string \<Rightarrow> string \<Rightarrow> bool" where
  "matches_binding mode m data keybinding = list_ex (matchesKey mode data) (getKeys m keybinding)"

definition setUserBindings :: "user_bindings \<Rightarrow> keybindings_manager \<Rightarrow> keybindings_manager" where
  "setUserBindings user m = rebuild (m\<lparr>userBindings := user\<rparr>)"

definition getResolvedBindings :: "keybindings_manager \<Rightarrow> user_bindings" where
  "getResolvedBindings m =
     fold (\<lambda>i. js_set i (case getKeys m i of [k] \<Rightarrow> Some (One_key k) | ks \<Rightarrow> Some (Many_keys ks)))
       (js_keys (definitions m)) []"

section \<open>What a command is bound to\<close>

lemma set_add_once [simp]: "set (add_once x xs) = insert x (set xs)"
  by (auto simp: add_once_def)

lemma distinct_add_once: "distinct xs \<Longrightarrow> distinct (add_once x xs)"
  by (simp add: add_once_def)

lemma set_fold_add_once: "set (fold add_once ks acc) = set ks \<union> set acc"
  by (induction ks arbitrary: acc) auto

lemma distinct_fold_add_once: "distinct acc \<Longrightarrow> distinct (fold add_once ks acc)"
  by (induction ks arbitrary: acc) (auto intro: distinct_add_once)

lemma fold_add_once_distinct: "distinct (acc @ ks) \<Longrightarrow> fold add_once ks acc = acc @ ks"
  by (induction ks arbitrary: acc) (auto simp: add_once_def)

lemma normalize_one: "normalizeKeys (Some (One_key k)) = [k]"
  by (simp add: normalizeKeys_def)

lemma normalize_many: "distinct ks \<Longrightarrow> normalizeKeys (Some (Many_keys ks)) = ks"
  using fold_add_once_distinct [of "[]" ks] by (simp add: normalizeKeys_def)

lemma distinct_normalizeKeys: "distinct (normalizeKeys ks)"
  by (auto simp: normalizeKeys_def distinct_fold_add_once split: option.splits key_list.splits)

lemma js_get_Cons: "js_get ((k, v) # m) j = (if j = k then Some v else js_get m j)"
  by (simp add: js_get_def)

lemma js_get_fold_set:
  "distinct (js_keys ps) \<Longrightarrow>
   js_get (fold (\<lambda>(i, d). js_set i (f i d)) ps acc) j = (case js_get ps j of Some d \<Rightarrow> Some (f j d) | None \<Rightarrow> js_get acc j)"
proof (induction ps arbitrary: acc)
  case (Cons p ps)
  obtain i d where p: "p = (i, d)" by fastforce
  have "js_get ps i = None" using Cons.prems p by (simp add: js_get_None)
  with Cons.IH [of "js_set i (f i d) acc"] Cons.prems show ?case
    by (auto simp: p js_get_Cons split: option.splits)
qed simp

lemma keysById_get:
  "js_map_ok (definitions m) \<Longrightarrow>
   js_get (keysById (rebuild m)) i = map_option (resolved_keys (userBindings m) i) (js_get (definitions m) i)"
  by (simp add: rebuild_def js_map_ok_def js_get_fold_set split: option.split)

lemma in_normalizeKeys:
  "k \<in> set (normalizeKeys (Some kl)) \<longleftrightarrow> (case kl of One_key k' \<Rightarrow> k = k' | Many_keys ks \<Rightarrow> k \<in> set ks)"
  by (cases kl) (simp_all add: normalizeKeys_def set_fold_add_once)

lemma user_keys_cases:
  "(case user_keys user i of Some ks \<Rightarrow> ks | None \<Rightarrow> d) = (case js_get user i of Some (Some ks) \<Rightarrow> ks | _ \<Rightarrow> d)"
  by (simp add: user_keys_def split: option.split)

text \<open>C30: A command reacts to the keys the user gave it, whatever its defaults are, and to its defaults when the user
  gave none; without a definition it reacts to nothing.\<close>

theorem binding_matches:
  assumes "js_map_ok defs"
  shows "matches_binding mode (new_keybindings_manager defs user) data i \<longleftrightarrow>
    (\<exists>d k. js_get defs i = Some d \<and> matchesKey mode data k
      \<and> (case (case js_get user i of Some (Some ks) \<Rightarrow> ks | _ \<Rightarrow> defaultKeys d) of
           One_key k' \<Rightarrow> k = k' | Many_keys ks \<Rightarrow> k \<in> set ks))"
proof -
  have "js_get (keysById (new_keybindings_manager defs user)) i = map_option (resolved_keys user i) (js_get defs i)"
    using keysById_get [of "\<lparr>definitions = defs, userBindings = user, keysById = [], conflicts = []\<rparr>" i] assms
    by (simp add: new_keybindings_manager_def)
  then have "matches_binding mode (new_keybindings_manager defs user) data i \<longleftrightarrow>
    (\<exists>d k. js_get defs i = Some d \<and> matchesKey mode data k
      \<and> k \<in> set (normalizeKeys (Some (case user_keys user i of Some ks \<Rightarrow> ks | None \<Rightarrow> defaultKeys d))))"
    by (cases "js_get defs i"; cases "user_keys user i")
       (auto simp: matches_binding_def getKeys_def list_ex_iff resolved_keys_def)
  then show ?thesis by (simp add: in_normalizeKeys user_keys_cases)
qed

lemma js_map_ok_TUI: "js_map_ok TUI_KEYBINDINGS"
  by code_simp

theorem binding_matches_witness:
  "matches_binding (mode_of False False) (new_keybindings_manager TUI_KEYBINDINGS [(''tui.editor.undo'', Some (One_key ''ctrl+z''))])
     [CHR 0x1A] ''tui.editor.undo''"
proof -
  have "matchesKey (mode_of False False) [CHR 0x1A] ''ctrl+z''" by code_simp
  moreover have "js_get TUI_KEYBINDINGS ''tui.editor.undo'' \<noteq> None" by code_simp
  ultimately show ?thesis
    unfolding binding_matches [OF js_map_ok_TUI] by (auto simp: js_get_Cons)
qed

section \<open>Conflicts\<close>

definition claims_key :: "(string, keybinding_definition) jsmap \<Rightarrow> user_bindings \<Rightarrow> string \<Rightarrow> string \<Rightarrow> bool" where
  "claims_key defs user key i \<longleftrightarrow> i \<in> set (js_keys defs) \<and> (\<exists>ks. (i, Some ks) \<in> set user \<and> key \<in> set (normalizeKeys (Some ks)))"

definition claimants :: "(string, string list) jsmap \<Rightarrow> string \<Rightarrow> string list" where
  "claimants claims key = (case js_get claims key of Some c \<Rightarrow> c | None \<Rightarrow> [])"

lemma claimants_claim: "claimants (claim_key i key claims) key' = (if key' = key then add_once i (claimants claims key) else claimants claims key')"
  by (simp add: claimants_def claim_key_def)

lemma claimants_fold: "set (claimants (fold (claim_key i) ks claims) key) = (if key \<in> set ks then {i} else {}) \<union> set (claimants claims key)"
  by (induction ks arbitrary: claims) (auto simp: claimants_claim)

lemma distinct_claimants: "distinct (claimants claims key) \<Longrightarrow> distinct (claimants (fold (claim_key i) ks claims) key)"
proof (induction ks arbitrary: claims)
  case (Cons a ks)
  have "distinct (claimants (claim_key i a claims) key)"
    using Cons.prems by (auto simp: claimants_claim distinct_add_once)
  from Cons.IH [OF this] show ?case by simp
qed simp

lemma ok_claims: "js_map_ok claims \<Longrightarrow> js_map_ok (fold (claim_key i) ks claims)"
  by (induction ks arbitrary: claims) (auto simp: claim_key_def js_map_ok_def js_keys_set)

lemma user_claims_invariant:
  fixes defs
  defines "step \<equiv> (\<lambda>(keybinding, keys) claims. if keybinding \<notin> set (js_keys defs) then claims
       else fold (claim_key keybinding) (normalizeKeys keys) claims)"
  shows "set (claimants (fold step user acc) key) = {i. claims_key defs user key i} \<union> set (claimants acc key)"
    and "js_map_ok acc \<Longrightarrow> distinct (claimants acc key) \<Longrightarrow> js_map_ok (fold step user acc) \<and> distinct (claimants (fold step user acc) key)"
proof (induction user arbitrary: acc)
  case (Cons u user)
  obtain i ks where u: "u = (i, ks)" by fastforce
  { case 1
    show ?case unfolding fold_Cons comp_def Cons.IH(1)
      by (auto simp: u step_def claims_key_def claimants_fold normalizeKeys_def split: option.splits) }
  { case 2
    then have "js_map_ok (step u acc)" "distinct (claimants (step u acc) key)"
      by (auto simp: u step_def intro: ok_claims distinct_claimants)
    from Cons.IH(2) [OF this] show ?case by simp }
qed (auto simp: claims_key_def)

text \<open>A conflict is a key that the user gave to more than one command, and it names all of them.\<close>

theorem conflicts_exact:
  "(\<exists>ids. (key, ids) \<in> set (conflicts (new_keybindings_manager defs user)) \<and> set ids = S)
     \<longleftrightarrow> S = {i. claims_key defs user key i} \<and> (\<exists>i j. i \<in> S \<and> j \<in> S \<and> i \<noteq> j)"
proof -
  let ?claims = "user_claims defs user"
  note inv = user_claims_invariant [where acc = "[]" and user = user and defs = defs and key = key, folded user_claims_def]
  have s: "set (claimants ?claims key) = {i. claims_key defs user key i}"
    using inv(1) by (simp add: claimants_def)
  have ok: "js_map_ok ?claims" "distinct (claimants ?claims key)"
    using inv(2) by (simp_all add: claimants_def js_map_ok_def)
  have conf: "conflicts (new_keybindings_manager defs user) = filter (\<lambda>(key, ids). length ids > 1) ?claims"
    by (simp add: new_keybindings_manager_def rebuild_def)
  have mem: "(key, ids) \<in> set ?claims \<longleftrightarrow> js_get ?claims key = Some ids" for ids
    using ok(1) by (simp add: js_get_def js_map_ok_def js_keys_def)
  have two: "length ids > 1 \<longleftrightarrow> (\<exists>i j. i \<in> set ids \<and> j \<in> set ids \<and> i \<noteq> j)" if "distinct ids" for ids :: "string list"
  proof -
    have "length ids = card (set ids)" using that by (simp add: distinct_card)
    then show ?thesis by (metis One_nat_def card_le_Suc0_iff_eq List.finite_set not_less)
  qed
  show ?thesis
  proof (cases "js_get ?claims key")
    case None
    then have "{i. claims_key defs user key i} = {}" using s by (simp add: claimants_def)
    with None show ?thesis unfolding conf by (auto simp: mem)
  next
    case (Some ids)
    then have "claimants ?claims key = ids" by (simp add: claimants_def)
    with s ok(2) two [of ids] Some show ?thesis unfolding conf by (auto simp: mem)
  qed
qed

section \<open>Writing the bindings back\<close>

lemma resolved_get:
  "js_get (getResolvedBindings m) i =
     (if i \<in> set (js_keys (definitions m)) then Some (case getKeys m i of [k] \<Rightarrow> Some (One_key k) | ks \<Rightarrow> Some (Many_keys ks)) else None)"
proof -
  have "js_get (fold (\<lambda>i. js_set i (f i)) js acc) j = (if j \<in> set js then Some (f j) else js_get acc j)"
    for f :: "string \<Rightarrow> key_list option" and "js" acc j
    by (induction "js" arbitrary: acc) auto
  then show ?thesis by (simp add: getResolvedBindings_def)
qed

text \<open>Saving the bindings in force as the user's bindings changes no command.\<close>

theorem resolved_bindings_roundtrip:
  assumes "js_map_ok defs" and "m = new_keybindings_manager defs user"
  shows "getKeys (setUserBindings (getResolvedBindings m) m) i = getKeys m i"
proof -
  have d: "definitions m = defs" by (simp add: assms(2) new_keybindings_manager_def rebuild_def)
  have k: "js_get (keysById m) i = map_option (resolved_keys user i) (js_get defs i)"
    using keysById_get [of "\<lparr>definitions = defs, userBindings = user, keysById = [], conflicts = []\<rparr>" i] assms
    by (simp add: new_keybindings_manager_def)
  have k': "js_get (keysById (setUserBindings (getResolvedBindings m) m)) i = map_option (resolved_keys (getResolvedBindings m) i) (js_get defs i)"
    using keysById_get [of "m\<lparr>userBindings := getResolvedBindings m\<rparr>" i] assms(1) d by (simp add: setUserBindings_def)
  show ?thesis
  proof (cases "js_get defs i")
    case None
    with k k' show ?thesis by (simp add: getKeys_def)
  next
    case (Some dd)
    then have i: "i \<in> set (js_keys (definitions m))" unfolding d by (metis js_get_None option.distinct(1))
    have g: "getKeys m i = resolved_keys user i dd" using k Some by (simp add: getKeys_def)
    then have "distinct (getKeys m i)" by (simp add: resolved_keys_def distinct_normalizeKeys split: option.split)
    then have "normalizeKeys (case getKeys m i of [k] \<Rightarrow> Some (One_key k) | ks \<Rightarrow> Some (Many_keys ks)) = getKeys m i"
      by (cases "getKeys m i"; cases "tl (getKeys m i)")
         (auto simp: normalize_many normalize_one)
    moreover have "user_keys (getResolvedBindings m) i = (case getKeys m i of [k] \<Rightarrow> Some (One_key k) | ks \<Rightarrow> Some (Many_keys ks))"
      using i by (auto simp: user_keys_def resolved_get split: list.split)
    ultimately have "resolved_keys (getResolvedBindings m) i dd = getKeys m i"
      by (auto simp: resolved_keys_def split: list.splits option.splits)
    with k' Some show ?thesis by (simp add: getKeys_def)
  qed
qed

theorem resolved_bindings_roundtrip_witness:
  "getKeys (setUserBindings (getResolvedBindings (new_keybindings_manager TUI_KEYBINDINGS [])) (new_keybindings_manager TUI_KEYBINDINGS []))
     ''tui.select.cancel'' = [''escape'', ''ctrl+c'']"
proof -
  have "getKeys (new_keybindings_manager TUI_KEYBINDINGS []) ''tui.select.cancel'' = [''escape'', ''ctrl+c'']" by code_simp
  then show ?thesis by (simp add: resolved_bindings_roundtrip [OF js_map_ok_TUI refl])
qed

end
