(* ===== verification/Line_Input.thy ===== *)
theory Line_Input
  imports Keybindings
begin

text \<open>
  The single-line input (\<open>packages/tui/src/components/input.ts\<close>) with its kill ring (\<open>kill-ring.ts\<close>), undo stack
  (\<open>undo-stack.ts\<close>) and movement by words (\<open>word-navigation.ts\<close>). The segmentation of text into graphemes and
  words is the run time's (\<open>Intl.Segmenter\<close>) and a parameter, as is the text of a code point. The cursor is an
  integer and slices have JavaScript's negative indices: nothing in the code keeps a cursor from becoming negative but its own care.
\<close>

section \<open>Slices with negative indices\<close>

definition slice_to :: "int \<Rightarrow> string \<Rightarrow> string" where
  "slice_to k s = take (js_index (length s) k) s"

definition slice_from :: "int \<Rightarrow> string \<Rightarrow> string" where
  "slice_from k s = drop (js_index (length s) k) s"

definition slice_range :: "int \<Rightarrow> int \<Rightarrow> string \<Rightarrow> string" where
  "slice_range a b s = js_slice a b s"

section \<open>Kill ring and undo stack\<close>

definition kill_push :: "string \<Rightarrow> bool \<Rightarrow> bool \<Rightarrow> string list \<Rightarrow> string list" where
  "kill_push t prepend accumulate ring =
     (if t = [] then ring
      else if accumulate \<and> ring \<noteq> [] then butlast ring @ [if prepend then t @ last ring else last ring @ t]
      else ring @ [t])"

definition kill_peek :: "string list \<Rightarrow> string option" where
  "kill_peek ring = (if ring \<noteq> [] then Some (last ring) else None)"

definition kill_rotate :: "string list \<Rightarrow> string list" where
  "kill_rotate ring = (if length ring > 1 then last ring # butlast ring else ring)"

definition undo_push :: "'s \<Rightarrow> 's list \<Rightarrow> 's list" where
  "undo_push snapshot stack = stack @ [snapshot]"

definition undo_pop :: "'s list \<Rightarrow> 's option \<times> 's list" where
  "undo_pop stack = (if stack = [] then (None, []) else (Some (last stack), butlast stack))"

section \<open>Words\<close>

text \<open>The run time's segmentation, with the flag of a segment that is like a word.\<close>

record segmenter =
  graphemes :: "string \<Rightarrow> string list"
  words :: "string \<Rightarrow> (string \<times> bool) list"

definition isWhitespaceChar :: "string \<Rightarrow> bool" where
  "isWhitespaceChar t = list_ex is_space t"

definition PUNCTUATION :: string where
  "PUNCTUATION = ''(){}[]<>.,;:'' @ [CHR 0x27, CHR 0x22] @ ''!?+-=*/'' @ [CHR 0x5C] @ ''|&%^$#@~`''"

definition isPunctuationChar :: "string \<Rightarrow> bool" where
  "isPunctuationChar t = list_ex (\<lambda>c. c \<in> set PUNCTUATION) t"

type_synonym segments = "(string \<times> bool) list"

fun skip_segments :: "((string \<times> bool) \<Rightarrow> bool) \<Rightarrow> segments \<Rightarrow> segments \<times> nat" where
  "skip_segments P [] = ([], 0)"
| "skip_segments P (x # xs) = (if P x then (let (r, n) = skip_segments P xs in (r, length (fst x) + n)) else (x # xs, 0))"

definition is_blank :: "(string \<Rightarrow> bool) \<Rightarrow> string \<times> bool \<Rightarrow> bool" where
  "is_blank isAtomic x = (\<not> isAtomic (fst x) \<and> isWhitespaceChar (fst x))"

definition is_mark :: "(string \<Rightarrow> bool) \<Rightarrow> string \<times> bool \<Rightarrow> bool" where
  "is_mark isAtomic x = (\<not> isAtomic (fst x) \<and> \<not> snd x \<and> \<not> isWhitespaceChar (fst x))"

text \<open>The part of a word behind its last punctuation character, and before its first.\<close>

definition after_last_mark :: "string \<Rightarrow> nat" where
  "after_last_mark t = length (takeWhile (\<lambda>c. c \<notin> set PUNCTUATION) (rev t))"

definition before_first_mark :: "string \<Rightarrow> nat" where
  "before_first_mark t = length (takeWhile (\<lambda>c. c \<notin> set PUNCTUATION) t)"

definition findWordBackward :: "(string \<Rightarrow> segments) \<Rightarrow> (string \<Rightarrow> bool) \<Rightarrow> string \<Rightarrow> int \<Rightarrow> int" where
  "findWordBackward segment isAtomic t cursor =
     (if cursor \<le> 0 then 0
      else
        (let (segments, blank) = skip_segments (is_blank isAtomic) (rev (segment (slice_to cursor t)));
             newCursor = cursor - int blank in
         case segments of
           [] \<Rightarrow> newCursor
         | (w, isWordLike) # _ \<Rightarrow>
             if isAtomic w then newCursor - int (length w)
             else if isWordLike then newCursor - int (after_last_mark w)
             else newCursor - int (snd (skip_segments (is_mark isAtomic) segments))))"

definition findWordForward :: "(string \<Rightarrow> segments) \<Rightarrow> (string \<Rightarrow> bool) \<Rightarrow> string \<Rightarrow> int \<Rightarrow> int" where
  "findWordForward segment isAtomic t cursor =
     (if cursor \<ge> int (length t) then int (length t)
      else
        (let (segments, blank) = skip_segments (is_blank isAtomic) (segment (slice_from cursor t));
             newCursor = cursor + int blank in
         case segments of
           [] \<Rightarrow> newCursor
         | (w, isWordLike) # _ \<Rightarrow>
             if isAtomic w then newCursor + int (length w)
             else if isWordLike then newCursor + int (before_first_mark w)
             else newCursor + int (snd (skip_segments (is_mark isAtomic) segments))))"

section \<open>The input\<close>

datatype last_action = Kill | Yank | Type_word

record line_input =
  li_value :: string
  li_cursor :: int
  li_pasteBuffer :: string
  li_isInPaste :: bool
  li_killRing :: "string list"
  li_lastAction :: "last_action option"
  li_undoStack :: "(string \<times> int) list"

definition new_input :: line_input where
  "new_input = \<lparr>li_value = [], li_cursor = 0, li_pasteBuffer = [], li_isInPaste = False, li_killRing = [],
     li_lastAction = None, li_undoStack = []\<rparr>"

datatype input_event = Submitted string | Escaped

record input_env =
  ie_segmenter :: segmenter
  ie_mode :: terminal_mode
  ie_bindings :: keybindings_manager
  codepoint_text :: "int \<Rightarrow> string"

definition setValue :: "string \<Rightarrow> line_input \<Rightarrow> line_input" where
  "setValue v s = s\<lparr>li_value := v, li_cursor := min (li_cursor s) (int (length v))\<rparr>"

definition pushUndo :: "line_input \<Rightarrow> line_input" where
  "pushUndo s = s\<lparr>li_undoStack := undo_push (li_value s, li_cursor s) (li_undoStack s)\<rparr>"

definition undo :: "line_input \<Rightarrow> line_input" where
  "undo s =
     (case undo_pop (li_undoStack s) of
        (None, stack) \<Rightarrow> s
      | (Some (v, c), stack) \<Rightarrow> s\<lparr>li_undoStack := stack, li_value := v, li_cursor := c, li_lastAction := None\<rparr>)"

text \<open>Text put in at the cursor.\<close>

definition insert_text :: "string \<Rightarrow> line_input \<Rightarrow> line_input" where
  "insert_text t s =
     s\<lparr>li_value := slice_to (li_cursor s) (li_value s) @ t @ slice_from (li_cursor s) (li_value s),
       li_cursor := li_cursor s + int (length t)\<rparr>"

definition insertCharacter :: "string \<Rightarrow> line_input \<Rightarrow> line_input" where
  "insertCharacter char s =
     (let s1 = (if isWhitespaceChar char \<or> li_lastAction s \<noteq> Some Type_word then pushUndo s else s) in
      insert_text char (s1\<lparr>li_lastAction := Some Type_word\<rparr>))"

definition grapheme_length :: "string option \<Rightarrow> int" where
  "grapheme_length g = (case g of Some t \<Rightarrow> int (length t) | None \<Rightarrow> 1)"

definition last_grapheme :: "segmenter \<Rightarrow> string \<Rightarrow> string option" where
  "last_grapheme seg t = (if graphemes seg t = [] then None else Some (last (graphemes seg t)))"

definition first_grapheme :: "segmenter \<Rightarrow> string \<Rightarrow> string option" where
  "first_grapheme seg t = (if graphemes seg t = [] then None else Some (hd (graphemes seg t)))"

definition handleBackspace :: "segmenter \<Rightarrow> line_input \<Rightarrow> line_input" where
  "handleBackspace seg s0 =
     (let s = s0\<lparr>li_lastAction := None\<rparr> in
      if li_cursor s > 0
      then (let s1 = pushUndo s;
                n = grapheme_length (last_grapheme seg (slice_to (li_cursor s) (li_value s)))
            in s1\<lparr>li_value := slice_to (li_cursor s - n) (li_value s) @ slice_from (li_cursor s) (li_value s),
                  li_cursor := li_cursor s - n\<rparr>)
      else s)"

definition handleForwardDelete :: "segmenter \<Rightarrow> line_input \<Rightarrow> line_input" where
  "handleForwardDelete seg s0 =
     (let s = s0\<lparr>li_lastAction := None\<rparr> in
      if li_cursor s < int (length (li_value s))
      then (let s1 = pushUndo s;
                n = grapheme_length (first_grapheme seg (slice_from (li_cursor s) (li_value s)))
            in s1\<lparr>li_value := slice_to (li_cursor s) (li_value s) @ slice_from (li_cursor s + n) (li_value s)\<rparr>)
      else s)"

definition deleteToLineStart :: "line_input \<Rightarrow> line_input" where
  "deleteToLineStart s =
     (if li_cursor s = 0 then s
      else
        (let s1 = pushUndo s; deletedText = slice_to (li_cursor s) (li_value s) in
         s1\<lparr>li_killRing := kill_push deletedText True (li_lastAction s = Some Kill) (li_killRing s), li_lastAction := Some Kill,
            li_value := slice_from (li_cursor s) (li_value s), li_cursor := 0\<rparr>))"

definition deleteToLineEnd :: "line_input \<Rightarrow> line_input" where
  "deleteToLineEnd s =
     (if li_cursor s \<ge> int (length (li_value s)) then s
      else
        (let s1 = pushUndo s; deletedText = slice_from (li_cursor s) (li_value s) in
         s1\<lparr>li_killRing := kill_push deletedText False (li_lastAction s = Some Kill) (li_killRing s), li_lastAction := Some Kill,
            li_value := slice_to (li_cursor s) (li_value s)\<rparr>))"

definition moveWordBackwards :: "segmenter \<Rightarrow> line_input \<Rightarrow> line_input" where
  "moveWordBackwards seg s =
     (if li_cursor s = 0 then s
      else s\<lparr>li_lastAction := None, li_cursor := findWordBackward (words seg) (\<lambda>_. False) (li_value s) (li_cursor s)\<rparr>)"

definition moveWordForwards :: "segmenter \<Rightarrow> line_input \<Rightarrow> line_input" where
  "moveWordForwards seg s =
     (if li_cursor s \<ge> int (length (li_value s)) then s
      else s\<lparr>li_lastAction := None, li_cursor := findWordForward (words seg) (\<lambda>_. False) (li_value s) (li_cursor s)\<rparr>)"

definition deleteWordBackwards :: "segmenter \<Rightarrow> line_input \<Rightarrow> line_input" where
  "deleteWordBackwards seg s =
     (if li_cursor s = 0 then s
      else
        (let wasKill = (li_lastAction s = Some Kill); s1 = pushUndo s; oldCursor = li_cursor s1;
             s2 = moveWordBackwards seg s1; deleteFrom = li_cursor s2;
             deletedText = slice_range deleteFrom oldCursor (li_value s2) in
         s2\<lparr>li_killRing := kill_push deletedText True wasKill (li_killRing s2), li_lastAction := Some Kill,
            li_value := slice_to deleteFrom (li_value s2) @ slice_from oldCursor (li_value s2), li_cursor := deleteFrom\<rparr>))"

definition deleteWordForward :: "segmenter \<Rightarrow> line_input \<Rightarrow> line_input" where
  "deleteWordForward seg s =
     (if li_cursor s \<ge> int (length (li_value s)) then s
      else
        (let wasKill = (li_lastAction s = Some Kill); s1 = pushUndo s; oldCursor = li_cursor s1;
             s2 = moveWordForwards seg s1; deleteTo = li_cursor s2;
             deletedText = slice_range oldCursor deleteTo (li_value s2) in
         s2\<lparr>li_cursor := oldCursor, li_killRing := kill_push deletedText False wasKill (li_killRing s2), li_lastAction := Some Kill,
            li_value := slice_to oldCursor (li_value s2) @ slice_from deleteTo (li_value s2)\<rparr>))"

definition yank :: "line_input \<Rightarrow> line_input" where
  "yank s =
     (case kill_peek (li_killRing s) of
        None \<Rightarrow> s
      | Some t \<Rightarrow> if t = [] then s else (insert_text t (pushUndo s))\<lparr>li_lastAction := Some Yank\<rparr>)"

definition yankPop :: "line_input \<Rightarrow> line_input" where
  "yankPop s =
     (if li_lastAction s \<noteq> Some Yank \<or> length (li_killRing s) \<le> 1 then s
      else
        (let s1 = pushUndo s;
             prevText = (case kill_peek (li_killRing s1) of Some t \<Rightarrow> t | None \<Rightarrow> []);
             n = int (length prevText);
             s2 = s1\<lparr>li_value := slice_to (li_cursor s1 - n) (li_value s1) @ slice_from (li_cursor s1) (li_value s1),
                     li_cursor := li_cursor s1 - n,
                     li_killRing := kill_rotate (li_killRing s1)\<rparr>;
             t = (case kill_peek (li_killRing s2) of Some t \<Rightarrow> t | None \<Rightarrow> [])
         in (insert_text t s2)\<lparr>li_lastAction := Some Yank\<rparr>))"

text \<open>Line ends are removed from pasted text and tabs become four spaces.\<close>

fun remove_crlf :: "string \<Rightarrow> string" where
  "remove_crlf [] = []"
| "remove_crlf [c] = [c]"
| "remove_crlf (c # d # s) = (if c = cr \<and> d = nl then remove_crlf s else c # remove_crlf (d # s))"

definition clean_paste :: "string \<Rightarrow> string" where
  "clean_paste t =
     concat (map (\<lambda>c. if c = CHR 0x09 then ''    '' else [c]) (filter (\<lambda>c. c \<noteq> nl) (filter (\<lambda>c. c \<noteq> cr) (remove_crlf t))))"

definition handlePaste :: "string \<Rightarrow> line_input \<Rightarrow> line_input" where
  "handlePaste pastedText s = insert_text (clean_paste pastedText) (pushUndo (s\<lparr>li_lastAction := None\<rparr>))"

definition cursorLeft :: "segmenter \<Rightarrow> line_input \<Rightarrow> line_input" where
  "cursorLeft seg s0 =
     (let s = s0\<lparr>li_lastAction := None\<rparr> in
      if li_cursor s > 0
      then s\<lparr>li_cursor := li_cursor s - grapheme_length (last_grapheme seg (slice_to (li_cursor s) (li_value s)))\<rparr>
      else s)"

definition cursorRight :: "segmenter \<Rightarrow> line_input \<Rightarrow> line_input" where
  "cursorRight seg s0 =
     (let s = s0\<lparr>li_lastAction := None\<rparr> in
      if li_cursor s < int (length (li_value s))
      then s\<lparr>li_cursor := li_cursor s + grapheme_length (first_grapheme seg (slice_from (li_cursor s) (li_value s)))\<rparr>
      else s)"

definition is_control :: "char \<Rightarrow> bool" where
  "is_control c = (ascii c < 32 \<or> ascii c = 127 \<or> 128 \<le> ascii c \<and> ascii c \<le> 159)"

definition handle_key :: "input_env \<Rightarrow> string \<Rightarrow> line_input \<Rightarrow> line_input \<times> input_event list" where
  "handle_key env data s =
     (let kb = matches_binding (ie_mode env) (ie_bindings env) data; seg = ie_segmenter env in
      if kb ''tui.select.cancel'' then (s, [Escaped])
      else if kb ''tui.editor.undo'' then (undo s, [])
      else if kb ''tui.input.submit'' \<or> data = [nl] then (s, [Submitted (li_value s)])
      else if kb ''tui.editor.deleteCharBackward'' then (handleBackspace seg s, [])
      else if kb ''tui.editor.deleteCharForward'' then (handleForwardDelete seg s, [])
      else if kb ''tui.editor.deleteWordBackward'' then (deleteWordBackwards seg s, [])
      else if kb ''tui.editor.deleteWordForward'' then (deleteWordForward seg s, [])
      else if kb ''tui.editor.deleteToLineStart'' then (deleteToLineStart s, [])
      else if kb ''tui.editor.deleteToLineEnd'' then (deleteToLineEnd s, [])
      else if kb ''tui.editor.yank'' then (yank s, [])
      else if kb ''tui.editor.yankPop'' then (yankPop s, [])
      else if kb ''tui.editor.cursorLeft'' then (cursorLeft seg s, [])
      else if kb ''tui.editor.cursorRight'' then (cursorRight seg s, [])
      else if kb ''tui.editor.cursorLineStart'' then (s\<lparr>li_lastAction := None, li_cursor := 0\<rparr>, [])
      else if kb ''tui.editor.cursorLineEnd'' then (s\<lparr>li_lastAction := None, li_cursor := int (length (li_value s))\<rparr>, [])
      else if kb ''tui.editor.cursorWordLeft'' then (moveWordBackwards seg s, [])
      else if kb ''tui.editor.cursorWordRight'' then (moveWordForwards seg s, [])
      else
        (case decodeKittyPrintable data of
           Some cp \<Rightarrow> (insertCharacter (codepoint_text env cp) s, [])
         | None \<Rightarrow> if list_ex is_control data then (s, []) else (insertCharacter data s, [])))"

text \<open>The first occurrence of a text, removed: \<open>data.replace(t, "")\<close>.\<close>

definition remove_first :: "string \<Rightarrow> string \<Rightarrow> string" where
  "remove_first t s = (case index_of t s of Some i \<Rightarrow> take i s @ drop (i + length t) s | None \<Rightarrow> s)"

lemma length_remove_first: "length (remove_first t s) \<le> length s"
  by (auto simp: remove_first_def split: option.split dest: index_of_bound)

function handleInput :: "input_env \<Rightarrow> string \<Rightarrow> line_input \<Rightarrow> line_input \<times> input_event list" where
  "handleInput env data0 s0 =
     (let starts = includes_text data0 BRACKETED_PASTE_START;
          s = (if starts then s0\<lparr>li_isInPaste := True, li_pasteBuffer := []\<rparr> else s0);
          data = (if starts then remove_first BRACKETED_PASTE_START data0 else data0) in
      if li_isInPaste s
      then (let pasted = li_pasteBuffer s @ data in
            case index_of BRACKETED_PASTE_END pasted of
              None \<Rightarrow> (s\<lparr>li_pasteBuffer := pasted\<rparr>, [])
            | Some endIndex \<Rightarrow>
                (let s1 = (handlePaste (take endIndex pasted) (s\<lparr>li_pasteBuffer := pasted\<rparr>))\<lparr>li_isInPaste := False, li_pasteBuffer := []\<rparr>;
                     remaining = drop (endIndex + 6) pasted in
                 if remaining \<noteq> [] then handleInput env remaining s1 else (s1, [])))
      else handle_key env data s)"
  by pat_completeness auto

termination
proof (relation "measure (\<lambda>(env, data, s). length data + length (li_pasteBuffer s))", goal_cases)
  case (2 env data0 s0 starts s data pasted endIndex s1 remaining)
  then have "length remaining < length pasted" by (auto dest!: index_of_bound)
  moreover have "length pasted \<le> length data0 + length (li_pasteBuffer s0)"
    using 2 length_remove_first [of BRACKETED_PASTE_START data0] by auto
  ultimately show ?case using 2 by simp
qed simp

declare handleInput.simps [simp del]

section \<open>Slices inside the text\<close>

lemma slices_inside:
  assumes "0 \<le> k" and "k \<le> int (length s)"
  shows "slice_to k s = take (nat k) s" and "slice_from k s = drop (nat k) s"
  using assms by (auto simp: slice_to_def slice_from_def js_index_def)

lemma slice_range_inside:
  "0 \<le> a \<Longrightarrow> a \<le> b \<Longrightarrow> b \<le> int (length s) \<Longrightarrow> slice_range a b s = slice (nat a) (nat b) s"
  by (simp add: slice_range_def js_slice_within)

text \<open>The run time's segmenters cut a text into non-empty pieces, and a piece that is like a word neither begins
  nor ends with punctuation.\<close>

definition segmenter_ok :: "segmenter \<Rightarrow> bool" where
  "segmenter_ok seg \<longleftrightarrow>
     (\<forall>t. concat (graphemes seg t) = t \<and> [] \<notin> set (graphemes seg t)
        \<and> concat (map fst (words seg t)) = t
        \<and> (\<forall>(w, b) \<in> set (words seg t). w \<noteq> [] \<and> (b \<longrightarrow> hd w \<notin> set PUNCTUATION \<and> last w \<notin> set PUNCTUATION)))"

definition seg_length :: "segments \<Rightarrow> nat" where
  "seg_length xs = length (concat (map fst xs))"

lemma seg_length_simps [simp]: "seg_length [] = 0" "seg_length (x # xs) = length (fst x) + seg_length xs"
  "seg_length (xs @ ys) = seg_length xs + seg_length ys" "seg_length (rev xs) = seg_length xs"
  by (simp_all add: seg_length_def) (induction xs; simp)

lemma skip_segments_split: "skip_segments P xs = (r, n) \<Longrightarrow> \<exists>a. xs = a @ r \<and> n = seg_length a \<and> (\<forall>x \<in> set a. P x) \<and> (r \<noteq> [] \<longrightarrow> \<not> P (hd r))"
proof (induction xs arbitrary: r n)
  case (Cons x xs)
  show ?case
  proof (cases "P x")
    case True
    obtain r' n' where s: "skip_segments P xs = (r', n')" by fastforce
    from Cons.IH [OF s] obtain a where "xs = a @ r'" "n' = seg_length a" "\<forall>x \<in> set a. P x" "r' \<noteq> [] \<longrightarrow> \<not> P (hd r')" by blast
    with Cons.prems True s show ?thesis by (intro exI [of _ "x # a"]) auto
  qed (use Cons.prems in \<open>intro exI [of _ "[]"], auto\<close>)
qed simp

lemma words_length: "segmenter_ok seg \<Longrightarrow> seg_length (words seg t) = length t"
  by (simp add: segmenter_ok_def seg_length_def)

lemma after_last_mark_bounds: "w \<noteq> [] \<Longrightarrow> last w \<notin> set PUNCTUATION \<Longrightarrow> 0 < after_last_mark w" "after_last_mark w \<le> length w"
  by (auto simp: after_last_mark_def takeWhile_eq_Nil_iff hd_rev) (metis length_rev length_takeWhile_le)

lemma before_first_mark_bounds: "w \<noteq> [] \<Longrightarrow> hd w \<notin> set PUNCTUATION \<Longrightarrow> 0 < before_first_mark w" "before_first_mark w \<le> length w"
  by (auto simp: before_first_mark_def takeWhile_eq_Nil_iff length_takeWhile_le)

text \<open>How far one step over words goes: at least one character, and not over the end.\<close>

lemma word_step:
  assumes "\<forall>(w, b) \<in> set xs. w \<noteq> [] \<and> (b \<longrightarrow> 0 < f w)" and "\<And>w. f w \<le> length w" and "xs \<noteq> []"
    and "skip_segments (is_blank (\<lambda>_. False)) xs = (r, blank)"
    and "n = (case r of [] \<Rightarrow> 0 | (w, b) # _ \<Rightarrow> if b then f w else snd (skip_segments (is_mark (\<lambda>_. False)) r))"
  shows "0 < blank + n \<and> blank + n \<le> seg_length xs"
proof -
  obtain a where a: "xs = a @ r" "blank = seg_length a" "r \<noteq> [] \<longrightarrow> \<not> is_blank (\<lambda>_. False) (hd r)"
    using skip_segments_split [OF assms(4)] by blast
  show ?thesis
  proof (cases r)
    case Nil
    then have "a \<noteq> []" using a(1) assms(3) by simp
    then have "0 < seg_length a" using assms(1) a(1) by (cases a) auto
    with Nil a assms(5) show ?thesis by simp
  next
    case (Cons x rs)
    obtain w b where x: "x = (w, b)" by fastforce
    have w: "w \<noteq> []" "b \<Longrightarrow> 0 < f w" using assms(1) a(1) Cons x by auto
    show ?thesis
    proof (cases b)
      case True
      with w assms(2) [of w] Cons x a assms(5) show ?thesis by auto
    next
      case False
      obtain r2 m where s: "skip_segments (is_mark (\<lambda>_. False)) r = (r2, m)" by fastforce
      obtain c where c: "r = c @ r2" "m = seg_length c" "r2 \<noteq> [] \<longrightarrow> \<not> is_mark (\<lambda>_. False) (hd r2)"
        using skip_segments_split [OF s] by blast
      have "is_mark (\<lambda>_. False) (hd r)" using a(3) Cons x False by (simp add: is_mark_def is_blank_def)
      then have "c \<noteq> []" using c Cons by auto
      then obtain c' where "c = x # c'" using c(1) Cons by (cases c) auto
      then have "0 < m" using c(2) w(1) x by simp
      moreover have "m \<le> seg_length r" using c by simp
      ultimately show ?thesis using a assms(5) Cons x False s by simp
    qed
  qed
qed

lemma findWordBackward_bounds:
  assumes "segmenter_ok seg" and "0 < cursor" and "cursor \<le> int (length t)"
  shows "0 \<le> findWordBackward (words seg) (\<lambda>_. False) t cursor \<and> findWordBackward (words seg) (\<lambda>_. False) t cursor < cursor"
proof -
  let ?t = "slice_to cursor t" and ?xs = "rev (words seg (slice_to cursor t))"
  obtain r blank where s: "skip_segments (is_blank (\<lambda>_. False)) ?xs = (r, blank)" by fastforce
  define n where "n = (case r of [] \<Rightarrow> 0 | (w, b) # _ \<Rightarrow> if b then after_last_mark w else snd (skip_segments (is_mark (\<lambda>_. False)) r))"
  have t: "length ?t = nat cursor" using assms(2,3) by (simp add: slices_inside)
  have len: "seg_length ?xs = nat cursor" using words_length [OF assms(1)] t by simp
  then have "?xs \<noteq> []" using assms(2) by (cases "words seg ?t") auto
  moreover have "\<forall>(w, b) \<in> set ?xs. w \<noteq> [] \<and> (b \<longrightarrow> 0 < after_last_mark w)"
    using assms(1) after_last_mark_bounds(1) unfolding segmenter_ok_def set_rev by (metis (mono_tags, lifting) case_prod_beta)
  ultimately have "0 < blank + n \<and> blank + n \<le> nat cursor"
    using word_step [OF _ after_last_mark_bounds(2) _ s n_def] len by simp
  moreover have "findWordBackward (words seg) (\<lambda>_. False) t cursor = cursor - int (blank + n)"
    using assms(2) s by (auto simp: findWordBackward_def n_def split: list.split)
  ultimately show ?thesis using assms(2) by auto
qed

lemma findWordForward_bounds:
  assumes "segmenter_ok seg" and "0 \<le> cursor" and "cursor < int (length t)"
  shows "cursor < findWordForward (words seg) (\<lambda>_. False) t cursor \<and> findWordForward (words seg) (\<lambda>_. False) t cursor \<le> int (length t)"
proof -
  let ?t = "slice_from cursor t" and ?xs = "words seg (slice_from cursor t)"
  obtain r blank where s: "skip_segments (is_blank (\<lambda>_. False)) ?xs = (r, blank)" by fastforce
  define n where "n = (case r of [] \<Rightarrow> 0 | (w, b) # _ \<Rightarrow> if b then before_first_mark w else snd (skip_segments (is_mark (\<lambda>_. False)) r))"
  have t: "length ?t = length t - nat cursor" using assms(2,3) by (simp add: slices_inside)
  have len: "seg_length ?xs = length t - nat cursor" using words_length [OF assms(1)] t by simp
  then have "?xs \<noteq> []" using assms(2,3) by (cases "words seg ?t") auto
  moreover have "\<forall>(w, b) \<in> set ?xs. w \<noteq> [] \<and> (b \<longrightarrow> 0 < before_first_mark w)"
    using assms(1) before_first_mark_bounds(1) unfolding segmenter_ok_def by (metis (mono_tags, lifting) case_prod_beta)
  ultimately have "0 < blank + n \<and> blank + n \<le> length t - nat cursor"
    using word_step [OF _ before_first_mark_bounds(2) _ s n_def] len by simp
  moreover have "findWordForward (words seg) (\<lambda>_. False) t cursor = cursor + int (blank + n)"
    using assms(2,3) s by (auto simp: findWordForward_def n_def split: list.split)
  ultimately show ?thesis using assms(2,3) by auto
qed

section \<open>What holds of every input\<close>

definition cursor_ok :: "string \<times> int \<Rightarrow> bool" where
  "cursor_ok x \<longleftrightarrow> 0 \<le> snd x \<and> snd x \<le> int (length (fst x))"

text \<open>The text before the cursor and behind it.\<close>

definition before_cursor :: "line_input \<Rightarrow> string" where
  "before_cursor s = take (nat (li_cursor s)) (li_value s)"

definition behind_cursor :: "line_input \<Rightarrow> string" where
  "behind_cursor s = drop (nat (li_cursor s)) (li_value s)"

definition at_cursor :: "string \<Rightarrow> string \<Rightarrow> line_input \<Rightarrow> bool" where
  "at_cursor a b s \<longleftrightarrow> li_value s = a @ b \<and> li_cursor s = int (length a)"

definition input_ok :: "line_input \<Rightarrow> bool" where
  "input_ok s \<longleftrightarrow>
     cursor_ok (li_value s, li_cursor s) \<and> (\<forall>x \<in> set (li_undoStack s). cursor_ok x) \<and> [] \<notin> set (li_killRing s)
     \<and> (li_lastAction s = Some Kill \<longrightarrow> li_killRing s \<noteq> [])
     \<and> (li_lastAction s = Some Yank \<longrightarrow> li_killRing s \<noteq> [] \<and> (\<exists>p. before_cursor s = p @ last (li_killRing s)))"

lemma at_cursorI: "cursor_ok (li_value s, li_cursor s) \<Longrightarrow> at_cursor (before_cursor s) (behind_cursor s) s"
  by (auto simp: cursor_ok_def at_cursor_def before_cursor_def behind_cursor_def min_def)

lemma at_cursor_ok: "at_cursor a b s \<Longrightarrow> cursor_ok (li_value s, li_cursor s)"
  by (auto simp: cursor_ok_def at_cursor_def)

lemma at_cursorD:
  "at_cursor a b s \<Longrightarrow> before_cursor s = a"
  "at_cursor a b s \<Longrightarrow> behind_cursor s = b"
  "at_cursor a b s \<Longrightarrow> slice_to (li_cursor s) (li_value s) = a"
  "at_cursor a b s \<Longrightarrow> slice_from (li_cursor s) (li_value s) = b"
  by (auto simp: at_cursor_def before_cursor_def behind_cursor_def slices_inside)

lemma at_cursor_cong: "li_value s' = li_value s \<Longrightarrow> li_cursor s' = li_cursor s \<Longrightarrow> at_cursor a b s' = at_cursor a b s"
  by (simp add: at_cursor_def)

lemma insert_text_at: "at_cursor a b s \<Longrightarrow> at_cursor (a @ t) b (insert_text t s)"
  using at_cursorD(3,4) [of a b s] by (simp add: insert_text_def at_cursor_def)

lemma insert_text_keeps [simp]:
  "li_undoStack (insert_text t s) = li_undoStack s" "li_killRing (insert_text t s) = li_killRing s"
  "li_lastAction (insert_text t s) = li_lastAction s"
  by (simp_all add: insert_text_def)

lemma pushUndo_keeps [simp]:
  "li_value (pushUndo s) = li_value s" "li_cursor (pushUndo s) = li_cursor s" "li_killRing (pushUndo s) = li_killRing s"
  "li_lastAction (pushUndo s) = li_lastAction s" "li_undoStack (pushUndo s) = li_undoStack s @ [(li_value s, li_cursor s)]"
  by (simp_all add: pushUndo_def undo_push_def)

text \<open>The length of the grapheme at a position: within the text.\<close>

lemma last_grapheme_bounds:
  assumes "segmenter_ok seg" and "t \<noteq> []"
  shows "0 < grapheme_length (last_grapheme seg t)" and "grapheme_length (last_grapheme seg t) \<le> int (length t)"
proof -
  let ?g = "graphemes seg t"
  have c: "concat ?g = t" and n: "[] \<notin> set ?g" using assms(1) by (auto simp: segmenter_ok_def)
  then obtain g0 where g: "?g = g0 @ [last ?g]" using assms(2) by (cases ?g rule: rev_cases) auto
  then have "last ?g \<noteq> []" using n by (metis in_set_conv_decomp)
  moreover have "length (last ?g) \<le> length t" using c g by (metis concat.simps(1,2) concat_append length_append le_add2 append_Nil2)
  ultimately show "0 < grapheme_length (last_grapheme seg t)" "grapheme_length (last_grapheme seg t) \<le> int (length t)"
    using g by (auto simp: grapheme_length_def last_grapheme_def)
qed

lemma first_grapheme_bounds:
  assumes "segmenter_ok seg" and "t \<noteq> []"
  shows "0 < grapheme_length (first_grapheme seg t)" and "grapheme_length (first_grapheme seg t) \<le> int (length t)"
proof -
  let ?g = "graphemes seg t"
  have c: "concat ?g = t" and n: "[] \<notin> set ?g" using assms(1) by (auto simp: segmenter_ok_def)
  then obtain g gs where g: "?g = g # gs" using assms(2) by (cases ?g) auto
  then have "length g \<le> length t" using c by auto
  with g n show "0 < grapheme_length (first_grapheme seg t)" "grapheme_length (first_grapheme seg t) \<le> int (length t)"
    by (auto simp: grapheme_length_def first_grapheme_def)
qed

section \<open>What each operation does to the text around the cursor\<close>

definition snapshot :: "line_input \<Rightarrow> string \<times> int" where
  "snapshot s = (li_value s, li_cursor s)"

lemma slice_before: "at_cursor (x @ y) b s \<Longrightarrow> slice_to (li_cursor s - int (length y)) (li_value s) = x"
  by (auto simp: at_cursor_def slices_inside)

lemma slice_behind: "at_cursor a (y @ z) s \<Longrightarrow> slice_from (li_cursor s + int (length y)) (li_value s) = z"
  by (auto simp: at_cursor_def slices_inside)

lemma slice_word_before: "at_cursor (x @ y) b s \<Longrightarrow> slice_range (li_cursor s - int (length y)) (li_cursor s) (li_value s) = y"
  by (auto simp: at_cursor_def slice_range_inside slice_def)

lemma slice_word_behind: "at_cursor a (y @ z) s \<Longrightarrow> slice_range (li_cursor s) (li_cursor s + int (length y)) (li_value s) = y"
  by (auto simp: at_cursor_def slice_range_inside slice_def)

lemma split_tail: "0 < n \<Longrightarrow> n \<le> int (length a) \<Longrightarrow> \<exists>x y. a = x @ y \<and> y \<noteq> [] \<and> n = int (length y)"
  by (rule exI [of _ "take (length a - nat n) a"], rule exI [of _ "drop (length a - nat n) a"]) auto

lemma split_head: "0 < n \<Longrightarrow> n \<le> int (length a) \<Longrightarrow> \<exists>y z. a = y @ z \<and> y \<noteq> [] \<and> n = int (length y)"
  by (rule exI [of _ "take (nat n) a"], rule exI [of _ "drop (nat n) a"]) auto

lemma handleBackspace_at:
  assumes "segmenter_ok seg" and "at_cursor a b s" and "a \<noteq> []"
  obtains x y where "a = x @ y" "y \<noteq> []" "at_cursor x b (handleBackspace seg s)"
    "li_undoStack (handleBackspace seg s) = li_undoStack s @ [snapshot s]"
proof -
  let ?n = "grapheme_length (last_grapheme seg a)"
  obtain x y where a: "a = x @ y" "y \<noteq> []" "?n = int (length y)"
    using split_tail [OF last_grapheme_bounds [OF assms(1,3)]] by blast
  have at: "at_cursor (x @ y) b s" using assms(2) a by simp
  have "li_cursor s > 0" using assms(2,3) by (simp add: at_cursor_def)
  then have s': "handleBackspace seg s = (pushUndo (s\<lparr>li_lastAction := None\<rparr>))\<lparr>li_value := x @ b, li_cursor := li_cursor s - int (length y)\<rparr>"
    using slice_before [OF at] at_cursorD(3,4) [OF assms(2)] a(3) by (simp add: handleBackspace_def Let_def)
  show thesis
    by (rule that [OF a(1,2)]) (use at in \<open>simp_all add: s' at_cursor_def snapshot_def\<close>)
qed

lemma handleForwardDelete_at:
  assumes "segmenter_ok seg" and "at_cursor a b s" and "b \<noteq> []"
  obtains y z where "b = y @ z" "y \<noteq> []" "at_cursor a z (handleForwardDelete seg s)"
    "li_undoStack (handleForwardDelete seg s) = li_undoStack s @ [snapshot s]"
proof -
  let ?n = "grapheme_length (first_grapheme seg b)"
  obtain y z where b: "b = y @ z" "y \<noteq> []" "?n = int (length y)"
    using split_head [OF first_grapheme_bounds [OF assms(1,3)]] by blast
  have at: "at_cursor a (y @ z) s" using assms(2) b by simp
  have "li_cursor s < int (length (li_value s))" using assms(2,3) by (simp add: at_cursor_def)
  then have s': "handleForwardDelete seg s = (pushUndo (s\<lparr>li_lastAction := None\<rparr>))\<lparr>li_value := a @ z\<rparr>"
    using slice_behind [OF at] at_cursorD(3,4) [OF assms(2)] b(3) by (simp add: handleForwardDelete_def Let_def)
  show thesis
    by (rule that [OF b(1,2)]) (use at in \<open>simp_all add: s' at_cursor_def snapshot_def\<close>)
qed

lemma word_before:
  assumes "segmenter_ok seg" and "at_cursor a b s" and "a \<noteq> []"
  obtains x y where "a = x @ y" "y \<noteq> []" "findWordBackward (words seg) (\<lambda>_. False) (li_value s) (li_cursor s) = li_cursor s - int (length y)"
proof -
  let ?n = "li_cursor s - findWordBackward (words seg) (\<lambda>_. False) (li_value s) (li_cursor s)"
  have "0 < ?n" "?n \<le> int (length a)"
    using findWordBackward_bounds [OF assms(1), of "li_cursor s" "li_value s"] assms(2,3) by (auto simp: at_cursor_def)
  from split_tail [OF this] obtain x y where "a = x @ y" "y \<noteq> []" "?n = int (length y)" by blast
  then show thesis by (intro that) auto
qed

lemma word_behind:
  assumes "segmenter_ok seg" and "at_cursor a b s" and "b \<noteq> []"
  obtains y z where "b = y @ z" "y \<noteq> []" "findWordForward (words seg) (\<lambda>_. False) (li_value s) (li_cursor s) = li_cursor s + int (length y)"
proof -
  let ?n = "findWordForward (words seg) (\<lambda>_. False) (li_value s) (li_cursor s) - li_cursor s"
  have "0 < ?n" "?n \<le> int (length b)"
    using findWordForward_bounds [OF assms(1), of "li_cursor s" "li_value s"] assms(2,3) by (auto simp: at_cursor_def)
  from split_head [OF this] obtain y z where "b = y @ z" "y \<noteq> []" "?n = int (length y)" by blast
  then show thesis by (intro that) auto
qed

text \<open>The four commands that kill text: what they do when there is something to kill.\<close>

datatype kill_command = Kill_line_start | Kill_line_end | Kill_word_backward | Kill_word_forward

fun do_kill :: "segmenter \<Rightarrow> kill_command \<Rightarrow> line_input \<Rightarrow> line_input" where
  "do_kill seg Kill_line_start s = deleteToLineStart s"
| "do_kill seg Kill_line_end s = deleteToLineEnd s"
| "do_kill seg Kill_word_backward s = deleteWordBackwards seg s"
| "do_kill seg Kill_word_forward s = deleteWordForward seg s"

fun kills_backward :: "kill_command \<Rightarrow> bool" where
  "kills_backward Kill_line_start = True"
| "kills_backward Kill_line_end = False"
| "kills_backward Kill_word_backward = True"
| "kills_backward Kill_word_forward = False"

lemma do_kill_nothing:
  "at_cursor a b s \<Longrightarrow> (if kills_backward k then a else b) = [] \<Longrightarrow> do_kill seg k s = s"
  by (cases k) (auto simp: at_cursor_def deleteToLineStart_def deleteToLineEnd_def deleteWordBackwards_def deleteWordForward_def)

definition killed :: "bool \<Rightarrow> string \<Rightarrow> line_input \<Rightarrow> line_input \<Rightarrow> bool" where
  "killed backward y s s' \<longleftrightarrow>
     li_killRing s' = kill_push y backward (li_lastAction s = Some Kill) (li_killRing s)
     \<and> li_lastAction s' = Some Kill \<and> li_undoStack s' = li_undoStack s @ [snapshot s]"

lemma do_kill_backward:
  assumes "segmenter_ok seg" and "at_cursor a b s" and "kills_backward k" and "a \<noteq> []"
  obtains x y where "a = x @ y" "y \<noteq> []" "at_cursor x b (do_kill seg k s)" "killed True y s (do_kill seg k s)"
proof -
  have pos: "li_cursor s \<noteq> 0" using assms(2,4) by (auto simp: at_cursor_def)
  consider "k = Kill_line_start" | "k = Kill_word_backward" using assms(3) by (cases k) auto
  then show thesis
  proof cases
    case 1
    show thesis
      by (rule that [of "[]" a]) (use 1 pos assms(2,4) at_cursorD(3,4) [OF assms(2)] in
        \<open>auto simp: deleteToLineStart_def Let_def killed_def snapshot_def at_cursor_def\<close>)
  next
    case 2
    obtain x y where w: "a = x @ y" "y \<noteq> []" "findWordBackward (words seg) (\<lambda>_. False) (li_value s) (li_cursor s) = li_cursor s - int (length y)"
      using word_before [OF assms(1,2,4)] by blast
    have at: "at_cursor (x @ y) b s" using assms(2) w by simp
    show thesis
      by (rule that [OF w(1,2)]) (use 2 pos w(3) at slice_before [OF at] slice_word_before [OF at] at_cursorD(4) [OF at] in
        \<open>auto simp: deleteWordBackwards_def moveWordBackwards_def Let_def killed_def snapshot_def at_cursor_def\<close>)
  qed
qed

lemma do_kill_forward:
  assumes "segmenter_ok seg" and "at_cursor a b s" and "\<not> kills_backward k" and "b \<noteq> []"
  obtains y z where "b = y @ z" "y \<noteq> []" "at_cursor a z (do_kill seg k s)" "killed False y s (do_kill seg k s)"
proof -
  have pos: "\<not> int (length (li_value s)) \<le> li_cursor s" using assms(2,4) by (auto simp: at_cursor_def)
  consider "k = Kill_line_end" | "k = Kill_word_forward" using assms(3) by (cases k) auto
  then show thesis
  proof cases
    case 1
    show thesis
      by (rule that [of b "[]"]) (use 1 pos assms(2,4) at_cursorD(3,4) [OF assms(2)] in
        \<open>auto simp: deleteToLineEnd_def Let_def killed_def snapshot_def at_cursor_def\<close>)
  next
    case 2
    obtain y z where w: "b = y @ z" "y \<noteq> []" "findWordForward (words seg) (\<lambda>_. False) (li_value s) (li_cursor s) = li_cursor s + int (length y)"
      using word_behind [OF assms(1,2,4)] by blast
    have at: "at_cursor a (y @ z) s" using assms(2) w by simp
    show thesis
      by (rule that [OF w(1,2)]) (use 2 pos w(3) at slice_behind [OF at] slice_word_behind [OF at] at_cursorD(3) [OF at] in
        \<open>auto simp: deleteWordForward_def moveWordForwards_def Let_def killed_def snapshot_def at_cursor_def\<close>)
  qed
qed

section \<open>Killing and yanking\<close>

definition killed_so_far :: "string list \<Rightarrow> string \<Rightarrow> line_input \<Rightarrow> bool" where
  "killed_so_far ring v s \<longleftrightarrow>
     (\<exists>a b t. at_cursor a b s \<and> li_lastAction s = Some Kill \<and> li_killRing s = ring @ [t] \<and> t \<noteq> [] \<and> v = a @ t @ b)"

lemma do_kill_more: "segmenter_ok seg \<Longrightarrow> killed_so_far ring v s \<Longrightarrow> killed_so_far ring v (do_kill seg k s)"
proof -
  assume seg: "segmenter_ok seg" and "killed_so_far ring v s"
  then obtain a b t where s: "at_cursor a b s" "li_lastAction s = Some Kill" "li_killRing s = ring @ [t]" "t \<noteq> []" "v = a @ t @ b"
    by (auto simp: killed_so_far_def)
  consider "(if kills_backward k then a else b) = []" | "kills_backward k" "a \<noteq> []" | "\<not> kills_backward k" "b \<noteq> []" by fastforce
  then show ?thesis
  proof cases
    case 1
    with s do_kill_nothing show ?thesis by (auto simp: killed_so_far_def)
  next
    case 2
    obtain x y where "a = x @ y" "y \<noteq> []" "at_cursor x b (do_kill seg k s)" "killed True y s (do_kill seg k s)"
      using do_kill_backward [OF seg s(1) 2] by blast
    then show ?thesis using s
      by (intro killed_so_far_def [THEN iffD2] exI [of _ x] exI [of _ b] exI [of _ "y @ t"]) (simp add: killed_def kill_push_def)
  next
    case 3
    obtain y z where "b = y @ z" "y \<noteq> []" "at_cursor a z (do_kill seg k s)" "killed False y s (do_kill seg k s)"
      using do_kill_forward [OF seg s(1) 3] by blast
    then show ?thesis using s
      by (intro killed_so_far_def [THEN iffD2] exI [of _ a] exI [of _ z] exI [of _ "t @ y"]) (simp add: killed_def kill_push_def)
  qed
qed

lemma do_kill_first:
  assumes "segmenter_ok seg" and "at_cursor a b s" and "li_lastAction s \<noteq> Some Kill"
  shows "do_kill seg k s = s \<or> killed_so_far (li_killRing s) (li_value s) (do_kill seg k s)"
proof -
  have v: "li_value s = a @ b" using assms(2) by (simp add: at_cursor_def)
  consider "(if kills_backward k then a else b) = []" | "kills_backward k" "a \<noteq> []" | "\<not> kills_backward k" "b \<noteq> []" by fastforce
  then show ?thesis
  proof cases
    case 1
    with assms(2) do_kill_nothing show ?thesis by auto
  next
    case 2
    obtain x y where "a = x @ y" "y \<noteq> []" "at_cursor x b (do_kill seg k s)" "killed True y s (do_kill seg k s)"
      using do_kill_backward [OF assms(1,2) 2] by blast
    then show ?thesis using assms(3) v
      by (intro disjI2 killed_so_far_def [THEN iffD2] exI [of _ x] exI [of _ b] exI [of _ y]) (simp add: killed_def kill_push_def)
  next
    case 3
    obtain y z where "b = y @ z" "y \<noteq> []" "at_cursor a z (do_kill seg k s)" "killed False y s (do_kill seg k s)"
      using do_kill_forward [OF assms(1,2) 3] by blast
    then show ?thesis using assms(3) v
      by (intro disjI2 killed_so_far_def [THEN iffD2] exI [of _ a] exI [of _ z] exI [of _ y]) (simp add: killed_def kill_push_def)
  qed
qed

lemma do_kills_more: "segmenter_ok seg \<Longrightarrow> killed_so_far ring v s \<Longrightarrow> killed_so_far ring v (fold (do_kill seg) ks s)"
  by (induction ks arbitrary: s) (auto simp: do_kill_more)

lemma do_kills:
  assumes "segmenter_ok seg" and "at_cursor a b s" and "li_lastAction s \<noteq> Some Kill"
  shows "fold (do_kill seg) ks s = s \<or> killed_so_far (li_killRing s) (li_value s) (fold (do_kill seg) ks s)"
proof (induction ks)
  case (Cons k ks)
  show ?case
  proof (cases "do_kill seg k s = s")
    case False
    then have "killed_so_far (li_killRing s) (li_value s) (do_kill seg k s)" using do_kill_first [OF assms] by blast
    then show ?thesis using do_kills_more [OF assms(1)] by simp
  qed (simp add: Cons.IH)
qed simp

lemma yank_at:
  assumes "at_cursor a b s" and "li_killRing s \<noteq> []" and "last (li_killRing s) \<noteq> []"
  shows "at_cursor (a @ last (li_killRing s)) b (yank s)" and "li_killRing (yank s) = li_killRing s"
    and "li_lastAction (yank s) = Some Yank" and "li_undoStack (yank s) = li_undoStack s @ [snapshot s]"
proof -
  have y: "yank s = (insert_text (last (li_killRing s)) (pushUndo s))\<lparr>li_lastAction := Some Yank\<rparr>"
    using assms(2,3) by (simp add: yank_def kill_peek_def)
  have "at_cursor a b (pushUndo s)" using assms(1) by (simp add: at_cursor_def)
  from insert_text_at [OF this, of "last (li_killRing s)"]
  show "at_cursor (a @ last (li_killRing s)) b (yank s)" by (simp add: y at_cursor_def)
  show "li_killRing (yank s) = li_killRing s" "li_lastAction (yank s) = Some Yank"
    "li_undoStack (yank s) = li_undoStack s @ [snapshot s]" by (simp_all add: y snapshot_def)
qed

lemma yank_nothing: "li_killRing s = [] \<Longrightarrow> yank s = s"
  by (simp add: yank_def kill_peek_def)

lemma yankPop_nothing: "li_lastAction s \<noteq> Some Yank \<or> length (li_killRing s) \<le> 1 \<Longrightarrow> yankPop s = s"
  by (auto simp: yankPop_def)

lemma kill_rotate_simps:
  assumes "1 < length ring"
  shows "kill_rotate ring = last ring # butlast ring" and "kill_rotate ring \<noteq> []" and "set (kill_rotate ring) = set ring"
    and "length (kill_rotate ring) = length ring"
proof -
  have "ring = butlast ring @ [last ring]" using assms by (cases ring rule: rev_cases) auto
  then have "set ring = insert (last ring) (set (butlast ring))" by (metis Un_insert_right empty_set list.simps(15) set_append sup_bot_right)
  with assms show "kill_rotate ring = last ring # butlast ring" "kill_rotate ring \<noteq> []" "set (kill_rotate ring) = set ring"
    "length (kill_rotate ring) = length ring" by (simp_all add: kill_rotate_def)
qed

lemma yankPop_at:
  assumes "at_cursor (p @ last (li_killRing s)) b s" and "li_lastAction s = Some Yank" and "1 < length (li_killRing s)"
  shows "at_cursor (p @ last (kill_rotate (li_killRing s))) b (yankPop s)" and "li_killRing (yankPop s) = kill_rotate (li_killRing s)"
    and "li_lastAction (yankPop s) = Some Yank" and "li_undoStack (yankPop s) = li_undoStack s @ [snapshot s]"
proof -
  let ?ring = "li_killRing s" and ?s1 = "pushUndo s"
  define s2 where "s2 = ?s1\<lparr>li_value := p @ b, li_cursor := li_cursor s - int (length (last ?ring)), li_killRing := kill_rotate ?ring\<rparr>"
  have r: "?ring \<noteq> []" "kill_rotate ?ring \<noteq> []" using assms(3) kill_rotate_simps by auto
  have y: "yankPop s = (insert_text (last (kill_rotate ?ring)) s2)\<lparr>li_lastAction := Some Yank\<rparr>"
    using assms r slice_before [OF assms(1)] at_cursorD(4) [OF assms(1)]
    by (simp add: yankPop_def Let_def kill_peek_def s2_def)
  have "at_cursor p b s2" using assms(1) by (simp add: s2_def at_cursor_def)
  from insert_text_at [OF this, of "last (kill_rotate ?ring)"]
  show "at_cursor (p @ last (kill_rotate ?ring)) b (yankPop s)" by (simp add: y at_cursor_def)
  show "li_killRing (yankPop s) = kill_rotate ?ring" "li_lastAction (yankPop s) = Some Yank"
    "li_undoStack (yankPop s) = li_undoStack s @ [snapshot s]" by (simp_all add: y s2_def snapshot_def)
qed

lemma kill_rotate_full: "(kill_rotate ^^ length ring) ring = ring"
proof (cases "1 < length ring")
  case True
  have "kill_rotate xs = rotate (length xs - 1) xs" if "1 < length xs" for xs :: "string list"
  proof -
    have "xs = butlast xs @ [last xs]" using that by (cases xs rule: rev_cases) auto
    then obtain ys y where "xs = ys @ [y]" by blast
    then show ?thesis using that by (simp add: kill_rotate_def rotate_append)
  qed
  then have "(kill_rotate ^^ k) ring = rotate (k * (length ring - 1)) ring" for k
    by (induction k) (use True in \<open>simp_all add: rotate_rotate\<close>)
  then show ?thesis by (simp add: rotate_id)
next
  case False
  then have "kill_rotate ring = ring" by (simp add: kill_rotate_def)
  then have "(kill_rotate ^^ k) ring = ring" for k by (induction k) auto
  then show ?thesis .
qed

lemma yankPops_at:
  assumes "at_cursor (p @ last (li_killRing s)) b s" and "li_lastAction s = Some Yank" and "1 < length (li_killRing s)"
  shows "at_cursor (p @ last ((kill_rotate ^^ k) (li_killRing s))) b ((yankPop ^^ k) s)
    \<and> li_killRing ((yankPop ^^ k) s) = (kill_rotate ^^ k) (li_killRing s) \<and> li_lastAction ((yankPop ^^ k) s) = Some Yank
    \<and> length (li_killRing ((yankPop ^^ k) s)) = length (li_killRing s)"
proof (induction k)
  case (Suc k)
  let ?s = "(yankPop ^^ k) s"
  have r: "li_killRing ?s = (kill_rotate ^^ k) (li_killRing s)" and at: "at_cursor (p @ last (li_killRing ?s)) b ?s"
    and y: "li_lastAction ?s = Some Yank" and l: "length (li_killRing ?s) = length (li_killRing s)"
    using Suc by auto
  have "1 < length (li_killRing ?s)" using l assms(3) by simp
  note yp = yankPop_at [OF at y this] kill_rotate_simps(4) [OF this]
  show ?case using yp l by (simp add: r)
qed (use assms in simp)

section \<open>The steps of the input\<close>

definition action_ok :: "string \<Rightarrow> line_input \<Rightarrow> bool" where
  "action_ok a s \<longleftrightarrow>
     [] \<notin> set (li_killRing s) \<and> (li_lastAction s = Some Kill \<longrightarrow> li_killRing s \<noteq> [])
     \<and> (li_lastAction s = Some Yank \<longrightarrow> li_killRing s \<noteq> [] \<and> (\<exists>p. a = p @ last (li_killRing s)))"

text \<open>A key other than undo does nothing, moves the cursor, edits the text after a snapshot of it, or goes on with a typed word.\<close>

inductive key_step :: "line_input \<Rightarrow> line_input \<Rightarrow> bool" where
  Nothing: "key_step s s"
| Moved: "at_cursor a b s' \<Longrightarrow> li_value s' = li_value s \<Longrightarrow> li_undoStack s' = li_undoStack s \<Longrightarrow> li_killRing s' = li_killRing s
    \<Longrightarrow> li_lastAction s' = None \<Longrightarrow> key_step s s'"
| Edited: "at_cursor a b s' \<Longrightarrow> action_ok a s' \<Longrightarrow> li_undoStack s' = li_undoStack s @ [snapshot s] \<Longrightarrow> key_step s s'"
| Typed: "at_cursor a b s' \<Longrightarrow> li_lastAction s = Some Type_word \<Longrightarrow> li_lastAction s' = Some Type_word
    \<Longrightarrow> li_undoStack s' = li_undoStack s \<Longrightarrow> li_killRing s' = li_killRing s \<Longrightarrow> key_step s s'"

lemma input_okD:
  assumes "input_ok s"
  shows "at_cursor (before_cursor s) (behind_cursor s) s" and "action_ok (before_cursor s) s"
  using assms at_cursorI [of s] by (auto simp: input_ok_def action_ok_def)

lemma input_okI: "at_cursor a b s \<Longrightarrow> action_ok a s \<Longrightarrow> \<forall>x \<in> set (li_undoStack s). cursor_ok x \<Longrightarrow> input_ok s"
  using at_cursor_ok [of a b s] at_cursorD(1) [of a b s] by (auto simp: input_ok_def action_ok_def)

lemma key_step_ok: "key_step s s' \<Longrightarrow> input_ok s \<Longrightarrow> input_ok s'"
proof (induction rule: key_step.induct)
  case (Edited a b s' s)
  then show ?case by (intro input_okI [of a b]) (auto simp: input_ok_def snapshot_def)
next
  case (Moved a b s' s)
  then show ?case by (intro input_okI [of a b]) (auto simp: input_ok_def action_ok_def)
next
  case (Typed a b s' s)
  then show ?case by (intro input_okI [of a b]) (auto simp: input_ok_def action_ok_def)
qed

lemma none_action_ok: "action_ok a s \<Longrightarrow> li_lastAction s' \<in> {None, Some Type_word} \<Longrightarrow> li_killRing s' = li_killRing s \<Longrightarrow> action_ok a' s'"
  by (auto simp: action_ok_def)

lemma insertCharacter_step:
  assumes "input_ok s"
  shows "key_step s (insertCharacter t s)"
proof -
  let ?s1 = "if isWhitespaceChar t \<or> li_lastAction s \<noteq> Some Type_word then pushUndo s else s"
  have at0: "at_cursor (before_cursor s) (behind_cursor s) (?s1\<lparr>li_lastAction := Some Type_word\<rparr>)"
    using input_okD(1) [OF assms] by (auto simp: at_cursor_def)
  have at: "at_cursor (before_cursor s @ t) (behind_cursor s) (insertCharacter t s)"
    using insert_text_at [OF at0, of t] by (simp add: insertCharacter_def Let_def)
  show ?thesis
  proof (cases "isWhitespaceChar t \<or> li_lastAction s \<noteq> Some Type_word")
    case True
    show ?thesis
      by (rule Edited [OF at none_action_ok [OF input_okD(2) [OF assms]]])
        (use True in \<open>auto simp: insertCharacter_def Let_def snapshot_def\<close>)
  next
    case False
    show ?thesis by (rule Typed [OF at]) (use False in \<open>auto simp: insertCharacter_def Let_def\<close>)
  qed
qed

lemma handlePaste_step:
  assumes "input_ok s"
  shows "key_step s (handlePaste t s)"
proof (rule Edited)
  show "at_cursor (before_cursor s @ clean_paste t) (behind_cursor s) (handlePaste t s)"
    using insert_text_at [of _ _ "pushUndo (s\<lparr>li_lastAction := None\<rparr>)"] input_okD(1) [OF assms]
    by (simp add: handlePaste_def at_cursor_def)
  show "action_ok (before_cursor s @ clean_paste t) (handlePaste t s)"
    by (rule none_action_ok [OF input_okD(2) [OF assms]]) (simp_all add: handlePaste_def)
qed (simp add: handlePaste_def snapshot_def)

lemma delete_step:
  assumes "segmenter_ok seg" and "input_ok s"
  shows "key_step s (handleBackspace seg s)" and "key_step s (handleForwardDelete seg s)"
proof -
  note at = input_okD(1) [OF assms(2)] and ok = input_okD(2) [OF assms(2)]
  have r: "li_killRing (handleBackspace seg s) = li_killRing s" "li_lastAction (handleBackspace seg s) = None"
    "li_killRing (handleForwardDelete seg s) = li_killRing s" "li_lastAction (handleForwardDelete seg s) = None"
    by (simp_all add: handleBackspace_def handleForwardDelete_def Let_def)
  have m: "key_step s (s\<lparr>li_lastAction := None\<rparr>)"
    by (rule Moved [of "before_cursor s" "behind_cursor s"]) (use at in \<open>auto simp: at_cursor_def\<close>)
  show "key_step s (handleBackspace seg s)"
  proof (cases "before_cursor s = []")
    case True
    with at m show ?thesis by (simp add: handleBackspace_def Let_def at_cursor_def)
  next
    case False
    obtain x y where e: "at_cursor x (behind_cursor s) (handleBackspace seg s)" "li_undoStack (handleBackspace seg s) = li_undoStack s @ [snapshot s]"
      using handleBackspace_at [OF assms(1) at False] by blast
    show ?thesis by (rule Edited [OF e(1) none_action_ok [OF ok] e(2)]) (simp_all add: r)
  qed
  show "key_step s (handleForwardDelete seg s)"
  proof (cases "behind_cursor s = []")
    case True
    with at m show ?thesis by (simp add: handleForwardDelete_def Let_def at_cursor_def)
  next
    case False
    obtain y z where e: "at_cursor (before_cursor s) z (handleForwardDelete seg s)" "li_undoStack (handleForwardDelete seg s) = li_undoStack s @ [snapshot s]"
      using handleForwardDelete_at [OF assms(1) at False] by blast
    show ?thesis by (rule Edited [OF e(1) none_action_ok [OF ok] e(2)]) (simp_all add: r)
  qed
qed

lemma kill_push_ok: "y \<noteq> [] \<Longrightarrow> [] \<notin> set ring \<Longrightarrow> [] \<notin> set (kill_push y p acc ring) \<and> kill_push y p acc ring \<noteq> []"
  by (auto simp: kill_push_def dest: in_set_butlastD)

lemma killed_step:
  assumes "action_ok c s" and "y \<noteq> []" and "at_cursor a b s'" and "killed backward y s s'"
  shows "key_step s s'"
  by (rule Edited [OF assms(3)]) (use assms kill_push_ok in \<open>auto simp: action_ok_def killed_def\<close>)

lemma do_kill_step:
  assumes "segmenter_ok seg" and "input_ok s"
  shows "key_step s (do_kill seg k s)"
proof -
  note at = input_okD(1) [OF assms(2)] and ok = input_okD(2) [OF assms(2)]
  consider "(if kills_backward k then before_cursor s else behind_cursor s) = []"
    | "kills_backward k" "before_cursor s \<noteq> []" | "\<not> kills_backward k" "behind_cursor s \<noteq> []"
    by (metis (full_types))
  then show ?thesis
  proof cases
    case 1
    with do_kill_nothing [OF at] show ?thesis by (simp add: Nothing)
  next
    case 2
    then show ?thesis by (rule do_kill_backward [OF assms(1) at]) (rule killed_step [OF ok])
  next
    case 3
    then show ?thesis by (rule do_kill_forward [OF assms(1) at]) (rule killed_step [OF ok])
  qed
qed

lemma yank_step:
  assumes "input_ok s"
  shows "key_step s (yank s)" and "key_step s (yankPop s)"
proof -
  note at = input_okD(1) [OF assms] and ok = input_okD(2) [OF assms]
  show "key_step s (yank s)"
  proof (cases "li_killRing s = []")
    case False
    then have l: "last (li_killRing s) \<noteq> []" using ok by (metis action_ok_def last_in_set)
    note y = yank_at [OF at False l]
    show ?thesis by (rule Edited [OF y(1) _ y(4)]) (use y ok False in \<open>auto simp: action_ok_def\<close>)
  qed (simp add: yank_nothing Nothing)
  show "key_step s (yankPop s)"
  proof (cases "li_lastAction s = Some Yank \<and> 1 < length (li_killRing s)")
    case True
    then obtain p where p: "before_cursor s = p @ last (li_killRing s)" using ok by (auto simp: action_ok_def)
    note y = yankPop_at [OF at [unfolded p] conjunct1 [OF True] conjunct2 [OF True]]
    show ?thesis
      by (rule Edited [OF y(1) _ y(4)]) (use y ok kill_rotate_simps(2,3) [OF conjunct2 [OF True]] in \<open>auto simp: action_ok_def\<close>)
  qed (auto simp: yankPop_nothing Nothing not_less)
qed

lemma move_step:
  assumes "segmenter_ok seg" and "input_ok s"
  shows "key_step s (cursorLeft seg s)" and "key_step s (cursorRight seg s)"
    and "key_step s (moveWordBackwards seg s)" and "key_step s (moveWordForwards seg s)"
    and "key_step s (s\<lparr>li_lastAction := None, li_cursor := 0\<rparr>)"
    and "key_step s (s\<lparr>li_lastAction := None, li_cursor := int (length (li_value s))\<rparr>)"
proof -
  note at = input_okD(1) [OF assms(2)]
  let ?a = "before_cursor s" and ?b = "behind_cursor s"
  have move: "key_step s (s\<lparr>li_lastAction := None, li_cursor := c\<rparr>)" if "0 \<le> c" "c \<le> int (length (li_value s))" for c
    using that by (intro Moved [of "take (nat c) (li_value s)" "drop (nat c) (li_value s)"]) (auto simp: at_cursor_def min_def)
  have l: "?a \<noteq> [] \<Longrightarrow> 0 < grapheme_length (last_grapheme seg ?a) \<and> grapheme_length (last_grapheme seg ?a) \<le> li_cursor s"
    using last_grapheme_bounds [OF assms(1), of ?a] at by (auto simp: at_cursor_def)
  have r: "?b \<noteq> [] \<Longrightarrow> 0 < grapheme_length (first_grapheme seg ?b)
      \<and> grapheme_length (first_grapheme seg ?b) \<le> int (length (li_value s)) - li_cursor s"
    using first_grapheme_bounds [OF assms(1), of ?b] at by (auto simp: at_cursor_def)
  have c: "0 \<le> li_cursor s" "li_cursor s \<le> int (length (li_value s))" using at by (auto simp: at_cursor_def)
  have same: "s\<lparr>li_lastAction := None\<rparr> = s\<lparr>li_lastAction := None, li_cursor := li_cursor s\<rparr>" by simp
  show "key_step s (cursorLeft seg s)"
    using move [of "li_cursor s"] move [of "li_cursor s - grapheme_length (last_grapheme seg ?a)"] l c at at_cursorD(3) [OF at]
    by (cases "?a = []") (auto simp: cursorLeft_def Let_def at_cursor_def)
  show "key_step s (cursorRight seg s)"
    using move [of "li_cursor s"] move [of "li_cursor s + grapheme_length (first_grapheme seg ?b)"] r c at at_cursorD(4) [OF at]
    by (cases "?b = []") (auto simp: cursorRight_def Let_def at_cursor_def)
  show "key_step s (moveWordBackwards seg s)"
  proof (cases "li_cursor s = 0")
    case False
    with c show ?thesis using findWordBackward_bounds [OF assms(1), of "li_cursor s" "li_value s"]
      by (simp add: moveWordBackwards_def move)
  qed (simp add: moveWordBackwards_def Nothing)
  show "key_step s (moveWordForwards seg s)"
  proof (cases "int (length (li_value s)) \<le> li_cursor s")
    case False
    with c show ?thesis using findWordForward_bounds [OF assms(1), of "li_cursor s" "li_value s"]
      by (simp add: moveWordForwards_def move)
  qed (simp add: moveWordForwards_def Nothing)
  show "key_step s (s\<lparr>li_lastAction := None, li_cursor := 0\<rparr>)"
    "key_step s (s\<lparr>li_lastAction := None, li_cursor := int (length (li_value s))\<rparr>)" using move by simp_all
qed

lemma handle_key_step:
  assumes "segmenter_ok (ie_segmenter env)" and "input_ok s" and "\<not> matches_binding (ie_mode env) (ie_bindings env) data ''tui.editor.undo''"
  shows "key_step s (fst (handle_key env data s))"
proof -
  note kill = do_kill_step [OF assms(1,2)]
  show ?thesis
    unfolding handle_key_def Let_def
    using assms(3) delete_step [OF assms(1,2)] kill [of Kill_line_start] kill [of Kill_line_end] kill [of Kill_word_backward]
      kill [of Kill_word_forward] yank_step [OF assms(2)] move_step [OF assms(1,2)] insertCharacter_step [OF assms(2)] Nothing [of s]
    by (simp split: option.split)
qed

lemma undo_pops:
  "li_undoStack s = base @ snaps \<Longrightarrow> snaps \<noteq> [] \<Longrightarrow>
     li_value ((undo ^^ length snaps) s) = fst (hd snaps) \<and> li_undoStack ((undo ^^ length snaps) s) = base"
proof (induction snaps arbitrary: s rule: rev_induct)
  case (snoc x snaps)
  have u: "li_value (undo s) = fst x" "li_undoStack (undo s) = base @ snaps"
    using snoc.prems by (auto simp: undo_def undo_pop_def butlast_append split: prod.split)
  have f: "(undo ^^ length (snaps @ [x])) s = (undo ^^ length snaps) (undo s)" by (simp add: funpow_swap1)
  show ?case
  proof (cases "snaps = []")
    case True
    with u show ?thesis by simp
  next
    case False
    with snoc.IH [OF u(2) False] show ?thesis by (simp only: f) simp
  qed
qed simp

lemma undo_ok: "input_ok s \<Longrightarrow> input_ok (undo s)"
proof (cases "li_undoStack s" rule: rev_cases)
  case (snoc snaps x)
  assume ok: "input_ok s"
  obtain v c where x: "x = (v, c)" by fastforce
  have "undo s = s\<lparr>li_undoStack := snaps, li_value := v, li_cursor := c, li_lastAction := None\<rparr>"
    using snoc x by (simp add: undo_def undo_pop_def)
  with ok snoc x show ?thesis by (simp add: input_ok_def)
qed (simp add: undo_def undo_pop_def)

lemma handle_key_ok: "segmenter_ok (ie_segmenter env) \<Longrightarrow> input_ok s \<Longrightarrow> input_ok (fst (handle_key env data s))"
proof (cases "matches_binding (ie_mode env) (ie_bindings env) data ''tui.editor.undo''")
  case True
  then have "fst (handle_key env data s) = (if matches_binding (ie_mode env) (ie_bindings env) data ''tui.select.cancel'' then s else undo s)"
    by (simp add: handle_key_def Let_def)
  then show "input_ok s \<Longrightarrow> ?thesis" by (simp add: undo_ok)
qed (auto dest: handle_key_step key_step_ok)

lemma input_ok_paste_state [simp]:
  "input_ok (s\<lparr>li_isInPaste := x\<rparr>) = input_ok s" "input_ok (s\<lparr>li_pasteBuffer := y\<rparr>) = input_ok s"
  by (simp_all add: input_ok_def before_cursor_def)

section \<open>The properties\<close>

text \<open>C21: Whatever bytes come in, with pastes begun and ended anywhere, the cursor stays inside the text, in the state and in every
  snapshot, the kill ring holds no empty text, and after a yank the last entry of the ring stands before the cursor.\<close>

theorem input_stays_ok:
  assumes "segmenter_ok (ie_segmenter env)" and "input_ok s"
  shows "input_ok (fst (handleInput env data s))"
  using assms
proof (induction env data s rule: handleInput.induct)
  case (1 env data0 s0)
  define starts where "starts = includes_text data0 BRACKETED_PASTE_START"
  define s where "s = (if starts then s0\<lparr>li_isInPaste := True, li_pasteBuffer := []\<rparr> else s0)"
  define data where "data = (if starts then remove_first BRACKETED_PASTE_START data0 else data0)"
  have ok: "input_ok s" using 1(3) by (simp add: s_def)
  note unf = handleInput.simps [of env data0 s0, folded starts_def, unfolded Let_def, folded s_def data_def]
  show ?case
  proof (cases "li_isInPaste s")
    case False
    then show ?thesis using handle_key_ok [OF 1(2) ok] by (simp add: unf)
  next
    case True
    show ?thesis
    proof (cases "index_of BRACKETED_PASTE_END (li_pasteBuffer s @ data)")
      case None
      then show ?thesis using True ok by (simp add: unf)
    next
      case (Some k)
      let ?s1 = "(handlePaste (take k (li_pasteBuffer s @ data)) (s\<lparr>li_pasteBuffer := li_pasteBuffer s @ data\<rparr>))
        \<lparr>li_isInPaste := False, li_pasteBuffer := []\<rparr>"
      have "input_ok ?s1" using key_step_ok [OF handlePaste_step] ok by simp
      moreover from this have "drop (k + 6) (li_pasteBuffer s @ data) \<noteq> [] \<Longrightarrow>
          input_ok (fst (handleInput env (drop (k + 6) (li_pasteBuffer s @ data)) ?s1))"
        by (intro 1(1) [OF starts_def s_def data_def True refl Some refl refl]) (use 1(2) in auto)
      ultimately show ?thesis using True Some by (simp add: unf)
    qed
  qed
qed

text \<open>A segmenter that takes every character for itself, to evaluate the properties on.\<close>

definition char_segmenter :: segmenter where
  "char_segmenter = \<lparr>graphemes = map (\<lambda>c. [c]), words = map (\<lambda>c. ([c], \<not> is_space c \<and> c \<notin> set PUNCTUATION))\<rparr>"

lemma char_segmenter_ok: "segmenter_ok char_segmenter"
proof -
  have "concat (map (\<lambda>c. [c]) t) = t" for t :: string by (induction t) auto
  then show ?thesis by (auto simp: segmenter_ok_def char_segmenter_def comp_def)
qed

definition example_env :: input_env where
  "example_env = \<lparr>ie_segmenter = char_segmenter, ie_mode = \<lparr>kittyProtocolActive = False, environment = Map.empty\<rparr>,
     ie_bindings = new_keybindings_manager [(''tui.editor.undo'', bound (One_key ''ctrl+-'') ''Undo'')] [], codepoint_text = (\<lambda>k. [char_of k])\<rparr>"

lemma new_input_ok: "input_ok new_input"
  by (simp add: input_ok_def new_input_def cursor_ok_def)

theorem input_stays_ok_witness:
  "input_ok (fst (handleInput example_env (''ab'' @ BRACKETED_PASTE_START @ ''x'' @ BRACKETED_PASTE_END @ ''c'') new_input))"
  by (rule input_stays_ok [OF _ new_input_ok]) (simp add: example_env_def char_segmenter_ok)

datatype input_edit = Key_press string | Paste_text string

fun apply_edit :: "input_env \<Rightarrow> input_edit \<Rightarrow> line_input \<Rightarrow> line_input" where
  "apply_edit env (Key_press data) s = fst (handle_key env data s)"
| "apply_edit env (Paste_text t) s = handlePaste t s"

fun is_undo :: "input_env \<Rightarrow> input_edit \<Rightarrow> bool" where
  "is_undo env (Key_press data) = matches_binding (ie_mode env) (ie_bindings env) data ''tui.editor.undo''"
| "is_undo env (Paste_text t) = False"

definition undo_inv :: "line_input \<Rightarrow> line_input \<Rightarrow> bool" where
  "undo_inv s s' \<longleftrightarrow>
     (\<exists>snaps. li_undoStack s' = li_undoStack s @ snaps
        \<and> (if snaps = [] then li_value s' = li_value s \<and> li_lastAction s' \<noteq> Some Type_word else fst (hd snaps) = li_value s))"

lemma undo_inv_step: "key_step s1 s2 \<Longrightarrow> undo_inv s s1 \<Longrightarrow> undo_inv s s2"
proof (induction rule: key_step.induct)
  case (Edited a b s2 s1)
  then obtain snaps where i: "li_undoStack s1 = li_undoStack s @ snaps"
    "if snaps = [] then li_value s1 = li_value s \<and> li_lastAction s1 \<noteq> Some Type_word else fst (hd snaps) = li_value s"
    by (auto simp: undo_inv_def)
  with Edited show ?case
    by (intro undo_inv_def [THEN iffD2] exI [of _ "snaps @ [snapshot s1]"]) (auto simp: snapshot_def split: if_splits)
qed (auto simp: undo_inv_def split: if_splits)

lemma undo_inv_edits:
  assumes "segmenter_ok (ie_segmenter env)"
  shows "input_ok s1 \<Longrightarrow> undo_inv s s1 \<Longrightarrow> list_all (\<lambda>e. \<not> is_undo env e) es \<Longrightarrow> undo_inv s (fold (apply_edit env) es s1)"
proof (induction es arbitrary: s1)
  case (Cons e es)
  have "key_step s1 (apply_edit env e s1)"
    using Cons.prems(3) handle_key_step [OF assms Cons.prems(1)] handlePaste_step [OF Cons.prems(1)] by (cases e) auto
  with Cons show ?case by (auto intro: key_step_ok undo_inv_step)
qed simp

text \<open>C22: However long one edits, by keys other than undo and by pastes, as many undos as there are new snapshots bring back the
  text the editing began with, and the undo stack of then; nothing is typed that no snapshot precedes.\<close>

theorem undo_brings_back:
  assumes "segmenter_ok (ie_segmenter env)" and "input_ok s" and "li_lastAction s \<noteq> Some Type_word"
    and "list_all (\<lambda>e. \<not> is_undo env e) es"
    and "n = length (li_undoStack (fold (apply_edit env) es s)) - length (li_undoStack s)"
  shows "li_value ((undo ^^ n) (fold (apply_edit env) es s)) = li_value s
    \<and> li_undoStack ((undo ^^ n) (fold (apply_edit env) es s)) = li_undoStack s"
proof -
  have "undo_inv s s" using assms(3) by (simp add: undo_inv_def)
  from undo_inv_edits [OF assms(1,2) this assms(4)] obtain snaps where
    i: "li_undoStack (fold (apply_edit env) es s) = li_undoStack s @ snaps"
      "if snaps = [] then li_value (fold (apply_edit env) es s) = li_value s else fst (hd snaps) = li_value s"
    by (auto simp: undo_inv_def split: if_splits)
  then have "n = length snaps" using assms(5) by simp
  with i undo_pops [OF i(1)] show ?thesis by (cases "snaps = []") auto
qed

text \<open>C34: After any sequence of kills, backward and forward, by words or to the ends, that follows something other than a
  kill and of which at least one took effect, one yank puts the text back as it was before the first of them, for
  what is killed in a row is kept as one entry, in the order of the text. The segments that are like words are taken
  neither to begin nor to end with punctuation.\<close>

theorem kills_then_yank:
  assumes "segmenter_ok seg" and "input_ok s" and "li_lastAction s \<noteq> Some Kill" and "fold (do_kill seg) ks s \<noteq> s"
  shows "li_value (yank (fold (do_kill seg) ks s)) = li_value s
    \<and> length (li_killRing (fold (do_kill seg) ks s)) = Suc (length (li_killRing s))"
proof -
  from do_kills [OF assms(1) input_okD(1) [OF assms(2)] assms(3)] assms(4)
  obtain a b t where k: "at_cursor a b (fold (do_kill seg) ks s)" "li_killRing (fold (do_kill seg) ks s) = li_killRing s @ [t]"
    "t \<noteq> []" "li_value s = a @ t @ b" by (metis killed_so_far_def)
  from yank_at(1) [OF k(1)] k show ?thesis by (simp add: at_cursor_def)
qed

text \<open>After a yank, pressing yank-pop as often as the kill ring has entries goes once around the ring: text, cursor and ring are as before.\<close>

theorem yank_pop_cycles:
  assumes "input_ok s" and "li_lastAction s = Some Yank"
  shows "li_value ((yankPop ^^ length (li_killRing s)) s) = li_value s
    \<and> li_cursor ((yankPop ^^ length (li_killRing s)) s) = li_cursor s
    \<and> li_killRing ((yankPop ^^ length (li_killRing s)) s) = li_killRing s"
proof (cases "1 < length (li_killRing s)")
  case True
  obtain p where p: "before_cursor s = p @ last (li_killRing s)" using input_okD(2) [OF assms(1)] assms(2) by (auto simp: action_ok_def)
  have at: "at_cursor (p @ last (li_killRing s)) (behind_cursor s) s" using input_okD(1) [OF assms(1)] p by simp
  from yankPops_at [OF this assms(2) True, of "length (li_killRing s)"] at show ?thesis
    by (simp add: kill_rotate_full at_cursor_def)
next
  case False
  then have "yankPop s = s" by (simp add: yankPop_nothing)
  then have "(yankPop ^^ k) s = s" for k by (induction k) auto
  then show ?thesis by simp
qed

text \<open>The text set from outside between a yank and a yank-pop: the length of the text that was yanked is still taken from
  the cursor, which becomes negative.\<close>

theorem set_value_before_yank_pop:
  "li_cursor (yankPop (setValue [] (yank (new_input\<lparr>li_killRing := [''x'', ''long'']\<rparr>)))) = -3"
  by code_simp

theorem undo_brings_back_witness:
  "li_value (undo (undo (fold (apply_edit example_env) [Key_press ''a'', Key_press ''b'', Paste_text ''x y''] new_input))) = []"
proof -
  let ?es = "[Key_press ''a'', Key_press ''b'', Paste_text ''x y'']"
  have u: "list_all (\<lambda>e. \<not> is_undo example_env e) ?es" by code_simp
  have n: "2 = length (li_undoStack (fold (apply_edit example_env) ?es new_input)) - length (li_undoStack new_input)" by code_simp
  have l: "li_lastAction new_input \<noteq> Some Type_word" by code_simp
  have v: "li_value new_input = []" by code_simp
  have seg: "segmenter_ok (ie_segmenter example_env)" by (simp add: example_env_def char_segmenter_ok)
  from undo_brings_back [OF seg new_input_ok l u n] v show ?thesis by (simp only: numeral_2_eq_2 funpow.simps o_apply id_apply)
qed

theorem kills_then_yank_witness:
  "li_value (yank (fold (do_kill char_segmenter) [Kill_word_backward, Kill_word_forward, Kill_line_start] (new_input\<lparr>li_value := ''foo, bar'', li_cursor := 4\<rparr>)))
     = ''foo, bar''"
proof -
  let ?s = "new_input\<lparr>li_value := ''foo, bar'', li_cursor := 4\<rparr>" and ?ks = "[Kill_word_backward, Kill_word_forward, Kill_line_start]"
  have ok: "input_ok ?s" by (simp add: input_ok_def new_input_def cursor_ok_def)
  have l: "li_lastAction ?s \<noteq> Some Kill" by (simp add: new_input_def)
  have "li_cursor (fold (do_kill char_segmenter) ?ks ?s) \<noteq> li_cursor ?s" by code_simp
  then have n: "fold (do_kill char_segmenter) ?ks ?s \<noteq> ?s" by metis
  from kills_then_yank [OF char_segmenter_ok ok l n] show ?thesis by simp
qed

theorem yank_pop_cycles_witness:
  "li_value (yankPop (yankPop (yank (new_input\<lparr>li_killRing := [''x'', ''long'']\<rparr>)))) = ''long''"
proof -
  let ?s = "yank (new_input\<lparr>li_killRing := [''x'', ''long'']\<rparr>)"
  have s: "?s = new_input\<lparr>li_value := ''long'', li_cursor := 4, li_killRing := [''x'', ''long''], li_lastAction := Some Yank,
      li_undoStack := [([], 0)]\<rparr>" by code_simp
  have "input_ok ?s" unfolding s by (simp add: input_ok_def new_input_def cursor_ok_def before_cursor_def)
  from yank_pop_cycles [OF this] show ?thesis unfolding s by (simp add: numeral_2_eq_2)
qed

end
