(* ===== verification/Spec2Isabelle.thy ===== *)
theory Spec2Isabelle
  imports Prelude Hashline_Apply Hashline_Patch_Apply Hashline_Snapshots Conflict_History Session Uuid Truncate Job_Lifecycle Router_Select Router_Route Agent_Batch Agent_Run Branch_Summary Openai_Messages Line_Input
begin

text \<open>
  A verification library for the packages of pie-lab that carry its own logic: how an agent runs, how
  it edits files, how a conversation is kept, how jobs are scheduled, and how a request finds a model and an
  account. Every definition is executable and translated from the TypeScript under
  \<open>src/packages\<close>; names are those of the source where Isabelle allows it.

  \<^bold>\<open>The program and the theories\<close>

  \<^item> The agent loop (\<open>agent/src/agent-loop.ts\<close>, \<open>agent.ts\<close>). An operation reads and changes the world and
    may throw; every callback, tool and response stream is a function of the world, and an awaited
    call is a step of it. \<open>Agent_Io\<close> has these effects and the data, \<open>Agent_Tools\<close> one batch of tool
    calls, concurrent ones as an interleaving of their steps that a schedule chooses, \<open>Agent_Loop\<close>
    the response, the turn and the loop, \<open>Agent_Run\<close> the agent that owns a transcript and runs the loop
    with itself as the world. \<open>Agent_Protocol\<close> shows the order of events, \<open>Agent_Batch\<close> that a concurrent
    batch of independent tools does what a sequential one does, \<open>Agent_Orders\<close> what a run keeps of any
    order its callbacks keep, \<open>Agent_Termination\<close> that runs end.
  \<^item> Anchored edits (\<open>hashline/src\<close>). A file is shown to the model with a tag per file and a hash per
    line; edits name lines by these anchors. \<open>Hashline_Format\<close> has the hashes (\<open>hash.ts\<close>, \<open>format.ts\<close>),
    \<open>Line_Edits\<close> the line edits both formats end in, \<open>Hashline_Apply\<close> the edit tool's anchors
    (\<open>apply.ts\<close>), \<open>Hashline_Patch\<close> the patch language and \<open>Hashline_Patch_Apply\<close> its application
    (\<open>patch.ts\<close>), with line numbers and indices as integers, as the code computes them. The lemmas show that a set of edits is applied as if at once to the original
    lines, that it is applied wholly or not at all, that a recovered anchor only touches lines whose
    content the caller knew, and that printed patches parse back.
  \<^item> Recorded versions and conflicts. \<open>Hashline_Snapshots\<close> is the bounded store of recorded texts
    (\<open>snapshots.ts\<close>), refined to a list of paths ordered by recency; \<open>Hashline_Conflict\<close>
    (\<open>conflict.ts\<close>) and \<open>Conflict_History\<close> (\<open>core/tools/conflict-history.ts\<close> of the coding agent)
    are detection and resolution of merge conflicts. The lemmas give what resolution replaces, and
    that registration is idempotent.
  \<^item> Sessions (\<open>agent/src/harness/session\<close>). \<open>Session_Storage\<close> has the two storages, in memory and as
    a file of JSON lines, with writes that fail and may leave part of a line; \<open>Session\<close> has the operations of a session, the
    context built from a branch, and forks. The lemmas show that a session is a forest whose paths
    never change, that appending extends the context by what was appended, and that reopening the
    file gives back the state that wrote it, unless a write stopped halfway. \<open>Uuid\<close> is the source of entry ids.
  \<^item> Summaries (\<open>agent/src/harness/compaction\<close>, \<open>messages.ts\<close>). \<open>Compaction\<close> has the estimate of
    tokens, the cut, what is summarised and kept, the conversation as text and the requests for
    summaries; \<open>Branch_Summary\<close> the entries left behind when a session moves to another branch. The
    lemmas show that what the model sees after a compaction is the summary and every message after
    the cut, that the requests for summaries are made of exactly the rest, and that the kept part fits the budget and
    never begins with the result of a call that is gone.
  \<^item> Tool output (\<open>agent/src/harness/utils/truncate.ts\<close>). \<open>Truncate\<close> works on 16-bit code units; the
    lemmas show that what is kept is the longest that fits and that the byte count is that of the
    UTF-8 encoding.
  \<^item> Scheduled jobs (\<open>coding-agent/src/core/scheduler\<close>). \<open>Schedule\<close> has durations, cron expressions and
    the next run; \<open>Job_Store\<close> the operations of the job store on its file; \<open>Job_Lifecycle\<close> the
    invariant of the file over any interleaving of operations, and that jobs are claimed once and
    come back.
  \<^item> Routing (\<open>router/src/index.ts\<close>). \<open>Router_Cooldown\<close> has the error rules, the backoff and the reset
    times read from errors; \<open>Router_Select\<close> the choice of an account of a provider, whose specification is
    stated on the stored locks and quotas and holds while no expired lock is stored;
    \<open>Router_Route\<close> the selection language, scores, rotating combos, and the plan of routes, with the
    model registry of the coding agent as the catalog.
  \<^item> Requests to models (\<open>ai/src/api\<close>). \<open>Utf16_Text\<close> has texts as 16-bit code units, and the removal of
    unpaired surrogates (\<open>utils/sanitize-unicode.ts\<close>); \<open>Transform_Messages\<close> is what every provider does to a
    conversation first (\<open>transform-messages.ts\<close>), \<open>Anthropic_Messages\<close> and \<open>Openai_Messages\<close> make it the
    messages of a request (\<open>convertMessages\<close> of \<open>anthropic-messages.ts\<close> and \<open>openai-completions.ts\<close>). The
    lemmas show that every tool call of a request is answered right after it and every result has its
    call, whatever failed or was interrupted before, that the texts of a request are well-formed UTF-16, and
    that a complete conversation is sent as it is.
  \<^item> Terminal input (\<open>tui/src\<close>). \<open>Stdin_Buffer\<close> cuts the stream of bytes into keys and pastes
    (\<open>stdin-buffer.ts\<close>), \<open>Keys\<close> names them and matches them with names (\<open>keys.ts\<close>), \<open>Keybindings\<close> has the
    bindings of commands (\<open>keybindings.ts\<close>) and \<open>Line_Input\<close> the single-line editor with its kill ring and undo
    stack (\<open>components/input.ts\<close>). The lemmas show that the cutting of the stream into chunks does not
    matter, that the tables of \<open>keys.ts\<close> agree for legacy input but for a few inputs, that the reports of the Kitty
    protocol are read back in all their forms, that typing never runs a command, and
    that the editor keeps its cursor inside the text and its undo and yank give the text back.

  \<^bold>\<open>Interfaces\<close>

  \<open>Prelude\<close> has the JavaScript primitives and the locale \<open>comparator\<close> of a consistent sort order, which
  every order the code sorts by interprets. \<open>Js_Map\<close> has the insertion-ordered \<open>Map\<close> and the locale of
  the maps it implements. \<open>run_order\<close> is what the clients of the agent loop rest on: an order kept by the
  callbacks gives one kept by every operation of the loop; \<open>world_order\<close> is the case of an order on
  the world alone, interpreted for the budget of a provider, and the transcript of an agent is
  another interpretation. The storages of a session, the line edits of the two formats, and the
  catalog of models are locales too, each interpreted on the definitions of the component that
  provides it.

  \<^bold>\<open>Parameters\<close>

  What is not in the repository is an argument: the clock, random bytes, the JSON codec of session
  entries (with the law that reading gives back what was written), local time (an environment record
  with the laws of a calendar), the hash functions of the run time where only their results matter,
  the credentials of models, JSON in signatures of thoughts, the fields of stored messages that compaction reads (a \<open>message_reader\<close>), the
  model that writes summaries, the segmentation of text into graphemes and words, and what the agent loop calls: provider, tools, hooks, listeners and the
  order in which concurrent tools progress. Strings are lists of characters, with classes such as white space and
  case as those of code units below 256; where surrogates matter, in requests and in truncation, they are lists of 16-bit
  code units. A word-like segment is assumed neither to begin nor to end with punctuation: this holds of the default rules below code unit
  256, while after a Hebrew letter a segment may end with an apostrophe. Scores, costs and percentages are rationals where the code
  has floating-point numbers, so rounding is outside the model.

  \<^bold>\<open>Termination\<close>

  Loops are structural or have a measure. The agent loop has no bound: it is a partial function whose
  value says whether it returns, and theorems give two reasons why it does. The search for the next cron run has the code's own bound
  of minutes; walks from an entry to its root use as fuel the number of entries, which the
  invariant of a session shows to be enough; ids are retried the code's own hundred times. In each
  case the theorems state the result, not only its correctness if there is one.

  \<^bold>\<open>Not modelled\<close>

  The rest of the model providers (\<open>packages/ai\<close>) is streaming protocols and generated tables; the interactive
  modes, the rendering of the terminal library and its multi-line editor, the web applications, the orchestrator and the package manager are
  input and output around the parts above; the scheduler's runner and deliveries start processes and
  send messages; the output compression of the router and the prompt scan are lists of regular
  expressions. Of the agent loop, partial results are reported one at a time; the end of a tool in a concurrent batch,
  the hook after it and its end event are one step of the interleaving, although the code awaits between them; when a concurrent
  batch fails, what its other tools still do is left out; listeners do not come and go during a run. Objects that serve as
  dictionaries are association lists, without the properties that JavaScript objects inherit.
\<close>

end
